(* ===== verification/Prelude.thy ===== *)
theory Prelude
  imports Main "HOL-Library.Word"
begin

text \<open>
  Shared vocabulary of the development: the machine integer types of the C++ sources, the
  conversion between block addresses and byte offsets (\<^verbatim>\<open>SCSI::LBA2OFFSET\<close> and its
  inverse in \<^verbatim>\<open>include/common.h\<close>), the byte order functions of the x86-64 host the program
  is built for, and the list lemmas that several components need.
\<close>

unbundle bit_operations_syntax

named_theorems wf_defs \<open>definitions of well-formedness predicates\<close>
named_theorems op_defs \<open>definitions of non-recursive operations\<close>

type_synonym u8 = "8 word"
type_synonym u16 = "16 word"
type_synonym u32 = "32 word"
type_synonym u64 = "64 word"

section \<open>Blocks and bytes\<close>

text \<open>
  \<^verbatim>\<open>LBAUNIT\<close> is \<open>1 << 9\<close>; a block address is turned into a byte offset by a shift of nine bits.
  Block addresses come from 32-bit fields of a command block, so the shift stays far below
  \<open>2 ^ 64\<close> and is written on \<open>nat\<close>.
\<close>

definition LBAUNIT :: nat where
  "LBAUNIT = 512"

definition LBA2OFFSET :: "nat \<Rightarrow> nat" where
  "LBA2OFFSET lba = push_bit 9 lba"

definition OFFSET2LBA :: "nat \<Rightarrow> nat" where
  "OFFSET2LBA off = drop_bit 9 off"

lemma LBA2OFFSET_eq: "LBA2OFFSET lba = 512 * lba"
  by (simp add: LBA2OFFSET_def push_bit_eq_mult)

lemma OFFSET2LBA_eq: "OFFSET2LBA off = off div 512"
  by (simp add: OFFSET2LBA_def drop_bit_eq_div)

lemma OFFSET2LBA_LBA2OFFSET [simp]: "OFFSET2LBA (LBA2OFFSET lba) = lba"
  by (simp add: LBA2OFFSET_eq OFFSET2LBA_eq)

lemma LBA2OFFSET_OFFSET2LBA_le: "LBA2OFFSET (OFFSET2LBA off) \<le> off"
  by (simp add: LBA2OFFSET_eq OFFSET2LBA_eq)

lemma LBA2OFFSET_mono: "a \<le> b \<Longrightarrow> LBA2OFFSET a \<le> LBA2OFFSET b"
  by (simp add: LBA2OFFSET_eq)

lemma LBA2OFFSET_add: "LBA2OFFSET (a + b) = LBA2OFFSET a + LBA2OFFSET b"
  by (simp add: LBA2OFFSET_eq)

lemma LBA2OFFSET_0 [simp]: "LBA2OFFSET 0 = 0"
  by (simp add: LBA2OFFSET_eq)

section \<open>64-bit unsigned arithmetic\<close>

text \<open>Sums and differences of \<^verbatim>\<open>uint64_t\<close> and \<^verbatim>\<open>size_t\<close> values where they may wrap around.\<close>

definition add64 :: "nat \<Rightarrow> nat \<Rightarrow> nat" where
  "add64 a b = (a + b) mod 2 ^ 64"

definition sub64 :: "nat \<Rightarrow> nat \<Rightarrow> nat" where
  "sub64 a b = (a + 2 ^ 64 - b) mod 2 ^ 64"

lemma add64_exact [simp]: "a + b < 2 ^ 64 \<Longrightarrow> add64 a b = a + b"
  by (simp add: add64_def)

lemma sub64_exact [simp]: "b \<le> a \<Longrightarrow> a < 2 ^ 64 \<Longrightarrow> sub64 a b = a - b"
proof -
  assume "b \<le> a" "a < 2 ^ 64"
  then have "a + 2 ^ 64 - b = (a - b) + 2 ^ 64" "a - b < 2 ^ 64" by auto
  then show ?thesis unfolding sub64_def by (metis mod_add_self2 mod_less)
qed

section \<open>Lists\<close>

lemma length_takeWhile_less_nth:
  "i < length (takeWhile P xs) \<Longrightarrow> P (xs ! i)"
  by (metis nth_mem set_takeWhileD takeWhile_nth)

lemma takeWhile_stop:
  "length (takeWhile P xs) < length xs \<Longrightarrow> \<not> P (xs ! length (takeWhile P xs))"
  by (rule nth_length_takeWhile)

text \<open>Summing a measure over a list after one position has changed.\<close>

lemma sum_list_map_update:
  "i < length xs \<Longrightarrow>
     sum_list (map f (xs[i := x])) + f (xs ! i) = sum_list (map f xs) + (f x :: nat)"
  by (induction xs arbitrary: i) (auto split: nat.splits)

end
