(* ===== verification/Counters.thy ===== *)
theory Counters
  imports Prelude
begin

text \<open>
  The counters of \<^verbatim>\<open>include/counter.h\<close>, the write-pool limiter of \<^verbatim>\<open>include/limitter.h\<close> and the
  receive information of \<^verbatim>\<open>include/info.h\<close>. A counter object is its one field; a call returns
  the value and the new field, and where the source throws, the exception is a value beside the
  field the throw leaves behind.
\<close>

section \<open>IncrementalCounter and SequenceCounter\<close>

text \<open>
  \<^verbatim>\<open>T tmp = counter++; if(tmp >= MAX) counter = MIN; return tmp;\<close> at \<open>T = uint32_t\<close>.
  \<^verbatim>\<open>SequenceCounter\<close> passes \<^verbatim>\<open>ULONG_MAX\<close> for \<^verbatim>\<open>MAX\<close>, which the conversion to \<^verbatim>\<open>uint32_t\<close>
  makes \<open>2 ^ 32 - 1\<close>.
\<close>

definition incremental_counter :: "u32 \<Rightarrow> u32 \<Rightarrow> u32 \<Rightarrow> u32 \<times> u32" where
  "incremental_counter mn mx counter =
     (let tmp = counter;
          counter' = counter + 1;
          counter'' = (if tmp \<ge> mx then mn else counter')
      in (tmp, counter''))"

type_synonym seq_counter = u32

definition ULONG_MAX_as_u32 :: u32 where
  "ULONG_MAX_as_u32 = ucast (18446744073709551615 :: u64)"

definition seq_init :: seq_counter where
  "seq_init = 0"

definition seq_call :: "seq_counter \<Rightarrow> u32 \<times> seq_counter" where
  "seq_call = incremental_counter 0 ULONG_MAX_as_u32"

definition seq_set :: "u32 \<Rightarrow> seq_counter \<Rightarrow> seq_counter" where
  "seq_set isn c = isn"

definition seq_cur :: "seq_counter \<Rightarrow> u32" where
  "seq_cur c = c"

text \<open>The values that \<open>n\<close> consecutive calls hand out, and the field they leave.\<close>

fun seq_calls :: "nat \<Rightarrow> seq_counter \<Rightarrow> u32 list \<times> seq_counter" where
  "seq_calls 0 c = ([], c)"
| "seq_calls (Suc n) c =
     (let (v, c1) = seq_call c; (vs, c2) = seq_calls n c1 in (v # vs, c2))"

lemma ULONG_MAX_as_u32_eq: "ULONG_MAX_as_u32 = -1"
  by (simp add: ULONG_MAX_as_u32_def)

lemma seq_call_eq [simp]: "seq_call c = (c, c + 1)"
proof -
  have "c + 1 = 0" if "ULONG_MAX_as_u32 \<le> c"
    using that by (simp add: ULONG_MAX_as_u32_eq word_order.extremum_unique)
  then show ?thesis
    by (auto simp: seq_call_def incremental_counter_def Let_def)
qed

lemma seq_cur_simp [simp]: "seq_cur c = c"
  by (simp add: seq_cur_def)

lemma seq_set_simp [simp]: "seq_set isn c = isn"
  by (simp add: seq_set_def)

lemma seq_calls_eq:
  "seq_calls n c = (map (\<lambda>i. c + of_nat i) [0..<n], c + of_nat n)"
proof (induction n arbitrary: c)
  case 0
  then show ?case by simp
next
  case (Suc n)
  have "map (\<lambda>i. c + of_nat i) [0..<Suc n] = c # map (\<lambda>i. c + 1 + of_nat i) [0..<n]"
    by (simp del: upt_Suc add: upt_conv_Cons map_Suc_upt [symmetric] add.assoc)
  then show ?case by (simp add: Suc.IH add.assoc del: upt_Suc)
qed

text \<open>A sequence counter hands out consecutive numbers modulo \<open>2 ^ 32\<close> and none of them twice
  within \<open>2 ^ 32\<close> calls: the property that StatSN, DataSN, R2TSN and CmdSN generation rest on.\<close>

theorem seq_calls_distinct:
  "n \<le> 2 ^ 32 \<Longrightarrow>
     fst (seq_calls n c) = map (\<lambda>i. c + of_nat i) [0..<n] \<and> distinct (fst (seq_calls n c))"
proof -
  assume n: "n \<le> 2 ^ 32"
  have "inj_on (\<lambda>i. c + of_nat i) {0..<n}"
  proof (rule inj_onI)
    fix i j
    assume ij: "i \<in> {0..<n}" "j \<in> {0..<n}" and eq: "c + of_nat i = c + (of_nat j :: u32)"
    from eq have "(of_nat i :: u32) = of_nat j" by simp
    then have "unat (of_nat i :: u32) = unat (of_nat j :: u32)" by simp
    with ij n show "i = j" by (simp add: unat_of_nat)
  qed
  then show ?thesis by (simp add: seq_calls_eq distinct_map)
qed

theorem seq_calls_distinct_witness:
  "fst (seq_calls 3 (-2)) = [-2, -1, 0]"
  using seq_calls_distinct [of 3 "-2"] by (simp add: upt_rec)

section \<open>NumberCounter and SingletonCounter\<close>

text \<open>
  At \<open>T = size_t\<close>. The mutex of \<^verbatim>\<open>SingletonCounter\<close> makes each call atomic, so a call is one
  function. \<open>Inl\<close> carries the message of the \<^verbatim>\<open>runtime_error\<close>; the second component is the
  field after the call, which the throwing paths have already written.
\<close>

type_synonym num_result = "(string + u64) \<times> u64"

definition num_inc :: "u64 \<Rightarrow> u64 \<Rightarrow> num_result" where
  "num_inc mx counter =
     (let tmp = counter; counter' = counter + 1
      in if tmp \<ge> mx then (Inl ''Too large to increment'', mx) else (Inr counter', counter'))"

definition num_add :: "u64 \<Rightarrow> u64 \<Rightarrow> u64 \<Rightarrow> num_result" where
  "num_add mx diff counter =
     (let tmp = counter; counter' = counter + diff
      in if tmp \<ge> mx then (Inl ''Too large to increment'', mx) else (Inr counter', counter'))"

definition num_dec :: "u64 \<Rightarrow> u64 \<Rightarrow> num_result" where
  "num_dec mn counter =
     (let tmp = counter; counter' = counter - 1
      in if tmp \<le> mn then (Inl ''Too small to decrement'', mn) else (Inr counter', counter'))"

lemma word_less_plus_1: "(c :: u64) < mx \<Longrightarrow> c + 1 \<le> mx"
  by (simp add: inc_le)

lemma num_inc_bounds: "mn \<le> c \<Longrightarrow> c \<le> mx \<Longrightarrow> snd (num_inc mx c) \<le> mx"
  by (auto simp: num_inc_def Let_def word_less_plus_1)

lemma num_dec_bounds: "mn \<le> c \<Longrightarrow> c \<le> mx \<Longrightarrow>
    mn \<le> snd (num_dec mn c) \<and> snd (num_dec mn c) \<le> mx"
  unfolding num_dec_def Let_def by (simp split: if_splits) unat_arith

text \<open>Incrementing and decrementing keep a bounded counter inside \<open>MIN .. MAX\<close>, and an
  exception is raised exactly at the bound; adding checks the old value instead of the new one, so
  \<open>operator+=\<close> lets the counter pass its maximum (here 127 + 63 on the counter of 128).\<close>

theorem number_counter_bounds:
  "(mn \<le> c \<and> c \<le> mx \<longrightarrow>
      snd (num_inc mx c) \<le> mx \<and> mn \<le> snd (num_dec mn c) \<and> snd (num_dec mn c) \<le> mx \<and>
      (isl (fst (num_inc mx c)) \<longleftrightarrow> c = mx) \<and> (isl (fst (num_dec mn c)) \<longleftrightarrow> c = mn)) \<and>
   num_add 128 63 127 = (Inr 190, 190)"
proof -
  have "(isl (fst (num_inc mx c)) \<longleftrightarrow> c = mx) \<and> (isl (fst (num_dec mn c)) \<longleftrightarrow> c = mn)"
    if "mn \<le> c" "c \<le> mx"
    using that by (auto simp: num_inc_def num_dec_def Let_def)
  moreover have "num_add 128 63 127 = (Inr 190, 190)"
    by (simp add: num_add_def)
  ultimately show ?thesis
    by (auto simp: num_inc_bounds num_dec_bounds)
qed

theorem number_counter_bounds_witness:
  "snd (num_inc 128 5) \<le> (128 :: u64) \<and> (isl (fst (num_inc 128 (128 :: u64))) \<longleftrightarrow> True)"
  using number_counter_bounds [of 0 5 128] number_counter_bounds [of 0 128 128] by simp

section \<open>LinearLimitter\<close>

text \<open>
  \<^verbatim>\<open>size_t\<close> arithmetic throughout. The division by \<open>ainv\<close> is an integer division whose
  divisor may be zero, which traps: \<open>None\<close>. The subtraction from \<^verbatim>\<open>CMD_QUEUE_SIZE\<close> wraps.
\<close>

record linear_limitter =
  lim_x1 :: u64
  lim_x2 :: u64
  lim_ainv :: u64

definition CMD_QUEUE_SIZE :: u64 where
  "CMD_QUEUE_SIZE = 0x8f"

definition LinearLimitter :: "u64 \<Rightarrow> u64 \<Rightarrow> linear_limitter" where
  "LinearLimitter x1 x2 =
     \<lparr>lim_x1 = x1, lim_x2 = x2, lim_ainv = (x2 - x1) div (CMD_QUEUE_SIZE - 1)\<rparr>"

definition lim_getY :: "linear_limitter \<Rightarrow> u64 \<Rightarrow> u64 option" where
  "lim_getY l x =
     (if x < lim_x1 l then Some CMD_QUEUE_SIZE
      else if x \<ge> lim_x2 l then Some 1
      else if lim_ainv l = 0 then None
      else Some (CMD_QUEUE_SIZE - (x - lim_x1 l) div lim_ainv l))"

text \<open>Below: the limits of \<^verbatim>\<open>CommonBuf::getLimitter\<close>, in numbers of buffers.\<close>

definition COMMON_REAL_SIZE :: u64 where
  "COMMON_REAL_SIZE = 32 * 4096 + 512"

definition SIZEOF_COMMONBUF :: u64 where
  "SIZEOF_COMMONBUF = 32"

definition getLimitter :: "u64 \<Rightarrow> u64 \<Rightarrow> linear_limitter" where
  "getLimitter poolsoftlimit poolhardlimit =
     LinearLimitter (poolsoftlimit div (COMMON_REAL_SIZE + SIZEOF_COMMONBUF))
       (poolhardlimit div (COMMON_REAL_SIZE + SIZEOF_COMMONBUF))"

lemma unat_ainv: "unat x1 \<le> unat x2 \<Longrightarrow>
    unat (lim_ainv (LinearLimitter x1 x2)) = (unat x2 - unat x1) div 142"
  by (simp add: LinearLimitter_def CMD_QUEUE_SIZE_def unat_div unat_sub word_le_nat_alt)

lemma slope_le_142:
  assumes "142 * 142 \<le> (d :: nat)" and "k < d"
  shows "k div (d div 142) \<le> 142"
proof -
  have q: "142 \<le> d div 142" using assms(1) by simp
  have "k < 142 * (d div 142) + 142" using assms(2) by simp
  also have "\<dots> \<le> 143 * (d div 142)" using q by simp
  finally have "k div (d div 142) < 143"
    using q by (simp add: less_mult_imp_div_less mult.commute)
  then show ?thesis by simp
qed

lemma lim_getY_mid:
  assumes le: "unat x1 \<le> unat x2" and wide: "142 * 142 \<le> unat x2 - unat x1"
    and x: "x1 \<le> x" "x < x2"
  shows "\<exists>y. lim_getY (LinearLimitter x1 x2) x = Some y \<and>
           unat y = 143 - (unat x - unat x1) div ((unat x2 - unat x1) div 142) \<and>
           1 \<le> unat y \<and> unat y \<le> 143"
proof -
  let ?l = "LinearLimitter x1 x2"
  let ?k = "(unat x - unat x1) div ((unat x2 - unat x1) div 142)"
  have a: "unat (lim_ainv ?l) = (unat x2 - unat x1) div 142" by (rule unat_ainv [OF le])
  have xn: "unat x1 \<le> unat x" "unat x < unat x2"
    using x by (simp_all add: word_le_nat_alt word_less_nat_alt)
  have k: "?k \<le> 142" by (rule slope_le_142 [OF wide]) (use xn in simp)
  have "lim_ainv ?l \<noteq> 0" using a wide by (auto simp: unat_eq_0 [symmetric])
  then have eq: "lim_getY ?l x = Some (143 - (x - x1) div lim_ainv ?l)"
    using x by (auto simp: lim_getY_def LinearLimitter_def CMD_QUEUE_SIZE_def)
  have d: "unat ((x - x1) div lim_ainv ?l) = ?k"
    using x by (simp add: unat_div a unat_sub)
  have "unat (143 - (x - x1) div lim_ainv ?l) = 143 - ?k"
    using k by (subst unat_sub) (simp_all add: word_le_nat_alt d)
  moreover have "1 \<le> 143 - ?k" using k by linarith
  ultimately show ?thesis using eq by (metis diff_le_self)
qed

text \<open>When the two pool limits are at least \<open>142 * 142\<close> buffers apart, the limiter returns a
  queue size between 1 and \<^verbatim>\<open>CMD_QUEUE_SIZE\<close> for every pool size.\<close>

theorem lim_getY_range:
  assumes "unat x1 \<le> unat x2" and "142 * 142 \<le> unat x2 - unat x1"
  shows "\<exists>y. lim_getY (LinearLimitter x1 x2) x = Some y \<and> 1 \<le> unat y \<and> unat y \<le> 143"
proof (cases "x1 \<le> x \<and> x < x2")
  case True
  with lim_getY_mid [OF assms, of x] show ?thesis by blast
next
  case False
  then show ?thesis
    by (auto simp: lim_getY_def LinearLimitter_def CMD_QUEUE_SIZE_def not_le not_less)
qed

theorem lim_getY_range_witness:
  "\<exists>y. lim_getY (LinearLimitter 10 30000) 20000 = Some y \<and> 1 \<le> unat y \<and> unat y \<le> 143"
  by (rule lim_getY_range) simp_all

text \<open>With the documented defaults (128 MB and 256 MB) the limits are 1019 and 2039 buffers,
  and for pool sizes from 2027 to 2038 the subtraction wraps to a number near \<open>2 ^ 64\<close>; with the
  smallest limits the validator accepts (1 MB and 2 MB) the slope is zero and the division traps.\<close>

theorem lim_getY_defaults_wrap:
  "lim_getY (getLimitter 134217728 268435456) 2027 = Some (2 ^ 64 - 1) \<and>
   lim_getY (getLimitter 134217728 268435456) 2038 = Some (2 ^ 64 - 2) \<and>
   lim_getY (getLimitter 1048576 2097152) 7 = None"
  by (simp add: lim_getY_def getLimitter_def LinearLimitter_def CMD_QUEUE_SIZE_def
      COMMON_REAL_SIZE_def SIZEOF_COMMONBUF_def)

section \<open>DataOutInfo\<close>

text \<open>What is kept per initiator task tag while a write waits for its data.\<close>

record data_out_info =
  doi_lba :: nat
  doi_total :: u32
  doi_remain :: u32
  doi_r2tsn_gen :: seq_counter

definition DataOutInfo :: "nat \<Rightarrow> u32 \<Rightarrow> u32 \<Rightarrow> data_out_info" where
  "DataOutInfo lba tot remain =
     \<lparr>doi_lba = lba, doi_total = tot, doi_remain = remain, doi_r2tsn_gen = seq_init\<rparr>"

definition advanceR2TSN :: "data_out_info \<Rightarrow> u32 \<times> data_out_info" where
  "advanceR2TSN d = (let (v, c) = seq_call (doi_r2tsn_gen d) in (v, d\<lparr>doi_r2tsn_gen := c\<rparr>))"

definition setRemain :: "u32 \<Rightarrow> data_out_info \<Rightarrow> data_out_info" where
  "setRemain r d = d\<lparr>doi_remain := r\<rparr>"

end
