(* ===== verification/Buffers.thy ===== *)
theory Buffers
  imports Counters
begin

text \<open>
  The receive buffers of \<^verbatim>\<open>include/ioveccontainer.h\<close> and \<^verbatim>\<open>src/ioveccontainer.cpp\<close>: a
  \<^verbatim>\<open>CommonBuf\<close> is a fixed block of memory with a read offset and a write tail, an
  \<^verbatim>\<open>IovecContainer\<close> is the list of buffers a connection receives into together with the
  \<^verbatim>\<open>iovec\<close> array handed to \<^verbatim>\<open>readv\<close>. Buffers are shared by pointer, so the container holds
  buffer numbers and a store maps them to buffers; a C pointer into a buffer is the pair of the
  buffer number and the offset from its head.
\<close>

section \<open>CommonBuf\<close>

record common_buf =
  cb_bytes :: "nat \<Rightarrow> u8"
  cb_size :: nat
  cb_offset :: nat
  cb_tail :: nat

definition COMMON_BUF_SIZE :: nat where
  "COMMON_BUF_SIZE = 32 * 4096"

definition new_CommonBuf :: "(nat \<Rightarrow> u8) \<Rightarrow> common_buf" where
  "new_CommonBuf m = \<lparr>cb_bytes = m, cb_size = COMMON_BUF_SIZE, cb_offset = 0, cb_tail = 0\<rparr>"

definition cb_getRemain :: "common_buf \<Rightarrow> nat" where
  "cb_getRemain b = cb_tail b - cb_offset b"

definition cb_getCapacity :: "common_buf \<Rightarrow> nat" where
  "cb_getCapacity b = cb_size b - cb_tail b"

definition cb_isEdge :: "common_buf \<Rightarrow> nat \<Rightarrow> nat \<Rightarrow> bool" where
  "cb_isEdge b ptr challenge \<longleftrightarrow> cb_size b - ptr < challenge"

definition cb_begin :: "common_buf \<Rightarrow> bool" where
  "cb_begin b \<longleftrightarrow> cb_offset b = 0"

definition cb_end :: "common_buf \<Rightarrow> bool" where
  "cb_end b \<longleftrightarrow> cb_offset b = cb_size b"

definition cb_stepForwardTail :: "nat \<Rightarrow> common_buf \<Rightarrow> bool \<times> common_buf" where
  "cb_stepForwardTail step b =
     (if cb_size b < cb_tail b + step then (False, b)
      else (True, b\<lparr>cb_tail := cb_tail b + step\<rparr>))"

definition cb_stepBackwardTail :: "nat \<Rightarrow> common_buf \<Rightarrow> bool \<times> common_buf" where
  "cb_stepBackwardTail step b =
     (if step > cb_getRemain b then (False, b)
      else (True, b\<lparr>cb_tail := cb_tail b - step\<rparr>))"

definition cb_stepForwardOffset :: "nat \<Rightarrow> common_buf \<Rightarrow> bool \<times> common_buf" where
  "cb_stepForwardOffset step b =
     (if cb_getRemain b < step then (False, b)
      else (True, b\<lparr>cb_offset := cb_offset b + step\<rparr>))"

text \<open>The invariant that makes the unsigned subtractions of the getters exact.\<close>

definition cb_wf :: "common_buf \<Rightarrow> bool" where
  "cb_wf b \<longleftrightarrow> cb_offset b \<le> cb_tail b \<and> cb_tail b \<le> cb_size b"

lemmas cb_defs = cb_getRemain_def cb_getCapacity_def cb_stepForwardTail_def
  cb_stepBackwardTail_def cb_stepForwardOffset_def cb_wf_def

lemma cb_wf_new: "cb_wf (new_CommonBuf m)"
  by (simp add: cb_wf_def new_CommonBuf_def)

text \<open>Every operation of a buffer keeps \<open>offset \<le> tail \<le> size\<close>, succeeds exactly when
  the step fits, leaves the buffer alone when it fails, and moves only its own index.\<close>

theorem cb_steps_wf:
  assumes "cb_wf b"
  shows "cb_wf (snd (cb_stepForwardTail n b)) \<and> cb_wf (snd (cb_stepBackwardTail n b)) \<and>
    cb_wf (snd (cb_stepForwardOffset n b)) \<and>
    (fst (cb_stepForwardTail n b) \<longleftrightarrow> n \<le> cb_getCapacity b) \<and>
    (fst (cb_stepBackwardTail n b) \<longleftrightarrow> n \<le> cb_getRemain b) \<and>
    (fst (cb_stepForwardOffset n b) \<longleftrightarrow> n \<le> cb_getRemain b) \<and>
    (\<not> fst (cb_stepForwardTail n b) \<longrightarrow> snd (cb_stepForwardTail n b) = b) \<and>
    cb_bytes (snd (cb_stepForwardTail n b)) = cb_bytes b"
  using assms by (auto simp: cb_defs)

theorem cb_steps_wf_witness:
  "cb_wf (snd (cb_stepForwardOffset 48 (snd (cb_stepForwardTail 100 (new_CommonBuf (\<lambda>_. 0))))))"
  using cb_steps_wf [of "snd (cb_stepForwardTail 100 (new_CommonBuf (\<lambda>_. 0)))" 48]
  by (auto simp: cb_defs new_CommonBuf_def COMMON_BUF_SIZE_def)

section \<open>IovecContainer\<close>

type_synonym cbuf_ptr = nat

record buf_store =
  bs_buf :: "cbuf_ptr \<Rightarrow> common_buf"
  bs_next :: cbuf_ptr

record iovec =
  iov_base :: "cbuf_ptr \<times> nat"
  iov_len :: nat

record iovec_container =
  ic_vec :: "iovec list"
  ic_count :: nat
  ic_cbufs :: "cbuf_ptr list"
  ic_remain :: nat
  ic_overflow :: nat

definition new_IovecContainer :: iovec_container where
  "new_IovecContainer =
     \<lparr>ic_vec = [], ic_count = 0, ic_cbufs = [], ic_remain = 0, ic_overflow = 0\<rparr>"

text \<open>\<^verbatim>\<open>new CommonBuf\<close>: a fresh buffer with whatever bytes the pool's memory holds.\<close>

definition alloc_cbuf :: "(nat \<Rightarrow> u8) \<Rightarrow> buf_store \<Rightarrow> cbuf_ptr \<times> buf_store" where
  "alloc_cbuf m st =
     (bs_next st, st\<lparr>bs_buf := (bs_buf st)(bs_next st := new_CommonBuf m), bs_next := Suc (bs_next st)\<rparr>)"

text \<open>\<^verbatim>\<open>stepForwardTail\<close>: fill the buffers front first; what is left over is the result.\<close>

fun ic_fill :: "cbuf_ptr list \<Rightarrow> nat \<Rightarrow> buf_store \<Rightarrow> nat \<times> buf_store" where
  "ic_fill [] sz st = (sz, st)"
| "ic_fill (p # ps) sz st =
     (if sz = 0 then (sz, st)
      else
        let b = bs_buf st p; capacity = cb_getCapacity b in
        if capacity < sz
        then ic_fill ps (sz - capacity)
               (st\<lparr>bs_buf := (bs_buf st)(p := snd (cb_stepForwardTail capacity b))\<rparr>)
        else ic_fill ps 0 (st\<lparr>bs_buf := (bs_buf st)(p := snd (cb_stepForwardTail sz b))\<rparr>))"

definition ic_stepForwardTail ::
  "iovec_container \<Rightarrow> nat \<Rightarrow> buf_store \<Rightarrow> bool \<times> buf_store" where
  "ic_stepForwardTail ic sz st =
     (let (left, st') = ic_fill (ic_cbufs ic) sz st in (left = 0, st'))"

text \<open>
  \<^verbatim>\<open>stepForwardOffset(size_t &size)\<close> consumes bytes of the first buffer that is not read to its
  end. In its second branch \<^verbatim>\<open>size\<close> is set to zero before \<^verbatim>\<open>remain -= size\<close>, which therefore
  subtracts nothing; the model keeps that order. The results are the buffer, the new \<^verbatim>\<open>size\<close>
  and the new container and store.
\<close>

definition ic_stepForwardOffset ::
  "iovec_container \<Rightarrow> nat \<Rightarrow> buf_store \<Rightarrow> cbuf_ptr option \<times> nat \<times> iovec_container \<times> buf_store" where
  "ic_stepForwardOffset ic sz st =
     (case find (\<lambda>p. \<not> cb_end (bs_buf st p)) (ic_cbufs ic) of
        None \<Rightarrow> (None, sz, ic, st)
      | Some p \<Rightarrow>
          let b = bs_buf st p; capacity = cb_getRemain b in
          if capacity < sz
          then (Some p, sz - capacity, ic\<lparr>ic_remain := sub64 (ic_remain ic) capacity\<rparr>,
                st\<lparr>bs_buf := (bs_buf st)(p := snd (cb_stepForwardOffset capacity b))\<rparr>)
          else (Some p, 0, ic\<lparr>ic_remain := sub64 (ic_remain ic) 0\<rparr>,
                st\<lparr>bs_buf := (bs_buf st)(p := snd (cb_stepForwardOffset sz b))\<rparr>))"

text \<open>\<^verbatim>\<open>rotate\<close>: shift the \<^verbatim>\<open>iovec\<close> array down by \<^verbatim>\<open>count - index - 1\<close> entries and put a fresh
  buffer at the end of the list and of the array.\<close>

definition ic_rotate ::
  "(nat \<Rightarrow> u8) \<Rightarrow> nat \<Rightarrow> iovec_container \<Rightarrow> buf_store \<Rightarrow> iovec_container \<times> buf_store" where
  "ic_rotate m index ic st =
     (let n = ic_count ic - index - 1;
          moved = take n (drop 1 (ic_vec ic)) @ drop n (ic_vec ic);
          (p, st1) = alloc_cbuf m st;
          b = bs_buf st1 p;
          cell = \<lparr>iov_base = (p, cb_tail b), iov_len = cb_getCapacity b\<rparr>
      in (ic\<lparr>ic_vec := moved[ic_count ic - 1 := cell],
             ic_cbufs := ic_cbufs ic @ [p],
             ic_remain := ic_remain ic + cb_size b\<rparr>, st1))"

text \<open>\<^verbatim>\<open>reserve\<close>: allocate on first use, otherwise only check that enough is left.\<close>

fun ic_alloc_many ::
  "(nat \<Rightarrow> u8) \<Rightarrow> nat \<Rightarrow> iovec_container \<Rightarrow> buf_store \<Rightarrow> iovec_container \<times> buf_store" where
  "ic_alloc_many m 0 ic st = (ic, st)"
| "ic_alloc_many m (Suc n) ic st =
     (let (p, st1) = alloc_cbuf m st; b = bs_buf st1 p;
          cell = \<lparr>iov_base = (p, cb_offset b), iov_len = cb_size b\<rparr>
      in ic_alloc_many m n
           (ic\<lparr>ic_vec := ic_vec ic @ [cell], ic_cbufs := ic_cbufs ic @ [p],
               ic_remain := ic_remain ic + iov_len cell\<rparr>) st1)"

definition ic_reserve ::
  "(nat \<Rightarrow> u8) \<Rightarrow> nat \<Rightarrow> iovec_container \<Rightarrow> buf_store \<Rightarrow> bool \<times> iovec_container \<times> buf_store" where
  "ic_reserve m tot ic st =
     (if ic_count ic = 0
      then let c = max (tot div COMMON_BUF_SIZE + 1) 2;
               (ic', st') = ic_alloc_many m c (ic\<lparr>ic_count := c, ic_vec := []\<rparr>) st
           in (True, ic', st')
      else if ic_remain ic < tot then (False, ic, st)
      else (True, ic, st))"

text \<open>
  \<^verbatim>\<open>update\<close>: drop the buffers that are read to their end, replacing each by a fresh one unless
  overflow buffers are waiting; then, if the array's first entry points into the first buffer to
  be written, rotate past buffers that are full; finally the first entry is set to the write
  position. Both loops carry fuel; dereferencing the end iterator is \<open>None\<close> as well.
\<close>

fun ic_update_pop ::
  "nat \<Rightarrow> (nat \<Rightarrow> u8) \<Rightarrow> nat \<Rightarrow> iovec_container \<Rightarrow> buf_store \<Rightarrow> (iovec_container \<times> buf_store) option" where
  "ic_update_pop 0 m index ic st = None"
| "ic_update_pop (Suc fuel) m index ic st =
     (case ic_cbufs ic of
        [] \<Rightarrow> Some (ic, st)
      | p # ps \<Rightarrow>
          if cb_end (bs_buf st p)
          then let ic1 = ic\<lparr>ic_cbufs := ps\<rparr> in
               if ic_overflow ic1 > 0
               then ic_update_pop fuel m (Suc index) (ic1\<lparr>ic_overflow := ic_overflow ic1 - 1\<rparr>) st
               else let (ic2, st2) = ic_rotate m index ic1 st
                    in ic_update_pop fuel m (Suc index) ic2 st2
          else Some (ic, st))"

fun ic_update_over ::
  "nat \<Rightarrow> (nat \<Rightarrow> u8) \<Rightarrow> nat \<Rightarrow> nat \<Rightarrow> iovec_container \<Rightarrow> buf_store \<Rightarrow>
     (nat \<times> iovec_container \<times> buf_store) option" where
  "ic_update_over 0 m pos index ic st = None"
| "ic_update_over (Suc fuel) m pos index ic st =
     (if pos < length (ic_cbufs ic) \<and> cb_getCapacity (bs_buf st (ic_cbufs ic ! pos)) = 0
      then let (ic1, st1) = ic_rotate m index ic st
           in ic_update_over fuel m (Suc pos) (Suc index)
                (ic1\<lparr>ic_overflow := Suc (ic_overflow ic1)\<rparr>) st1
      else Some (pos, ic, st))"

definition ic_update ::
  "nat \<Rightarrow> (nat \<Rightarrow> u8) \<Rightarrow> iovec_container \<Rightarrow> buf_store \<Rightarrow> (iovec_container \<times> buf_store) option" where
  "ic_update fuel m ic st =
     (case ic_update_pop fuel m 0 ic st of
        None \<Rightarrow> None
      | Some (ic1, st1) \<Rightarrow>
          let pos = ic_overflow ic1 in
          if length (ic_cbufs ic1) \<le> pos \<or> ic_vec ic1 = [] then None
          else
            let base = iov_base (ic_vec ic1 ! 0);
                inRange = (fst base = ic_cbufs ic1 ! pos \<and>
                           snd base \<le> cb_size (bs_buf st1 (ic_cbufs ic1 ! pos)))
            in case (if inRange then ic_update_over fuel m pos 0 ic1 st1 else Some (pos, ic1, st1)) of
                 None \<Rightarrow> None
               | Some (pos2, ic2, st2) \<Rightarrow>
                   if length (ic_cbufs ic2) \<le> pos2 then None
                   else let p = ic_cbufs ic2 ! pos2; b = bs_buf st2 p;
                            cell = \<lparr>iov_base = (p, cb_tail b), iov_len = cb_getCapacity b\<rparr>
                        in Some (ic2\<lparr>ic_vec := (ic_vec ic2)[0 := cell]\<rparr>, st2))"

subsection \<open>Filling\<close>

definition ic_capacity :: "cbuf_ptr list \<Rightarrow> buf_store \<Rightarrow> nat" where
  "ic_capacity ps st = sum_list (map (\<lambda>p. cb_getCapacity (bs_buf st p)) ps)"

lemma ic_capacity_Cons [simp]:
  "ic_capacity (p # ps) st = cb_getCapacity (bs_buf st p) + ic_capacity ps st"
  by (simp add: ic_capacity_def)

lemma ic_capacity_Nil [simp]: "ic_capacity [] st = 0"
  by (simp add: ic_capacity_def)

lemma ic_capacity_frame [simp]:
  "p \<notin> set ps \<Longrightarrow> ic_capacity ps (st\<lparr>bs_buf := (bs_buf st)(p := b)\<rparr>) = ic_capacity ps st"
  by (auto simp: ic_capacity_def intro!: arg_cong [where f = sum_list] map_cong)

lemma ic_fill_frame: "q \<notin> set ps \<Longrightarrow> bs_buf (snd (ic_fill ps n st)) q = bs_buf st q"
  by (induction ps n st rule: ic_fill.induct) (auto simp: Let_def)

lemma ic_fill_0 [simp]: "ic_fill ps 0 st = (0, st)"
  by (cases ps) auto

lemma ic_fill_result: "distinct ps \<Longrightarrow> fst (ic_fill ps n st) = n - ic_capacity ps st"
  by (induction ps n st rule: ic_fill.induct) (auto simp: Let_def)

lemma ic_fill_wf:
  "\<forall>p. cb_wf (bs_buf st p) \<Longrightarrow> cb_wf (bs_buf (snd (ic_fill ps n st)) p)"
proof (induction ps n st rule: ic_fill.induct)
  case (1 sz st)
  then show ?case by simp
next
  case (2 q ps sz st)
  then show ?case using cb_steps_wf [of "bs_buf st q"]
    by (auto simp: Let_def)
qed

lemma ic_fill_capacity:
  "distinct ps \<Longrightarrow> \<forall>p. cb_wf (bs_buf st p) \<Longrightarrow>
     ic_capacity ps (snd (ic_fill ps n st)) = ic_capacity ps st - n"
proof (induction ps n st rule: ic_fill.induct)
  case (1 sz st)
  then show ?case by simp
next
  case (2 p ps sz st)
  let ?b = "bs_buf st p"
  have fr: "bs_buf (snd (ic_fill ps k s)) p = bs_buf s p" for k s
    using "2.prems" by (simp add: ic_fill_frame)
  have wf: "cb_wf ?b" using "2.prems" by blast
  show ?case
  proof (cases "sz = 0")
    case True
    then show ?thesis by simp
  next
    case nz: False
    show ?thesis
    proof (cases "cb_getCapacity ?b < sz")
      case True
      have "\<forall>q. cb_wf (bs_buf (st\<lparr>bs_buf := (bs_buf st)
               (p := snd (cb_stepForwardTail (cb_getCapacity ?b) ?b))\<rparr>) q)"
        using "2.prems" cb_steps_wf [OF wf] by auto
      with True nz "2.prems" "2.IH"(1) [OF nz refl refl True] wf show ?thesis
        by (auto simp: Let_def fr cb_defs)
    next
      case False
      with nz "2.prems" wf show ?thesis
        by (auto simp: Let_def fr cb_defs)
    qed
  qed
qed

text \<open>Accounting for a received chunk: \<^verbatim>\<open>stepForwardTail\<close> succeeds exactly when the chunk
  fits in the free space of all buffers together, consumes exactly the chunk from that space, and
  keeps every buffer well-formed.\<close>

theorem ic_stepForwardTail_correct:
  assumes "distinct (ic_cbufs ic)" and "\<forall>p. cb_wf (bs_buf st p)"
  shows "(fst (ic_stepForwardTail ic n st) \<longleftrightarrow> n \<le> ic_capacity (ic_cbufs ic) st) \<and>
    ic_capacity (ic_cbufs ic) (snd (ic_stepForwardTail ic n st)) =
      ic_capacity (ic_cbufs ic) st - n \<and>
    (\<forall>p. cb_wf (bs_buf (snd (ic_stepForwardTail ic n st)) p))"
  using assms ic_fill_result [of "ic_cbufs ic" n st] ic_fill_capacity [of "ic_cbufs ic" st n]
    ic_fill_wf [of st "ic_cbufs ic" n]
  by (auto simp: ic_stepForwardTail_def split_def)

theorem ic_stepForwardTail_correct_witness:
  "fst (ic_stepForwardTail (new_IovecContainer\<lparr>ic_cbufs := [0, 1]\<rparr>) 200000
     \<lparr>bs_buf = (\<lambda>_. new_CommonBuf (\<lambda>_. 0)), bs_next = 2\<rparr>)"
  using ic_stepForwardTail_correct [of "new_IovecContainer\<lparr>ic_cbufs := [0, 1]\<rparr>"
      "\<lparr>bs_buf = (\<lambda>_. new_CommonBuf (\<lambda>_. 0)), bs_next = 2\<rparr>" 200000]
  by (simp add: new_IovecContainer_def ic_capacity_def cb_defs new_CommonBuf_def COMMON_BUF_SIZE_def)

text \<open>The running total \<^verbatim>\<open>remain\<close> is not maintained by \<^verbatim>\<open>stepForwardOffset\<close> when the bytes
  asked for lie within one buffer: they are consumed, but \<^verbatim>\<open>remain\<close> keeps its value.\<close>

theorem ic_stepForwardOffset_keeps_remain:
  assumes "find (\<lambda>p. \<not> cb_end (bs_buf st p)) (ic_cbufs ic) = Some p"
    and "0 < n" and "n \<le> cb_getRemain (bs_buf st p)" and "ic_remain ic < 2 ^ 64"
  shows "case ic_stepForwardOffset ic n st of (r, left, ic', st') \<Rightarrow>
    r = Some p \<and> left = 0 \<and> ic_remain ic' = ic_remain ic \<and>
    cb_getRemain (bs_buf st' p) = cb_getRemain (bs_buf st p) - n \<and>
    cb_getRemain (bs_buf st' p) < cb_getRemain (bs_buf st p)"
  using assms by (auto simp: ic_stepForwardOffset_def cb_defs Let_def)

theorem ic_stepForwardOffset_keeps_remain_witness:
  "case ic_stepForwardOffset (new_IovecContainer\<lparr>ic_cbufs := [0], ic_remain := 96\<rparr>) 48
     \<lparr>bs_buf = (\<lambda>_. (new_CommonBuf (\<lambda>_. 0))\<lparr>cb_tail := 96\<rparr>), bs_next = 1\<rparr> of
     (r, left, ic', st') \<Rightarrow> ic_remain ic' = 96 \<and> cb_getRemain (bs_buf st' 0) = 48"
  using ic_stepForwardOffset_keeps_remain [of
      "\<lparr>bs_buf = (\<lambda>_. (new_CommonBuf (\<lambda>_. 0))\<lparr>cb_tail := 96\<rparr>), bs_next = 1\<rparr>"
      "new_IovecContainer\<lparr>ic_cbufs := [0], ic_remain := 96\<rparr>" 0 48]
  by (auto simp: new_IovecContainer_def cb_defs cb_end_def new_CommonBuf_def COMMON_BUF_SIZE_def)

subsection \<open>The loops of update stop\<close>

definition ic_fresh :: "iovec_container \<Rightarrow> buf_store \<Rightarrow> bool" where
  "ic_fresh ic st \<longleftrightarrow> (\<forall>p \<in> set (ic_cbufs ic). p < bs_next st)"

definition ended :: "iovec_container \<Rightarrow> buf_store \<Rightarrow> nat" where
  "ended ic st = length (filter (\<lambda>p. cb_end (bs_buf st p)) (ic_cbufs ic))"

lemma ic_rotate_cbufs:
  assumes "ic_rotate m index ic st = (ic', st')" and "ic_fresh ic st"
  shows "ic_cbufs ic' = ic_cbufs ic @ [bs_next st] \<and> ic_fresh ic' st' \<and>
    (\<forall>p \<in> set (ic_cbufs ic). bs_buf st' p = bs_buf st p) \<and>
    bs_buf st' (bs_next st) = new_CommonBuf m"
  using assms by (auto simp: ic_rotate_def alloc_cbuf_def ic_fresh_def Let_def) (meson less_SucI)

lemma not_end_new: "\<not> cb_end (new_CommonBuf m)"
  by (simp add: cb_end_def new_CommonBuf_def COMMON_BUF_SIZE_def)

lemma ended_rotate:
  assumes "ic_rotate m index ic st = (ic', st')" and "ic_fresh ic st"
  shows "ended ic' st' = ended ic st"
proof -
  note r = ic_rotate_cbufs [OF assms]
  have "filter (\<lambda>p. cb_end (bs_buf st' p)) (ic_cbufs ic) =
        filter (\<lambda>p. cb_end (bs_buf st p)) (ic_cbufs ic)"
    using r by (intro filter_cong) auto
  with r show ?thesis by (simp add: ended_def not_end_new)
qed

text \<open>The first loop of \<^verbatim>\<open>update\<close> always stops: one unit of fuel more than there are buffers
  read to their end is enough, and afterwards the first buffer is not one of them.\<close>

theorem ic_update_pop_total:
  assumes "ic_fresh ic st" and "ended ic st < fuel"
  shows "\<exists>ic' st'. ic_update_pop fuel m index ic st = Some (ic', st') \<and>
    (case ic_cbufs ic' of [] \<Rightarrow> True | p # _ \<Rightarrow> \<not> cb_end (bs_buf st' p))"
  using assms
proof (induction fuel arbitrary: index ic st)
  case 0
  then show ?case by simp
next
  case (Suc fuel)
  show ?case
  proof (cases "ic_cbufs ic")
    case Nil
    then show ?thesis by simp
  next
    case (Cons p ps)
    show ?thesis
    proof (cases "cb_end (bs_buf st p)")
      case False
      with Cons show ?thesis by simp
    next
      case True
      let ?ic1 = "ic\<lparr>ic_cbufs := ps\<rparr>"
      have fr: "ic_fresh ?ic1 st" using Suc.prems(1) Cons by (simp add: ic_fresh_def)
      have e: "ended ?ic1 st < fuel" using Suc.prems(2) Cons True by (simp add: ended_def)
      show ?thesis
      proof (cases "ic_overflow ic > 0")
        case ov: True
        have "ic_fresh (?ic1\<lparr>ic_overflow := ic_overflow ic - 1\<rparr>) st"
          "ended (?ic1\<lparr>ic_overflow := ic_overflow ic - 1\<rparr>) st < fuel"
          using fr e by (simp_all add: ic_fresh_def ended_def)
        from Suc.IH [OF this] Cons True ov show ?thesis by simp
      next
        case ov: False
        obtain ic2 st2 where r: "ic_rotate m index ?ic1 st = (ic2, st2)"
          by (metis surj_pair)
        have "ic_fresh ic2 st2" using ic_rotate_cbufs [OF r fr] by simp
        moreover have "ended ic2 st2 < fuel" using ended_rotate [OF r fr] e by simp
        ultimately show ?thesis using Suc.IH [of ic2 st2] Cons True ov r by simp
      qed
    qed
  qed
qed

theorem ic_update_pop_total_witness:
  "\<exists>ic' st'. ic_update_pop 3 (\<lambda>_. 0) 0 (new_IovecContainer\<lparr>ic_cbufs := [0, 1], ic_count := 2\<rparr>)
     \<lparr>bs_buf = (\<lambda>_. (new_CommonBuf (\<lambda>_. 0))\<lparr>cb_offset := COMMON_BUF_SIZE\<rparr>), bs_next = 2\<rparr> =
       Some (ic', st')"
  using ic_update_pop_total [of "new_IovecContainer\<lparr>ic_cbufs := [0, 1], ic_count := 2\<rparr>"
      "\<lparr>bs_buf = (\<lambda>_. (new_CommonBuf (\<lambda>_. 0))\<lparr>cb_offset := COMMON_BUF_SIZE\<rparr>), bs_next = 2\<rparr>" 3
      "\<lambda>_. 0" 0]
  by (auto simp: ic_fresh_def ended_def new_IovecContainer_def cb_end_def new_CommonBuf_def)

end
