(* ===== verification/WriteCache.thy ===== *)
theory WriteCache
  imports Buffers
begin

text \<open>
  The write cache of \<^verbatim>\<open>include/writecache.h\<close> and \<^verbatim>\<open>src/writecache.cpp\<close>: the queue of write
  segments that a disk writer drains in first-in first-out order and that reads search by block
  address. The container is a \<^verbatim>\<open>boost::multi_index_container\<close> of pointers with three indices;
  segments are changed through the pointers, so the model keeps a store of segments and, for the
  container, the list of pointers in queue order and the list in the order of the \<^verbatim>\<open>by_lba\<close>
  index. The positions that the index's \<^verbatim>\<open>lower_bound\<close> and its insertion choose are Boost's; they
  are parameters \<open>lb\<close> and \<open>ub\<close> (given the keys in index order), about which the locale
  \<open>ordered_index\<close> states what Boost documents, for a range that is ordered by key only.
\<close>

section \<open>Write segments\<close>

record write_segment =
  ws_lba :: nat
  ws_transfer_length :: nat
  ws_rlba :: nat
  ws_rlength :: nat
  ws_copy :: bool
  ws_cbufs :: "common_buf list"
  ws_ds_offset :: nat
  ws_stored :: nat

definition WriteSegment :: "nat \<Rightarrow> nat \<Rightarrow> write_segment" where
  "WriteSegment lba len =
     \<lparr>ws_lba = lba, ws_transfer_length = len, ws_rlba = lba, ws_rlength = len, ws_copy = False,
      ws_cbufs = [], ws_ds_offset = 0, ws_stored = 0\<rparr>"

definition WriteSegment_copy :: "write_segment \<Rightarrow> write_segment" where
  "WriteSegment_copy s =
     \<lparr>ws_lba = ws_lba s, ws_transfer_length = ws_transfer_length s, ws_rlba = ws_rlba s,
      ws_rlength = ws_rlength s, ws_copy = True, ws_cbufs = ws_cbufs s, ws_ds_offset = 0,
      ws_stored = ws_stored s\<rparr>"

definition set1stDataSegment ::
  "common_buf \<Rightarrow> nat \<Rightarrow> nat \<Rightarrow> write_segment \<Rightarrow> bool \<times> write_segment" where
  "set1stDataSegment cbuf sz offset s =
     (if ws_cbufs s \<noteq> [] then (False, s)
      else let s1 = s\<lparr>ws_stored := ws_stored s + sz\<rparr>
           in if ws_stored s1 > LBA2OFFSET (ws_transfer_length s1) then (False, s1)
              else (True, s1\<lparr>ws_cbufs := ws_cbufs s1 @ [cbuf], ws_ds_offset := offset\<rparr>))"

definition addDataSegment :: "common_buf \<Rightarrow> nat \<Rightarrow> write_segment \<Rightarrow> bool \<times> write_segment" where
  "addDataSegment cbuf sz s =
     (if ws_cbufs s = [] then (False, s)
      else let s1 = s\<lparr>ws_stored := ws_stored s + sz\<rparr>
           in if ws_stored s1 > LBA2OFFSET (ws_transfer_length s1) then (False, s1)
              else (True, s1\<lparr>ws_cbufs := ws_cbufs s1 @ [cbuf]\<rparr>))"

section \<open>The ordered index\<close>

text \<open>What is documented of an ordered non-unique index whose elements are in key order:
  \<^verbatim>\<open>lower_bound\<close> is the first position whose key is not below the argument, and an element is
  inserted behind those with an equal key. \<open>keys\<close> are the keys in index order.\<close>

locale ordered_index =
  fixes lb :: "nat list \<Rightarrow> nat \<Rightarrow> nat"
    and ub :: "nat list \<Rightarrow> nat \<Rightarrow> nat"
  assumes lb_sorted: "sorted keys \<Longrightarrow> lb keys k = length (takeWhile (\<lambda>x. x < k) keys)"
    and ub_sorted: "sorted keys \<Longrightarrow> ub keys k = length (takeWhile (\<lambda>x. x \<le> k) keys)"

section \<open>The cache and its search\<close>

type_synonym ws_ptr = nat

record write_cache =
  wc_heap :: "ws_ptr \<Rightarrow> write_segment"
  wc_next :: ws_ptr
  wc_fifo :: "ws_ptr list"
  wc_lba :: "ws_ptr list"

definition WriteCache :: "(ws_ptr \<Rightarrow> write_segment) \<Rightarrow> ws_ptr \<Rightarrow> write_cache" where
  "WriteCache h n = \<lparr>wc_heap = h, wc_next = n, wc_fifo = [], wc_lba = []\<rparr>"

definition wc_empty :: "write_cache \<Rightarrow> bool" where
  "wc_empty c \<longleftrightarrow> wc_fifo c = []"

definition wc_size :: "write_cache \<Rightarrow> nat" where
  "wc_size c = length (wc_fifo c)"

definition ws_keys :: "(ws_ptr \<Rightarrow> write_segment) \<Rightarrow> ws_ptr list \<Rightarrow> nat list" where
  "ws_keys h ps = map (\<lambda>p. ws_rlba (h p)) ps"

text \<open>
  The backward scan of \<^verbatim>\<open>_search\<close>: \<open>itr\<close> and \<open>bitr\<close> are positions in the index. The loop
  runs while \<open>bitr\<close> is the end, starts behind \<open>lba\<close> or is emptied, and is not the beginning;
  it steps back and moves \<open>itr\<close> to a segment that reaches behind \<open>lba\<close>.
\<close>

fun ws_back_scan :: "write_segment list \<Rightarrow> nat \<Rightarrow> nat \<Rightarrow> nat \<Rightarrow> nat" where
  "ws_back_scan xs lba itr 0 = itr"
| "ws_back_scan xs lba itr (Suc b) =
     (if Suc b = length xs \<or> lba < ws_rlba (xs ! Suc b) \<or> ws_rlength (xs ! Suc b) = 0
      then if ws_rlength (xs ! b) = 0 then ws_back_scan xs lba itr b
           else if lba < ws_rlba (xs ! b) + ws_rlength (xs ! b) then ws_back_scan xs lba b b
           else ws_back_scan xs lba itr b
      else itr)"

text \<open>The forward loop that fills the hits, from \<open>itr\<close> on.\<close>

fun ws_fill_hits :: "(ws_ptr \<Rightarrow> write_segment) \<Rightarrow> nat \<Rightarrow> nat \<Rightarrow> ws_ptr list \<Rightarrow> ws_ptr list" where
  "ws_fill_hits h lba len [] = []"
| "ws_fill_hits h lba len (p # ps) =
     (if lba + len \<le> ws_rlba (h p) then []
      else if ws_rlength (h p) > 0 then p # ws_fill_hits h lba len ps
      else ws_fill_hits h lba len ps)"

definition wc_search ::
  "(nat list \<Rightarrow> nat \<Rightarrow> nat) \<Rightarrow> write_cache \<Rightarrow> nat \<Rightarrow> nat \<Rightarrow> ws_ptr list" where
  "wc_search lb c lba len =
     (if wc_fifo c = [] then []
      else let h = wc_heap c; itr = lb (ws_keys h (wc_lba c)) lba;
               itr' = ws_back_scan (map h (wc_lba c)) lba itr itr
           in ws_fill_hits h lba len (drop itr' (wc_lba c)))"

section \<open>Pushing\<close>

text \<open>\<^verbatim>\<open>push_back\<close> of the container: refused when the pointer is there already; otherwise at the
  end of the queue and at the index position of its key.\<close>

definition list_insert_at :: "nat \<Rightarrow> 'a \<Rightarrow> 'a list \<Rightarrow> 'a list" where
  "list_insert_at i x xs = take i xs @ x # drop i xs"

definition wc_push_back ::
  "(nat list \<Rightarrow> nat \<Rightarrow> nat) \<Rightarrow> ws_ptr \<Rightarrow> write_cache \<Rightarrow> write_cache" where
  "wc_push_back ub p c =
     (if p \<in> set (wc_fifo c) then c
      else c\<lparr>wc_fifo := wc_fifo c @ [p],
             wc_lba := list_insert_at (ub (ws_keys (wc_heap c) (wc_lba c)) (ws_rlba (wc_heap c p)))
                         p (wc_lba c)\<rparr>)"

text \<open>One iteration of the merge loop of \<^verbatim>\<open>push\<close>: \<open>w\<close> is the new segment, \<open>p\<close> the hit. The
  branches are tried in the order of the source; the \<^verbatim>\<open>split case\<close> allocates the copy.\<close>

definition wc_merge ::
  "(nat list \<Rightarrow> nat \<Rightarrow> nat) \<Rightarrow> write_segment \<Rightarrow> ws_ptr \<Rightarrow> write_cache \<Rightarrow> write_cache" where
  "wc_merge ub w p c =
     (let s = wc_heap c p;
          hhead = ws_rlba s; htail = hhead + ws_rlength s;
          whead = ws_lba w; wtail = ws_lba w + ws_transfer_length w
      in if whead \<le> hhead \<and> htail \<le> wtail
         then c\<lparr>wc_heap := (wc_heap c)(p := s\<lparr>ws_rlength := 0\<rparr>)\<rparr>
         else if hhead < whead \<and> wtail < htail
         then let cs = (WriteSegment_copy s)\<lparr>ws_rlba := ws_lba s + wtail - hhead,
                                             ws_rlength := htail - wtail\<rparr>;
                  q = wc_next c;
                  c1 = wc_push_back ub q
                         (c\<lparr>wc_heap := (wc_heap c)(q := cs), wc_next := Suc q\<rparr>)
              in c1\<lparr>wc_heap := (wc_heap c1)
                     (p := s\<lparr>ws_rlength := ws_rlength s - min (htail - whead) (ws_rlength s)\<rparr>)\<rparr>
         else if hhead < whead \<and> whead < htail \<and> htail \<le> wtail
         then c\<lparr>wc_heap := (wc_heap c)
                 (p := s\<lparr>ws_rlength := ws_rlength s - min (htail - whead) (ws_rlength s)\<rparr>)\<rparr>
         else if whead \<le> hhead \<and> hhead < wtail \<and> wtail < htail
         then let step = min (wtail - hhead) (ws_rlength s)
              in c\<lparr>wc_heap := (wc_heap c)
                     (p := s\<lparr>ws_rlba := ws_rlba s + step, ws_rlength := ws_rlength s - step\<rparr>)\<rparr>
         else c)"

definition wc_push ::
  "(nat list \<Rightarrow> nat \<Rightarrow> nat) \<Rightarrow> (nat list \<Rightarrow> nat \<Rightarrow> nat) \<Rightarrow> ws_ptr \<Rightarrow> write_cache \<Rightarrow> write_cache" where
  "wc_push lb ub p c =
     (let w = wc_heap c p;
          hits = wc_search lb c (ws_lba w) (ws_transfer_length w)
      in wc_push_back ub p (fold (wc_merge ub w) hits c))"

text \<open>The caller's \<^verbatim>\<open>new WriteSegment\<close> followed by \<^verbatim>\<open>push\<close>.\<close>

definition wc_alloc :: "write_segment \<Rightarrow> write_cache \<Rightarrow> ws_ptr \<times> write_cache" where
  "wc_alloc w c =
     (wc_next c, c\<lparr>wc_heap := (wc_heap c)(wc_next c := w), wc_next := Suc (wc_next c)\<rparr>)"

definition wc_write ::
  "(nat list \<Rightarrow> nat \<Rightarrow> nat) \<Rightarrow> (nat list \<Rightarrow> nat \<Rightarrow> nat) \<Rightarrow> write_segment \<Rightarrow> write_cache \<Rightarrow> write_cache" where
  "wc_write lb ub w c = (let (p, c1) = wc_alloc w c in wc_push lb ub p c1)"

section \<open>Draining\<close>

definition wc_drop :: "ws_ptr \<Rightarrow> write_cache \<Rightarrow> write_cache" where
  "wc_drop p c = c\<lparr>wc_fifo := tl (wc_fifo c), wc_lba := remove1 p (wc_lba c)\<rparr>"

definition wc_pop :: "write_cache \<Rightarrow> write_cache" where
  "wc_pop c = (case wc_fifo c of [] \<Rightarrow> c | p # _ \<Rightarrow> wc_drop p c)"

text \<open>
  \<^verbatim>\<open>_front\<close>: copies at the front are popped. On an empty queue the result is the null pointer;
  the loop reads \<^verbatim>\<open>wq.front()\<close> again after each pop, so a queue of copies only is read past its
  end: the outer \<open>None\<close>.
\<close>

fun wc_skip_copies :: "nat \<Rightarrow> write_cache \<Rightarrow> (ws_ptr \<times> write_cache) option" where
  "wc_skip_copies 0 c = None"
| "wc_skip_copies (Suc fuel) c =
     (case wc_fifo c of
        [] \<Rightarrow> None
      | p # _ \<Rightarrow> if ws_copy (wc_heap c p) then wc_skip_copies fuel (wc_drop p c)
                 else Some (p, c))"

definition wc_front :: "write_cache \<Rightarrow> (ws_ptr option \<times> write_cache) option" where
  "wc_front c =
     (if wc_fifo c = [] then Some (None, c)
      else map_option (\<lambda>(p, c'). (Some p, c')) (wc_skip_copies (Suc (length (wc_fifo c))) c))"

text \<open>\<^verbatim>\<open>getNext(WriteSegmentPtr &_ws)\<close>: the first uncopied segment behind \<open>_ws\<close>, the front when
  \<open>_ws\<close> is null or no longer queued. The result is the success flag and the new \<open>_ws\<close>.\<close>

definition wc_getNext ::
  "ws_ptr option \<Rightarrow> write_cache \<Rightarrow> ((bool \<times> ws_ptr option) \<times> write_cache) option" where
  "wc_getNext cur c =
     (if wc_fifo c = [] then Some ((False, cur), c)
      else let front = map_option (\<lambda>(p, c'). ((True, p), c')) (wc_front c) in
        case cur of
          None \<Rightarrow> front
        | Some p \<Rightarrow>
            if p \<notin> set (wc_fifo c) then front
            else case dropWhile (\<lambda>q. ws_copy (wc_heap c q))
                        (tl (dropWhile (\<lambda>q. q \<noteq> p) (wc_fifo c))) of
                   [] \<Rightarrow> Some ((False, Some p), c)
                 | q # _ \<Rightarrow> Some ((True, Some q), c))"

end
