(* ===== verification/WriteCache_Inv.thy ===== *)
theory WriteCache_Inv
  imports WriteCache
begin

text \<open>
  The invariant of the write cache and its abstract view. A live segment (\<open>rlength > 0\<close>) answers
  reads for the blocks \<open>rlba .. rlba + rlength - 1\<close>; the invariant says that the live ranges are
  disjoint and the index is ordered, and the view maps a block to the data segment a read finds
  there. Pushing refines overwriting a range of that map.
\<close>

section \<open>Ranges\<close>

definition ws_live :: "write_segment \<Rightarrow> bool" where
  "ws_live s \<longleftrightarrow> ws_rlength s > 0"

definition ws_end :: "write_segment \<Rightarrow> nat" where
  "ws_end s = ws_rlba s + ws_rlength s"

definition ws_covers :: "write_segment \<Rightarrow> nat \<Rightarrow> bool" where
  "ws_covers s b \<longleftrightarrow> ws_rlba s \<le> b \<and> b < ws_end s"

definition ws_wtail :: "write_segment \<Rightarrow> nat" where
  "ws_wtail w = ws_lba w + ws_transfer_length w"

definition ws_hit :: "nat \<Rightarrow> nat \<Rightarrow> write_segment \<Rightarrow> bool" where
  "ws_hit lba len s \<longleftrightarrow> ws_live s \<and> lba < ws_end s \<and> ws_rlba s < lba + len"

definition idx_rel :: "write_segment \<Rightarrow> write_segment \<Rightarrow> bool" where
  "idx_rel a b \<longleftrightarrow> ws_rlba a \<le> ws_rlba b \<and> (ws_live a \<and> ws_live b \<longrightarrow> ws_end a \<le> ws_rlba b)"

definition idx_ok :: "write_segment list \<Rightarrow> bool" where
  "idx_ok xs \<longleftrightarrow> sorted_wrt idx_rel xs"

lemmas ws_range_defs = ws_live_def ws_end_def ws_covers_def ws_wtail_def ws_hit_def

lemma idx_ok_sorted: "idx_ok xs \<Longrightarrow> sorted (map ws_rlba xs)"
  by (auto simp: idx_ok_def sorted_map idx_rel_def elim: sorted_wrt_mono_rel [rotated])

lemma idx_ok_nth:
  "idx_ok xs \<Longrightarrow> i < j \<Longrightarrow> j < length xs \<Longrightarrow> ws_live (xs ! i) \<Longrightarrow> ws_live (xs ! j) \<Longrightarrow>
     ws_end (xs ! i) \<le> ws_rlba (xs ! j)"
  by (auto simp: idx_ok_def idx_rel_def sorted_wrt_iff_nth_less)

lemma ws_covers_live: "ws_covers s b \<Longrightarrow> ws_live s"
  by (auto simp: ws_range_defs)

section \<open>The search finds exactly the hits\<close>

lemma ws_back_scan_correct:
  assumes "idx_ok xs" and "b \<le> itr" and "itr \<le> length xs"
    and "\<And>j. itr \<le> j \<Longrightarrow> j < length xs \<Longrightarrow> ws_live (xs ! j) \<Longrightarrow> lba < ws_end (xs ! j)"
    and "\<And>j. b \<le> j \<Longrightarrow> j < itr \<Longrightarrow> ws_live (xs ! j) \<Longrightarrow> ws_end (xs ! j) \<le> lba"
  shows "ws_back_scan xs lba itr b \<le> length xs \<and>
    (\<forall>j < ws_back_scan xs lba itr b. ws_live (xs ! j) \<longrightarrow> ws_end (xs ! j) \<le> lba) \<and>
    (\<forall>j. ws_back_scan xs lba itr b \<le> j \<and> j < length xs \<and> ws_live (xs ! j) \<longrightarrow>
       lba < ws_end (xs ! j))"
  using assms(2-)
proof (induction b arbitrary: itr)
  case 0
  then show ?case by simp
next
  case (Suc b)
  let ?s = "xs ! b"
  let ?go = "Suc b = length xs \<or> lba < ws_rlba (xs ! Suc b) \<or> ws_rlength (xs ! Suc b) = 0"
  note here = Suc.prems
  consider (stop) "\<not> ?go" | (pass) "?go" "ws_live ?s \<longrightarrow> ws_end ?s \<le> lba"
    | (take) "?go" "ws_live ?s" "lba < ws_end ?s"
    by force
  then show ?case
  proof cases
    case stop
    then have b: "Suc b < length xs" "ws_live (xs ! Suc b)" "ws_rlba (xs ! Suc b) \<le> lba"
      using here by (auto simp: ws_live_def)
    have "ws_end (xs ! j) \<le> lba" if "j < itr" "ws_live (xs ! j)" for j
    proof (cases "j < Suc b")
      case True
      with idx_ok_nth [OF assms(1) True b(1) that(2) b(2)] b(3) show ?thesis by simp
    next
      case False
      with here(4) [of j] that show ?thesis by simp
    qed
    with stop here show ?thesis by auto
  next
    case pass
    have eq: "ws_back_scan xs lba itr (Suc b) = ws_back_scan xs lba itr b"
      using pass by (auto simp: ws_range_defs)
    have below: "ws_end (xs ! j) \<le> lba" if "b \<le> j" "j < itr" "ws_live (xs ! j)" for j
      using that pass(2) here(4) [of j] by (cases "j = b") auto
    show ?thesis unfolding eq
      by (rule Suc.IH [OF _ here(2) here(3) below]) (use here(1) in simp_all)
  next
    case take
    have eq: "ws_back_scan xs lba itr (Suc b) = ws_back_scan xs lba b b"
      using take by (auto simp: ws_range_defs)
    have above: "lba < ws_end (xs ! j)" if j: "b \<le> j" "j < length xs" "ws_live (xs ! j)" for j
    proof (cases "j = b \<or> itr \<le> j")
      case True
      with take here j show ?thesis by auto
    next
      case False
      with j have "ws_end ?s \<le> ws_rlba (xs ! j)"
        by (intro idx_ok_nth [OF assms(1)]) (auto simp: take)
      with take(3) show ?thesis by (simp add: ws_end_def)
    qed
    show ?thesis unfolding eq
      by (rule Suc.IH [OF _ _ above]) (use here(1,2) in simp_all)
  qed
qed

lemma ws_fill_hits_eq:
  "sorted (map (\<lambda>p. ws_rlba (h p)) ps) \<Longrightarrow>
     ws_fill_hits h lba len ps = filter (\<lambda>p. ws_live (h p) \<and> ws_rlba (h p) < lba + len) ps"
proof (induction ps)
  case Nil
  then show ?case by simp
next
  case (Cons p ps)
  show ?case
  proof (cases "lba + len \<le> ws_rlba (h p)")
    case True
    have "filter (\<lambda>p. ws_live (h p) \<and> ws_rlba (h p) < lba + len) (p # ps) = []"
      using Cons.prems True by (auto simp: filter_empty_conv)
    with True show ?thesis by simp
  next
    case False
    with Cons show ?thesis by (auto simp: ws_live_def)
  qed
qed

context ordered_index
begin

lemma search_list_eq:
  assumes ok: "idx_ok (map h ps)"
  shows "ws_fill_hits h lba len
      (drop (ws_back_scan (map h ps) lba (lb (ws_keys h ps) lba) (lb (ws_keys h ps) lba)) ps) =
    filter (\<lambda>p. ws_hit lba len (h p)) ps"
proof -
  let ?xs = "map h ps"
  have so: "sorted (ws_keys h ps)"
    using idx_ok_sorted [OF ok] by (simp add: ws_keys_def comp_def)
  define i where "i = lb (ws_keys h ps) lba"
  have i: "i = length (takeWhile (\<lambda>x. x < lba) (ws_keys h ps))"
    by (simp add: i_def lb_sorted [OF so])
  have il: "i \<le> length ps"
    unfolding i by (metis length_map length_takeWhile_le ws_keys_def)
  have ge: "lba \<le> ws_rlba (?xs ! j)" if "i \<le> j" "j < length ps" for j
  proof -
    have "\<not> ws_keys h ps ! i < lba"
      using takeWhile_stop [of "\<lambda>x. x < lba" "ws_keys h ps"] that by (simp add: i ws_keys_def)
    moreover have "ws_keys h ps ! i \<le> ws_keys h ps ! j"
      using so that by (intro sorted_nth_mono) (auto simp: ws_keys_def)
    ultimately show ?thesis using that by (simp add: ws_keys_def)
  qed
  define r where "r = ws_back_scan ?xs lba i i"
  have "r \<le> length ?xs \<and> (\<forall>j < r. ws_live (?xs ! j) \<longrightarrow> ws_end (?xs ! j) \<le> lba) \<and>
    (\<forall>j. r \<le> j \<and> j < length ?xs \<and> ws_live (?xs ! j) \<longrightarrow> lba < ws_end (?xs ! j))"
    unfolding r_def
  proof (rule ws_back_scan_correct [OF ok])
    fix j assume j: "i \<le> j" "j < length ?xs" "ws_live (?xs ! j)"
    with ge [of j] show "lba < ws_end (?xs ! j)" by (auto simp: ws_range_defs)
  qed (use il in auto)
  then have lo: "\<And>j. j < r \<Longrightarrow> ws_live (?xs ! j) \<Longrightarrow> ws_end (?xs ! j) \<le> lba"
    and hi: "\<And>j. r \<le> j \<Longrightarrow> j < length ps \<Longrightarrow> ws_live (?xs ! j) \<Longrightarrow> lba < ws_end (?xs ! j)"
    and rl: "r \<le> length ps" by auto
  have "filter (\<lambda>p. ws_hit lba len (h p)) (take r ps) = []"
    using lo rl by (fastforce simp: filter_empty_conv in_set_conv_nth ws_hit_def)
  moreover have "filter (\<lambda>p. ws_live (h p) \<and> ws_rlba (h p) < lba + len) (drop r ps) =
      filter (\<lambda>p. ws_hit lba len (h p)) (drop r ps)"
  proof (rule filter_cong [OF refl])
    fix p assume "p \<in> set (drop r ps)"
    then obtain k where "k < length ps - r" "p = ps ! (r + k)"
      by (auto simp: in_set_conv_nth)
    with hi [of "r + k"]
    show "(ws_live (h p) \<and> ws_rlba (h p) < lba + len) = ws_hit lba len (h p)"
      by (auto simp: ws_hit_def)
  qed
  moreover have "sorted (map (\<lambda>p. ws_rlba (h p)) (drop r ps))"
    using so by (simp add: ws_keys_def sorted_wrt_drop flip: drop_map)
  ultimately have "ws_fill_hits h lba len (drop r ps) =
      filter (\<lambda>p. ws_hit lba len (h p)) (take r ps @ drop r ps)"
    by (subst ws_fill_hits_eq) (simp_all del: append_take_drop_id)
  then show ?thesis by (simp add: r_def i_def)
qed

end

section \<open>What a push does to one segment\<close>

definition ws_split :: "write_segment \<Rightarrow> write_segment \<Rightarrow> bool" where
  "ws_split w s \<longleftrightarrow> ws_rlba s < ws_lba w \<and> ws_wtail w < ws_end s"

definition ws_cut_head :: "write_segment \<Rightarrow> write_segment \<Rightarrow> bool" where
  "ws_cut_head w s \<longleftrightarrow> ws_lba w \<le> ws_rlba s \<and> ws_rlba s < ws_wtail w \<and> ws_wtail w < ws_end s"

definition ws_trim :: "write_segment \<Rightarrow> write_segment \<Rightarrow> write_segment" where
  "ws_trim w s =
     (if ws_lba w \<le> ws_rlba s \<and> ws_end s \<le> ws_wtail w then s\<lparr>ws_rlength := 0\<rparr>
      else if ws_rlba s < ws_lba w \<and> ws_lba w < ws_end s
      then s\<lparr>ws_rlength := ws_lba w - ws_rlba s\<rparr>
      else if ws_cut_head w s
      then s\<lparr>ws_rlba := ws_wtail w, ws_rlength := ws_end s - ws_wtail w\<rparr>
      else s)"

lemmas ws_trim_defs = ws_trim_def ws_cut_head_def ws_split_def

text \<open>What determines the bytes of a segment: its origin and length, the offset of the data in the first buffer, and
  the buffers.\<close>

definition ws_data :: "write_segment \<Rightarrow> nat \<times> nat \<times> nat \<times> common_buf list" where
  "ws_data s = (ws_lba s, ws_transfer_length s, ws_ds_offset s, ws_cbufs s)"

lemma ws_rlength_id: "ws_rlength s = 0 \<Longrightarrow> s\<lparr>ws_rlength := 0\<rparr> = s"
  by (cases s) simp

lemma ws_trim_data [simp]: "ws_data (ws_trim w s) = ws_data s"
  by (auto simp: ws_trim_def ws_data_def)

lemma ws_trim_id:
  "\<not> ws_hit (ws_lba w) (ws_transfer_length w) s \<Longrightarrow> 0 < ws_transfer_length w \<Longrightarrow> ws_trim w s = s"
  by (auto simp: ws_trim_defs ws_range_defs ws_rlength_id)

lemma ws_trim_disjoint:
  "ws_live (ws_trim w s) \<Longrightarrow>
     ws_end (ws_trim w s) \<le> ws_lba w \<or> ws_wtail w \<le> ws_rlba (ws_trim w s)"
  by (auto simp: ws_trim_defs ws_range_defs split: if_splits)

lemma ws_trim_covers:
  "\<not> ws_split w s \<Longrightarrow>
     ws_covers (ws_trim w s) b \<longleftrightarrow> ws_covers s b \<and> \<not> (ws_lba w \<le> b \<and> b < ws_wtail w)"
  by (auto simp: ws_trim_defs ws_range_defs split: if_splits)

lemma ws_trim_shrinks:
  "ws_rlba s \<le> ws_rlba (ws_trim w s) \<and>
   (ws_live (ws_trim w s) \<longrightarrow> ws_live s \<and> ws_end (ws_trim w s) \<le> ws_end s)"
  by (auto simp: ws_trim_defs ws_range_defs)

lemma ws_trim_rel:
  assumes rel: "idx_rel a b" and safe: "ws_cut_head w a \<and> \<not> ws_live b \<longrightarrow> ws_wtail w \<le> ws_rlba b"
  shows "idx_rel (ws_trim w a) (ws_trim w b)"
proof -
  have "ws_rlba (ws_trim w a) \<le> ws_rlba b"
  proof (cases "ws_cut_head w a")
    case True
    then have "ws_rlba (ws_trim w a) = ws_wtail w" by (auto simp: ws_trim_defs)
    moreover have "ws_wtail w \<le> ws_rlba b"
      using rel safe True by (cases "ws_live b") (auto simp: idx_rel_def ws_cut_head_def ws_range_defs)
    ultimately show ?thesis by simp
  next
    case False
    then have "ws_rlba (ws_trim w a) = ws_rlba a" by (auto simp: ws_trim_def)
    with rel show ?thesis by (simp add: idx_rel_def)
  qed
  with rel ws_trim_shrinks [of a w] ws_trim_shrinks [of b w] show ?thesis
    unfolding idx_rel_def by (metis order_trans)
qed

section \<open>Insertion into the index\<close>

lemma set_list_insert_at [simp]: "set (list_insert_at i x xs) = insert x (set xs)"
proof -
  have "set (list_insert_at i x xs) = insert x (set (take i xs @ drop i xs))"
    by (simp only: list_insert_at_def set_append list.set Un_insert_right)
  then show ?thesis by (simp only: append_take_drop_id)
qed

lemma distinct_list_insert_at:
  "distinct xs \<Longrightarrow> x \<notin> set xs \<Longrightarrow> distinct (list_insert_at i x xs)"
  by (auto simp: list_insert_at_def distinct_append dest: in_set_takeD in_set_dropD)
     (metis append_take_drop_id disjoint_iff distinct_append)

lemma map_list_insert_at:
  "map f (list_insert_at i x xs) = take i (map f xs) @ f x # drop i (map f xs)"
  by (simp add: list_insert_at_def take_map drop_map)

context ordered_index
begin

lemma insert_ok:
  assumes ok: "idx_ok (map h ps)" and live: "ws_live (h q)"
    and dis: "\<And>p. p \<in> set ps \<Longrightarrow> ws_live (h p) \<Longrightarrow>
      ws_end (h p) \<le> ws_rlba (h q) \<or> ws_end (h q) \<le> ws_rlba (h p)"
  shows "idx_ok (map h (list_insert_at (ub (ws_keys h ps) (ws_rlba (h q))) q ps))"
proof -
  have so: "sorted (ws_keys h ps)"
    using idx_ok_sorted [OF ok] by (simp add: ws_keys_def comp_def)
  define i where "i = ub (ws_keys h ps) (ws_rlba (h q))"
  have i: "i = length (takeWhile (\<lambda>x. x \<le> ws_rlba (h q)) (ws_keys h ps))"
    by (simp add: i_def ub_sorted [OF so])
  have lo: "ws_rlba (h p) \<le> ws_rlba (h q)" if "p \<in> set (take i ps)" for p
  proof -
    from that obtain j where j: "j < i" "j < length ps" "p = ps ! j"
      by (auto simp: in_set_conv_nth)
    with length_takeWhile_less_nth [of j "\<lambda>x. x \<le> ws_rlba (h q)" "ws_keys h ps"]
    show ?thesis by (simp add: i ws_keys_def)
  qed
  have hi: "ws_rlba (h q) \<le> ws_rlba (h p)" if "p \<in> set (drop i ps)" for p
  proof -
    from that obtain j where "j < length ps - i" "p = ps ! (i + j)"
      by (auto simp: in_set_conv_nth)
    then have j: "i + j < length ps" "p = ps ! (i + j)" by auto
    have "\<not> ws_keys h ps ! i \<le> ws_rlba (h q)"
      using takeWhile_stop [of "\<lambda>x. x \<le> ws_rlba (h q)" "ws_keys h ps"] j by (simp add: i ws_keys_def)
    moreover have "ws_keys h ps ! i \<le> ws_keys h ps ! (i + j)"
      using so j by (intro sorted_nth_mono) (auto simp: ws_keys_def)
    ultimately show ?thesis using j by (simp add: ws_keys_def)
  qed
  have below: "idx_rel (h p) (h q)" if p: "p \<in> set (take i ps)" for p
    using lo [OF p] dis [OF in_set_takeD [OF p]] live
    by (auto simp: idx_rel_def ws_range_defs)
  have above: "idx_rel (h q) (h p)" if p: "p \<in> set (drop i ps)" for p
    using hi [OF p] dis [OF in_set_dropD [OF p]] live
    by (auto simp: idx_rel_def ws_range_defs)
  have "sorted_wrt idx_rel (take i (map h ps) @ drop i (map h ps))"
    using ok by (simp add: idx_ok_def)
  then show ?thesis
    using below above unfolding i_def [symmetric] idx_ok_def map_list_insert_at
    by (auto simp: sorted_wrt_append take_map drop_map simp del: append_take_drop_id)
qed

end

section \<open>The merge loop\<close>

lemma wc_merge_whole:
  assumes "\<not> ws_split w (wc_heap c p)"
  shows "wc_merge ub w p c = c\<lparr>wc_heap := (wc_heap c)(p := ws_trim w (wc_heap c p))\<rparr>"
  using assms unfolding wc_merge_def ws_trim_defs ws_range_defs Let_def
  by (auto simp: min_def fun_upd_def[symmetric] intro!: arg_cong [where f = "\<lambda>h. c\<lparr>wc_heap := h\<rparr>"])

lemma fold_wc_merge_whole:
  assumes "distinct hits" and "\<And>p. p \<in> set hits \<Longrightarrow> \<not> ws_split w (wc_heap c p)"
  shows "fold (wc_merge ub w) hits c =
    c\<lparr>wc_heap := \<lambda>p. if p \<in> set hits then ws_trim w (wc_heap c p) else wc_heap c p\<rparr>"
  using assms
proof (induction hits arbitrary: c)
  case Nil
  then show ?case by simp
next
  case (Cons p hits)
  let ?c = "wc_merge ub w p c"
  have m: "?c = c\<lparr>wc_heap := (wc_heap c)(p := ws_trim w (wc_heap c p))\<rparr>"
    using Cons.prems by (intro wc_merge_whole) simp
  have "fold (wc_merge ub w) hits ?c =
    ?c\<lparr>wc_heap := \<lambda>p. if p \<in> set hits then ws_trim w (wc_heap ?c p) else wc_heap ?c p\<rparr>"
    using Cons.prems by (intro Cons.IH) (auto simp: m)
  moreover have "(\<lambda>r. if r \<in> set hits then ws_trim w (wc_heap ?c r) else wc_heap ?c r) =
      (\<lambda>r. if r \<in> set (p # hits) then ws_trim w (wc_heap c r) else wc_heap c r)"
    using Cons.prems(1) unfolding m by auto
  ultimately show ?case by (simp add: m)
qed

end
