(* ===== verification/WriteCache_Push.thy ===== *)
theory WriteCache_Push
  imports WriteCache_Inv
begin

text \<open>
  Pushing a write segment, as a whole: the invariant is kept and the abstract view is the old one
  overwritten on the range of the new segment, as long as the push is \<open>safe\<close>, a condition on the
  segments it cuts that the code itself does not check. Pushes that are not safe are shown to
  break the ordering of the index or to lose blocks.
\<close>

section \<open>Invariant, view and the safety condition\<close>

definition wc_inv :: "write_cache \<Rightarrow> bool" where
  "wc_inv c \<longleftrightarrow> distinct (wc_fifo c) \<and> distinct (wc_lba c) \<and> set (wc_lba c) = set (wc_fifo c) \<and>
     (\<forall>p \<in> set (wc_fifo c). p < wc_next c) \<and> idx_ok (map (wc_heap c) (wc_lba c))"

text \<open>What a read finds for a block: the origin and length, the offset of the data and the buffers of the segment
  that answers for it, which make up the byte that is sent, or nothing when the block has to come from the disk.\<close>

definition wc_view :: "write_cache \<Rightarrow> nat \<Rightarrow> (nat \<times> nat \<times> nat \<times> common_buf list) option" where
  "wc_view c b =
     map_option (\<lambda>p. ws_data (wc_heap c p)) (find (\<lambda>p. ws_covers (wc_heap c p) b) (wc_lba c))"

definition ws_fresh :: "write_segment \<Rightarrow> bool" where
  "ws_fresh w \<longleftrightarrow> ws_rlba w = ws_lba w \<and> ws_rlength w = ws_transfer_length w \<and>
     0 < ws_transfer_length w \<and> \<not> ws_copy w"

text \<open>A safe push: a segment that is split has never lost its head before (the \<^verbatim>\<open>split case\<close>
  computes the start of the copy from \<^verbatim>\<open>lba\<close>) and its data start at the start of its first buffer (the copy
  constructor resets \<^verbatim>\<open>ds_offset\<close>), and a segment whose head is cut has no emptied
  segment behind it in the index that keeps a smaller key.\<close>

definition wc_safe :: "write_segment \<Rightarrow> write_cache \<Rightarrow> bool" where
  "wc_safe w c \<longleftrightarrow>
     (\<forall>p \<in> set (wc_lba c). ws_live (wc_heap c p) \<and> ws_split w (wc_heap c p) \<longrightarrow>
        ws_rlba (wc_heap c p) = ws_lba (wc_heap c p) \<and> ws_ds_offset (wc_heap c p) = 0) \<and>
     sorted_wrt (\<lambda>a b. ws_cut_head w a \<and> \<not> ws_live b \<longrightarrow> ws_wtail w \<le> ws_rlba b)
       (map (wc_heap c) (wc_lba c))"

lemmas wc_defs = wc_inv_def wc_safe_def ws_fresh_def

lemma ws_covers_unique:
  assumes ok: "idx_ok (map h ps)" and pq: "p \<in> set ps" "q \<in> set ps"
    and cov: "ws_covers (h p) b" "ws_covers (h q) b"
  shows "ws_data (h p) = ws_data (h q)"
proof -
  from pq obtain i j where ij: "i < length ps" "j < length ps" "p = ps ! i" "q = ps ! j"
    by (auto simp: in_set_conv_nth)
  have "\<not> i < j" "\<not> j < i"
    using idx_ok_nth [OF ok, of i j] idx_ok_nth [OF ok, of j i] ij cov
    by (auto simp: ws_range_defs)
  with ij show ?thesis by (metis nat_neq_iff)
qed

lemma wc_view_Some_iff:
  assumes "wc_inv c"
  shows "wc_view c b = Some d \<longleftrightarrow>
    (\<exists>p \<in> set (wc_lba c). ws_covers (wc_heap c p) b \<and> ws_data (wc_heap c p) = d)"
proof
  assume "wc_view c b = Some d"
  then show "\<exists>p \<in> set (wc_lba c). ws_covers (wc_heap c p) b \<and> ws_data (wc_heap c p) = d"
    by (auto simp: wc_view_def find_Some_iff)
next
  assume "\<exists>p \<in> set (wc_lba c). ws_covers (wc_heap c p) b \<and> ws_data (wc_heap c p) = d"
  then obtain p where p: "p \<in> set (wc_lba c)" "ws_covers (wc_heap c p) b"
    "ws_data (wc_heap c p) = d" by blast
  have "find (\<lambda>p. ws_covers (wc_heap c p) b) (wc_lba c) \<noteq> None"
    using p by (auto simp: find_None_iff)
  then obtain q where q: "find (\<lambda>p. ws_covers (wc_heap c p) b) (wc_lba c) = Some q" by blast
  then have "q \<in> set (wc_lba c)" "ws_covers (wc_heap c q) b"
    by (auto simp: find_Some_iff)
  with p assms have "ws_data (wc_heap c q) = d"
    using ws_covers_unique [of "wc_heap c" "wc_lba c" q p b] by (auto simp: wc_inv_def)
  with q show "wc_view c b = Some d" by (simp add: wc_view_def)
qed

lemma wc_view_eqI:
  assumes "wc_inv c" and "\<And>d. (\<exists>p \<in> set (wc_lba c). ws_covers (wc_heap c p) b \<and>
      ws_data (wc_heap c p) = d) \<longleftrightarrow> r = Some d"
  shows "wc_view c b = r"
  using assms wc_view_Some_iff [OF assms(1), of b] by (metis not_Some_eq option.inject)

section \<open>The merge loop as a whole\<close>

text \<open>What the state after the merge loop has to satisfy for the new segment \<open>w\<close>, stored at \<open>P\<close>,
  to be inserted.\<close>

definition merged :: "write_segment \<Rightarrow> ws_ptr \<Rightarrow> write_cache \<Rightarrow> write_cache \<Rightarrow> bool" where
  "merged w P c m \<longleftrightarrow> wc_inv m \<and> P \<notin> set (wc_fifo m) \<and> wc_heap m P = w \<and> P < wc_next m \<and>
     (\<forall>p \<in> set (wc_lba m). ws_live (wc_heap m p) \<longrightarrow>
        ws_end (wc_heap m p) \<le> ws_lba w \<or> ws_wtail w \<le> ws_rlba (wc_heap m p)) \<and>
     (\<forall>b d. \<not> (ws_lba w \<le> b \<and> b < ws_wtail w) \<longrightarrow>
        ((\<exists>p \<in> set (wc_lba m). ws_covers (wc_heap m p) b \<and> ws_data (wc_heap m p) = d) \<longleftrightarrow>
         (\<exists>p \<in> set (wc_lba c). ws_covers (wc_heap c p) b \<and> ws_data (wc_heap c p) = d)))"

lemma map_trim_idx_ok:
  assumes "idx_ok (map h ps)"
    and "sorted_wrt (\<lambda>a b. ws_cut_head w a \<and> \<not> ws_live b \<longrightarrow> ws_wtail w \<le> ws_rlba b) (map h ps)"
  shows "idx_ok (map (\<lambda>p. ws_trim w (h p)) ps)"
  using assms unfolding idx_ok_def sorted_wrt_map
  by (auto simp: sorted_wrt_iff_nth_less intro!: ws_trim_rel)

lemma disjoint_live:
  assumes "idx_ok (map h ps)" and "p \<in> set ps" "q \<in> set ps" "p \<noteq> q"
    and "ws_live (h p)" "ws_live (h q)"
  shows "ws_end (h p) \<le> ws_rlba (h q) \<or> ws_end (h q) \<le> ws_rlba (h p)"
proof -
  from assms(2,3) obtain i j where ij: "i < length ps" "j < length ps" "p = ps ! i" "q = ps ! j"
    by (auto simp: in_set_conv_nth)
  with assms(4) have "i < j \<or> j < i" by (metis nat_neq_iff)
  with idx_ok_nth [OF assms(1), of i j] idx_ok_nth [OF assms(1), of j i] ij assms(5,6)
  show ?thesis by auto
qed

lemma filter_single:
  "distinct xs \<Longrightarrow> p \<in> set xs \<Longrightarrow> (\<And>x. x \<in> set xs \<Longrightarrow> Q x \<longleftrightarrow> x = p) \<Longrightarrow> filter Q xs = [p]"
proof (induction xs)
  case Nil
  then show ?case by simp
next
  case (Cons x xs)
  show ?case
  proof (cases "x = p")
    case True
    with Cons.prems have "filter Q xs = []" by (auto simp: filter_empty_conv)
    with True Cons.prems show ?thesis by simp
  next
    case False
    with Cons show ?thesis by auto
  qed
qed

lemma merge_whole_state:
  assumes inv: "wc_inv c" and wpos: "0 < ws_transfer_length w" and P: "P = wc_next c"
    and hits: "hits = filter (\<lambda>p. ws_hit (ws_lba w) (ws_transfer_length w) (wc_heap c p)) (wc_lba c)"
    and no: "\<And>p. p \<in> set hits \<Longrightarrow> \<not> ws_split w (wc_heap c p)"
  shows "fold (wc_merge ub w) hits (c\<lparr>wc_heap := (wc_heap c)(P := w), wc_next := Suc P\<rparr>) =
    c\<lparr>wc_heap := \<lambda>p. if p = P then w
         else if p \<in> set (wc_lba c) then ws_trim w (wc_heap c p) else wc_heap c p,
      wc_next := Suc P\<rparr>"
proof -
  let ?c1 = "c\<lparr>wc_heap := (wc_heap c)(P := w), wc_next := Suc P\<rparr>"
  let ?h = "\<lambda>p. if p = P then w else if p \<in> set (wc_lba c) then ws_trim w (wc_heap c p) else wc_heap c p"
  have Pn: "P \<notin> set (wc_lba c)" using inv P by (auto simp: wc_inv_def)
  have dh: "distinct hits" using inv hits by (simp add: wc_inv_def)
  have he: "(\<lambda>p. if p \<in> set hits then ws_trim w (wc_heap ?c1 p) else wc_heap ?c1 p) = ?h"
    using Pn by (auto simp: hits ws_trim_id [OF _ wpos])
  have ns: "\<not> ws_split w (wc_heap ?c1 p)" if "p \<in> set hits" for p
    using no [OF that] that Pn hits by auto
  show ?thesis
    using fold_wc_merge_whole [of hits w ?c1 ub, OF dh ns] unfolding he by simp
qed

lemma merged_whole:
  assumes inv: "wc_inv c" and w: "ws_fresh w" and safe: "wc_safe w c" and P: "P = wc_next c"
    and hits: "hits = filter (\<lambda>p. ws_hit (ws_lba w) (ws_transfer_length w) (wc_heap c p)) (wc_lba c)"
    and no: "\<And>p. p \<in> set hits \<Longrightarrow> \<not> ws_split w (wc_heap c p)"
  shows "merged w P c
    (fold (wc_merge ub w) hits (c\<lparr>wc_heap := (wc_heap c)(P := w), wc_next := Suc P\<rparr>))"
proof -
  let ?h = "\<lambda>p. if p = P then w else if p \<in> set (wc_lba c) then ws_trim w (wc_heap c p) else wc_heap c p"
  have Pn: "P \<notin> set (wc_lba c)" using inv P by (auto simp: wc_inv_def)
  have wpos: "0 < ws_transfer_length w" using w by (simp add: ws_fresh_def)
  have m: "fold (wc_merge ub w) hits (c\<lparr>wc_heap := (wc_heap c)(P := w), wc_next := Suc P\<rparr>) =
      c\<lparr>wc_heap := ?h, wc_next := Suc P\<rparr>"
    by (rule merge_whole_state [OF inv wpos P hits no])
  have mapeq: "map ?h (wc_lba c) = map (\<lambda>p. ws_trim w (wc_heap c p)) (wc_lba c)"
    using Pn by auto
  have ok: "idx_ok (map ?h (wc_lba c))"
    unfolding mapeq by (rule map_trim_idx_ok) (use inv safe in \<open>auto simp: wc_defs\<close>)
  have nosplit: "\<not> ws_split w (wc_heap c p) \<or> \<not> ws_live (wc_heap c p)"
    if "p \<in> set (wc_lba c)" for p
    using no [of p] that hits wpos by (auto simp: ws_split_def ws_range_defs)
  have cov: "ws_covers (?h p) b \<longleftrightarrow> ws_covers (wc_heap c p) b"
    if "p \<in> set (wc_lba c)" "\<not> (ws_lba w \<le> b \<and> b < ws_wtail w)" for p b
    using nosplit [OF that(1)] that Pn ws_trim_covers [of w "wc_heap c p" b]
      ws_trim_shrinks [of "wc_heap c p" w] ws_covers_live [of "ws_trim w (wc_heap c p)" b]
      ws_covers_live [of "wc_heap c p" b]
    by auto
  have "ws_data (?h p) = ws_data (wc_heap c p)" if "p \<in> set (wc_lba c)" for p
    using that Pn by auto
  with cov ok inv Pn P ws_trim_disjoint [of w] show ?thesis
    unfolding m merged_def wc_inv_def
    by (auto simp: less_Suc_eq)
qed

context ordered_index
begin

lemma merged_split:
  assumes inv: "wc_inv c" and w: "ws_fresh w" and safe: "wc_safe w c" and P: "P = wc_next c"
    and p: "p \<in> set (wc_lba c)" "ws_split w (wc_heap c p)"
  shows "merged w P c
    (wc_merge ub w p (c\<lparr>wc_heap := (wc_heap c)(P := w), wc_next := Suc P\<rparr>))"
proof -
  let ?s = "wc_heap c p" and ?q = "Suc P" and ?L = "wc_lba c"
  let ?cs = "(WriteSegment_copy ?s)\<lparr>ws_rlba := ws_wtail w, ws_rlength := ws_end ?s - ws_wtail w\<rparr>"
  let ?h = "(wc_heap c)(P := w, ?q := ?cs, p := ws_trim w ?s)"
  let ?L' = "list_insert_at (ub (ws_keys ?h ?L) (ws_rlba (?h ?q))) ?q ?L"
  have lt: "\<And>r. r \<in> set ?L \<Longrightarrow> r < P" using inv P by (auto simp: wc_inv_def)
  have live: "ws_live ?s" using p(2) by (auto simp: ws_split_def ws_range_defs)
  have wpos: "0 < ws_transfer_length w" using w by (simp add: ws_fresh_def)
  have head: "ws_rlba ?s = ws_lba ?s" "ws_ds_offset ?s = 0" using safe p live by (auto simp: wc_safe_def)
  have trim: "ws_trim w ?s = ?s\<lparr>ws_rlength := ws_lba w - ws_rlba ?s\<rparr>"
    using p(2) wpos by (auto simp: ws_trim_defs ws_range_defs)
  have other: "ws_trim w (wc_heap c r) = wc_heap c r" if r: "r \<in> set ?L" "r \<noteq> p" for r
  proof (rule ws_trim_id [OF _ wpos])
    show "\<not> ws_hit (ws_lba w) (ws_transfer_length w) (wc_heap c r)"
      using disjoint_live [of "wc_heap c" ?L r p] inv r p live wpos
      by (auto simp: wc_inv_def ws_hit_def ws_split_def ws_end_def ws_wtail_def)
  qed
  have hL: "?h r = ws_trim w (wc_heap c r)" if "r \<in> set ?L" for r
    using lt [OF that] lt [OF p(1)] other [OF that] by auto
  then have mapeq: "map ?h ?L = map (\<lambda>r. ws_trim w (wc_heap c r)) ?L" by (intro map_cong refl)
  have ok: "idx_ok (map ?h ?L)"
    unfolding mapeq by (rule map_trim_idx_ok) (use inv safe in \<open>auto simp: wc_defs\<close>)
  have hq: "?h ?q = ?cs" using lt [OF p(1)] by simp
  have hp: "?h p = ws_trim w ?s" by simp
  have qlive: "ws_live (?h ?q)"
    using p(2) unfolding hq by (auto simp: ws_split_def ws_range_defs)
  have sep: "ws_end (?h r) \<le> ws_rlba (?h ?q) \<or> ws_end (?h ?q) \<le> ws_rlba (?h r)"
    if r: "r \<in> set ?L" "ws_live (?h r)" for r
  proof (cases "r = p")
    case True
    then show ?thesis using p(2) unfolding hq True hp
      by (simp add: trim ws_split_def ws_range_defs)
  next
    case False
    then have hr: "?h r = wc_heap c r" using lt [OF r(1)] by simp
    have "ws_end (wc_heap c r) \<le> ws_rlba ?s \<or> ws_end ?s \<le> ws_rlba (wc_heap c r)"
      by (rule disjoint_live [of "wc_heap c" ?L]) (use inv r p False live hr in \<open>auto simp: wc_inv_def\<close>)
    then show ?thesis using p(2) unfolding hq hr
      by (auto simp: ws_split_def ws_range_defs)
  qed
  have ok': "idx_ok (map ?h ?L')" by (rule insert_ok [OF ok qlive sep])
  have pne: "p \<noteq> P" "p \<noteq> ?q" "p < P" using lt [OF p(1)] by auto
  have keys: "ws_keys ((wc_heap c)(P := w, ?q := ?cs)) ?L = ws_keys ?h ?L"
    using pne by (auto simp: ws_keys_def trim)
  have qn: "?q \<notin> set (wc_fifo c)" using lt [of ?q] inv by (auto simp: wc_inv_def)
  have m: "wc_merge ub w p (c\<lparr>wc_heap := (wc_heap c)(P := w), wc_next := Suc P\<rparr>) =
      c\<lparr>wc_heap := ?h, wc_next := Suc ?q, wc_fifo := wc_fifo c @ [?q], wc_lba := ?L'\<rparr>"
    using p(2) pne head(1) keys qn hq unfolding wc_merge_def wc_push_back_def trim
    by (auto simp: Let_def ws_split_def ws_range_defs fun_upd_twist)
  have set': "set ?L' = insert ?q (set ?L)" by simp
  have cov: "(\<exists>r \<in> set ?L'. ws_covers (?h r) b \<and> ws_data (?h r) = d) \<longleftrightarrow>
      (\<exists>r \<in> set ?L. ws_covers (wc_heap c r) b \<and> ws_data (wc_heap c r) = d)"
    if b: "\<not> (ws_lba w \<le> b \<and> b < ws_wtail w)" for b d
  proof -
    have "ws_data ?cs = ws_data ?s" using head(2) by (simp add: ws_data_def WriteSegment_copy_def)
    moreover have "ws_covers ?cs b \<or> ws_covers (ws_trim w ?s) b \<longleftrightarrow> ws_covers ?s b"
      using p(2) b unfolding trim by (auto simp: ws_split_def ws_range_defs)
    ultimately have "(ws_covers (?h ?q) b \<and> ws_data (?h ?q) = d) \<or>
        (ws_covers (?h p) b \<and> ws_data (?h p) = d) \<longleftrightarrow> ws_covers ?s b \<and> ws_data ?s = d"
      unfolding hq hp by auto
    moreover have "?h r = wc_heap c r" if "r \<in> set ?L" "r \<noteq> p" for r
      using lt [OF that(1)] that by auto
    ultimately show ?thesis unfolding set' using p(1) by (metis insert_iff)
  qed
  have sep': "ws_end (?h r) \<le> ws_lba w \<or> ws_wtail w \<le> ws_rlba (?h r)"
    if "r \<in> set ?L'" "ws_live (?h r)" for r
  proof (cases "r = ?q")
    case True
    then show ?thesis unfolding True hq by simp
  next
    case False
    with that have "r \<in> set ?L" by auto
    with that(2) ws_trim_disjoint [of w "wc_heap c r"] show ?thesis by (simp only: hL)
  qed
  have "distinct ?L'" using inv qn by (intro distinct_list_insert_at) (auto simp: wc_inv_def)
  moreover have "?h P = w" using pne by simp
  moreover have "P \<notin> set (wc_fifo c)" using inv P by (auto simp: wc_inv_def)
  ultimately show ?thesis
    using inv ok' cov sep' lt qn unfolding m merged_def wc_inv_def set'
    by (simp add: less_SucI)
qed

lemma write_unfold:
  assumes inv: "wc_inv c" and P: "P = wc_next c"
    and hits: "hits = filter (\<lambda>p. ws_hit (ws_lba w) (ws_transfer_length w) (wc_heap c p)) (wc_lba c)"
  shows "wc_write lb ub w c =
    wc_push_back ub P
      (fold (wc_merge ub w) hits (c\<lparr>wc_heap := (wc_heap c)(P := w), wc_next := Suc P\<rparr>))"
proof -
  let ?c1 = "c\<lparr>wc_heap := (wc_heap c)(P := w), wc_next := Suc P\<rparr>"
  have Pn: "P \<notin> set (wc_lba c)" using inv by (auto simp: wc_inv_def P)
  then have mp: "map (wc_heap ?c1) (wc_lba c) = map (wc_heap c) (wc_lba c)" by auto
  have "wc_search lb ?c1 (ws_lba w) (ws_transfer_length w) = hits"
  proof (cases "wc_fifo c = []")
    case True
    with inv show ?thesis by (auto simp: wc_search_def hits wc_inv_def)
  next
    case False
    have "idx_ok (map (wc_heap ?c1) (wc_lba c))" unfolding mp using inv by (simp add: wc_inv_def)
    from search_list_eq [OF this] False
    have "wc_search lb ?c1 (ws_lba w) (ws_transfer_length w) =
        filter (\<lambda>p. ws_hit (ws_lba w) (ws_transfer_length w) (wc_heap ?c1 p)) (wc_lba c)"
      by (simp add: wc_search_def Let_def)
    also have "\<dots> = hits" unfolding hits using Pn
      by (intro filter_cong refl) auto
    finally show ?thesis .
  qed
  then show ?thesis by (simp add: wc_write_def wc_alloc_def wc_push_def Let_def P)
qed

lemma write_correct:
  assumes inv: "wc_inv c" and w: "ws_fresh w" and safe: "wc_safe w c"
  shows "wc_inv (wc_write lb ub w c) \<and>
    wc_view (wc_write lb ub w c) =
      (\<lambda>b. if ws_lba w \<le> b \<and> b < ws_wtail w then Some (ws_data w) else wc_view c b)"
proof -
  define P where "P = wc_next c"
  define c1 where "c1 = c\<lparr>wc_heap := (wc_heap c)(P := w), wc_next := Suc P\<rparr>"
  define hits where
    "hits = filter (\<lambda>p. ws_hit (ws_lba w) (ws_transfer_length w) (wc_heap c p)) (wc_lba c)"
  have wr: "wc_write lb ub w c = wc_push_back ub P (fold (wc_merge ub w) hits c1)"
    unfolding c1_def by (rule write_unfold [OF inv P_def hits_def])
  let ?m = "fold (wc_merge ub w) hits c1"
  have wpos: "0 < ws_transfer_length w" using w by (simp add: ws_fresh_def)
  have "merged w P c ?m"
  proof (cases "\<exists>p \<in> set hits. ws_split w (wc_heap c p)")
    case False
    then show ?thesis unfolding c1_def
      by (intro merged_whole [OF inv w safe P_def hits_def]) auto
  next
    case True
    then obtain p where p: "p \<in> set (wc_lba c)" "ws_split w (wc_heap c p)"
      by (auto simp: hits_def)
    have live: "ws_live (wc_heap c p)" using p(2) by (auto simp: ws_split_def ws_range_defs)
    have "hits = [p]" unfolding hits_def
    proof (rule filter_single)
      show "distinct (wc_lba c)" using inv by (simp add: wc_inv_def)
      show "p \<in> set (wc_lba c)" by (rule p(1))
      fix r assume r: "r \<in> set (wc_lba c)"
      have "\<not> ws_hit (ws_lba w) (ws_transfer_length w) (wc_heap c r)" if "r \<noteq> p"
        using disjoint_live [of "wc_heap c" "wc_lba c" r p] inv r p live wpos that
        by (auto simp: wc_inv_def ws_hit_def ws_split_def ws_end_def ws_wtail_def)
      moreover have "ws_hit (ws_lba w) (ws_transfer_length w) (wc_heap c p)"
        using p(2) live wpos by (auto simp: ws_hit_def ws_split_def ws_end_def ws_wtail_def)
      ultimately show "ws_hit (ws_lba w) (ws_transfer_length w) (wc_heap c r) \<longleftrightarrow> r = p"
        by blast
    qed
    then show ?thesis using merged_split [OF inv w safe P_def p] by (simp add: c1_def)
  qed
  then have M: "wc_inv ?m" "P \<notin> set (wc_fifo ?m)" "wc_heap ?m P = w" "P < wc_next ?m"
    and sep: "\<And>p. p \<in> set (wc_lba ?m) \<Longrightarrow> ws_live (wc_heap ?m p) \<Longrightarrow>
        ws_end (wc_heap ?m p) \<le> ws_lba w \<or> ws_wtail w \<le> ws_rlba (wc_heap ?m p)"
    and cov: "\<And>b d. \<not> (ws_lba w \<le> b \<and> b < ws_wtail w) \<Longrightarrow>
        ((\<exists>p \<in> set (wc_lba ?m). ws_covers (wc_heap ?m p) b \<and> ws_data (wc_heap ?m p) = d) \<longleftrightarrow>
         (\<exists>p \<in> set (wc_lba c). ws_covers (wc_heap c p) b \<and> ws_data (wc_heap c p) = d))"
    unfolding merged_def by blast+
  let ?L = "list_insert_at (ub (ws_keys (wc_heap ?m) (wc_lba ?m)) (ws_rlba w)) P (wc_lba ?m)"
  have W: "wc_write lb ub w c = ?m\<lparr>wc_fifo := wc_fifo ?m @ [P], wc_lba := ?L\<rparr>"
    using M by (simp add: wr wc_push_back_def)
  have wend: "ws_end w = ws_wtail w" "ws_rlba w = ws_lba w" "ws_live w"
    using w by (auto simp: ws_fresh_def ws_range_defs)
  have "idx_ok (map (wc_heap ?m) (list_insert_at
      (ub (ws_keys (wc_heap ?m) (wc_lba ?m)) (ws_rlba (wc_heap ?m P))) P (wc_lba ?m)))"
    by (rule insert_ok) (use M sep wend in \<open>auto simp: wc_inv_def\<close>)
  then have inv': "wc_inv (wc_write lb ub w c)"
    using M unfolding W wc_inv_def by (auto intro!: distinct_list_insert_at)
  moreover have "wc_view (wc_write lb ub w c) b =
      (if ws_lba w \<le> b \<and> b < ws_wtail w then Some (ws_data w) else wc_view c b)" for b
  proof (rule wc_view_eqI [OF inv'])
    fix d
    have covw: "ws_covers w b \<longleftrightarrow> ws_lba w \<le> b \<and> b < ws_wtail w"
      using wend by (simp add: ws_covers_def)
    have none: "\<not> ws_covers (wc_heap ?m p) b"
      if "ws_lba w \<le> b \<and> b < ws_wtail w" "p \<in> set (wc_lba ?m)" for p
      using sep [OF that(2)] that(1) ws_covers_live [of "wc_heap ?m p" b]
      by (auto simp: ws_covers_def)
    show "(\<exists>p \<in> set (wc_lba (wc_write lb ub w c)). ws_covers (wc_heap (wc_write lb ub w c) p) b \<and>
          ws_data (wc_heap (wc_write lb ub w c) p) = d) \<longleftrightarrow>
        (if ws_lba w \<le> b \<and> b < ws_wtail w then Some (ws_data w) else wc_view c b) = Some d"
      using M cov [of b d] none covw wc_view_Some_iff [OF inv, of b d] unfolding W
      by auto
  qed
  ultimately show ?thesis by blast
qed

end

section \<open>The canonical index positions\<close>

text \<open>The documented positions as functions, used wherever a concrete run is evaluated.\<close>

definition std_lb :: "nat list \<Rightarrow> nat \<Rightarrow> nat" where
  "std_lb keys k = length (takeWhile (\<lambda>x. x < k) keys)"

definition std_ub :: "nat list \<Rightarrow> nat \<Rightarrow> nat" where
  "std_ub keys k = length (takeWhile (\<lambda>x. x \<le> k) keys)"

interpretation std: ordered_index std_lb std_ub
  by unfold_locales (simp_all add: std_lb_def std_ub_def)

section \<open>Properties\<close>

definition seg_a :: write_segment where "seg_a = WriteSegment 0 10"
definition seg_b :: write_segment where "seg_b = WriteSegment 2 3"

lemmas wc_eval = WriteSegment_def WriteCache_def wc_write_def wc_alloc_def wc_push_def
  wc_search_def wc_push_back_def wc_merge_def WriteSegment_copy_def ws_keys_def
  list_insert_at_def std_lb_def std_ub_def Let_def wc_view_def ws_data_def

lemma wc_inv_WriteCache: "wc_inv (WriteCache h n)"
  by (simp add: wc_inv_def WriteCache_def idx_ok_def)

lemma wc_safe_WriteCache: "wc_safe w (WriteCache h n)"
  by (simp add: wc_safe_def WriteCache_def)

text \<open>C9. Pushing a new write segment whose push is safe, in the sense of \<open>wc_safe\<close>, keeps the cache invariant, and
  afterwards a read finds the new data on exactly the blocks of the new segment and the old data, with origin,
  length, offset and buffers, everywhere else: the merge loop of \<^verbatim>\<open>push\<close>, with its overwrite, split and shrink cases,
  refines overwriting a range. What pushes that are not safe do is shown by \<open>wc_split_loses_blocks\<close>,
  \<open>wc_split_resets_offset\<close> and \<open>wc_index_order_broken\<close>.\<close>

theorem wc_write_refines:
  assumes "ordered_index lb ub" and "wc_inv c" and "ws_fresh w" and "wc_safe w c"
  shows "wc_inv (wc_write lb ub w c) \<and>
    wc_view (wc_write lb ub w c) =
      (\<lambda>b. if ws_lba w \<le> b \<and> b < ws_wtail w then Some (ws_data w) else wc_view c b)"
  using ordered_index.write_correct [OF assms] .

text \<open>A cache with segments for the blocks 0 to 9 and 20 to 24. A write to 2 to 4 splits the first, one to 8 to 21
  cuts the tail of the first and the head of the second, and one to 18 to 27 overwrites the second.\<close>

definition ex_two :: write_cache where
  "ex_two = wc_write std_lb std_ub (WriteSegment 20 5) (wc_write std_lb std_ub seg_a (WriteCache (\<lambda>_. seg_b) 0))"

lemma ex_two_inv: "wc_inv ex_two"
  by code_simp

definition found_at :: "write_cache \<Rightarrow> nat \<Rightarrow> (nat \<times> nat) option" where
  "found_at c b = map_option (\<lambda>(lba, len, ds, bufs). (lba, ds)) (wc_view c b)"

lemma wc_write_refines_witness:
  "found_at ex_two 7 = Some (0, 0) \<and> found_at ex_two 22 = Some (20, 0) \<and>
   map (found_at (wc_write std_lb std_ub seg_b ex_two)) [1, 3, 7, 22] =
     [Some (0, 0), Some (2, 0), Some (0, 0), Some (20, 0)] \<and>
   map (found_at (wc_write std_lb std_ub (WriteSegment 8 14) ex_two)) [7, 8, 21, 22] =
     [Some (0, 0), Some (8, 0), Some (8, 0), Some (20, 0)] \<and>
   map (found_at (wc_write std_lb std_ub (WriteSegment 18 10) ex_two)) [9, 18, 22, 28] =
     [Some (0, 0), Some (18, 0), Some (18, 0), None]"
proof -
  have fresh: "ws_fresh seg_b" "ws_fresh (WriteSegment 8 14)" "ws_fresh (WriteSegment 18 10)"
    by code_simp+
  have safe: "wc_safe seg_b ex_two" "wc_safe (WriteSegment 8 14) ex_two" "wc_safe (WriteSegment 18 10) ex_two"
    by code_simp+
  have old: "map (found_at ex_two) [1, 7, 9, 22, 28] =
      [Some (0, 0), Some (0, 0), Some (0, 0), Some (20, 0), None]"
    by code_simp
  have range: "ws_lba seg_b = 2" "ws_wtail seg_b = 5" "ws_data seg_b = (2, 3, 0, [])"
    by (simp_all add: seg_b_def WriteSegment_def ws_wtail_def ws_data_def)
  note push = wc_write_refines [OF std.ordered_index_axioms ex_two_inv]
  show ?thesis
    using old push [OF fresh(1) safe(1)] push [OF fresh(2) safe(2)] push [OF fresh(3) safe(3)] range
    by (simp add: found_at_def WriteSegment_def ws_wtail_def ws_data_def)
qed

text \<open>C34. In a cache that satisfies the invariant a search returns exactly the live segments that meet the range,
  in increasing order and disjoint, and every cached block of the range lies in one of them. Pushes that are not
  safe leave the invariant, see \<open>wc_index_order_broken\<close>.\<close>

theorem wc_search_exact:
  assumes "ordered_index lb ub" and "wc_inv c"
  shows "wc_search lb c lba len = filter (\<lambda>p. ws_hit lba len (wc_heap c p)) (wc_lba c) \<and>
    sorted_wrt (\<lambda>p q. ws_end (wc_heap c p) \<le> ws_rlba (wc_heap c q)) (wc_search lb c lba len) \<and>
    (\<forall>b. lba \<le> b \<and> b < lba + len \<and> wc_view c b \<noteq> None \<longrightarrow>
       (\<exists>p \<in> set (wc_search lb c lba len). ws_covers (wc_heap c p) b))"
proof -
  have ok: "idx_ok (map (wc_heap c) (wc_lba c))" using assms(2) by (simp add: wc_inv_def)
  have eq: "wc_search lb c lba len = filter (\<lambda>p. ws_hit lba len (wc_heap c p)) (wc_lba c)"
    using ordered_index.search_list_eq [OF assms(1) ok] assms(2)
    by (auto simp: wc_search_def Let_def wc_inv_def)
  have "sorted_wrt (\<lambda>p q. idx_rel (wc_heap c p) (wc_heap c q)) (wc_lba c)"
    using ok by (simp add: idx_ok_def sorted_wrt_map)
  then have "sorted_wrt (\<lambda>p q. idx_rel (wc_heap c p) (wc_heap c q)) (wc_search lb c lba len)"
    unfolding eq by (rule sorted_wrt_filter)
  then have "sorted_wrt (\<lambda>p q. ws_end (wc_heap c p) \<le> ws_rlba (wc_heap c q)) (wc_search lb c lba len)"
    by (rule sorted_wrt_mono_rel [rotated]) (auto simp: eq idx_rel_def ws_hit_def)
  moreover have "\<exists>p \<in> set (wc_search lb c lba len). ws_covers (wc_heap c p) b"
    if b: "lba \<le> b" "b < lba + len" "wc_view c b \<noteq> None" for b
  proof -
    from b(3) wc_view_Some_iff [OF assms(2), of b]
    obtain p where "p \<in> set (wc_lba c)" "ws_covers (wc_heap c p) b" by blast
    with b show ?thesis unfolding eq by (auto simp: ws_range_defs intro!: bexI [of _ p])
  qed
  ultimately show ?thesis using eq by blast
qed

lemma wc_search_exact_witness:
  "wc_search std_lb ex_two 3 30 = [0, 1] \<and> wc_search std_lb ex_two 22 1 = [1] \<and> wc_search std_lb ex_two 10 10 = []"
proof -
  have "wc_lba ex_two = [0, 1]" "ws_rlba (wc_heap ex_two 0) = 0" "ws_rlength (wc_heap ex_two 0) = 10"
    "ws_rlba (wc_heap ex_two 1) = 20" "ws_rlength (wc_heap ex_two 1) = 5"
    by code_simp+
  then show ?thesis
    using wc_search_exact [OF std.ordered_index_axioms ex_two_inv, of 3 30]
      wc_search_exact [OF std.ordered_index_axioms ex_two_inv, of 22 1]
      wc_search_exact [OF std.ordered_index_axioms ex_two_inv, of 10 10]
    by (simp add: ws_hit_def ws_live_def ws_end_def)
qed

text \<open>The split case computes the start of the copy from the segment's original address, so
  a segment whose head was already cut loses blocks: after writing 5 to 14, then 0 to 7, then 10 to
  11, block 12 is no longer found in the cache although nothing has been written to disk, and
  block 9 is claimed by two live segments.\<close>

theorem wc_split_loses_blocks:
  "let c1 = wc_write std_lb std_ub (WriteSegment 5 10) (WriteCache (\<lambda>_. seg_a) 0);
       c2 = wc_write std_lb std_ub (WriteSegment 0 8) c1;
       c3 = wc_write std_lb std_ub (WriteSegment 10 2) c2
   in map_option fst (wc_view c2 12) = Some 5 \<and> map_option fst (wc_view c3 12) = None \<and>
      wc_size c3 = 4 \<and>
      length (filter (\<lambda>p. ws_covers (wc_heap c3 p) 9) (wc_lba c3)) = 2"
  by code_simp

text \<open>The copy of a split starts its data at the start of the first buffer whatever the offset of the original:
  of a segment whose data follow a header of 48 bytes, the blocks behind the split are answered with the header.\<close>

lemma wc_split_resets_offset:
  "let c1 = wc_write std_lb std_ub (seg_a\<lparr>ws_ds_offset := 48\<rparr>) (WriteCache (\<lambda>_. seg_a) 0);
       c2 = wc_write std_lb std_ub seg_b c1
   in found_at c1 7 = Some (0, 48) \<and> found_at c2 1 = Some (0, 48) \<and> found_at c2 7 = Some (0, 0)"
  by code_simp

text \<open>Cutting the head of a segment changes its key inside the ordered index without
  \<^verbatim>\<open>modify()\<close>: after the writes 5 to 6, 3 to 12 and 0 to 7 the index order is 0, 8, 5, so the
  precondition of the next \<^verbatim>\<open>lower_bound\<close> no longer holds.\<close>

theorem wc_index_order_broken:
  "let c1 = wc_write std_lb std_ub (WriteSegment 5 2) (WriteCache (\<lambda>_. seg_a) 0);
       c2 = wc_write std_lb std_ub (WriteSegment 3 10) c1;
       c3 = wc_write std_lb std_ub (WriteSegment 0 8) c2
   in sorted (ws_keys (wc_heap c2) (wc_lba c2)) \<and> ws_keys (wc_heap c3) (wc_lba c3) = [0, 8, 5] \<and>
      \<not> sorted (ws_keys (wc_heap c3) (wc_lba c3))"
  by code_simp

end
