(* ===== verification/WriteCache_Drain.thy ===== *)
theory WriteCache_Drain
  imports WriteCache_Push
begin

text \<open>
  The disk writer's side of the write cache: \<^verbatim>\<open>front\<close>, \<^verbatim>\<open>pop\<close> and \<^verbatim>\<open>getNext\<close> walk the queue in
  push order over the segments that are not copies, and never run past its end, because the last
  element of a queue that pushes and pops have built is never a copy. The second half shows that
  writes of one aligned size, which is what a file system with a fixed block size sends, are
  always safe, so that the cache then holds exactly the last write of every block.
\<close>

section \<open>The queue\<close>

definition wc_tail_ok :: "write_cache \<Rightarrow> bool" where
  "wc_tail_ok c \<longleftrightarrow> wc_fifo c = [] \<or> \<not> ws_copy (wc_heap c (last (wc_fifo c)))"

lemma wc_inv_drop:
  assumes "wc_inv c" and "wc_fifo c = p # ps"
  shows "wc_inv (wc_drop p c)"
proof -
  have "set (remove1 p (wc_lba c)) = set (wc_lba c) - {p}"
    using assms by (simp add: wc_inv_def)
  moreover have "idx_ok (map (wc_heap c) (remove1 p (wc_lba c)))"
  proof -
    have "sorted_wrt (\<lambda>a b. idx_rel (wc_heap c a) (wc_heap c b)) (filter (\<lambda>q. q \<noteq> p) (wc_lba c))"
      using assms by (intro sorted_wrt_filter) (simp add: wc_inv_def idx_ok_def sorted_wrt_map)
    moreover have "filter (\<lambda>q. q \<noteq> p) (wc_lba c) = remove1 p (wc_lba c)"
      using assms by (simp add: wc_inv_def distinct_remove1_removeAll removeAll_filter_not_eq)
        (metis (mono_tags, lifting) filter_cong)
    ultimately show ?thesis by (simp add: idx_ok_def sorted_wrt_map)
  qed
  ultimately show ?thesis
    using assms by (auto simp: wc_inv_def wc_drop_def distinct_remove1)
qed

text \<open>Popping the front keeps the invariant and takes exactly the front's blocks out of the
  view; every other block keeps its data.\<close>

theorem wc_pop_view:
  assumes "wc_inv c" and "wc_fifo c = p # ps"
  shows "wc_inv (wc_pop c) \<and> wc_fifo (wc_pop c) = ps \<and>
    wc_view (wc_pop c) = (\<lambda>b. if ws_covers (wc_heap c p) b then None else wc_view c b)"
proof -
  have inv': "wc_inv (wc_pop c)"
    using wc_inv_drop [OF assms] assms(2) by (simp add: wc_pop_def)
  have pop: "wc_heap (wc_pop c) = wc_heap c" "set (wc_lba (wc_pop c)) = set (wc_lba c) - {p}"
    "wc_fifo (wc_pop c) = ps"
    using assms by (auto simp: wc_pop_def wc_drop_def wc_inv_def)
  have pin: "p \<in> set (wc_lba c)" using assms by (simp add: wc_inv_def)
  have uniq: "q = p" if "q \<in> set (wc_lba c)" "ws_covers (wc_heap c q) b" "ws_covers (wc_heap c p) b"
    for q b
  proof (rule ccontr)
    assume "q \<noteq> p"
    with disjoint_live [of "wc_heap c" "wc_lba c" q p] assms(1) that pin
    show False by (auto simp: wc_inv_def ws_range_defs)
  qed
  have "wc_view (wc_pop c) b = (if ws_covers (wc_heap c p) b then None else wc_view c b)" for b
  proof (rule wc_view_eqI [OF inv'])
    fix d
    show "(\<exists>q \<in> set (wc_lba (wc_pop c)). ws_covers (wc_heap (wc_pop c) q) b \<and>
        ws_data (wc_heap (wc_pop c) q) = d) \<longleftrightarrow>
      (if ws_covers (wc_heap c p) b then None else wc_view c b) = Some d"
      using uniq [of _ b] wc_view_Some_iff [OF assms(1), of b d] pop by auto
  qed
  with inv' pop show ?thesis by blast
qed

lemma wc_skip_copies_eq:
  "wc_fifo c = cs @ p # ps \<Longrightarrow> \<forall>q \<in> set cs. ws_copy (wc_heap c q) \<Longrightarrow> \<not> ws_copy (wc_heap c p) \<Longrightarrow>
     length cs < fuel \<Longrightarrow> wc_inv c \<Longrightarrow>
     \<exists>c'. wc_skip_copies fuel c = Some (p, c') \<and> wc_fifo c' = p # ps \<and> wc_heap c' = wc_heap c \<and>
       wc_inv c'"
proof (induction cs arbitrary: c fuel)
  case Nil
  then show ?case by (cases fuel) auto
next
  case (Cons q cs)
  then obtain f where f: "fuel = Suc f" by (cases fuel) auto
  have "wc_inv (wc_drop q c)" using Cons.prems by (intro wc_inv_drop) auto
  moreover have "wc_fifo (wc_drop q c) = cs @ p # ps" "wc_heap (wc_drop q c) = wc_heap c"
    using Cons.prems by (simp_all add: wc_drop_def)
  ultimately show ?case using Cons.IH [of "wc_drop q c" f] Cons.prems f by auto
qed

text \<open>On a queue whose last element is not a copy \<^verbatim>\<open>_front\<close> never runs past the end: it
  returns the oldest segment that is not a copy, having discarded only the copies before it, and
  the queue stays non-empty with the same last element.\<close>

theorem wc_front_total:
  assumes "wc_inv c" and "wc_tail_ok c" and "wc_fifo c \<noteq> []"
  shows "\<exists>p ps c'. dropWhile (\<lambda>q. ws_copy (wc_heap c q)) (wc_fifo c) = p # ps \<and>
    wc_front c = Some (Some p, c') \<and> wc_fifo c' = p # ps \<and> wc_heap c' = wc_heap c \<and>
    wc_inv c' \<and> wc_tail_ok c'"
proof -
  let ?cp = "\<lambda>q. ws_copy (wc_heap c q)"
  have split: "wc_fifo c = takeWhile ?cp (wc_fifo c) @ dropWhile ?cp (wc_fifo c)" by simp
  have "dropWhile ?cp (wc_fifo c) \<noteq> []"
    using assms(2,3) by (auto simp: wc_tail_ok_def dropWhile_eq_Nil_conv)
  then obtain p ps where d: "dropWhile ?cp (wc_fifo c) = p # ps"
    by (cases "dropWhile ?cp (wc_fifo c)") auto
  have ncp: "\<not> ?cp p" using d by (metis hd_dropWhile list.distinct(1) list.sel(1))
  have len: "length (takeWhile ?cp (wc_fifo c)) < Suc (length (wc_fifo c))"
    by (simp add: length_takeWhile_le less_Suc_eq_le)
  have cps: "\<forall>q \<in> set (takeWhile ?cp (wc_fifo c)). ?cp q" by (auto dest: set_takeWhileD)
  from wc_skip_copies_eq [OF _ cps ncp len assms(1)] split d obtain c' where c':
    "wc_skip_copies (Suc (length (wc_fifo c))) c = Some (p, c')"
    "wc_fifo c' = p # ps" "wc_heap c' = wc_heap c" "wc_inv c'" by metis
  have "last (wc_fifo c) = last (p # ps)"
    using split d by (metis last_appendR list.distinct(1))
  then have "wc_tail_ok c'" using assms(2,3) c' by (auto simp: wc_tail_ok_def)
  with c' d assms(3) show ?thesis by (auto simp: wc_front_def simp del: wc_skip_copies.simps)
qed

lemma wc_tail_ok_pop:
  "wc_tail_ok c \<Longrightarrow> wc_tail_ok (wc_pop c)"
  by (cases "wc_fifo c") (auto simp: wc_tail_ok_def wc_pop_def wc_drop_def split: if_splits)

lemma wc_merge_frame:
  assumes "p \<noteq> P" and "P < wc_next c"
  shows "wc_heap (wc_merge ub w p c) P = wc_heap c P \<and> P < wc_next (wc_merge ub w p c) \<and>
    set (wc_fifo (wc_merge ub w p c)) \<subseteq> insert (wc_next c) (set (wc_fifo c))"
  using assms by (auto simp: wc_merge_def wc_push_back_def Let_def)

lemma fold_wc_merge_frame:
  assumes "P \<notin> set hits" and "P < wc_next c" and "P \<notin> set (wc_fifo c)"
  shows "wc_heap (fold (wc_merge ub w) hits c) P = wc_heap c P \<and>
    P \<notin> set (wc_fifo (fold (wc_merge ub w) hits c))"
  using assms
proof (induction hits arbitrary: c)
  case Nil
  then show ?case by simp
next
  case (Cons p hits)
  have "p \<noteq> P" using Cons.prems by auto
  from wc_merge_frame [OF this Cons.prems(2), of ub w] Cons.prems
  have "wc_heap (wc_merge ub w p c) P = wc_heap c P" "P < wc_next (wc_merge ub w p c)"
    "P \<notin> set (wc_fifo (wc_merge ub w p c))" by auto
  with Cons.IH [of "wc_merge ub w p c"] Cons.prems show ?case by simp
qed

lemma ws_fill_hits_subset: "set (ws_fill_hits h lba len ps) \<subseteq> set ps"
  by (induction ps) auto

lemma wc_search_subset: "set (wc_search lb c lba len) \<subseteq> set (wc_lba c)"
  by (auto simp: wc_search_def Let_def dest!: subsetD [OF ws_fill_hits_subset] in_set_dropD)

text \<open>Whatever the index does, a write puts the new segment at the end of the queue, so the
  queue never ends in a copy and the disk writer sees writes in the order they were pushed.\<close>

theorem wc_write_tail:
  assumes "wc_inv c" and "\<not> ws_copy w"
  shows "last (wc_fifo (wc_write lb ub w c)) = wc_next c \<and>
    wc_heap (wc_write lb ub w c) (wc_next c) = w \<and> wc_tail_ok (wc_write lb ub w c)"
proof -
  let ?P = "wc_next c"
  let ?c1 = "c\<lparr>wc_heap := (wc_heap c)(?P := w), wc_next := Suc ?P\<rparr>"
  let ?hits = "wc_search lb ?c1 (ws_lba w) (ws_transfer_length w)"
  let ?m = "fold (wc_merge ub w) ?hits ?c1"
  have "?P \<notin> set (wc_lba c)" "?P \<notin> set (wc_fifo c)" using assms(1) by (auto simp: wc_inv_def)
  moreover from this have "?P \<notin> set ?hits" using wc_search_subset [of lb ?c1] by auto
  ultimately have "wc_heap ?m ?P = w" "?P \<notin> set (wc_fifo ?m)"
    using fold_wc_merge_frame [of ?P ?hits ?c1 ub w] by auto
  then show ?thesis
    using assms(2) by (simp add: wc_write_def wc_alloc_def wc_push_def wc_push_back_def Let_def
        wc_tail_ok_def)
qed

section \<open>Writes of one aligned size\<close>

definition ws_aligned :: "nat \<Rightarrow> write_segment \<Rightarrow> bool" where
  "ws_aligned n s \<longleftrightarrow> n dvd ws_rlba s \<and> (ws_rlength s = 0 \<or> ws_rlength s = n)"

lemma aligned_trim:
  assumes "0 < n" and "ws_aligned n s" and "n dvd ws_lba w" and "ws_transfer_length w = n"
  shows "\<not> ws_split w s \<and> \<not> ws_cut_head w s \<and>
    (ws_trim w s = s \<or> ws_trim w s = s\<lparr>ws_rlength := 0\<rparr>)"
proof -
  from assms obtain k m where km: "ws_rlba s = n * k" "ws_lba w = n * m"
    by (auto simp: ws_aligned_def elim!: dvdE)
  consider "k < m" | "k = m" | "m < k" by linarith
  then have "n * k + n \<le> n * m \<or> n * k = n * m \<or> n * m + n \<le> n * k"
  proof cases
    case 1
    then have "n * (k + 1) \<le> n * m" by (intro mult_le_mono2) simp
    then show ?thesis by simp
  next
    case 3
    then have "n * (m + 1) \<le> n * k" by (intro mult_le_mono2) simp
    then show ?thesis by simp
  qed simp
  then have "ws_rlba s + n \<le> ws_lba w \<or> ws_rlba s = ws_lba w \<or> ws_lba w + n \<le> ws_rlba s"
    by (simp only: km)
  moreover have "ws_rlength s = 0 \<or> ws_rlength s = n" using assms(2) by (simp add: ws_aligned_def)
  ultimately show ?thesis using assms(1,4)
    by (auto simp: ws_trim_defs ws_range_defs)
qed

lemma aligned_safe:
  assumes "0 < n" and "\<forall>p \<in> set (wc_lba c). ws_aligned n (wc_heap c p)"
    and "n dvd ws_lba w" and "ws_transfer_length w = n"
  shows "wc_safe w c"
  using assms(2) aligned_trim [OF assms(1) _ assms(3,4)]
  by (auto simp: wc_safe_def sorted_wrt_map sorted_wrt_iff_nth_less)

lemma aligned_write:
  assumes ix: "ordered_index lb ub" and inv: "wc_inv c" and n: "0 < n"
    and al: "\<forall>p \<in> set (wc_lba c). ws_aligned n (wc_heap c p)"
    and w: "ws_fresh w" "n dvd ws_lba w" "ws_transfer_length w = n"
  shows "\<forall>p \<in> set (wc_lba (wc_write lb ub w c)). ws_aligned n (wc_heap (wc_write lb ub w c) p)"
proof -
  define P where "P = wc_next c"
  define hits where
    "hits = filter (\<lambda>p. ws_hit (ws_lba w) (ws_transfer_length w) (wc_heap c p)) (wc_lba c)"
  have no: "\<not> ws_split w (wc_heap c p)" if "p \<in> set hits" for p
    using aligned_trim [OF n _ w(2,3)] al that by (auto simp: hits_def)
  have pos: "0 < ws_transfer_length w" using n w(3) by simp
  have "P \<notin> set (wc_fifo c)" "P \<notin> set (wc_lba c)" using inv by (auto simp: wc_inv_def P_def)
  moreover have "ws_aligned n w" using w by (auto simp: ws_aligned_def ws_fresh_def)
  moreover have "ws_aligned n (ws_trim w (wc_heap c p))" if "p \<in> set (wc_lba c)" for p
    using aligned_trim [OF n _ w(2,3), of "wc_heap c p"] al that
    by (auto simp: ws_aligned_def)
  moreover have "fold (wc_merge ub w) hits (c\<lparr>wc_heap := (wc_heap c)(P := w), wc_next := Suc P\<rparr>) =
      c\<lparr>wc_heap := \<lambda>p. if p = P then w
           else if p \<in> set (wc_lba c) then ws_trim w (wc_heap c p) else wc_heap c p,
        wc_next := Suc P\<rparr>"
    by (rule merge_whole_state [OF inv pos P_def hits_def no])
  ultimately show ?thesis
    unfolding ordered_index.write_unfold [OF ix inv P_def hits_def]
    by (auto simp: wc_push_back_def)
qed

definition last_write :: "write_segment list \<Rightarrow> nat \<Rightarrow> (nat \<times> nat \<times> nat \<times> common_buf list) option" where
  "last_write ws b =
     (case filter (\<lambda>w. ws_lba w \<le> b \<and> b < ws_wtail w) ws of
        [] \<Rightarrow> None | xs \<Rightarrow> Some (ws_data (last xs)))"

lemma last_write_snoc:
  "last_write (ws @ [w]) b =
     (if ws_lba w \<le> b \<and> b < ws_wtail w then Some (ws_data w) else last_write ws b)"
  by (cases "filter (\<lambda>w. ws_lba w \<le> b \<and> b < ws_wtail w) ws") (auto simp: last_write_def)

text \<open>For writes of one size at multiples of that size, in any number and order, the cache
  always holds for every block the data of the last write to it: no push ever meets the unsafe
  split or head cut.\<close>

theorem wc_aligned_writes:
  assumes "ordered_index lb ub" and "0 < n"
    and "\<forall>w \<in> set ws. ws_fresh w \<and> n dvd ws_lba w \<and> ws_transfer_length w = n"
  shows "wc_inv (fold (wc_write lb ub) ws (WriteCache h 0)) \<and>
    wc_view (fold (wc_write lb ub) ws (WriteCache h 0)) = last_write ws"
proof -
  let ?run = "\<lambda>ws. fold (wc_write lb ub) ws (WriteCache h 0)"
  have "wc_inv (?run ws) \<and> wc_view (?run ws) = last_write ws \<and>
    (\<forall>p \<in> set (wc_lba (?run ws)). ws_aligned n (wc_heap (?run ws) p))"
    using assms(3)
  proof (induction ws rule: rev_induct)
    case Nil
    then show ?case using wc_inv_WriteCache [of h 0]
      by (auto simp: last_write_def wc_view_def WriteCache_def)
  next
    case (snoc w ws)
    let ?c = "?run ws"
    have ih: "wc_inv ?c" "wc_view ?c = last_write ws"
      "\<forall>p \<in> set (wc_lba ?c). ws_aligned n (wc_heap ?c p)"
      and w: "ws_fresh w" "n dvd ws_lba w" "ws_transfer_length w = n"
      using snoc by auto
    from ordered_index.write_correct [OF assms(1) ih(1) w(1) aligned_safe [OF assms(2) ih(3) w(2,3)]]
      aligned_write [OF assms(1) ih(1) assms(2) ih(3) w]
    show ?case by (auto simp: ih(2) last_write_snoc fun_eq_iff)
  qed
  then show ?thesis by blast
qed

theorem wc_aligned_writes_witness:
  "wc_view (fold (wc_write std_lb std_ub)
     [WriteSegment 8 8, WriteSegment 0 8, WriteSegment 8 8] (WriteCache (\<lambda>_. seg_a) 0)) 9 = Some (8, 8, 0, [])"
proof -
  have "\<forall>w \<in> set [WriteSegment 8 8, WriteSegment 0 8, WriteSegment 8 8].
      ws_fresh w \<and> 8 dvd ws_lba w \<and> ws_transfer_length w = 8"
    by (simp add: WriteSegment_def ws_fresh_def)
  from wc_aligned_writes [OF std.ordered_index_axioms _ this, of "\<lambda>_. seg_a"] show ?thesis
    by (simp add: last_write_def WriteSegment_def ws_wtail_def ws_data_def)
qed

section \<open>Witnesses for the queue\<close>

lemma drain_example:
  "wc_inv (wc_write std_lb std_ub seg_a (WriteCache (\<lambda>_. seg_b) 0)) \<and>
   wc_fifo (wc_write std_lb std_ub seg_a (WriteCache (\<lambda>_. seg_b) 0)) = [0] \<and>
   wc_heap (wc_write std_lb std_ub seg_a (WriteCache (\<lambda>_. seg_b) 0)) 0 = seg_a"
proof -
  have "ws_fresh seg_a" by (simp add: seg_a_def WriteSegment_def ws_fresh_def)
  from ordered_index.write_correct [OF std.ordered_index_axioms wc_inv_WriteCache this
      wc_safe_WriteCache]
  show ?thesis by (simp add: wc_eval)
qed

theorem wc_pop_view_witness:
  "wc_view (wc_pop (wc_write std_lb std_ub seg_a (WriteCache (\<lambda>_. seg_b) 0))) 3 = None"
proof -
  let ?c = "wc_write std_lb std_ub seg_a (WriteCache (\<lambda>_. seg_b) 0)"
  have "wc_inv ?c" "wc_fifo ?c = 0 # []" using drain_example by auto
  from wc_pop_view [OF this] show ?thesis
    using drain_example by (simp add: ws_covers_def ws_end_def) (simp add: seg_a_def WriteSegment_def)
qed

theorem wc_front_total_witness:
  "\<exists>c'. wc_front (wc_write std_lb std_ub seg_a (WriteCache (\<lambda>_. seg_b) 0)) = Some (Some 0, c')"
proof -
  let ?c = "wc_write std_lb std_ub seg_a (WriteCache (\<lambda>_. seg_b) 0)"
  have "wc_tail_ok ?c" using drain_example
    by (simp add: wc_tail_ok_def) (simp add: seg_a_def WriteSegment_def)
  from wc_front_total [OF _ this] drain_example show ?thesis
    by (auto simp: seg_a_def WriteSegment_def)
qed

theorem wc_write_tail_witness:
  "wc_tail_ok (wc_write std_lb std_ub seg_a (WriteCache (\<lambda>_. seg_b) 0))"
  using wc_write_tail [OF wc_inv_WriteCache, of seg_a std_lb std_ub "\<lambda>_. seg_b" 0]
  by (simp add: seg_a_def WriteSegment_def)

end
