(* ===== verification/Volume.thy ===== *)
theory Volume
  imports Prelude
begin

text \<open>
  Physical and logical volumes: \<^verbatim>\<open>include/volume.h\<close>, \<^verbatim>\<open>src/volume.cpp\<close> and the handles of
  \<^verbatim>\<open>include/filehandle.h\<close>. A logical volume is an array of physical volumes, each a number of
  sectors of a file or device; \<^verbatim>\<open>getLowHandles\<close> turns a byte range of the logical volume into
  pieces of the files below it. What \<^verbatim>\<open>open64\<close> answers for a path and a mode is the parameter
  \<open>opener\<close>, and what the probing reads and writes of \<^verbatim>\<open>PhysicalVolume::valid\<close> answer is the
  parameter \<open>probe\<close>.
\<close>

section \<open>Handles\<close>

definition INVALID_HANDLE_VALUE :: int where
  "INVALID_HANDLE_VALUE = -1"

record low_handle =
  lh_fd :: int
  lh_offset :: nat
  lh_length :: nat

definition LowHandle :: "int \<Rightarrow> nat \<Rightarrow> nat \<Rightarrow> low_handle" where
  "LowHandle fd off n = \<lparr>lh_fd = fd, lh_offset = off, lh_length = n\<rparr>"

section \<open>Physical volumes\<close>

text \<open>The constructor's \<^verbatim>\<open>count\<close> is 64 bits wide, the member that \<^verbatim>\<open>sector\<close> is computed from is a
  \<^verbatim>\<open>uint32_t\<close>: the conversion is written out.\<close>

record physical_volume =
  pv_path :: string
  pv_start :: nat
  pv_count :: nat
  pv_sector :: nat

definition PhysicalVolume :: "string \<Rightarrow> nat \<Rightarrow> nat \<Rightarrow> physical_volume" where
  "PhysicalVolume path start cnt =
     (let c = cnt mod 2 ^ 32
      in \<lparr>pv_path = path, pv_start = start, pv_count = c, pv_sector = LBA2OFFSET c\<rparr>)"

definition getCoverage :: "physical_volume \<Rightarrow> nat \<Rightarrow> nat \<Rightarrow> nat" where
  "getCoverage pv offset n =
     (if offset > pv_sector pv then 0
      else if offset + n < pv_sector pv then n
      else pv_sector pv - offset)"

section \<open>Volume arrays\<close>

record volume_array =
  va_volumes :: "physical_volume list"
  va_count :: nat

definition VolumeArray :: volume_array where
  "VolumeArray = \<lparr>va_volumes = [], va_count = 0\<rparr>"

definition addVolume :: "physical_volume \<Rightarrow> volume_array \<Rightarrow> volume_array" where
  "addVolume v a = a\<lparr>va_volumes := va_volumes a @ [v], va_count := va_count a + pv_count v\<rparr>"

text \<open>The loop of \<^verbatim>\<open>getLowHandles\<close>: \<open>cur\<close> is the offset into the current volume, \<open>remain\<close> what is
  still to be covered. \<^verbatim>\<open>cur -= getSector()\<close> is reached with \<open>sector \<le> cur\<close> unless nothing is asked
  for; then the result is empty whatever \<open>cur\<close> is.\<close>

fun low_handles ::
  "(string \<Rightarrow> bool \<Rightarrow> int) \<Rightarrow> bool \<Rightarrow> physical_volume list \<Rightarrow> nat \<Rightarrow> nat \<Rightarrow> low_handle list" where
  "low_handles opener read_only [] cur remain = []"
| "low_handles opener read_only (v # vs) cur remain =
     (let covered = getCoverage v cur remain
      in if covered > 0
         then LowHandle (opener (pv_path v) read_only) (pv_start v + cur) covered #
              (if remain - covered = 0 then []
               else low_handles opener read_only vs 0 (remain - covered))
         else low_handles opener read_only vs (cur - pv_sector v) remain)"

definition getLowHandles ::
  "(string \<Rightarrow> bool \<Rightarrow> int) \<Rightarrow> volume_array \<Rightarrow> nat \<Rightarrow> nat \<Rightarrow> bool \<Rightarrow> low_handle list" where
  "getLowHandles opener a offset n read_only = low_handles opener read_only (va_volumes a) offset n"

section \<open>Logical volumes\<close>

text \<open>A part of the configuration: path, start and sector count; an element of \<^verbatim>\<open>VolumeInfo\<close>.\<close>

type_synonym volume_part = "string \<times> nat \<times> nat"

record logical_volume =
  lv_name :: string
  lv_original :: volume_array
  lv_copies :: "volume_array list"
  lv_count :: nat

definition part_volume :: "volume_part \<Rightarrow> physical_volume" where
  "part_volume = (\<lambda>(path, start, cnt). PhysicalVolume path start cnt)"

fun add_parts ::
  "(physical_volume \<Rightarrow> bool) \<Rightarrow> volume_part list \<Rightarrow> volume_array \<Rightarrow> physical_volume + volume_array" where
  "add_parts probe [] a = Inr a"
| "add_parts probe (p # ps) a =
     (let pv = part_volume p
      in if probe pv then add_parts probe ps (addVolume pv a) else Inl pv)"

text \<open>An unusable copy ends the constructor early, keeping the copies found so far; a copy that is
  smaller than the original is skipped.\<close>

fun add_copies ::
  "(physical_volume \<Rightarrow> bool) \<Rightarrow> volume_part list list \<Rightarrow> logical_volume \<Rightarrow> logical_volume" where
  "add_copies probe [] lv = lv"
| "add_copies probe (r # rs) lv =
     (case add_parts probe r VolumeArray of
        Inl _ \<Rightarrow> lv
      | Inr vols \<Rightarrow>
          if lv_count lv > va_count vols then add_copies probe rs lv
          else add_copies probe rs (lv\<lparr>lv_copies := lv_copies lv @ [vols]\<rparr>))"

definition LogicalVolume ::
  "(physical_volume \<Rightarrow> bool) \<Rightarrow> string \<Rightarrow> volume_part list \<Rightarrow> volume_part list list \<Rightarrow>
     string + logical_volume" where
  "LogicalVolume probe name orgs reps =
     (case add_parts probe orgs VolumeArray of
        Inl pv \<Rightarrow> Inl (''Ignored Physical Volume : '' @ pv_path pv @ '' in Logical Volume(Main) : '' @ name)
      | Inr original \<Rightarrow>
          Inr (add_copies probe reps
                 \<lparr>lv_name = name, lv_original = original, lv_copies = [],
                  lv_count = va_count original\<rparr>))"

definition lv_getLowHandles ::
  "(string \<Rightarrow> bool \<Rightarrow> int) \<Rightarrow> logical_volume \<Rightarrow> nat \<Rightarrow> nat \<Rightarrow> bool \<Rightarrow> low_handle list" where
  "lv_getLowHandles opener lv offset n read_only = getLowHandles opener (lv_original lv) offset n read_only"

section \<open>Address translation\<close>

text \<open>Specification: the file and position behind byte \<open>i\<close> of the logical volume, and the file and
  position behind byte \<open>k\<close> of a list of handles.\<close>

fun locate :: "(string \<Rightarrow> int) \<Rightarrow> physical_volume list \<Rightarrow> nat \<Rightarrow> (int \<times> nat) option" where
  "locate fd [] i = None"
| "locate fd (v # vs) i =
     (if i < pv_sector v then Some (fd (pv_path v), pv_start v + i)
      else locate fd vs (i - pv_sector v))"

fun handles_loc :: "low_handle list \<Rightarrow> nat \<Rightarrow> (int \<times> nat) option" where
  "handles_loc [] k = None"
| "handles_loc (h # hs) k =
     (if k < lh_length h then Some (lh_fd h, lh_offset h + k)
      else handles_loc hs (k - lh_length h))"

definition va_bytes :: "physical_volume list \<Rightarrow> nat" where
  "va_bytes vs = sum_list (map pv_sector vs)"

lemma getCoverage_eq: "getCoverage v cur n = min n (pv_sector v - cur)"
  by (auto simp: getCoverage_def min_def)

lemma low_handles_0: "low_handles opener ro vs cur 0 = []"
  by (induction vs arbitrary: cur) (auto simp: getCoverage_eq)

lemma low_handles_correct:
  "0 < n \<Longrightarrow> cur + n \<le> va_bytes vs \<Longrightarrow>
     sum_list (map lh_length (low_handles opener ro vs cur n)) = n \<and>
     (\<forall>h \<in> set (low_handles opener ro vs cur n). 0 < lh_length h) \<and>
     (\<forall>k < n. handles_loc (low_handles opener ro vs cur n) k = locate (\<lambda>p. opener p ro) vs (cur + k))"
proof (induction vs arbitrary: cur n)
  case Nil
  then show ?case by (simp add: va_bytes_def)
next
  case (Cons v vs)
  let ?c = "getCoverage v cur n"
  have tot: "cur + n \<le> pv_sector v + va_bytes vs" using Cons.prems by (simp add: va_bytes_def)
  show ?case
  proof (cases "cur < pv_sector v")
    case False
    then have "?c = 0" by (simp add: getCoverage_eq)
    with Cons.IH [of n "cur - pv_sector v"] Cons.prems(1) tot False show ?thesis
      by (auto simp: Let_def)
  next
    case True
    then have c: "0 < ?c" "?c \<le> n" "cur + ?c \<le> pv_sector v"
      using Cons.prems(1) by (auto simp: getCoverage_eq)
    show ?thesis
    proof (cases "n - ?c = 0")
      case t: True
      then have "?c = n" using c by simp
      with c True show ?thesis by (auto simp: LowHandle_def Let_def)
    next
      case f: False
      then have e: "cur + ?c = pv_sector v" using True by (auto simp: getCoverage_eq)
      have "0 + (n - ?c) \<le> va_bytes vs" using tot e c by simp
      from Cons.IH [OF _ this] f
      have ih: "sum_list (map lh_length (low_handles opener ro vs 0 (n - ?c))) = n - ?c"
        "\<forall>h \<in> set (low_handles opener ro vs 0 (n - ?c)). 0 < lh_length h"
        "\<And>k. k < n - ?c \<Longrightarrow> handles_loc (low_handles opener ro vs 0 (n - ?c)) k =
            locate (\<lambda>p. opener p ro) vs k"
        by auto
      have "handles_loc (low_handles opener ro (v # vs) cur n) k =
          locate (\<lambda>p. opener p ro) (v # vs) (cur + k)" if "k < n" for k
      proof (cases "k < ?c")
        case True
        with c f show ?thesis by (simp add: LowHandle_def Let_def)
      next
        case False
        then have "cur + k - pv_sector v = k - ?c" "\<not> cur + k < pv_sector v" using e by auto
        with False ih(3) [of "k - ?c"] that c f show ?thesis
          by (simp add: LowHandle_def Let_def)
      qed
      with ih c f show ?thesis by (auto simp: LowHandle_def Let_def)
    qed
  qed
qed

text \<open>C33. For a byte range inside the volume, \<^verbatim>\<open>getLowHandles\<close> returns non-empty pieces whose
  lengths add up to the range, and which map each byte of the range, in order, to the part that contains it, at
  \<^verbatim>\<open>Start\<close> plus the distance from the start of the part, \<^verbatim>\<open>Start\<close> counted in bytes. That is what the code
  computes; the manual documents \<^verbatim>\<open>Start\<close> in blocks of 512 bytes (\<open>start_is_not_scaled\<close>), and the two agree for
  parts that start at 0.\<close>

theorem getLowHandles_correct:
  assumes "0 < n" and "offset + n \<le> va_bytes (va_volumes a)"
  shows "sum_list (map lh_length (getLowHandles opener a offset n ro)) = n \<and>
    (\<forall>h \<in> set (getLowHandles opener a offset n ro). 0 < lh_length h) \<and>
    (\<forall>k < n. handles_loc (getLowHandles opener a offset n ro) k =
       locate (\<lambda>p. opener p ro) (va_volumes a) (offset + k))"
  using low_handles_correct [OF assms] by (simp add: getLowHandles_def)

definition example_array :: volume_array where
  "example_array = addVolume (PhysicalVolume ''b'' 0 4) (addVolume (PhysicalVolume ''a'' 0 2) VolumeArray)"

theorem getLowHandles_correct_witness:
  "sum_list (map lh_length (getLowHandles (\<lambda>p _. if p = ''a'' then 3 else 4) example_array 1000 100 True)) = 100"
  using getLowHandles_correct [of 100 1000 example_array "\<lambda>p _. if p = ''a'' then 3 else 4" True]
  by (simp add: example_array_def addVolume_def VolumeArray_def PhysicalVolume_def va_bytes_def
      LBA2OFFSET_eq Let_def)

text \<open>\<^verbatim>\<open>Start\<close> is documented, in the manual and beside the member, as a number of 512-byte
  sectors; the translation adds it to a byte offset, so block 0 of a volume with \<^verbatim>\<open>Start\<close> 100 is
  byte 100 of the file, not byte 51200.\<close>

theorem start_is_not_scaled:
  "getLowHandles (\<lambda>_ _. 3) (addVolume (PhysicalVolume ''a'' 100 8) VolumeArray) 0 512 True =
     [LowHandle 3 100 512] \<and> LBA2OFFSET 100 = 51200"
  by (simp add: getLowHandles_def addVolume_def VolumeArray_def PhysicalVolume_def getCoverage_def
      LBA2OFFSET_eq Let_def)

lemma va_invariant_addVolume:
  "LBA2OFFSET (va_count a) = va_bytes (va_volumes a) \<Longrightarrow> pv_sector v = LBA2OFFSET (pv_count v) \<Longrightarrow>
     LBA2OFFSET (va_count (addVolume v a)) = va_bytes (va_volumes (addVolume v a))"
  by (simp add: addVolume_def va_bytes_def LBA2OFFSET_add)

lemma part_volume_sector: "pv_sector (part_volume p) = LBA2OFFSET (pv_count (part_volume p))"
  by (cases p) (simp add: part_volume_def PhysicalVolume_def Let_def)

lemma add_parts_bytes:
  "add_parts probe ps a = Inr b \<Longrightarrow> LBA2OFFSET (va_count a) = va_bytes (va_volumes a) \<Longrightarrow>
     LBA2OFFSET (va_count b) = va_bytes (va_volumes b)"
proof (induction ps arbitrary: a)
  case (Cons p ps)
  have "LBA2OFFSET (va_count (addVolume (part_volume p) a)) = va_bytes (va_volumes (addVolume (part_volume p) a))"
    by (rule va_invariant_addVolume [OF Cons.prems(2) part_volume_sector])
  moreover have "add_parts probe ps (addVolume (part_volume p) a) = Inr b"
    using Cons.prems(1) by (simp add: Let_def split: if_splits)
  ultimately show ?case by (rule Cons.IH [rotated])
qed simp

lemma add_copies_same:
  "lv_original (add_copies probe rs lv) = lv_original lv \<and> lv_count (add_copies probe rs lv) = lv_count lv \<and>
   ((\<forall>c \<in> set (lv_copies lv). lv_count lv \<le> va_count c) \<longrightarrow>
     (\<forall>c \<in> set (lv_copies (add_copies probe rs lv)). lv_count lv \<le> va_count c))"
proof (induction rs arbitrary: lv)
  case (Cons r rs)
  show ?case
  proof (cases "add_parts probe r VolumeArray")
    case (Inl e)
    then show ?thesis using Cons.IH [of lv] by simp
  next
    case (Inr c)
    show ?thesis
    proof (cases "lv_count lv > va_count c")
      case True
      then show ?thesis using Inr Cons.IH [of lv] by simp
    next
      case False
      let ?lv = "lv\<lparr>lv_copies := lv_copies lv @ [c]\<rparr>"
      have "add_copies probe (r # rs) lv = add_copies probe rs ?lv" using Inr False by simp
      then show ?thesis using Cons.IH [of ?lv] False by simp
    qed
  qed
qed simp

text \<open>A constructed logical volume has as many bytes as its total size says, so the range
  check of the READ and WRITE handlers keeps every access inside the files; every copy it keeps is
  at least as large as the original.\<close>

theorem LogicalVolume_size:
  assumes "LogicalVolume probe name orgs reps = Inr lv"
  shows "LBA2OFFSET (lv_count lv) = va_bytes (va_volumes (lv_original lv)) \<and>
    (\<forall>c \<in> set (lv_copies lv). lv_count lv \<le> va_count c)"
proof -
  from assms obtain a where a: "add_parts probe orgs VolumeArray = Inr a"
    and lv: "lv = add_copies probe reps \<lparr>lv_name = name, lv_original = a, lv_copies = [], lv_count = va_count a\<rparr>"
    by (auto simp: LogicalVolume_def split: sum.splits)
  have "LBA2OFFSET (va_count a) = va_bytes (va_volumes a)"
    by (rule add_parts_bytes [OF a]) (simp add: VolumeArray_def va_bytes_def)
  then show ?thesis
    using add_copies_same [of probe reps "\<lparr>lv_name = name, lv_original = a, lv_copies = [], lv_count = va_count a\<rparr>"]
    by (simp add: lv)
qed

theorem LogicalVolume_size_witness:
  "\<exists>lv. LogicalVolume (\<lambda>_. True) ''LUN1'' [(''a'', 0, 8)] [] = Inr lv \<and>
     va_bytes (va_volumes (lv_original lv)) = 4096"
proof -
  let ?lv = "\<lparr>lv_name = ''LUN1'', lv_original = addVolume (PhysicalVolume ''a'' 0 8) VolumeArray,
    lv_copies = [], lv_count = 8\<rparr>"
  have eq: "LogicalVolume (\<lambda>_. True) ''LUN1'' [(''a'', 0, 8)] [] = Inr ?lv"
    by (simp add: LogicalVolume_def part_volume_def addVolume_def VolumeArray_def PhysicalVolume_def Let_def)
  from LogicalVolume_size [OF eq] show ?thesis using eq by (simp add: LBA2OFFSET_eq)
qed

end
