(* ===== verification/DiskWriter.thy ===== *)
theory DiskWriter
  imports WriteCache_Drain Volume
begin

text \<open>
  The disk writer of \<^verbatim>\<open>include/diskwriter.h\<close> and \<^verbatim>\<open>src/diskwriter.cpp\<close>: the map from byte
  offsets of the logical volume to file handles, the \<^verbatim>\<open>pwrite64\<close> loop, and the loop that drains
  the write cache. The operating system is an environment that answers each \<^verbatim>\<open>pwrite64\<close> call: a
  list of answers, used up one per call. A definition that meets the end of the list returns
  \<open>None\<close>: the thread is still waiting. Files are maps from descriptor and position to bytes.
\<close>

section \<open>The environment\<close>

type_synonym files = "int \<Rightarrow> nat \<Rightarrow> u8"

text \<open>An answer to \<^verbatim>\<open>pwrite64\<close>: bytes written (never more than asked for), \<^verbatim>\<open>EINTR\<close>, or another
  error.\<close>

datatype pw_answer = Wrote nat | Interrupted | IoError

datatype pool_state = POOL_STATE_NORMAL | POOL_STATE_SOFT | POOL_STATE_HARD

text \<open>The environment's state: outstanding answers, file contents, the static sequence counter
  of \<^verbatim>\<open>needNotify\<close>, the number of pool state queries, and the effects \<^verbatim>\<open>notifyDone\<close> and
  \<^verbatim>\<open>releasePool\<close> as counts.\<close>

record dw_env =
  env_answers :: "pw_answer list"
  env_files :: files
  env_seq :: seq_counter
  env_polls :: nat
  env_notified :: nat
  env_released :: nat

definition pwrite_files :: "files \<Rightarrow> int \<Rightarrow> nat \<Rightarrow> (nat \<Rightarrow> u8) \<Rightarrow> nat \<Rightarrow> nat \<Rightarrow> files" where
  "pwrite_files fs fd offset mem ptr n =
     fs(fd := (\<lambda>i. if offset \<le> i \<and> i < offset + n then mem (ptr + (i - offset)) else fs fd i))"

fun doWrite ::
  "int \<Rightarrow> (nat \<Rightarrow> u8) \<Rightarrow> nat \<Rightarrow> nat \<Rightarrow> nat \<Rightarrow> pw_answer list \<Rightarrow> files \<Rightarrow>
     (bool \<times> pw_answer list \<times> files) option" where
  "doWrite fd mem ptr cnt offset [] fs = None"
| "doWrite fd mem ptr cnt offset (Interrupted # as) fs = doWrite fd mem ptr cnt offset as fs"
| "doWrite fd mem ptr cnt offset (IoError # as) fs = Some (False, as, fs)"
| "doWrite fd mem ptr cnt offset (Wrote n # as) fs =
     (let sz = min n cnt; fs' = pwrite_files fs fd offset mem ptr sz
      in if sz \<noteq> cnt then doWrite fd mem (ptr + sz) (cnt - sz) (offset + sz) as fs'
         else Some (True, as, fs'))"

section \<open>The handle map\<close>

text \<open>\<^verbatim>\<open>map<uint64_t,LowHandle>\<close> as the list of its pairs in key order.\<close>

type_synonym handle_map = "(nat \<times> low_handle) list"

fun addHandle :: "low_handle \<Rightarrow> nat \<Rightarrow> handle_map \<Rightarrow> handle_map" where
  "addHandle h offset [] = [(offset, h)]"
| "addHandle h offset ((k, g) # hs) =
     (if offset < k then (offset, h) # (k, g) # hs
      else if offset = k then (offset, h) # hs
      else (k, g) # addHandle h offset hs)"

text \<open>The result is the descriptor and the out parameters \<^verbatim>\<open>covered\<close> and \<^verbatim>\<open>real_offset\<close>, which the
  callers initialise to zero.\<close>

definition getHandle :: "handle_map \<Rightarrow> nat \<Rightarrow> nat \<Rightarrow> int \<times> nat \<times> nat" where
  "getHandle hs start n =
     (if hs = [] then (INVALID_HANDLE_VALUE, 0, 0)
      else let lower = length (takeWhile (\<lambda>(k, _). k < start) hs);
               i = (if lower \<noteq> 0 \<and> (lower = length hs \<or> fst (hs ! lower) > start)
                    then lower - 1 else lower);
               (offset, handle) = hs ! i
           in if offset > start then (INVALID_HANDLE_VALUE, 0, 0)
              else let real = add64 (start - offset) (lh_offset handle);
                       covered = min n (sub64 (add64 (lh_length handle) (lh_offset handle)) real)
                   in if covered = 0 then (INVALID_HANDLE_VALUE, covered, real)
                      else (lh_fd handle, covered, real))"

lemma getHandle_covered:
  "getHandle hs start n = (fd, cov, r) \<Longrightarrow> fd \<noteq> INVALID_HANDLE_VALUE \<Longrightarrow> 0 < cov \<and> cov \<le> n"
  by (auto simp: getHandle_def Let_def split: if_splits prod.splits)

section \<open>Writing one segment\<close>

text \<open>The inner \<^verbatim>\<open>while(segment > 0)\<close> loop over one buffer. \<open>gh\<close> is \<^verbatim>\<open>getHandle\<close> on the writer's
  map; \<open>buf\<close> is the position \<^verbatim>\<open>ds_offset + offset\<close>. \<^verbatim>\<open>return false\<close> on an invalid handle and
  \<^verbatim>\<open>break\<close> followed by \<^verbatim>\<open>if(segment != 0) return false\<close> are both the result \<open>False\<close>. The guard
  \<open>cov = 0 \<or> seg < cov\<close> never holds for \<^verbatim>\<open>getHandle\<close> (lemma \<open>getHandle_covered\<close>); it makes the
  recursion total for every \<open>gh\<close>.\<close>

function dw_fill ::
  "(nat \<Rightarrow> nat \<Rightarrow> int \<times> nat \<times> nat) \<Rightarrow> (nat \<Rightarrow> u8) \<Rightarrow> nat \<Rightarrow> nat \<Rightarrow> nat \<Rightarrow> dw_env \<Rightarrow>
     (bool \<times> nat \<times> dw_env) option" where
  "dw_fill gh mem buf start seg e =
     (if seg = 0 then Some (True, start, e)
      else let (fd, cov, real) = gh start seg
           in if fd = INVALID_HANDLE_VALUE \<or> cov = 0 \<or> seg < cov then Some (False, start, e)
              else case doWrite fd mem buf cov real (env_answers e) (env_files e) of
                     None \<Rightarrow> None
                   | Some (ok, as, fs) \<Rightarrow>
                       let e' = e\<lparr>env_answers := as, env_files := fs\<rparr>
                       in if ok then dw_fill gh mem (buf + cov) (start + cov) (seg - cov) e'
                          else Some (False, start, e'))"
  by pat_completeness auto
termination by (relation "measure (\<lambda>(gh, mem, buf, start, seg, e). seg)") auto

declare dw_fill.simps [simp del]

text \<open>The \<^verbatim>\<open>for\<close> loop over the buffers; only the first starts at \<open>ds_offset\<close>.\<close>

fun dw_bufs ::
  "(nat \<Rightarrow> nat \<Rightarrow> int \<times> nat \<times> nat) \<Rightarrow> nat \<Rightarrow> common_buf list \<Rightarrow> nat \<Rightarrow> nat \<Rightarrow> dw_env \<Rightarrow>
     (bool \<times> nat \<times> dw_env) option" where
  "dw_bufs gh ds [] start n e = Some (True, n, e)"
| "dw_bufs gh ds (b # bs) start n e =
     (let seg = min n (sub64 (cb_size b) ds)
      in case dw_fill gh (cb_bytes b) ds start seg e of
           None \<Rightarrow> None
         | Some (ok, start', e') \<Rightarrow>
             if ok then dw_bufs gh 0 bs start' (n - seg) e' else Some (False, n - seg, e'))"

definition dw_segment ::
  "(nat \<Rightarrow> nat \<Rightarrow> int \<times> nat \<times> nat) \<Rightarrow> write_segment \<Rightarrow> dw_env \<Rightarrow> (bool \<times> dw_env) option" where
  "dw_segment gh ws e =
     (case dw_bufs gh (ws_ds_offset ws) (ws_cbufs ws) (LBA2OFFSET (ws_lba ws))
             (LBA2OFFSET (ws_transfer_length ws)) e of
        None \<Rightarrow> None
      | Some (ok, n, e') \<Rightarrow> Some (ok \<and> n = 0, e'))"

section \<open>Draining the cache\<close>

definition needNotify :: "(nat \<Rightarrow> pool_state) \<Rightarrow> dw_env \<Rightarrow> bool \<times> dw_env" where
  "needNotify pool e =
     (let st = pool (env_polls e); e1 = e\<lparr>env_polls := Suc (env_polls e)\<rparr>
      in if st = POOL_STATE_NORMAL then (False, e1)
         else if st = POOL_STATE_HARD
         then let (v, s) = seq_call (env_seq e1)
              in (v mod 2 = 0, e1\<lparr>env_seq := s\<rparr>)
         else (True, e1))"

text \<open>How \<^verbatim>\<open>doWork\<close> ends: it returns, it waits for the operating system, or it dereferences a null
  or past-the-end pointer.\<close>

datatype dw_result = DwReturn bool write_cache dw_env | DwWaiting | DwUndefined

lemma wc_skip_copies_shrinks:
  "wc_skip_copies f c = Some (p, c') \<Longrightarrow> wc_fifo c' \<noteq> [] \<and> length (wc_fifo c') \<le> length (wc_fifo c)"
proof (induction f arbitrary: c)
  case (Suc f)
  then show ?case
    by (cases "wc_fifo c") (fastforce simp: wc_drop_def split: if_splits)+
qed simp

lemma wc_front_shrinks:
  "wc_front c = Some (Some p, c') \<Longrightarrow> length (wc_fifo (wc_pop c')) < length (wc_fifo c)"
  using wc_skip_copies_shrinks [of "Suc (length (wc_fifo c))" c p c']
  by (cases "wc_fifo c'") (auto simp: wc_front_def wc_pop_def wc_drop_def split: if_splits
      simp del: wc_skip_copies.simps)

function dw_loop ::
  "(nat \<Rightarrow> nat \<Rightarrow> int \<times> nat \<times> nat) \<Rightarrow> (nat \<Rightarrow> pool_state) \<Rightarrow> write_cache \<Rightarrow> bool \<Rightarrow> dw_env \<Rightarrow> dw_result" where
  "dw_loop gh pool c notified e =
     (case wc_front c of
        None \<Rightarrow> DwUndefined
      | Some (None, c1) \<Rightarrow> DwUndefined
      | Some (Some p, c1) \<Rightarrow>
          (case dw_segment gh (wc_heap c1 p) e of
             None \<Rightarrow> DwWaiting
           | Some (ok, e1) \<Rightarrow>
               if \<not> ok then DwReturn False c1 e1
               else let c2 = wc_pop c1;
                        (need, e2) = needNotify pool e1;
                        e3 = (if need then e2\<lparr>env_notified := Suc (env_notified e2)\<rparr> else e2)
                    in if wc_empty c2
                       then DwReturn True c2
                              (if notified \<or> need then e3\<lparr>env_released := Suc (env_released e3)\<rparr>
                               else e3)
                       else dw_loop gh pool c2 (notified \<or> need) e3))"
  by pat_completeness auto
termination
  by (relation "measure (\<lambda>(gh, pool, c, notified, e). length (wc_fifo c))") (auto dest: wc_front_shrinks)

declare dw_loop.simps [simp del]

record disk_writer =
  dw_stop :: bool
  dw_handles :: handle_map
  dw_wc :: write_cache

definition DiskWriter :: "write_cache \<Rightarrow> disk_writer" where
  "DiskWriter c = \<lparr>dw_stop = False, dw_handles = [], dw_wc = c\<rparr>"

definition mayStop :: "disk_writer \<Rightarrow> disk_writer" where
  "mayStop w = w\<lparr>dw_stop := True\<rparr>"

definition doWork :: "(nat \<Rightarrow> pool_state) \<Rightarrow> disk_writer \<Rightarrow> dw_env \<Rightarrow> dw_result" where
  "doWork pool w e =
     (if wc_empty (dw_wc w) then DwReturn True (dw_wc w) e
      else dw_loop (getHandle (dw_handles w)) pool (dw_wc w) False e)"

end
