(* ===== verification/DiskWriter_Correct.thy ===== *)
theory DiskWriter_Correct
  imports DiskWriter
begin

text \<open>
  Correctness of the disk writer against the interface it needs of the handle map: the locale
  \<open>extents\<close> says that a resolved piece of the logical volume lies at the file position that
  \<open>loc\<close> gives for each of its bytes, and that no two bytes of the volume share a file position.
  Inside the locale the \<^verbatim>\<open>pwrite64\<close> loop, the loop over the buffers of a segment and the drain
  loop are shown to paint the segments' bytes onto the volume in queue order.
\<close>

section \<open>The volume as a function from byte addresses\<close>

definition vol_bytes :: "(nat \<Rightarrow> (int \<times> nat) option) \<Rightarrow> nat \<Rightarrow> files \<Rightarrow> nat \<Rightarrow> u8" where
  "vol_bytes loc bound fs i =
     (if i < bound then case loc i of Some (fd, p) \<Rightarrow> fs fd p | None \<Rightarrow> 0 else 0)"

definition paint :: "nat \<Rightarrow> u8 list \<Rightarrow> (nat \<Rightarrow> u8) \<Rightarrow> nat \<Rightarrow> u8" where
  "paint start bs f i = (if start \<le> i \<and> i < start + length bs then bs ! (i - start) else f i)"

lemma paint_Nil [simp]: "paint s [] f = f"
  by (auto simp: paint_def fun_eq_iff)

lemma paint_append: "paint (s + length a) b (paint s a f) = paint s (a @ b) f"
  by (auto simp: paint_def fun_eq_iff nth_append)

text \<open>The data of a segment: the bytes of its buffers one after the other, the first from
  \<open>ds_offset\<close> on, cut to the transfer length.\<close>

fun ws_pieces :: "nat \<Rightarrow> common_buf list \<Rightarrow> u8 list" where
  "ws_pieces ds [] = []"
| "ws_pieces ds (b # bs) = map (cb_bytes b) [ds..<cb_size b] @ ws_pieces 0 bs"

definition ws_bytes :: "write_segment \<Rightarrow> u8 list" where
  "ws_bytes s = take (LBA2OFFSET (ws_transfer_length s)) (ws_pieces (ws_ds_offset s) (ws_cbufs s))"

definition paint_ws :: "write_segment \<Rightarrow> (nat \<Rightarrow> u8) \<Rightarrow> nat \<Rightarrow> u8" where
  "paint_ws s = paint (LBA2OFFSET (ws_lba s)) (ws_bytes s)"

fun bufs_ok :: "nat \<Rightarrow> common_buf list \<Rightarrow> bool" where
  "bufs_ok ds [] \<longleftrightarrow> True"
| "bufs_ok ds (b # bs) \<longleftrightarrow> ds \<le> cb_size b \<and> cb_size b < 2 ^ 64 \<and> bufs_ok 0 bs"

text \<open>A segment the drain loop can write: inside the volume, its buffers well formed.\<close>

definition ws_fits :: "nat \<Rightarrow> write_segment \<Rightarrow> bool" where
  "ws_fits bound s \<longleftrightarrow> LBA2OFFSET (ws_lba s + ws_transfer_length s) \<le> bound \<and>
     bufs_ok (ws_ds_offset s) (ws_cbufs s)"

text \<open>And one whose data have all arrived.\<close>

definition ws_full :: "write_segment \<Rightarrow> bool" where
  "ws_full s \<longleftrightarrow> length (ws_bytes s) = LBA2OFFSET (ws_transfer_length s)"

text \<open>An operating system that makes progress: no error, no empty write, and at least \<open>k\<close>
  answers that are not interruptions.\<close>

definition willing :: "nat \<Rightarrow> pw_answer list \<Rightarrow> bool" where
  "willing k as \<longleftrightarrow> k \<le> length (filter (\<lambda>a. a \<noteq> Interrupted) as) \<and>
     IoError \<notin> set as \<and> Wrote 0 \<notin> set as"

section \<open>The write loop\<close>

lemma pwrite_files_0 [simp]: "pwrite_files fs fd off mem ptr 0 = fs"
  by (auto simp: pwrite_files_def fun_eq_iff)

lemma pwrite_files_add:
  "pwrite_files (pwrite_files fs fd off mem ptr a) fd (off + a) mem (ptr + a) b =
     pwrite_files fs fd off mem ptr (a + b)"
  by (auto simp: pwrite_files_def fun_eq_iff)

lemma doWrite_writes:
  "doWrite fd mem ptr cnt off as fs = Some (True, as', fs') \<Longrightarrow>
     fs' = pwrite_files fs fd off mem ptr cnt"
proof (induction fd mem ptr cnt off as fs rule: doWrite.induct)
  case (4 fd mem ptr cnt off n as fs)
  show ?case
  proof (cases "min n cnt = cnt")
    case False
    then have le: "n < cnt" by auto
    with 4 have "fs' = pwrite_files (pwrite_files fs fd off mem ptr n) fd (off + n) mem (ptr + n) (cnt - n)"
      by (auto simp: Let_def min_def split: if_splits)
    then show ?thesis using le by (simp add: pwrite_files_add)
  qed (use 4 in auto)
qed auto

text \<open>A write that fails has written a prefix.\<close>

lemma doWrite_prefix:
  "doWrite fd mem ptr cnt off as fs = Some (ok, as', fs') \<Longrightarrow>
     \<exists>j \<le> cnt. fs' = pwrite_files fs fd off mem ptr j"
proof (induction fd mem ptr cnt off as fs rule: doWrite.induct)
  case (3 fd mem ptr cnt off as fs)
  then show ?case by (intro exI [of _ 0]) simp
next
  case (4 fd mem ptr cnt off n as fs)
  show ?case
  proof (cases "min n cnt = cnt")
    case True
    with 4 show ?thesis by (intro exI [of _ cnt]) auto
  next
    case False
    then have le: "n < cnt" by auto
    with 4(2) have "doWrite fd mem (ptr + n) (cnt - n) (off + n) as (pwrite_files fs fd off mem ptr n) = Some (ok, as', fs')"
      by (simp add: Let_def min_def)
    with 4(1) [OF refl refl] le obtain j where "j \<le> cnt - n"
      "fs' = pwrite_files (pwrite_files fs fd off mem ptr n) fd (off + n) mem (ptr + n) j"
      by (auto simp: min_def)
    with le show ?thesis by (intro exI [of _ "n + j"]) (simp add: pwrite_files_add)
  qed
qed auto

lemma doWrite_returns:
  "0 < cnt \<Longrightarrow> willing (cnt + m) as \<Longrightarrow>
     \<exists>as' fs'. doWrite fd mem ptr cnt off as fs = Some (True, as', fs') \<and> willing m as'"
proof (induction fd mem ptr cnt off as fs rule: doWrite.induct)
  case (4 fd mem ptr cnt off n as fs)
  have n: "0 < n" using 4(3) by (cases n) (auto simp: willing_def)
  show ?case
  proof (cases "n < cnt")
    case True
    have "willing (cnt - n + m) as" using 4(3) n True by (auto simp: willing_def)
    with 4(1) [OF refl refl] True have
      "\<exists>as' fs'. doWrite fd mem (ptr + n) (cnt - n) (off + n) as (pwrite_files fs fd off mem ptr n) =
        Some (True, as', fs') \<and> willing m as'" by (simp add: min_def)
    then show ?thesis using True by (simp add: min_def)
  next
    case False
    then show ?thesis using 4(2,3) by (auto simp: min_def willing_def)
  qed
qed (auto simp: willing_def)

section \<open>The interface and the writer over it\<close>

locale extents =
  fixes gh :: "nat \<Rightarrow> nat \<Rightarrow> int \<times> nat \<times> nat"
    and loc :: "nat \<Rightarrow> (int \<times> nat) option"
    and bound :: nat
  assumes gh_loc: "0 < n \<Longrightarrow> start + n \<le> bound \<Longrightarrow>
      \<exists>fd cov r. gh start n = (fd, cov, r) \<and> fd \<noteq> INVALID_HANDLE_VALUE \<and> 0 < cov \<and> cov \<le> n \<and>
        (\<forall>k < cov. loc (start + k) = Some (fd, r + k))"
    and loc_inj: "i < bound \<Longrightarrow> j < bound \<Longrightarrow> loc i = loc j \<Longrightarrow> loc i \<noteq> None \<Longrightarrow> i = j"
begin

lemma vol_pwrite:
  assumes "\<forall>k < cov. loc (start + k) = Some (fd, r + k)" and "start + cov \<le> bound"
  shows "vol_bytes loc bound (pwrite_files fs fd r mem ptr cov) =
    paint start (map mem [ptr..<ptr + cov]) (vol_bytes loc bound fs)"
proof
  fix i
  show "vol_bytes loc bound (pwrite_files fs fd r mem ptr cov) i =
    paint start (map mem [ptr..<ptr + cov]) (vol_bytes loc bound fs) i"
  proof (cases "start \<le> i \<and> i < start + cov")
    case True
    then obtain k where k: "i = start + k" "k < cov" by (metis le_iff_add nat_add_left_cancel_less)
    with assms show ?thesis by (simp add: vol_bytes_def pwrite_files_def paint_def)
  next
    case False
    have "\<not> (r \<le> p \<and> p < r + cov)" if "i < bound" "loc i = Some (fd, p)" for p
    proof
      assume "r \<le> p \<and> p < r + cov"
      then obtain k where k: "p = r + k" "k < cov" by (metis le_iff_add nat_add_left_cancel_less)
      with assms(1) that(2) have "loc i = loc (start + k)" by simp
      moreover have "start + k < bound" using k assms(2) by simp
      moreover have "loc i \<noteq> None" using that(2) by simp
      ultimately have "i = start + k" by (intro loc_inj [OF that(1)])
      with False k show False by simp
    qed
    with False show ?thesis
      by (auto simp: vol_bytes_def pwrite_files_def paint_def split: option.splits)
  qed
qed

lemma fill_paints:
  "start + seg \<le> bound \<Longrightarrow> dw_fill gh mem buf start seg e = Some (True, s', e') \<Longrightarrow>
     s' = start + seg \<and> vol_bytes loc bound (env_files e') =
       paint start (map mem [buf..<buf + seg]) (vol_bytes loc bound (env_files e))"
proof (induction seg arbitrary: buf start e rule: less_induct)
  case (less seg)
  show ?case
  proof (cases "seg = 0")
    case True
    then show ?thesis using less.prems by (simp add: dw_fill.simps [of gh mem buf start 0 e])
  next
    case False
    with gh_loc [of seg start] less.prems(1) obtain fd cov r where
      g: "gh start seg = (fd, cov, r)" "fd \<noteq> INVALID_HANDLE_VALUE" "0 < cov" "cov \<le> seg"
      "\<forall>k < cov. loc (start + k) = Some (fd, r + k)" by auto
    from less.prems(2) g False obtain as fs where
      w: "doWrite fd mem buf cov r (env_answers e) (env_files e) = Some (True, as, fs)"
      and rest: "dw_fill gh mem (buf + cov) (start + cov) (seg - cov)
        (e\<lparr>env_answers := as, env_files := fs\<rparr>) = Some (True, s', e')"
      by (subst (asm) dw_fill.simps) (auto simp: Let_def split: option.splits if_splits)
    have b: "start + cov + (seg - cov) \<le> bound" "seg - cov < seg" using g less.prems(1) by auto
    have fs: "vol_bytes loc bound fs =
        paint start (map mem [buf..<buf + cov]) (vol_bytes loc bound (env_files e))"
      using doWrite_writes [OF w] vol_pwrite [OF g(5)] g less.prems(1) by simp
    have "map mem [buf..<buf + seg] = map mem [buf..<buf + cov] @ map mem [buf + cov..<buf + cov + (seg - cov)]"
      using g(4) upt_add_eq_append [of buf "buf + cov" "seg - cov"] by simp
    then show ?thesis
      using less.IH [OF b(2,1) rest] g(4) paint_append [of start "map mem [buf..<buf + cov]"] fs by simp
  qed
qed

text \<open>Whatever the result, what has been written is a prefix of what was to be written.\<close>

lemma fill_prefix:
  "start + seg \<le> bound \<Longrightarrow> dw_fill gh mem buf start seg e = Some (ok, s', e') \<Longrightarrow>
     \<exists>j \<le> seg. vol_bytes loc bound (env_files e') =
       paint start (map mem [buf..<buf + j]) (vol_bytes loc bound (env_files e))"
proof (induction seg arbitrary: buf start e rule: less_induct)
  case (less seg)
  show ?case
  proof (cases "seg = 0")
    case True
    then show ?thesis using less.prems by (simp add: dw_fill.simps [of gh mem buf start 0 e])
  next
    case False
    with gh_loc [of seg start] less.prems(1) obtain fd cov r where
      g: "gh start seg = (fd, cov, r)" "fd \<noteq> INVALID_HANDLE_VALUE" "0 < cov" "cov \<le> seg"
      "\<forall>k < cov. loc (start + k) = Some (fd, r + k)" by auto
    from less.prems(2) g False obtain ok1 as fs where
      w: "doWrite fd mem buf cov r (env_answers e) (env_files e) = Some (ok1, as, fs)"
      and rest: "if ok1 then dw_fill gh mem (buf + cov) (start + cov) (seg - cov)
          (e\<lparr>env_answers := as, env_files := fs\<rparr>) = Some (ok, s', e') else env_files e' = fs"
      by (subst (asm) dw_fill.simps) (auto simp: Let_def split: option.splits if_splits)
    show ?thesis
    proof (cases ok1)
      case True
      with rest have rest1: "dw_fill gh mem (buf + cov) (start + cov) (seg - cov)
          (e\<lparr>env_answers := as, env_files := fs\<rparr>) = Some (ok, s', e')" by simp
      have w1: "doWrite fd mem buf cov r (env_answers e) (env_files e) = Some (True, as, fs)" using w True by simp
      have b: "start + cov + (seg - cov) \<le> bound" "seg - cov < seg" using g less.prems(1) by auto
      have fs: "vol_bytes loc bound fs =
          paint start (map mem [buf..<buf + cov]) (vol_bytes loc bound (env_files e))"
        using doWrite_writes [OF w1] vol_pwrite [OF g(5)] g less.prems(1) by simp
      from less.IH [OF b(2,1) rest1] obtain j where j: "j \<le> seg - cov"
        "vol_bytes loc bound (env_files e') =
          paint (start + cov) (map mem [buf + cov..<buf + cov + j]) (vol_bytes loc bound fs)" by auto
      have "map mem [buf..<buf + (cov + j)] = map mem [buf..<buf + cov] @ map mem [buf + cov..<buf + cov + j]"
        using upt_add_eq_append [of buf "buf + cov" j] by (simp add: add.assoc)
      then show ?thesis
        using j g(4) paint_append [of start "map mem [buf..<buf + cov]"] fs by (intro exI [of _ "cov + j"]) simp
    next
      case no: False
      from doWrite_prefix [OF w] obtain j where j: "j \<le> cov" "fs = pwrite_files (env_files e) fd r mem buf j" by blast
      have "vol_bytes loc bound fs = paint start (map mem [buf..<buf + j]) (vol_bytes loc bound (env_files e))"
        unfolding j(2) using g j(1) less.prems(1) by (intro vol_pwrite) auto
      with no rest j(1) g(4) show ?thesis by (intro exI [of _ j]) simp
    qed
  qed
qed

lemma bufs_prefix:
  "bufs_ok ds bs \<Longrightarrow> start + n \<le> bound \<Longrightarrow> dw_bufs gh ds bs start n e = Some (ok, n', e') \<Longrightarrow>
     \<exists>j. vol_bytes loc bound (env_files e') =
       paint start (take j (take n (ws_pieces ds bs))) (vol_bytes loc bound (env_files e))"
proof (induction ds bs arbitrary: start n e rule: bufs_ok.induct)
  case (1 ds)
  then show ?case by (intro exI [of _ 0]) simp
next
  case (2 ds b bs)
  define z where "z = cb_size b - ds"
  define seg where "seg = min n z"
  have sub: "sub64 (cb_size b) ds = z" using 2(2) by (simp add: z_def)
  with 2(4) obtain ok1 s1 e1 where
    f: "dw_fill gh (cb_bytes b) ds start seg e = Some (ok1, s1, e1)"
    and rest: "if ok1 then dw_bufs gh 0 bs s1 (n - seg) e1 = Some (ok, n', e') else e' = e1"
    by (auto simp: Let_def seg_def split: option.splits if_splits)
  have le: "start + seg \<le> bound" using 2(3) by (simp add: seg_def)
  have t: "take n (ws_pieces ds (b # bs)) =
      map (cb_bytes b) [ds..<ds + seg] @ take (n - seg) (ws_pieces 0 bs)"
    using 2(2) by (auto simp: seg_def z_def min_def take_map)
  show ?case
  proof (cases ok1)
    case True
    with f have f1: "dw_fill gh (cb_bytes b) ds start seg e = Some (True, s1, e1)" by simp
    from fill_paints [OF le f1]
    have s1: "s1 = start + seg" and v1: "vol_bytes loc bound (env_files e1) =
      paint start (map (cb_bytes b) [ds..<ds + seg]) (vol_bytes loc bound (env_files e))" by auto
    have "start + seg + (n - seg) \<le> bound" using 2(3) by (simp add: seg_def)
    with 2(1) [of "start + seg" "n - seg" e1] 2(2) s1 rest True obtain j where
      "vol_bytes loc bound (env_files e') =
        paint (start + seg) (take j (take (n - seg) (ws_pieces 0 bs))) (vol_bytes loc bound (env_files e1))" by auto
    then show ?thesis
      unfolding t v1 using paint_append [of start "map (cb_bytes b) [ds..<ds + seg]"]
      by (intro exI [of _ "seg + j"]) simp
  next
    case False
    from fill_prefix [OF le f] obtain j where "j \<le> seg" "vol_bytes loc bound (env_files e1) =
      paint start (map (cb_bytes b) [ds..<ds + j]) (vol_bytes loc bound (env_files e))" by blast
    with False rest show ?thesis unfolding t by (intro exI [of _ j]) (simp add: take_map)
  qed
qed

lemma segment_prefix:
  assumes "ws_fits bound s" and "dw_segment gh s e = Some (ok, e')"
  shows "\<exists>j. vol_bytes loc bound (env_files e') =
    paint (LBA2OFFSET (ws_lba s)) (take j (ws_bytes s)) (vol_bytes loc bound (env_files e))"
proof -
  from assms(2) obtain ok1 n where
    "dw_bufs gh (ws_ds_offset s) (ws_cbufs s) (LBA2OFFSET (ws_lba s)) (LBA2OFFSET (ws_transfer_length s)) e =
      Some (ok1, n, e')" by (auto simp: dw_segment_def split: option.splits)
  from bufs_prefix [OF _ _ this] assms(1) show ?thesis
    by (auto simp: ws_fits_def LBA2OFFSET_add ws_bytes_def)
qed

lemma fill_returns:
  "start + seg \<le> bound \<Longrightarrow> willing (seg + m) (env_answers e) \<Longrightarrow>
     \<exists>e'. dw_fill gh mem buf start seg e = Some (True, start + seg, e') \<and> willing m (env_answers e')"
proof (induction seg arbitrary: buf start e rule: less_induct)
  case (less seg)
  show ?case
  proof (cases "seg = 0")
    case True
    then show ?thesis using less.prems by (simp add: dw_fill.simps [of gh mem buf start 0 e])
  next
    case False
    with gh_loc [of seg start] less.prems(1) obtain fd cov r where
      g: "gh start seg = (fd, cov, r)" "fd \<noteq> INVALID_HANDLE_VALUE" "0 < cov" "cov \<le> seg" by auto
    have "willing (cov + (seg - cov + m)) (env_answers e)" using less.prems(2) g(4) by simp
    from doWrite_returns [OF g(3) this] obtain as fs where
      w: "doWrite fd mem buf cov r (env_answers e) (env_files e) = Some (True, as, fs)"
      "willing (seg - cov + m) as" by blast
    have b: "start + cov + (seg - cov) \<le> bound" "seg - cov < seg" using g less.prems(1) by auto
    have "willing (seg - cov + m) (env_answers (e\<lparr>env_answers := as, env_files := fs\<rparr>))"
      using w(2) by simp
    from less.IH [OF b(2,1) this, of "buf + cov"] g w(1) False show ?thesis
      by (subst dw_fill.simps) (simp add: Let_def)
  qed
qed

lemma bufs_paint:
  "bufs_ok ds bs \<Longrightarrow> start + n \<le> bound \<Longrightarrow> dw_bufs gh ds bs start n e = Some (True, n', e') \<Longrightarrow>
     n' = n - length (ws_pieces ds bs) \<and> vol_bytes loc bound (env_files e') =
       paint start (take n (ws_pieces ds bs)) (vol_bytes loc bound (env_files e))"
proof (induction ds bs arbitrary: start n e rule: bufs_ok.induct)
  case (2 ds b bs)
  define z where "z = cb_size b - ds"
  define seg where "seg = min n z"
  have sub: "sub64 (cb_size b) ds = z" using 2(2) by (simp add: z_def)
  with 2(4) obtain s1 e1 where
    f: "dw_fill gh (cb_bytes b) ds start seg e = Some (True, s1, e1)"
    and rest: "dw_bufs gh 0 bs s1 (n - seg) e1 = Some (True, n', e')"
    by (auto simp: Let_def seg_def split: option.splits if_splits)
  have le: "start + seg \<le> bound" using 2(3) by (simp add: seg_def)
  from fill_paints [OF le f]
  have s1: "s1 = start + seg" and v1: "vol_bytes loc bound (env_files e1) =
    paint start (map (cb_bytes b) [ds..<ds + seg]) (vol_bytes loc bound (env_files e))" by auto
  have "start + seg + (n - seg) \<le> bound" using 2(3) by (simp add: seg_def)
  with 2(1) [OF _ _ rest] 2(2) s1 have ih: "n' = n - seg - length (ws_pieces 0 bs)"
    "vol_bytes loc bound (env_files e') =
      paint (start + seg) (take (n - seg) (ws_pieces 0 bs)) (vol_bytes loc bound (env_files e1))"
    by auto
  have t: "take n (ws_pieces ds (b # bs)) =
      map (cb_bytes b) [ds..<ds + seg] @ take (n - seg) (ws_pieces 0 bs)"
    using 2(2) by (auto simp: seg_def z_def min_def take_map)
  have "n' = n - length (ws_pieces ds (b # bs))" using ih(1) by (auto simp: seg_def z_def)
  moreover have "vol_bytes loc bound (env_files e') =
      paint start (take n (ws_pieces ds (b # bs))) (vol_bytes loc bound (env_files e))"
    unfolding t ih(2) v1 using paint_append [of start "map (cb_bytes b) [ds..<ds + seg]"] by simp
  ultimately show ?case by blast
qed auto

lemma bufs_return:
  "bufs_ok ds bs \<Longrightarrow> start + n \<le> bound \<Longrightarrow> willing (n + m) (env_answers e) \<Longrightarrow>
     \<exists>e'. dw_bufs gh ds bs start n e = Some (True, n - length (ws_pieces ds bs), e') \<and>
       willing m (env_answers e')"
proof (induction ds bs arbitrary: start n e rule: bufs_ok.induct)
  case (1 ds)
  then show ?case by (auto simp: willing_def)
next
  case (2 ds b bs)
  define z where "z = cb_size b - ds"
  define seg where "seg = min n z"
  have sub: "sub64 (cb_size b) ds = z" using 2(2) by (simp add: z_def)
  have "start + seg \<le> bound" "willing (seg + (n - seg + m)) (env_answers e)"
    using 2(3,4) by (auto simp: seg_def)
  from fill_returns [OF this] obtain e1 where
    e1: "dw_fill gh (cb_bytes b) ds start seg e = Some (True, start + seg, e1)"
    "willing (n - seg + m) (env_answers e1)" by blast
  have "start + seg + (n - seg) \<le> bound" using 2(3) by (simp add: seg_def)
  from 2(1) [OF _ this e1(2)] 2(2) obtain e' where
    e': "dw_bufs gh 0 bs (start + seg) (n - seg) e1 =
        Some (True, n - seg - length (ws_pieces 0 bs), e')" "willing m (env_answers e')" by auto
  have "n - seg - length (ws_pieces 0 bs) = n - length (ws_pieces ds (b # bs))"
    by (auto simp: seg_def z_def)
  with e1(1) e' sub show ?case by (auto simp: Let_def seg_def)
qed

lemma segment_paints:
  assumes "ws_fits bound s" and "dw_segment gh s e = Some (True, e')"
  shows "ws_full s \<and>
    vol_bytes loc bound (env_files e') = paint_ws s (vol_bytes loc bound (env_files e))"
proof -
  from assms(2) have
    "dw_bufs gh (ws_ds_offset s) (ws_cbufs s) (LBA2OFFSET (ws_lba s)) (LBA2OFFSET (ws_transfer_length s)) e =
      Some (True, 0, e')" by (auto simp: dw_segment_def split: option.splits)
  from bufs_paint [OF _ _ this] assms(1) show ?thesis
    by (auto simp: ws_fits_def LBA2OFFSET_add ws_full_def ws_bytes_def paint_ws_def)
qed

lemma segment_returns:
  assumes "ws_fits bound s" and "ws_full s"
    and "willing (LBA2OFFSET (ws_transfer_length s) + m) (env_answers e)"
  shows "\<exists>e'. dw_segment gh s e = Some (True, e') \<and> willing m (env_answers e')"
  using bufs_return [of "ws_ds_offset s" "ws_cbufs s" "LBA2OFFSET (ws_lba s)"
      "LBA2OFFSET (ws_transfer_length s)" m e] assms
  by (auto simp: ws_fits_def LBA2OFFSET_add ws_full_def ws_bytes_def dw_segment_def)

text \<open>The segments the drain loop writes: those of the queue that are not copies.\<close>

end

definition wc_pending :: "write_cache \<Rightarrow> write_segment list" where
  "wc_pending c = filter (\<lambda>s. \<not> ws_copy s) (map (wc_heap c) (wc_fifo c))"

lemma wc_pop_frame [simp]: "wc_heap (wc_pop c) = wc_heap c"
  by (simp add: wc_pop_def wc_drop_def split: list.splits)

lemma wc_pop_fifo [simp]: "wc_fifo (wc_pop c) = tl (wc_fifo c)"
  by (simp add: wc_pop_def wc_drop_def split: list.splits)

lemma needNotify_frame [simp]:
  "needNotify pool e = (b, e') \<Longrightarrow> env_files e' = env_files e \<and> env_answers e' = env_answers e"
  by (auto simp: needNotify_def Let_def split: if_splits)

lemma filter_dropWhile_neg: "filter (\<lambda>x. \<not> P x) xs = filter (\<lambda>x. \<not> P x) (dropWhile P xs)"
  by (induction xs) auto

text \<open>What one round of the drain loop finds: the first segment that is not a copy, and the
  pending list without it afterwards.\<close>

lemma front_pending:
  assumes "wc_inv c" and "wc_tail_ok c" and "wc_fifo c \<noteq> []"
  shows "\<exists>p c1. wc_front c = Some (Some p, c1) \<and> wc_heap c1 = wc_heap c \<and>
    wc_pending c = wc_heap c p # wc_pending (wc_pop c1) \<and> wc_inv (wc_pop c1) \<and> wc_tail_ok (wc_pop c1) \<and>
    wc_pending c1 = wc_pending c"
proof -
  from wc_front_total [OF assms] obtain p ps c1 where
    d: "dropWhile (\<lambda>q. ws_copy (wc_heap c q)) (wc_fifo c) = p # ps"
    and f: "wc_front c = Some (Some p, c1)" "wc_fifo c1 = p # ps" "wc_heap c1 = wc_heap c"
      "wc_inv c1" "wc_tail_ok c1" by blast
  have "filter (\<lambda>q. \<not> ws_copy (wc_heap c q)) (wc_fifo c) =
      filter (\<lambda>q. \<not> ws_copy (wc_heap c q)) (p # ps)"
    unfolding d [symmetric] by (rule filter_dropWhile_neg)
  moreover have "\<not> ws_copy (wc_heap c p)" using d by (metis hd_dropWhile list.distinct(1) list.sel(1))
  moreover have "wc_inv (wc_pop c1)" using wc_inv_drop [OF f(4,2)] f(2) by (simp add: wc_pop_def)
  ultimately show ?thesis using f wc_tail_ok_pop [of c1]
    by (auto simp: wc_pending_def filter_map o_def)
qed

context extents
begin

lemma loop_paints:
  "wc_inv c \<Longrightarrow> wc_tail_ok c \<Longrightarrow> wc_fifo c \<noteq> [] \<Longrightarrow> \<forall>s \<in> set (wc_pending c). ws_fits bound s \<Longrightarrow>
     dw_loop gh pool c b e = DwReturn True c' e' \<Longrightarrow>
     wc_empty c' \<and> vol_bytes loc bound (env_files e') =
       fold paint_ws (wc_pending c) (vol_bytes loc bound (env_files e))"
proof (induction "length (wc_fifo c)" arbitrary: c b e rule: less_induct)
  case less
  from front_pending [OF less.prems(1-3)] obtain p c1 where
    f: "wc_front c = Some (Some p, c1)" "wc_heap c1 = wc_heap c"
    "wc_pending c = wc_heap c p # wc_pending (wc_pop c1)" "wc_inv (wc_pop c1)" "wc_tail_ok (wc_pop c1)"
    by blast
  from less.prems(5) f obtain e1 need e2 where
    s: "dw_segment gh (wc_heap c p) e = Some (True, e1)" "needNotify pool e1 = (need, e2)"
    by (subst (asm) dw_loop.simps) (auto simp: Let_def split: option.splits if_splits prod.splits)
  have fits: "ws_fits bound (wc_heap c p)" using less.prems(4) f(3) by simp
  note v1 = segment_paints [OF this s(1)]
  show ?case
  proof (cases "wc_empty (wc_pop c1)")
    case True
    then have "wc_pending (wc_pop c1) = []" by (simp add: wc_pending_def wc_empty_def)
    then show ?thesis using less.prems(5) f s v1 True needNotify_frame [OF s(2)]
      by (subst (asm) dw_loop.simps) (auto simp: Let_def split: if_splits)
  next
    case False
    define e3 where "e3 = (if need then e2\<lparr>env_notified := Suc (env_notified e2)\<rparr> else e2)"
    have rest: "dw_loop gh pool (wc_pop c1) (b \<or> need) e3 = DwReturn True c' e'"
      using less.prems(5) f s False by (subst (asm) dw_loop.simps) (simp add: Let_def e3_def)
    have "env_files e3 = env_files e1" using needNotify_frame [OF s(2)] by (simp add: e3_def)
    moreover have "wc_fifo (wc_pop c1) \<noteq> []" using False by (simp add: wc_empty_def)
    ultimately show ?thesis
      using less.hyps [OF wc_front_shrinks [OF f(1)] f(4,5) _ _ rest] less.prems(4) f(3) v1 by simp
  qed
qed

lemma loop_fails:
  "wc_inv c \<Longrightarrow> wc_tail_ok c \<Longrightarrow> wc_fifo c \<noteq> [] \<Longrightarrow> \<forall>s \<in> set (wc_pending c). ws_fits bound s \<Longrightarrow>
     dw_loop gh pool c b e = DwReturn False c' e' \<Longrightarrow>
     \<exists>k j. k < length (wc_pending c) \<and> wc_pending c' = drop k (wc_pending c) \<and>
       vol_bytes loc bound (env_files e') =
         paint (LBA2OFFSET (ws_lba (wc_pending c ! k))) (take j (ws_bytes (wc_pending c ! k)))
           (fold paint_ws (take k (wc_pending c)) (vol_bytes loc bound (env_files e)))"
proof (induction "length (wc_fifo c)" arbitrary: c b e rule: less_induct)
  case less
  from front_pending [OF less.prems(1-3)] obtain p c1 where
    f: "wc_front c = Some (Some p, c1)" "wc_heap c1 = wc_heap c"
    "wc_pending c = wc_heap c p # wc_pending (wc_pop c1)" "wc_inv (wc_pop c1)" "wc_tail_ok (wc_pop c1)"
    "wc_pending c1 = wc_pending c"
    by blast
  from less.prems(5) f obtain ok e1 where s: "dw_segment gh (wc_heap c p) e = Some (ok, e1)"
    by (subst (asm) dw_loop.simps) (auto split: option.splits)
  have fits: "ws_fits bound (wc_heap c p)" using less.prems(4) f(3) by simp
  show ?case
  proof (cases ok)
    case False
    then have "c' = c1" "e' = e1" using less.prems(5) f(1,2) s by (subst (asm) dw_loop.simps; simp)+
    moreover obtain j where "vol_bytes loc bound (env_files e1) =
        paint (LBA2OFFSET (ws_lba (wc_heap c p))) (take j (ws_bytes (wc_heap c p))) (vol_bytes loc bound (env_files e))"
      using segment_prefix [OF fits s] by blast
    ultimately show ?thesis using f(3,6) by (intro exI [of _ 0] exI [of _ j]) simp
  next
    case True
    obtain need e2 where n: "needNotify pool e1 = (need, e2)" by fastforce
    define e3 where "e3 = (if need then e2\<lparr>env_notified := Suc (env_notified e2)\<rparr> else e2)"
    have unf: "dw_loop gh pool c b e = DwReturn False c' e' \<longleftrightarrow> \<not> wc_empty (wc_pop c1) \<and>
        dw_loop gh pool (wc_pop c1) (b \<or> need) e3 = DwReturn False c' e'"
      by (subst dw_loop.simps) (simp add: f s n True Let_def e3_def)
    then have ne: "wc_fifo (wc_pop c1) \<noteq> []" and rest: "dw_loop gh pool (wc_pop c1) (b \<or> need) e3 = DwReturn False c' e'"
      using less.prems(5) by (auto simp: wc_empty_def)
    have "env_files e3 = env_files e1" using needNotify_frame [OF n] by (simp add: e3_def)
    moreover have "vol_bytes loc bound (env_files e1) = paint_ws (wc_heap c p) (vol_bytes loc bound (env_files e))"
      using segment_paints [OF fits, of e e1] s True by simp
    moreover obtain k j where "k < length (wc_pending (wc_pop c1))" "wc_pending c' = drop k (wc_pending (wc_pop c1))"
      "vol_bytes loc bound (env_files e') =
         paint (LBA2OFFSET (ws_lba (wc_pending (wc_pop c1) ! k))) (take j (ws_bytes (wc_pending (wc_pop c1) ! k)))
           (fold paint_ws (take k (wc_pending (wc_pop c1))) (vol_bytes loc bound (env_files e3)))"
      using less.hyps [OF wc_front_shrinks [OF f(1)] f(4,5) ne _ rest] less.prems(4) f(3) by auto
    ultimately show ?thesis using f(3) by (intro exI [of _ "Suc k"] exI [of _ j]) simp
  qed
qed

lemma loop_returns:
  "wc_inv c \<Longrightarrow> wc_tail_ok c \<Longrightarrow> wc_fifo c \<noteq> [] \<Longrightarrow>
     \<forall>s \<in> set (wc_pending c). ws_fits bound s \<and> ws_full s \<Longrightarrow>
     willing (sum_list (map (\<lambda>s. LBA2OFFSET (ws_transfer_length s)) (wc_pending c))) (env_answers e) \<Longrightarrow>
     \<exists>c' e'. dw_loop gh pool c b e = DwReturn True c' e'"
proof (induction "length (wc_fifo c)" arbitrary: c b e rule: less_induct)
  case less
  from front_pending [OF less.prems(1-3)] obtain p c1 where
    f: "wc_front c = Some (Some p, c1)" "wc_heap c1 = wc_heap c"
    "wc_pending c = wc_heap c p # wc_pending (wc_pop c1)" "wc_inv (wc_pop c1)" "wc_tail_ok (wc_pop c1)"
    by blast
  have "ws_fits bound (wc_heap c p)" "ws_full (wc_heap c p)" using less.prems(4) f(3) by auto
  from segment_returns [OF this, of "sum_list (map (\<lambda>s. LBA2OFFSET (ws_transfer_length s)) (wc_pending (wc_pop c1)))" e]
    less.prems(5) f(3) obtain e1 where
    s: "dw_segment gh (wc_heap c p) e = Some (True, e1)"
      "willing (sum_list (map (\<lambda>s. LBA2OFFSET (ws_transfer_length s)) (wc_pending (wc_pop c1)))) (env_answers e1)"
    by auto
  obtain need e2 where n: "needNotify pool e1 = (need, e2)" by fastforce
  define e3 where "e3 = (if need then e2\<lparr>env_notified := Suc (env_notified e2)\<rparr> else e2)"
  have e3: "env_answers e3 = env_answers e1" using needNotify_frame [OF n] by (simp add: e3_def)
  show ?case
  proof (cases "wc_empty (wc_pop c1)")
    case True
    then show ?thesis using f s n by (subst dw_loop.simps) (simp add: Let_def)
  next
    case False
    then have "wc_fifo (wc_pop c1) \<noteq> []" by (simp add: wc_empty_def)
    with less.hyps [OF wc_front_shrinks [OF f(1)] f(4,5), of e3 "b \<or> need"] less.prems(4) f(3) s(2) e3
    obtain c' e' where "dw_loop gh pool (wc_pop c1) (b \<or> need) e3 = DwReturn True c' e'" by auto
    then show ?thesis using f s(1) n False by (subst dw_loop.simps) (simp add: Let_def e3_def)
  qed
qed

end

end
