(* ===== verification/Writers.thy ===== *)
theory Writers
  imports DiskWriter_Correct
begin

text \<open>
  \<^verbatim>\<open>iSCSIReactor::setupWriters\<close> of \<^verbatim>\<open>src/reactor.cpp\<close> fills the handle map of each logical
  unit's writer from the volume's handles. The map it builds satisfies the interface \<open>extents\<close>
  when the pieces are non-empty, open, within 64-bit offsets and do not overlap; the drain loop
  then writes exactly the pending segments to the files behind the logical volume.
\<close>

section \<open>Setting up a writer\<close>

text \<open>The loop over the handles; the result is the map and the final offset.\<close>

fun add_handles :: "low_handle list \<Rightarrow> nat \<Rightarrow> handle_map \<Rightarrow> handle_map \<times> nat" where
  "add_handles [] offset m = (m, offset)"
| "add_handles (h # hs) offset m = add_handles hs (offset + lh_length h) (addHandle h offset m)"

text \<open>The body of the loop for one logical unit; \<open>None\<close> is the internal error. The result is the part of the
  writer that \<^verbatim>\<open>DiskWriter\<close> declares; the object is an \<^verbatim>\<open>AioDiskWriter\<close>, which theory \<open>AioWriter\<close> adds.\<close>

definition setup_writer :: "(string \<Rightarrow> bool \<Rightarrow> int) \<Rightarrow> logical_volume \<Rightarrow> write_cache \<Rightarrow> disk_writer option" where
  "setup_writer opener lv c =
     (let handles = lv_getLowHandles opener lv 0 (LBA2OFFSET (lv_count lv)) False;
          (m, offset) = add_handles handles 0 (dw_handles (DiskWriter c))
      in if offset \<noteq> LBA2OFFSET (lv_count lv) then None
         else Some ((DiskWriter c)\<lparr>dw_handles := m\<rparr>))"

section \<open>The map that is built\<close>

fun ext_map :: "nat \<Rightarrow> low_handle list \<Rightarrow> handle_map" where
  "ext_map off [] = []"
| "ext_map off (h # hs) = (off, h) # ext_map (off + lh_length h) hs"

lemma addHandle_last: "\<forall>x \<in> set m. fst x < off \<Longrightarrow> addHandle h off m = m @ [(off, h)]"
  by (induction m) auto

lemma add_handles_eq:
  "\<forall>h \<in> set hs. 0 < lh_length h \<Longrightarrow> \<forall>x \<in> set m. fst x < off \<Longrightarrow>
     add_handles hs off m = (m @ ext_map off hs, off + sum_list (map lh_length hs))"
proof (induction hs arbitrary: off m)
  case (Cons h hs)
  have "\<forall>x \<in> set (m @ [(off, h)]). fst x < off + lh_length h" using Cons.prems by auto
  with Cons.IH [of "m @ [(off, h)]"] Cons.prems show ?case by (simp add: addHandle_last)
qed simp

text \<open>Every address of the volume lies in one piece.\<close>

lemma ext_map_split:
  "\<forall>h \<in> set hs. 0 < lh_length h \<Longrightarrow> off \<le> start \<Longrightarrow> start < off + sum_list (map lh_length hs) \<Longrightarrow>
     \<exists>xs k h ys. ext_map off hs = xs @ (k, h) # ys \<and> (\<forall>x \<in> set xs. fst x < k) \<and> k \<le> start \<and>
       start < k + lh_length h \<and> (ys = [] \<or> fst (hd ys) = k + lh_length h) \<and> h \<in> set hs \<and>
       (\<forall>j. start + j < k + lh_length h \<longrightarrow>
          handles_loc hs (start + j - off) = Some (lh_fd h, lh_offset h + (start - k) + j))"
proof (induction hs arbitrary: off)
  case (Cons g hs)
  show ?case
  proof (cases "start < off + lh_length g")
    case True
    have "ext_map (off + lh_length g) hs = [] \<or>
        fst (hd (ext_map (off + lh_length g) hs)) = off + lh_length g" by (cases hs) auto
    with True Cons.prems show ?thesis
      by (intro exI [of _ "[]"] exI [of _ off] exI [of _ g] exI [of _ "ext_map (off + lh_length g) hs"])
        auto
  next
    case False
    with Cons.IH [of "off + lh_length g"] Cons.prems obtain xs k h ys where
      i: "ext_map (off + lh_length g) hs = xs @ (k, h) # ys" "\<forall>x \<in> set xs. fst x < k" "k \<le> start"
      "start < k + lh_length h" "ys = [] \<or> fst (hd ys) = k + lh_length h" "h \<in> set hs"
      "\<And>j. start + j < k + lh_length h \<Longrightarrow>
          handles_loc hs (start + j - (off + lh_length g)) = Some (lh_fd h, lh_offset h + (start - k) + j)"
      by auto
    have "off < k"
    proof (cases xs)
      case Nil
      then show ?thesis using i(1) Cons.prems(1) by (cases hs) auto
    next
      case (Cons x xs')
      then have "fst x = off + lh_length g" using i(1) by (cases hs) auto
      then show ?thesis using i(2) Cons by auto
    qed
    moreover have "handles_loc (g # hs) (start + j - off) = Some (lh_fd h, lh_offset h + (start - k) + j)"
      if "start + j < k + lh_length h" for j
    proof -
      have "\<not> start + j - off < lh_length g" using False by simp
      moreover have "start + j - off - lh_length g = start + j - (off + lh_length g)" by simp
      ultimately show ?thesis using i(7) [OF that] by simp
    qed
    ultimately show ?thesis using i
      by (intro exI [of _ "(off, g) # xs"] exI [of _ k] exI [of _ h] exI [of _ ys]) auto
  qed
qed simp

lemma takeWhile_key:
  "\<forall>x \<in> set xs. fst x < (k::nat) \<Longrightarrow> k \<le> start \<Longrightarrow> ys = [] \<or> start < fst (hd ys) \<Longrightarrow>
     takeWhile (\<lambda>(a, _). a < start) (xs @ (k, h) # ys) = (if k < start then xs @ [(k, h)] else xs)"
proof -
  assume a: "\<forall>x \<in> set xs. fst x < k" "k \<le> start" "ys = [] \<or> start < fst (hd ys)"
  have "(\<lambda>(a, _). a < start) x" if "x \<in> set xs" for x
  proof -
    have "fst x < k" using a(1) that by blast
    also have "k \<le> start" by (rule a(2))
    finally have "fst x < start" .
    then show ?thesis by (simp add: case_prod_unfold)
  qed
  then have "takeWhile (\<lambda>(a, _). a < start) (xs @ (k, h) # ys) =
      xs @ takeWhile (\<lambda>(a, _). a < start) ((k, h) # ys)" by (rule takeWhile_append2)
  moreover have "takeWhile (\<lambda>(a, _). a < start) ys = []" using a(3) by (cases ys) auto
  ultimately show ?thesis by simp
qed

lemma getHandle_split:
  assumes m: "m = xs @ (k, h) # ys" "\<forall>x \<in> set xs. fst x < k" "k \<le> start" "ys = [] \<or> start < fst (hd ys)"
    and in_ext: "start < k + lh_length h" and n: "0 < n"
    and w: "lh_length h + lh_offset h < 2 ^ 64" and fd: "lh_fd h \<noteq> INVALID_HANDLE_VALUE"
  shows "getHandle m start n =
    (lh_fd h, min n (lh_length h - (start - k)), lh_offset h + (start - k))"
proof -
  have tw: "length (takeWhile (\<lambda>(a, _). a < start) m) = (if k < start then Suc (length xs) else length xs)"
    unfolding m(1) takeWhile_key [OF m(2-4)] by simp
  have "(if k < start then Suc (length xs) else length xs) \<noteq> 0 \<and>
      ((if k < start then Suc (length xs) else length xs) = length m \<or>
       fst (m ! (if k < start then Suc (length xs) else length xs)) > start) \<longleftrightarrow> k < start"
    using m by (cases ys) (auto simp: nth_append)
  then have i: "(if length (takeWhile (\<lambda>(a, _). a < start) m) \<noteq> 0 \<and>
      (length (takeWhile (\<lambda>(a, _). a < start) m) = length m \<or>
       fst (m ! length (takeWhile (\<lambda>(a, _). a < start) m)) > start)
      then length (takeWhile (\<lambda>(a, _). a < start) m) - 1
      else length (takeWhile (\<lambda>(a, _). a < start) m)) = length xs"
    unfolding tw by simp
  have at: "m ! length xs = (k, h)" "m \<noteq> []" using m(1) by auto
  have real: "add64 (start - k) (lh_offset h) = lh_offset h + (start - k)"
    using w in_ext m(3) by (subst add64_exact) auto
  have tot: "add64 (lh_length h) (lh_offset h) = lh_length h + lh_offset h" using w by simp
  have cov: "sub64 (lh_length h + lh_offset h) (lh_offset h + (start - k)) = lh_length h - (start - k)"
    using w in_ext by (subst sub64_exact) auto
  have pos: "min n (lh_length h - (start - k)) \<noteq> 0" using n in_ext m(3) by auto
  show ?thesis
    unfolding getHandle_def Let_def i at(1) prod.case real tot cov using pos at(2) m(3)
    by (simp only: if_False if_True not_less [symmetric] simp_thms)
qed

section \<open>Extents that do not overlap\<close>

definition lh_disjoint :: "low_handle \<Rightarrow> low_handle \<Rightarrow> bool" where
  "lh_disjoint g h \<longleftrightarrow> lh_fd g \<noteq> lh_fd h \<or> lh_offset g + lh_length g \<le> lh_offset h \<or>
     lh_offset h + lh_length h \<le> lh_offset g"

definition extents_ok :: "low_handle list \<Rightarrow> bool" where
  "extents_ok hs \<longleftrightarrow>
     (\<forall>h \<in> set hs. 0 < lh_length h \<and> lh_length h + lh_offset h < 2 ^ 64 \<and>
        lh_fd h \<noteq> INVALID_HANDLE_VALUE) \<and>
     sorted_wrt lh_disjoint hs"

text \<open>The size of the volume that the pieces make up; nothing is promised for pieces that
  overlap.\<close>

definition extent_bound :: "low_handle list \<Rightarrow> nat" where
  "extent_bound hs = (if extents_ok hs then sum_list (map lh_length hs) else 0)"

lemma handles_loc_in:
  "handles_loc hs i = Some (fd, p) \<Longrightarrow>
     \<exists>h \<in> set hs. lh_fd h = fd \<and> lh_offset h \<le> p \<and> p < lh_offset h + lh_length h"
  by (induction hs arbitrary: i) (auto split: if_splits)

lemma handles_loc_inj:
  "sorted_wrt lh_disjoint hs \<Longrightarrow> handles_loc hs i = Some x \<Longrightarrow> handles_loc hs j = Some x \<Longrightarrow> i = j"
proof (induction hs arbitrary: i j)
  case (Cons h hs)
  obtain fd p where x: "x = (fd, p)" by fastforce
  have no: False if "a < lh_length h" "\<not> b < lh_length h" "handles_loc (h # hs) a = Some x"
    "handles_loc (h # hs) b = Some x" for a b
  proof -
    from that x have "fd = lh_fd h" "p = lh_offset h + a"
      "handles_loc hs (b - lh_length h) = Some (fd, p)" by auto
    with handles_loc_in [OF this(3)] Cons.prems(1) that(1) show False
      by (auto simp: lh_disjoint_def)
  qed
  show ?case
  proof (cases "i < lh_length h")
    case True
    then have "j < lh_length h" using no [of i j] Cons.prems by blast
    with True Cons.prems show ?thesis by auto
  next
    case False
    then have "\<not> j < lh_length h" using no [of j i] Cons.prems by blast
    with False Cons.IH [of "i - lh_length h" "j - lh_length h"] Cons.prems show ?thesis by auto
  qed
qed simp

interpretation wr: extents "getHandle (ext_map 0 hs)" "handles_loc hs" "extent_bound hs" for hs
proof
  fix n start :: nat
  assume n: "0 < n" and b: "start + n \<le> extent_bound hs"
  then have ok: "extents_ok hs" and s: "start < 0 + sum_list (map lh_length hs)"
    by (auto simp: extent_bound_def split: if_splits)
  from ok have "\<forall>h \<in> set hs. 0 < lh_length h" by (simp add: extents_ok_def)
  from ext_map_split [OF this _ s] obtain xs k h ys where
    e: "ext_map 0 hs = xs @ (k, h) # ys" "\<forall>x \<in> set xs. fst x < k" "k \<le> start"
    "start < k + lh_length h" "ys = [] \<or> fst (hd ys) = k + lh_length h" "h \<in> set hs"
    "\<And>j. start + j < k + lh_length h \<Longrightarrow>
        handles_loc hs (start + j - 0) = Some (lh_fd h, lh_offset h + (start - k) + j)" by blast
  have "ys = [] \<or> start < fst (hd ys)" using e(4,5) by auto
  from getHandle_split [OF e(1-3) this e(4) n] ok e(6)
  have "getHandle (ext_map 0 hs) start n =
      (lh_fd h, min n (lh_length h - (start - k)), lh_offset h + (start - k))"
    by (simp add: extents_ok_def)
  moreover have "lh_fd h \<noteq> INVALID_HANDLE_VALUE" using ok e(6) by (simp add: extents_ok_def)
  ultimately show "\<exists>fd cov r. getHandle (ext_map 0 hs) start n = (fd, cov, r) \<and>
      fd \<noteq> INVALID_HANDLE_VALUE \<and> 0 < cov \<and> cov \<le> n \<and>
      (\<forall>k < cov. handles_loc hs (start + k) = Some (fd, r + k))"
    using n e(3,4,7) by auto
next
  fix i j
  assume "i < extent_bound hs" "handles_loc hs i = handles_loc hs j" "handles_loc hs i \<noteq> None"
  then show "i = j" using handles_loc_inj [of hs i _ j]
    by (auto simp: extent_bound_def extents_ok_def split: if_splits)
qed

section \<open>A writer set up for a logical volume\<close>

text \<open>The handles of a volume as the writers see them.\<close>

definition lv_handles :: "(string \<Rightarrow> bool \<Rightarrow> int) \<Rightarrow> logical_volume \<Rightarrow> low_handle list" where
  "lv_handles opener lv = lv_getLowHandles opener lv 0 (LBA2OFFSET (lv_count lv)) False"

text \<open>A usable volume: constructed (its count is the size of its parts) and mapped to pieces that
  do not overlap; both are facts of the configuration.\<close>

definition lv_ok :: "(string \<Rightarrow> bool \<Rightarrow> int) \<Rightarrow> logical_volume \<Rightarrow> bool" where
  "lv_ok opener lv \<longleftrightarrow> 0 < lv_count lv \<and> LBA2OFFSET (lv_count lv) = va_bytes (va_volumes (lv_original lv)) \<and>
     extents_ok (lv_handles opener lv)"

definition lv_locate :: "(string \<Rightarrow> bool \<Rightarrow> int) \<Rightarrow> logical_volume \<Rightarrow> nat \<Rightarrow> (int \<times> nat) option" where
  "lv_locate opener lv = locate (\<lambda>p. opener p False) (va_volumes (lv_original lv))"

definition lv_content :: "(string \<Rightarrow> bool \<Rightarrow> int) \<Rightarrow> logical_volume \<Rightarrow> files \<Rightarrow> nat \<Rightarrow> u8" where
  "lv_content opener lv = vol_bytes (lv_locate opener lv) (LBA2OFFSET (lv_count lv))"

lemma lv_handles_sum:
  assumes "lv_ok opener lv"
  shows "sum_list (map lh_length (lv_handles opener lv)) = LBA2OFFSET (lv_count lv)"
    and "\<forall>h \<in> set (lv_handles opener lv). 0 < lh_length h"
    and "k < LBA2OFFSET (lv_count lv) \<Longrightarrow> handles_loc (lv_handles opener lv) k = lv_locate opener lv k"
  using low_handles_correct [of "LBA2OFFSET (lv_count lv)" 0 "va_volumes (lv_original lv)" opener False]
    assms by (simp_all add: lv_ok_def lv_handles_def lv_getLowHandles_def getLowHandles_def lv_locate_def
        LBA2OFFSET_eq)

lemma lv_content_eq:
  assumes "lv_ok opener lv"
  shows "lv_content opener lv =
    vol_bytes (handles_loc (lv_handles opener lv)) (extent_bound (lv_handles opener lv))"
  using lv_handles_sum [OF assms] assms
  by (auto simp: lv_content_def vol_bytes_def extent_bound_def lv_ok_def fun_eq_iff)

lemma setup_writer_handles:
  assumes "lv_ok opener lv"
  shows "setup_writer opener lv c =
    Some \<lparr>dw_stop = False, dw_handles = ext_map 0 (lv_handles opener lv), dw_wc = c\<rparr>"
  using add_handles_eq [OF lv_handles_sum(2) [OF assms], of "[]" 0] lv_handles_sum(1) [OF assms]
  by (simp add: setup_writer_def DiskWriter_def lv_handles_def Let_def)

text \<open>Setting up the writer of a usable volume succeeds, and for every range inside the volume
  the handle map resolves a non-empty prefix of it to the file and position that the volume's parts
  give to each of its bytes.\<close>

theorem setup_writer_succeeds:
  assumes "lv_ok opener lv"
  shows "\<exists>w. setup_writer opener lv c = Some w \<and> dw_wc w = c \<and>
    (\<forall>start n. 0 < n \<and> start + n \<le> LBA2OFFSET (lv_count lv) \<longrightarrow>
       (\<exists>fd cov r. getHandle (dw_handles w) start n = (fd, cov, r) \<and> 0 < cov \<and> cov \<le> n \<and>
          (\<forall>k < cov. lv_locate opener lv (start + k) = Some (fd, r + k))))"
proof -
  let ?hs = "lv_handles opener lv"
  have b: "extent_bound ?hs = LBA2OFFSET (lv_count lv)"
    using assms lv_handles_sum(1) [OF assms] by (simp add: extent_bound_def lv_ok_def)
  have "\<exists>fd cov r. getHandle (ext_map 0 ?hs) start n = (fd, cov, r) \<and> 0 < cov \<and> cov \<le> n \<and>
      (\<forall>k < cov. lv_locate opener lv (start + k) = Some (fd, r + k))"
    if n: "0 < n" "start + n \<le> LBA2OFFSET (lv_count lv)" for start n
  proof -
    from wr.gh_loc [of n start ?hs] n b obtain fd cov r where
      g: "getHandle (ext_map 0 ?hs) start n = (fd, cov, r)" "0 < cov" "cov \<le> n"
      "\<forall>k < cov. handles_loc ?hs (start + k) = Some (fd, r + k)" by auto
    have "\<forall>k < cov. lv_locate opener lv (start + k) = Some (fd, r + k)"
      using g(3,4) n(2) lv_handles_sum(3) [OF assms] by (metis add_less_cancel_left less_le_trans)
    with g show ?thesis by blast
  qed
  then show ?thesis using setup_writer_handles [OF assms, of c] by auto
qed

lemma drain_paints:
  assumes "lv_ok opener lv" and "setup_writer opener lv c = Some w"
    and "wc_inv c" and "wc_tail_ok c"
    and "\<forall>s \<in> set (wc_pending c). ws_fits (LBA2OFFSET (lv_count lv)) s"
    and "doWork pool w e = DwReturn True c' e'"
  shows "wc_empty c' \<and> lv_content opener lv (env_files e') =
    fold paint_ws (wc_pending c) (lv_content opener lv (env_files e))"
proof (cases "wc_empty c")
  case True
  then show ?thesis using assms setup_writer_handles [OF assms(1), of c]
    by (auto simp: doWork_def wc_pending_def wc_empty_def)
next
  case False
  let ?hs = "lv_handles opener lv"
  have b: "extent_bound ?hs = LBA2OFFSET (lv_count lv)"
    using assms(1) lv_handles_sum(1) [OF assms(1)] by (simp add: extent_bound_def lv_ok_def)
  have l: "dw_loop (getHandle (ext_map 0 ?hs)) pool c False e = DwReturn True c' e'"
    using assms(2,6) False setup_writer_handles [OF assms(1), of c] by (auto simp: doWork_def)
  have "wc_fifo c \<noteq> []" using False by (simp add: wc_empty_def)
  from wr.loop_paints [OF assms(3,4) this _ l] assms(5) show ?thesis
    by (simp add: lv_content_eq [OF assms(1)] b)
qed

text \<open>C2. A drain that returns successfully leaves the cache empty, and the bytes of the logical
  volume, read through the files behind it, are the old ones overwritten by the pending segments
  in the order they were pushed. This holds for every behaviour of the operating system: short
  writes, interruptions and any distribution of the volume over files.\<close>

theorem doWork_writes_pending:
  assumes "lv_ok opener lv" and "setup_writer opener lv c = Some w"
    and "wc_inv c" and "wc_tail_ok c"
    and "\<forall>s \<in> set (wc_pending c). ws_fits (LBA2OFFSET (lv_count lv)) s"
    and "doWork pool w e = DwReturn True c' e'"
  shows "wc_empty c' \<and> lv_content opener lv (env_files e') =
    fold paint_ws (wc_pending c) (lv_content opener lv (env_files e))"
  by (rule drain_paints [OF assms])

lemma drain_returns:
  assumes "lv_ok opener lv" and "setup_writer opener lv c = Some w"
    and "wc_inv c" and "wc_tail_ok c"
    and "\<forall>s \<in> set (wc_pending c). ws_fits (LBA2OFFSET (lv_count lv)) s \<and> ws_full s"
    and "willing (sum_list (map (\<lambda>s. LBA2OFFSET (ws_transfer_length s)) (wc_pending c))) (env_answers e)"
  shows "\<exists>c' e'. doWork pool w e = DwReturn True c' e' \<and> wc_empty c'"
proof (cases "wc_empty c")
  case True
  then show ?thesis using assms(2) setup_writer_handles [OF assms(1), of c]
    by (auto simp: doWork_def)
next
  case False
  let ?hs = "lv_handles opener lv"
  have b: "extent_bound ?hs = LBA2OFFSET (lv_count lv)"
    using assms(1) lv_handles_sum(1) [OF assms(1)] by (simp add: extent_bound_def lv_ok_def)
  have fits: "\<forall>s \<in> set (wc_pending c). ws_fits (extent_bound ?hs) s \<and> ws_full s"
    using assms(5) b by simp
  have ne: "wc_fifo c \<noteq> []" using False by (simp add: wc_empty_def)
  from wr.loop_returns [OF assms(3,4) ne fits assms(6), of pool False] obtain c' e' where
    l: "dw_loop (getHandle (ext_map 0 ?hs)) pool c False e = DwReturn True c' e'" by blast
  have "\<forall>s \<in> set (wc_pending c). ws_fits (extent_bound ?hs) s" using fits by blast
  from wr.loop_paints [OF assms(3,4) ne this l] have "wc_empty c'" by blast
  with l False assms(2) setup_writer_handles [OF assms(1), of c] show ?thesis
    by (auto simp: doWork_def)
qed

text \<open>C32. The drain is live: when the operating system reports no error and every call writes at
  least one byte, as many answers as there are bytes to write are enough for \<^verbatim>\<open>doWork\<close> to return
  successfully, however many interruptions come in between.\<close>

theorem doWork_returns:
  assumes "lv_ok opener lv" and "setup_writer opener lv c = Some w"
    and "wc_inv c" and "wc_tail_ok c"
    and "\<forall>s \<in> set (wc_pending c). ws_fits (LBA2OFFSET (lv_count lv)) s \<and> ws_full s"
    and "willing (sum_list (map (\<lambda>s. LBA2OFFSET (ws_transfer_length s)) (wc_pending c))) (env_answers e)"
  shows "\<exists>c' e'. doWork pool w e = DwReturn True c' e' \<and> wc_empty c'"
  using drain_returns [OF assms] .

text \<open>A write that starts behind the last piece is not refused: \<^verbatim>\<open>getHandle\<close> subtracts past
  zero, so the out parameter \<^verbatim>\<open>covered\<close> is the whole length and the data would go to the last file
  behind the end of the volume.\<close>

theorem getHandle_wraps_behind_end:
  "getHandle [(0, LowHandle 3 0 4096)] 8192 512 = (3, 512, 8192)"
  by (simp add: getHandle_def LowHandle_def add64_def sub64_def INVALID_HANDLE_VALUE_def Let_def)

lemma paint_prefix: "paint_ws s (paint (LBA2OFFSET (ws_lba s)) (take j (ws_bytes s)) f) = paint_ws s f"
  by (auto simp: paint_ws_def paint_def fun_eq_iff)

text \<open>C38. A drain that fails loses nothing: the segment whose write failed and all behind it are still pending, in
  order; the segments before it have been written, each over what was there, and of the failed one a prefix. So
  painting what is still pending over the files gives the same bytes as painting all that was pending over the
  files of before, which is what a later drain that succeeds leaves.\<close>

theorem doWork_failure_keeps_pending:
  assumes "lv_ok opener lv" and "setup_writer opener lv c = Some w"
    and "wc_inv c" and "wc_tail_ok c"
    and "\<forall>s \<in> set (wc_pending c). ws_fits (LBA2OFFSET (lv_count lv)) s"
    and "doWork pool w e = DwReturn False c' e'"
  shows "(\<exists>k j. k < length (wc_pending c) \<and> wc_pending c' = drop k (wc_pending c) \<and>
      lv_content opener lv (env_files e') =
        paint (LBA2OFFSET (ws_lba (wc_pending c ! k))) (take j (ws_bytes (wc_pending c ! k)))
          (fold paint_ws (take k (wc_pending c)) (lv_content opener lv (env_files e)))) \<and>
    fold paint_ws (wc_pending c') (lv_content opener lv (env_files e')) =
      fold paint_ws (wc_pending c) (lv_content opener lv (env_files e))"
proof -
  let ?hs = "lv_handles opener lv" and ?p = "wc_pending c" and ?f = "lv_content opener lv (env_files e)"
  have b: "extent_bound ?hs = LBA2OFFSET (lv_count lv)"
    using assms(1) lv_handles_sum(1) [OF assms(1)] by (simp add: extent_bound_def lv_ok_def)
  have w: "w = \<lparr>dw_stop = False, dw_handles = ext_map 0 ?hs, dw_wc = c\<rparr>"
    using assms(2) setup_writer_handles [OF assms(1), of c] by simp
  have ne: "wc_fifo c \<noteq> []" and l: "dw_loop (getHandle (ext_map 0 ?hs)) pool c False e = DwReturn False c' e'"
    using assms(6) by (auto simp: w doWork_def wc_empty_def split: if_splits)
  have fits: "\<forall>s \<in> set ?p. ws_fits (extent_bound ?hs) s" using assms(5) by (simp add: b)
  from wr.loop_fails [OF assms(3,4) ne fits l] obtain k j where
    k: "k < length ?p" "wc_pending c' = drop k ?p" "lv_content opener lv (env_files e') =
      paint (LBA2OFFSET (ws_lba (?p ! k))) (take j (ws_bytes (?p ! k))) (fold paint_ws (take k ?p) ?f)"
    by (auto simp: lv_content_eq [OF assms(1)])
  have "fold paint_ws (drop k ?p) (paint (LBA2OFFSET (ws_lba (?p ! k))) (take j (ws_bytes (?p ! k))) g) =
      fold paint_ws (drop k ?p) g" for g
    using k(1) by (simp add: Cons_nth_drop_Suc [symmetric] paint_prefix)
  then have "fold paint_ws (wc_pending c') (lv_content opener lv (env_files e')) = fold paint_ws ?p ?f"
    unfolding k(2,3) by (metis append_take_drop_id comp_apply fold_append)
  with k show ?thesis by blast
qed

section \<open>Witnesses: one block on a volume of one file\<close>

definition ex_lv :: logical_volume where
  "ex_lv = \<lparr>lv_name = ''L'', lv_original = addVolume (PhysicalVolume ''f'' 0 8) VolumeArray,
     lv_copies = [], lv_count = 8\<rparr>"

definition ex_open :: "string \<Rightarrow> bool \<Rightarrow> int" where
  "ex_open p ro = 3"

definition ex_seg :: write_segment where
  "ex_seg = (WriteSegment 1 1)\<lparr>ws_cbufs := [\<lparr>cb_bytes = (\<lambda>_. 7), cb_size = 512, cb_offset = 0,
     cb_tail = 512\<rparr>]\<rparr>"

definition ex_cache :: write_cache where
  "ex_cache = \<lparr>wc_heap = (\<lambda>_. ex_seg), wc_next = 1, wc_fifo = [0], wc_lba = [0]\<rparr>"

definition ex_env :: dw_env where
  "ex_env = \<lparr>env_answers = Interrupted # replicate 512 (Wrote 1), env_files = (\<lambda>_ _. 0),
     env_seq = seq_init, env_polls = 0, env_notified = 0, env_released = 0\<rparr>"

lemmas ex_defs = ex_lv_def ex_open_def ex_seg_def ex_cache_def ex_env_def WriteSegment_def
  addVolume_def VolumeArray_def PhysicalVolume_def LBA2OFFSET_eq Let_def

lemma ex_handles: "lv_handles ex_open ex_lv = [LowHandle 3 0 4096]"
  by (simp add: lv_handles_def lv_getLowHandles_def getLowHandles_def getCoverage_def ex_defs)

lemma ex_lv_ok: "lv_ok ex_open ex_lv"
  unfolding lv_ok_def ex_handles
  by (simp add: extents_ok_def LowHandle_def INVALID_HANDLE_VALUE_def va_bytes_def ex_defs)

lemma ex_cache_ok: "wc_inv ex_cache" "wc_tail_ok ex_cache" "wc_pending ex_cache = [ex_seg]"
  by (simp_all add: wc_inv_def wc_tail_ok_def wc_pending_def idx_ok_def ex_defs)

lemma ex_seg_ok: "ws_fits 4096 ex_seg" "ws_full ex_seg" "ws_bytes ex_seg = replicate 512 7"
  by (simp_all add: ws_fits_def ws_full_def ws_bytes_def map_replicate_const ex_defs)

lemma ex_willing: "willing 512 (env_answers ex_env)"
  by (simp add: willing_def ex_defs)

theorem setup_writer_succeeds_witness:
  "\<exists>w fd cov r. setup_writer ex_open ex_lv ex_cache = Some w \<and>
     getHandle (dw_handles w) 512 512 = (fd, cov, r) \<and> 0 < cov"
proof -
  have "0 < (512::nat)" "512 + 512 \<le> LBA2OFFSET (lv_count ex_lv)" by (simp_all add: ex_defs)
  with setup_writer_succeeds [OF ex_lv_ok, of ex_cache] show ?thesis by blast
qed

theorem doWork_returns_witness:
  "\<exists>w c' e'. setup_writer ex_open ex_lv ex_cache = Some w \<and>
     doWork (\<lambda>_. POOL_STATE_HARD) w ex_env = DwReturn True c' e'"
proof -
  obtain w where w: "setup_writer ex_open ex_lv ex_cache = Some w"
    using setup_writer_handles [OF ex_lv_ok] by blast
  have "\<exists>c' e'. doWork (\<lambda>_. POOL_STATE_HARD) w ex_env = DwReturn True c' e' \<and> wc_empty c'"
    by (rule doWork_returns [OF ex_lv_ok w ex_cache_ok(1,2)])
      (use ex_seg_ok ex_willing in \<open>simp_all add: ex_cache_ok(3), simp_all add: ex_lv_def ex_seg_def
        WriteSegment_def LBA2OFFSET_eq\<close>)
  with w show ?thesis by blast
qed

theorem doWork_writes_pending_witness:
  "\<exists>w c' e'. setup_writer ex_open ex_lv ex_cache = Some w \<and>
     doWork (\<lambda>_. POOL_STATE_SOFT) w ex_env = DwReturn True c' e' \<and>
     lv_content ex_open ex_lv (env_files e') 600 = 7"
proof -
  obtain w where w: "setup_writer ex_open ex_lv ex_cache = Some w"
    using setup_writer_handles [OF ex_lv_ok] by blast
  have fits: "\<forall>s \<in> set (wc_pending ex_cache). ws_fits (LBA2OFFSET (lv_count ex_lv)) s \<and> ws_full s"
    using ex_seg_ok by (simp add: ex_cache_ok(3)) (simp add: ex_lv_def LBA2OFFSET_eq)
  have "willing (sum_list (map (\<lambda>s. LBA2OFFSET (ws_transfer_length s)) (wc_pending ex_cache)))
      (env_answers ex_env)"
    using ex_willing by (simp add: ex_cache_ok(3)) (simp add: ex_seg_def WriteSegment_def LBA2OFFSET_eq)
  from drain_returns [OF ex_lv_ok w ex_cache_ok(1,2) fits this] obtain c' e' where
    d: "doWork (\<lambda>_. POOL_STATE_SOFT) w ex_env = DwReturn True c' e'" by blast
  have "\<forall>s \<in> set (wc_pending ex_cache). ws_fits (LBA2OFFSET (lv_count ex_lv)) s" using fits by blast
  from doWork_writes_pending [OF ex_lv_ok w ex_cache_ok(1,2) this d]
  have "lv_content ex_open ex_lv (env_files e') 600 = 7"
    by (simp add: ex_cache_ok(3) paint_ws_def paint_def ex_seg_ok(3))
      (simp add: ex_seg_def WriteSegment_def LBA2OFFSET_eq)
  with w d show ?thesis by blast
qed

text \<open>The device takes 100 bytes and then fails.\<close>

lemma doWork_failure_keeps_pending_witness:
  "\<exists>w c' e'. setup_writer ex_open ex_lv ex_cache = Some w \<and>
     doWork (\<lambda>_. POOL_STATE_SOFT) w (ex_env\<lparr>env_answers := [Wrote 100, IoError]\<rparr>) = DwReturn False c' e' \<and>
     wc_pending c' = [ex_seg] \<and>
     paint_ws ex_seg (lv_content ex_open ex_lv (env_files e')) = paint_ws ex_seg (lv_content ex_open ex_lv (env_files ex_env))"
proof -
  let ?w = "\<lparr>dw_stop = False, dw_handles = [(0, LowHandle 3 0 4096)], dw_wc = ex_cache\<rparr>"
    and ?e = "ex_env\<lparr>env_answers := [Wrote 100, IoError]\<rparr>"
  have w: "setup_writer ex_open ex_lv ex_cache = Some ?w"
    using setup_writer_handles [OF ex_lv_ok] by (simp add: ex_handles)
  have "\<exists>c' e'. doWork (\<lambda>_. POOL_STATE_SOFT) ?w ?e = DwReturn False c' e'"
    by (simp add: doWork_def dw_loop.simps wc_empty_def wc_front_def dw_segment_def dw_fill.simps
        getHandle_def LowHandle_def add64_def sub64_def INVALID_HANDLE_VALUE_def ex_defs)
  then obtain c' e' where d: "doWork (\<lambda>_. POOL_STATE_SOFT) ?w ?e = DwReturn False c' e'" by blast
  have "\<forall>s \<in> set (wc_pending ex_cache). ws_fits (LBA2OFFSET (lv_count ex_lv)) s"
    using ex_seg_ok by (simp add: ex_cache_ok(3)) (simp add: ex_lv_def LBA2OFFSET_eq)
  from doWork_failure_keeps_pending [OF ex_lv_ok w ex_cache_ok(1,2) this d]
  have "wc_pending c' = [ex_seg]" "paint_ws ex_seg (lv_content ex_open ex_lv (env_files e')) =
      paint_ws ex_seg (lv_content ex_open ex_lv (env_files ex_env))"
    by (auto simp: ex_cache_ok(3))
  with w d show ?thesis by blast
qed

end
