(* ===== verification/Storage_Correct.thy ===== *)
theory Storage_Correct
  imports Writers
begin

text \<open>
  The write cache and the disk writer together: what a read sees through the cache before a drain is
  what the files hold after it, and both are the old contents overwritten by the writes in order.
\<close>

section \<open>Bytes seen through the cache\<close>

text \<open>The segment that answers for the byte's block holds it at its distance from the segment's origin;
  without such a segment it comes from the file.\<close>

definition cache_byte :: "write_cache \<Rightarrow> (nat \<Rightarrow> u8) \<Rightarrow> nat \<Rightarrow> u8" where
  "cache_byte c f i =
     (case find (\<lambda>p. ws_covers (wc_heap c p) (i div 512)) (wc_lba c) of
        None \<Rightarrow> f i
      | Some p \<Rightarrow> ws_bytes (wc_heap c p) ! (i - LBA2OFFSET (ws_lba (wc_heap c p))))"

lemma cache_byte_empty [simp]: "cache_byte (WriteCache h n) f = f"
  by (simp add: cache_byte_def WriteCache_def fun_eq_iff)

text \<open>At most one segment covers a block.\<close>

lemma find_covers:
  assumes "wc_inv c" and "p \<in> set (wc_lba c)" and "ws_covers (wc_heap c p) b"
  shows "find (\<lambda>p. ws_covers (wc_heap c p) b) (wc_lba c) = Some p"
proof -
  have "find (\<lambda>p. ws_covers (wc_heap c p) b) (wc_lba c) \<noteq> None" using assms by (auto simp: find_None_iff)
  then obtain q where q: "find (\<lambda>p. ws_covers (wc_heap c p) b) (wc_lba c) = Some q" by blast
  then have "q \<in> set (wc_lba c)" "ws_covers (wc_heap c q) b" by (auto simp: find_Some_iff)
  then have "q = p" using disjoint_live [of "wc_heap c" "wc_lba c" p q] assms ws_covers_live
    by (auto simp: wc_inv_def ws_covers_def)
  with q show ?thesis by simp
qed

lemma ws_trim_keeps [simp]:
  "ws_bytes (ws_trim w s) = ws_bytes s" "paint_ws (ws_trim w s) = paint_ws s"
  "ws_fits bound (ws_trim w s) = ws_fits bound s" "ws_lba (ws_trim w s) = ws_lba s" "ws_copy (ws_trim w s) = ws_copy s"
  by (simp_all add: ws_trim_def ws_bytes_def paint_ws_def ws_fits_def Let_def)

lemma paint_pending_trim:
  "fold paint_ws (filter (\<lambda>s. \<not> ws_copy s) (map (\<lambda>p. ws_trim w (h p)) ps)) f =
     fold paint_ws (filter (\<lambda>s. \<not> ws_copy s) (map h ps)) f"
  by (induction ps arbitrary: f) simp_all

text \<open>The container after a write that splits no segment.\<close>

lemma whole_write_state:
  assumes "ordered_index lb ub" and "wc_inv c" and "0 < ws_transfer_length w"
    and no: "\<forall>p \<in> set (wc_lba c). \<not> ws_split w (wc_heap c p)"
  shows "wc_heap (wc_write lb ub w c) = (\<lambda>p. if p = wc_next c then w
      else if p \<in> set (wc_lba c) then ws_trim w (wc_heap c p) else wc_heap c p)"
    and "wc_fifo (wc_write lb ub w c) = wc_fifo c @ [wc_next c]"
    and "set (wc_lba (wc_write lb ub w c)) = insert (wc_next c) (set (wc_lba c))"
    and "wc_next (wc_write lb ub w c) = Suc (wc_next c)"
proof -
  define P where "P = wc_next c"
  define hits where "hits = filter (\<lambda>p. ws_hit (ws_lba w) (ws_transfer_length w) (wc_heap c p)) (wc_lba c)"
  define h where "h = (\<lambda>p. if p = P then w else if p \<in> set (wc_lba c) then ws_trim w (wc_heap c p) else wc_heap c p)"
  have P: "P \<notin> set (wc_fifo c)" "P \<notin> set (wc_lba c)" using assms(2) by (auto simp: wc_inv_def P_def)
  have no': "\<And>p. p \<in> set hits \<Longrightarrow> \<not> ws_split w (wc_heap c p)" using no by (simp add: hits_def)
  have "fold (wc_merge ub w) hits (c\<lparr>wc_heap := (wc_heap c)(P := w), wc_next := Suc P\<rparr>) =
      c\<lparr>wc_heap := h, wc_next := Suc P\<rparr>"
    unfolding h_def by (rule merge_whole_state [OF assms(2,3) P_def hits_def no'])
  then have "wc_write lb ub w c = wc_push_back ub P (c\<lparr>wc_heap := h, wc_next := Suc P\<rparr>)"
    unfolding ordered_index.write_unfold [OF assms(1,2) P_def hits_def] by (simp only:)
  then show "wc_heap (wc_write lb ub w c) = (\<lambda>p. if p = wc_next c then w
      else if p \<in> set (wc_lba c) then ws_trim w (wc_heap c p) else wc_heap c p)"
    "wc_fifo (wc_write lb ub w c) = wc_fifo c @ [wc_next c]"
    "set (wc_lba (wc_write lb ub w c)) = insert (wc_next c) (set (wc_lba c))"
    "wc_next (wc_write lb ub w c) = Suc (wc_next c)"
    using P by (simp_all add: wc_push_back_def P_def [symmetric] h_def)
qed

text \<open>The bytes depend on the data of the segments only.\<close>

lemma cache_byte_view:
  "cache_byte c f i =
     (case wc_view c (i div 512) of
        None \<Rightarrow> f i
      | Some (lba, len, ds, bufs) \<Rightarrow> take (LBA2OFFSET len) (ws_pieces ds bufs) ! (i - LBA2OFFSET lba))"
  by (simp add: cache_byte_def wc_view_def ws_data_def ws_bytes_def split: option.splits)

lemma same_data:
  "ws_data a = ws_data b \<Longrightarrow> paint_ws a = paint_ws b"
  "ws_data a = ws_data b \<Longrightarrow> ws_fits bound a = ws_fits bound b"
  "ws_data a = ws_data b \<Longrightarrow> ws_full a = ws_full b"
  by (simp_all add: ws_data_def paint_ws_def ws_bytes_def ws_fits_def ws_full_def)

lemma paint_same_data: "map ws_data xs = map ws_data ys \<Longrightarrow> fold paint_ws xs f = fold paint_ws ys f"
proof (induction xs arbitrary: ys f)
  case (Cons x xs)
  then obtain y ys' where y: "ys = y # ys'" "ws_data x = ws_data y" "map ws_data xs = map ws_data ys'"
    by (cases ys) auto
  then show ?case using Cons.IH [OF y(3)] same_data(1) [OF y(2)] by simp
qed simp

lemma all_same_data:
  assumes P: "\<And>a b. ws_data a = ws_data b \<Longrightarrow> P a = P b" and "map ws_data xs = map ws_data ys"
  shows "(\<forall>x \<in> set xs. P x) \<longleftrightarrow> (\<forall>y \<in> set ys. P y)"
proof -
  have "\<exists>b \<in> set bs. ws_data b = ws_data a" if "map ws_data as = map ws_data bs" "a \<in> set as" for as bs a
    using that by (metis imageE image_eqI list.set_map)
  then show ?thesis using assms by metis
qed

section \<open>A safe write\<close>

lemma write_cache_byte:
  assumes "ordered_index lb ub" and "wc_inv c" and w: "ws_fresh w" "ws_full w" and "wc_safe w c"
  shows "cache_byte (wc_write lb ub w c) f = paint_ws w (cache_byte c f)"
proof
  fix i
  have view: "wc_view (wc_write lb ub w c) b =
      (if ws_lba w \<le> b \<and> b < ws_wtail w then Some (ws_data w) else wc_view c b)" for b
    using ordered_index.write_correct [OF assms(1,2) w(1) assms(5)] by simp
  have "LBA2OFFSET (ws_lba w) \<le> i \<and> i < LBA2OFFSET (ws_lba w) + length (ws_bytes w) \<longleftrightarrow>
      ws_lba w \<le> i div 512 \<and> i div 512 < ws_wtail w"
    using w(2) by (auto simp: ws_full_def ws_wtail_def LBA2OFFSET_eq)
  then show "cache_byte (wc_write lb ub w c) f i = paint_ws w (cache_byte c f) i"
    by (simp add: cache_byte_view view paint_ws_def paint_def ws_data_def ws_bytes_def split: option.splits)
qed

text \<open>The merge loop does not touch the data of what is pending: copies are not pending.\<close>

lemma merge_pending:
  assumes "\<forall>q \<in> set (wc_fifo c). q < wc_next c" and "p < wc_next c"
  shows "map ws_data (wc_pending (wc_merge ub w p c)) = map ws_data (wc_pending c) \<and>
    (\<forall>q \<in> set (wc_fifo (wc_merge ub w p c)). q < wc_next (wc_merge ub w p c)) \<and> wc_next c \<le> wc_next (wc_merge ub w p c)"
proof -
  have keep: "map ws_data (filter (\<lambda>s. \<not> ws_copy s) (map h ps)) = map ws_data (filter (\<lambda>s. \<not> ws_copy s) (map g ps))"
    if "\<And>q. q \<in> set ps \<Longrightarrow> ws_data (h q) = ws_data (g q) \<and> ws_copy (h q) = ws_copy (g q)" for h g :: "nat \<Rightarrow> write_segment" and ps
    using that by (induction ps) auto
  let ?s = "wc_heap c p" and ?q = "wc_next c"
  have new: "?q \<notin> set (wc_fifo c)" using assms(1) by blast
  show ?thesis
  proof (cases "ws_rlba ?s < ws_lba w \<and> ws_lba w + ws_transfer_length w < ws_rlba ?s + ws_rlength ?s")
    case True
    let ?wtail = "ws_lba w + ws_transfer_length w" and ?htail = "ws_rlba ?s + ws_rlength ?s"
    define cs where "cs = (WriteSegment_copy ?s)\<lparr>ws_rlba := ws_lba ?s + ?wtail - ws_rlba ?s, ws_rlength := ?htail - ?wtail\<rparr>"
    define s' where "s' = ?s\<lparr>ws_rlength := ws_rlength ?s - min (?htail - ws_lba w) (ws_rlength ?s)\<rparr>"
    define c1 where "c1 = wc_push_back ub ?q (c\<lparr>wc_heap := (wc_heap c)(?q := cs), wc_next := Suc ?q\<rparr>)"
    have "\<not> (ws_lba w \<le> ws_rlba ?s \<and> ?htail \<le> ?wtail)" using True by auto
    then have m: "wc_merge ub w p c = c1\<lparr>wc_heap := (wc_heap c1)(p := s')\<rparr>"
      using True by (simp only: wc_merge_def Let_def if_True if_False simp_thms cs_def s'_def c1_def)
    have c1: "wc_fifo c1 = wc_fifo c @ [?q]" "wc_heap c1 = (wc_heap c)(?q := cs)" "wc_next c1 = Suc ?q"
      using new by (simp_all add: c1_def wc_push_back_def)
    have "ws_copy cs" "ws_data s' = ws_data ?s" "ws_copy s' = ws_copy ?s"
      by (simp_all add: cs_def s'_def WriteSegment_copy_def ws_data_def)
    moreover from this new assms have "map ws_data (filter (\<lambda>s. \<not> ws_copy s) (map ((wc_heap c)(?q := cs, p := s')) (wc_fifo c))) =
        map ws_data (filter (\<lambda>s. \<not> ws_copy s) (map (wc_heap c) (wc_fifo c)))" by (intro keep) auto
    ultimately show ?thesis using assms by (simp add: m c1 wc_pending_def less_SucI)
  next
    case False
    then obtain s' where "ws_data s' = ws_data ?s" "ws_copy s' = ws_copy ?s" and
      m: "wc_merge ub w p c = c\<lparr>wc_heap := (wc_heap c)(p := s')\<rparr>"
    proof -
      let ?htail = "ws_rlba ?s + ws_rlength ?s" and ?wtail = "ws_lba w + ws_transfer_length w"
      consider "ws_lba w \<le> ws_rlba ?s \<and> ?htail \<le> ?wtail"
        | "\<not> (ws_lba w \<le> ws_rlba ?s \<and> ?htail \<le> ?wtail)" "ws_rlba ?s < ws_lba w \<and> ws_lba w < ?htail \<and> ?htail \<le> ?wtail"
        | "\<not> (ws_lba w \<le> ws_rlba ?s \<and> ?htail \<le> ?wtail)" "\<not> (ws_rlba ?s < ws_lba w \<and> ws_lba w < ?htail \<and> ?htail \<le> ?wtail)"
          "ws_lba w \<le> ws_rlba ?s \<and> ws_rlba ?s < ?wtail \<and> ?wtail < ?htail"
        | "\<not> (ws_lba w \<le> ws_rlba ?s \<and> ?htail \<le> ?wtail)" "\<not> (ws_rlba ?s < ws_lba w \<and> ws_lba w < ?htail \<and> ?htail \<le> ?wtail)"
          "\<not> (ws_lba w \<le> ws_rlba ?s \<and> ws_rlba ?s < ?wtail \<and> ?wtail < ?htail)"
        by blast
      then show ?thesis
      proof cases
        case 1
        with False that [of "?s\<lparr>ws_rlength := 0\<rparr>"] show ?thesis by (simp add: wc_merge_def Let_def ws_data_def)
      next
        case 2
        with False that [of "?s\<lparr>ws_rlength := ws_rlength ?s - min (?htail - ws_lba w) (ws_rlength ?s)\<rparr>"]
        show ?thesis by (simp add: wc_merge_def Let_def ws_data_def)
      next
        case 3
        define step where "step = min (?wtail - ws_rlba ?s) (ws_rlength ?s)"
        from 3 False that [of "?s\<lparr>ws_rlba := ws_rlba ?s + step, ws_rlength := ws_rlength ?s - step\<rparr>"]
        show ?thesis by (simp add: wc_merge_def Let_def ws_data_def step_def)
      next
        case 4
        then have "wc_merge ub w p c = c" using False by (simp only: wc_merge_def Let_def if_False)
        with that [of ?s] show ?thesis by simp
      qed
    qed
    moreover from this have "map ws_data (filter (\<lambda>s. \<not> ws_copy s) (map ((wc_heap c)(p := s')) (wc_fifo c))) =
        map ws_data (filter (\<lambda>s. \<not> ws_copy s) (map (wc_heap c) (wc_fifo c)))" by (intro keep) auto
    ultimately show ?thesis using assms by (simp add: m wc_pending_def)
  qed
qed

lemma merges_pending:
  "\<forall>q \<in> set (wc_fifo c). q < wc_next c \<Longrightarrow> \<forall>p \<in> set hits. p < wc_next c \<Longrightarrow>
     map ws_data (wc_pending (fold (wc_merge ub w) hits c)) = map ws_data (wc_pending c)"
proof (induction hits arbitrary: c)
  case (Cons p hits)
  then show ?case using merge_pending [of c p ub w] Cons.IH [of "wc_merge ub w p c"] by fastforce
qed simp

lemma write_pending:
  assumes "wc_inv c" and "\<not> ws_copy w"
  shows "map ws_data (wc_pending (wc_write lb ub w c)) = map ws_data (wc_pending c) @ [ws_data w]"
proof -
  let ?P = "wc_next c"
  let ?c1 = "c\<lparr>wc_heap := (wc_heap c)(?P := w), wc_next := Suc ?P\<rparr>"
  let ?hits = "wc_search lb ?c1 (ws_lba w) (ws_transfer_length w)"
  let ?m = "fold (wc_merge ub w) ?hits ?c1"
  have P: "?P \<notin> set (wc_lba c)" "?P \<notin> set (wc_fifo c)" and lt: "\<forall>q \<in> set (wc_fifo ?c1). q < wc_next ?c1"
    using assms(1) by (auto simp: wc_inv_def less_SucI)
  have hits: "set ?hits \<subseteq> set (wc_fifo c)"
    using wc_search_subset [of lb ?c1] assms(1) by (auto simp: wc_inv_def)
  have m: "wc_heap ?m ?P = w" "?P \<notin> set (wc_fifo ?m)"
    using fold_wc_merge_frame [of ?P ?hits ?c1 ub w] P hits by auto
  have "map ws_data (wc_pending ?m) = map ws_data (wc_pending ?c1)"
    using hits lt by (intro merges_pending) auto
  also have "wc_pending ?c1 = wc_pending c"
  proof -
    have "map ((wc_heap c)(?P := w)) (wc_fifo c) = map (wc_heap c) (wc_fifo c)" using P by auto
    then show ?thesis by (simp add: wc_pending_def del: map_eq_conv)
  qed
  finally have "map ws_data (wc_pending ?m) = map ws_data (wc_pending c)" .
  moreover have "wc_pending (wc_write lb ub w c) = wc_pending ?m @ [w]"
    using m assms(2) by (simp add: wc_write_def wc_alloc_def wc_push_def wc_push_back_def wc_pending_def Let_def)
  ultimately show ?thesis by simp
qed

section \<open>Runs of safe writes\<close>

text \<open>Writes whose pushes are all safe; new, complete, and inside the volume.\<close>

fun safe_writes ::
  "(nat list \<Rightarrow> nat \<Rightarrow> nat) \<Rightarrow> (nat list \<Rightarrow> nat \<Rightarrow> nat) \<Rightarrow> nat \<Rightarrow> write_segment list \<Rightarrow> write_cache \<Rightarrow> bool" where
  "safe_writes lb ub bound [] c \<longleftrightarrow> True"
| "safe_writes lb ub bound (w # ws) c \<longleftrightarrow>
     ws_fresh w \<and> ws_full w \<and> ws_fits bound w \<and> wc_safe w c \<and> safe_writes lb ub bound ws (wc_write lb ub w c)"

lemma safe_run:
  assumes ix: "ordered_index lb ub"
  shows "safe_writes lb ub bound ws c \<Longrightarrow> wc_inv c \<Longrightarrow> wc_tail_ok c \<Longrightarrow> \<forall>s \<in> set (wc_pending c). ws_fits bound s \<Longrightarrow>
    let c' = fold (wc_write lb ub) ws c
    in wc_inv c' \<and> wc_tail_ok c' \<and> cache_byte c' f = fold paint_ws ws (cache_byte c f) \<and>
       fold paint_ws (wc_pending c') f = fold paint_ws ws (fold paint_ws (wc_pending c) f) \<and>
       (\<forall>s \<in> set (wc_pending c'). ws_fits bound s)"
proof (induction ws arbitrary: c)
  case (Cons w ws)
  let ?c' = "wc_write lb ub w c"
  from Cons.prems have w: "ws_fresh w" "ws_full w" "ws_fits bound w" "wc_safe w c" "safe_writes lb ub bound ws ?c'"
    by simp_all
  have copy: "\<not> ws_copy w" using w(1) by (simp add: ws_fresh_def)
  have pending: "map ws_data (wc_pending ?c') = map ws_data (wc_pending c @ [w])"
    using write_pending [OF Cons.prems(2) copy] by simp
  have "wc_inv ?c'" using ordered_index.write_correct [OF ix Cons.prems(2) w(1,4)] by simp
  moreover have "wc_tail_ok ?c'" using wc_write_tail [OF Cons.prems(2) copy] by blast
  moreover have "\<forall>s \<in> set (wc_pending ?c'). ws_fits bound s"
    using all_same_data [where P = "ws_fits bound", OF same_data(2) pending] Cons.prems(4) w(3) by auto
  ultimately show ?case
    using Cons.IH [OF w(5)] write_cache_byte [OF ix Cons.prems(2) w(1,2,4)] paint_same_data [OF pending, of f]
    by (simp add: Let_def)
qed (simp add: Let_def)

subsection \<open>Aligned writes are safe\<close>

definition write_ok :: "nat \<Rightarrow> nat \<Rightarrow> write_segment \<Rightarrow> bool" where
  "write_ok n bound w \<longleftrightarrow> ws_fresh w \<and> ws_full w \<and> n dvd ws_lba w \<and> ws_transfer_length w = n \<and> ws_fits bound w"

lemma aligned_safe_writes:
  assumes ix: "ordered_index lb ub" and n: "0 < n"
  shows "\<forall>w \<in> set ws. write_ok n bound w \<Longrightarrow> wc_inv c \<Longrightarrow> \<forall>p \<in> set (wc_lba c). ws_aligned n (wc_heap c p) \<Longrightarrow>
    safe_writes lb ub bound ws c"
proof (induction ws arbitrary: c)
  case (Cons w ws)
  then have w: "ws_fresh w" "ws_full w" "n dvd ws_lba w" "ws_transfer_length w = n" "ws_fits bound w"
    by (simp_all add: write_ok_def)
  have safe: "wc_safe w c" by (rule aligned_safe [OF n Cons.prems(3) w(3,4)])
  show ?case
    using Cons.IH [of "wc_write lb ub w c"] Cons.prems safe w ordered_index.write_correct [OF ix Cons.prems(2) w(1) safe]
      aligned_write [OF ix Cons.prems(2) n Cons.prems(3) w(1,3,4)] by simp
qed simp

section \<open>Cache and writer\<close>

text \<open>C1. The write cache refines a flat disk for writes whose pushes are safe: after them, in any number and order,
  overlapping or not, each byte that a read finds through the cache and the files is that of the old contents
  overwritten by the writes one after the other. A drain that succeeds does not change what is read: it leaves the
  cache empty and exactly these bytes in the files, whatever the operating system answers on the way. Writes of one
  size at multiples of it are always safe (\<open>aligned_safe_writes\<close>); pushes that are not safe lose blocks
  (\<open>wc_split_loses_blocks\<close>, \<open>wc_split_resets_offset\<close>).\<close>

theorem drain_invisible_to_reads:
  assumes "ordered_index lb ub" and "lv_ok opener lv"
    and "safe_writes lb ub (LBA2OFFSET (lv_count lv)) ws (WriteCache h 0)"
    and "c = fold (wc_write lb ub) ws (WriteCache h 0)" and "setup_writer opener lv c = Some wr"
    and "doWork pool wr e = DwReturn True c' e'"
  shows "cache_byte c (lv_content opener lv (env_files e)) = fold paint_ws ws (lv_content opener lv (env_files e)) \<and>
    wc_empty c' \<and>
    lv_content opener lv (env_files e') = cache_byte c (lv_content opener lv (env_files e))"
proof -
  let ?f = "lv_content opener lv (env_files e)"
  have "wc_pending (WriteCache h 0) = []" "wc_tail_ok (WriteCache h 0)"
    by (simp_all add: wc_pending_def wc_tail_ok_def) (simp_all add: WriteCache_def)
  from safe_run [OF assms(1,3) wc_inv_WriteCache this(2), of ?f] this(1) have c: "wc_inv c" "wc_tail_ok c"
    "cache_byte c ?f = fold paint_ws ws ?f" "fold paint_ws (wc_pending c) ?f = fold paint_ws ws ?f"
    "\<forall>s \<in> set (wc_pending c). ws_fits (LBA2OFFSET (lv_count lv)) s"
    unfolding assms(4) by (simp_all add: Let_def)
  from drain_paints [OF assms(2,5) c(1,2,5) assms(6)] c(3,4) show ?thesis by simp
qed

text \<open>Four blocks, of which the second and then the last with its neighbour are written again: a split and a cut.\<close>

definition ex_blocks :: "nat \<Rightarrow> nat \<Rightarrow> u8 \<Rightarrow> write_segment" where
  "ex_blocks lba n v = (WriteSegment lba n)\<lparr>ws_cbufs := [\<lparr>cb_bytes = (\<lambda>_. v), cb_size = 512 * n, cb_offset = 0, cb_tail = 512 * n\<rparr>]\<rparr>"

lemma ex_blocks_ok:
  "0 < n \<Longrightarrow> ws_fresh (ex_blocks lba n v)" "ws_full (ex_blocks lba n v)"
  "n < 2 ^ 32 \<Longrightarrow> LBA2OFFSET (lba + n) \<le> bound \<Longrightarrow> ws_fits bound (ex_blocks lba n v)"
  by (simp_all add: ex_blocks_def WriteSegment_def ws_fresh_def ws_full_def ws_fits_def ws_bytes_def LBA2OFFSET_eq)

lemma ex_blocks_bytes: "ws_bytes (ex_blocks lba n v) = replicate (512 * n) v" "ws_lba (ex_blocks lba n v) = lba"
  by (simp_all add: ex_blocks_def WriteSegment_def ws_bytes_def LBA2OFFSET_eq map_replicate_const)

definition ex_overlaps :: "write_segment list" where
  "ex_overlaps = [ex_blocks 0 4 1, ex_blocks 1 1 2, ex_blocks 3 2 3]"

definition ex_filled :: write_cache where
  "ex_filled = fold (wc_write std_lb std_ub) ex_overlaps (WriteCache (\<lambda>_. ex_seg) 0)"

lemma ex_overlaps_safe: "safe_writes std_lb std_ub (LBA2OFFSET (lv_count ex_lv)) ex_overlaps (WriteCache (\<lambda>_. ex_seg) 0)"
proof -
  have "wc_safe (ex_blocks 0 4 1) (WriteCache (\<lambda>_. ex_seg) 0)"
    "wc_safe (ex_blocks 1 1 2) (wc_write std_lb std_ub (ex_blocks 0 4 1) (WriteCache (\<lambda>_. ex_seg) 0))"
    "wc_safe (ex_blocks 3 2 3)
       (wc_write std_lb std_ub (ex_blocks 1 1 2) (wc_write std_lb std_ub (ex_blocks 0 4 1) (WriteCache (\<lambda>_. ex_seg) 0)))"
    by code_simp+
  then show ?thesis by (simp add: ex_overlaps_def ex_blocks_ok ex_lv_def LBA2OFFSET_eq)
qed

lemma drain_invisible_to_reads_witness:
  "\<exists>wr c' e'. setup_writer ex_open ex_lv ex_filled = Some wr \<and>
     doWork (\<lambda>_. POOL_STATE_SOFT) wr (ex_env\<lparr>env_answers := replicate 3584 (Wrote 1)\<rparr>) = DwReturn True c' e' \<and>
     map (lv_content ex_open ex_lv (env_files e')) [100, 600, 1100, 1600, 2100, 3000] = [1, 2, 1, 3, 3, 0]"
proof -
  let ?e = "ex_env\<lparr>env_answers := replicate 3584 (Wrote 1)\<rparr>"
  obtain wr where wr: "setup_writer ex_open ex_lv ex_filled = Some wr"
    using setup_writer_handles [OF ex_lv_ok] by blast
  have start: "wc_pending (WriteCache (\<lambda>_. ex_seg) 0) = []" "wc_tail_ok (WriteCache (\<lambda>_. ex_seg) 0)"
    by (simp_all add: wc_pending_def wc_tail_ok_def) (simp_all add: WriteCache_def)
  from safe_run [OF std.ordered_index_axioms ex_overlaps_safe wc_inv_WriteCache start(2)] start(1)
  have c: "wc_inv ex_filled" "wc_tail_ok ex_filled" by (simp_all add: Let_def ex_filled_def)
  have p: "map ws_data (wc_pending ex_filled) = map ws_data ex_overlaps"
  proof -
    have "wc_inv (wc_write std_lb std_ub (ex_blocks 0 4 1) (WriteCache (\<lambda>_. ex_seg) 0))"
      "wc_inv (wc_write std_lb std_ub (ex_blocks 1 1 2) (wc_write std_lb std_ub (ex_blocks 0 4 1) (WriteCache (\<lambda>_. ex_seg) 0)))"
      by code_simp+
    then show ?thesis
      using start(1) by (simp add: ex_filled_def ex_overlaps_def write_pending wc_inv_WriteCache ex_blocks_def WriteSegment_def)
  qed
  have fits: "\<forall>s \<in> set (wc_pending ex_filled). ws_fits (LBA2OFFSET (lv_count ex_lv)) s \<and> ws_full s"
    using all_same_data [where P = "ws_fits (LBA2OFFSET (lv_count ex_lv))", OF same_data(2) p]
      all_same_data [where P = ws_full, OF same_data(3) p] ex_overlaps_safe by (auto simp: ex_overlaps_def)
  have "map ws_transfer_length (wc_pending ex_filled) = map (fst \<circ> snd) (map ws_data ex_overlaps)"
    unfolding p [symmetric] by (simp add: ws_data_def)
  then have "map ws_transfer_length (wc_pending ex_filled) = [4, 1, 2]"
    by (simp add: ws_data_def ex_overlaps_def ex_blocks_def WriteSegment_def)
  then have "map (\<lambda>s. LBA2OFFSET (ws_transfer_length s)) (wc_pending ex_filled) = map LBA2OFFSET [4, 1, 2]"
    using map_map [of LBA2OFFSET ws_transfer_length "wc_pending ex_filled"] by (simp only: comp_def)
  then have "willing (sum_list (map (\<lambda>s. LBA2OFFSET (ws_transfer_length s)) (wc_pending ex_filled))) (env_answers ?e)"
    by (simp add: willing_def LBA2OFFSET_eq)
  from drain_returns [OF ex_lv_ok wr c fits this] obtain c' e' where
    d: "doWork (\<lambda>_. POOL_STATE_SOFT) wr ?e = DwReturn True c' e'" by blast
  have "lv_content ex_open ex_lv (env_files e') = fold paint_ws ex_overlaps (lv_content ex_open ex_lv (env_files ?e))"
    using drain_invisible_to_reads [OF std.ordered_index_axioms ex_lv_ok ex_overlaps_safe ex_filled_def wr d] by simp
  moreover have "lv_content ex_open ex_lv (env_files ?e) i = 0" for i
    by (simp add: lv_content_def vol_bytes_def ex_env_def split: option.splits)
  ultimately show ?thesis using wr d
    by (auto simp: ex_overlaps_def paint_ws_def paint_def ex_blocks_bytes LBA2OFFSET_eq)
qed

end
