(* ===== verification/AioWriter.thy ===== *)
theory AioWriter
  imports Storage_Correct
begin

text \<open>
  The asynchronous disk writer \<^verbatim>\<open>AioDiskWriter\<close> of \<^verbatim>\<open>include/diskwriter.h\<close> and
  \<^verbatim>\<open>src/diskwriter.cpp\<close>, the one that \<^verbatim>\<open>setupWriters\<close> creates. Its own thread walks the queue of the
  write cache and submits one request per piece of a segment; its listener thread takes the
  completions from the kernel and pops segments from the cache by counting. The kernel's side of the
  context is the list of requests in flight and the list of completions that nobody has taken yet. A
  round of the writer is one step: that the listener looks at the counts between \<^verbatim>\<open>io_submit\<close> and the
  push of the new count is not modelled.
\<close>

section \<open>Requests and state\<close>

record iocb =
  io_fd :: int
  io_mem :: "nat \<Rightarrow> u8"
  io_buf :: nat
  io_nbytes :: nat
  io_offset :: nat

definition IOCB_MAX :: nat where "IOCB_MAX = 64"

text \<open>\<open>aw_flight\<close> and \<open>aw_events\<close> belong to the kernel; an event is a request with its result, an error
  being a number that no request has as its length.\<close>

record aio_writer = disk_writer +
  aw_sizes :: "nat list"
  aw_total :: u64
  aw_current :: "ws_ptr option"
  aw_flight :: "iocb list"
  aw_events :: "(iocb \<times> nat) list"

definition AioDiskWriter :: "disk_writer \<Rightarrow> aio_writer" where
  "AioDiskWriter base = disk_writer.extend base
     \<lparr>aw_sizes = [], aw_total = 0, aw_current = None, aw_flight = [], aw_events = []\<rparr>"

section \<open>Submitting a segment\<close>

text \<open>The inner loop over one buffer, as \<open>dw_fill\<close> but collecting requests. The array has room for
  \<^verbatim>\<open>IOCB_MAX\<close> requests and the loop does not test it: \<open>None\<close> is a store behind its end.\<close>

function aio_fill ::
  "(nat \<Rightarrow> nat \<Rightarrow> int \<times> nat \<times> nat) \<Rightarrow> (nat \<Rightarrow> u8) \<Rightarrow> nat \<Rightarrow> nat \<Rightarrow> nat \<Rightarrow> iocb list \<Rightarrow>
     (bool \<times> nat \<times> iocb list) option" where
  "aio_fill gh mem buf start seg ios =
     (if seg = 0 then Some (True, start, ios)
      else let (fd, cov, real) = gh start seg
           in if fd = INVALID_HANDLE_VALUE \<or> cov = 0 \<or> seg < cov then Some (False, start, ios)
              else if IOCB_MAX \<le> length ios then None
              else aio_fill gh mem (buf + cov) (start + cov) (seg - cov)
                     (ios @ [\<lparr>io_fd = fd, io_mem = mem, io_buf = buf, io_nbytes = cov, io_offset = real\<rparr>]))"
  by pat_completeness auto
termination by (relation "measure (\<lambda>(gh, mem, buf, start, seg, ios). seg)") auto

declare aio_fill.simps [simp del]

text \<open>The \<^verbatim>\<open>for\<close> loop over the buffers, which also ends when the array is full.\<close>

fun aio_bufs ::
  "(nat \<Rightarrow> nat \<Rightarrow> int \<times> nat \<times> nat) \<Rightarrow> nat \<Rightarrow> common_buf list \<Rightarrow> nat \<Rightarrow> nat \<Rightarrow> iocb list \<Rightarrow>
     (bool \<times> nat \<times> iocb list) option" where
  "aio_bufs gh ds [] start n ios = Some (True, n, ios)"
| "aio_bufs gh ds (b # bs) start n ios =
     (if \<not> length ios < IOCB_MAX then Some (True, n, ios)
      else let seg = min n (sub64 (cb_size b) ds)
           in case aio_fill gh (cb_bytes b) ds start seg ios of
                None \<Rightarrow> None
              | Some (ok, start', ios') \<Rightarrow>
                  if ok then aio_bufs gh 0 bs start' (n - seg) ios' else Some (False, n - seg, ios'))"

text \<open>The requests of a segment; the inner \<open>None\<close> stands for the four \<^verbatim>\<open>return false\<close>.\<close>

definition aio_segment ::
  "(nat \<Rightarrow> nat \<Rightarrow> int \<times> nat \<times> nat) \<Rightarrow> write_segment \<Rightarrow> iocb list option option" where
  "aio_segment gh ws =
     (case aio_bufs gh (ws_ds_offset ws) (ws_cbufs ws) (LBA2OFFSET (ws_lba ws))
             (LBA2OFFSET (ws_transfer_length ws)) [] of
        None \<Rightarrow> None
      | Some (ok, n, ios) \<Rightarrow> Some (if ok \<and> n = 0 \<and> length ios < IOCB_MAX then Some ios else None))"

text \<open>One round of the loop of \<^verbatim>\<open>doWork\<close>: it is over, it goes on, it returns \<^verbatim>\<open>false\<close>, or it uses a
  null pointer, leaves the array or throws. \<open>k\<close> is how many requests \<^verbatim>\<open>io_submit\<close> accepts; the code does
  not look at it.\<close>

datatype aio_result = AioDone aio_writer | AioNext aio_writer | AioFailed aio_writer | AioUndefined

definition aio_round :: "nat \<Rightarrow> aio_writer \<Rightarrow> aio_result" where
  "aio_round k w =
     (if \<not> unat (aw_total w) < IOCB_MAX then AioDone w
      else case wc_getNext (aw_current w) (dw_wc w) of
        None \<Rightarrow> AioUndefined
      | Some ((found, cur), c) \<Rightarrow>
          let w1 = w\<lparr>aw_current := cur, dw_wc := c\<rparr>
          in if \<not> found then AioDone w1
             else case cur of
               None \<Rightarrow> AioUndefined
             | Some p \<Rightarrow>
                 (case aio_segment (getHandle (dw_handles w)) (wc_heap c p) of
                    None \<Rightarrow> AioUndefined
                  | Some None \<Rightarrow> AioFailed w1
                  | Some (Some ios) \<Rightarrow>
                      (case num_add 128 (of_nat (length ios)) (aw_total w) of
                         (Inl _, _) \<Rightarrow> AioUndefined
                       | (Inr _, tot) \<Rightarrow>
                           AioNext (w1\<lparr>aw_flight := aw_flight w @ take k ios,
                                       aw_sizes := aw_sizes w @ [length ios], aw_total := tot\<rparr>))))"

text \<open>\<^verbatim>\<open>doWork\<close>, with one answer of \<^verbatim>\<open>io_submit\<close> for each round; \<open>None\<close> when they do not suffice.\<close>

fun aio_loop :: "nat list \<Rightarrow> aio_writer \<Rightarrow> aio_result option" where
  "aio_loop [] w = None"
| "aio_loop (k # ks) w = (case aio_round k w of AioNext w1 \<Rightarrow> aio_loop ks w1 | r \<Rightarrow> Some r)"

definition aio_doWork :: "nat list \<Rightarrow> aio_writer \<Rightarrow> aio_result option" where
  "aio_doWork ks w = (if wc_empty (dw_wc w) then Some (AioDone w) else aio_loop ks w)"

section \<open>Completions\<close>

text \<open>The kernel carries out a request and reports \<open>res\<close>.\<close>

definition io_perform :: "iocb \<Rightarrow> files \<Rightarrow> files" where
  "io_perform io fs = pwrite_files fs (io_fd io) (io_offset io) (io_mem io) (io_buf io) (io_nbytes io)"

text \<open>The listener's handling of one event, the body of the \<^verbatim>\<open>for\<close> loop: the flag tells whether it goes on;
  \<open>None\<close> when \<^verbatim>\<open>front\<close> is asked of an empty queue, the cache has no segment to pop, or the counter
  throws. The count in front is decremented whatever segment the event belongs to.\<close>

definition aio_event ::
  "(nat \<Rightarrow> pool_state) \<Rightarrow> iocb \<times> nat \<Rightarrow> aio_writer \<Rightarrow> dw_env \<Rightarrow> (bool \<times> aio_writer \<times> dw_env) option" where
  "aio_event pool ev w e =
     (case aw_sizes w of
        [] \<Rightarrow> None
      | n # ns \<Rightarrow>
          if io_nbytes (fst ev) \<noteq> snd ev then Some (False, w, e)
          else let n1 = sub64 n 1;
                   popped = (if n1 = 0
                     then (case wc_front (dw_wc w) of
                             Some (Some p, c) \<Rightarrow>
                               let (need, e1) = needNotify pool e
                               in Some (w\<lparr>dw_wc := wc_pop c, aw_sizes := ns\<rparr>,
                                        if need then e1\<lparr>env_notified := Suc (env_notified e1)\<rparr> else e1)
                           | _ \<Rightarrow> None)
                     else Some (w\<lparr>aw_sizes := n1 # ns\<rparr>, e))
               in case popped of
                    None \<Rightarrow> None
                  | Some (w1, e1) \<Rightarrow>
                      (case num_dec 0 (aw_total w1) of
                         (Inl _, _) \<Rightarrow> None
                       | (Inr _, tot) \<Rightarrow> Some (True, w1\<lparr>aw_total := tot\<rparr>, e1)))"

text \<open>The events of one \<^verbatim>\<open>io_getevents\<close>.\<close>

fun aio_events ::
  "(nat \<Rightarrow> pool_state) \<Rightarrow> (iocb \<times> nat) list \<Rightarrow> aio_writer \<Rightarrow> dw_env \<Rightarrow> (bool \<times> aio_writer \<times> dw_env) option" where
  "aio_events pool [] w e = Some (True, w, e)"
| "aio_events pool (ev # evs) w e =
     (case aio_event pool ev w e of
        None \<Rightarrow> None
      | Some (ok, w1, e1) \<Rightarrow> if ok then aio_events pool evs w1 e1 else Some (False, w1, e1))"

text \<open>\<^verbatim>\<open>doListenerWork\<close> takes events while segments are outstanding, until a second passes without one.
  Each \<^verbatim>\<open>io_getevents\<close> takes the first \<open>m\<close> completions that the kernel has queued, \<open>0\<close> at the timeout.
  The pool is released at the end when \<^verbatim>\<open>needNotify\<close> has said so.\<close>

definition aio_release :: "nat \<Rightarrow> dw_env \<Rightarrow> dw_env" where
  "aio_release n0 e = (if n0 < env_notified e then e\<lparr>env_released := Suc (env_released e)\<rparr> else e)"

fun aio_listen ::
  "(nat \<Rightarrow> pool_state) \<Rightarrow> nat \<Rightarrow> nat list \<Rightarrow> aio_writer \<Rightarrow> dw_env \<Rightarrow> (bool \<times> aio_writer \<times> dw_env) option" where
  "aio_listen pool n0 [] w e = None"
| "aio_listen pool n0 (m # ms) w e =
     (if aw_sizes w = [] then Some (True, w, aio_release n0 e)
      else let evs = take (min m IOCB_MAX) (aw_events w)
           in if evs = [] then Some (True, w, aio_release n0 e)
              else case aio_events pool evs (w\<lparr>aw_events := drop (length evs) (aw_events w)\<rparr>) e of
                     None \<Rightarrow> None
                   | Some (ok, w1, e1) \<Rightarrow> if ok then aio_listen pool n0 ms w1 e1 else Some (False, w1, e1))"

definition doListenerWork ::
  "(nat \<Rightarrow> pool_state) \<Rightarrow> nat list \<Rightarrow> aio_writer \<Rightarrow> dw_env \<Rightarrow> (bool \<times> aio_writer \<times> dw_env) option" where
  "doListenerWork pool ms w e = aio_listen pool (env_notified e) ms w e"

end
