(* ===== verification/Aio_Correct.thy ===== *)
theory Aio_Correct
  imports AioWriter
begin

text \<open>
  The asynchronous writer counts correctly and writes everything: runs of its two threads, the kernel and
  the pushing sessions in any order, with the invariant that the counters agree with the requests that
  are under way, and that the files hold all submitted segments but for the requests in flight.
\<close>

section \<open>The pieces of a segment\<close>

definition io_bytes :: "iocb \<Rightarrow> u8 list" where
  "io_bytes io = map (io_mem io) [io_buf io..<io_buf io + io_nbytes io]"

lemma length_io_bytes [simp]: "length (io_bytes io) = io_nbytes io"
  by (simp add: io_bytes_def)

text \<open>Requests that follow one another from a volume address on, each with its address.\<close>

fun chain :: "nat \<Rightarrow> iocb list \<Rightarrow> (nat \<times> iocb) list" where
  "chain start [] = []"
| "chain start (io # ios) = (start, io) # chain (start + io_nbytes io) ios"

lemma chain_append:
  "chain start (xs @ ys) = chain start xs @ chain (start + length (concat (map io_bytes xs))) ys"
  by (induction xs arbitrary: start) (simp_all add: add.assoc)

lemma map_snd_chain [simp]: "map snd (chain start ios) = ios"
  by (induction ios arbitrary: start) simp_all

text \<open>A request lies in the files where the volume has its address.\<close>

definition io_located :: "(nat \<Rightarrow> (int \<times> nat) option) \<Rightarrow> nat \<times> iocb \<Rightarrow> bool" where
  "io_located loc p \<longleftrightarrow> 0 < io_nbytes (snd p) \<and>
     (\<forall>k < io_nbytes (snd p). loc (fst p + k) = Some (io_fd (snd p), io_offset (snd p) + k))"

definition paint_io :: "nat \<times> iocb \<Rightarrow> (nat \<Rightarrow> u8) \<Rightarrow> nat \<Rightarrow> u8" where
  "paint_io p = paint (fst p) (io_bytes (snd p))"

lemma paint_chain: "fold paint_io (chain start ios) f = paint start (concat (map io_bytes ios)) f"
proof (induction ios arbitrary: start f)
  case (Cons io ios)
  then show ?case using paint_append [of start "io_bytes io" "concat (map io_bytes ios)" f]
    by (simp add: paint_io_def)
qed simp

lemma chain_range:
  "p \<in> set (chain start ios) \<Longrightarrow>
     start \<le> fst p \<and> fst p + io_nbytes (snd p) \<le> start + length (concat (map io_bytes ios))"
  by (induction ios arbitrary: start) fastforce+

context extents
begin

lemma aio_fill_pieces:
  "start + seg \<le> bound \<Longrightarrow> aio_fill gh mem buf start seg ios = Some (True, s', ios') \<Longrightarrow>
     s' = start + seg \<and> (\<exists>new. ios' = ios @ new \<and> (\<forall>p \<in> set (chain start new). io_located loc p) \<and>
       concat (map io_bytes new) = map mem [buf..<buf + seg])"
proof (induction seg arbitrary: buf start ios rule: less_induct)
  case (less seg)
  show ?case
  proof (cases "seg = 0")
    case True
    then show ?thesis using less.prems by (simp add: aio_fill.simps [of gh mem buf start 0 ios])
  next
    case False
    with gh_loc [of seg start] less.prems(1) obtain fd cov r where
      g: "gh start seg = (fd, cov, r)" "fd \<noteq> INVALID_HANDLE_VALUE" "0 < cov" "cov \<le> seg"
      "\<forall>k < cov. loc (start + k) = Some (fd, r + k)" by auto
    define io where "io = \<lparr>io_fd = fd, io_mem = mem, io_buf = buf, io_nbytes = cov, io_offset = r\<rparr>"
    have rest: "aio_fill gh mem (buf + cov) (start + cov) (seg - cov) (ios @ [io]) = Some (True, s', ios')"
      using less.prems(2) g False
      by (subst (asm) aio_fill.simps) (auto simp: Let_def io_def split: if_splits)
    have b: "start + cov + (seg - cov) \<le> bound" "seg - cov < seg" using g less.prems(1) by auto
    from less.IH [OF b(2,1) rest] obtain new where new: "s' = start + seg" "ios' = ios @ io # new"
      "\<forall>p \<in> set (chain (start + cov) new). io_located loc p"
      "concat (map io_bytes new) = map mem [buf + cov..<buf + cov + (seg - cov)]" using g(4) by auto
    have "map mem [buf..<buf + seg] = map mem [buf..<buf + cov] @ map mem [buf + cov..<buf + cov + (seg - cov)]"
      using g(4) upt_add_eq_append [of buf "buf + cov" "seg - cov"] by simp
    then have "concat (map io_bytes (io # new)) = map mem [buf..<buf + seg]"
      using new(4) by (simp add: io_bytes_def io_def)
    moreover have "\<forall>p \<in> set (chain start (io # new)). io_located loc p"
      using new(3) g(3,5) by (simp add: io_located_def io_def)
    ultimately show ?thesis using new(1,2) by blast
  qed
qed

lemma aio_bufs_pieces:
  "bufs_ok ds bs \<Longrightarrow> start + n \<le> bound \<Longrightarrow> aio_bufs gh ds bs start n ios = Some (True, 0, ios') \<Longrightarrow>
     n \<le> length (ws_pieces ds bs) \<and> (\<exists>new. ios' = ios @ new \<and> (\<forall>p \<in> set (chain start new). io_located loc p) \<and>
       concat (map io_bytes new) = take n (ws_pieces ds bs))"
proof (induction ds bs arbitrary: start n ios rule: bufs_ok.induct)
  case (2 ds b bs)
  show ?case
  proof (cases "length ios < IOCB_MAX")
    case False
    then show ?thesis using 2(4) by auto
  next
    case True
    define z where "z = cb_size b - ds"
    define seg where "seg = min n z"
    have sub: "sub64 (cb_size b) ds = z" using 2(2) by (simp add: z_def)
    with 2(4) True obtain s1 ios1 where
      f: "aio_fill gh (cb_bytes b) ds start seg ios = Some (True, s1, ios1)"
      and rest: "aio_bufs gh 0 bs s1 (n - seg) ios1 = Some (True, 0, ios')"
      by (auto simp: Let_def seg_def split: option.splits if_splits)
    have le: "start + seg \<le> bound" using 2(3) by (simp add: seg_def)
    from aio_fill_pieces [OF le f] obtain a where a: "s1 = start + seg" "ios1 = ios @ a"
      "\<forall>p \<in> set (chain start a). io_located loc p" "concat (map io_bytes a) = map (cb_bytes b) [ds..<ds + seg]"
      by blast
    have "start + seg + (n - seg) \<le> bound" using 2(3) by (simp add: seg_def)
    with 2(1) [OF _ _ rest] 2(2) a(1) obtain c where c: "n - seg \<le> length (ws_pieces 0 bs)" "ios' = ios1 @ c"
      "\<forall>p \<in> set (chain s1 c). io_located loc p" "concat (map io_bytes c) = take (n - seg) (ws_pieces 0 bs)"
      by auto
    have t: "take n (ws_pieces ds (b # bs)) =
        map (cb_bytes b) [ds..<ds + seg] @ take (n - seg) (ws_pieces 0 bs)"
      using 2(2) by (auto simp: seg_def z_def min_def take_map)
    have "\<forall>p \<in> set (chain start (a @ c)). io_located loc p"
      using a(1,3,4) c(3) by (auto simp: chain_append)
    moreover have "n \<le> length (ws_pieces ds (b # bs))" using c(1) by (auto simp: seg_def z_def)
    ultimately show ?thesis using a(2,4) c(2,4) t by (intro conjI exI [of _ "a @ c"]) auto
  qed
qed auto

lemma aio_segment_pieces:
  assumes "ws_fits bound s" and "aio_segment gh s = Some (Some ios)"
  shows "ws_full s \<and> length ios < IOCB_MAX \<and> concat (map io_bytes ios) = ws_bytes s \<and>
    (\<forall>p \<in> set (chain (LBA2OFFSET (ws_lba s)) ios). io_located loc p)"
proof -
  from assms(2) have
    "aio_bufs gh (ws_ds_offset s) (ws_cbufs s) (LBA2OFFSET (ws_lba s)) (LBA2OFFSET (ws_transfer_length s)) [] =
      Some (True, 0, ios)" "length ios < IOCB_MAX" by (auto simp: aio_segment_def split: option.splits if_splits)
  from aio_bufs_pieces [OF _ _ this(1)] this(2) assms(1) show ?thesis
    by (auto simp: ws_fits_def LBA2OFFSET_add ws_full_def ws_bytes_def)
qed

lemma vol_perform:
  assumes "io_located loc p" and "fst p + io_nbytes (snd p) \<le> bound"
  shows "vol_bytes loc bound (io_perform (snd p) fs) = paint_io p (vol_bytes loc bound fs)"
  using vol_pwrite [OF _ assms(2)] assms(1) unfolding io_located_def io_perform_def paint_io_def io_bytes_def by blast

end

section \<open>The queue under aligned writes\<close>

definition ws_key :: "write_segment \<Rightarrow> nat \<times> nat \<times> nat \<times> common_buf list" where
  "ws_key s = (ws_lba s, ws_transfer_length s, ws_ds_offset s, ws_cbufs s)"

lemma ws_key_trim [simp]: "ws_key (ws_trim w s) = ws_key s"
  by (simp add: ws_key_def ws_trim_def)

lemma paint_ws_key: "ws_key s = ws_key t \<Longrightarrow> paint_ws s = paint_ws t"
  by (simp add: ws_key_def paint_ws_def ws_bytes_def)

lemma paints_key: "map ws_key ss = map ws_key ts \<Longrightarrow> fold paint_ws ss f = fold paint_ws ts f"
proof (induction ss arbitrary: ts f)
  case (Cons s ss)
  then obtain t ts' where "ts = t # ts'" by (cases ts) auto
  with Cons paint_ws_key [of s t] show ?case by auto
qed simp

definition queue_ok :: "nat \<Rightarrow> nat \<Rightarrow> write_cache \<Rightarrow> bool" where
  "queue_ok n bound c \<longleftrightarrow> wc_inv c \<and> (\<forall>p \<in> set (wc_lba c). ws_aligned n (wc_heap c p)) \<and>
     (\<forall>p \<in> set (wc_fifo c). \<not> ws_copy (wc_heap c p) \<and> ws_fits bound (wc_heap c p) \<and>
        ws_transfer_length (wc_heap c p) = n)"

abbreviation queued :: "write_cache \<Rightarrow> write_segment list" where
  "queued c \<equiv> map (wc_heap c) (wc_fifo c)"

lemma queue_ok_new: "queue_ok n bound (WriteCache h i)"
  using wc_inv_WriteCache [of h i] by (simp add: queue_ok_def) (simp add: WriteCache_def)

lemma queue_ok_write:
  assumes ix: "ordered_index lb ub" and n: "0 < n" and q: "queue_ok n bound c" and s: "write_ok n bound s"
  shows "queue_ok n bound (wc_write lb ub s c)" and "wc_fifo (wc_write lb ub s c) = wc_fifo c @ [wc_next c]"
    and "map ws_key (queued (wc_write lb ub s c)) = map ws_key (queued c) @ [ws_key s]"
    and "wc_next (wc_write lb ub s c) = Suc (wc_next c)"
proof -
  have inv: "wc_inv c" and al: "\<forall>p \<in> set (wc_lba c). ws_aligned n (wc_heap c p)" using q by (auto simp: queue_ok_def)
  have w: "ws_fresh s" "n dvd ws_lba s" "ws_transfer_length s = n" using s by (auto simp: write_ok_def)
  have pos: "0 < ws_transfer_length s" using n w by simp
  have no: "\<forall>p \<in> set (wc_lba c). \<not> ws_split s (wc_heap c p)" using al aligned_trim [OF n _ w(2,3)] by blast
  note st = whole_write_state [OF ix inv pos no]
  have lba: "set (wc_lba c) = set (wc_fifo c)" "wc_next c \<notin> set (wc_fifo c)" using inv by (auto simp: wc_inv_def)
  show "wc_fifo (wc_write lb ub s c) = wc_fifo c @ [wc_next c]" "wc_next (wc_write lb ub s c) = Suc (wc_next c)"
    using st by simp_all
  show "map ws_key (queued (wc_write lb ub s c)) = map ws_key (queued c) @ [ws_key s]"
    using lba by (auto simp: st(1,2))
  have "wc_inv (wc_write lb ub s c)"
    using ordered_index.write_correct [OF ix inv w(1) aligned_safe [OF n al w(2,3)]] by simp
  moreover have "\<forall>p \<in> set (wc_lba (wc_write lb ub s c)). ws_aligned n (wc_heap (wc_write lb ub s c) p)"
    by (rule aligned_write [OF ix inv n al w])
  moreover have "ws_transfer_length (ws_trim s t) = ws_transfer_length t" for t by (simp add: ws_trim_def)
  ultimately show "queue_ok n bound (wc_write lb ub s c)"
    using q s lba by (auto simp: queue_ok_def st(1,2) write_ok_def ws_fresh_def)
qed

lemma queue_ok_pop:
  assumes "queue_ok n bound c" and "wc_fifo c = p # ps"
  shows "wc_front c = Some (Some p, c)" and "queue_ok n bound (wc_pop c)"
    and "wc_fifo (wc_pop c) = ps" and "wc_next (wc_pop c) = wc_next c"
proof -
  show "wc_front c = Some (Some p, c)" using assms by (simp add: wc_front_def queue_ok_def)
  show "queue_ok n bound (wc_pop c)" using assms wc_inv_drop [of c p ps]
    by (auto simp: queue_ok_def wc_pop_def wc_drop_def dest: subsetD [OF set_remove1_subset])
qed (use assms in \<open>simp_all add: wc_pop_def wc_drop_def\<close>)

section \<open>Counting requests\<close>

definition counts_ok :: "aio_writer \<Rightarrow> bool" where
  "counts_ok w \<longleftrightarrow> (\<forall>k \<in> set (aw_sizes w). 0 < k) \<and> unat (aw_total w) = sum_list (aw_sizes w) \<and>
     sum_list (aw_sizes w) = length (aw_flight w) + length (aw_events w) \<and> sum_list (aw_sizes w) < 2 * IOCB_MAX \<and>
     length (aw_sizes w) \<le> length (wc_fifo (dw_wc w)) \<and>
     (if aw_sizes w = [] then \<forall>p. aw_current w = Some p \<longrightarrow> p < wc_next (dw_wc w) \<and> p \<notin> set (wc_fifo (dw_wc w))
      else aw_current w = Some (wc_fifo (dw_wc w) ! (length (aw_sizes w) - 1))) \<and>
     (\<forall>ev \<in> set (aw_events w). snd ev = io_nbytes (fst ev))"

lemma dropWhile_nth:
  "distinct xs \<Longrightarrow> j < length xs \<Longrightarrow> dropWhile (\<lambda>q. q \<noteq> xs ! j) xs = drop j xs"
proof (induction xs arbitrary: j)
  case (Cons x xs)
  then show ?case by (cases j) auto
qed simp

lemma dropWhile_none: "\<forall>x \<in> set xs. \<not> P x \<Longrightarrow> dropWhile P xs = xs"
  by (cases xs) auto

lemma getNext_counts:
  assumes "counts_ok w" and q: "queue_ok n bound (dw_wc w)"
  defines "k \<equiv> length (aw_sizes w)" and "c \<equiv> dw_wc w"
  shows "wc_getNext (aw_current w) c =
    (if k < length (wc_fifo c) then Some ((True, Some (wc_fifo c ! k)), c) else Some ((False, aw_current w), c))"
proof (cases "wc_fifo c")
  case Nil
  then show ?thesis by (simp add: wc_getNext_def)
next
  case (Cons p ps)
  have f: "wc_front c = Some (Some p, c)" using queue_ok_pop(1) q Cons by (simp add: c_def)
  have d: "distinct (wc_fifo c)" using q by (simp add: queue_ok_def wc_inv_def c_def)
  show ?thesis
  proof (cases "aw_sizes w = []")
    case True
    then show ?thesis using assms(1) f Cons
      by (cases "aw_current w") (auto simp: wc_getNext_def counts_ok_def k_def c_def)
  next
    case False
    then obtain j where j: "k = Suc j" by (cases k) (auto simp: k_def)
    have jl: "j < length (wc_fifo c)" and cur: "aw_current w = Some (wc_fifo c ! j)"
      using assms(1) False j by (auto simp: counts_ok_def k_def c_def)
    have "tl (dropWhile (\<lambda>q. q \<noteq> wc_fifo c ! j) (wc_fifo c)) = drop k (wc_fifo c)"
      unfolding dropWhile_nth [OF d jl] j by (simp add: drop_Suc tl_drop)
    moreover have "dropWhile (\<lambda>q. ws_copy (wc_heap c q)) (drop k (wc_fifo c)) = drop k (wc_fifo c)"
      using q by (intro dropWhile_none) (auto simp: queue_ok_def c_def dest: in_set_dropD)
    moreover have "drop k (wc_fifo c) = (if k < length (wc_fifo c) then wc_fifo c ! k # drop (Suc k) (wc_fifo c) else [])"
      by (simp add: Cons_nth_drop_Suc)
    moreover have "wc_fifo c ! j \<in> set (wc_fifo c)" by (rule nth_mem [OF jl])
    moreover have "wc_fifo c \<noteq> []" using Cons by simp
    ultimately show ?thesis using cur by (simp add: wc_getNext_def)
  qed
qed

text \<open>One round of the writer's loop: the next segment of the queue is submitted.\<close>

lemma num_add_below: "unat t < 64 \<Longrightarrow> k < 64 \<Longrightarrow> \<exists>v. num_add 128 (of_nat k) t = (Inr v, v) \<and> unat v = unat t + k"
  by (simp add: num_add_def Let_def word_le_nat_alt unat_word_ariths unat_of_nat)

lemma num_dec_above: "0 < unat t \<Longrightarrow> \<exists>v. num_dec 0 t = (Inr v, v) \<and> unat v = unat t - 1"
  by (auto simp: num_dec_def Let_def unat_minus_one)

definition submitted :: "nat \<Rightarrow> ws_ptr \<Rightarrow> iocb list \<Rightarrow> aio_writer \<Rightarrow> aio_writer \<Rightarrow> bool" where
  "submitted k p ios w w' \<longleftrightarrow> dw_handles w' = dw_handles w \<and> dw_wc w' = dw_wc w \<and>
     aw_current w' = Some p \<and> aw_flight w' = aw_flight w @ take k ios \<and> aw_events w' = aw_events w \<and>
     aw_sizes w' = aw_sizes w @ [length ios] \<and> unat (aw_total w') = unat (aw_total w) + length ios"

lemma aio_round_next:
  assumes c: "counts_ok w" and q: "queue_ok n bound (dw_wc w)"
    and r: "aio_round k w = AioNext w'"
  shows "\<exists>p ios. length (aw_sizes w) < length (wc_fifo (dw_wc w)) \<and> p = wc_fifo (dw_wc w) ! length (aw_sizes w) \<and>
    unat (aw_total w) < IOCB_MAX \<and>
    aio_segment (getHandle (dw_handles w)) (wc_heap (dw_wc w) p) = Some (Some ios) \<and> submitted k p ios w w'"
proof -
  let ?k = "length (aw_sizes w)"
  have less: "unat (aw_total w) < IOCB_MAX" "?k < length (wc_fifo (dw_wc w))"
    using r getNext_counts [OF c q] by (auto simp: aio_round_def split: if_splits)
  let ?p = "wc_fifo (dw_wc w) ! ?k"
  from r less getNext_counts [OF c q] obtain ios v v' where
    s: "aio_segment (getHandle (dw_handles w)) (wc_heap (dw_wc w) ?p) = Some (Some ios)"
    and a: "num_add 128 (of_nat (length ios)) (aw_total w) = (Inr v, v')"
    and w': "w' = w\<lparr>aw_current := Some ?p, aw_flight := aw_flight w @ take k ios,
      aw_sizes := aw_sizes w @ [length ios], aw_total := v'\<rparr>"
    by (auto simp: aio_round_def Let_def split: option.splits prod.splits sum.splits)
  have "length ios < 64" using s by (auto simp: aio_segment_def IOCB_MAX_def split: option.splits if_splits)
  with num_add_below [of "aw_total w" "length ios"] less(1) a
  have "unat v' = unat (aw_total w) + length ios" by (auto simp: IOCB_MAX_def)
  with s w' less show ?thesis by (auto simp: submitted_def)
qed

lemma counts_submit:
  assumes c: "counts_ok w" and s: "submitted k p ios w w'" and p: "p = wc_fifo (dw_wc w) ! length (aw_sizes w)"
    and l: "length (aw_sizes w) < length (wc_fifo (dw_wc w))" "unat (aw_total w) < IOCB_MAX"
    and ios: "ios \<noteq> []" "length ios < IOCB_MAX" "length ios \<le> k"
  shows "counts_ok w'"
  using c s p l ios by (auto simp: counts_ok_def submitted_def)

text \<open>Handling an event: the count in front goes down, and at zero the front of the queue is popped.\<close>

lemma aio_event_result:
  assumes c: "counts_ok w" and q: "queue_ok n bound (dw_wc w)" and ev: "aw_events w = xs @ ev # ys"
  shows "\<exists>k ks w' e'. aw_sizes w = k # ks \<and>
    aio_event pool ev (w\<lparr>aw_events := xs @ ys\<rparr>) e = Some (True, w', e') \<and> env_files e' = env_files e \<and>
    dw_handles w' = dw_handles w \<and> aw_current w' = aw_current w \<and> aw_flight w' = aw_flight w \<and>
    aw_events w' = xs @ ys \<and> unat (aw_total w') = unat (aw_total w) - 1 \<and>
    (if k = 1 then aw_sizes w' = ks \<and> dw_wc w' = wc_pop (dw_wc w)
     else aw_sizes w' = (k - 1) # ks \<and> dw_wc w' = dw_wc w)"
proof -
  from c ev have pos: "0 < sum_list (aw_sizes w)" by (auto simp: counts_ok_def)
  then obtain k ks where k: "aw_sizes w = k # ks" by (cases "aw_sizes w") auto
  have kb: "0 < k" "k < 2 ^ 64" using c k by (auto simp: counts_ok_def IOCB_MAX_def)
  have full: "io_nbytes (fst ev) = snd ev" using c ev by (auto simp: counts_ok_def)
  obtain p ps where f: "wc_fifo (dw_wc w) = p # ps"
    using c k by (cases "wc_fifo (dw_wc w)") (auto simp: counts_ok_def)
  note front = queue_ok_pop(1) [OF q f]
  obtain need e1 where nn: "needNotify pool e = (need, e1)" by fastforce
  have d: "\<exists>v. num_dec 0 (aw_total w) = (Inr v, v) \<and> unat v = unat (aw_total w) - 1"
    using num_dec_above [of "aw_total w"] pos c unfolding counts_ok_def by metis
  show ?thesis
    using d k kb full front nn needNotify_frame [OF nn] by (auto simp: aio_event_def Let_def)
qed

lemma counts_event:
  assumes c: "counts_ok w" and q: "queue_ok n bound (dw_wc w)" and ev: "aw_events w = xs @ ev # ys"
    and k: "aw_sizes w = k # ks"
    and w': "aw_current w' = aw_current w" "aw_flight w' = aw_flight w" "aw_events w' = xs @ ys"
      "unat (aw_total w') = unat (aw_total w) - 1"
      "if k = 1 then aw_sizes w' = ks \<and> dw_wc w' = wc_pop (dw_wc w)
       else aw_sizes w' = (k - 1) # ks \<and> dw_wc w' = dw_wc w"
  shows "counts_ok w'"
proof (cases "k = 1")
  case False
  then show ?thesis using c ev k w' by (auto simp: counts_ok_def)
next
  case True
  obtain p ps where f: "wc_fifo (dw_wc w) = p # ps"
    using c k by (cases "wc_fifo (dw_wc w)") (auto simp: counts_ok_def)
  have "distinct (p # ps)" "p < wc_next (dw_wc w)" using q f by (auto simp: queue_ok_def wc_inv_def)
  then show ?thesis using c ev k w' True f queue_ok_pop(3,4) [OF q f]
    by (cases ks) (auto simp: counts_ok_def)
qed

section \<open>Runs of the writer\<close>

text \<open>Both threads of the writer, the kernel and the sessions that push: a write of \<open>n\<close> aligned blocks is
  pushed; a round submits a segment, all of its requests being accepted; the kernel carries out any
  request in flight, completely; the listener handles any completed request. \<open>ws\<close> are the writes pushed
  so far.\<close>

inductive aio_run ::
  "(nat list \<Rightarrow> nat \<Rightarrow> nat) \<Rightarrow> (nat list \<Rightarrow> nat \<Rightarrow> nat) \<Rightarrow> (nat \<Rightarrow> pool_state) \<Rightarrow> nat \<Rightarrow> nat \<Rightarrow> disk_writer \<Rightarrow> dw_env \<Rightarrow>
     write_segment list \<Rightarrow> aio_writer \<Rightarrow> dw_env \<Rightarrow> bool"
  for lb ub pool n bound base e0 where
  created: "aio_run lb ub pool n bound base e0 [] (AioDiskWriter base) e0"
| push: "aio_run lb ub pool n bound base e0 ws w e \<Longrightarrow> write_ok n bound s \<Longrightarrow>
    aio_run lb ub pool n bound base e0 (ws @ [s]) (w\<lparr>dw_wc := wc_write lb ub s (dw_wc w)\<rparr>) e"
| submit: "aio_run lb ub pool n bound base e0 ws w e \<Longrightarrow> aio_round IOCB_MAX w = AioNext w' \<Longrightarrow>
    aio_run lb ub pool n bound base e0 ws w' e"
| perform: "aio_run lb ub pool n bound base e0 ws w e \<Longrightarrow> aw_flight w = xs @ io # ys \<Longrightarrow>
    aio_run lb ub pool n bound base e0 ws
      (w\<lparr>aw_flight := xs @ ys, aw_events := aw_events w @ [(io, io_nbytes io)]\<rparr>)
      (e\<lparr>env_files := io_perform io (env_files e)\<rparr>)"
| handle: "aio_run lb ub pool n bound base e0 ws w e \<Longrightarrow> aw_events w = xs @ ev # ys \<Longrightarrow>
    aio_event pool ev (w\<lparr>aw_events := xs @ ys\<rparr>) e = Some (ok, w', e') \<Longrightarrow>
    aio_run lb ub pool n bound base e0 ws w' e'"

text \<open>Requests that lie apart on the volume.\<close>

definition io_apart :: "nat \<times> iocb \<Rightarrow> nat \<times> iocb \<Rightarrow> bool" where
  "io_apart p q \<longleftrightarrow> fst p + io_nbytes (snd p) \<le> fst q \<or> fst q + io_nbytes (snd q) \<le> fst p"

lemma paint_apart: "io_apart p q \<Longrightarrow> paint_io p (paint_io q f) = paint_io q (paint_io p f)"
  by (auto simp: io_apart_def paint_io_def paint_def fun_eq_iff)

lemma paints_apart: "\<forall>q \<in> set ps. io_apart q p \<Longrightarrow> fold paint_io ps (paint_io p f) = paint_io p (fold paint_io ps f)"
proof (induction ps arbitrary: f)
  case (Cons a ps)
  then show ?case using paint_apart [of a p f] by simp
qed simp

lemma chain_apart: "sorted_wrt io_apart (chain start ios)"
proof (induction ios arbitrary: start)
  case (Cons io ios)
  have "\<forall>q \<in> set (chain (start + io_nbytes io) ios). io_apart (start, io) q"
    using chain_range [of _ "start + io_nbytes io" ios] by (fastforce simp: io_apart_def)
  with Cons show ?case by simp
qed simp

definition inside :: "nat \<times> iocb \<Rightarrow> write_segment \<Rightarrow> bool" where
  "inside p s \<longleftrightarrow> LBA2OFFSET (ws_lba s) \<le> fst p \<and>
     fst p + io_nbytes (snd p) \<le> LBA2OFFSET (ws_lba s + ws_transfer_length s)"

text \<open>The files hold all submitted segments but for the requests in flight: \<open>ps\<close> are these with their
  addresses, \<open>old\<close> the segments popped already.\<close>

definition content_ok :: "(nat \<Rightarrow> (int \<times> nat) option) \<Rightarrow> nat \<Rightarrow> (nat \<Rightarrow> u8) \<Rightarrow> write_segment list \<Rightarrow>
    aio_writer \<Rightarrow> dw_env \<Rightarrow> bool" where
  "content_ok loc bound f0 ws w e \<longleftrightarrow>
     (\<exists>ps old. let sub = old @ take (length (aw_sizes w)) (queued (dw_wc w))
       in map snd ps = aw_flight w \<and> sorted_wrt io_apart ps \<and>
          (\<forall>p \<in> set ps. io_located loc p \<and> fst p + io_nbytes (snd p) \<le> bound \<and> (\<exists>s \<in> set sub. inside p s)) \<and>
          map ws_key ws = map ws_key (old @ queued (dw_wc w)) \<and>
          fold paint_io ps (vol_bytes loc bound (env_files e)) = fold paint_ws sub f0)"

lemma content_intro:
  assumes "map snd ps = aw_flight w" and "sorted_wrt io_apart ps"
    and "sub = old @ take (length (aw_sizes w)) (queued (dw_wc w))"
    and "\<forall>p \<in> set ps. io_located loc p \<and> fst p + io_nbytes (snd p) \<le> bound \<and> (\<exists>s \<in> set sub. inside p s)"
    and "map ws_key ws = map ws_key (old @ queued (dw_wc w))"
    and "fold paint_io ps (vol_bytes loc bound (env_files e)) = fold paint_ws sub f0"
  shows "content_ok loc bound f0 ws w e"
  using assms unfolding content_ok_def Let_def by blast

lemma inside_key: "ws_key s = ws_key t \<Longrightarrow> inside p s = inside p t"
  by (simp add: ws_key_def inside_def)

lemma inside_keys:
  assumes "map ws_key ss = map ws_key ts" and "\<exists>s \<in> set ss. inside p s"
  shows "\<exists>t \<in> set ts. inside p t"
proof -
  from assms(2) obtain i where i: "i < length ss" "inside p (ss ! i)" by (auto simp: in_set_conv_nth)
  have len: "length ts = length ss" using assms(1) by (metis length_map)
  have "ws_key (ss ! i) = ws_key (ts ! i)" using assms(1) i(1) len by (metis nth_map)
  with i len show ?thesis using inside_key by (metis nth_mem)
qed

lemma multiples_apart:
  assumes "n dvd a" and "n dvd b" and "a \<noteq> b" shows "a + n \<le> b \<or> b + n \<le> (a :: nat)"
proof -
  obtain i j where ij: "a = n * i" "b = n * j" using assms(1,2) by (auto elim!: dvdE)
  then have "Suc i \<le> j \<or> Suc j \<le> i" using assms(3) by (metis linorder_neqE_nat Suc_leI)
  then have "n * Suc i \<le> n * j \<or> n * Suc j \<le> n * i" using mult_le_mono2 by blast
  then show ?thesis using ij by (simp add: add.commute)
qed

lemma inside_apart:
  assumes "inside p s" and "inside q t" and "n dvd ws_lba s" and "n dvd ws_lba t"
    and "ws_transfer_length s = n" and "ws_transfer_length t = n" and "ws_lba s \<noteq> ws_lba t"
  shows "io_apart p q"
  using multiples_apart [OF assms(3,4,7)] assms
  by (auto simp: inside_def io_apart_def LBA2OFFSET_eq)

context extents
begin

lemma content_perform:
  assumes "content_ok loc bound f0 ws w e" and "aw_flight w = xs @ io # ys"
    and "aw_flight w' = xs @ ys" and "aw_sizes w' = aw_sizes w" and "dw_wc w' = dw_wc w"
    and "env_files e' = io_perform io (env_files e)"
  shows "content_ok loc bound f0 ws w' e'"
proof -
  from assms(1) obtain ps old sub where ps: "map snd ps = aw_flight w" "sorted_wrt io_apart ps"
    "sub = old @ take (length (aw_sizes w)) (queued (dw_wc w))"
    "\<forall>p \<in> set ps. io_located loc p \<and> fst p + io_nbytes (snd p) \<le> bound \<and> (\<exists>s \<in> set sub. inside p s)"
    "map ws_key ws = map ws_key (old @ queued (dw_wc w))"
    "fold paint_io ps (vol_bytes loc bound (env_files e)) = fold paint_ws sub f0"
    unfolding content_ok_def Let_def by blast
  from ps(1) assms(2) obtain as p bs where s: "ps = as @ p # bs" "map snd as = xs" "snd p = io" "map snd bs = ys"
    by (auto simp: map_eq_append_conv map_eq_Cons_conv)
  have "vol_bytes loc bound (env_files e') = paint_io p (vol_bytes loc bound (env_files e))"
    using vol_perform [of p] ps(4) s assms(6) by auto
  moreover have "\<forall>q \<in> set as. io_apart q p" using ps(2) s(1) by (simp add: sorted_wrt_append)
  ultimately have "fold paint_io (as @ bs) (vol_bytes loc bound (env_files e')) = fold paint_ws sub f0"
    using paints_apart [of as p "vol_bytes loc bound (env_files e)"] ps(6) s(1) by simp
  moreover have "sorted_wrt io_apart (as @ bs)" using ps(2) s(1) by (simp add: sorted_wrt_append)
  ultimately show ?thesis
    using ps(3-5) s assms(3-5) by (intro content_intro [of "as @ bs" _ sub old]) auto
qed

lemma content_submit:
  assumes "content_ok loc bound f0 ws w e" and c: "counts_ok w" and q: "queue_ok n bound (dw_wc w)"
    and sub: "submitted k p ios w w'" and p: "p = wc_fifo (dw_wc w) ! length (aw_sizes w)"
    and l: "length (aw_sizes w) < length (wc_fifo (dw_wc w))" and len: "length ios \<le> k"
    and seg: "aio_segment gh (wc_heap (dw_wc w) p) = Some (Some ios)"
    and ws: "\<forall>s \<in> set ws. n dvd ws_lba s \<and> ws_transfer_length s = n" and d: "distinct (map ws_lba ws)"
  shows "content_ok loc bound f0 ws w' e"
proof -
  let ?j = "length (aw_sizes w)" and ?q = "queued (dw_wc w)" and ?s = "wc_heap (dw_wc w) p"
  from assms(1) obtain ps old where ps: "map snd ps = aw_flight w" "sorted_wrt io_apart ps"
    "\<forall>p \<in> set ps. io_located loc p \<and> fst p + io_nbytes (snd p) \<le> bound \<and> (\<exists>s \<in> set (old @ take ?j ?q). inside p s)"
    "map ws_key ws = map ws_key (old @ ?q)"
    "fold paint_io ps (vol_bytes loc bound (env_files e)) = fold paint_ws (old @ take ?j ?q) f0"
    unfolding content_ok_def Let_def by blast
  define new where "new = chain (LBA2OFFSET (ws_lba ?s)) ios"
  have fits: "ws_fits bound ?s" using q l p by (auto simp: queue_ok_def)
  note pc = aio_segment_pieces [OF fits seg]
  have take: "take (Suc ?j) ?q = take ?j ?q @ [?s]" using l p by (simp add: take_Suc_conv_app_nth)
  have lb: "length (ws_bytes ?s) = LBA2OFFSET (ws_transfer_length ?s)" using pc by (simp add: ws_full_def)
  have new: "io_located loc a \<and> fst a + io_nbytes (snd a) \<le> bound \<and> inside a ?s" if "a \<in> set new" for a
    using chain_range [of a "LBA2OFFSET (ws_lba ?s)" ios] that pc lb fits
    by (auto simp: new_def inside_def ws_fits_def LBA2OFFSET_add)
  have keys: "\<forall>t \<in> set (old @ ?q). n dvd ws_lba t \<and> ws_transfer_length t = n" "distinct (map ws_lba (old @ ?q))"
  proof -
    have m: "map f (map ws_key ws) = map f (map ws_key (old @ ?q))" for f :: "_ \<Rightarrow> nat" using ps(4) by simp
    from m [of fst] have "map ws_lba ws = map ws_lba (old @ ?q)" by (simp add: o_def ws_key_def)
    moreover from m [of "\<lambda>x. fst (snd x)"] have "map ws_transfer_length ws = map ws_transfer_length (old @ ?q)"
      by (simp add: o_def ws_key_def)
    ultimately show "\<forall>t \<in> set (old @ ?q). n dvd ws_lba t \<and> ws_transfer_length t = n" "distinct (map ws_lba (old @ ?q))"
      using ws d by (metis (mono_tags, lifting) imageE imageI set_map, simp)
  qed
  have apart: "io_apart a b" if "a \<in> set ps" "b \<in> set new" for a b
  proof -
    from ps(3) that(1) obtain t where t: "t \<in> set (old @ take ?j ?q)" "inside a t" by blast
    have "?q = take ?j ?q @ ?s # drop (Suc ?j) ?q" using l p id_take_nth_drop [of ?j ?q] by simp
    then have split: "old @ ?q = (old @ take ?j ?q) @ ?s # drop (Suc ?j) ?q" by simp
    have "ws_lba t \<noteq> ws_lba ?s" using keys(2) imageI [OF t(1), of ws_lba] unfolding split by auto
    moreover have "t \<in> set (old @ ?q)" "?s \<in> set (old @ ?q)" using t(1) unfolding split by auto
    ultimately show ?thesis using inside_apart [OF t(2), of b ?s n] new [OF that(2)] keys(1) by blast
  qed
  have "fold paint_io new f = paint_ws ?s f" for f using pc by (simp add: new_def paint_chain paint_ws_def)
  then have "fold paint_io (ps @ new) (vol_bytes loc bound (env_files e)) = fold paint_ws (old @ take (Suc ?j) ?q) f0"
    using ps(5) take by simp
  moreover have "sorted_wrt io_apart (ps @ new)"
    using ps(2) apart chain_apart by (simp add: sorted_wrt_append new_def)
  moreover have "map snd (ps @ new) = aw_flight w'" using ps(1) sub len by (simp add: new_def submitted_def)
  ultimately show ?thesis
    using ps(3,4) new sub take by (intro content_intro [of "ps @ new" _ "old @ take (Suc ?j) ?q" old]) (auto simp: submitted_def)
qed

end

lemma content_push:
  assumes c: "content_ok loc bound f0 ws w e" and l: "length (aw_sizes w) \<le> length (wc_fifo (dw_wc w))"
    and k: "map ws_key (queued c') = map ws_key (queued (dw_wc w)) @ [ws_key s]"
  shows "content_ok loc bound f0 (ws @ [s]) (w\<lparr>dw_wc := c'\<rparr>) e"
proof -
  let ?j = "length (aw_sizes w)"
  from c obtain ps old where ps: "map snd ps = aw_flight w" "sorted_wrt io_apart ps"
    "\<forall>p \<in> set ps. io_located loc p \<and> fst p + io_nbytes (snd p) \<le> bound \<and>
       (\<exists>s \<in> set (old @ take ?j (queued (dw_wc w))). inside p s)"
    "map ws_key ws = map ws_key (old @ queued (dw_wc w))"
    "fold paint_io ps (vol_bytes loc bound (env_files e)) = fold paint_ws (old @ take ?j (queued (dw_wc w))) f0"
    unfolding content_ok_def Let_def by blast
  have "take ?j (map ws_key (queued c')) = take ?j (map ws_key (queued (dw_wc w)))" using k l by simp
  then have keys: "map ws_key (old @ take ?j (queued (dw_wc w))) = map ws_key (old @ take ?j (queued c'))"
    by (simp add: take_map)
  have "\<forall>p \<in> set ps. \<exists>s \<in> set (old @ take ?j (queued c')). inside p s" using ps(3) inside_keys [OF keys] by blast
  then show ?thesis using ps k paints_key [OF keys]
    by (intro content_intro [of ps _ "old @ take ?j (queued c')" old]) auto
qed

lemma content_event:
  assumes c: "content_ok loc bound f0 ws w e" and k: "aw_sizes w = k # ks" "wc_fifo (dw_wc w) \<noteq> []"
    and w': "aw_flight w' = aw_flight w" "env_files e' = env_files e"
      "if k = 1 then aw_sizes w' = ks \<and> dw_wc w' = wc_pop (dw_wc w)
       else aw_sizes w' = (k - 1) # ks \<and> dw_wc w' = dw_wc w"
  shows "content_ok loc bound f0 ws w' e'"
proof -
  from c obtain ps old sub where ps: "map snd ps = aw_flight w" "sorted_wrt io_apart ps"
    "sub = old @ take (length (aw_sizes w)) (queued (dw_wc w))"
    "\<forall>p \<in> set ps. io_located loc p \<and> fst p + io_nbytes (snd p) \<le> bound \<and> (\<exists>s \<in> set sub. inside p s)"
    "map ws_key ws = map ws_key (old @ queued (dw_wc w))"
    "fold paint_io ps (vol_bytes loc bound (env_files e)) = fold paint_ws sub f0"
    unfolding content_ok_def Let_def by blast
  obtain p fs where f: "wc_fifo (dw_wc w) = p # fs" using k(2) by (cases "wc_fifo (dw_wc w)") auto
  show ?thesis
  proof (cases "k = 1")
    case True
    then show ?thesis using ps w' k f
      by (intro content_intro [of ps _ sub "old @ [wc_heap (dw_wc w) p]"]) (simp_all del: map_map)
  next
    case False
    then show ?thesis using ps w' k by (intro content_intro [of ps _ sub old]) simp_all
  qed
qed

section \<open>Every run\<close>

lemma AioDiskWriter_simps [simp]:
  "dw_wc (AioDiskWriter base) = dw_wc base" "dw_handles (AioDiskWriter base) = dw_handles base"
  "aw_sizes (AioDiskWriter base) = []" "aw_total (AioDiskWriter base) = 0" "aw_current (AioDiskWriter base) = None"
  "aw_flight (AioDiskWriter base) = []" "aw_events (AioDiskWriter base) = []"
  by (simp_all add: AioDiskWriter_def disk_writer.defs)

definition run_ok :: "(nat \<Rightarrow> (int \<times> nat) option) \<Rightarrow> nat \<Rightarrow> nat \<Rightarrow> disk_writer \<Rightarrow> dw_env \<Rightarrow> write_segment list \<Rightarrow>
    aio_writer \<Rightarrow> dw_env \<Rightarrow> bool" where
  "run_ok loc bound n base e0 ws w e \<longleftrightarrow> (\<forall>s \<in> set ws. write_ok n bound s) \<and> queue_ok n bound (dw_wc w) \<and>
     counts_ok w \<and> dw_handles w = dw_handles base \<and>
     (distinct (map ws_lba ws) \<longrightarrow> content_ok loc bound (vol_bytes loc bound (env_files e0)) ws w e)"

lemma run_inv:
  assumes ext: "extents (getHandle (dw_handles base)) loc bound" and ix: "ordered_index lb ub" and n: "0 < n"
    and base: "dw_wc base = WriteCache h 0"
    and run: "aio_run lb ub pool n bound base e0 ws w e"
  shows "run_ok loc bound n base e0 ws w e"
  using run
proof (induction rule: aio_run.induct)
  case created
  have "content_ok loc bound (vol_bytes loc bound (env_files e0)) [] (AioDiskWriter base) e0"
    by (rule content_intro [of "[]" _ "[]" "[]"]) (simp_all add: base, simp add: WriteCache_def)
  then show ?case using queue_ok_new [of n bound h 0]
    by (simp add: run_ok_def base counts_ok_def IOCB_MAX_def)
next
  case (push ws w e s)
  have q: "queue_ok n bound (dw_wc w)" and c: "counts_ok w" using push by (auto simp: run_ok_def)
  note qw = queue_ok_write [OF ix n q push(2)]
  have "\<forall>p \<in> set (wc_fifo (dw_wc w)). p < wc_next (dw_wc w)" using q by (simp add: queue_ok_def wc_inv_def)
  then have "counts_ok (w\<lparr>dw_wc := wc_write lb ub s (dw_wc w)\<rparr>)"
    using c qw(2,4) by (cases "aw_sizes w") (auto simp: counts_ok_def nth_append)
  moreover have "content_ok loc bound (vol_bytes loc bound (env_files e0)) (ws @ [s])
      (w\<lparr>dw_wc := wc_write lb ub s (dw_wc w)\<rparr>) e" if "distinct (map ws_lba (ws @ [s]))"
    using that push c by (intro content_push qw(3)) (auto simp: run_ok_def counts_ok_def)
  ultimately show ?case using push qw(1) by (auto simp: run_ok_def)
next
  case (submit ws w e w')
  have q: "queue_ok n bound (dw_wc w)" and c: "counts_ok w" and hd: "dw_handles w = dw_handles base"
    and ws: "\<forall>s \<in> set ws. write_ok n bound s" using submit by (auto simp: run_ok_def)
  from aio_round_next [OF c q submit(2)] obtain p ios where
    l: "length (aw_sizes w) < length (wc_fifo (dw_wc w))" "p = wc_fifo (dw_wc w) ! length (aw_sizes w)"
    "unat (aw_total w) < IOCB_MAX" and
    seg: "aio_segment (getHandle (dw_handles base)) (wc_heap (dw_wc w) p) = Some (Some ios)" and
    sub: "submitted IOCB_MAX p ios w w'" using hd by auto
  have s: "ws_fits bound (wc_heap (dw_wc w) p)" "ws_transfer_length (wc_heap (dw_wc w) p) = n"
    using q l by (auto simp: queue_ok_def)
  note pc = extents.aio_segment_pieces [OF ext s(1) seg]
  then have "ios \<noteq> []" "length ios < IOCB_MAX" using s(2) n by (auto simp: ws_full_def LBA2OFFSET_eq)
  then have "counts_ok w'" by (intro counts_submit [OF c sub l(2,1,3)]) auto
  moreover have "content_ok loc bound (vol_bytes loc bound (env_files e0)) ws w' e" if "distinct (map ws_lba ws)"
    using that submit(3) ws pc
    by (intro extents.content_submit [OF ext _ c q sub l(2,1) _ seg]) (auto simp: run_ok_def write_ok_def)
  ultimately show ?case using submit(3) q sub by (auto simp: run_ok_def submitted_def)
next
  case (perform ws w e xs io ys)
  then show ?case
    using extents.content_perform [OF ext, of _ ws w e xs io ys]
    by (auto simp: run_ok_def counts_ok_def)
next
  case (handle ws w e xs ev ys ok w' e')
  have q: "queue_ok n bound (dw_wc w)" and c: "counts_ok w" using handle by (auto simp: run_ok_def)
  from aio_event_result [OF c q handle(2), of pool e] handle(3) obtain k ks where
    r: "aw_sizes w = k # ks" "env_files e' = env_files e" "dw_handles w' = dw_handles w"
    "aw_current w' = aw_current w" "aw_flight w' = aw_flight w" "aw_events w' = xs @ ys"
    "unat (aw_total w') = unat (aw_total w) - 1"
    "if k = 1 then aw_sizes w' = ks \<and> dw_wc w' = wc_pop (dw_wc w)
     else aw_sizes w' = (k - 1) # ks \<and> dw_wc w' = dw_wc w" by auto
  have "counts_ok w'" by (rule counts_event [OF c q handle(2) r(1,4-8)])
  moreover obtain p ps where f: "wc_fifo (dw_wc w) = p # ps"
    using c r(1) by (cases "wc_fifo (dw_wc w)") (auto simp: counts_ok_def)
  moreover have "queue_ok n bound (dw_wc w')" using q queue_ok_pop(2) [OF q f] r(8) by (auto split: if_splits)
  ultimately show ?case using handle(4) content_event [OF _ r(1) _ r(5,2,8)] r(3) by (auto simp: run_ok_def)
qed

lemma lv_extents:
  assumes "lv_ok opener lv" and "setup_writer opener lv c = Some base"
  shows "extents (getHandle (dw_handles base)) (handles_loc (lv_handles opener lv)) (LBA2OFFSET (lv_count lv))"
    and "dw_wc base = c"
    and "lv_content opener lv = vol_bytes (handles_loc (lv_handles opener lv)) (LBA2OFFSET (lv_count lv))"
  using wr.extents_axioms [of "lv_handles opener lv"] setup_writer_handles [OF assms(1), of c] assms
    lv_content_eq [OF assms(1)] lv_handles_sum(1) [OF assms(1)]
  by (auto simp: extent_bound_def lv_ok_def)

text \<open>C8. The two threads of the asynchronous writer never lose count, for writes of one size at multiples of it and a
  kernel that accepts every request and carries it out completely (the steps of \<open>aio_run\<close>): whatever the order
  in which writes arrive, segments are submitted and the kernel completes requests, the counter is the number of
  requests in flight or completed, it stays below its limit so that no increment throws, and the
  listener can handle every completed request: there is a count to decrement and a segment to pop.\<close>

theorem aio_counts_exact:
  assumes "lv_ok opener lv" and "setup_writer opener lv (WriteCache h 0) = Some base" and "ordered_index lb ub"
    and "0 < n" and "aio_run lb ub pool n (LBA2OFFSET (lv_count lv)) base e0 ws w e"
  shows "unat (aw_total w) = length (aw_flight w) + length (aw_events w) \<and>
    sum_list (aw_sizes w) = unat (aw_total w) \<and> unat (aw_total w) < 2 * IOCB_MAX \<and>
    length (aw_sizes w) \<le> length (wc_fifo (dw_wc w)) \<and>
    (\<forall>xs ev ys. aw_events w = xs @ ev # ys \<longrightarrow>
       (\<exists>w' e'. aio_event pool ev (w\<lparr>aw_events := xs @ ys\<rparr>) e = Some (True, w', e')))"
proof -
  note lv = lv_extents [OF assms(1,2)]
  from run_inv [OF lv(1) assms(3,4) lv(2) assms(5)] have c: "counts_ok w"
    and q: "queue_ok n (LBA2OFFSET (lv_count lv)) (dw_wc w)" by (auto simp: run_ok_def)
  have "\<exists>w' e'. aio_event pool ev (w\<lparr>aw_events := xs @ ys\<rparr>) e = Some (True, w', e')"
    if "aw_events w = xs @ ev # ys" for xs ev ys using aio_event_result [OF c q that] by blast
  with c show ?thesis unfolding counts_ok_def by metis
qed

text \<open>C7. The asynchronous writer refines a flat disk for complete writes of one size at different multiples of it, as
  long as the kernel accepts every request and carries it out completely (the steps of \<open>aio_run\<close>): in whatever
  order the kernel completes the requests, once the cache is empty the files hold the old contents overwritten by
  all writes. Writes to the same place can end up in the wrong order, see \<open>Aio_Order\<close>.\<close>

theorem aio_writes_all:
  assumes "lv_ok opener lv" and "setup_writer opener lv (WriteCache h 0) = Some base" and "ordered_index lb ub"
    and "0 < n" and "aio_run lb ub pool n (LBA2OFFSET (lv_count lv)) base e0 ws w e"
    and "distinct (map ws_lba ws)" and "wc_empty (dw_wc w)"
  shows "lv_content opener lv (env_files e) = fold paint_ws ws (lv_content opener lv (env_files e0))"
proof -
  note lv = lv_extents [OF assms(1,2)]
  from run_inv [OF lv(1) assms(3,4) lv(2) assms(5)] assms(6) have c: "counts_ok w"
    and k: "content_ok (handles_loc (lv_handles opener lv)) (LBA2OFFSET (lv_count lv))
      (lv_content opener lv (env_files e0)) ws w e" by (auto simp: run_ok_def lv(3))
  have "wc_fifo (dw_wc w) = []" using assms(7) by (simp add: wc_empty_def)
  then have z: "aw_sizes w = []" "aw_flight w = []" "queued (dw_wc w) = []" using c by (auto simp: counts_ok_def)
  from k obtain old where "map ws_key ws = map ws_key old"
    "lv_content opener lv (env_files e) = fold paint_ws old (lv_content opener lv (env_files e0))"
    unfolding content_ok_def Let_def z lv(3) by auto
  then show ?thesis using paints_key by metis
qed

end
