(* ===== verification/Aio_Order.thy ===== *)
theory Aio_Order
  imports Aio_Correct
begin

text \<open>
  What the order of completions can do to the asynchronous writer: overlapping writes may reach the files
  in the other order, and a segment may leave the cache before it is written. Then progress: the writer
  can always go on, unless a segment needs more requests than the array holds. The witnesses at the end
  run the writer on a volume of one file.
\<close>

section \<open>What order costs\<close>

lemma run_perform_all:
  "aio_run lb ub pool n bound base e0 ws w e \<Longrightarrow> aw_flight w = xs @ ios @ ys \<Longrightarrow>
     \<exists>w' e'. aio_run lb ub pool n bound base e0 ws w' e' \<and> aw_flight w' = xs @ ys \<and>
       aw_events w' = aw_events w @ map (\<lambda>io. (io, io_nbytes io)) ios \<and> aw_sizes w' = aw_sizes w \<and>
       aw_total w' = aw_total w \<and> dw_wc w' = dw_wc w \<and> env_files e' = fold io_perform ios (env_files e)"
proof (induction ios arbitrary: w e)
  case (Cons io ios)
  let ?w = "w\<lparr>aw_flight := xs @ ios @ ys, aw_events := aw_events w @ [(io, io_nbytes io)]\<rparr>"
  let ?e = "e\<lparr>env_files := io_perform io (env_files e)\<rparr>"
  from Cons.prems(2) have "aio_run lb ub pool n bound base e0 ws ?w ?e"
    by (intro aio_run.perform [OF Cons.prems(1)]) simp
  from Cons.IH [OF this] show ?case by simp
qed auto

lemma run_handle_front:
  assumes ext: "extents (getHandle (dw_handles base)) loc bound" and ix: "ordered_index lb ub" and n: "0 < n"
    and base: "dw_wc base = WriteCache h 0"
  shows "aio_run lb ub pool n bound base e0 ws w e \<Longrightarrow> aw_sizes w = length evs # ks \<Longrightarrow> aw_events w = evs @ rest \<Longrightarrow>
     \<exists>w' e'. aio_run lb ub pool n bound base e0 ws w' e' \<and> aw_flight w' = aw_flight w \<and> aw_events w' = rest \<and>
       aw_sizes w' = ks \<and> dw_wc w' = wc_pop (dw_wc w) \<and> env_files e' = env_files e"
proof (induction evs arbitrary: w e)
  case Nil
  from run_inv [OF ext ix n base Nil(1)] have "0 < length []" using Nil(2) by (simp add: run_ok_def counts_ok_def)
  then show ?case by simp
next
  case (Cons ev evs)
  from run_inv [OF ext ix n base Cons.prems(1)]
  have c: "counts_ok w" "queue_ok n bound (dw_wc w)" by (auto simp: run_ok_def)
  have ev: "aw_events w = [] @ ev # (evs @ rest)" using Cons.prems(3) by simp
  from aio_event_result [OF c ev, of pool e] Cons.prems(2) obtain w1 e1 where
    s: "aio_event pool ev (w\<lparr>aw_events := [] @ evs @ rest\<rparr>) e = Some (True, w1, e1)"
    and r: "env_files e1 = env_files e" "aw_flight w1 = aw_flight w" "aw_events w1 = evs @ rest"
      "if length (ev # evs) = 1 then aw_sizes w1 = ks \<and> dw_wc w1 = wc_pop (dw_wc w)
       else aw_sizes w1 = (length (ev # evs) - 1) # ks \<and> dw_wc w1 = dw_wc w" by auto
  note run = aio_run.handle [OF Cons.prems(1) ev s]
  show ?case
  proof (cases "evs = []")
    case True
    then show ?thesis using run r by auto
  next
    case False
    then show ?thesis using Cons.IH [OF run _ r(3)] r by auto
  qed
qed

lemma aio_segment_key: "ws_key s = ws_key t \<Longrightarrow> aio_segment gh s = aio_segment gh t"
  by (simp add: aio_segment_def ws_key_def)

lemma run_submit:
  assumes ext: "extents (getHandle (dw_handles base)) loc bound" and ix: "ordered_index lb ub" and n: "0 < n"
    and base: "dw_wc base = WriteCache h 0" and run: "aio_run lb ub pool n bound base e0 ws w e"
    and l: "length (aw_sizes w) < length (wc_fifo (dw_wc w))" "unat (aw_total w) < IOCB_MAX"
    and seg: "aio_segment (getHandle (dw_handles base)) (queued (dw_wc w) ! length (aw_sizes w)) = Some (Some ios)"
  shows "\<exists>w'. aio_run lb ub pool n bound base e0 ws w' e \<and> aw_flight w' = aw_flight w @ ios \<and>
    aw_events w' = aw_events w \<and> aw_sizes w' = aw_sizes w @ [length ios] \<and> dw_wc w' = dw_wc w \<and>
    unat (aw_total w') = unat (aw_total w) + length ios \<and> length ios < IOCB_MAX"
proof -
  from run_inv [OF ext ix n base run] have c: "counts_ok w" and q: "queue_ok n bound (dw_wc w)"
    and hd: "dw_handles w = dw_handles base" by (auto simp: run_ok_def)
  let ?p = "wc_fifo (dw_wc w) ! length (aw_sizes w)"
  have seg': "aio_segment (getHandle (dw_handles w)) (wc_heap (dw_wc w) ?p) = Some (Some ios)" using seg l hd by simp
  have len: "length ios < IOCB_MAX" using seg by (auto simp: aio_segment_def split: option.splits if_splits)
  from num_add_below [of "aw_total w" "length ios"] l(2) len obtain v where
    "num_add 128 (of_nat (length ios)) (aw_total w) = (Inr v, v)" by (auto simp: IOCB_MAX_def)
  then obtain w' where r: "aio_round IOCB_MAX w = AioNext w'"
    using getNext_counts [OF c q] l seg' by (simp add: aio_round_def Let_def)
  from aio_round_next [OF c q r] seg' obtain p where "submitted IOCB_MAX p ios w w'" by auto
  then show ?thesis using aio_run.submit [OF run r] len by (auto simp: submitted_def)
qed

lemma two_fifo:
  assumes "ordered_index lb ub" and "0 < n" and "write_ok n bound s1" and "write_ok n bound s2"
  shows "wc_fifo (wc_write lb ub s2 (wc_write lb ub s1 (WriteCache h 0))) = [0, 1]"
proof -
  note q1 = queue_ok_write [OF assms(1,2) queue_ok_new assms(3), of h 0]
  have "wc_fifo (WriteCache h 0) = []" "wc_next (WriteCache h 0) = 0" by (simp_all add: WriteCache_def)
  then show ?thesis using queue_ok_write(2) [OF assms(1,2) q1(1) assms(4)] q1(2,4) by simp
qed

lemma two_submitted:
  assumes ext: "extents (getHandle (dw_handles base)) loc bound" and ix: "ordered_index lb ub" and n: "0 < n"
    and base: "dw_wc base = WriteCache h 0" and w: "write_ok n bound s1" "write_ok n bound s2"
    and seg: "aio_segment (getHandle (dw_handles base)) s1 = Some (Some ios1)"
      "aio_segment (getHandle (dw_handles base)) s2 = Some (Some ios2)"
  defines "c2 \<equiv> wc_write lb ub s2 (wc_write lb ub s1 (WriteCache h 0))"
  shows "\<exists>w. aio_run lb ub pool n bound base e0 [s1, s2] w e0 \<and> aw_flight w = ios1 @ ios2 \<and> aw_events w = [] \<and>
    aw_sizes w = [length ios1, length ios2] \<and> dw_wc w = c2"
proof -
  let ?c1 = "wc_write lb ub s1 (WriteCache h 0)"
  note q1 = queue_ok_write [OF ix n queue_ok_new w(1), of h 0]
  note q2 = queue_ok_write [OF ix n q1(1) w(2)]
  have z: "wc_fifo (WriteCache h 0) = []" by (simp add: WriteCache_def)
  have keys: "map ws_key (queued c2) = [ws_key s1, ws_key s2]" using q1(3) q2(3) z by (simp add: c2_def)
  have fifo: "length (wc_fifo c2) = 2" using two_fifo [OF ix n w, of h] by (simp add: c2_def)
  have "ws_key (queued c2 ! i) = [ws_key s1, ws_key s2] ! i" if "i < 2" for i
    using that fifo keys by (metis length_map nth_map)
  from this [of 0] this [of 1] have k: "ws_key (queued c2 ! 0) = ws_key s1" "ws_key (queued c2 ! 1) = ws_key s2" by simp_all
  let ?w = "AioDiskWriter base\<lparr>dw_wc := c2\<rparr>"
  have run0: "aio_run lb ub pool n bound base e0 [s1, s2] ?w e0"
    using aio_run.push [OF aio_run.push [OF aio_run.created w(1)] w(2), of lb ub pool base e0]
    by (simp add: base c2_def)
  obtain w1 where w1: "aio_run lb ub pool n bound base e0 [s1, s2] w1 e0" "aw_flight w1 = ios1" "aw_events w1 = []"
      "aw_sizes w1 = [length ios1]" "dw_wc w1 = c2" "unat (aw_total w1) = length ios1" "length ios1 < IOCB_MAX"
    using run_submit [OF ext ix n base run0, of ios1] fifo seg(1) aio_segment_key [OF k(1)]
    by (auto simp: IOCB_MAX_def)
  show ?thesis
    using run_submit [OF ext ix n base w1(1), of ios2] fifo seg(2) aio_segment_key [OF k(2)] w1 by auto
qed

lemma chain_performed:
  assumes ext: "extents gh loc bound"
  shows "\<forall>p \<in> set (chain start ios). io_located loc p \<and> fst p + io_nbytes (snd p) \<le> bound \<Longrightarrow>
    vol_bytes loc bound (fold io_perform ios fs) = fold paint_io (chain start ios) (vol_bytes loc bound fs)"
proof (induction ios arbitrary: fs start)
  case (Cons io ios)
  then show ?case using extents.vol_perform [OF ext, of "(start, io)"]
      Cons.IH [of "start + io_nbytes io" "io_perform io fs"] by simp
qed simp

lemma segment_performed:
  assumes ext: "extents gh loc bound" and fits: "ws_fits bound s" and seg: "aio_segment gh s = Some (Some ios)"
  shows "vol_bytes loc bound (fold io_perform ios fs) = paint_ws s (vol_bytes loc bound fs)"
proof -
  note pc = extents.aio_segment_pieces [OF ext fits seg]
  let ?start = "LBA2OFFSET (ws_lba s)"
  have "fst p + io_nbytes (snd p) \<le> bound" if "p \<in> set (chain ?start ios)" for p
    using chain_range [OF that] pc fits by (auto simp: ws_fits_def ws_full_def LBA2OFFSET_add)
  then show ?thesis using chain_performed [OF ext, of ?start ios] pc by (simp add: paint_chain paint_ws_def)
qed

text \<open>C23. Two writes that are under way at the same time may reach the files in the other order: a run exists in
  which both are acknowledged, carried out and popped, and where they meet the files hold the older
  one. The synchronous writer never does this.\<close>

theorem aio_older_write_wins:
  assumes "lv_ok opener lv" and "setup_writer opener lv (WriteCache h 0) = Some base" and "ordered_index lb ub"
    and "0 < n" and "write_ok n (LBA2OFFSET (lv_count lv)) s1" and "write_ok n (LBA2OFFSET (lv_count lv)) s2"
    and "aio_segment (getHandle (dw_handles base)) s1 = Some (Some ios1)"
    and "aio_segment (getHandle (dw_handles base)) s2 = Some (Some ios2)"
  shows "\<exists>w e. aio_run lb ub pool n (LBA2OFFSET (lv_count lv)) base e0 [s1, s2] w e \<and> wc_empty (dw_wc w) \<and>
    lv_content opener lv (env_files e) = paint_ws s1 (paint_ws s2 (lv_content opener lv (env_files e0)))"
proof -
  note lv = lv_extents [OF assms(1,2)]
  let ?run = "aio_run lb ub pool n (LBA2OFFSET (lv_count lv)) base e0 [s1, s2]"
  let ?done = "map (\<lambda>io. (io, io_nbytes io))"
  from two_submitted [OF lv(1) assms(3,4) lv(2) assms(5-8), of pool e0] obtain w where
    w: "?run w e0" "aw_flight w = ios1 @ ios2 @ []" "aw_events w = []" "aw_sizes w = [length ios1, length ios2]"
    "dw_wc w = wc_write lb ub s2 (wc_write lb ub s1 (WriteCache h 0))" by auto
  from run_perform_all [OF w(1,2)] obtain w1 e1 where
    w1: "?run w1 e1" "aw_flight w1 = [] @ ios1 @ []" "aw_events w1 = ?done ios2" "aw_sizes w1 = aw_sizes w"
    "env_files e1 = fold io_perform ios2 (env_files e0)" "dw_wc w1 = dw_wc w" using w(3) by auto
  from run_perform_all [OF w1(1,2)] obtain w2 e2 where
    w2: "?run w2 e2" "aw_events w2 = ?done ios2 @ ?done ios1" "aw_sizes w2 = [length ios1, length ios2]"
    "env_files e2 = fold io_perform ios1 (env_files e1)" "dw_wc w2 = dw_wc w" using w1(3,4,6) w(4) by auto
  let ?evs = "?done ios2 @ ?done ios1"
  have sz: "aw_sizes w2 = length (take (length ios1) ?evs) # [length ios2]" using w2(3) by simp
  have ev: "aw_events w2 = take (length ios1) ?evs @ drop (length ios1) ?evs" using w2(2) by (simp only: append_take_drop_id)
  from run_handle_front [OF lv(1) assms(3,4) lv(2) w2(1) sz ev] obtain w3 e3 where
    w3: "?run w3 e3" "aw_events w3 = drop (length ios1) ?evs @ []" "aw_sizes w3 = length (drop (length ios1) ?evs) # []"
    "env_files e3 = env_files e2" "dw_wc w3 = wc_pop (dw_wc w2)" by auto
  from run_handle_front [OF lv(1) assms(3,4) lv(2) w3(1,3,2)] obtain w4 e4 where
    w4: "?run w4 e4" "env_files e4 = env_files e3" "aw_sizes w4 = []" "dw_wc w4 = wc_pop (dw_wc w3)" by blast
  have fits: "ws_fits (LBA2OFFSET (lv_count lv)) s1" "ws_fits (LBA2OFFSET (lv_count lv)) s2"
    using assms(5,6) by (auto simp: write_ok_def)
  have "lv_content opener lv (env_files e4) = paint_ws s1 (paint_ws s2 (lv_content opener lv (env_files e0)))"
    using segment_performed [OF lv(1) fits(1) assms(7)] segment_performed [OF lv(1) fits(2) assms(8)]
      w1(5) w2(4) w3(4) w4(2) by (simp add: lv(3))
  moreover have "wc_empty (dw_wc w4)"
    using two_fifo [OF assms(3-6), of h] w(5) w4(4) w3(5) w2(5) by (simp add: wc_empty_def)
  ultimately show ?thesis using w4(1) by blast
qed

lemma two_state:
  fixes h :: "nat \<Rightarrow> write_segment"
  assumes ix: "ordered_index lb ub" and n: "0 < n" and w: "write_ok n bound s1" "write_ok n bound s2"
  defines "c2 \<equiv> wc_write lb ub s2 (wc_write lb ub s1 (WriteCache h 0))"
  shows "set (wc_lba (wc_pop c2)) = {1}" and "wc_heap (wc_pop c2) 1 = s2"
proof -
  let ?c1 = "wc_write lb ub s1 (WriteCache h 0)"
  note q1 = queue_ok_write [OF ix n queue_ok_new w(1), of h 0]
  have inv: "wc_inv ?c1" and al: "\<forall>p \<in> set (wc_lba ?c1). ws_aligned n (wc_heap ?c1 p)"
    using q1(1) by (auto simp: queue_ok_def)
  have s2: "n dvd ws_lba s2" "ws_transfer_length s2 = n" using w(2) by (auto simp: write_ok_def)
  have no: "\<forall>p \<in> set (wc_lba ?c1). \<not> ws_split s2 (wc_heap ?c1 p)" using al aligned_trim [OF n _ s2] by blast
  have nx: "wc_next ?c1 = 1" using q1(4) by (simp add: WriteCache_def)
  have "wc_heap c2 1 = s2"
    using whole_write_state(1) [OF ix inv _ no] n s2(2) nx by (simp add: c2_def)
  then show "wc_heap (wc_pop c2) 1 = s2" by simp
  have q2: "queue_ok n bound c2" unfolding c2_def by (rule queue_ok_write(1) [OF ix n q1(1) w(2)])
  have "wc_fifo c2 = [0, 1]" unfolding c2_def by (rule two_fifo [OF ix n w])
  then have "wc_fifo (wc_pop c2) = [1]" "queue_ok n bound (wc_pop c2)" using queue_ok_pop [OF q2] by simp_all
  then show "set (wc_lba (wc_pop c2)) = {1}" by (simp add: queue_ok_def wc_inv_def)
qed

text \<open>C22. The listener pops by counting, so a segment can leave the cache before it is written: a run exists in
  which two writes apart from each other are acknowledged, the requests of the second one complete
  first, and for every byte of the first write a read then gets the old contents from the file,
  while its requests are still in flight.\<close>

theorem aio_pop_before_write:
  assumes "lv_ok opener lv" and "setup_writer opener lv (WriteCache h 0) = Some base" and "ordered_index lb ub"
    and "0 < n" and "write_ok n (LBA2OFFSET (lv_count lv)) s1" and "write_ok n (LBA2OFFSET (lv_count lv)) s2"
    and "aio_segment (getHandle (dw_handles base)) s1 = Some (Some ios1)"
    and "aio_segment (getHandle (dw_handles base)) s2 = Some (Some ios2)"
    and "ws_lba s1 \<noteq> ws_lba s2" and "length ios1 \<le> length ios2"
  shows "\<exists>w e. aio_run lb ub pool n (LBA2OFFSET (lv_count lv)) base e0 [s1, s2] w e \<and> aw_flight w = ios1 \<and>
    (\<forall>i. LBA2OFFSET (ws_lba s1) \<le> i \<and> i < LBA2OFFSET (ws_lba s1 + n) \<longrightarrow>
       cache_byte (dw_wc w) (lv_content opener lv (env_files e)) i = lv_content opener lv (env_files e0) i)"
proof -
  note lv = lv_extents [OF assms(1,2)]
  let ?run = "aio_run lb ub pool n (LBA2OFFSET (lv_count lv)) base e0 [s1, s2]"
  let ?f = "lv_content opener lv"
  let ?c2 = "wc_write lb ub s2 (wc_write lb ub s1 (WriteCache h 0))"
  let ?evs = "map (\<lambda>io. (io, io_nbytes io)) ios2"
  from two_submitted [OF lv(1) assms(3,4) lv(2) assms(5-8), of pool e0] obtain w where
    w: "?run w e0" "aw_flight w = ios1 @ ios2 @ []" "aw_events w = []" "aw_sizes w = [length ios1, length ios2]"
    "dw_wc w = ?c2" by auto
  from run_perform_all [OF w(1,2)] obtain w1 e1 where
    w1: "?run w1 e1" "aw_flight w1 = ios1" "aw_events w1 = ?evs" "aw_sizes w1 = [length ios1, length ios2]"
    "dw_wc w1 = ?c2" "env_files e1 = fold io_perform ios2 (env_files e0)" using w(3-5) by auto
  have sz: "aw_sizes w1 = length (take (length ios1) ?evs) # [length ios2]" using w1(4) assms(10) by simp
  have ev: "aw_events w1 = take (length ios1) ?evs @ drop (length ios1) ?evs" using w1(3) by (simp only: append_take_drop_id)
  from run_handle_front [OF lv(1) assms(3,4) lv(2) w1(1) sz ev] obtain w2 e2 where
    w2: "?run w2 e2" "aw_flight w2 = ios1" "dw_wc w2 = wc_pop ?c2" "env_files e2 = env_files e1"
    using w1(2,5) by auto
  have files: "?f (env_files e2) = paint_ws s2 (?f (env_files e0))"
    using segment_performed [OF lv(1) _ assms(8)] assms(6) w1(6) w2(4) by (simp add: write_ok_def lv(3))
  have s: "n dvd ws_lba s1" "n dvd ws_lba s2" "ws_full s2" "ws_transfer_length s2 = n" "ws_fresh s2"
    using assms(5,6) by (auto simp: write_ok_def)
  have "cache_byte (dw_wc w2) (?f (env_files e2)) i = ?f (env_files e0) i"
    if i: "LBA2OFFSET (ws_lba s1) \<le> i" "i < LBA2OFFSET (ws_lba s1 + n)" for i
  proof -
    have out: "ws_lba s2 + n \<le> i div 512 \<or> i div 512 < ws_lba s2"
      using multiples_apart [OF s(1,2) assms(9)] i by (auto simp: LBA2OFFSET_eq)
    then have "\<not> ws_covers s2 (i div 512)" using s(4,5) by (auto simp: ws_covers_def ws_fresh_def ws_range_defs)
    then have "find (\<lambda>p. ws_covers (wc_heap (dw_wc w2) p) (i div 512)) (wc_lba (dw_wc w2)) = None"
      using two_state [OF assms(3-6), of h] w2(3) by (auto simp: find_None_iff)
    moreover have "paint_ws s2 g i = g i" for g
      using out s(3,4) by (auto simp: paint_ws_def paint_def ws_full_def LBA2OFFSET_eq)
    ultimately show ?thesis by (simp add: cache_byte_def files)
  qed
  with w2(1,2) show ?thesis by blast
qed

section \<open>Progress\<close>

definition aio_work :: "aio_writer \<Rightarrow> nat" where
  "aio_work w = 200 * (length (wc_fifo (dw_wc w)) - length (aw_sizes w)) + 2 * length (aw_flight w) + length (aw_events w)"

text \<open>With room in the counter, which an idle writer has, a segment can always be submitted; so from every
  state some schedule of the threads and the kernel leads to an empty cache.\<close>

lemma run_drains:
  assumes ext: "extents (getHandle (dw_handles base)) loc bound" and ix: "ordered_index lb ub" and n: "0 < n"
    and base: "dw_wc base = WriteCache h 0"
  shows "aio_run lb ub pool n bound base e0 ws w e \<Longrightarrow>
    \<forall>s \<in> set (queued (dw_wc w)). \<exists>ios. aio_segment (getHandle (dw_handles base)) s = Some (Some ios) \<Longrightarrow>
    \<exists>w' e'. aio_run lb ub pool n bound base e0 ws w' e' \<and> wc_empty (dw_wc w')"
proof (induction "aio_work w" arbitrary: w e rule: less_induct)
  case less
  from run_inv [OF ext ix n base less.prems(1)] have c: "counts_ok w" and q: "queue_ok n bound (dw_wc w)"
    by (auto simp: run_ok_def)
  show ?case
  proof (cases "aw_events w")
    case (Cons ev evs)
    then have ev: "aw_events w = [] @ ev # evs" by simp
    from aio_event_result [OF c q ev, of pool e] obtain k ks w1 e1 where
      s: "aw_sizes w = k # ks" "aio_event pool ev (w\<lparr>aw_events := [] @ evs\<rparr>) e = Some (True, w1, e1)"
      "aw_flight w1 = aw_flight w" "aw_events w1 = evs"
      "if k = 1 then aw_sizes w1 = ks \<and> dw_wc w1 = wc_pop (dw_wc w)
       else aw_sizes w1 = (k - 1) # ks \<and> dw_wc w1 = dw_wc w" by auto
    have "aio_work w1 < aio_work w" using s Cons by (auto simp: aio_work_def split: if_splits)
    moreover have "set (queued (dw_wc w1)) \<subseteq> set (queued (dw_wc w))"
      using s(5) by (cases "wc_fifo (dw_wc w)") (auto split: if_splits)
    ultimately show ?thesis using less.hyps aio_run.handle [OF less.prems(1) ev s(2)] less.prems(2) by blast
  next
    case Nil
    show ?thesis
    proof (cases "aw_flight w")
      case (Cons io ios)
      then have fl: "aw_flight w = [] @ io # ios" by simp
      from less.hyps [OF _ aio_run.perform [OF less.prems(1) fl]] less.prems(2) Cons Nil show ?thesis
        by (simp add: aio_work_def)
    next
      case Nil2: Nil
      have z: "aw_sizes w = []" "unat (aw_total w) = 0"
        using c Nil Nil2 by (cases "aw_sizes w"; auto simp: counts_ok_def)+
      show ?thesis
      proof (cases "wc_fifo (dw_wc w) = []")
        case True
        then show ?thesis using less.prems(1) by (auto simp: wc_empty_def)
      next
        case False
        then obtain ios where "aio_segment (getHandle (dw_handles base)) (queued (dw_wc w) ! length (aw_sizes w)) = Some (Some ios)"
          using less.prems(2) z(1) by (cases "wc_fifo (dw_wc w)") auto
        from run_submit [OF ext ix n base less.prems(1) _ _ this] False z obtain w1 where
          w1: "aio_run lb ub pool n bound base e0 ws w1 e" "aw_flight w1 = ios" "aw_events w1 = []"
          "aw_sizes w1 = [length ios]" "dw_wc w1 = dw_wc w" "length ios < 64" using Nil Nil2 by (auto simp: IOCB_MAX_def)
        obtain m where "length (wc_fifo (dw_wc w)) = Suc m" using False by (cases "wc_fifo (dw_wc w)") auto
        then have "aio_work w1 < aio_work w" using w1 z(1) Nil Nil2 by (simp add: aio_work_def)
        then show ?thesis using less.hyps [OF _ w1(1)] less.prems(2) w1(5) by simp
      qed
    qed
  qed
qed

text \<open>C24. From every state of a run (writes of one size at multiples of it, a kernel that accepts every request and
  carries it out completely) in which each queued segment fits the array of requests, the threads and the kernel
  can go on until the cache is empty. A segment that does not fit is never written, see
  \<open>aio_long_segment_refused\<close>.\<close>

theorem aio_can_drain:
  assumes "lv_ok opener lv" and "setup_writer opener lv (WriteCache h 0) = Some base" and "ordered_index lb ub"
    and "0 < n" and "aio_run lb ub pool n (LBA2OFFSET (lv_count lv)) base e0 ws w e"
    and "\<forall>s \<in> set (queued (dw_wc w)). \<exists>ios. aio_segment (getHandle (dw_handles base)) s = Some (Some ios)"
  shows "\<exists>w' e'. aio_run lb ub pool n (LBA2OFFSET (lv_count lv)) base e0 ws w' e' \<and> wc_empty (dw_wc w')"
  using run_drains [OF lv_extents(1) [OF assms(1,2)] assms(3,4) lv_extents(2) [OF assms(1,2)] assms(5,6)] .

section \<open>Segments that do not fit\<close>

lemma aio_fill_small:
  "aio_fill gh mem buf start seg ios = Some (True, s', ios') \<Longrightarrow>
     \<exists>new. ios' = ios @ new \<and> (\<forall>io \<in> set new. io_nbytes io \<le> seg) \<and> sum_list (map io_nbytes new) = seg"
proof (induction seg arbitrary: buf start ios rule: less_induct)
  case (less seg)
  show ?case
  proof (cases "seg = 0")
    case True
    then show ?thesis using less.prems by (simp add: aio_fill.simps [of gh mem buf start 0 ios])
  next
    case False
    obtain fd cov r where g: "gh start seg = (fd, cov, r)" by (cases "gh start seg") auto
    define io where "io = \<lparr>io_fd = fd, io_mem = mem, io_buf = buf, io_nbytes = cov, io_offset = r\<rparr>"
    from less.prems g False have cov: "0 < cov" "cov \<le> seg" and
      rest: "aio_fill gh mem (buf + cov) (start + cov) (seg - cov) (ios @ [io]) = Some (True, s', ios')"
      by (subst (asm) aio_fill.simps; auto simp: Let_def io_def split: if_splits)+
    from less.IH [OF _ rest] cov obtain new where "ios' = ios @ io # new"
      "\<forall>i \<in> set new. io_nbytes i \<le> seg - cov" "sum_list (map io_nbytes new) = seg - cov" by auto
    then show ?thesis using cov by (intro exI [of _ "io # new"]) (auto simp: io_def)
  qed
qed

lemma aio_bufs_small:
  "\<forall>b \<in> set bs. cb_size b \<le> m \<Longrightarrow> bufs_ok ds bs \<Longrightarrow> aio_bufs gh ds bs start n ios = Some (True, 0, ios') \<Longrightarrow>
     \<exists>new. ios' = ios @ new \<and> (\<forall>io \<in> set new. io_nbytes io \<le> m) \<and> sum_list (map io_nbytes new) = n"
proof (induction ds bs arbitrary: start n ios rule: bufs_ok.induct)
  case (2 ds b bs)
  show ?case
  proof (cases "length ios < IOCB_MAX")
    case False
    then show ?thesis using 2(4) by auto
  next
    case True
    define seg where "seg = min n (sub64 (cb_size b) ds)"
    from 2(4) True obtain s1 ios1 where
      f: "aio_fill gh (cb_bytes b) ds start seg ios = Some (True, s1, ios1)"
      and rest: "aio_bufs gh 0 bs s1 (n - seg) ios1 = Some (True, 0, ios')"
      by (auto simp: Let_def seg_def split: option.splits if_splits)
    from aio_fill_small [OF f] obtain a where a: "ios1 = ios @ a" "\<forall>io \<in> set a. io_nbytes io \<le> seg"
      "sum_list (map io_nbytes a) = seg" by blast
    have seg: "seg \<le> m" "seg \<le> n" using 2(2,3) by (auto simp: seg_def)
    from 2(1) [OF _ _ rest] 2(2,3) obtain c where c: "ios' = ios1 @ c" "\<forall>io \<in> set c. io_nbytes io \<le> m"
      "sum_list (map io_nbytes c) = n - seg" by auto
    with a seg show ?thesis by (intro exI [of _ "a @ c"]) auto
  qed
qed auto

text \<open>The request array bounds what can be written at once: a segment of more bytes than 63 receive buffers
  hold is never submitted; the round that meets it ends the writer's thread or leaves the array.\<close>

lemma aio_long_segment_refused:
  assumes "counts_ok w" and "queue_ok n bound (dw_wc w)" and "unat (aw_total w) < IOCB_MAX"
    and "s = queued (dw_wc w) ! length (aw_sizes w)" and "length (aw_sizes w) < length (wc_fifo (dw_wc w))"
    and "\<forall>b \<in> set (ws_cbufs s). cb_size b \<le> COMMON_BUF_SIZE"
    and "63 * COMMON_BUF_SIZE < LBA2OFFSET (ws_transfer_length s)"
  shows "aio_round k w = AioUndefined \<or> (\<exists>w'. aio_round k w = AioFailed w' \<and> dw_wc w' = dw_wc w)"
proof -
  have fits: "ws_fits bound s" using assms(2,4,5) by (auto simp: queue_ok_def)
  have "aio_segment (getHandle (dw_handles w)) s \<noteq> Some (Some ios)" for ios
  proof
    assume "aio_segment (getHandle (dw_handles w)) s = Some (Some ios)"
    then have "aio_bufs (getHandle (dw_handles w)) (ws_ds_offset s) (ws_cbufs s) (LBA2OFFSET (ws_lba s))
        (LBA2OFFSET (ws_transfer_length s)) [] = Some (True, 0, ios)" and l: "length ios < IOCB_MAX"
      by (auto simp: aio_segment_def split: option.splits if_splits)
    from aio_bufs_small [OF assms(6) _ this(1)] fits have b: "\<forall>io \<in> set ios. io_nbytes io \<le> COMMON_BUF_SIZE"
      "sum_list (map io_nbytes ios) = LBA2OFFSET (ws_transfer_length s)" by (auto simp: ws_fits_def)
    have "sum_list (map io_nbytes ios) \<le> length ios * COMMON_BUF_SIZE"
      using b(1) by (induction ios) auto
    also have "\<dots> \<le> 63 * COMMON_BUF_SIZE" using l by (intro mult_le_mono1) (simp add: IOCB_MAX_def)
    finally show False using b(2) assms(7) by simp
  qed
  then show ?thesis
    using getNext_counts [OF assms(1,2)] assms(3-5)
    by (auto simp: aio_round_def Let_def split: option.splits)
qed

section \<open>Witnesses: writes to a volume of one file\<close>

definition ex_write :: "nat \<Rightarrow> u8 \<Rightarrow> write_segment" where
  "ex_write l v = (WriteSegment l 1)\<lparr>ws_cbufs := [\<lparr>cb_bytes = (\<lambda>_. v), cb_size = 512, cb_offset = 0, cb_tail = 512\<rparr>]\<rparr>"

abbreviation ex_empty :: write_cache where "ex_empty \<equiv> WriteCache (\<lambda>_. ex_seg) 0"

definition ex_base :: disk_writer where
  "ex_base = \<lparr>dw_stop = False, dw_handles = [(0, LowHandle 3 0 4096)], dw_wc = ex_empty\<rparr>"

lemma ex_setup: "setup_writer ex_open ex_lv ex_empty = Some ex_base"
  using setup_writer_handles [OF ex_lv_ok, of ex_empty] by (simp add: ex_handles ex_base_def)

lemma ex_bound: "LBA2OFFSET (lv_count ex_lv) = 4096"
  by (simp add: ex_lv_def LBA2OFFSET_eq)

lemma ex_write_ok: "l < 8 \<Longrightarrow> write_ok 1 4096 (ex_write l v)"
  by (simp add: ex_write_def write_ok_def ws_fresh_def ws_full_def ws_bytes_def ws_fits_def WriteSegment_def LBA2OFFSET_eq)

lemma ex_write_simps [simp]: "ws_lba (ex_write l v) = l" "ws_transfer_length (ex_write l v) = 1"
  "ws_bytes (ex_write l v) = replicate 512 v"
  by (simp_all add: ex_write_def WriteSegment_def ws_bytes_def map_replicate_const LBA2OFFSET_eq)

definition ex_iocb :: "nat \<Rightarrow> u8 \<Rightarrow> iocb" where
  "ex_iocb l v = \<lparr>io_fd = 3, io_mem = (\<lambda>_. v), io_buf = 0, io_nbytes = 512, io_offset = 512 * l\<rparr>"

lemma ex_segment:
  assumes "l = 1 \<or> l = 2"
  shows "aio_segment (getHandle (dw_handles ex_base)) (ex_write l v) = Some (Some [ex_iocb l v])"
proof -
  have g: "getHandle (dw_handles ex_base) (512 * l) 512 = (3, 512, 512 * l)"
    using assms by (auto simp: getHandle_def ex_base_def LowHandle_def INVALID_HANDLE_VALUE_def Let_def)
  show ?thesis
    by (simp add: aio_segment_def ex_write_def WriteSegment_def LBA2OFFSET_eq aio_fill.simps g IOCB_MAX_def
        INVALID_HANDLE_VALUE_def ex_iocb_def)
qed

text \<open>The general facts at this volume.\<close>

lemmas ex_aio = ex_lv_ok ex_setup std.ordered_index_axioms zero_less_one

abbreviation ex_aio_run :: "write_segment list \<Rightarrow> aio_writer \<Rightarrow> dw_env \<Rightarrow> bool" where
  "ex_aio_run \<equiv> aio_run std_lb std_ub (\<lambda>_. POOL_STATE_SOFT) 1 (LBA2OFFSET (lv_count ex_lv)) ex_base ex_env"

lemma ex_writes: "l = 1 \<or> l = 2 \<Longrightarrow> write_ok 1 (LBA2OFFSET (lv_count ex_lv)) (ex_write l v)"
  by (rule ex_write_ok [of l v, folded ex_bound]) auto

theorem aio_older_write_wins_witness:
  "\<exists>w e. ex_aio_run [ex_write 1 7, ex_write 1 9] w e \<and> wc_empty (dw_wc w) \<and>
     lv_content ex_open ex_lv (env_files e) 512 = 7"
proof -
  have "\<exists>w e. ex_aio_run [ex_write 1 7, ex_write 1 9] w e \<and> wc_empty (dw_wc w) \<and>
     lv_content ex_open ex_lv (env_files e) =
       paint_ws (ex_write 1 7) (paint_ws (ex_write 1 9) (lv_content ex_open ex_lv (env_files ex_env)))"
    by (rule aio_older_write_wins [OF ex_aio ex_writes ex_writes ex_segment ex_segment]) simp_all
  moreover have "paint_ws (ex_write 1 7) f 512 = 7" for f by (simp add: paint_ws_def paint_def LBA2OFFSET_eq)
  ultimately show ?thesis by metis
qed

theorem aio_pop_before_write_witness:
  "\<exists>w e. ex_aio_run [ex_write 1 7, ex_write 2 9] w e \<and> aw_flight w = [ex_iocb 1 7] \<and>
     cache_byte (dw_wc w) (lv_content ex_open ex_lv (env_files e)) 512 = lv_content ex_open ex_lv (env_files ex_env) 512"
proof -
  have "\<exists>w e. ex_aio_run [ex_write 1 7, ex_write 2 9] w e \<and> aw_flight w = [ex_iocb 1 7] \<and>
    (\<forall>i. LBA2OFFSET (ws_lba (ex_write 1 7)) \<le> i \<and> i < LBA2OFFSET (ws_lba (ex_write 1 7) + 1) \<longrightarrow>
       cache_byte (dw_wc w) (lv_content ex_open ex_lv (env_files e)) i = lv_content ex_open ex_lv (env_files ex_env) i)"
    by (rule aio_pop_before_write [OF ex_aio ex_writes ex_writes ex_segment ex_segment]) simp_all
  moreover have "LBA2OFFSET (ws_lba (ex_write 1 7)) \<le> 512" "512 < LBA2OFFSET (ws_lba (ex_write 1 7) + 1)"
    by (simp_all add: LBA2OFFSET_eq)
  ultimately show ?thesis by blast
qed

lemma ex_pushed:
  "ex_aio_run [ex_write 1 7] (AioDiskWriter ex_base\<lparr>dw_wc := wc_write std_lb std_ub (ex_write 1 7) ex_empty\<rparr>) ex_env"
  using aio_run.push [OF aio_run.created ex_writes, of 1 std_lb std_ub "\<lambda>_. POOL_STATE_SOFT" ex_base ex_env 7]
  by (simp add: ex_base_def)

lemma ex_pushed_keys:
  assumes "s \<in> set (queued (wc_write std_lb std_ub (ex_write 1 7) ex_empty))"
  shows "aio_segment (getHandle (dw_handles ex_base)) s = Some (Some [ex_iocb 1 7])"
proof -
  have "wc_fifo ex_empty = []" by (simp add: WriteCache_def)
  then have "ws_key s \<in> {ws_key (ex_write 1 7)}"
    using queue_ok_write(3) [OF ex_aio(3,4) queue_ok_new [of 1 _ "\<lambda>_. ex_seg" 0] ex_writes [of 1 7]] assms by auto
  then show ?thesis using aio_segment_key [of s "ex_write 1 7"] ex_segment [of 1 7] by simp
qed

theorem aio_can_drain_witness: "\<exists>w e. ex_aio_run [ex_write 1 7] w e \<and> wc_empty (dw_wc w)"
  by (rule aio_can_drain [OF ex_aio ex_pushed]) (use ex_pushed_keys in auto)

lemma ex_drained: "\<exists>w e. ex_aio_run [ex_write 1 7] w e \<and> wc_empty (dw_wc w)"
  by (rule run_drains [OF lv_extents(1) [OF ex_aio(1,2)] ex_aio(3,4) lv_extents(2) [OF ex_aio(1,2)] ex_pushed])
    (use ex_pushed_keys in auto)

theorem aio_writes_all_witness:
  "\<exists>w e. ex_aio_run [ex_write 1 7] w e \<and> lv_content ex_open ex_lv (env_files e) 512 = 7"
proof -
  obtain w e where r: "ex_aio_run [ex_write 1 7] w e" "wc_empty (dw_wc w)" using ex_drained by blast
  from aio_writes_all [OF ex_aio r(1) _ r(2)] have
    "lv_content ex_open ex_lv (env_files e) = fold paint_ws [ex_write 1 7] (lv_content ex_open ex_lv (env_files ex_env))"
    by simp
  then have "lv_content ex_open ex_lv (env_files e) 512 = 7" by (simp add: paint_ws_def paint_def LBA2OFFSET_eq)
  with r show ?thesis by blast
qed

theorem aio_counts_exact_witness:
  "\<exists>w. ex_aio_run [ex_write 1 7] w ex_env \<and> unat (aw_total w) < 2 * IOCB_MAX"
  using aio_counts_exact [OF ex_aio ex_pushed] ex_pushed by blast

end
