(* ===== verification/Json.thy ===== *)
theory Json
  imports Prelude Complex_Main "HOL-Library.List_Lexorder" "HOL-Library.Char_ord"
begin

text \<open>
  JSON values, \<^verbatim>\<open>src/json/json_value.cpp\<close> and \<^verbatim>\<open>include/json/value.h\<close>: the tree the configuration
  is kept in. The library is part of the repository and was changed there: \<^verbatim>\<open>Value::Int\<close> is 32 bits wide
  and \<^verbatim>\<open>Value::UInt\<close> 64 (\<^verbatim>\<open>include/json/value.h:124\<close>), with the constants \<open>minInt\<close> and \<open>maxInt\<close> still
  computed from \<^verbatim>\<open>UInt\<close>. A value is the tagged union; an array and an object are the same
  \<^verbatim>\<open>std::map\<close>, from indices or from names, kept here as the association list in the order of its keys.
  A member reached through a reference is read and written by name or index, and the non-const operators
  create what they do not find, as in the code. Comments attached to values are not part of the tree.
\<close>

section \<open>Failures\<close>

text \<open>How a call may end without a result: a failed \<^verbatim>\<open>JSON_ASSERT\<close>, which is \<^verbatim>\<open>assert\<close> and ends
  the process; an access C++ leaves undefined; an exception derived from \<^verbatim>\<open>std::exception\<close> with its text.\<close>

datatype fault = Abort | Undefined | Throw string

type_synonym 'a result = "fault + 'a"

fun bind :: "'a result \<Rightarrow> ('a \<Rightarrow> 'b result) \<Rightarrow> 'b result" where
  "bind (Inl e) f = Inl e"
| "bind (Inr a) f = f a"

definition ensure :: "bool \<Rightarrow> unit result" where
  "ensure b = (if b then Inr () else Inl Abort)"

lemma bind_Inr: "bind m f = Inr b \<longleftrightarrow> (\<exists>a. m = Inr a \<and> f a = Inr b)"
  by (cases m) auto

lemma bind_cong [fundef_cong]:
  assumes "m = m'" and "\<And>a. m' = Inr a \<Longrightarrow> f a = f' a"
  shows "bind m f = bind m' f'"
  using assms by (cases m') auto

fun try_bind :: "'a result \<Rightarrow> (string \<Rightarrow> 'a result) \<Rightarrow> 'a result" where
  "try_bind (Inl (Throw what)) h = h what"
| "try_bind m h = m"

section \<open>Values\<close>

text \<open>A \<^verbatim>\<open>double\<close> is a finite number or an infinity (negative when the flag is set): \<^verbatim>\<open>sscanf\<close> of
  a number gives nothing else.\<close>

datatype double = Finite real | Infinite bool

datatype json = nullValue | intValue u32 | uintValue u64 | realValue double | stringValue string
  | booleanValue bool | arrayValue "(int \<times> json) list" | objectValue "(string \<times> json) list"

definition minInt :: u32 where
  "minInt = ucast (NOT (((-1)::u64) div 2))"

definition maxInt :: u32 where
  "maxInt = ucast (((-1)::u64) div 2)"

definition maxUInt :: u64 where
  "maxUInt = -1"

text \<open>A \<^verbatim>\<open>std::string\<close> handed over as \<^verbatim>\<open>const char *\<close> ends at its first zero byte.\<close>

definition c_str :: "string \<Rightarrow> string" where
  "c_str s = takeWhile (\<lambda>c. c \<noteq> CHR 0x00) s"

definition Value_string :: "string \<Rightarrow> json" where
  "Value_string s = stringValue (c_str s)"

section \<open>The maps behind arrays and objects\<close>

text \<open>\<^verbatim>\<open>CZString(int index)\<close>: the 64-bit index becomes an \<^verbatim>\<open>int\<close>.\<close>

definition CZ_index :: "u64 \<Rightarrow> int" where
  "CZ_index i = sint (ucast i :: u32)"

text \<open>\<^verbatim>\<open>lower_bound\<close> and \<^verbatim>\<open>insert\<close> of \<^verbatim>\<open>operator[]\<close> followed by an assignment through the reference.\<close>

fun map_put :: "'k::linorder \<Rightarrow> 'v \<Rightarrow> ('k \<times> 'v) list \<Rightarrow> ('k \<times> 'v) list" where
  "map_put k v [] = [(k, v)]"
| "map_put k v ((k', v') # m) =
     (if k < k' then (k, v) # (k', v') # m
      else if k = k' then (k, v) # m else (k', v') # map_put k v m)"

abbreviation sorted_map :: "('k::linorder \<times> 'v) list \<Rightarrow> bool" where
  "sorted_map m \<equiv> sorted_wrt (<) (map fst m)"

lemma map_of_put [simp]: "map_of (map_put k v m) = (map_of m)(k \<mapsto> v)"
  by (induction k v m rule: map_put.induct) (auto simp: fun_eq_iff)

lemma fst_map_put [simp]: "fst ` set (map_put k v m) = insert k (fst ` set m)"
  by (induction k v m rule: map_put.induct) auto

lemma in_map_put: "x \<in> set (map_put k v m) \<Longrightarrow> x = (k, v) \<or> x \<in> set m"
  by (induction k v m rule: map_put.induct) (auto split: if_splits)

lemma sorted_map_put [simp]: "sorted_map m \<Longrightarrow> sorted_map (map_put k v m)"
  by (induction k v m rule: map_put.induct) (fastforce dest: in_map_put order.strict_trans)+

lemma map_put_last: "\<forall>x \<in> fst ` set m. x < k \<Longrightarrow> map_put k v m = m @ [(k, v)]"
  by (induction k v m rule: map_put.induct) auto

section \<open>Reading a value\<close>

definition asString :: "json \<Rightarrow> string result" where
  "asString v =
     (case v of nullValue \<Rightarrow> Inr [] | stringValue s \<Rightarrow> Inr s
        | booleanValue b \<Rightarrow> Inr (if b then ''true'' else ''false'') | _ \<Rightarrow> Inl Abort)"

definition asCString :: "json \<Rightarrow> string result" where
  "asCString v = (case v of stringValue s \<Rightarrow> Inr s | _ \<Rightarrow> Inl Abort)"

text \<open>Comparison with the range of an integer type and the conversion, which C++ leaves undefined when
  the truncated number does not fit: \<open>2 ^ 64\<close> passes the test, since \<open>maxUInt\<close> is rounded up to it.\<close>

fun double_between :: "double \<Rightarrow> real \<Rightarrow> real \<Rightarrow> bool" where
  "double_between (Finite r) lo hi \<longleftrightarrow> lo \<le> r \<and> r \<le> hi"
| "double_between (Infinite _) lo hi \<longleftrightarrow> False"

fun double_trunc :: "double \<Rightarrow> int" where
  "double_trunc (Finite r) = (if 0 \<le> r then \<lfloor>r\<rfloor> else - \<lfloor>- r\<rfloor>)"
| "double_trunc (Infinite _) = 0"

definition asInt :: "json \<Rightarrow> u32 result" where
  "asInt v =
     (case v of nullValue \<Rightarrow> Inr 0
        | intValue i \<Rightarrow> Inr i
        | uintValue u \<Rightarrow> if u < (ucast maxInt :: u64) then Inr (ucast u) else Inl Abort
        | realValue d \<Rightarrow>
            if double_between d (of_int (sint minInt)) (of_int (sint maxInt))
            then Inr (word_of_int (double_trunc d)) else Inl Abort
        | booleanValue b \<Rightarrow> Inr (if b then 1 else 0)
        | _ \<Rightarrow> Inl Abort)"

definition asUInt :: "json \<Rightarrow> u64 result" where
  "asUInt v =
     (case v of nullValue \<Rightarrow> Inr 0
        | intValue i \<Rightarrow> if 0 \<le> sint i then Inr (scast i) else Inl Abort
        | uintValue u \<Rightarrow> Inr u
        | realValue d \<Rightarrow>
            if double_between d 0 (2 ^ 64)
            then if double_trunc d < 2 ^ 64 then Inr (word_of_int (double_trunc d)) else Inl Undefined
            else Inl Abort
        | booleanValue b \<Rightarrow> Inr (if b then 1 else 0)
        | _ \<Rightarrow> Inl Abort)"

text \<open>A boolean read from an unsigned number looks at the lower 32 bits only (\<^verbatim>\<open>value_.int_\<close>).\<close>

definition asBool :: "json \<Rightarrow> bool" where
  "asBool v =
     (case v of nullValue \<Rightarrow> False
        | intValue i \<Rightarrow> i \<noteq> 0
        | uintValue u \<Rightarrow> (ucast u :: u32) \<noteq> 0
        | realValue d \<Rightarrow> d \<noteq> Finite 0
        | booleanValue b \<Rightarrow> b
        | stringValue s \<Rightarrow> s \<noteq> []
        | arrayValue m \<Rightarrow> m \<noteq> []
        | objectValue m \<Rightarrow> m \<noteq> [])"

definition isArray :: "json \<Rightarrow> bool" where
  "isArray v = (case v of nullValue \<Rightarrow> True | arrayValue _ \<Rightarrow> True | _ \<Rightarrow> False)"

definition isObject :: "json \<Rightarrow> bool" where
  "isObject v = (case v of nullValue \<Rightarrow> True | objectValue _ \<Rightarrow> True | _ \<Rightarrow> False)"

text \<open>The size of an array is its highest index plus one.\<close>

definition json_size :: "json \<Rightarrow> u64" where
  "json_size v =
     (case v of
        arrayValue m \<Rightarrow> (if m = [] then 0 else scast (word_of_int (fst (last m) + 1) :: u32))
      | objectValue m \<Rightarrow> scast (of_nat (length m) :: u32)
      | _ \<Rightarrow> 0)"

text \<open>The const operators: what is not there is the static \<open>null\<close>; \<open>None\<close> stands for its address.\<close>

definition member_ref :: "string \<Rightarrow> json \<Rightarrow> json option result" where
  "member_ref key v =
     (case v of nullValue \<Rightarrow> Inr None | objectValue m \<Rightarrow> Inr (map_of m (c_str key)) | _ \<Rightarrow> Inl Abort)"

definition json_member :: "string \<Rightarrow> json \<Rightarrow> json result" where
  "json_member key v = bind (member_ref key v) (\<lambda>r. Inr (case r of None \<Rightarrow> nullValue | Some x \<Rightarrow> x))"

definition json_get :: "string \<Rightarrow> json \<Rightarrow> json \<Rightarrow> json result" where
  "json_get key dflt v = bind (member_ref key v) (\<lambda>r. Inr (case r of None \<Rightarrow> dflt | Some x \<Rightarrow> x))"

definition isMember :: "string \<Rightarrow> json \<Rightarrow> bool result" where
  "isMember key v = bind (member_ref key v) (\<lambda>r. Inr (r \<noteq> None))"

definition json_at :: "u64 \<Rightarrow> json \<Rightarrow> json result" where
  "json_at i v =
     (case v of nullValue \<Rightarrow> Inr nullValue
        | arrayValue m \<Rightarrow> Inr (case map_of m (CZ_index i) of None \<Rightarrow> nullValue | Some x \<Rightarrow> x)
        | _ \<Rightarrow> Inl Abort)"

text \<open>\<^verbatim>\<open>getMemberNames\<close> of a null value follows the pointer of the union, which nothing has set.\<close>

definition getMemberNames :: "json \<Rightarrow> string list result" where
  "getMemberNames v =
     (case v of nullValue \<Rightarrow> Inl Undefined | objectValue m \<Rightarrow> Inr (map fst m) | _ \<Rightarrow> Inl Abort)"

section \<open>Changing a value\<close>

definition json_clear :: "json \<Rightarrow> json result" where
  "json_clear v =
     (case v of nullValue \<Rightarrow> Inr nullValue | arrayValue _ \<Rightarrow> Inr (arrayValue [])
        | objectValue _ \<Rightarrow> Inr (objectValue []) | _ \<Rightarrow> Inl Abort)"

text \<open>The map behind the non-const operators; a null value becomes an array or an object first. The
  reference they return is the member \<open>key\<close> of that map, null when it was not there.\<close>

definition array_of :: "json \<Rightarrow> (int \<times> json) list result" where
  "array_of v = (case v of nullValue \<Rightarrow> Inr [] | arrayValue m \<Rightarrow> Inr m | _ \<Rightarrow> Inl Abort)"

definition object_of :: "json \<Rightarrow> (string \<times> json) list result" where
  "object_of v = (case v of nullValue \<Rightarrow> Inr [] | objectValue m \<Rightarrow> Inr m | _ \<Rightarrow> Inl Abort)"

definition slot :: "'k \<Rightarrow> ('k \<times> json) list \<Rightarrow> json" where
  "slot k m = (case map_of m k of None \<Rightarrow> nullValue | Some x \<Rightarrow> x)"

definition set_member :: "string \<Rightarrow> json \<Rightarrow> json \<Rightarrow> json result" where
  "set_member key x v = bind (object_of v) (\<lambda>m. Inr (objectValue (map_put (c_str key) x m)))"

definition set_at :: "u64 \<Rightarrow> json \<Rightarrow> json \<Rightarrow> json result" where
  "set_at i x v = bind (array_of v) (\<lambda>m. Inr (arrayValue (map_put (CZ_index i) x m)))"

definition json_append :: "json \<Rightarrow> json \<Rightarrow> json result" where
  "json_append x v = set_at (json_size v) x v"

text \<open>\<^verbatim>\<open>resize\<close>; the indices from \<open>newSize\<close> on are erased one by one.\<close>

definition json_resize :: "u64 \<Rightarrow> json \<Rightarrow> json result" where
  "json_resize newSize v =
     bind (array_of v) (\<lambda>m.
       let old = json_size (arrayValue m)
       in if newSize = 0 then Inr (arrayValue [])
          else if old < newSize
          then Inr (arrayValue (map_put (CZ_index (newSize - 1)) (slot (CZ_index (newSize - 1)) m) m))
          else let m' = filter (\<lambda>(k, _). k \<notin> CZ_index ` {i. newSize \<le> i \<and> i < old}) m
               in bind (ensure (json_size (arrayValue m') = newSize)) (\<lambda>_. Inr (arrayValue m')))"

section \<open>Decimal numbers\<close>

text \<open>The digits of a number, and \<^verbatim>\<open>%d\<close> of an \<^verbatim>\<open>int\<close>.\<close>

fun decimal :: "nat \<Rightarrow> string" where
  "decimal n = (if n < 10 then [] else decimal (n div 10)) @ [char_of (n mod 10 + of_char CHR ''0'')]"

declare decimal.simps [simp del]

definition show_int :: "int \<Rightarrow> string" where
  "show_int i = (if i < 0 then CHR ''-'' # decimal (nat (- i)) else decimal (nat i))"

section \<open>Arrays without gaps\<close>

definition json_list :: "json list \<Rightarrow> json" where
  "json_list vs = arrayValue (zip [0..int (length vs) - 1] vs)"

end
