(* ===== verification/JsonReader.thy ===== *)
theory JsonReader
  imports Json
begin

text \<open>
  The JSON reader, \<^verbatim>\<open>src/json/json_reader.cpp\<close>: tokens, the recursive descent that builds the tree, the
  decoding of numbers and strings, and the recovery after an error. A \<^verbatim>\<open>Location\<close> is the part of the
  document that starts there, so a position is a suffix and \<open>*current_\<close> at the end is the terminating zero.
  \<^verbatim>\<open>nodes_\<close> is the chain of calls: every function gets the value its reference points to and returns it
  changed. The comments that \<^verbatim>\<open>collectComments_\<close> attaches to values are read over and not kept.
  \<^verbatim>\<open>sscanf("%lf")\<close> is the parameter \<open>lf\<close>.
\<close>

section \<open>Characters\<close>

abbreviation QUOTE :: char where "QUOTE \<equiv> CHR 0x22"
abbreviation BACKSLASH :: char where "BACKSLASH \<equiv> CHR 0x5C"
abbreviation TAB :: char where "TAB \<equiv> CHR 0x09"
abbreviation NL :: char where "NL \<equiv> CHR 0x0A"
abbreviation CR :: char where "CR \<equiv> CHR 0x0D"
abbreviation NUL :: char where "NUL \<equiv> CHR 0x00"

definition is_digit :: "char \<Rightarrow> bool" where
  "is_digit c \<longleftrightarrow> of_char CHR ''0'' \<le> (of_char c :: nat) \<and> of_char c \<le> (of_char CHR ''9'' :: nat)"

definition digit_value :: "char \<Rightarrow> nat" where
  "digit_value c = of_char c - of_char CHR ''0''"

section \<open>Tokens\<close>

datatype token_type = tokenEndOfStream | tokenObjectBegin | tokenObjectEnd | tokenArrayBegin
  | tokenArrayEnd | tokenString | tokenNumber | tokenTrue | tokenFalse | tokenNull
  | tokenArraySeparator | tokenMemberSeparator | tokenComment | tokenError

record json_token =
  tok_type :: token_type
  tok_start :: string
  tok_end :: string

record error_info =
  ei_token :: json_token
  ei_message :: string
  ei_extra :: "string option"

record reader =
  rd_document :: string
  rd_current :: string
  rd_errors :: "error_info list"

definition tok_text :: "json_token \<Rightarrow> string" where
  "tok_text t = take (length (tok_start t) - length (tok_end t)) (tok_start t)"

definition peek :: "string \<Rightarrow> char" where
  "peek cs = (case cs of [] \<Rightarrow> NUL | c # _ \<Rightarrow> c)"

definition getNextChar :: "string \<Rightarrow> char \<times> string" where
  "getNextChar cs = (case cs of [] \<Rightarrow> (NUL, []) | c # cs' \<Rightarrow> (c, cs'))"

definition is_space :: "char \<Rightarrow> bool" where
  "is_space c \<longleftrightarrow> c = CHR '' '' \<or> c = TAB \<or> c = CR \<or> c = NL"

definition skipSpaces :: "string \<Rightarrow> string" where
  "skipSpaces cs = dropWhile is_space cs"

definition match :: "string \<Rightarrow> string \<Rightarrow> bool \<times> string" where
  "match pattern cs =
     (if take (length pattern) cs = pattern then (True, drop (length pattern) cs) else (False, cs))"

text \<open>\<^verbatim>\<open>readCStyleComment\<close> leaves its loop behind the star of \<open>*/\<close>, or at the end of the document.\<close>

fun c_style :: "string \<Rightarrow> string" where
  "c_style [] = []"
| "c_style (c # cs) = (if c = CHR ''*'' \<and> peek cs = CHR ''/'' then cs else c_style cs)"

definition readCStyleComment :: "string \<Rightarrow> bool \<times> string" where
  "readCStyleComment cs = (let (c, cs') = getNextChar (c_style cs) in (c = CHR ''/'', cs'))"

fun readCppStyleComment :: "string \<Rightarrow> string" where
  "readCppStyleComment [] = []"
| "readCppStyleComment (c # cs) = (if c = CR \<or> c = NL then cs else readCppStyleComment cs)"

definition readComment :: "string \<Rightarrow> bool \<times> string" where
  "readComment cs =
     (let (c, cs') = getNextChar cs
      in if c = CHR ''*'' then readCStyleComment cs'
         else if c = CHR ''/'' then (True, readCppStyleComment cs')
         else (False, cs'))"

definition is_number_char :: "char \<Rightarrow> bool" where
  "is_number_char c \<longleftrightarrow> is_digit c \<or> c \<in> set ''.eE+-''"

definition readNumber :: "string \<Rightarrow> string" where
  "readNumber cs = dropWhile is_number_char cs"

text \<open>\<^verbatim>\<open>readString\<close>: the last character read and where it stopped; an escaped character is passed over.\<close>

fun read_string :: "char \<Rightarrow> string \<Rightarrow> char \<times> string" where
  "read_string c [] = (c, [])"
| "read_string c (x # xs) =
     (if x = BACKSLASH then (case xs of [] \<Rightarrow> (x, []) | _ # ys \<Rightarrow> read_string x ys)
      else if x = QUOTE then (x, xs) else read_string x xs)"

definition readString :: "string \<Rightarrow> bool \<times> string" where
  "readString cs = (let (c, cs') = read_string NUL cs in (c = QUOTE, cs'))"

text \<open>\<^verbatim>\<open>readToken\<close> behind its first character: the type of the token, whether the rest of it is
  well-formed, and where it ends.\<close>

definition token_rest :: "char \<Rightarrow> string \<Rightarrow> token_type \<times> bool \<times> string" where
  "token_rest c cs =
     (if c = CHR ''{'' then (tokenObjectBegin, True, cs)
      else if c = CHR ''}'' then (tokenObjectEnd, True, cs)
      else if c = CHR ''['' then (tokenArrayBegin, True, cs)
      else if c = CHR '']'' then (tokenArrayEnd, True, cs)
      else if c = QUOTE then (tokenString, readString cs)
      else if c = CHR ''/'' then (tokenComment, readComment cs)
      else if is_digit c \<or> c = CHR ''-'' then (tokenNumber, True, readNumber cs)
      else if c = CHR ''t'' then (tokenTrue, match ''rue'' cs)
      else if c = CHR ''f'' then (tokenFalse, match ''alse'' cs)
      else if c = CHR ''n'' then (tokenNull, match ''ull'' cs)
      else if c = CHR '','' then (tokenArraySeparator, True, cs)
      else if c = CHR '':'' then (tokenMemberSeparator, True, cs)
      else if c = NUL then (tokenEndOfStream, True, cs)
      else (tokenError, False, cs))"

definition readToken :: "reader \<Rightarrow> json_token \<times> reader" where
  "readToken r =
     (let start = skipSpaces (rd_current r);
          (c, cs) = getNextChar start;
          (type, ok, cs') = token_rest c cs
      in (\<lparr>tok_type = (if ok then type else tokenError), tok_start = start, tok_end = cs'\<rparr>,
          r\<lparr>rd_current := cs'\<rparr>))"

lemma length_dropWhile [simp]: "length (dropWhile P xs) \<le> length xs"
  by (induction xs) auto

lemma length_c_style: "length (c_style cs) \<le> length cs"
  by (induction cs) auto

lemma length_cpp_style: "length (readCppStyleComment cs) \<le> length cs"
  by (induction cs) auto

lemma length_read_string: "length (snd (read_string c cs)) \<le> length cs"
proof (induction c cs rule: read_string.induct)
  case (2 c x xs)
  show ?case
  proof (cases "x = BACKSLASH")
    case True
    then show ?thesis
      using 2(1) by (cases xs) (simp_all add: le_SucI)
  next
    case False
    then show ?thesis
      using 2(2) by (cases "x = QUOTE") (simp_all add: le_SucI)
  qed
qed simp

lemma length_getNextChar: "length (snd (getNextChar cs)) = length cs - 1"
  by (simp add: getNextChar_def split: list.splits)

lemma length_match: "length (snd (match p cs)) \<le> length cs"
  by (simp add: match_def)

lemma length_readComment: "length (snd (readComment cs)) \<le> length cs"
  using length_getNextChar[of cs] length_c_style[of "snd (getNextChar cs)"]
    length_cpp_style[of "snd (getNextChar cs)"]
    length_getNextChar[of "c_style (snd (getNextChar cs))"]
  by (auto simp: readComment_def readCStyleComment_def Let_def split: prod.splits if_splits)

lemma length_readString: "length (snd (readString cs)) \<le> length cs"
  using length_read_string[of NUL cs] by (simp add: readString_def split_def Let_def)

lemma length_token_rest: "length (snd (snd (token_rest c cs))) \<le> length cs"
  by (simp add: token_rest_def readNumber_def length_readString length_readComment length_match)

lemma token_rest_NUL: "token_rest NUL cs = (tokenEndOfStream, True, cs)"
  by (simp add: token_rest_def is_digit_def)

definition token_parts :: "string \<Rightarrow> token_type \<times> bool \<times> string" where
  "token_parts cs = (let start = skipSpaces cs in token_rest (fst (getNextChar start)) (snd (getNextChar start)))"

lemma readToken_eq:
  "readToken r =
     (\<lparr>tok_type = (if fst (snd (token_parts (rd_current r))) then fst (token_parts (rd_current r)) else tokenError),
       tok_start = skipSpaces (rd_current r), tok_end = snd (snd (token_parts (rd_current r)))\<rparr>,
      r\<lparr>rd_current := snd (snd (token_parts (rd_current r)))\<rparr>)"
  by (simp add: readToken_def token_parts_def Let_def split_def)

lemma token_parts_shrinks:
  "length (snd (snd (token_parts cs))) \<le> length cs"
  "token_parts cs = (tokenEndOfStream, True, []) \<or> length (snd (snd (token_parts cs))) < length cs"
proof -
  define s where "s = skipSpaces cs"
  have s: "length s \<le> length cs"
    by (simp add: s_def skipSpaces_def)
  have rest: "length (snd (snd (token_parts cs))) \<le> length s - 1"
    using length_token_rest[of "fst (getNextChar s)" "snd (getNextChar s)"]
    by (simp add: token_parts_def s_def[symmetric] length_getNextChar)
  then show "length (snd (snd (token_parts cs))) \<le> length cs"
    using s by linarith
  show "token_parts cs = (tokenEndOfStream, True, []) \<or> length (snd (snd (token_parts cs))) < length cs"
  proof (cases "s = []")
    case True
    then show ?thesis
      by (simp add: token_parts_def s_def[symmetric] getNextChar_def token_rest_NUL)
  next
    case False
    then show ?thesis
      using rest s by (cases s) auto
  qed
qed

text \<open>A token that is not the end of the stream takes at least one character.\<close>

lemma readToken_shrinks:
  assumes "readToken r = (t, r')"
  shows "length (rd_current r') \<le> length (rd_current r)"
    and "tok_type t \<noteq> tokenEndOfStream \<Longrightarrow> length (rd_current r') < length (rd_current r)"
    and "rd_document r' = rd_document r" and "rd_errors r' = rd_errors r"
  using assms token_parts_shrinks[of "rd_current r"] by (auto simp: readToken_eq)

function skipCommentTokens :: "reader \<Rightarrow> json_token \<times> reader" where
  "skipCommentTokens r =
     (if tok_type (fst (readToken r)) = tokenComment then skipCommentTokens (snd (readToken r))
      else readToken r)"
  by pat_completeness auto
termination
  by (relation "measure (\<lambda>r. length (rd_current r))")
    (use readToken_shrinks(2)[OF prod.collapse[symmetric]] in fastforce)+

declare skipCommentTokens.simps [simp del]

section \<open>Errors\<close>

definition addError :: "string \<Rightarrow> json_token \<Rightarrow> string option \<Rightarrow> reader \<Rightarrow> reader" where
  "addError message t extra r =
     r\<lparr>rd_errors := rd_errors r @ [\<lparr>ei_token = t, ei_message = message, ei_extra = extra\<rparr>]\<rparr>"

text \<open>Reading a token never reports an error, so cutting \<open>errors_\<close> back to its size changes nothing.\<close>

function recoverFromError :: "token_type \<Rightarrow> reader \<Rightarrow> reader" where
  "recoverFromError until r =
     (if tok_type (fst (readToken r)) = until \<or> tok_type (fst (readToken r)) = tokenEndOfStream
      then snd (readToken r) else recoverFromError until (snd (readToken r)))"
  by pat_completeness auto
termination
  by (relation "measure (\<lambda>(_, r). length (rd_current r))")
    (use readToken_shrinks(2)[OF prod.collapse[symmetric]] in fastforce)+

declare recoverFromError.simps [simp del]

definition addErrorAndRecover :: "string \<Rightarrow> json_token \<Rightarrow> token_type \<Rightarrow> reader \<Rightarrow> reader" where
  "addErrorAndRecover message t until r = recoverFromError until (addError message t None r)"

text \<open>\<^verbatim>\<open>getLocationLineAndColumn\<close>: \<open>pos\<close> and \<open>line_start\<close> are the offsets of \<open>current\<close> and
  \<open>lastLineStart\<close>; a carriage return takes the line feed behind it along.\<close>

fun count_lines :: "int \<Rightarrow> int \<Rightarrow> int \<Rightarrow> int \<Rightarrow> string \<Rightarrow> int \<times> int" where
  "count_lines loc pos line_start line [] = (line, line_start)"
| "count_lines loc pos line_start line (c # cs) =
     (if loc \<le> pos then (line, line_start)
      else if c = CR then
        (case cs of
           [] \<Rightarrow> count_lines loc (pos + 1) (pos + 1) (line + 1) []
         | d # ds \<Rightarrow> if d = NL then count_lines loc (pos + 2) (pos + 2) (line + 1) ds
                   else count_lines loc (pos + 1) (pos + 1) (line + 1) (d # ds))
      else if c = NL then count_lines loc (pos + 1) (pos + 1) (line + 1) cs
      else count_lines loc (pos + 1) line_start line cs)"

definition getLocationLineAndColumn :: "string \<Rightarrow> reader \<Rightarrow> int \<times> int" where
  "getLocationLineAndColumn location r =
     (let loc = int (length (rd_document r)) - int (length location);
          (line, line_start) = count_lines loc 0 0 0 (rd_document r)
      in (line + 1, loc - line_start + 1))"

definition location_text :: "string \<Rightarrow> reader \<Rightarrow> string" where
  "location_text location r =
     (let (line, column) = getLocationLineAndColumn location r
      in ''Line '' @ show_int line @ '', Column '' @ show_int column)"

definition error_text :: "reader \<Rightarrow> error_info \<Rightarrow> string" where
  "error_text r e =
     ''* '' @ location_text (tok_start (ei_token e)) r @ [NL] @ ''  '' @ ei_message e @ [NL] @
     (case ei_extra e of None \<Rightarrow> []
        | Some location \<Rightarrow> ''See '' @ location_text location r @ '' for detail.'' @ [NL])"

definition getFormatedErrorMessages :: "reader \<Rightarrow> string" where
  "getFormatedErrorMessages r = concat (map (error_text r) (rd_errors r))"

section \<open>Numbers\<close>

text \<open>\<^verbatim>\<open>decodeDouble\<close>: \<open>lf\<close> is what \<^verbatim>\<open>sscanf\<close> reads. The buffer has 32 bytes and takes tokens of up to 32
  characters, so a token of exactly 32 has its terminating zero stored behind the buffer.\<close>

definition not_a_number :: "json_token \<Rightarrow> reader \<Rightarrow> reader" where
  "not_a_number t r = addError (CHR 0x27 # tok_text t @ CHR 0x27 # '' is not a number.'') t None r"

definition decodeDouble ::
  "(string \<Rightarrow> double option) \<Rightarrow> json_token \<Rightarrow> json \<Rightarrow> reader \<Rightarrow> (bool \<times> json \<times> reader) result" where
  "decodeDouble lf t old r =
     (if length (tok_text t) = 32 then Inl Undefined
      else case lf (tok_text t) of
             None \<Rightarrow> Inr (False, old, not_a_number t r)
           | Some d \<Rightarrow> Inr (True, realValue d, r))"

text \<open>The digits of an integer: \<open>None\<close> for a character that is none, \<open>Some None\<close> when the number has to be
  read as a double.\<close>

fun digits_value :: "u64 \<Rightarrow> u64 \<Rightarrow> string \<Rightarrow> u64 option option" where
  "digits_value threshold v [] = Some (Some v)"
| "digits_value threshold v (c # cs) =
     (if \<not> is_digit c then None
      else if threshold \<le> v then Some None
      else digits_value threshold (v * 10 + of_nat (digit_value c)) cs)"

definition is_double_text :: "string \<Rightarrow> bool" where
  "is_double_text text \<longleftrightarrow> (\<exists>c \<in> set text. c \<in> set ''.eE+'') \<or> CHR ''-'' \<in> set (tl text)"

definition decodeNumber ::
  "(string \<Rightarrow> double option) \<Rightarrow> json_token \<Rightarrow> json \<Rightarrow> reader \<Rightarrow> (bool \<times> json \<times> reader) result" where
  "decodeNumber lf t old r =
     (let text = tok_text t;
          isNegative = (peek text = CHR ''-'');
          threshold = (if isNegative then (scast (- minInt) :: u64) else maxUInt) div 10
      in if is_double_text text then decodeDouble lf t old r
         else case digits_value threshold 0 (if isNegative then tl text else text) of
                None \<Rightarrow> Inr (False, old, not_a_number t r)
              | Some None \<Rightarrow> decodeDouble lf t old r
              | Some (Some v) \<Rightarrow>
                  Inr (True,
                       if isNegative then intValue (- ucast v)
                       else if v \<le> scast maxInt then intValue (ucast v) else uintValue v, r))"

section \<open>Strings\<close>

definition hex_value :: "char \<Rightarrow> nat option" where
  "hex_value c =
     (if is_digit c then Some (digit_value c)
      else if c \<in> set ''abcdef'' then Some (of_char c - of_char CHR ''a'' + 10)
      else if c \<in> set ''ABCDEF'' then Some (of_char c - of_char CHR ''A'' + 10)
      else None)"

text \<open>\<^verbatim>\<open>decodeUnicodeEscapeSequence\<close> on the characters up to the closing quote: the message of the error and
  what is left, or what is left. The number it computes is not used (\<^verbatim>\<open>@todo\<close> in the code).\<close>

fun hex_digits :: "nat \<Rightarrow> nat \<Rightarrow> string \<Rightarrow> (string \<times> string) + nat \<times> string" where
  "hex_digits 0 unicode cs = Inr (unicode, cs)"
| "hex_digits (Suc n) unicode [] = Inr (unicode, [])"
| "hex_digits (Suc n) unicode (c # cs) =
     (case hex_value c of
        None \<Rightarrow> Inl (''Bad unicode escape sequence in string: hexadecimal digit expected.'', cs)
      | Some d \<Rightarrow> hex_digits n (16 * unicode + d) cs)"

definition decodeUnicodeEscapeSequence :: "string \<Rightarrow> (string \<times> string) + nat \<times> string" where
  "decodeUnicodeEscapeSequence cs =
     (if length cs < 4 then Inl (''Bad unicode escape sequence in string: four digits expected.'', cs)
      else hex_digits 4 0 cs)"

definition escaped :: "char \<Rightarrow> char option" where
  "escaped c =
     (if c = QUOTE then Some QUOTE else if c = CHR ''/'' then Some (CHR ''/'')
      else if c = BACKSLASH then Some BACKSLASH else if c = CHR ''b'' then Some (CHR 0x08)
      else if c = CHR ''f'' then Some (CHR 0x0C) else if c = CHR ''n'' then Some NL
      else if c = CHR ''r'' then Some CR else if c = CHR ''t'' then Some TAB else None)"

lemma length_hex_digits: "hex_digits n u cs = Inr (v, rest) \<Longrightarrow> length rest \<le> length cs"
  by (induction n u cs rule: hex_digits.induct) (auto split: option.splits)

lemma length_decodeUnicode: "decodeUnicodeEscapeSequence cs = Inr (v, rest) \<Longrightarrow> length rest \<le> length cs"
  by (auto simp: decodeUnicodeEscapeSequence_def dest: length_hex_digits split: if_splits)

text \<open>The characters between the quotes: an error with what is left, or the decoded string. After \<open>\u\<close> the
  four digits are read and nothing is added.\<close>

function decode_chars :: "string \<Rightarrow> string \<Rightarrow> (string \<times> string) + string" where
  "decode_chars acc [] = Inr acc"
| "decode_chars acc (c # cs) =
     (if c = QUOTE then Inr acc
      else if c = BACKSLASH then
        (case cs of
           [] \<Rightarrow> Inl (''Empty escape sequence in string'', [])
         | e # es \<Rightarrow>
             (case escaped e of
                Some d \<Rightarrow> decode_chars (acc @ [d]) es
              | None \<Rightarrow>
                  if e = CHR ''u'' then
                    (case decodeUnicodeEscapeSequence es of
                       Inl x \<Rightarrow> Inl x | Inr (_, rest) \<Rightarrow> decode_chars acc rest)
                  else Inl (''Bad escape sequence in string'', es)))
      else decode_chars (acc @ [c]) cs)"
  by pat_completeness auto
termination
  by (relation "measure (\<lambda>(_, cs). length cs)") (auto dest!: length_decodeUnicode)

definition decode_string :: "json_token \<Rightarrow> reader \<Rightarrow> string option \<times> reader" where
  "decode_string t r =
     (case decode_chars [] (butlast (tl (tok_text t))) of
        Inl (message, rest) \<Rightarrow> (None, addError message t (Some (rest @ QUOTE # tok_end t)) r)
      | Inr s \<Rightarrow> (Some s, r))"

definition decodeString :: "json_token \<Rightarrow> json \<Rightarrow> reader \<Rightarrow> bool \<times> json \<times> reader" where
  "decodeString t old r =
     (case decode_string t r of
        (None, r') \<Rightarrow> (False, old, r') | (Some s, r') \<Rightarrow> (True, Value_string s, r'))"

section \<open>Values, objects and arrays\<close>

definition run_bind :: "'a result option \<Rightarrow> ('a \<Rightarrow> 'b result option) \<Rightarrow> 'b result option" where
  "run_bind m f = (case m of None \<Rightarrow> None | Some (Inl e) \<Rightarrow> Some (Inl e) | Some (Inr a) \<Rightarrow> f a)"

definition object_slot :: "string \<Rightarrow> json \<Rightarrow> json" where
  "object_slot key v = (case v of objectValue m \<Rightarrow> slot (c_str key) m | _ \<Rightarrow> nullValue)"

definition array_slot :: "u64 \<Rightarrow> json \<Rightarrow> json" where
  "array_slot i v = (case v of arrayValue m \<Rightarrow> slot (CZ_index i) m | _ \<Rightarrow> nullValue)"

text \<open>The recursive descent. The argument \<open>n\<close> bounds the number of calls, \<open>None\<close> is more calls than
  that. \<open>old\<close> is the value the reference points to before. \<open>read_members\<close> is the loop of
  \<^verbatim>\<open>readObject\<close>, with the last member name, \<open>read_elements\<close> that of \<^verbatim>\<open>readArray\<close>, with the index.\<close>

fun readValue :: "(string \<Rightarrow> double option) \<Rightarrow> nat \<Rightarrow> json \<Rightarrow> reader \<Rightarrow> (bool \<times> json \<times> reader) result option"
and read_members ::
  "(string \<Rightarrow> double option) \<Rightarrow> nat \<Rightarrow> string \<Rightarrow> json \<Rightarrow> reader \<Rightarrow> (bool \<times> json \<times> reader) result option"
and read_elements ::
  "(string \<Rightarrow> double option) \<Rightarrow> nat \<Rightarrow> u32 \<Rightarrow> json \<Rightarrow> reader \<Rightarrow> (bool \<times> json \<times> reader) result option"
where
  "readValue lf 0 old r = None"
| "readValue lf (Suc n) old r =
     (let (t, r1) = skipCommentTokens r
      in case tok_type t of
           tokenObjectBegin \<Rightarrow> read_members lf n [] (objectValue []) r1
         | tokenArrayBegin \<Rightarrow>
             (let r2 = r1\<lparr>rd_current := skipSpaces (rd_current r1)\<rparr>
              in if peek (rd_current r2) = CHR '']''
                 then Some (Inr (True, arrayValue [], snd (readToken r2)))
                 else read_elements lf n 0 (arrayValue []) r2)
         | tokenNumber \<Rightarrow> Some (decodeNumber lf t old r1)
         | tokenString \<Rightarrow> Some (Inr (decodeString t old r1))
         | tokenTrue \<Rightarrow> Some (Inr (True, booleanValue True, r1))
         | tokenFalse \<Rightarrow> Some (Inr (True, booleanValue False, r1))
         | tokenNull \<Rightarrow> Some (Inr (True, nullValue, r1))
         | _ \<Rightarrow> Some (Inr (False, old,
                  addError ''Syntax error: value, object or array expected.'' t None r1)))"
| "read_members lf 0 name obj r = None"
| "read_members lf (Suc n) name obj r =
     (let (t, r1) = skipCommentTokens r
      in if tok_type t = tokenObjectEnd \<and> name = [] then Some (Inr (True, obj, r1))
         else if tok_type t \<noteq> tokenString
         then Some (Inr (False, obj,
                addErrorAndRecover ''Missing '}' or object member name'' t tokenObjectEnd r1))
         else case decode_string t r1 of
                (None, r2) \<Rightarrow> Some (Inr (False, obj, recoverFromError tokenObjectEnd r2))
              | (Some name', r2) \<Rightarrow>
                  (let (colon, r3) = readToken r2
                   in if tok_type colon \<noteq> tokenMemberSeparator
                      then Some (Inr (False, obj,
                             addErrorAndRecover ''Missing ':' after object member name'' colon
                               tokenObjectEnd r3))
                      else run_bind (readValue lf n (object_slot name' obj) r3) (\<lambda>(ok, x, r4).
                             run_bind (Some (set_member name' x obj)) (\<lambda>obj'.
                               if \<not> ok
                               then Some (Inr (False, obj', recoverFromError tokenObjectEnd r4))
                               else let (comma, r5) = readToken r4
                                    in if tok_type comma = tokenObjectEnd then Some (Inr (True, obj', r5))
                                       else if tok_type comma = tokenArraySeparator
                                       then read_members lf n name' obj' r5
                                       else Some (Inr (False, obj',
                                              addErrorAndRecover
                                                ''Missing ',' or '}' in object declaration'' comma
                                                tokenObjectEnd r5))))))"
| "read_elements lf 0 index arr r = None"
| "read_elements lf (Suc n) index arr r =
     run_bind (readValue lf n (array_slot (scast index) arr) r) (\<lambda>(ok, x, r1).
       run_bind (Some (set_at (scast index) x arr)) (\<lambda>arr'.
         if \<not> ok then Some (Inr (False, arr', recoverFromError tokenArrayEnd r1))
         else let (t, r2) = readToken r1
              in if tok_type t = tokenArrayEnd then Some (Inr (True, arr', r2))
                 else if tok_type t = tokenArraySeparator then read_elements lf n (index + 1) arr' r2
                 else Some (Inr (False, arr',
                        addErrorAndRecover ''Missing ',' or ']' in array declaration'' t
                          tokenArrayEnd r2))))"

text \<open>\<^verbatim>\<open>parse\<close>: what follows the value is looked at for comments only and may be anything.\<close>

definition reader_of :: "string \<Rightarrow> reader" where
  "reader_of document = \<lparr>rd_document = document, rd_current = document, rd_errors = []\<rparr>"

definition reader_parse ::
  "(string \<Rightarrow> double option) \<Rightarrow> nat \<Rightarrow> string \<Rightarrow> json \<Rightarrow> (bool \<times> json \<times> reader) result option" where
  "reader_parse lf n document tree =
     run_bind (readValue lf n tree (reader_of document)) (\<lambda>(ok, tree', r).
       Some (Inr (ok, tree', snd (skipCommentTokens r))))"

end
