(* ===== verification/JsonWriter.thy ===== *)
theory JsonWriter
  imports Json
begin

text \<open>
  The writers of \<^verbatim>\<open>src/json/json_writer.cpp\<close> that the configurator uses: the texts of numbers and strings,
  and \<^verbatim>\<open>StyledWriter\<close>, which writes an array on one line when it is short and has no members of its own
  and everything else over several lines. Comments are not written, as the tree has none. \<^verbatim>\<open>sprintf("%.16g")\<close>
  is the parameter \<open>g\<close>.
\<close>

section \<open>Numbers and strings\<close>

text \<open>\<^verbatim>\<open>uintToString\<close> takes an \<^verbatim>\<open>unsigned int\<close>: of a 64-bit number it writes the lower half.\<close>

definition uintToString :: "u32 \<Rightarrow> string" where
  "uintToString v = decimal (unat v)"

definition valueToString_Int :: "u32 \<Rightarrow> string" where
  "valueToString_Int v =
     (if sint v < 0 then CHR ''-'' # uintToString (- v) else uintToString v)"

definition valueToString_UInt :: "u64 \<Rightarrow> string" where
  "valueToString_UInt v = uintToString (ucast v)"

definition valueToString_bool :: "bool \<Rightarrow> string" where
  "valueToString_bool b = (if b then ''true'' else ''false'')"

definition valueToQuotedString :: "string \<Rightarrow> string" where
  "valueToQuotedString s = CHR 0x22 # s @ [CHR 0x22]"

section \<open>The styled writer\<close>

record styled_writer =
  sw_document :: string
  sw_indentString :: string
  sw_childValues :: "string list"
  sw_addChildValues :: bool

definition StyledWriter :: styled_writer where
  "StyledWriter = \<lparr>sw_document = [], sw_indentString = [], sw_childValues = [], sw_addChildValues = False\<rparr>"

definition rightMargin :: int where
  "rightMargin = 74"

definition indentSize :: nat where
  "indentSize = 3"

definition put :: "string \<Rightarrow> styled_writer \<Rightarrow> styled_writer" where
  "put s w = w\<lparr>sw_document := sw_document w @ s\<rparr>"

definition pushValue :: "string \<Rightarrow> styled_writer \<Rightarrow> styled_writer" where
  "pushValue s w =
     (if sw_addChildValues w then w\<lparr>sw_childValues := sw_childValues w @ [s]\<rparr> else put s w)"

definition writeIndent :: "styled_writer \<Rightarrow> styled_writer" where
  "writeIndent w =
     (if sw_document w = [] then put (sw_indentString w) w
      else if last (sw_document w) = CHR '' '' then w
      else if last (sw_document w) \<noteq> CHR 0x0A then put (CHR 0x0A # sw_indentString w) w
      else put (sw_indentString w) w)"

definition writeWithIndent :: "string \<Rightarrow> styled_writer \<Rightarrow> styled_writer" where
  "writeWithIndent s w = put s (writeIndent w)"

definition indent :: "styled_writer \<Rightarrow> styled_writer" where
  "indent w = w\<lparr>sw_indentString := sw_indentString w @ replicate indentSize CHR '' ''\<rparr>"

definition unindent :: "styled_writer \<Rightarrow> styled_writer" where
  "unindent w =
     w\<lparr>sw_indentString := take (length (sw_indentString w) - indentSize) (sw_indentString w)\<rparr>"

text \<open>The elements \<open>value[0]\<close>, \<open>value[1]\<close>, ... up to the size of an array; what is missing is null.\<close>

definition elements :: "json \<Rightarrow> json list" where
  "elements v =
     (case v of arrayValue m \<Rightarrow> map (\<lambda>i. slot (CZ_index (of_nat i)) m) [0..<unat (ucast (json_size v) :: u32)]
        | _ \<Rightarrow> [])"

definition short_child :: "json \<Rightarrow> bool" where
  "short_child v \<longleftrightarrow> \<not> ((isArray v \<or> isObject v) \<and> 0 < json_size v)"

fun join :: "string list \<Rightarrow> string" where
  "join [] = []"
| "join [s] = s"
| "join (s # t # ss) = s @ '', '' @ join (t # ss)"

lemma size_slot: "m \<noteq> [] \<Longrightarrow> size (slot k m) < size (arrayValue m)"
proof -
  assume "m \<noteq> []"
  show ?thesis
  proof (cases "map_of m k")
    case None
    then show ?thesis by (simp add: slot_def)
  next
    case (Some x)
    then have "(k, x) \<in> set m"
      by (rule map_of_SomeD)
    then have "size x < Suc (size_list (size_prod (\<lambda>_. 0) size) m)"
      using size_list_estimation[of "(k, x)" m "size x" "size_prod (\<lambda>_. 0) size"] by (simp add: less_Suc_eq)
    with Some show ?thesis by (simp add: slot_def)
  qed
qed

lemma size_elements: "x \<in> set (elements (arrayValue m)) \<Longrightarrow> size x < size (arrayValue m)"
  by (cases "m = []") (auto simp: elements_def json_size_def intro: size_slot simp del: json.size)

lemma size_member: "(k, x) \<in> set m \<Longrightarrow> size x < size (objectValue m)"
  using size_list_estimation[of "(k, x)" m "size x" "size_prod (\<lambda>_. 0) size"] by (simp add: less_Suc_eq)

lemma size_element_nth:
  "i < length (elements (arrayValue m)) \<Longrightarrow> size (elements (arrayValue m) ! i) < size (arrayValue m)"
  by (rule size_elements) (rule nth_mem)

lemma size_member_nth: "i < length m \<Longrightarrow> m ! i = (k, x) \<Longrightarrow> size x < size (objectValue m)"
  by (metis nth_mem size_member)

text \<open>\<^verbatim>\<open>writeValue\<close> with \<^verbatim>\<open>writeArrayValue\<close> and \<^verbatim>\<open>isMultineArray\<close> in it. \<open>line_of\<close> is the part of
  \<^verbatim>\<open>isMultineArray\<close> behind its first loop: the children are written into \<open>childValues\<close> and their length
  decides. A comma follows every element and member but the last.\<close>

function writeValue :: "(double \<Rightarrow> string) \<Rightarrow> json \<Rightarrow> styled_writer \<Rightarrow> styled_writer" where
  "writeValue g nullValue w = pushValue ''null'' w"
| "writeValue g (intValue i) w = pushValue (valueToString_Int i) w"
| "writeValue g (uintValue u) w = pushValue (valueToString_UInt u) w"
| "writeValue g (realValue d) w = pushValue (g d) w"
| "writeValue g (stringValue s) w = pushValue (valueToQuotedString s) w"
| "writeValue g (booleanValue b) w = pushValue (valueToString_bool b) w"
| "writeValue g (arrayValue m) w =
     (let vs = elements (arrayValue m);
          size = int (length vs);
          w0 = w\<lparr>sw_childValues := []\<rparr>;
          long = (rightMargin \<le> size * 3 \<or> \<not> list_all short_child vs);
          w1 = (if long then w0
                else (fold (writeValue g) vs (w0\<lparr>sw_addChildValues := True\<rparr>))\<lparr>sw_addChildValues := False\<rparr>);
          lineLength = 4 + (size - 1) * 2 + sum_list (map (int \<circ> length) (sw_childValues w1));
          multi = (long \<or> rightMargin \<le> lineLength)
      in if vs = [] then pushValue ''[]'' w
         else if \<not> multi then put (''[ '' @ join (sw_childValues w1) @ '' ]'') w1
         else let w2 = indent (writeWithIndent ''['' w1);
                  hasChildValue = (sw_childValues w2 \<noteq> []);
                  w3 = fold (\<lambda>(i, x) w'.
                         let w'' = (if hasChildValue then writeWithIndent (sw_childValues w' ! i) w'
                                    else writeValue g x (writeIndent w'))
                         in if Suc i = length vs then w'' else put '','' w'') (enumerate 0 vs) w2
              in writeWithIndent '']'' (unindent w3))"
| "writeValue g (objectValue m) w =
     (if m = [] then pushValue ''{}'' w
      else let w1 = indent (writeWithIndent ''{'' w);
               w2 = fold (\<lambda>(i, k, x) w'.
                      let w'' = writeValue g x (put '' : '' (writeWithIndent (valueToQuotedString k) w'))
                      in if Suc i = length m then w'' else put '','' w'') (enumerate 0 m) w1
           in writeWithIndent ''}'' (unindent w2))"
  by pat_completeness auto
termination
  by (relation "measure (\<lambda>(_, v, _). size v)")
    (auto simp del: json.size dest!: in_set_enumerate_eq[THEN iffD1] intro: size_elements size_element_nth size_member_nth)

definition writer_write :: "(double \<Rightarrow> string) \<Rightarrow> json \<Rightarrow> string" where
  "writer_write g v = sw_document (writeValue g v StyledWriter) @ [CHR 0x0A]"

end
