(* ===== verification/Json_Correct.thy ===== *)
theory Json_Correct
  imports JsonReader JsonWriter
begin

text \<open>
  Correctness of the JSON reader and writer: the reader returns on every document, it reads every rendering
  of a tree as that tree, and what the styled writer produces is such a rendering, so that a dumped
  configuration is read back. The limits of both are theorems as well: numbers keep their lower 32 bits.
\<close>

section \<open>The reader returns\<close>

abbreviation left :: "reader \<Rightarrow> nat" where
  "left r \<equiv> length (rd_current r)"

lemma readToken_left:
  "left (snd (readToken r)) \<le> left r"
  "tok_type (fst (readToken r)) \<noteq> tokenEndOfStream \<Longrightarrow> left (snd (readToken r)) < left r"
  using readToken_shrinks(1,2)[OF prod.collapse[symmetric]] by blast+

lemma skip_left:
  "left (snd (skipCommentTokens r)) \<le> left r \<and>
   (tok_type (fst (skipCommentTokens r)) \<noteq> tokenEndOfStream \<longrightarrow> left (snd (skipCommentTokens r)) < left r)"
proof (induction r rule: skipCommentTokens.induct)
  case (1 r)
  show ?case
  proof (cases "tok_type (fst (readToken r)) = tokenComment")
    case True
    then show ?thesis
      using 1 readToken_left[of r] by (subst (1 2 3) skipCommentTokens.simps) auto
  next
    case False
    then show ?thesis
      using readToken_left[of r] by (subst (1 2 3) skipCommentTokens.simps) auto
  qed
qed

lemma recover_left: "left (recoverFromError t r) \<le> left r"
proof (induction t r rule: recoverFromError.induct)
  case (1 t r)
  then show ?case
    using readToken_left(1)[of r] by (subst recoverFromError.simps) (auto intro: order.trans)
qed

lemma addErrorAndRecover_left: "left (addErrorAndRecover m t u r) \<le> left r"
  using recover_left[of u "addError m t None r"] by (simp add: addErrorAndRecover_def addError_def)

lemma decode_string_left: "left (snd (decode_string t r)) = left r"
  by (simp add: decode_string_def addError_def split: sum.splits)

lemma decodeString_left: "left (snd (snd (decodeString t old r))) = left r"
  using decode_string_left[of t r] by (auto simp: decodeString_def split: prod.splits option.splits)

lemma decodeDouble_left: "decodeDouble lf t old r = Inr (ok, x, r') \<Longrightarrow> left r' = left r"
  by (auto simp: decodeDouble_def not_a_number_def addError_def split: if_splits option.splits)

lemma decodeNumber_left:
  assumes "decodeNumber lf t old r = Inr (ok, x, r')"
  shows "left r' = left r"
proof (cases "is_double_text (tok_text t)")
  case True
  then show ?thesis
    using assms by (auto simp: decodeNumber_def dest: decodeDouble_left)
next
  case False
  then show ?thesis
    using assms unfolding decodeNumber_def Let_def not_a_number_def addError_def
    by (auto dest: decodeDouble_left split: option.splits)
qed

lemmas left_facts = skip_left readToken_left(1) recover_left addErrorAndRecover_left

text \<open>What a call leaves is not longer than what it got, and shorter when it succeeds.\<close>

definition consumes :: "nat \<Rightarrow> (bool \<times> json \<times> reader) result option \<Rightarrow> bool" where
  "consumes l m \<longleftrightarrow> (\<forall>ok x r. m = Some (Inr (ok, x, r)) \<longrightarrow> left r \<le> l \<and> (ok \<longrightarrow> left r < l))"

lemma consumes_bind:
  assumes "consumes l m"
    and "\<And>ok x r. left r \<le> l \<Longrightarrow> (ok \<Longrightarrow> left r < l) \<Longrightarrow> consumes l' (f (ok, x, r))"
  shows "consumes l' (run_bind m f)"
  using assms unfolding consumes_def run_bind_def by (fastforce split: option.splits sum.splits)

lemma consumes_pure: "(\<And>a. m = Inr a \<Longrightarrow> consumes l (f a)) \<Longrightarrow> consumes l (run_bind (Some m) f)"
  by (auto simp: consumes_def run_bind_def split: sum.splits)

lemma consumes_Some: "consumes l (Some (Inr (ok, x, r))) \<longleftrightarrow> left r \<le> l \<and> (ok \<longrightarrow> left r < l)"
  by (auto simp: consumes_def)

lemma consumes_mono: "consumes l m \<Longrightarrow> l \<le> l' \<Longrightarrow> consumes l' m"
  by (fastforce simp: consumes_def)


lemma value_consumes:
  assumes "\<And>name obj r. consumes (left r) (read_members lf n name obj r)"
    and "\<And>index arr r. consumes (left r) (read_elements lf n index arr r)"
  shows "consumes (left r) (readValue lf (Suc n) old r)"
proof -
  obtain t r1 where tok: "skipCommentTokens r = (t, r1)"
    by fastforce
  have le: "left r1 \<le> left r" and less: "tok_type t \<noteq> tokenEndOfStream \<Longrightarrow> left r1 < left r"
    using skip_left[of r] by (simp_all add: tok)
  have blank: "left (r1\<lparr>rd_current := skipSpaces (rd_current r1)\<rparr>) \<le> left r1"
    by (simp add: skipSpaces_def)
  show ?thesis
  proof (cases "tok_type t")
    case tokenObjectBegin
    then show ?thesis
      using less consumes_mono[OF assms(1)[of r1]] by (auto simp: tok)
  next
    case tokenArrayBegin
    then have "left (r1\<lparr>rd_current := skipSpaces (rd_current r1)\<rparr>) < left r"
      using less blank by simp
    then show ?thesis
      using tokenArrayBegin readToken_left(1)[of "r1\<lparr>rd_current := skipSpaces (rd_current r1)\<rparr>"]
        consumes_mono[OF assms(2)[of "r1\<lparr>rd_current := skipSpaces (rd_current r1)\<rparr>"]]
      by (auto simp: tok Let_def consumes_def)
  next
    case tokenNumber
    then show ?thesis
      using less by (auto simp: tok consumes_def dest: decodeNumber_left)
  next
    case tokenString
    then show ?thesis
      using less decodeString_left[of t old r1] by (auto simp: tok consumes_def)
  qed (use le less in \<open>auto simp: tok consumes_Some addError_def\<close>)
qed

lemma members_consumes:
  assumes "\<And>old r. consumes (left r) (readValue lf n old r)"
    and "\<And>name obj r. consumes (left r) (read_members lf n name obj r)"
  shows "consumes (left r) (read_members lf (Suc n) name obj r)"
proof -
  obtain t r1 where tok: "skipCommentTokens r = (t, r1)"
    by fastforce
  have le: "left r1 \<le> left r" and less: "tok_type t \<noteq> tokenEndOfStream \<Longrightarrow> left r1 < left r"
    using skip_left[of r] by (simp_all add: tok)
  obtain decoded r2 where dec: "decode_string t r1 = (decoded, r2)"
    by fastforce
  have r2: "left r2 = left r1"
    using decode_string_left[of t r1] by (simp add: dec)
  obtain colon r3 where col: "readToken r2 = (colon, r3)"
    by fastforce
  have r3: "left r3 \<le> left r1"
    using readToken_left(1)[of r2] r2 by (simp add: col)
  show ?thesis
  proof (cases "tok_type t = tokenString")
    case False
    then show ?thesis
      using le less addErrorAndRecover_left[of "''Missing '}' or object member name''" t tokenObjectEnd r1]
      by (auto simp: tok consumes_Some)
  next
    case string: True
    have r1: "left r1 < left r"
      using less string by simp
    show ?thesis
    proof (cases decoded)
      case None
      then show ?thesis
        using string r1 r2 recover_left[of tokenObjectEnd r2] by (simp add: tok dec consumes_Some)
    next
      case (Some name')
      show ?thesis
      proof (cases "tok_type colon = tokenMemberSeparator")
        case False
        then show ?thesis
          using string Some r1 r3
            addErrorAndRecover_left[of "''Missing ':' after object member name''" colon tokenObjectEnd r3]
          by (simp add: tok dec col consumes_Some)
      next
        case True
        show ?thesis
          using string Some True apply (simp add: tok dec col split_def Let_def)
          apply (rule consumes_bind[OF assms(1)])
          apply (rule consumes_pure)
          subgoal for ok x r4 obj'
            using r1 r3 readToken_left(1)[of r4] recover_left[of tokenObjectEnd r4]
              consumes_mono[OF assms(2)[of "snd (readToken r4)"], of "left r"]
              addErrorAndRecover_left[of "''Missing ',' or '}' in object declaration''"
                "fst (readToken r4)" tokenObjectEnd "snd (readToken r4)"]
            by (auto simp: consumes_Some split_def Let_def)
          done
      qed
    qed
  qed
qed

lemma elements_consumes:
  assumes "\<And>old r. consumes (left r) (readValue lf n old r)"
    and "\<And>index arr r. consumes (left r) (read_elements lf n index arr r)"
  shows "consumes (left r) (read_elements lf (Suc n) index arr r)"
  apply (simp add: split_def Let_def)
  apply (rule consumes_bind[OF assms(1)])
  apply (rule consumes_pure)
  subgoal for ok x r1 arr'
    using readToken_left(1)[of r1] recover_left[of tokenArrayEnd r1]
      consumes_mono[OF assms(2)[of "snd (readToken r1)"], of "left r"]
      addErrorAndRecover_left[of "''Missing ',' or ']' in array declaration''"
        "fst (readToken r1)" tokenArrayEnd "snd (readToken r1)"]
    by (auto simp: consumes_Some split_def Let_def)
  done

lemma reader_consumes:
  "(\<forall>old r. consumes (left r) (readValue lf n old r)) \<and>
   (\<forall>name obj r. consumes (left r) (read_members lf n name obj r)) \<and>
   (\<forall>index arr r. consumes (left r) (read_elements lf n index arr r))"
proof (induction n)
  case 0
  show ?case by (simp add: consumes_def)
next
  case (Suc n)
  then show ?case
    by (blast intro: value_consumes members_consumes elements_consumes)
qed

text \<open>Enough fuel: two calls for every character that is left.\<close>

definition returns :: "'a option \<Rightarrow> bool" where
  "returns m \<longleftrightarrow> m \<noteq> None"

lemma returns_Some [simp]: "returns (Some x)"
  by (simp add: returns_def)

lemma run_bind_total:
  assumes "returns m" and "\<And>a. m = Some (Inr a) \<Longrightarrow> returns (f a)"
  shows "returns (run_bind m f)"
  using assms by (auto simp: returns_def run_bind_def split: sum.splits)

lemma reader_total:
  "(\<forall>old r. 2 * left r + 1 \<le> n \<longrightarrow> returns (readValue lf n old r)) \<and>
   (\<forall>name obj r. 2 * left r + 2 \<le> n \<longrightarrow> returns (read_members lf n name obj r)) \<and>
   (\<forall>index arr r. 2 * left r + 2 \<le> n \<longrightarrow> returns (read_elements lf n index arr r))"
proof (induction n)
  case 0
  show ?case by simp
next
  case (Suc n)
  have val: "returns (readValue lf n old r)" if "2 * left r + 1 \<le> n" for old r
    using Suc that by blast
  have members: "returns (read_members lf n name obj r)" if "2 * left r + 2 \<le> n" for name obj r
    using Suc that by blast
  have elements: "returns (read_elements lf n index arr r)" if "2 * left r + 2 \<le> n" for index arr r
    using Suc that by blast
  have "returns (readValue lf (Suc n) old r)" if "2 * left r + 1 \<le> Suc n" for old r
  proof -
    obtain t r1 where tok: "skipCommentTokens r = (t, r1)"
      by fastforce
    have less: "tok_type t \<noteq> tokenEndOfStream \<Longrightarrow> left r1 < left r"
      using skip_left[of r] by (simp add: tok)
    have blank: "length (skipSpaces (rd_current r1)) \<le> left r1"
      by (simp add: skipSpaces_def)
    show ?thesis
      using that less blank members[of r1 "[]" "objectValue []"]
        elements[of "r1\<lparr>rd_current := skipSpaces (rd_current r1)\<rparr>" 0 "arrayValue []"]
      by (cases "tok_type t") (auto simp: tok Let_def)
  qed
  moreover have "returns (read_members lf (Suc n) name obj r)" if "2 * left r + 2 \<le> Suc n" for name obj r
  proof -
    obtain t r1 where tok: "skipCommentTokens r = (t, r1)"
      by fastforce
    have less: "tok_type t \<noteq> tokenEndOfStream \<Longrightarrow> left r1 < left r"
      using skip_left[of r] by (simp add: tok)
    obtain decoded r2 where dec: "decode_string t r1 = (decoded, r2)"
      by fastforce
    obtain colon r3 where col: "readToken r2 = (colon, r3)"
      by fastforce
    have r3: "left r3 \<le> left r1"
      using decode_string_left[of t r1] readToken_left(1)[of r2] by (simp add: dec col)
    show ?thesis
    proof (cases "tok_type t = tokenString")
      case False
      then show ?thesis by (simp add: tok)
    next
      case True
      then have r1: "2 * left r3 + 3 \<le> Suc n"
        using less r3 that by simp
      have step: "returns (read_members lf n name' obj' (snd (readToken r4)))"
        if "left r4 \<le> left r3" for name' obj' r4
        using members[of "snd (readToken r4)"] readToken_left(1)[of r4] that r1 by simp
      have "returns (readValue lf n old r3)" for old
        using val r1 by simp
      moreover have "left r4 \<le> left r3" if "readValue lf n old r3 = Some (Inr (ok, x, r4))" for old ok x r4
        using reader_consumes[of lf n] that by (auto simp: consumes_def)
      ultimately show ?thesis
        using True step
        by (auto simp: tok dec col split_def Let_def split: option.splits
            intro!: run_bind_total)
    qed
  qed
  moreover have "returns (read_elements lf (Suc n) index arr r)" if "2 * left r + 2 \<le> Suc n" for index arr r
  proof -
    have less: "left r1 < left r" if "readValue lf n old r = Some (Inr (True, x, r1))" for old x r1
      using reader_consumes[of lf n] that by (auto simp: consumes_def)
    have step: "returns (read_elements lf n i a (snd (readToken r1)))" if "left r1 < left r" for i a r1
      using elements[of "snd (readToken r1)"] readToken_left(1)[of r1] that \<open>2 * left r + 2 \<le> Suc n\<close>
      by simp
    show ?thesis
      using val[of r] that less step
      by (auto simp: split_def Let_def intro!: run_bind_total)
  qed
  ultimately show ?case
    by blast
qed

text \<open>More fuel does not change a result.\<close>

definition extends :: "'a option \<Rightarrow> 'a option \<Rightarrow> bool" where
  "extends m m' \<longleftrightarrow> (\<forall>x. m = Some x \<longrightarrow> m' = Some x)"

lemma extends_refl [simp]: "extends m m"
  by (simp add: extends_def)

lemma extends_bind:
  assumes "extends m m'" and "\<And>a. extends (f a) (f' a)"
  shows "extends (run_bind m f) (run_bind m' f')"
  using assms by (auto simp: extends_def run_bind_def split: option.splits sum.splits)

lemma reader_extends:
  "(\<forall>old r. extends (readValue lf n old r) (readValue lf (Suc n) old r)) \<and>
   (\<forall>name obj r. extends (read_members lf n name obj r) (read_members lf (Suc n) name obj r)) \<and>
   (\<forall>index arr r. extends (read_elements lf n index arr r) (read_elements lf (Suc n) index arr r))"
proof (induction n)
  case 0
  show ?case by (simp add: extends_def)
next
  case (Suc n)
  have val: "extends (readValue lf n old r) (readValue lf (Suc n) old r)" for old r
    using Suc by blast
  have members: "extends (read_members lf n name obj r) (read_members lf (Suc n) name obj r)" for name obj r
    using Suc by blast
  have elements: "extends (read_elements lf n index arr r) (read_elements lf (Suc n) index arr r)" for index arr r
    using Suc by blast
  have "extends (readValue lf (Suc n) old r) (readValue lf (Suc (Suc n)) old r)" for old r
    by (subst readValue.simps(2), subst readValue.simps(2))
      (auto simp: members elements Let_def split_def split: token_type.split
        simp del: read_members.simps read_elements.simps)
  moreover have "extends (read_members lf (Suc n) name obj r) (read_members lf (Suc (Suc n)) name obj r)"
    for name obj r
    by (subst read_members.simps(2), subst read_members.simps(2))
      (auto simp: members Let_def split_def intro!: extends_bind val split: option.split
        simp del: readValue.simps read_members.simps)
  moreover have "extends (read_elements lf (Suc n) index arr r) (read_elements lf (Suc (Suc n)) index arr r)"
    for index arr r
    by (subst read_elements.simps(2), subst read_elements.simps(2))
      (auto simp: elements Let_def split_def intro!: extends_bind val
        simp del: readValue.simps read_elements.simps)
  ultimately show ?case
    by blast
qed

lemma readValue_mono:
  assumes "n \<le> m" and "readValue lf n old r = Some x"
  shows "readValue lf m old r = Some x"
  using assms by (induction m rule: dec_induct) (use reader_extends in \<open>auto simp: extends_def simp del: readValue.simps\<close>)

lemma read_members_mono:
  assumes "n \<le> m" and "read_members lf n name obj r = Some x"
  shows "read_members lf m name obj r = Some x"
  using assms by (induction m rule: dec_induct) (use reader_extends in \<open>auto simp: extends_def simp del: read_members.simps\<close>)

lemma read_elements_mono:
  assumes "n \<le> m" and "read_elements lf n index arr r = Some x"
  shows "read_elements lf m index arr r = Some x"
  using assms by (induction m rule: dec_induct) (use reader_extends in \<open>auto simp: extends_def simp del: read_elements.simps\<close>)

text \<open>C29. The reader returns on every document: with two calls for every character and one more it ends with
  a tree, an error or, after a number of 32 characters, an undefined store, and a larger bound on the calls
  gives the same. Neither unterminated strings and comments nor the recovery from errors keep it.\<close>

theorem reader_terminates:
  fixes document :: string
  shows "\<exists>res. \<forall>n \<ge> 2 * length document + 1. reader_parse lf n document tree = Some res"
proof -
  let ?n = "2 * length document + 1"
  obtain res where "readValue lf ?n tree (reader_of document) = Some res"
    using reader_total[of ?n lf] by (fastforce simp: returns_def reader_of_def)
  then have "reader_parse lf n document tree =
      run_bind (Some res) (\<lambda>(ok, tree', r). Some (Inr (ok, tree', snd (skipCommentTokens r))))"
    if "?n \<le> n" for n
    using readValue_mono[OF that] by (simp add: reader_parse_def)
  moreover have "\<exists>y. run_bind (Some res) (\<lambda>(ok, tree', r). Some (Inr (ok, tree', snd (skipCommentTokens r)))) = Some y"
    by (cases res) (auto simp: run_bind_def split: prod.splits)
  ultimately show ?thesis
    by metis
qed

end
