(* ===== verification/Json_Rendering.thy ===== *)
theory Json_Rendering
  imports Json_Correct
begin

section \<open>Reading a rendering\<close>

text \<open>A rendering of a tree: any text with blanks between the tokens, numbers below \<open>2 ^ 31\<close> in decimal,
  strings without quotes, backslashes and zero bytes, members in the order of their names.\<close>

definition blank :: "string \<Rightarrow> bool" where
  "blank w \<longleftrightarrow> list_all is_space w"

definition plain :: "string \<Rightarrow> bool" where
  "plain s \<longleftrightarrow> (\<forall>c \<in> set s. c \<noteq> QUOTE \<and> c \<noteq> BACKSLASH \<and> c \<noteq> NUL)"

inductive rendering :: "json \<Rightarrow> string \<Rightarrow> bool"
and render_elements :: "json list \<Rightarrow> string \<Rightarrow> bool"
and render_members :: "(string \<times> json) list \<Rightarrow> string \<Rightarrow> bool"
where
  null: "rendering nullValue ''null''"
| true: "rendering (booleanValue True) ''true''"
| false: "rendering (booleanValue False) ''false''"
| number: "i < 2 ^ 31 \<Longrightarrow> rendering (intValue (of_nat i)) (decimal i)"
| str: "plain s \<Longrightarrow> rendering (stringValue s) (QUOTE # s @ [QUOTE])"
| no_elements: "blank w \<Longrightarrow> rendering (arrayValue []) (CHR ''['' # w @ '']'')"
| array: "render_elements vs s \<Longrightarrow> length vs < 2 ^ 31 \<Longrightarrow> rendering (json_list vs) (CHR ''['' # s @ '']'')"
| no_members: "blank w \<Longrightarrow> rendering (objectValue []) (CHR ''{'' # w @ ''}'')"
| object: "render_members m s \<Longrightarrow> sorted_map m \<Longrightarrow> rendering (objectValue m) (CHR ''{'' # s @ ''}'')"
| last_element: "rendering v s \<Longrightarrow> blank w \<Longrightarrow> blank w' \<Longrightarrow> render_elements [v] (w @ s @ w')"
| element: "rendering v s \<Longrightarrow> blank w \<Longrightarrow> blank w' \<Longrightarrow> render_elements vs t \<Longrightarrow>
    render_elements (v # vs) (w @ s @ w' @ CHR '','' # t)"
| last_member: "plain k \<Longrightarrow> rendering v s \<Longrightarrow> blank w \<Longrightarrow> blank w1 \<Longrightarrow> blank w2 \<Longrightarrow> blank w' \<Longrightarrow>
    render_members [(k, v)] (w @ QUOTE # k @ QUOTE # w1 @ CHR '':'' # w2 @ s @ w')"
| member: "plain k \<Longrightarrow> rendering v s \<Longrightarrow> blank w \<Longrightarrow> blank w1 \<Longrightarrow> blank w2 \<Longrightarrow> blank w' \<Longrightarrow>
    render_members m t \<Longrightarrow>
    render_members ((k, v) # m) (w @ QUOTE # k @ QUOTE # w1 @ CHR '':'' # w2 @ s @ w' @ CHR '','' # t)"

definition delimited :: "string \<Rightarrow> bool" where
  "delimited rest \<longleftrightarrow> rest = [] \<or> \<not> is_number_char (hd rest)"

subsection \<open>Tokens\<close>

lemma skipSpaces_blank: "blank w \<Longrightarrow> skipSpaces (w @ cs) = skipSpaces cs"
  by (induction w) (auto simp: blank_def skipSpaces_def)

lemma skipSpaces_char [simp]: "\<not> is_space c \<Longrightarrow> skipSpaces (c # cs) = c # cs"
  by (simp add: skipSpaces_def)

lemma blank_simps [simp]: "blank []" "blank (c # w) \<longleftrightarrow> is_space c \<and> blank w"
  "blank (v @ w) \<longleftrightarrow> blank v \<and> blank w"
  by (auto simp: blank_def)

lemma readToken_at:
  assumes "blank w" and "\<not> is_space c" and "token_rest c cs = (type, ok, cs')"
  shows "readToken (r\<lparr>rd_current := w @ c # cs\<rparr>) =
    (\<lparr>tok_type = (if ok then type else tokenError), tok_start = c # cs, tok_end = cs'\<rparr>,
     r\<lparr>rd_current := cs'\<rparr>)"
  using assms by (simp add: readToken_def skipSpaces_blank getNextChar_def)

lemma skip_at:
  assumes "readToken r = (t, r')" and "tok_type t \<noteq> tokenComment"
  shows "skipCommentTokens r = (t, r')"
  using assms by (subst skipCommentTokens.simps) simp

lemma token_rest_punctuation:
  "token_rest CHR ''{'' cs = (tokenObjectBegin, True, cs)"
  "token_rest CHR ''}'' cs = (tokenObjectEnd, True, cs)"
  "token_rest CHR ''['' cs = (tokenArrayBegin, True, cs)"
  "token_rest CHR '']'' cs = (tokenArrayEnd, True, cs)"
  "token_rest CHR '','' cs = (tokenArraySeparator, True, cs)"
  "token_rest CHR '':'' cs = (tokenMemberSeparator, True, cs)"
  by (simp_all add: token_rest_def is_digit_def)

lemma not_spaces [simp]: "\<not> is_space CHR ''{''" "\<not> is_space CHR ''}''" "\<not> is_space CHR ''[''"
  "\<not> is_space CHR '']''" "\<not> is_space CHR '',''" "\<not> is_space CHR '':''" "\<not> is_space QUOTE"
  "\<not> is_space CHR ''n''" "\<not> is_space CHR ''t''" "\<not> is_space CHR ''f''"
  by (simp_all add: is_space_def)

lemma space_delimits: "is_space c \<Longrightarrow> \<not> is_number_char c"
  by (auto simp: is_space_def is_number_char_def is_digit_def)

lemma delimited_blank: "blank w \<Longrightarrow> delimited cs \<Longrightarrow> delimited (w @ cs)"
  by (cases w) (auto simp: delimited_def space_delimits)

lemma delimited_chars: "delimited (CHR '','' # cs)" "delimited (CHR '']'' # cs)" "delimited (CHR ''}'' # cs)"
  by (simp_all add: delimited_def is_number_char_def is_digit_def)

subsection \<open>Strings and numbers\<close>

lemma plain_simps [simp]: "plain []"
  "plain (c # s) \<longleftrightarrow> c \<noteq> QUOTE \<and> c \<noteq> BACKSLASH \<and> c \<noteq> NUL \<and> plain s"
  by (auto simp: plain_def)

lemma c_str_plain [simp]: "plain s \<Longrightarrow> c_str s = s"
  by (simp add: c_str_def plain_def takeWhile_eq_all_conv)

lemma read_string_plain: "plain s \<Longrightarrow> read_string c (s @ QUOTE # rest) = (QUOTE, rest)"
  by (induction s arbitrary: c) simp_all

lemma decode_chars_plain: "plain s \<Longrightarrow> decode_chars acc s = Inr (acc @ s)"
  by (induction s arbitrary: acc) simp_all

lemma string_token:
  assumes "plain s"
  shows "token_rest QUOTE (s @ QUOTE # rest) = (tokenString, True, rest)"
    and "decode_string \<lparr>tok_type = tokenString, tok_start = QUOTE # s @ QUOTE # rest, tok_end = rest\<rparr> r = (Some s, r)"
  using assms by (simp_all add: token_rest_def readString_def read_string_plain is_digit_def
      decode_string_def tok_text_def decode_chars_plain butlast_append)

lemma digit_char [simp]:
  assumes "d < 10"
  shows "is_digit (char_of (d + 48 :: nat))" and "digit_value (char_of (d + 48 :: nat)) = d"
proof -
  have "of_char (char_of (d + 48) :: char) = (d + 48 :: nat)"
    using assms by simp
  then show "is_digit (char_of (d + 48 :: nat))" "digit_value (char_of (d + 48 :: nat)) = d"
    using assms by (simp_all add: is_digit_def digit_value_def)
qed

lemma decimal_eq: "decimal n = (if n < 10 then [] else decimal (n div 10)) @ [char_of (n mod 10 + 48)]"
  by (subst decimal.simps) simp

lemma decimal_digits: "list_all is_digit (decimal n)"
  by (induction n rule: decimal.induct) (subst decimal_eq, simp)

lemma decimal_nonempty [simp]: "decimal n \<noteq> []"
  by (subst decimal_eq) simp

lemma digits_value_append:
  "digits_value th v (xs @ ys) =
     (case digits_value th v xs of Some (Some u) \<Rightarrow> digits_value th u ys | m \<Rightarrow> m)"
  by (induction th v xs rule: digits_value.induct) auto

lemma digits_value_decimal:
  assumes "n div 10 < unat th"
  shows "digits_value th 0 (decimal n) = Some (Some (of_nat n))"
  using assms
proof (induction n rule: decimal.induct)
  case (1 n)
  have "unat th < 2 ^ LENGTH(64)"
    by (rule unsigned_less)
  then have small: "n div 10 < 2 ^ 64"
    using 1(2) by simp
  have "th > 0"
    using 1(2) by (simp add: word_less_nat_alt)
  have step: "digits_value th (of_nat (n div 10)) [char_of (n mod 10 + 48)] = Some (Some (of_nat n))"
  proof -
    have "\<not> th \<le> of_nat (n div 10)"
      using 1(2) small by (simp add: word_le_nat_alt unat_of_nat take_bit_nat_eq_self)
    moreover have "of_nat (n div 10) * 10 + of_nat (n mod 10) = (of_nat n :: u64)"
      by (metis div_mult_mod_eq of_nat_add of_nat_mult of_nat_numeral)
    ultimately show ?thesis
      by simp
  qed
  show ?case
  proof (cases "n < 10")
    case True
    then show ?thesis
      using step by (subst decimal_eq) simp
  next
    case False
    have "n div 10 div 10 < unat th"
      using 1(2) by (meson div_le_dividend le_less_trans)
    then have "digits_value th 0 (decimal (n div 10)) = Some (Some (of_nat (n div 10)))"
      using 1(1) False by blast
    then show ?thesis
      using step False by (subst decimal_eq) (simp add: digits_value_append)
  qed
qed


text \<open>The constants of \<^verbatim>\<open>Value\<close>: computed from the 64-bit type and cut to 32 bits, \<open>maxInt\<close> is -1 and \<open>minInt\<close>
  is 0. Taken as a 64-bit number \<open>maxInt\<close> is the greatest one, so every number read is a 32-bit \<^verbatim>\<open>Int\<close>.\<close>

lemma minInt_eq: "minInt = 0"
  by (simp add: minInt_def)

lemma maxInt_eq: "maxInt = -1"
  by (simp add: maxInt_def)

lemma token_rest_digit: "is_digit c \<Longrightarrow> token_rest c cs = (tokenNumber, True, readNumber cs)"
  by (auto simp: token_rest_def is_digit_def)

lemma not_double: "list_all is_digit s \<Longrightarrow> \<not> is_double_text s \<and> peek s \<noteq> CHR ''-''"
  by (cases s) (auto simp: is_double_text_def list_all_iff is_digit_def peek_def)

lemma decimal_number:
  assumes "i < 18446744073709551610" and "tok_text t = decimal i"
  shows "decodeNumber lf t old r = Inr (True, intValue (of_nat i), r)"
proof -
  have "unat (maxUInt div 10) = 1844674407370955161"
    by (simp add: maxUInt_def unat_div)
  then have "digits_value (maxUInt div 10) 0 (decimal i) = Some (Some (of_nat i))"
    using assms(1) by (intro digits_value_decimal) simp
  moreover have "ucast (of_nat i :: u64) = (of_nat i :: u32)"
    using assms(1) by (simp add: unsigned_of_nat take_bit_nat_eq_self)
  ultimately show ?thesis
    using assms(2) not_double[OF decimal_digits[of i]]
    by (simp add: decodeNumber_def maxInt_eq)
qed

lemma number_token:
  assumes "delimited rest" and "blank w"
  shows "readToken (r\<lparr>rd_current := w @ decimal i @ rest\<rparr>) =
    (\<lparr>tok_type = tokenNumber, tok_start = decimal i @ rest, tok_end = rest\<rparr>, r\<lparr>rd_current := rest\<rparr>)"
proof -
  obtain c ds where d: "decimal i = c # ds"
    by (cases "decimal i") auto
  have digits: "is_digit c" "list_all is_digit ds"
    using decimal_digits[of i] by (simp_all add: d)
  have "readNumber (ds @ rest) = rest"
    using digits(2) assms(1)
    by (cases rest) (auto simp: readNumber_def dropWhile_append2 list_all_iff is_number_char_def delimited_def
        dropWhile_eq_self_iff)
  moreover have "\<not> is_space c"
    using digits(1) by (auto simp: is_space_def is_digit_def)
  ultimately show ?thesis
    using assms(2) digits(1) by (simp add: d readToken_at token_rest_digit)
qed


subsection \<open>Values\<close>

lemma set_current_current [simp]: "r\<lparr>rd_current := a, rd_current := b\<rparr> = r\<lparr>rd_current := b\<rparr>"
  by simp

definition reads :: "(string \<Rightarrow> double option) \<Rightarrow> json \<Rightarrow> string \<Rightarrow> bool" where
  "reads lf v s \<longleftrightarrow>
     (\<forall>r w rest old. blank w \<longrightarrow> delimited rest \<longrightarrow>
        (\<exists>n. readValue lf n old (r\<lparr>rd_current := w @ s @ rest\<rparr>) = Some (Inr (True, v, r\<lparr>rd_current := rest\<rparr>))))"

definition reads_elements :: "(string \<Rightarrow> double option) \<Rightarrow> json list \<Rightarrow> string \<Rightarrow> bool" where
  "reads_elements lf vs s \<longleftrightarrow>
     (\<forall>r us rest. length us + length vs < 2 ^ 31 \<longrightarrow>
        (\<exists>n. read_elements lf n (of_nat (length us)) (json_list us) (r\<lparr>rd_current := s @ CHR '']'' # rest\<rparr>) =
          Some (Inr (True, json_list (us @ vs), r\<lparr>rd_current := rest\<rparr>))))"

definition reads_members :: "(string \<Rightarrow> double option) \<Rightarrow> (string \<times> json) list \<Rightarrow> string \<Rightarrow> bool" where
  "reads_members lf m s \<longleftrightarrow>
     (\<forall>r m0 rest name. sorted_map (m0 @ m) \<longrightarrow>
        (\<exists>n. read_members lf n name (objectValue m0) (r\<lparr>rd_current := s @ CHR ''}'' # rest\<rparr>) =
          Some (Inr (True, objectValue (m0 @ m), r\<lparr>rd_current := rest\<rparr>))))"

lemma reads_word:
  assumes "token_rest c (cs @ rest) = (type, True, rest)" and "\<not> is_space c" and "blank w"
    and "type \<in> {tokenTrue, tokenFalse, tokenNull}"
  shows "readValue lf 1 old (r\<lparr>rd_current := w @ (c # cs) @ rest\<rparr>) =
    Some (Inr (True, case type of tokenTrue \<Rightarrow> booleanValue True | tokenFalse \<Rightarrow> booleanValue False | _ \<Rightarrow> nullValue,
      r\<lparr>rd_current := rest\<rparr>))"
proof -
  have "skipCommentTokens (r\<lparr>rd_current := w @ (c # cs) @ rest\<rparr>) =
      (\<lparr>tok_type = type, tok_start = c # cs @ rest, tok_end = rest\<rparr>, r\<lparr>rd_current := rest\<rparr>)"
    using assms by (intro skip_at) (auto simp: readToken_at)
  then show ?thesis
    using assms(4) by (auto simp: One_nat_def)
qed

lemma words_read: "reads lf nullValue ''null''" "reads lf (booleanValue True) ''true''"
  "reads lf (booleanValue False) ''false''"
  unfolding reads_def
  using reads_word[of "CHR ''n''" "''ull''"] reads_word[of "CHR ''t''" "''rue''"] reads_word[of "CHR ''f''" "''alse''"]
  by (auto simp: token_rest_def match_def is_digit_def intro!: exI[of _ 1])

lemma number_reads:
  assumes "i < 18446744073709551610"
  shows "reads lf (intValue (of_nat i)) (decimal i)"
  unfolding reads_def
proof (intro allI impI)
  fix r :: reader and w rest old
  assume "blank w" and "delimited rest"
  then have "skipCommentTokens (r\<lparr>rd_current := w @ decimal i @ rest\<rparr>) =
      (\<lparr>tok_type = tokenNumber, tok_start = decimal i @ rest, tok_end = rest\<rparr>, r\<lparr>rd_current := rest\<rparr>)"
    by (intro skip_at number_token) simp_all
  then show "\<exists>n. readValue lf n old (r\<lparr>rd_current := w @ decimal i @ rest\<rparr>) =
      Some (Inr (True, intValue (of_nat i), r\<lparr>rd_current := rest\<rparr>))"
    using assms by (intro exI[of _ 1]) (simp add: One_nat_def decimal_number tok_text_def)
qed

lemma string_reads: "plain s \<Longrightarrow> reads lf (stringValue s) (QUOTE # s @ [QUOTE])"
  unfolding reads_def
  by (intro allI impI exI[of _ 1])
    (simp add: One_nat_def skip_at[OF readToken_at] string_token decodeString_def Value_string_def)

lemma empty_array_reads: "blank w \<Longrightarrow> reads lf (arrayValue []) (CHR ''['' # w @ '']'')"
  unfolding reads_def
  by (intro allI impI exI[of _ 1])
    (simp add: One_nat_def skip_at[OF readToken_at] token_rest_punctuation skipSpaces_blank peek_def
      readToken_at[of "[]", simplified])

lemma empty_object_reads: "blank w \<Longrightarrow> reads lf (objectValue []) (CHR ''{'' # w @ ''}'')"
  unfolding reads_def
  by (intro allI impI exI[of _ 2])
    (simp add: numeral_2_eq_2 skip_at[OF readToken_at] token_rest_punctuation)


subsection \<open>Arrays and objects\<close>

lemma CZ_small: "k < 2 ^ 31 \<Longrightarrow> CZ_index (scast (of_nat k :: u32)) = int k"
proof -
  assume "k < 2 ^ 31"
  then have "sint (of_nat k :: u32) = int k"
    by (simp add: signed_of_nat signed_take_bit_int_eq_self)
  moreover have "ucast (scast (of_nat k :: u32) :: u64) = (of_nat k :: u32)"
    by (rule bit_word_eqI) (simp add: bit_unsigned_iff bit_signed_iff)
  ultimately show ?thesis
    by (simp add: CZ_index_def)
qed

lemma json_list_put:
  assumes "length us < 2 ^ 31"
  shows "set_at (scast (of_nat (length us) :: u32)) x (json_list us) = Inr (json_list (us @ [x]))"
proof -
  have last: "[0..int (length us)] = [0..int (length us) - 1] @ [int (length us)]"
    by (rule upto_rec2) simp
  have keys: "\<forall>k \<in> fst ` set (zip [0..int (length us) - 1] us). k < int (length us)"
    by (auto dest: set_zip_leftD)
  have "zip [0..int (length us)] (us @ [x]) = zip [0..int (length us) - 1] us @ [(int (length us), x)]"
    by (simp add: last)
  then show ?thesis
    using CZ_small[OF assms] map_put_last[OF keys] by (simp add: set_at_def array_of_def json_list_def)
qed

lemma rendering_head:
  "rendering v s \<Longrightarrow> s \<noteq> [] \<and> \<not> is_space (hd s) \<and> hd s \<noteq> CHR '']''"
  "render_elements vs s \<Longrightarrow> True" "render_members m s \<Longrightarrow> True"
proof (induction rule: rendering_render_elements_render_members.inducts)
  case (number i)
  obtain c ds where "decimal i = c # ds"
    by (cases "decimal i") auto
  then show ?case
    using decimal_digits[of i] by (auto simp: is_digit_def is_space_def)
qed (simp_all add: is_space_def)

lemma elements_skip: "render_elements vs s \<Longrightarrow> render_elements vs (skipSpaces s)"
  "render_elements vs s \<Longrightarrow> peek (skipSpaces (s @ rest)) \<noteq> CHR '']''"
  "render_elements vs s \<Longrightarrow> skipSpaces (s @ rest) = skipSpaces s @ rest"
proof -
  assume "render_elements vs s"
  then obtain v t w u where s: "s = w @ t @ u" and w: "blank w" and t: "rendering v t"
    and step: "render_elements vs (t @ u)"
  proof cases
    case (last_element v t w w')
    then show ?thesis
      using that[of w t w' v] rendering_render_elements_render_members.last_element[of v t "[]" w'] by simp
  next
    case (element v t w w' vs' t')
    then show ?thesis
      using that[of w t "w' @ CHR '','' # t'" v]
        rendering_render_elements_render_members.element[of v t "[]" w' vs' t'] by simp
  qed
  obtain c cs where c: "t = c # cs" "\<not> is_space c" "c \<noteq> CHR '']''"
    using rendering_head(1)[OF t] by (cases t) auto
  show "render_elements vs (skipSpaces s)" "peek (skipSpaces (s @ rest)) \<noteq> CHR '']''"
    "skipSpaces (s @ rest) = skipSpaces s @ rest"
    using step w c by (simp_all add: s skipSpaces_blank peek_def)
qed

lemma readsE:
  assumes "reads lf v s" and "blank w" and "delimited rest"
  obtains n where "\<And>m. n \<le> m \<Longrightarrow>
    readValue lf m old (r\<lparr>rd_current := w @ s @ rest\<rparr>) = Some (Inr (True, v, r\<lparr>rd_current := rest\<rparr>))"
proof -
  obtain n where "readValue lf n old (r\<lparr>rd_current := w @ s @ rest\<rparr>) = Some (Inr (True, v, r\<lparr>rd_current := rest\<rparr>))"
    using assms unfolding reads_def by blast
  then show ?thesis
    using that[of n] readValue_mono by blast
qed

lemma last_element_reads:
  assumes "reads lf v s" and "blank w" and "blank w'"
  shows "reads_elements lf [v] (w @ s @ w')"
  unfolding reads_elements_def
proof (intro allI impI)
  fix r :: reader and us :: "json list" and rest
  assume "length us + length [v] < 2 ^ 31"
  then have len: "length us < 2 ^ 31"
    by simp
  have "delimited (w' @ CHR '']'' # rest)"
    by (intro delimited_blank assms(3) delimited_chars)
  then obtain n where "readValue lf n (array_slot (scast (of_nat (length us) :: u32)) (json_list us))
        (r\<lparr>rd_current := w @ s @ w' @ CHR '']'' # rest\<rparr>) =
      Some (Inr (True, v, r\<lparr>rd_current := w' @ CHR '']'' # rest\<rparr>))"
    using readsE[OF assms(1,2)] by blast
  then show "\<exists>n. read_elements lf n (of_nat (length us)) (json_list us)
      (r\<lparr>rd_current := (w @ s @ w') @ CHR '']'' # rest\<rparr>) =
      Some (Inr (True, json_list (us @ [v]), r\<lparr>rd_current := rest\<rparr>))"
    using assms(3) json_list_put[OF len]
    by (intro exI[of _ "Suc n"]) (simp add: run_bind_def readToken_at token_rest_punctuation)
qed

lemma element_reads:
  assumes "reads lf v s" and "blank w" and "blank w'" and "reads_elements lf vs t"
  shows "reads_elements lf (v # vs) (w @ s @ w' @ CHR '','' # t)"
  unfolding reads_elements_def
proof (intro allI impI)
  fix r :: reader and us :: "json list" and rest
  assume len: "length us + length (v # vs) < 2 ^ 31"
  then have us: "length us < 2 ^ 31"
    by simp
  have "delimited (w' @ CHR '','' # t @ CHR '']'' # rest)"
    by (intro delimited_blank assms(3) delimited_chars)
  then obtain n1 where n1: "\<And>m. n1 \<le> m \<Longrightarrow> readValue lf m (array_slot (scast (of_nat (length us) :: u32)) (json_list us))
        (r\<lparr>rd_current := w @ s @ w' @ CHR '','' # t @ CHR '']'' # rest\<rparr>) =
      Some (Inr (True, v, r\<lparr>rd_current := w' @ CHR '','' # t @ CHR '']'' # rest\<rparr>))"
    using readsE[OF assms(1,2)] by blast
  obtain n2 where "read_elements lf n2 (of_nat (length (us @ [v]))) (json_list (us @ [v]))
        (r\<lparr>rd_current := t @ CHR '']'' # rest\<rparr>) =
      Some (Inr (True, json_list ((us @ [v]) @ vs), r\<lparr>rd_current := rest\<rparr>))"
    using assms(4)[unfolded reads_elements_def, rule_format, where us = "us @ [v]" and r = r and rest = rest] len
    by auto
  then have "read_elements lf (max n1 n2) (of_nat (length (us @ [v]))) (json_list (us @ [v]))
        (r\<lparr>rd_current := t @ CHR '']'' # rest\<rparr>) =
      Some (Inr (True, json_list ((us @ [v]) @ vs), r\<lparr>rd_current := rest\<rparr>))"
    by (rule read_elements_mono[rotated]) simp
  then show "\<exists>n. read_elements lf n (of_nat (length us)) (json_list us)
      (r\<lparr>rd_current := (w @ s @ w' @ CHR '','' # t) @ CHR '']'' # rest\<rparr>) =
      Some (Inr (True, json_list (us @ v # vs), r\<lparr>rd_current := rest\<rparr>))"
    using assms(3) json_list_put[OF us] n1[of "max n1 n2"]
    by (intro exI[of _ "Suc (max n1 n2)"])
      (simp add: run_bind_def readToken_at token_rest_punctuation add.commute)
qed

lemma array_reads:
  assumes "render_elements vs s" and "reads_elements lf vs s" and "length vs < 2 ^ 31"
    and "reads_elements lf vs (skipSpaces s)"
  shows "reads lf (json_list vs) (CHR ''['' # s @ '']'')"
  unfolding reads_def
proof (intro allI impI)
  fix r :: reader and w rest old
  assume w: "blank w" and "delimited rest"
  have tok: "skipCommentTokens (r\<lparr>rd_current := w @ CHR ''['' # s @ CHR '']'' # rest\<rparr>) =
      (\<lparr>tok_type = tokenArrayBegin, tok_start = CHR ''['' # s @ CHR '']'' # rest, tok_end = s @ CHR '']'' # rest\<rparr>,
       r\<lparr>rd_current := s @ CHR '']'' # rest\<rparr>)"
    using w by (intro skip_at) (simp_all add: readToken_at token_rest_punctuation)
  obtain n where "read_elements lf n 0 (json_list []) (r\<lparr>rd_current := skipSpaces s @ CHR '']'' # rest\<rparr>) =
      Some (Inr (True, json_list vs, r\<lparr>rd_current := rest\<rparr>))"
    using assms(4)[unfolded reads_elements_def, rule_format, where us = "[]" and r = r and rest = rest] assms(3)
    by auto
  then show "\<exists>n. readValue lf n old (r\<lparr>rd_current := w @ (CHR ''['' # s @ '']'') @ rest\<rparr>) =
      Some (Inr (True, json_list vs, r\<lparr>rd_current := rest\<rparr>))"
    using elements_skip(2,3)[OF assms(1), of "CHR '']'' # rest"]
    by (intro exI[of _ "Suc n"]) (simp add: tok json_list_def)
qed

lemma members_start:
  assumes "plain k" and "blank w" and "blank w1"
  shows "skipCommentTokens (r\<lparr>rd_current := w @ QUOTE # k @ QUOTE # w1 @ CHR '':'' # cs\<rparr>) =
      (\<lparr>tok_type = tokenString, tok_start = QUOTE # k @ QUOTE # w1 @ CHR '':'' # cs, tok_end = w1 @ CHR '':'' # cs\<rparr>,
       r\<lparr>rd_current := w1 @ CHR '':'' # cs\<rparr>)"
    and "readToken (r\<lparr>rd_current := w1 @ CHR '':'' # cs\<rparr>) =
      (\<lparr>tok_type = tokenMemberSeparator, tok_start = CHR '':'' # cs, tok_end = cs\<rparr>, r\<lparr>rd_current := cs\<rparr>)"
  using assms by (auto intro!: skip_at simp: readToken_at string_token(1) token_rest_punctuation)

lemma object_put:
  assumes "plain k" and "sorted_map (m0 @ (k, v) # m)"
  shows "set_member k v (objectValue m0) = Inr (objectValue (m0 @ [(k, v)]))"
  using assms by (simp add: set_member_def object_of_def map_put_last sorted_wrt_append)

lemma last_member_reads:
  assumes "plain k" and "reads lf v s" and "blank w" and "blank w1" and "blank w2" and "blank w'"
  shows "reads_members lf [(k, v)] (w @ QUOTE # k @ QUOTE # w1 @ CHR '':'' # w2 @ s @ w')"
  unfolding reads_members_def
proof (intro allI impI)
  fix r :: reader and m0 rest name
  assume sorted: "sorted_map (m0 @ [(k, v)])"
  have "delimited (w' @ CHR ''}'' # rest)"
    by (intro delimited_blank assms(6) delimited_chars)
  then obtain n where "readValue lf n (object_slot k (objectValue m0)) (r\<lparr>rd_current := w2 @ s @ w' @ CHR ''}'' # rest\<rparr>) =
      Some (Inr (True, v, r\<lparr>rd_current := w' @ CHR ''}'' # rest\<rparr>))"
    using readsE[OF assms(2,5)] by blast
  then show "\<exists>n. read_members lf n name (objectValue m0)
      (r\<lparr>rd_current := (w @ QUOTE # k @ QUOTE # w1 @ CHR '':'' # w2 @ s @ w') @ CHR ''}'' # rest\<rparr>) =
      Some (Inr (True, objectValue (m0 @ [(k, v)]), r\<lparr>rd_current := rest\<rparr>))"
    using assms(1,6) members_start[OF assms(1,3,4)] object_put[OF assms(1) sorted]
    by (intro exI[of _ "Suc n"]) (simp add: string_token(2) run_bind_def readToken_at token_rest_punctuation)
qed

lemma member_reads:
  assumes "plain k" and "reads lf v s" and "blank w" and "blank w1" and "blank w2" and "blank w'"
    and "reads_members lf m t"
  shows "reads_members lf ((k, v) # m) (w @ QUOTE # k @ QUOTE # w1 @ CHR '':'' # w2 @ s @ w' @ CHR '','' # t)"
  unfolding reads_members_def
proof (intro allI impI)
  fix r :: reader and m0 rest name
  assume sorted: "sorted_map (m0 @ (k, v) # m)"
  have "delimited (w' @ CHR '','' # t @ CHR ''}'' # rest)"
    by (intro delimited_blank assms(6) delimited_chars)
  then obtain n1 where n1: "\<And>m. n1 \<le> m \<Longrightarrow> readValue lf m (object_slot k (objectValue m0))
        (r\<lparr>rd_current := w2 @ s @ w' @ CHR '','' # t @ CHR ''}'' # rest\<rparr>) =
      Some (Inr (True, v, r\<lparr>rd_current := w' @ CHR '','' # t @ CHR ''}'' # rest\<rparr>))"
    using readsE[OF assms(2,5)] by blast
  have "sorted_map ((m0 @ [(k, v)]) @ m)"
    using sorted by simp
  then obtain n2 where "read_members lf n2 k (objectValue (m0 @ [(k, v)])) (r\<lparr>rd_current := t @ CHR ''}'' # rest\<rparr>) =
      Some (Inr (True, objectValue ((m0 @ [(k, v)]) @ m), r\<lparr>rd_current := rest\<rparr>))"
    using assms(7) unfolding reads_members_def by blast
  then have "read_members lf (max n1 n2) k (objectValue (m0 @ [(k, v)])) (r\<lparr>rd_current := t @ CHR ''}'' # rest\<rparr>) =
      Some (Inr (True, objectValue ((m0 @ [(k, v)]) @ m), r\<lparr>rd_current := rest\<rparr>))"
    by (rule read_members_mono[rotated]) simp
  then show "\<exists>n. read_members lf n name (objectValue m0)
      (r\<lparr>rd_current := (w @ QUOTE # k @ QUOTE # w1 @ CHR '':'' # w2 @ s @ w' @ CHR '','' # t) @ CHR ''}'' # rest\<rparr>) =
      Some (Inr (True, objectValue (m0 @ (k, v) # m), r\<lparr>rd_current := rest\<rparr>))"
    using assms(1,6) members_start[OF assms(1,3,4)] object_put[OF assms(1) sorted] n1[of "max n1 n2"]
    by (intro exI[of _ "Suc (max n1 n2)"])
      (simp add: string_token(2) run_bind_def readToken_at token_rest_punctuation)
qed

lemma object_reads:
  assumes "reads_members lf m s" and "sorted_map m"
  shows "reads lf (objectValue m) (CHR ''{'' # s @ ''}'')"
  unfolding reads_def
proof (intro allI impI)
  fix r :: reader and w rest old
  assume w: "blank w" and "delimited rest"
  have tok: "skipCommentTokens (r\<lparr>rd_current := w @ CHR ''{'' # s @ CHR ''}'' # rest\<rparr>) =
      (\<lparr>tok_type = tokenObjectBegin, tok_start = CHR ''{'' # s @ CHR ''}'' # rest, tok_end = s @ CHR ''}'' # rest\<rparr>,
       r\<lparr>rd_current := s @ CHR ''}'' # rest\<rparr>)"
    using w by (intro skip_at) (simp_all add: readToken_at token_rest_punctuation)
  obtain n where "read_members lf n [] (objectValue []) (r\<lparr>rd_current := s @ CHR ''}'' # rest\<rparr>) =
      Some (Inr (True, objectValue m, r\<lparr>rd_current := rest\<rparr>))"
    using assms unfolding reads_members_def by (metis append_Nil)
  then show "\<exists>n. readValue lf n old (r\<lparr>rd_current := w @ (CHR ''{'' # s @ ''}'') @ rest\<rparr>) =
      Some (Inr (True, objectValue m, r\<lparr>rd_current := rest\<rparr>))"
    by (intro exI[of _ "Suc n"]) (simp add: tok)
qed


lemma rendering_reads:
  "rendering v s \<Longrightarrow> reads lf v s"
  "render_elements vs s \<Longrightarrow> reads_elements lf vs s \<and> reads_elements lf vs (skipSpaces s)"
  "render_members m s \<Longrightarrow> reads_members lf m s"
proof (induction rule: rendering_render_elements_render_members.inducts)
  case (number i)
  then show ?case
    by (intro number_reads) simp
next
  case (array vs s)
  then show ?case
    by (intro array_reads) auto
next
  case (last_element v s w w')
  obtain c cs where "s = c # cs" "\<not> is_space c"
    using rendering_head(1)[OF last_element(1)] by (cases s) auto
  then have "skipSpaces (w @ s @ w') = [] @ s @ w'"
    using last_element(2) by (simp add: skipSpaces_blank)
  then show ?case
    using last_element last_element_reads[of lf v s w w'] last_element_reads[of lf v s "[]" w'] by simp
next
  case (element v s w w' vs t)
  obtain c cs where "s = c # cs" "\<not> is_space c"
    using rendering_head(1)[OF element(1)] by (cases s) auto
  then have "skipSpaces (w @ s @ w' @ CHR '','' # t) = [] @ s @ w' @ CHR '','' # t"
    using element by (simp add: skipSpaces_blank)
  then show ?case
    using element element_reads[of lf v s w w' vs t] element_reads[of lf v s "[]" w' vs t] by simp
qed (auto intro: words_read string_reads empty_array_reads empty_object_reads object_reads
      last_member_reads member_reads)

lemma readValue_enough:
  assumes "readValue lf n old r = Some x" and "2 * left r + 1 \<le> m"
  shows "readValue lf m old r = Some x"
proof -
  obtain y where "readValue lf m old r = Some y"
    using reader_total[of m lf] assms(2) unfolding returns_def by blast
  moreover from this have "readValue lf (max n m) old r = Some y"
    by (rule readValue_mono[rotated]) simp
  moreover have "readValue lf (max n m) old r = Some x"
    by (rule readValue_mono[OF _ assms(1)]) simp
  ultimately show ?thesis
    by (metis option.inject)
qed

lemma skip_errors: "rd_errors (snd (skipCommentTokens r)) = rd_errors r"
proof (induction r rule: skipCommentTokens.induct)
  case (1 r)
  have "rd_errors (snd (readToken r)) = rd_errors r"
    by (simp add: readToken_eq)
  then show ?case
    using 1 by (subst skipCommentTokens.simps) simp
qed

lemma reader_of_start [simp]: "(reader_of d)\<lparr>rd_current := d\<rparr> = reader_of d"
  by (simp add: reader_of_def)

lemma rendering_text:
  assumes "rendering v s" and "blank w" and "blank w'" and "2 * length (w @ s @ w') + 1 \<le> n"
  shows "\<exists>r. reader_parse lf n (w @ s @ w') tree = Some (Inr (True, v, r)) \<and> rd_errors r = []"
proof -
  have "delimited w'"
    using delimited_blank[OF assms(3), of "[]"] by (simp add: delimited_def)
  then obtain m where m: "readValue lf m tree ((reader_of (w @ s @ w'))\<lparr>rd_current := w @ s @ w'\<rparr>) =
      Some (Inr (True, v, (reader_of (w @ s @ w'))\<lparr>rd_current := w'\<rparr>))"
    using rendering_reads(1)[OF assms(1), of lf] assms(2) unfolding reads_def by blast
  have "readValue lf n tree (reader_of (w @ s @ w')) =
      Some (Inr (True, v, (reader_of (w @ s @ w'))\<lparr>rd_current := w'\<rparr>))"
    using readValue_enough[OF m[unfolded reader_of_start]] assms(4) by (simp add: reader_of_def)
  then show ?thesis
    by (simp add: reader_parse_def run_bind_def reader_of_def skip_errors)
qed

text \<open>C27. The reader understands every rendering of a tree: a document that consists of a rendering between
  blanks is read as that tree, whatever the tree was before, without an error; the blanks between the
  tokens, the layout of arrays and objects and the order of elements make no difference.\<close>

theorem rendering_is_read:
  assumes "rendering v s" and "blank w" and "blank w'" and "2 * length (w @ s @ w') + 1 \<le> n"
  shows "\<exists>r. reader_parse lf n (w @ s @ w') tree = Some (Inr (True, v, r)) \<and> rd_errors r = []"
  using assms by (rule rendering_text)

lemma asUInt_number:
  "asUInt (intValue (of_nat i)) = (if i mod 2 ^ 32 < 2 ^ 31 then Inr (of_nat (i mod 2 ^ 32)) else Inl Abort)"
proof -
  define u where "u = i mod 2 ^ 32"
  have u: "u < 2 ^ 32"
    by (simp add: u_def)
  have um: "i mod 4294967296 = u"
    by (simp add: u_def)
  have w: "(of_nat i :: u32) = of_nat u"
    by (simp add: u_def word_of_nat_eq_iff take_bit_eq_mod)
  show ?thesis
  proof (cases "u < 2 ^ 31")
    case True
    then have "signed_take_bit 31 (int u) = int u"
      by (simp add: signed_take_bit_int_eq_self)
    then show ?thesis
      using True by (simp add: w um asUInt_def signed_of_nat)
  next
    case False
    then have "u div 2 ^ 31 = 1"
      using u by (intro div_nat_eqI) simp_all
    then have "odd (int u div 2 ^ 31)"
      by (metis even_of_nat odd_one of_nat_numeral of_nat_power zdiv_int)
    then have "signed_take_bit 31 (int u) < 0"
      by (simp add: signed_take_bit_negative_iff bit_iff_odd)
    then show ?thesis
      using False by (simp add: w um asUInt_def signed_of_nat)
  qed
qed

text \<open>C40. Integers of the configuration keep their lower 32 bits only: \<open>maxInt\<close> is -1, the test against it
  lets every number through, and \<open>Value::Int(value)\<close> cuts it. A limit of \<open>2 ^ 32\<close> is read as zero, and from
  \<open>2 ^ 31\<close> on the value is negative, so that \<^verbatim>\<open>asUInt\<close> fails its assertion and the process ends.\<close>

theorem numbers_are_cut:
  assumes "i < 18446744073709551610" and "blank w" and "2 * length (decimal i @ w) + 1 \<le> n"
  shows "(\<exists>r. reader_parse lf n (decimal i @ w) tree = Some (Inr (True, intValue (of_nat i), r))) \<and>
    asUInt (intValue (of_nat i)) =
      (if i mod 2 ^ 32 < 2 ^ 31 then Inr (of_nat (i mod 2 ^ 32)) else Inl Abort)"
proof -
  have "delimited w"
    using delimited_blank[OF assms(2), of "[]"] by (simp add: delimited_def)
  then obtain m where m: "readValue lf m tree ((reader_of (decimal i @ w))\<lparr>rd_current := [] @ decimal i @ w\<rparr>) =
      Some (Inr (True, intValue (of_nat i), (reader_of (decimal i @ w))\<lparr>rd_current := w\<rparr>))"
    using number_reads[OF assms(1), of lf] unfolding reads_def by (metis blank_simps(1))
  have "readValue lf n tree (reader_of (decimal i @ w)) =
      Some (Inr (True, intValue (of_nat i), (reader_of (decimal i @ w))\<lparr>rd_current := w\<rparr>))"
    using readValue_enough[OF m[unfolded append_Nil reader_of_start]] assms(3) by (simp add: reader_of_def)
  then show ?thesis
    by (simp add: reader_parse_def run_bind_def asUInt_number)
qed

end
