(* ===== verification/Json_Roundtrip.thy ===== *)
theory Json_Roundtrip
  imports Json_Rendering
begin

text \<open>
  The styled writer produces a rendering of the tree it is given, so a dump is read back as the tree that was
  dumped; \<open>writable\<close> names the trees for which that holds.
\<close>

section \<open>Renderings\<close>

text \<open>Trees that have a rendering: no negative, 64-bit or floating-point numbers, strings that need no escape,
  arrays without gaps and objects in the order of their names.\<close>

fun writable :: "json \<Rightarrow> bool" where
  "writable nullValue = True"
| "writable (booleanValue b) = True"
| "writable (intValue i) = (0 \<le> sint i)"
| "writable (uintValue u) = False"
| "writable (realValue d) = False"
| "writable (stringValue s) = plain s"
| "writable (arrayValue m) =
     (map fst m = [0..int (length m) - 1] \<and> length m < 2 ^ 31 \<and> (\<forall>x \<in> set m. writable (snd x)))"
| "writable (objectValue m) = (sorted_map m \<and> length m < 2 ^ 31 \<and> (\<forall>x \<in> set m. plain (fst x) \<and> writable (snd x)))"

lemma elements_blank: "render_elements vs t \<Longrightarrow> blank b \<Longrightarrow> render_elements vs (t @ b)"
proof (induction vs arbitrary: t)
  case (Cons v vs)
  from Cons.prems(1) show ?case
  proof cases
    case (last_element s w w')
    then show ?thesis
      using Cons.prems(2) rendering_render_elements_render_members.last_element[of v s w "w' @ b"] by simp
  next
    case (element s w w' t')
    then show ?thesis
      using Cons rendering_render_elements_render_members.element[of v s w w' vs "t' @ b"] by simp
  qed
qed (auto elim: render_elements.cases)

lemma members_blank: "render_members m t \<Longrightarrow> blank b \<Longrightarrow> render_members m (t @ b)"
proof (induction m arbitrary: t)
  case (Cons x m)
  from Cons.prems(1) show ?case
  proof cases
    case (last_member k v s w w1 w2 w')
    then show ?thesis
      using Cons.prems(2) rendering_render_elements_render_members.last_member[of k v s w w1 w2 "w' @ b"] by simp
  next
    case (member k v s w w1 w2 w' t')
    then show ?thesis
      using Cons rendering_render_elements_render_members.member[of k v s w w1 w2 w' m "t' @ b"] by simp
  qed
qed (auto elim: render_members.cases)

lemma join_elements:
  "list_all2 rendering vs ss \<Longrightarrow> vs \<noteq> [] \<Longrightarrow> blank b \<Longrightarrow> render_elements vs (b @ join ss)"
proof (induction vs ss arbitrary: b rule: list_all2_induct)
  case (Cons v vs s ss)
  show ?case
  proof (cases ss)
    case Nil
    then show ?thesis
      using Cons rendering_render_elements_render_members.last_element[of v s b "[]"] by simp
  next
    case (Cons s' ss')
    then have "render_elements vs ('' '' @ join ss)"
      using Cons.hyps(2) Cons.IH[of "'' ''"] by (auto simp: is_space_def)
    then show ?thesis
      using Cons \<open>rendering v s\<close> \<open>blank b\<close>
        rendering_render_elements_render_members.element[of v s b "[]" vs "'' '' @ join ss"] by simp
  qed
qed simp

section \<open>The loops of the writer\<close>

lemma elements_loop:
  assumes step: "\<And>i w. i < length vs \<Longrightarrow> keeps w \<Longrightarrow>
      (\<exists>b s. blank b \<and> rendering (vs ! i) s \<and> sw_document (f i (vs ! i) w) = sw_document w @ b @ s) \<and>
      keeps (f i (vs ! i) w)"
    and comma: "\<And>w. keeps w \<Longrightarrow> keeps (put '','' w)"
    and "vs \<noteq> []" and "keeps w"
  shows "\<exists>t. render_elements vs t \<and>
      sw_document (fold (\<lambda>(i, x) w'. let w'' = f i x w' in if Suc i = length vs then w'' else put '','' w'')
        (enumerate 0 vs) w) = sw_document w @ t \<and>
      keeps (fold (\<lambda>(i, x) w'. let w'' = f i x w' in if Suc i = length vs then w'' else put '','' w'')
        (enumerate 0 vs) w)"
proof -
  let ?g = "\<lambda>(i, x) w'. let w'' = f i x w' in if Suc i = length vs then w'' else put '','' w''"
  have all: "us \<noteq> [] \<Longrightarrow> drop k vs = us \<Longrightarrow> keeps w \<Longrightarrow>
      \<exists>t. render_elements us t \<and> sw_document (fold ?g (enumerate k us) w) = sw_document w @ t \<and>
        keeps (fold ?g (enumerate k us) w)" for us k w
  proof (induction us arbitrary: k w)
    case (Cons u us)
    have k: "k < length vs" "vs ! k = u" "drop (Suc k) vs = us"
      using Cons.prems(2) by (metis drop_eq_Nil linorder_not_less list.distinct(1), metis nth_via_drop,
          metis drop_Suc list.sel(3) tl_drop)
    obtain b s where b: "blank b" "rendering u s" "sw_document (f k u w) = sw_document w @ b @ s" "keeps (f k u w)"
      using step[OF k(1) Cons.prems(3)] k(2) by auto
    show ?case
    proof (cases "us = []")
      case True
      then have "Suc k = length vs"
        using k(1,3) by (simp add: drop_eq_Nil)
      then show ?thesis
        using True b rendering_render_elements_render_members.last_element[of u s b "[]"]
        by (intro exI[of _ "b @ s"]) simp
    next
      case False
      then have "Suc k \<noteq> length vs"
        using k(3) by auto
      moreover obtain t where "render_elements us t"
        "sw_document (fold ?g (enumerate (Suc k) us) (put '','' (f k u w))) = sw_document (put '','' (f k u w)) @ t"
        "keeps (fold ?g (enumerate (Suc k) us) (put '','' (f k u w)))"
        using Cons.IH[OF False k(3) comma[OF b(4)]] by blast
      ultimately show ?thesis
        using b rendering_render_elements_render_members.element[of u s b "[]" us t]
        by (intro exI[of _ "b @ s @ CHR '','' # t"]) (simp add: put_def)
    qed
  qed simp
  show ?thesis
    using all[of vs 0 w] assms(3,4) by simp
qed

lemma members_loop:
  assumes step: "\<And>i w. i < length m \<Longrightarrow> keeps w \<Longrightarrow>
      (\<exists>b b' s. blank b \<and> blank b' \<and> rendering (snd (m ! i)) s \<and> sw_document (f (m ! i) w) =
        sw_document w @ b @ QUOTE # fst (m ! i) @ QUOTE # '' : '' @ b' @ s) \<and>
      keeps (f (m ! i) w)"
    and comma: "\<And>w. keeps w \<Longrightarrow> keeps (put '','' w)"
    and "m \<noteq> []" and "keeps w" and "\<forall>x \<in> set m. plain (fst x)"
  shows "\<exists>t. render_members m t \<and>
      sw_document (fold (\<lambda>(i, x) w'. let w'' = f x w' in if Suc i = length m then w'' else put '','' w'')
        (enumerate 0 m) w) = sw_document w @ t \<and>
      keeps (fold (\<lambda>(i, x) w'. let w'' = f x w' in if Suc i = length m then w'' else put '','' w'')
        (enumerate 0 m) w)"
proof -
  let ?g = "\<lambda>(i, x) w'. let w'' = f x w' in if Suc i = length m then w'' else put '','' w''"
  have space: "blank '' ''"
    by (simp add: is_space_def)
  have all: "us \<noteq> [] \<Longrightarrow> drop k m = us \<Longrightarrow> keeps w \<Longrightarrow>
      \<exists>t. render_members us t \<and> sw_document (fold ?g (enumerate k us) w) = sw_document w @ t \<and>
        keeps (fold ?g (enumerate k us) w)" for us k w
  proof (induction us arbitrary: k w)
    case (Cons u us)
    obtain n v where u: "u = (n, v)"
      by fastforce
    have k: "k < length m" "m ! k = u" "drop (Suc k) m = us"
      using Cons.prems(2) by (metis drop_eq_Nil linorder_not_less list.distinct(1), metis nth_via_drop,
          metis drop_Suc list.sel(3) tl_drop)
    have n: "plain n"
      using assms(5) k(1,2) nth_mem[of k m] u by auto
    obtain b b' s where b: "blank b" "rendering v s" "keeps (f (n, v) w)" "blank b'"
      "sw_document (f (n, v) w) = sw_document w @ b @ QUOTE # n @ QUOTE # '' : '' @ b' @ s"
      using step[OF k(1) Cons.prems(3)] k(2) u by auto
    show ?case
    proof (cases "us = []")
      case True
      then have "Suc k = length m"
        using k(1,3) by (simp add: drop_eq_Nil)
      then show ?thesis
        using True b u space rendering_render_elements_render_members.last_member[of n v s b "'' ''" "'' '' @ b'" "[]"] n
        by (intro exI[of _ "b @ QUOTE # n @ QUOTE # '' : '' @ b' @ s"]) simp
    next
      case False
      then have "Suc k \<noteq> length m"
        using k(3) by auto
      moreover obtain t where "render_members us t"
        "sw_document (fold ?g (enumerate (Suc k) us) (put '','' (f (n, v) w))) = sw_document (put '','' (f (n, v) w)) @ t"
        "keeps (fold ?g (enumerate (Suc k) us) (put '','' (f (n, v) w)))"
        using Cons.IH[OF False k(3) comma[OF b(3)]] by blast
      ultimately show ?thesis
        using b u space rendering_render_elements_render_members.member[of n v s b "'' ''" "'' '' @ b'" "[]" us t] n
        by (intro exI[of _ "b @ QUOTE # n @ QUOTE # '' : '' @ b' @ s @ CHR '','' # t"]) (simp add: put_def)
    qed
  qed simp
  show ?thesis
    using all[of m 0 w] assms(3,4) by simp
qed


section \<open>The writer\<close>

lemma put_simps [simp]: "sw_document (put s w) = sw_document w @ s" "sw_indentString (put s w) = sw_indentString w"
  "sw_childValues (put s w) = sw_childValues w" "sw_addChildValues (put s w) = sw_addChildValues w"
  by (simp_all add: put_def)

lemma indent_simps [simp]: "sw_document (indent w) = sw_document w" "sw_childValues (indent w) = sw_childValues w"
  "sw_addChildValues (indent w) = sw_addChildValues w" "sw_document (unindent w) = sw_document w"
  "sw_addChildValues (unindent w) = sw_addChildValues w"
  "sw_indentString (indent w) = sw_indentString w @ ''   ''"
  "sw_indentString (unindent w) = take (length (sw_indentString w) - 3) (sw_indentString w)"
  by (simp_all add: indent_def unindent_def indentSize_def numeral_3_eq_3)

lemma writeIndent_put: "blank (sw_indentString w) \<Longrightarrow> \<exists>b. blank b \<and> writeIndent w = put b w"
proof -
  assume b: "blank (sw_indentString w)"
  have "w = put [] w"
    by (simp add: put_def)
  moreover have "is_space NL"
    by (simp add: is_space_def)
  ultimately show ?thesis
    using b by (auto simp: writeIndent_def intro: exI[of _ "[]"] exI[of _ "NL # sw_indentString w"])
qed

lemma writeWithIndent_put:
  "blank (sw_indentString w) \<Longrightarrow> \<exists>b. blank b \<and> writeWithIndent s w = put (b @ s) w"
  using writeIndent_put[of w] by (auto simp: writeWithIndent_def put_def)

lemma size_word: "n < 2 ^ 31 \<Longrightarrow> unat (scast (of_nat n :: u32) :: u64) = n"
  by (simp add: signed_of_nat signed_take_bit_int_eq_self unsigned_of_nat take_bit_nat_eq_self)

lemma contiguous:
  assumes "map fst m = [0..int (length m) - 1]" and "length m < 2 ^ 31"
  shows "arrayValue m = json_list (map snd m)" and "elements (arrayValue m) = map snd m"
    and "0 < json_size (arrayValue m) \<longleftrightarrow> m \<noteq> []"
proof -
  have m: "m = zip [0..int (length m) - 1] (map snd m)"
    by (metis assms(1) zip_map_fst_snd)
  then show "arrayValue m = json_list (map snd m)"
    by (simp add: json_list_def)
  have last: "fst (last m) = int (length m) - 1" if "m \<noteq> []"
  proof -
    have "fst (last m) = last (map fst m)"
      using that by (simp add: last_map)
    also have "\<dots> = int (length m) - 1"
      using that by (simp add: assms(1) upto_rec2)
    finally show ?thesis .
  qed
  have size: "json_size (arrayValue m) = scast (of_nat (length m) :: u32)"
    using last by (simp add: json_size_def)
  have cut: "(ucast (scast (of_nat (length m) :: u32) :: u64) :: u32) = of_nat (length m)"
    by (rule bit_word_eqI) (simp add: bit_unsigned_iff bit_signed_iff)
  have len: "unat (of_nat (length m) :: u32) = length m"
    using assms(2) by (simp add: unat_of_nat take_bit_nat_eq_self)
  have at: "slot (CZ_index (of_nat i)) m = snd (m ! i)" if "i < length m" for i
  proof -
    have "sint (ucast (of_nat i :: u64) :: u32) = int i"
      using that assms(2)
      by (simp add: unsigned_of_nat signed_of_nat take_bit_nat_eq_self signed_take_bit_int_eq_self)
    moreover have "m ! i = (int i, snd (m ! i))"
      using that assms(1) by (metis (no_types, lifting) add_0 length_map nth_map nth_upto of_nat_less_iff
          prod.collapse zle_diff1_eq)
    moreover have "distinct (map fst m)"
      by (simp add: assms(1))
    ultimately show ?thesis
      using that by (metis CZ_index_def map_of_eq_Some_iff nth_mem option.simps(5) slot_def)
  qed
  show "elements (arrayValue m) = map snd m"
    by (rule nth_equalityI) (auto simp: elements_def size cut len at)
  show "0 < json_size (arrayValue m) \<longleftrightarrow> m \<noteq> []"
    using size_word[OF assms(2)] by (simp only: size word_less_nat_alt unat_0 neq0_conv[symmetric]) simp
qed

lemma nonnegative_int: "0 \<le> sint (i :: u32) \<Longrightarrow> unat i < 2 ^ 31"
proof (rule ccontr)
  assume i: "0 \<le> sint i" and big: "\<not> unat i < 2 ^ 31"
  have "unat i < 2 ^ LENGTH(32)"
    by (rule unsigned_less)
  then have "unat i div 2 ^ 31 = 1"
    using big by (intro div_nat_eqI) simp_all
  then have "odd (int (unat i) div 2 ^ 31)"
    by (metis even_of_nat odd_one of_nat_numeral of_nat_power zdiv_int)
  then have "signed_take_bit 31 (int (unat i)) < 0"
    by (simp add: signed_take_bit_negative_iff bit_iff_odd)
  moreover have "sint i = signed_take_bit 31 (int (unat i))"
    using signed_of_nat[of "unat i"] by (simp add: sint_uint)
  ultimately show False
    using i by simp
qed

text \<open>A value that is written alone: the text that is pushed.\<close>

definition pushed :: "(double \<Rightarrow> string) \<Rightarrow> json \<Rightarrow> string" where
  "pushed g v =
     (case v of nullValue \<Rightarrow> ''null'' | intValue i \<Rightarrow> valueToString_Int i | uintValue u \<Rightarrow> valueToString_UInt u
        | realValue d \<Rightarrow> g d | stringValue s \<Rightarrow> valueToQuotedString s | booleanValue b \<Rightarrow> valueToString_bool b
        | arrayValue _ \<Rightarrow> ''[]'' | objectValue _ \<Rightarrow> ''{}'')"

lemma short_pushed:
  assumes "writable v" and "short_child v"
  shows "writeValue g v w = pushValue (pushed g v) w" and "rendering v (pushed g v)"
proof -
  have array: "m = []" if "v = arrayValue m" for m
    using assms contiguous(3)[of m] that by (auto simp: short_child_def isArray_def)
  have object: "m = []" if "v = objectValue m" for m
  proof -
    have "length m < 2 ^ 31" and "\<not> 0 < json_size v"
      using assms that by (simp_all add: short_child_def isObject_def)
    then show ?thesis
      using size_word[of "length m"] by (simp add: that json_size_def word_less_nat_alt)
  qed
  show "writeValue g v w = pushValue (pushed g v) w"
    using array object by (cases v) (auto simp: pushed_def elements_def json_size_def)
  show "rendering v (pushed g v)"
  proof (cases v)
    case (intValue i)
    then show ?thesis
      using assms(1) nonnegative_int[of i] rendering_render_elements_render_members.number[of "unat i"]
      by (simp add: pushed_def valueToString_Int_def uintToString_def)
  next
    case (arrayValue m)
    then show ?thesis
      using array rendering_render_elements_render_members.no_elements[of "[]"] by (simp add: pushed_def)
  next
    case (objectValue m)
    then show ?thesis
      using object rendering_render_elements_render_members.no_members[of "[]"] by (simp add: pushed_def)
  qed (use assms(1) in \<open>auto simp: pushed_def valueToQuotedString_def valueToString_bool_def
      intro: rendering_render_elements_render_members.intros\<close>)
qed


lemma push_children:
  assumes "list_all short_child vs" and "\<forall>x \<in> set vs. writable x" and "sw_addChildValues w"
  shows "fold (writeValue g) vs w = w\<lparr>sw_childValues := sw_childValues w @ map (pushed g) vs\<rparr>"
  using assms
proof (induction vs arbitrary: w)
  case (Cons v vs)
  then show ?case
    using short_pushed(1)[of v g w] by (simp add: pushValue_def)
qed simp

text \<open>What writing a value to the document comes to, in a state that writes and not collects.\<close>

definition writing :: "string \<Rightarrow> styled_writer \<Rightarrow> bool" where
  "writing ind w \<longleftrightarrow> sw_indentString w = ind \<and> blank ind \<and> \<not> sw_addChildValues w"

definition writes :: "(double \<Rightarrow> string) \<Rightarrow> json \<Rightarrow> bool" where
  "writes g v \<longleftrightarrow>
     (\<forall>ind w. writing ind w \<longrightarrow>
        (\<exists>b s. blank b \<and> rendering v s \<and> sw_document (writeValue g v w) = sw_document w @ b @ s) \<and>
        writing ind (writeValue g v w))"

lemma writing_simps [simp]: "writing ind (put s w) \<longleftrightarrow> writing ind w"
  "writing ind (w\<lparr>sw_childValues := c\<rparr>) \<longleftrightarrow> writing ind w"
  by (simp_all add: writing_def)

lemma writing_indent: "writing ind w \<Longrightarrow> writing (ind @ ''   '') (indent w)"
  by (simp add: writing_def is_space_def)

lemma writing_unindent: "writing (ind @ ''   '') w \<Longrightarrow> writing ind (unindent w)"
  by (simp add: writing_def)

lemma writing_writeIndent: "writing ind w \<Longrightarrow> \<exists>b. blank b \<and> writeIndent w = put b w"
  by (rule writeIndent_put) (simp add: writing_def)

lemma writing_with: "writing ind w \<Longrightarrow> \<exists>b. blank b \<and> writeWithIndent s w = put (b @ s) w"
  by (rule writeWithIndent_put) (simp add: writing_def)

lemma short_writes:
  assumes "writable v" and "short_child v"
  shows "writes g v"
  unfolding writes_def
proof (intro allI impI)
  fix ind w
  assume "writing ind w"
  then show "(\<exists>b s. blank b \<and> rendering v s \<and> sw_document (writeValue g v w) = sw_document w @ b @ s) \<and>
      writing ind (writeValue g v w)"
    using short_pushed[OF assms, of g]
    by (auto simp: pushValue_def writing_def intro: exI[of _ "[]"] exI[of _ "pushed g v"])
qed

text \<open>Between the brackets: the document grows by the elements, and the closing bracket ends them.\<close>

lemma close_array:
  assumes "render_elements vs t" and "sw_document w3 = sw_document w @ b @ ''['' @ t" and "blank b"
    and "writing (ind @ ''   '') w3" and "length vs < 2 ^ 31"
  shows "(\<exists>b s. blank b \<and> rendering (json_list vs) s \<and>
      sw_document (writeWithIndent '']'' (unindent w3)) = sw_document w @ b @ s) \<and>
    writing ind (writeWithIndent '']'' (unindent w3))"
proof -
  have w4: "writing ind (unindent w3)"
    by (rule writing_unindent) (rule assms(4))
  then obtain b' where b': "blank b'" "writeWithIndent '']'' (unindent w3) = put (b' @ '']'') (unindent w3)"
    using writing_with by blast
  have "rendering (json_list vs) (CHR ''['' # (t @ b') @ '']'')"
    using elements_blank[OF assms(1) b'(1)] assms(5) by (intro rendering_render_elements_render_members.array)
  then show ?thesis
    using assms(2,3) b' w4 by (intro conjI exI[of _ b] exI) auto
qed

lemma close_object:
  assumes "render_members m t" and "sw_document w3 = sw_document w @ b @ ''{'' @ t" and "blank b"
    and "writing (ind @ ''   '') w3" and "sorted_map m"
  shows "(\<exists>b s. blank b \<and> rendering (objectValue m) s \<and>
      sw_document (writeWithIndent ''}'' (unindent w3)) = sw_document w @ b @ s) \<and>
    writing ind (writeWithIndent ''}'' (unindent w3))"
proof -
  have w4: "writing ind (unindent w3)"
    by (rule writing_unindent) (rule assms(4))
  then obtain b' where b': "blank b'" "writeWithIndent ''}'' (unindent w3) = put (b' @ ''}'') (unindent w3)"
    using writing_with by blast
  have "rendering (objectValue m) (CHR ''{'' # (t @ b') @ ''}'')"
    using members_blank[OF assms(1) b'(1)] assms(5) by (intro rendering_render_elements_render_members.object)
  then show ?thesis
    using assms(2,3) b' w4 by (intro conjI exI[of _ b] exI) auto
qed

lemma object_writes:
  assumes "writable (objectValue m)" and "m \<noteq> []" and "\<And>x. x \<in> set m \<Longrightarrow> writes g (snd x)"
  shows "writes g (objectValue m)"
  unfolding writes_def
proof (intro allI impI)
  fix ind w
  assume w: "writing ind w"
  then obtain b where b: "blank b" "writeWithIndent ''{'' w = put (b @ ''{'') w"
    using writing_with by blast
  let ?w1 = "indent (writeWithIndent ''{'' w)"
  let ?f = "\<lambda>(k, x) w'. writeValue g x (put '' : '' (writeWithIndent (valueToQuotedString k) w'))"
  have w1: "writing (ind @ ''   '') ?w1"
    using w b by (intro writing_indent) simp
  obtain t where t: "render_members m t"
    "sw_document (fold (\<lambda>(i, x) w'. let w'' = ?f x w' in if Suc i = length m then w'' else put '','' w'')
        (enumerate 0 m) ?w1) = sw_document ?w1 @ t"
    "writing (ind @ ''   '') (fold (\<lambda>(i, x) w'. let w'' = ?f x w' in if Suc i = length m then w'' else put '','' w'')
        (enumerate 0 m) ?w1)"
  proof -
    have "\<exists>t. render_members m t \<and>
      sw_document (fold (\<lambda>(i, x) w'. let w'' = ?f x w' in if Suc i = length m then w'' else put '','' w'')
        (enumerate 0 m) ?w1) = sw_document ?w1 @ t \<and>
      writing (ind @ ''   '') (fold (\<lambda>(i, x) w'. let w'' = ?f x w' in if Suc i = length m then w'' else put '','' w'')
        (enumerate 0 m) ?w1)"
    proof (rule members_loop)
      fix i w'
      assume i: "i < length m" and w': "writing (ind @ ''   '') w'"
      obtain k x where kx: "m ! i = (k, x)"
        by fastforce
      have x: "writes g x"
        using assms(3)[OF nth_mem[OF i]] by (simp add: kx)
      obtain b1 where b1: "blank b1" "writeWithIndent (valueToQuotedString k) w' = put (b1 @ valueToQuotedString k) w'"
        using writing_with[OF w'] by blast
      let ?w2 = "put '' : '' (put (b1 @ valueToQuotedString k) w')"
      have w2: "writing (ind @ ''   '') ?w2"
        using w' by simp
      obtain b2 s where s: "blank b2" "rendering x s" "sw_document (writeValue g x ?w2) = sw_document ?w2 @ b2 @ s"
        "writing (ind @ ''   '') (writeValue g x ?w2)"
        using x w2 unfolding writes_def by blast
      show "(\<exists>b b' s. blank b \<and> blank b' \<and> rendering (snd (m ! i)) s \<and> sw_document (?f (m ! i) w') =
          sw_document w' @ b @ QUOTE # fst (m ! i) @ QUOTE # '' : '' @ b' @ s) \<and>
          writing (ind @ ''   '') (?f (m ! i) w')"
        using s b1 by (intro conjI exI[of _ b1] exI[of _ b2] exI[of _ s])
          (simp_all add: kx valueToQuotedString_def)
    qed (use w1 assms in auto)
    then show ?thesis
      using that by blast
  qed
  show "(\<exists>b s. blank b \<and> rendering (objectValue m) s \<and>
      sw_document (writeValue g (objectValue m) w) = sw_document w @ b @ s) \<and>
      writing ind (writeValue g (objectValue m) w)"
    using close_object[OF t(1) _ b(1) t(3), of w] t(2) b(2) assms(1,2)
    by (simp add: Let_def split_def)
qed


lemma array_writes:
  assumes v: "writable (arrayValue m)" and "m \<noteq> []" and IH: "\<And>x. x \<in> set m \<Longrightarrow> writes g (snd x)"
  shows "writes g (arrayValue m)"
  unfolding writes_def
proof (intro allI impI)
  fix ind w
  assume w: "writing ind w"
  let ?vs = "map snd m"
  have m: "arrayValue m = json_list ?vs" "elements (arrayValue m) = ?vs" and len: "length ?vs < 2 ^ 31"
    and children: "\<forall>x \<in> set ?vs. writable x"
    using contiguous[of m] v by auto
  have vs: "?vs \<noteq> []"
    using assms(2) by simp
  let ?size = "int (length ?vs)"
  let ?w0 = "w\<lparr>sw_childValues := []\<rparr>"
  define long where "long \<longleftrightarrow> rightMargin \<le> ?size * 3 \<or> \<not> list_all short_child ?vs"
  define w1 where "w1 = (if long then ?w0
      else (fold (writeValue g) ?vs (?w0\<lparr>sw_addChildValues := True\<rparr>))\<lparr>sw_addChildValues := False\<rparr>)"
  define multi where "multi \<longleftrightarrow> long \<or> rightMargin \<le> 4 + (?size - 1) * 2 +
      sum_list (map (int \<circ> length) (sw_childValues w1))"
  let ?step = "\<lambda>i x w'. if sw_childValues w1 \<noteq> [] then writeWithIndent (sw_childValues w' ! i) w'
      else writeValue g x (writeIndent w')"
  have w1: "w1 = w\<lparr>sw_childValues := (if long then [] else map (pushed g) ?vs)\<rparr>"
    using push_children[of ?vs "?w0\<lparr>sw_addChildValues := True\<rparr>" g] children w
    by (auto simp: w1_def long_def writing_def)
  have w1w: "writing ind w1"
    using w by (simp add: w1)
  then obtain b where b: "blank b" "writeWithIndent ''['' w1 = put (b @ ''['') w1"
    using writing_with by blast
  let ?w2 = "indent (writeWithIndent ''['' w1)"
  let ?loop = "fold (\<lambda>(i, x) w'. let w'' = ?step i x w' in if Suc i = length ?vs then w'' else put '','' w'')
      (enumerate 0 ?vs) ?w2"
  have eq: "writeValue g (arrayValue m) w =
      (if \<not> multi then put (''[ '' @ join (sw_childValues w1) @ '' ]'') w1
       else writeWithIndent '']'' (unindent ?loop))"
    by (subst writeValue.simps(7)) (simp only: Let_def m(2) long_def[symmetric] w1_def[symmetric]
        multi_def[symmetric] vs if_False b(2) indent_simps put_simps)
  show "(\<exists>b s. blank b \<and> rendering (arrayValue m) s \<and>
      sw_document (writeValue g (arrayValue m) w) = sw_document w @ b @ s) \<and>
      writing ind (writeValue g (arrayValue m) w)"
  proof (cases multi)
    case False
    then have short: "\<not> long" "list_all short_child ?vs" and c: "sw_childValues w1 = map (pushed g) ?vs"
      by (auto simp: multi_def long_def w1)
    have "list_all2 rendering ?vs (map (pushed g) ?vs)"
      using short(2) children short_pushed(2)[of _ g]
      by (intro list_all2I) (auto simp: zip_map_map zip_same_conv_map list_all_iff)
    then have "render_elements ?vs ('' '' @ join (sw_childValues w1) @ '' '')"
      using elements_blank[OF join_elements[of ?vs "map (pushed g) ?vs" "'' ''"], of "'' ''"] vs
      by (simp add: c is_space_def)
    then have "rendering (json_list ?vs) (CHR ''['' # ('' '' @ join (sw_childValues w1) @ '' '') @ '']'')"
      using len by (intro rendering_render_elements_render_members.array)
    then have "rendering (arrayValue m) (''[ '' @ join (sw_childValues w1) @ '' ]'')"
      by (simp add: m(1))
    moreover have "sw_document (put (''[ '' @ join (sw_childValues w1) @ '' ]'') w1) =
        sw_document w @ [] @ (''[ '' @ join (sw_childValues w1) @ '' ]'')"
      by (simp add: w1)
    moreover have "writeValue g (arrayValue m) w = put (''[ '' @ join (sw_childValues w1) @ '' ]'') w1"
      using False by (simp only: eq if_True not_False_eq_True)
    ultimately show ?thesis
      using w1w by (metis blank_simps(1) writing_simps(1))
  next
    case True
    have "\<exists>t. render_elements ?vs t \<and> sw_document ?loop = sw_document ?w2 @ t \<and>
        (writing (ind @ ''   '') ?loop \<and> (sw_childValues w1 \<noteq> [] \<longrightarrow> sw_childValues ?loop = sw_childValues w1))"
    proof (rule elements_loop)
      fix i w'
      assume i: "i < length ?vs"
        and w': "writing (ind @ ''   '') w' \<and> (sw_childValues w1 \<noteq> [] \<longrightarrow> sw_childValues w' = sw_childValues w1)"
      show "(\<exists>b s. blank b \<and> rendering (?vs ! i) s \<and> sw_document (?step i (?vs ! i) w') = sw_document w' @ b @ s) \<and>
          (writing (ind @ ''   '') (?step i (?vs ! i) w') \<and>
           (sw_childValues w1 \<noteq> [] \<longrightarrow> sw_childValues (?step i (?vs ! i) w') = sw_childValues w1))"
      proof (cases "sw_childValues w1 = []")
        case True
        obtain b1 where b1: "blank b1" "writeIndent w' = put b1 w'"
          using writing_writeIndent w' by blast
        have "writes g (?vs ! i)"
          using IH i by simp
        then obtain b2 s where "blank b2" "rendering (?vs ! i) s"
          "sw_document (writeValue g (?vs ! i) (put b1 w')) = sw_document (put b1 w') @ b2 @ s"
          "writing (ind @ ''   '') (writeValue g (?vs ! i) (put b1 w'))"
          using w' unfolding writes_def by (metis writing_simps(1))
        then show ?thesis
          using True b1 by (intro conjI exI[of _ "b1 @ b2"] exI[of _ s]) simp_all
      next
        case False
        then have short: "list_all short_child ?vs" and c: "sw_childValues w1 = map (pushed g) ?vs"
          by (auto simp: w1 long_def split: if_splits)
        have "rendering (?vs ! i) (sw_childValues w1 ! i)"
          using short children i short_pushed(2)[of "?vs ! i" g]
          by (simp add: c list_all_length del: nth_map) (simp add: nth_map)
        moreover obtain b1 where "blank b1"
          "writeWithIndent (sw_childValues w1 ! i) w' = put (b1 @ sw_childValues w1 ! i) w'"
          using writing_with w' by blast
        ultimately show ?thesis
          using False w' by (intro conjI exI[of _ b1] exI[of _ "sw_childValues w1 ! i"]) simp_all
      qed
    qed (use vs w1w b(2) writing_indent in auto)
    then obtain t where t: "render_elements ?vs t" "sw_document ?loop = sw_document ?w2 @ t"
      "writing (ind @ ''   '') ?loop"
      by blast
    have doc: "sw_document ?loop = sw_document w @ b @ ''['' @ t"
      using t(2) b(2) by (simp add: w1)
    have written: "writeValue g (arrayValue m) w = writeWithIndent '']'' (unindent ?loop)"
      using True by (simp only: eq if_False not_True_eq_False)
    show ?thesis
      unfolding written using close_array[OF t(1) doc b(1) t(3) len] by (simp only: m(1))
  qed
qed

lemma size_member_of: "x \<in> set m \<Longrightarrow> size (snd x) < size (arrayValue m)"
  using size_list_estimation[of x m "size (snd x)" "size_prod (\<lambda>_. 0) size"] by (cases x) (simp add: less_Suc_eq)

lemma writable_writes: "writable v \<Longrightarrow> writes g v"
proof (induction v rule: measure_induct_rule[of size])
  case (less v)
  show ?case
  proof (cases "short_child v")
    case True
    then show ?thesis
      using less.prems by (intro short_writes)
  next
    case False
    then consider m where "v = arrayValue m" "m \<noteq> []" | m where "v = objectValue m" "m \<noteq> []"
      by (cases v) (fastforce simp: short_child_def isArray_def isObject_def json_size_def split: if_splits)+
    then show ?thesis
    proof cases
      case 1
      then show ?thesis
        using less.IH size_member_of[of _ m] less.prems by (auto intro!: array_writes)
    next
      case 2
      then show ?thesis
        using less.IH size_member[of _ _ m] less.prems by (auto intro!: object_writes)
    qed
  qed
qed

text \<open>C12. Dump and parse are inverse: what the styled writer makes of a tree is read back as exactly that
  tree, without an error and whatever the reader held before, for trees without negative, 64-bit or
  floating-point numbers and with strings that need no escape.\<close>

theorem dump_parse_roundtrip:
  assumes "writable v" and "2 * length (writer_write g v) + 1 \<le> n"
  shows "\<exists>r. reader_parse lf n (writer_write g v) tree = Some (Inr (True, v, r)) \<and> rd_errors r = []"
proof -
  have "writing [] StyledWriter"
    by (simp add: writing_def StyledWriter_def)
  then obtain b s where b: "blank b" "rendering v s" "sw_document (writeValue g v StyledWriter) = b @ s"
    using writable_writes[OF assms(1), of g] unfolding writes_def by (metis StyledWriter_def append_Nil styled_writer.select_convs(1))
  have "blank [NL]"
    by (simp add: is_space_def)
  then show ?thesis
    using rendering_text[OF b(2,1), of "[NL]" n lf tree] assms(2) b(3) by (simp add: writer_write_def)
qed


section \<open>Limits of the pair\<close>

text \<open>A 64-bit number is dumped with its lower 32 bits: \<^verbatim>\<open>uintToString\<close> takes an \<^verbatim>\<open>unsigned int\<close>.\<close>

lemma dump_cuts_numbers: "writer_write g (uintValue u) = decimal (unat u mod 2 ^ 32) @ [NL]"
  by (simp add: writer_write_def StyledWriter_def pushValue_def valueToString_UInt_def uintToString_def put_def
      unsigned_ucast_eq take_bit_eq_mod)

text \<open>Strings are quoted and not escaped, so a dumped string with a quote in it ends there when it is read.\<close>

lemma dump_does_not_escape:
  "writer_write g (stringValue [CHR ''a'', QUOTE, CHR ''b'']) = [QUOTE, CHR ''a'', QUOTE, CHR ''b'', QUOTE, NL]"
  "\<exists>r. reader_parse lf 10 [QUOTE, CHR ''a'', QUOTE, CHR ''b'', QUOTE, NL] tree =
    Some (Inr (True, stringValue ''a'', r))"
proof -
  show "writer_write g (stringValue [CHR ''a'', QUOTE, CHR ''b'']) = [QUOTE, CHR ''a'', QUOTE, CHR ''b'', QUOTE, NL]"
    by (simp add: writer_write_def StyledWriter_def pushValue_def valueToQuotedString_def put_def)
  have "skipCommentTokens (reader_of [QUOTE, CHR ''a'', QUOTE, CHR ''b'', QUOTE, NL]) =
      (\<lparr>tok_type = tokenString, tok_start = [QUOTE, CHR ''a'', QUOTE, CHR ''b'', QUOTE, NL],
        tok_end = [CHR ''b'', QUOTE, NL]\<rparr>,
       (reader_of [QUOTE, CHR ''a'', QUOTE, CHR ''b'', QUOTE, NL])\<lparr>rd_current := [CHR ''b'', QUOTE, NL]\<rparr>)"
    by (subst skipCommentTokens.simps)
      (simp add: readToken_def Let_def reader_of_def getNextChar_def token_rest_def readString_def is_digit_def)
  then show "\<exists>r. reader_parse lf 10 [QUOTE, CHR ''a'', QUOTE, CHR ''b'', QUOTE, NL] tree =
      Some (Inr (True, stringValue ''a'', r))"
    by (simp add: reader_parse_def run_bind_def numeral_eq_Suc decodeString_def decode_string_def tok_text_def
        Value_string_def c_str_def)
qed

section \<open>Witnesses\<close>

definition ex_tree :: json where
  "ex_tree = objectValue [(''Debug'', booleanValue True), (''LUN'', json_list [stringValue ''LV0'', nullValue]),
     (''PoolSoftLimit'', intValue 1048576)]"

lemma ex_tree_writable: "writable ex_tree"
proof -
  have "[0..1] = [0, 1 :: int]"
    by (simp add: upto_rec1)
  moreover have "''Debug'' < ''LUN''" "''Debug'' < ''PoolSoftLimit''" "''LUN'' < ''PoolSoftLimit''"
    by (simp_all add: Cons_less_Cons less_char_def)
  ultimately show ?thesis
    by (simp add: ex_tree_def json_list_def)
qed

lemma dump_parse_roundtrip_witness:
  "writable ex_tree \<and>
   (\<exists>r. reader_parse (\<lambda>_. None) (2 * length (writer_write (\<lambda>_. []) ex_tree) + 1) (writer_write (\<lambda>_. []) ex_tree)
     nullValue = Some (Inr (True, ex_tree, r)) \<and> rd_errors r = [])"
  using dump_parse_roundtrip[OF ex_tree_writable order.refl] ex_tree_writable by blast

lemma reader_terminates_witness:
  "\<exists>res. reader_parse (\<lambda>_. None) 7 ''{ /'' nullValue = Some res"
  using reader_terminates[of "''{ /''" "\<lambda>_. None" nullValue] by auto

lemma rendering_is_read_witness:
  "\<exists>r. reader_parse (\<lambda>_. None) 100 '' [ 7,true ] '' nullValue =
    Some (Inr (True, json_list [intValue 7, booleanValue True], r)) \<and> rd_errors r = []"
proof -
  have seven: "rendering (intValue 7) ''7''"
  proof -
    have "char_of (55 :: nat) = CHR ''7''"
      by code_simp
    then show ?thesis
      using rendering_render_elements_render_members.number[of 7] by (simp add: decimal_eq)
  qed
  have "render_elements [booleanValue True] ([] @ ''true'' @ '' '')"
    by (rule rendering_render_elements_render_members.intros)+ (simp_all add: is_space_def)
  then have "render_elements [intValue 7, booleanValue True] ('' '' @ ''7'' @ [] @ CHR '','' # ''true '')"
    using rendering_render_elements_render_members.element[OF seven, of "'' ''" "[]" "[booleanValue True]" "''true ''"]
    by (simp add: is_space_def)
  then have "rendering (json_list [intValue 7, booleanValue True]) (CHR ''['' # '' 7,true '' @ '']'')"
    by (intro rendering_render_elements_render_members.array) simp_all
  then show ?thesis
    using rendering_is_read[of "json_list [intValue 7, booleanValue True]" "''[ 7,true ]''" "'' ''" "'' ''" 100
        "\<lambda>_. None" nullValue]
    by (simp add: is_space_def)
qed

lemma numbers_are_cut_witness:
  "(\<exists>r. reader_parse (\<lambda>_. None) 100 (decimal 4294967296 @ []) nullValue = Some (Inr (True, intValue 0, r))) \<and>
   asUInt (intValue (of_nat 2147483648)) = Inl Abort"
proof -
  have len: "length (decimal 4294967296) = 10" "length (decimal 2147483648) = 10"
    by (simp_all add: decimal_eq)
  have zero: "(4294967296 :: u32) = 0"
    by code_simp
  then show ?thesis
    using numbers_are_cut[of 4294967296 "[]" 100 "\<lambda>_. None" nullValue] len
      numbers_are_cut[of 2147483648 "[]" 100 "\<lambda>_. None" nullValue]
    by (simp add: zero)
qed

end
