(* ===== verification/Config.thy ===== *)
theory Config
  imports JsonReader JsonWriter
begin

text \<open>
  The configuration: \<^verbatim>\<open>include/validator.h\<close> and \<^verbatim>\<open>src/validator.cpp\<close>, \<^verbatim>\<open>src/rootvalidator.cpp\<close>,
  \<^verbatim>\<open>src/configurator.cpp\<close> with \<^verbatim>\<open>include/configdefault.hpp\<close>, \<^verbatim>\<open>src/configbinder.cpp\<close>, and of
  \<^verbatim>\<open>include/inetutils.h\<close> what reads and writes addresses. The configurator is one tree that the command line
  and the configuration file fill, and a table of defaults. Calls into the system are parameters.
\<close>

section \<open>The system\<close>

text \<open>\<open>sys_getaddrinfo\<close> gives the bytes of the first address, \<open>sys_getnameinfo\<close> host and port in numbers or the
  text of the error; \<open>sys_fresh\<close> is what an uninitialised \<^verbatim>\<open>sockaddr_storage\<close> holds, \<open>sys_bad_get\<close> the text
  of \<^verbatim>\<open>boost::bad_get\<close>; \<open>sys_files\<close> are the files that can be opened. \<open>sys_lf\<close> and \<open>sys_g\<close> read and write
  floating-point numbers.\<close>

record system =
  sys_getaddrinfo :: "string \<Rightarrow> string \<Rightarrow> u8 list option"
  sys_getnameinfo :: "u8 list \<Rightarrow> string + string \<times> string"
  sys_fresh :: "u8 list"
  sys_bad_get :: string
  sys_files :: "string \<Rightarrow> string option"
  sys_lf :: "string \<Rightarrow> double option"
  sys_g :: "double \<Rightarrow> string"

text \<open>The expression \<^verbatim>\<open>\[(.*)\].*:([0-9]+)\<close>: the first bracket that can start a match, then each star takes as
  much as it can.\<close>

fun last_port :: "string \<Rightarrow> string option" where
  "last_port [] = None"
| "last_port (c # cs) =
     (case last_port cs of
        Some p \<Rightarrow> Some p
      | None \<Rightarrow> if c = CHR '':'' \<and> is_digit (peek cs) then Some (takeWhile is_digit cs) else None)"

fun bracketed :: "string \<Rightarrow> string \<Rightarrow> (string \<times> string) option" where
  "bracketed acc [] = None"
| "bracketed acc (c # cs) =
     (case bracketed (acc @ [c]) cs of
        Some m \<Rightarrow> Some m
      | None \<Rightarrow> if c = CHR '']'' then map_option (\<lambda>p. (acc, p)) (last_port cs) else None)"

fun match_address :: "string \<Rightarrow> (string \<times> string) option" where
  "match_address [] = None"
| "match_address (c # cs) =
     (case (if c = CHR ''['' then bracketed [] cs else None) of
        Some m \<Rightarrow> Some m | None \<Rightarrow> match_address cs)"

text \<open>\<^verbatim>\<open>getSockAddr\<close> copies the address it finds over the beginning of the one it is given.\<close>

definition getSockAddr :: "system \<Rightarrow> string \<Rightarrow> u8 list \<Rightarrow> bool \<times> u8 list" where
  "getSockAddr sys str addr =
     (case match_address str of
        None \<Rightarrow> (False, addr)
      | Some (host, port) \<Rightarrow>
          (case sys_getaddrinfo sys (c_str host) port of
             None \<Rightarrow> (False, addr)
           | Some a \<Rightarrow> (True, a @ drop (length a) addr)))"

definition getAddrPortStr :: "system \<Rightarrow> u8 list \<Rightarrow> string result" where
  "getAddrPortStr sys addr =
     (case sys_getnameinfo sys addr of
        Inl what \<Rightarrow> Inl (Throw what)
      | Inr (host, port) \<Rightarrow>
          if port = [] \<or> hd port = CHR ''0'' then Inl (Throw ''Invalid port specified'')
          else Inr (CHR ''['' # host @ '']:'' @ port))"

section \<open>Validators\<close>

text \<open>The value that is checked, and the validators by the type they are made for:
  \<^verbatim>\<open>GenericValidator<uint64_t>\<close>, \<^verbatim>\<open><bool>\<close> and \<^verbatim>\<open><string>\<close>.\<close>

datatype attr = NumAttr u64 | BoolAttr bool | StrAttr string

datatype num_validator = RangeValidator u64 u64
datatype bool_validator = NullBool | FixedBool bool
datatype string_validator = LengthValidator nat nat | AddrStrValidator | NullString

datatype any_validator = ForNum num_validator | ForBool bool_validator | ForString string_validator

fun num_valid :: "num_validator \<Rightarrow> u64 \<Rightarrow> bool" where
  "num_valid (RangeValidator lo hi) challenge \<longleftrightarrow> lo \<le> challenge \<and> challenge \<le> hi"

fun bool_valid :: "bool_validator \<Rightarrow> bool \<Rightarrow> bool" where
  "bool_valid NullBool challenge \<longleftrightarrow> True"
| "bool_valid (FixedBool fixed) challenge \<longleftrightarrow> challenge = fixed"

fun string_valid :: "system \<Rightarrow> string_validator \<Rightarrow> string \<Rightarrow> bool" where
  "string_valid sys (LengthValidator lo hi) challenge \<longleftrightarrow> lo \<le> length challenge \<and> length challenge \<le> hi"
| "string_valid sys AddrStrValidator challenge \<longleftrightarrow> fst (getSockAddr sys challenge (sys_fresh sys))"
| "string_valid sys NullString challenge \<longleftrightarrow> True"

type_synonym validators = "(string \<times> any_validator) list"

text \<open>\<^verbatim>\<open>validAttr\<close>: a value of another type than the validator's makes \<^verbatim>\<open>boost::get\<close> throw.\<close>

definition validAttr :: "system \<Rightarrow> validators \<Rightarrow> string \<Rightarrow> attr \<Rightarrow> bool result" where
  "validAttr sys vs attr value =
     (case map_of vs attr of
        None \<Rightarrow> Inr False
      | Some v \<Rightarrow>
          (case (v, value) of
             (ForNum n, NumAttr x) \<Rightarrow> Inr (num_valid n x)
           | (ForBool b, BoolAttr x) \<Rightarrow> Inr (bool_valid b x)
           | (ForString s, StrAttr x) \<Rightarrow> Inr (string_valid sys s x)
           | _ \<Rightarrow> Inl (Throw (attr @ '' : Type mismatch? '' @ sys_bad_get sys))))"

definition PATH_MAX :: nat where
  "PATH_MAX = 4096"

definition root_validators :: validators where
  "root_validators =
    [(''ConfigFile'', ForString (LengthValidator 1 PATH_MAX)),
     (''PIDfile'', ForString (LengthValidator 1 PATH_MAX)),
     (''Debug'', ForBool NullBool),
     (''GlobalTargetName'', ForString (LengthValidator 1 PATH_MAX)),
     (''LocalTargetName'', ForString (LengthValidator 1 PATH_MAX)),
     (''ConsolePort'', ForString AddrStrValidator),
     (''LogFile'', ForString (LengthValidator 1 PATH_MAX)),
     (''LogLevel'', ForString (LengthValidator 1 6)),
     (''PoolSoftLimit'', ForNum (RangeValidator 1048576 (2 ^ 63 - 1))),
     (''PoolHardLimit'', ForNum (RangeValidator 2097152 (-1))),
     (''MaxConnections'', ForNum (RangeValidator 1 8)),
     (''InitialR2T'', ForBool NullBool),
     (''ImmediateData'', ForBool NullBool),
     (''MaxRecvDataSegmentLength'', ForNum (RangeValidator 512 (push_bit 24 2 - 1))),
     (''MaxBurstLength'', ForNum (RangeValidator 512 (push_bit 24 2 - 1))),
     (''FirstBurstLength'', ForNum (RangeValidator 512 (push_bit 24 2 - 1))),
     (''DefaultTime2Wait'', ForNum (RangeValidator 0 3600)),
     (''DefaultTime2Retain'', ForNum (RangeValidator 0 3600)),
     (''MaxOutstandingR2T'', ForNum (RangeValidator 0 65535)),
     (''DataPDUInOrder'', ForBool (FixedBool True)),
     (''DataSequenceInOrder'', ForBool (FixedBool True)),
     (''ErrorRecoveryLevel'', ForNum (RangeValidator 0 2)),
     (''HeaderDigest'', ForString (LengthValidator 4 12)),
     (''DataDigest'', ForString (LengthValidator 4 12)),
     (''NopOutInterval'', ForNum (RangeValidator 0 3600)),
     (''NopOutTimeout'', ForNum (RangeValidator 0 60)),
     (''IFMarker'', ForBool NullBool),
     (''OFMarker'', ForBool NullBool)]"

definition root_required :: "string list" where
  "root_required = [''GlobalTargetName'', ''LocalTargetName'', '''']"

definition root_optional :: "string list" where
  "root_optional =
    [''ConfigFile'', ''PIDfile'', ''Debug'', ''TargetPort'', ''ConsolePort'', ''LogFile'', ''LogLevel'',
     ''MaxConnections'', ''InitialR2T'', ''ImmediateData'', ''MaxRecvDataSegmentLength'', ''MaxBurstLength'',
     ''FirstBurstLength'', ''DefaultTime2Wait'', ''DefaultTime2Retain'', ''MaxOutstandingR2T'',
     ''DataPDUInOrder'', ''DataSequenceInOrder'', ''ErrorRecoveryLevel'', ''HeaderDigest'', ''DataDigest'',
     ''NopOutInterval'', ''NopOutTimeout'', ''IFMarker'', ''OFMarker'', ''Target'', ''Initiator'', ''Volume'',
     ''PoolHardLimit'', ''PoolSoftLimit'', '''']"

subsection \<open>Names of attributes\<close>

text \<open>\<^verbatim>\<open>AttrValidator\<close>: the arrays end with an empty string; a name in both is an error.\<close>

record attr_validator =
  av_required :: "(string \<times> bool) list"
  av_optional :: "(string \<times> bool) list"

definition AttrValidator :: "string list \<Rightarrow> string list \<Rightarrow> attr_validator result" where
  "AttrValidator required optional =
     (let req = fold (\<lambda>a m. map_put a False m) (takeWhile (\<lambda>s. s \<noteq> []) required) []
      in bind (fold (\<lambda>a m. bind m (\<lambda>opt.
                 if map_of req a \<noteq> None then Inl (Throw (a @ '' is duplicated''))
                 else Inr (map_put a False opt))) (takeWhile (\<lambda>s. s \<noteq> []) optional) (Inr []))
           (\<lambda>opt. Inr \<lparr>av_required = req, av_optional = opt\<rparr>))"

definition attr_invalid :: "attr_validator \<Rightarrow> string \<Rightarrow> bool" where
  "attr_invalid av attr \<longleftrightarrow> map_of (av_required av) attr = None \<and> map_of (av_optional av) attr = None"

definition attr_satisfied :: "attr_validator \<Rightarrow> string list \<Rightarrow> bool result" where
  "attr_satisfied av members =
     (case find (\<lambda>(key, _). key \<notin> set members) (av_required av) of
        Some (key, _) \<Rightarrow> Inl (Throw (key @ '' is not specified'' @ [NL]))
      | None \<Rightarrow> Inr True)"

text \<open>\<^verbatim>\<open>attrsSatisfied\<close> of the root, target, initiator, volume and real volume validators: the same code over
  their own arrays.\<close>

definition attrsSatisfied :: "string list \<Rightarrow> string list \<Rightarrow> json \<Rightarrow> bool result" where
  "attrsSatisfied required optional tree =
     bind (AttrValidator required optional) (\<lambda>av.
     bind (getMemberNames tree) (\<lambda>members.
       case find (attr_invalid av) members of
         Some a \<Rightarrow> Inl (Throw (''Invalid attribute '' @ a @ '' found''))
       | None \<Rightarrow> attr_satisfied av members))"


section \<open>The configurator\<close>

text \<open>\<^verbatim>\<open>ConfiguratorImpl\<close>: the tree, the tree saved while a file is parsed, and the defaults.\<close>

record config =
  cf_root :: json
  cf_cmdargs :: json
  cf_defaults :: "(string \<times> attr) list"

definition DEFAULT_CONFIGFILE :: string where
  "DEFAULT_CONFIGFILE = ''/etc/sstorage/sstoraged.conf''"

definition DEFAULT_PIDFILE :: string where
  "DEFAULT_PIDFILE = ''/var/run/sstoraged''"

definition default_values :: "(string \<times> attr) list" where
  "default_values =
    [(''Debug'', BoolAttr False), (''ConfigFile'', StrAttr DEFAULT_CONFIGFILE),
     (''PIDfile'', StrAttr DEFAULT_PIDFILE),
     (''GlobalTargetName'', StrAttr ''iqn.2006-12.com.example:sStorage''),
     (''LocalTargetName'', StrAttr ''iqn.2006-12.com.example:sStorage0''),
     (''ConsolePort'', StrAttr ''[0.0.0.0]:32680''), (''LogFile'', StrAttr ''/var/log/sstoraged/system.log''),
     (''LogLevel'', StrAttr ''info''), (''PoolSoftLimit'', NumAttr 134217728),
     (''PoolHardLimit'', NumAttr 268435456), (''MaxConnections'', NumAttr 1), (''InitialR2T'', BoolAttr False),
     (''ImmediateData'', BoolAttr True), (''MaxRecvDataSegmentLength'', NumAttr 65536),
     (''MaxBurstLength'', NumAttr 16776192), (''FirstBurstLength'', NumAttr 262144),
     (''DefaultTime2Wait'', NumAttr 2), (''DefaultTime2Retain'', NumAttr 20), (''MaxOutstandingR2T'', NumAttr 1),
     (''DataPDUInOrder'', BoolAttr True), (''DataSequenceInOrder'', BoolAttr True),
     (''ErrorRecoveryLevel'', NumAttr 0), (''HeaderDigest'', StrAttr ''None''), (''DataDigest'', StrAttr ''None''),
     (''NopOutInterval'', NumAttr 30), (''NopOutTimeout'', NumAttr 5), (''IFMarker'', BoolAttr False),
     (''OFMarker'', BoolAttr False), (''DiscoveryAuthMethod'', StrAttr ''None''),
     (''SessionAuthMethod'', StrAttr ''None'')]"

text \<open>\<^verbatim>\<open>defaultValue\<close> is a map: assignments in the order of the code.\<close>

definition config_setDefaults :: "config \<Rightarrow> config" where
  "config_setDefaults cf = cf\<lparr>cf_defaults := fold (\<lambda>(a, v). map_put a v) default_values (cf_defaults cf)\<rparr>"

definition config_clear :: "config \<Rightarrow> config result" where
  "config_clear cf = bind (json_clear (cf_root cf)) (\<lambda>t. Inr (cf\<lparr>cf_root := t\<rparr>))"

definition Configurator_setDefaults :: "config \<Rightarrow> config result" where
  "Configurator_setDefaults cf = bind (config_clear cf) (\<lambda>cf. Inr (config_setDefaults cf))"

definition Configurator :: config where
  "Configurator = config_setDefaults \<lparr>cf_root = nullValue, cf_cmdargs = nullValue, cf_defaults = []\<rparr>"

text \<open>The getters: \<open>None\<close> is the answer \<^verbatim>\<open>false\<close>, after which the caller's variable is what it was. An
  attribute that is in the tree and has no default is read as it is; with a default of another type
  \<^verbatim>\<open>boost::get\<close> throws, also when the tree has the attribute, and the caller is told \<^verbatim>\<open>false\<close>.\<close>

definition config_getAttr_with ::
  "(json \<Rightarrow> 'a result) \<Rightarrow> (attr \<Rightarrow> json option) \<Rightarrow> string \<Rightarrow> config \<Rightarrow> 'a option result" where
  "config_getAttr_with as dflt attr cf =
     bind (isMember attr (cf_root cf)) (\<lambda>present.
       case map_of (cf_defaults cf) attr of
         None \<Rightarrow> if present then bind (json_member attr (cf_root cf)) (\<lambda>v. bind (as v) (\<lambda>x. Inr (Some x)))
                 else Inr None
       | Some d \<Rightarrow>
           (case dflt d of
              None \<Rightarrow> Inr None
            | Some dv \<Rightarrow> bind (json_get attr dv (cf_root cf)) (\<lambda>v. bind (as v) (\<lambda>x. Inr (Some x)))))"

definition config_getAttr_bool :: "string \<Rightarrow> config \<Rightarrow> bool option result" where
  "config_getAttr_bool = config_getAttr_with (\<lambda>v. Inr (asBool v))
     (\<lambda>d. case d of BoolAttr b \<Rightarrow> Some (booleanValue b) | _ \<Rightarrow> None)"

definition config_getAttr_string :: "string \<Rightarrow> config \<Rightarrow> string option result" where
  "config_getAttr_string = config_getAttr_with asString (\<lambda>d. case d of StrAttr s \<Rightarrow> Some (Value_string s) | _ \<Rightarrow> None)"

text \<open>No default is an \<^verbatim>\<open>int\<close>.\<close>

definition config_getAttr_int :: "string \<Rightarrow> config \<Rightarrow> u32 option result" where
  "config_getAttr_int = config_getAttr_with asInt (\<lambda>_. None)"

definition config_getAttr_uint64 :: "string \<Rightarrow> config \<Rightarrow> u64 option result" where
  "config_getAttr_uint64 = config_getAttr_with asUInt (\<lambda>d. case d of NumAttr n \<Rightarrow> Some (uintValue n) | _ \<Rightarrow> None)"

fun attr_json :: "attr \<Rightarrow> json" where
  "attr_json (NumAttr n) = uintValue n"
| "attr_json (BoolAttr b) = booleanValue b"
| "attr_json (StrAttr s) = Value_string s"

text \<open>\<^verbatim>\<open>setAttr\<close>: what the validator throws counts as refused.\<close>

definition config_setAttr :: "system \<Rightarrow> string \<Rightarrow> attr \<Rightarrow> config \<Rightarrow> (bool \<times> config) result" where
  "config_setAttr sys attr value cf =
     bind (try_bind (validAttr sys root_validators attr value) (\<lambda>_. Inr False)) (\<lambda>ok.
       if ok then bind (set_member attr (attr_json value) (cf_root cf)) (\<lambda>t. Inr (True, cf\<lparr>cf_root := t\<rparr>))
       else Inr (False, cf))"

text \<open>\<^verbatim>\<open>restoreCommandArgs\<close> for one name; all three are treated alike.\<close>

definition restore :: "string \<Rightarrow> config \<Rightarrow> config result" where
  "restore attr cf =
     bind (isMember attr (cf_cmdargs cf)) (\<lambda>present.
       if present
       then bind (json_member attr (cf_cmdargs cf)) (\<lambda>v.
            bind (set_member attr v (cf_root cf)) (\<lambda>t. Inr (cf\<lparr>cf_root := t\<rparr>)))
       else Inr cf)"

definition restoreCommandArgs :: "config \<Rightarrow> config result" where
  "restoreCommandArgs cf = bind (restore ''Debug'' cf) (\<lambda>cf. bind (restore ''ConfigFile'' cf) (restore ''PIDfile''))"

text \<open>\<^verbatim>\<open>parse\<close>: after an error the tree keeps what was read so far, without the saved arguments. The bound on
  the calls of the reader is the one it never reaches.\<close>

definition config_parse :: "system \<Rightarrow> string \<Rightarrow> config \<Rightarrow> unit result \<times> config" where
  "config_parse sys text cf =
     (let cf1 = cf\<lparr>cf_cmdargs := cf_root cf\<rparr>
      in case reader_parse (sys_lf sys) (2 * length text + 1) text (cf_root cf1) of
           None \<Rightarrow> (Inl Undefined, cf1)
         | Some (Inl e) \<Rightarrow> (Inl e, cf1)
         | Some (Inr (ok, tree, r)) \<Rightarrow>
             if \<not> ok then (Inl (Throw (''Failed to parse configuration : '' @ getFormatedErrorMessages r)),
                           cf1\<lparr>cf_root := tree\<rparr>)
             else (case restoreCommandArgs (cf1\<lparr>cf_root := tree\<rparr>) of
                     Inl e \<Rightarrow> (Inl e, cf1\<lparr>cf_root := tree\<rparr>) | Inr cf2 \<Rightarrow> (Inr (), cf2)))"

definition config_dump :: "system \<Rightarrow> config \<Rightarrow> string" where
  "config_dump sys cf = writer_write (sys_g sys) (cf_root cf)"

section \<open>The configuration file\<close>

text \<open>\<^verbatim>\<open>ConfigBinderImpl::append\<close> reads lines into a buffer of 128 bytes. The state of the stream is what is
  left of the file and the bits \<^verbatim>\<open>eof\<close> and \<^verbatim>\<open>fail\<close>. \<^verbatim>\<open>getline\<close> on a stream that has failed stores an empty
  string and reads nothing; a line that does not fit sets the bit.\<close>

definition MAX_CHAR_PER_LINE :: nat where
  "MAX_CHAR_PER_LINE = 128"

record istream =
  is_rest :: string
  is_eof :: bool
  is_fail :: bool

definition getline :: "nat \<Rightarrow> istream \<Rightarrow> string \<times> istream" where
  "getline n s =
     (if is_eof s \<or> is_fail s then ([], s\<lparr>is_fail := True\<rparr>)
      else let line = takeWhile (\<lambda>c. c \<noteq> NL) (is_rest s);
               rest = dropWhile (\<lambda>c. c \<noteq> NL) (is_rest s)
           in if n \<le> length line
              then (take (n - 1) line, s\<lparr>is_rest := drop (n - 1) (is_rest s), is_fail := True\<rparr>)
              else if rest = [] then (line, s\<lparr>is_rest := [], is_eof := True, is_fail := (line = [])\<rparr>)
              else (line, s\<lparr>is_rest := tl rest\<rparr>))"

partial_function (option) append_lines :: "istream \<Rightarrow> string \<Rightarrow> string option" where
  "append_lines s acc =
     (if is_eof s then Some acc
      else let (buf, s') = getline MAX_CHAR_PER_LINE s in append_lines s' (acc @ c_str buf @ [NL]))"

definition binder_append :: "system \<Rightarrow> string \<Rightarrow> string \<Rightarrow> string result option" where
  "binder_append sys file acc =
     (case sys_files sys file of
        None \<Rightarrow> Some (Inl (Throw (''Failed to open : '' @ file)))
      | Some text \<Rightarrow> map_option Inr (append_lines \<lparr>is_rest = text, is_eof = False, is_fail = False\<rparr> acc))"

text \<open>\<^verbatim>\<open>ConfigBinder::load\<close> starts from no lines, \<^verbatim>\<open>append\<close> from those of the files before.\<close>

definition ConfigBinder_append :: "system \<Rightarrow> string \<Rightarrow> string \<Rightarrow> config \<Rightarrow> (unit result \<times> string \<times> config) option" where
  "ConfigBinder_append sys file acc cf =
     (case binder_append sys file acc of
        None \<Rightarrow> None
      | Some (Inl e) \<Rightarrow> Some (Inl e, acc, cf)
      | Some (Inr text) \<Rightarrow> (let (res, cf') = config_parse sys text cf in Some (res, text, cf')))"

definition ConfigBinder_load :: "system \<Rightarrow> string \<Rightarrow> config \<Rightarrow> (unit result \<times> string \<times> config) option" where
  "ConfigBinder_load sys file cf = ConfigBinder_append sys file [] cf"

text \<open>\<^verbatim>\<open>parseArgs\<close>: the options of the command line in their order; \<open>None\<close> is an option \<^verbatim>\<open>getopt\<close> refuses. Help
  and version print and exit.\<close>

datatype option_arg = Opt_c string | Opt_d | Opt_h | Opt_p string | Opt_v

datatype args_end = ArgsDone config | ArgsExit | ArgsInvalid config

fun parseArgs :: "system \<Rightarrow> option_arg option list \<Rightarrow> config \<Rightarrow> args_end result" where
  "parseArgs sys [] cf = Inr (ArgsDone cf)"
| "parseArgs sys (None # args) cf = Inr (ArgsInvalid cf)"
| "parseArgs sys (Some (Opt_c f) # args) cf =
     bind (config_setAttr sys ''ConfigFile'' (StrAttr f) cf) (\<lambda>(_, cf). parseArgs sys args cf)"
| "parseArgs sys (Some Opt_d # args) cf =
     bind (config_setAttr sys ''Debug'' (BoolAttr True) cf) (\<lambda>(_, cf). parseArgs sys args cf)"
| "parseArgs sys (Some (Opt_p f) # args) cf =
     bind (config_setAttr sys ''PIDfile'' (StrAttr f) cf) (\<lambda>(_, cf). parseArgs sys args cf)"
| "parseArgs sys (Some _ # args) cf = Inr ArgsExit"

end
