(* ===== verification/ConfigTables.thy ===== *)
theory ConfigTables
  imports Config
begin

text \<open>
  The tables inside the configuration: \<^verbatim>\<open>include/taggedconfigurator.h\<close>, the template that edits an array of
  the tree as a table with a key, and the entries that do not depend on other tables, target ports
  (\<^verbatim>\<open>include/targetportconfigurator.h\<close>), logical units (\<open>LUNinfo\<close>) and targets
  (\<^verbatim>\<open>targetconfigurator\<close>). A template parameter \<^verbatim>\<open>INFO\<close> is the record of its operations. A reference into the
  tree is the path to it.
\<close>

section \<open>Commands on the configuration\<close>

text \<open>What changes the configuration and may throw keeps its changes when it throws.\<close>

type_synonym 'a cmd = "config \<Rightarrow> 'a result \<times> config"

definition ret :: "'a \<Rightarrow> 'a cmd" where
  "ret a cf = (Inr a, cf)"

definition lift :: "'a result \<Rightarrow> 'a cmd" where
  "lift m cf = (m, cf)"

definition then_do :: "'a cmd \<Rightarrow> ('a \<Rightarrow> 'b cmd) \<Rightarrow> 'b cmd" where
  "then_do m f cf = (case m cf of (Inl e, cf') \<Rightarrow> (Inl e, cf') | (Inr a, cf') \<Rightarrow> f a cf')"

definition catch :: "'a cmd \<Rightarrow> (string \<Rightarrow> 'a cmd) \<Rightarrow> 'a cmd" where
  "catch m h cf = (case m cf of (Inl (Throw what), cf') \<Rightarrow> h what cf' | res \<Rightarrow> res)"

section \<open>References\<close>

datatype step = Key string | Index u64

type_synonym path = "step list"

fun tree_at :: "path \<Rightarrow> json \<Rightarrow> json" where
  "tree_at [] t = t"
| "tree_at (Key k # p) t = tree_at p (object_slot k t)"
| "tree_at (Index i # p) t = tree_at p (array_slot i t)"

fun tree_update :: "path \<Rightarrow> (json \<Rightarrow> json result) \<Rightarrow> json \<Rightarrow> json result" where
  "tree_update [] f t = f t"
| "tree_update (Key k # p) f t = bind (tree_update p f (object_slot k t)) (\<lambda>x. set_member k x t)"
| "tree_update (Index i # p) f t = bind (tree_update p f (array_slot i t)) (\<lambda>x. set_at i x t)"

definition read_at :: "path \<Rightarrow> json cmd" where
  "read_at p cf = (Inr (tree_at p (cf_root cf)), cf)"

definition update_at :: "path \<Rightarrow> (json \<Rightarrow> json result) \<Rightarrow> unit cmd" where
  "update_at p f cf =
     (case tree_update p f (cf_root cf) of Inl e \<Rightarrow> (Inl e, cf) | Inr t \<Rightarrow> (Inr (), cf\<lparr>cf_root := t\<rparr>))"

text \<open>The non-const operators create the member they return.\<close>

definition touch_member :: "string \<Rightarrow> path \<Rightarrow> unit cmd" where
  "touch_member key p = update_at p (\<lambda>v. set_member key (object_slot key v) v)"

definition touch_at :: "u64 \<Rightarrow> path \<Rightarrow> unit cmd" where
  "touch_at i p = update_at p (\<lambda>v. set_at i (array_slot i v) v)"

section \<open>TaggedConfigurator\<close>

record ('info, 'key) info_ops =
  io_new :: "path \<Rightarrow> u64 \<Rightarrow> 'info cmd"
  io_key :: "'info \<Rightarrow> 'key result"
  io_serialize :: "'info \<Rightarrow> json result"
  io_valid :: "'info \<Rightarrow> bool cmd"

record 'info tagged =
  tc_path :: path
  tc_index :: u64
  tc_prev :: u64
  tc_info :: "'info option"

definition TaggedConfigurator :: "path \<Rightarrow> string \<Rightarrow> 'info tagged cmd" where
  "TaggedConfigurator parent tag =
     then_do (touch_member tag parent) (\<lambda>_.
     ret \<lparr>tc_path = parent @ [Key tag], tc_index = 0, tc_prev = 0, tc_info = None\<rparr>)"

subsection \<open>The array\<close>

definition impl_add :: "('info, 'key) info_ops \<Rightarrow> path \<Rightarrow> 'info \<Rightarrow> bool cmd" where
  "impl_add ops p info =
     then_do (io_valid ops info) (\<lambda>ok.
       if \<not> ok then ret False
       else then_do (lift (io_serialize ops info)) (\<lambda>v.
            then_do (update_at p (json_append v)) (\<lambda>_. ret True)))"

text \<open>Deleting clears the array and appends every element but the one.\<close>

definition append_but :: "u64 \<Rightarrow> json list \<Rightarrow> json \<Rightarrow> json result" where
  "append_but key vs t =
     fold (\<lambda>(i, v) m. bind m (\<lambda>t. if of_nat i = key then Inr t else json_append v t)) (enumerate 0 vs) (Inr t)"

definition elements_of :: "json \<Rightarrow> json list" where
  "elements_of v = map (\<lambda>i. array_slot (of_nat i) v) [0..<unat (json_size v)]"

definition impl_del :: "path \<Rightarrow> u64 \<Rightarrow> bool cmd" where
  "impl_del p key =
     then_do (read_at p) (\<lambda>tmp.
     then_do (update_at p (\<lambda>v. bind (json_clear v) (append_but key (elements_of tmp)))) (\<lambda>_.
     ret (key < json_size tmp)))"

text \<open>\<^verbatim>\<open>update\<close> takes the index as an \<^verbatim>\<open>int\<close>.\<close>

definition impl_update :: "('info, 'key) info_ops \<Rightarrow> path \<Rightarrow> 'info \<Rightarrow> u64 \<Rightarrow> bool cmd" where
  "impl_update ops p info key =
     then_do (io_valid ops info) (\<lambda>ok.
       if \<not> ok then ret False
       else then_do (lift (io_serialize ops info)) (\<lambda>v.
            then_do (update_at p (set_at (scast (ucast key :: u32)) v)) (\<lambda>_. ret True)))"

definition impl_get :: "('info, 'key) info_ops \<Rightarrow> path \<Rightarrow> u64 \<Rightarrow> 'info cmd" where
  "impl_get ops p key =
     then_do (read_at p) (\<lambda>v.
       if \<not> isArray v then lift (Inl (Throw ''Not defined : ''))
       else then_do (touch_at key p) (\<lambda>_. io_new ops (p @ [Index key]) key))"

definition impl_size :: "path \<Rightarrow> u64 cmd" where
  "impl_size p = then_do (read_at p) (\<lambda>v. ret (json_size v))"

subsection \<open>Iterators\<close>

text \<open>An iterator is the configurator itself or the null pointer: \<open>True\<close> is the former.\<close>

definition tc_begin :: "('info, 'key) info_ops \<Rightarrow> 'info tagged \<Rightarrow> (bool \<times> 'info tagged) cmd" where
  "tc_begin ops t =
     then_do (impl_size (tc_path t)) (\<lambda>n.
       if n = 0 then ret (False, t)
       else then_do (impl_get ops (tc_path t) 0) (\<lambda>info.
            ret (True, t\<lparr>tc_index := 0, tc_prev := 0, tc_info := Some info\<rparr>)))"

definition tc_next :: "'info tagged \<Rightarrow> (bool \<times> 'info tagged) cmd" where
  "tc_next t =
     (let t' = t\<lparr>tc_index := tc_index t + 1\<rparr>
      in then_do (impl_size (tc_path t)) (\<lambda>n. ret (tc_index t' < n, t')))"

text \<open>The element is read again when the index has moved.\<close>

definition tc_current :: "('info, 'key) info_ops \<Rightarrow> 'info tagged \<Rightarrow> ('info \<times> 'info tagged) cmd" where
  "tc_current ops t =
     (if tc_index t \<noteq> tc_prev t
      then then_do (impl_get ops (tc_path t) (tc_index t)) (\<lambda>info.
           ret (info, t\<lparr>tc_info := Some info, tc_prev := tc_index t\<rparr>))
      else lift (case tc_info t of None \<Rightarrow> Inl Undefined | Some info \<Rightarrow> Inr (info, t)))"

text \<open>A loop over the table, with the result of \<open>body\<close> (\<open>Some\<close> leaves it). It visits as many elements as the
  array has; the bound \<open>n\<close> is their number.\<close>

fun tc_loop ::
  "('info, 'key) info_ops \<Rightarrow> (u64 \<Rightarrow> 'info \<Rightarrow> 'a option cmd) \<Rightarrow> nat \<Rightarrow> 'info tagged \<Rightarrow> ('a option \<times> 'info tagged) cmd"
where
  "tc_loop ops body 0 t = lift (Inl Undefined)"
| "tc_loop ops body (Suc n) t =
     then_do (tc_current ops t) (\<lambda>(info, t).
     then_do (body (tc_index t) info) (\<lambda>res.
       case res of
         Some a \<Rightarrow> ret (Some a, t)
       | None \<Rightarrow> then_do (tc_next t) (\<lambda>(more, t). if more then tc_loop ops body n t else ret (None, t))))"

definition tc_for ::
  "('info, 'key) info_ops \<Rightarrow> (u64 \<Rightarrow> 'info \<Rightarrow> 'a option cmd) \<Rightarrow> 'info tagged \<Rightarrow> ('a option \<times> 'info tagged) cmd"
where
  "tc_for ops body t =
     then_do (tc_begin ops t) (\<lambda>(some, t).
       if some then then_do (impl_size (tc_path t)) (\<lambda>n. tc_loop ops body (unat n) t) else ret (None, t))"

definition tc_find :: "('info, 'key) info_ops \<Rightarrow> 'key \<Rightarrow> 'info tagged \<Rightarrow> (bool \<times> 'info tagged) cmd" where
  "tc_find ops key t =
     then_do (tc_for ops (\<lambda>_ info. then_do (lift (io_key ops info)) (\<lambda>k.
                ret (if k = key then Some () else None))) t) (\<lambda>(found, t). ret (found \<noteq> None, t))"

definition tc_add :: "('info, 'key) info_ops \<Rightarrow> 'info \<Rightarrow> 'info tagged \<Rightarrow> (bool \<times> 'info tagged) cmd" where
  "tc_add ops info t =
     then_do (lift (io_key ops info)) (\<lambda>key.
     then_do (tc_find ops key t) (\<lambda>(found, t).
       if found then ret (False, t)
       else then_do (impl_add ops (tc_path t) info) (\<lambda>ok. ret (ok, t))))"

definition tc_del :: "('info, 'key) info_ops \<Rightarrow> 'key \<Rightarrow> 'info tagged \<Rightarrow> (bool \<times> 'info tagged) cmd" where
  "tc_del ops key t =
     then_do (tc_find ops key t) (\<lambda>(found, t).
       if \<not> found then ret (False, t)
       else then_do (impl_del (tc_path t) (tc_index t)) (\<lambda>ok. ret (ok, t)))"

definition tc_update :: "('info, 'key) info_ops \<Rightarrow> 'info \<Rightarrow> 'info tagged \<Rightarrow> bool cmd" where
  "tc_update ops info t =
     then_do (impl_size (tc_path t)) (\<lambda>n.
       if n < tc_index t then ret False else impl_update ops (tc_path t) info (tc_index t))"

text \<open>\<^verbatim>\<open>remove\<close> steps back and forth, so the iterator it returns is on the index of the element that was
  removed, and its cached element is the removed one.\<close>

definition tc_remove :: "'info tagged \<Rightarrow> (bool \<times> 'info tagged) cmd" where
  "tc_remove t =
     then_do (impl_del (tc_path t) (tc_index t)) (\<lambda>_. tc_next (t\<lparr>tc_index := tc_index t - 1\<rparr>))"

fun tc_clear_loop :: "nat \<Rightarrow> 'info tagged \<Rightarrow> 'info tagged cmd" where
  "tc_clear_loop 0 t = lift (Inl Undefined)"
| "tc_clear_loop (Suc n) t = then_do (tc_remove t) (\<lambda>(more, t). if more then tc_clear_loop n t else ret t)"

definition tc_clear :: "('info, 'key) info_ops \<Rightarrow> 'info tagged \<Rightarrow> 'info tagged cmd" where
  "tc_clear ops t =
     then_do (tc_begin ops t) (\<lambda>(some, t).
       if some then then_do (impl_size (tc_path t)) (\<lambda>n. tc_clear_loop (unat n) t) else ret t)"

definition tc_empty :: "'info tagged \<Rightarrow> bool cmd" where
  "tc_empty t = then_do (impl_size (tc_path t)) (\<lambda>n. ret (n = 0))"

text \<open>\<^verbatim>\<open>valid\<close> of the configurators of targets, initiators and volumes: not empty, and every entry valid; what
  an entry throws gets its section and number in front. Target ports pass it on as it is.\<close>

definition tc_valid :: "('info, 'key) info_ops \<Rightarrow> (nat \<Rightarrow> string \<Rightarrow> string) \<Rightarrow> 'info tagged \<Rightarrow> bool cmd" where
  "tc_valid ops wrap t =
     then_do (tc_empty t) (\<lambda>empty.
       if empty then ret False
       else then_do (tc_for ops (\<lambda>i info.
              then_do (catch (io_valid ops info) (\<lambda>what. lift (Inl (Throw (wrap (unat i) what))))) (\<lambda>ok.
              ret (if ok then None else Some ()))) t) (\<lambda>(bad, t). ret (bad = None)))"

definition numbered :: "string \<Rightarrow> nat \<Rightarrow> string \<Rightarrow> string" where
  "numbered name i what = name @ CHR ''['' # decimal i @ ''] : '' @ what"

section \<open>Checking a tree\<close>

text \<open>\<^verbatim>\<open>RootValidator::validAttrs\<close> over the members of a tree that is the configuration itself or a tree an
  entry was serialized to. \<open>section\<close> gives the check of the members that are tables. The errors of all members are
  collected and thrown together.\<close>

definition attr_of :: "string \<Rightarrow> json \<Rightarrow> attr result" where
  "attr_of name v =
     (case v of
        uintValue _ \<Rightarrow> bind (asUInt v) (\<lambda>n. Inr (NumAttr n))
      | intValue _ \<Rightarrow> bind (asUInt v) (\<lambda>n. Inr (NumAttr n))
      | stringValue s \<Rightarrow> Inr (StrAttr s)
      | booleanValue b \<Rightarrow> Inr (BoolAttr b)
      | _ \<Rightarrow> Inl (Throw (''Unsupported type : '' @ name)))"

definition check_member ::
  "system \<Rightarrow> (string \<Rightarrow> bool cmd option) \<Rightarrow> validators \<Rightarrow> (config \<Rightarrow> json) \<Rightarrow> string \<Rightarrow> bool cmd" where
  "check_member sys section vs tree name =
     (case section name of
        Some check \<Rightarrow> check
      | None \<Rightarrow> (\<lambda>cf. (bind (json_member name (tree cf)) (\<lambda>v.
                      bind (attr_of name v) (\<lambda>a. validAttr sys vs name a)), cf)))"

fun check_members ::
  "system \<Rightarrow> (string \<Rightarrow> bool cmd option) \<Rightarrow> validators \<Rightarrow> (config \<Rightarrow> json) \<Rightarrow> string list \<Rightarrow> bool \<times> string \<Rightarrow>
    (bool \<times> string) cmd"
where
  "check_members sys section vs tree [] acc = ret acc"
| "check_members sys section vs tree (name # names) (good, errors) =
     then_do (catch (then_do (check_member sys section vs tree name) (\<lambda>ok.
                ret (if ok then (good, errors) else (False, errors @ name @ '' is invalid'' @ [NL]))))
              (\<lambda>what. ret (False, errors @ what)))
       (check_members sys section vs tree names)"

definition validAttrs ::
  "system \<Rightarrow> (string \<Rightarrow> bool cmd option) \<Rightarrow> validators \<Rightarrow> (config \<Rightarrow> json) \<Rightarrow> bool cmd" where
  "validAttrs sys section vs tree =
     then_do (\<lambda>cf. (getMemberNames (tree cf), cf)) (\<lambda>names.
     then_do (check_members sys section vs tree names (True, [])) (\<lambda>(good, errors).
       if good then ret True else lift (Inl (Throw errors))))"

text \<open>\<^verbatim>\<open>valid\<close> of an entry: it is serialized and that tree checked. \<^verbatim>\<open>attrsSatisfied\<close> comes first and lets only
  the names of the arrays through, among which there is no table.\<close>

definition entry_valid ::
  "system \<Rightarrow> string list \<Rightarrow> string list \<Rightarrow> validators \<Rightarrow> json result \<Rightarrow> bool cmd" where
  "entry_valid sys required optional vs serialized =
     then_do (lift serialized) (\<lambda>tmp.
     then_do (lift (attrsSatisfied required optional tmp)) (\<lambda>ok.
       if \<not> ok then ret False else validAttrs sys (\<lambda>_. None) vs (\<lambda>_. tmp)))"

end
