(* ===== verification/ConfigInfos.thy ===== *)
theory ConfigInfos
  imports ConfigTables
begin

text \<open>
  The entries of the tables and the tables themselves: target ports (\<^verbatim>\<open>targetportconfigurator\<close>), logical unit
  names, targets (\<^verbatim>\<open>targetconfigurator\<close>) and initiators with their authentication (\<^verbatim>\<open>initiatorconfigurator\<close>).
  Every entry has its constructor from the tree, its key, its serialization and its check.
\<close>

section \<open>Target ports\<close>

definition TargetPortInfo_new :: "path \<Rightarrow> u64 \<Rightarrow> string cmd" where
  "TargetPortInfo_new p key = then_do (read_at p) (\<lambda>v. lift (asString v))"

definition TargetPortInfo :: "system \<Rightarrow> (string, string) info_ops" where
  "TargetPortInfo sys =
     \<lparr>io_new = TargetPortInfo_new, io_key = Inr, io_serialize = (\<lambda>port. Inr (Value_string port)),
      io_valid = (\<lambda>port. ret (string_valid sys AddrStrValidator port))\<rparr>"

definition DEFAULT_TARGETPORT :: string where
  "DEFAULT_TARGETPORT = ''[0.0.0.0]:3260''"

text \<open>The constructor adds the default port to an empty table.\<close>

definition TargetPortConfigurator :: "system \<Rightarrow> string tagged cmd" where
  "TargetPortConfigurator sys =
     then_do (TaggedConfigurator [] ''TargetPort'') (\<lambda>t.
     then_do (tc_empty t) (\<lambda>empty.
       if empty then then_do (tc_add (TargetPortInfo sys) DEFAULT_TARGETPORT t) (\<lambda>(_, t). ret t) else ret t))"

definition TargetPortConfigurator_valid :: "system \<Rightarrow> string tagged \<Rightarrow> bool cmd" where
  "TargetPortConfigurator_valid sys t = tc_valid (TargetPortInfo sys) (\<lambda>_ what. what) t"

section \<open>Logical units of an initiator\<close>

definition LUNinfo_new :: "path \<Rightarrow> u64 \<Rightarrow> string cmd" where
  "LUNinfo_new p key =
     then_do (read_at p) (\<lambda>v.
     then_do (lift (asString v)) (\<lambda>lun.
       if lun = [] then lift (Inl (Throw (''empty LUN is specified'' @ [NL]))) else ret lun))"

definition LUNinfo :: "(string, string) info_ops" where
  "LUNinfo = \<lparr>io_new = LUNinfo_new, io_key = Inr, io_serialize = (\<lambda>lun. Inr (Value_string lun)),
     io_valid = (\<lambda>_. ret True)\<rparr>"

section \<open>Targets\<close>

record target_info =
  ti_name :: string
  ti_alias :: string
  ti_address :: "u8 list"

definition string_member :: "string \<Rightarrow> json \<Rightarrow> string result" where
  "string_member key v = bind (json_member key v) asString"

text \<open>The constructor from the tree leaves \<open>address\<close> uninitialised and ignores whether the address was
  understood.\<close>

definition TargetInfo_of :: "system \<Rightarrow> json \<Rightarrow> target_info result" where
  "TargetInfo_of sys v =
     bind (isMember ''TargetName'' v) (\<lambda>present.
       if \<not> present then Inl (Throw (''TargetName is not specified'' @ [NL]))
       else bind (string_member ''TargetName'' v) (\<lambda>name.
     bind (isMember ''TargetAlias'' v) (\<lambda>aliased.
     bind (if aliased then string_member ''TargetAlias'' v else Inr name) (\<lambda>alias.
     bind (isMember ''TargetAddress'' v) (\<lambda>addressed.
       if \<not> addressed then Inl (Throw (''TargetAddress is not specified'' @ [NL]))
       else bind (string_member ''TargetAddress'' v) (\<lambda>addr.
            Inr \<lparr>ti_name = name, ti_alias = alias, ti_address = snd (getSockAddr sys addr (sys_fresh sys))\<rparr>))))))"

definition set_members :: "(string \<times> json) list \<Rightarrow> json \<Rightarrow> json result" where
  "set_members kvs v = fold (\<lambda>(k, x) m. bind m (set_member k x)) kvs (Inr v)"

definition TargetInfo_serialize :: "system \<Rightarrow> target_info \<Rightarrow> json result" where
  "TargetInfo_serialize sys t =
     bind (set_members [(''TargetName'', Value_string (ti_name t)), (''TargetAlias'', Value_string (ti_alias t))]
       nullValue) (\<lambda>tmp.
     bind (try_bind (getAddrPortStr sys (ti_address t)) (\<lambda>_. Inr [])) (\<lambda>addr.
     set_member ''TargetAddress'' (Value_string addr) tmp))"

definition target_required :: "string list" where
  "target_required = [''TargetAlias'', ''TargetName'', ''TargetAddress'', '''']"

definition target_validators :: validators where
  "target_validators =
    [(''TargetAlias'', ForString (LengthValidator 1 PATH_MAX)),
     (''TargetName'', ForString (LengthValidator 1 PATH_MAX)),
     (''TargetAddress'', ForString AddrStrValidator)]"

definition TargetInfo :: "system \<Rightarrow> (target_info, string) info_ops" where
  "TargetInfo sys =
     \<lparr>io_new = (\<lambda>p key. then_do (read_at p) (\<lambda>v. lift (TargetInfo_of sys v))),
      io_key = (\<lambda>t. Inr (ti_name t)), io_serialize = TargetInfo_serialize sys,
      io_valid = (\<lambda>t. entry_valid sys target_required [''''] target_validators (TargetInfo_serialize sys t))\<rparr>"

definition TargetConfigurator :: "target_info tagged cmd" where
  "TargetConfigurator = TaggedConfigurator [] ''Target''"

definition TargetConfigurator_valid :: "system \<Rightarrow> target_info tagged \<Rightarrow> bool cmd" where
  "TargetConfigurator_valid sys t = tc_valid (TargetInfo sys) (numbered ''Target'') t"

section \<open>Initiators\<close>

record auth_info =
  au_method :: string
  au_state :: string
  au_name :: string
  au_password :: string

definition AuthInfoiSCSI :: "string \<Rightarrow> string \<Rightarrow> auth_info" where
  "AuthInfoiSCSI method state = \<lparr>au_method = method, au_state = state, au_name = [], au_password = []\<rparr>"

record initiator_info = target_info +
  ii_luns :: path
  ii_peers :: "auth_info list"
  ii_myowns :: "auth_info list"

fun has_substring :: "string \<Rightarrow> string \<Rightarrow> bool" where
  "has_substring s [] = (s = [])"
| "has_substring s (c # cs) = (take (length s) (c # cs) = s \<or> has_substring s cs)"

text \<open>One user name and password of the configuration, when both are there.\<close>

definition credentials :: "string \<Rightarrow> string \<Rightarrow> string \<Rightarrow> string \<Rightarrow> json \<Rightarrow> auth_info list result" where
  "credentials method state user password v =
     bind (isMember user v) (\<lambda>u. bind (isMember password v) (\<lambda>p.
       if has_substring ''CHAP'' method \<and> u \<and> p
       then bind (string_member user v) (\<lambda>name. bind (string_member password v) (\<lambda>pass.
            Inr [(AuthInfoiSCSI ''CHAP'' state)\<lparr>au_name := name, au_password := pass\<rparr>]))
       else Inr []))"

text \<open>The part of the constructor that is written twice, for the states Discovery and Session.\<close>

definition auth_infos :: "string \<Rightarrow> json \<Rightarrow> (auth_info list \<times> auth_info list) result" where
  "auth_infos state v =
     bind (isMember (state @ ''AuthMethod'') v) (\<lambda>present.
       if \<not> present then Inr ([], [])
       else bind (string_member (state @ ''AuthMethod'') v) (\<lambda>method.
            let none = (if has_substring ''None'' method then [AuthInfoiSCSI ''None'' state] else [])
            in bind (credentials method state (state @ ''InitiatorUsername'') (state @ ''InitiatorPassword'') v)
                 (\<lambda>peers. bind (credentials method state (state @ ''TargetUsername'') (state @ ''TargetPassword'') v)
                 (\<lambda>myowns. Inr (none @ peers, none @ myowns)))))"

definition InitiatorInfo_new :: "system \<Rightarrow> path \<Rightarrow> u64 \<Rightarrow> initiator_info cmd" where
  "InitiatorInfo_new sys p key =
     then_do (read_at p) (\<lambda>v.
     then_do (lift (isMember ''InitiatorName'' v)) (\<lambda>named.
       if \<not> named then lift (Inl (Throw (''InitiatorName is not specified'' @ [NL])))
       else then_do (lift (string_member ''InitiatorName'' v)) (\<lambda>name.
     then_do (lift (isMember ''InitiatorAlias'' v)) (\<lambda>aliased.
     then_do (lift (if aliased then string_member ''InitiatorAlias'' v else Inr name)) (\<lambda>alias.
     then_do (lift (isMember ''InitiatorAddress'' v)) (\<lambda>addressed.
     then_do (lift (if addressed then string_member ''InitiatorAddress'' v else Inr [])) (\<lambda>addr.
     then_do (touch_member ''LUN'' p) (\<lambda>_.
     then_do (lift (auth_infos ''Discovery'' v)) (\<lambda>(peers, myowns).
     then_do (lift (auth_infos ''Session'' v)) (\<lambda>(peers', myowns').
       ret \<lparr>ti_name = name, ti_alias = alias, ti_address = snd (getSockAddr sys addr (replicate 128 0)),
            ii_luns = p @ [Key ''LUN''], ii_peers = peers @ peers', ii_myowns = myowns @ myowns'\<rparr>))))))))))"

text \<open>\<^verbatim>\<open>serialize\<close> looks whether a method is there already and then appends to the value: \<^verbatim>\<open>Value::append\<close>,
  which is for arrays. \<open>overwrite\<close> is the assignment that follows in the second loop only.\<close>

definition serialize_auth :: "bool \<Rightarrow> string \<Rightarrow> auth_info \<Rightarrow> json \<Rightarrow> json result" where
  "serialize_auth overwrite who a tmp =
     (if au_state a \<noteq> ''Discovery'' \<and> au_state a \<noteq> ''Session'' then Inr tmp
      else let key = au_state a @ ''AuthMethod''
           in bind (object_of tmp) (\<lambda>m.
              bind (asString (object_slot key tmp)) (\<lambda>s.
              bind (if s \<noteq> []
                    then bind (json_append (Value_string (CHR ''|'' # au_method a)) (object_slot key tmp)) (\<lambda>x. set_member key x tmp)
                    else set_member key (Value_string (au_method a)) tmp) (\<lambda>tmp.
              set_members ((if overwrite then [(key, Value_string (au_method a))] else []) @
                [(au_state a @ who @ ''Username'', Value_string (au_name a)),
                 (au_state a @ who @ ''Password'', Value_string (au_password a))]) tmp))))"

definition InitiatorInfo_serialize :: "system \<Rightarrow> initiator_info \<Rightarrow> json result" where
  "InitiatorInfo_serialize sys i =
     bind (set_members [(''InitiatorName'', Value_string (ti_name i)), (''InitiatorAlias'', Value_string (ti_alias i))]
       nullValue) (\<lambda>tmp.
     bind (try_bind (bind (getAddrPortStr sys (ti_address i)) (\<lambda>a. set_member ''InitiatorAddress'' (Value_string a) tmp))
       (\<lambda>_. Inr tmp)) (\<lambda>tmp.
     bind (fold (\<lambda>a m. bind m (serialize_auth False ''Initiator'' a)) (ii_peers i) (Inr tmp)) (\<lambda>tmp.
     fold (\<lambda>a m. bind m (serialize_auth True ''Target'' a)) (ii_myowns i) (Inr tmp))))"

definition initiator_required :: "string list" where
  "initiator_required = [''InitiatorAlias'', ''InitiatorName'', '''']"

definition initiator_optional :: "string list" where
  "initiator_optional =
    [''InitiatorAddress'', ''LUN'', ''DiscoveryAuthMethod'', ''DiscoveryInitiatorUsername'',
     ''DiscoveryInitiatorPassword'', ''DiscoveryTargetUsername'', ''DiscoveryTargetPassword'',
     ''SessionAuthMethod'', ''SessionInitiatorUsername'', ''SessionInitiatorPassword'',
     ''SessionTargetUsername'', ''SessionTargetPassword'', '''']"

definition initiator_validators :: validators where
  "initiator_validators =
    [(''InitiatorAlias'', ForString (LengthValidator 1 PATH_MAX)),
     (''InitiatorName'', ForString (LengthValidator 1 PATH_MAX)),
     (''InitiatorAddress'', ForString AddrStrValidator),
     (''LUN'', ForString NullString),
     (''DiscoveryAuthMethod'', ForString NullString),
     (''DiscoveryInitiatorUsername'', ForString (LengthValidator 1 128)),
     (''DiscoveryInitiatorPassword'', ForString (LengthValidator 1 128)),
     (''DiscoveryTargetUsername'', ForString (LengthValidator 1 128)),
     (''DiscoveryTargetPassword'', ForString (LengthValidator 1 128)),
     (''SessionAuthMethod'', ForString NullString),
     (''SessionInitiatorUsername'', ForString (LengthValidator 1 128)),
     (''SessionInitiatorPassword'', ForString (LengthValidator 1 128)),
     (''SessionTargetUsername'', ForString (LengthValidator 1 128)),
     (''SessionTargetPassword'', ForString (LengthValidator 1 128))]"

definition InitiatorInfo_valid :: "system \<Rightarrow> initiator_info \<Rightarrow> bool cmd" where
  "InitiatorInfo_valid sys i =
     entry_valid sys initiator_required initiator_optional initiator_validators (InitiatorInfo_serialize sys i)"

definition InitiatorInfo :: "system \<Rightarrow> (initiator_info, string) info_ops" where
  "InitiatorInfo sys =
     \<lparr>io_new = InitiatorInfo_new sys, io_key = (\<lambda>i. Inr (ti_name i)), io_serialize = InitiatorInfo_serialize sys,
      io_valid = InitiatorInfo_valid sys\<rparr>"

definition validPeer :: "auth_info \<Rightarrow> initiator_info \<Rightarrow> bool" where
  "validPeer a i =
     (if has_substring ''None'' (au_method a)
      then \<exists>p \<in> set (ii_peers i). au_state a = au_state p \<and> au_method a = ''None''
      else if has_substring ''CHAP'' (au_method a)
      then \<exists>p \<in> set (ii_peers i). au_state a = au_state p \<and> au_method a = ''CHAP'' \<and>
             au_name a = au_name p \<and> au_password a = au_password p
      else False)"

definition getMyAuth :: "string \<Rightarrow> initiator_info \<Rightarrow> bool \<times> auth_info list" where
  "getMyAuth state i =
     (let infos = filter (\<lambda>a. au_state a = state) (ii_myowns i) in (infos \<noteq> [], infos))"

definition luns_of :: "initiator_info \<Rightarrow> string tagged" where
  "luns_of i = \<lparr>tc_path = ii_luns i, tc_index = 0, tc_prev = 0, tc_info = None\<rparr>"

definition addLUN :: "string \<Rightarrow> initiator_info \<Rightarrow> bool cmd" where
  "addLUN lun i = then_do (tc_add LUNinfo lun (luns_of i)) (\<lambda>(ok, _). ret ok)"

definition delLUN :: "string \<Rightarrow> initiator_info \<Rightarrow> bool cmd" where
  "delLUN lun i = then_do (tc_del LUNinfo lun (luns_of i)) (\<lambda>(ok, _). ret ok)"

definition InitiatorConfigurator :: "initiator_info tagged cmd" where
  "InitiatorConfigurator = TaggedConfigurator [] ''Initiator''"

definition InitiatorConfigurator_valid :: "system \<Rightarrow> initiator_info tagged \<Rightarrow> bool cmd" where
  "InitiatorConfigurator_valid sys t = tc_valid (InitiatorInfo sys) (numbered ''Initiator'') t"

end
