(* ===== verification/ConfigVolumes.thy ===== *)
theory ConfigVolumes
  imports ConfigInfos
begin

text \<open>
  Volumes of the configuration, \<^verbatim>\<open>volumeconfigurator\<close>: real volumes, arrays of them, and volumes with an
  original and replicas; and the check of the whole configuration, \<^verbatim>\<open>Configurator::validate\<close> with
  \<^verbatim>\<open>rootvalidator.cpp\<close>.
\<close>

section \<open>Real volumes\<close>

record real_volume =
  rv_host :: "u8 list"
  rv_path :: string
  rv_start :: u64
  rv_count :: u64

text \<open>\<^verbatim>\<open>setHost\<close>: the name of a configured target, or an address.\<close>

definition setHost :: "system \<Rightarrow> string \<Rightarrow> u8 list \<Rightarrow> (bool \<times> u8 list) cmd" where
  "setHost sys str host =
     then_do TargetConfigurator (\<lambda>targets.
     then_do (tc_find (TargetInfo sys) str targets) (\<lambda>(found, targets).
       if \<not> found then ret (getSockAddr sys str host)
       else then_do (tc_current (TargetInfo sys) targets) (\<lambda>(target, _).
            then_do (lift (getAddrPortStr sys (ti_address target))) (\<lambda>addr. ret (getSockAddr sys addr host)))))"

definition RealVolume_make :: "system \<Rightarrow> string \<Rightarrow> string \<Rightarrow> u64 \<Rightarrow> u64 \<Rightarrow> real_volume cmd" where
  "RealVolume_make sys host path offset sectors =
     then_do (setHost sys host (replicate 128 0)) (\<lambda>(_, addr).
     ret \<lparr>rv_host = addr, rv_path = path, rv_start = offset, rv_count = sectors\<rparr>)"

definition need :: "u64 \<Rightarrow> string \<Rightarrow> json \<Rightarrow> unit result" where
  "need key name v =
     bind (isMember name v) (\<lambda>present.
       if present then Inr ()
       else Inl (Throw (CHR ''['' # decimal (unat key) @ ''] : '' @ name @ '' is not specified'')))"

definition RealVolume_of :: "system \<Rightarrow> json \<Rightarrow> u64 \<Rightarrow> real_volume cmd" where
  "RealVolume_of sys v key =
     then_do (lift (need key ''Host'' v)) (\<lambda>_. then_do (lift (need key ''Path'' v)) (\<lambda>_.
     then_do (lift (need key ''Start'' v)) (\<lambda>_. then_do (lift (need key ''Count'' v)) (\<lambda>_.
     then_do (lift (string_member ''Host'' v)) (\<lambda>host.
     then_do (setHost sys host (replicate 128 0)) (\<lambda>(ok, addr).
       if \<not> ok
       then lift (Inl (Throw (CHR ''['' # decimal (unat key) @ ''] : Invalid Host : '' @ [QUOTE] @ host @ [QUOTE] @ '' specified'')))
       else then_do (lift (string_member ''Path'' v)) (\<lambda>path.
            then_do (lift (bind (json_member ''Start'' v) asUInt)) (\<lambda>start.
            then_do (lift (bind (json_member ''Count'' v) asUInt)) (\<lambda>count.
            ret \<lparr>rv_host = addr, rv_path = path, rv_start = start, rv_count = count\<rparr>)))))))))"

definition RealVolume_key :: "system \<Rightarrow> real_volume \<Rightarrow> string result" where
  "RealVolume_key sys r =
     bind (getAddrPortStr sys (rv_host r)) (\<lambda>host.
       Inr (host @ '':'' @ rv_path r @ '':'' @ decimal (unat (rv_start r)) @ '':'' @ decimal (unat (rv_count r))))"

definition RealVolume_serialize :: "system \<Rightarrow> real_volume \<Rightarrow> json result" where
  "RealVolume_serialize sys r =
     bind (getAddrPortStr sys (rv_host r)) (\<lambda>host.
       set_members [(''Host'', Value_string host), (''Path'', Value_string (rv_path r)),
         (''Start'', uintValue (rv_start r)), (''Count'', uintValue (rv_count r))] nullValue)"

definition real_required :: "string list" where
  "real_required = [''Host'', ''Path'', ''Start'', ''Count'', '''']"

definition real_validators :: validators where
  "real_validators =
    [(''Host'', ForString (LengthValidator 1 PATH_MAX)),
     (''Path'', ForString (LengthValidator 1 PATH_MAX)),
     (''Start'', ForNum (RangeValidator 0 (-1))),
     (''Count'', ForNum (RangeValidator 1 (-1)))]"

definition RealVolume_valid :: "system \<Rightarrow> real_volume \<Rightarrow> bool cmd" where
  "RealVolume_valid sys r = entry_valid sys real_required [''''] real_validators (RealVolume_serialize sys r)"

definition RealVolume :: "system \<Rightarrow> (real_volume, string) info_ops" where
  "RealVolume sys =
     \<lparr>io_new = (\<lambda>p key. then_do (read_at p) (\<lambda>v. RealVolume_of sys v key)), io_key = RealVolume_key sys,
      io_serialize = RealVolume_serialize sys, io_valid = RealVolume_valid sys\<rparr>"

section \<open>Arrays of real volumes\<close>

record real_array =
  ra_index :: u64
  ra_volumes :: "real_volume list"
  ra_total :: u64

definition RealVolumeArray_make :: "real_volume \<Rightarrow> u64 \<Rightarrow> real_array" where
  "RealVolumeArray_make r key = \<lparr>ra_index = key, ra_volumes = [r], ra_total = rv_count r\<rparr>"

definition ra_add :: "real_volume \<Rightarrow> real_array \<Rightarrow> real_array" where
  "ra_add r a = a\<lparr>ra_volumes := ra_volumes a @ [r], ra_total := ra_total a + rv_count r\<rparr>"

text \<open>The index that is refused is the one behind the size; the size itself is the position \<open>end()\<close>.\<close>

definition ra_del :: "nat \<Rightarrow> real_array \<Rightarrow> (bool \<times> real_array) result" where
  "ra_del i a =
     (if length (ra_volumes a) < i then Inr (False, a)
      else if i = length (ra_volumes a) then Inl Undefined
      else Inr (True, a\<lparr>ra_total := ra_total a - rv_count (ra_volumes a ! i),
                        ra_volumes := take i (ra_volumes a) @ drop (Suc i) (ra_volumes a)\<rparr>))"

fun read_volumes :: "system \<Rightarrow> u64 \<Rightarrow> json list \<Rightarrow> real_array \<Rightarrow> real_array cmd" where
  "read_volumes sys i [] a = ret a"
| "read_volumes sys i (v # vs) a = then_do (RealVolume_of sys v i) (\<lambda>r. read_volumes sys (i + 1) vs (ra_add r a))"

definition RealVolumeArray_new :: "system \<Rightarrow> path \<Rightarrow> u64 \<Rightarrow> real_array cmd" where
  "RealVolumeArray_new sys p key =
     then_do (read_at p) (\<lambda>v.
       if \<not> isArray v then lift (Inl (Throw ('' must be array format'' @ [NL])))
       else read_volumes sys 0 (elements_of v) \<lparr>ra_index = key, ra_volumes = [], ra_total = 0\<rparr>)"

definition RealVolumeArray_serialize :: "system \<Rightarrow> real_array \<Rightarrow> json result" where
  "RealVolumeArray_serialize sys a =
     fold (\<lambda>r m. bind m (\<lambda>tmp. bind (RealVolume_serialize sys r) (\<lambda>v. json_append v tmp))) (ra_volumes a) (Inr nullValue)"

fun all_valid :: "('a \<Rightarrow> bool cmd) \<Rightarrow> 'a list \<Rightarrow> bool cmd" where
  "all_valid valid [] = ret True"
| "all_valid valid (x # xs) = then_do (valid x) (\<lambda>ok. if ok then all_valid valid xs else ret False)"

definition RealVolumeArray_valid :: "system \<Rightarrow> real_array \<Rightarrow> bool cmd" where
  "RealVolumeArray_valid sys a =
     catch (all_valid (RealVolume_valid sys) (ra_volumes a))
       (\<lambda>what. lift (Inl (Throw (numbered ''Volume array'' (unat (ra_index a)) what @ [NL]))))"

definition RealVolumeArray :: "system \<Rightarrow> (real_array, u64) info_ops" where
  "RealVolumeArray sys =
     \<lparr>io_new = RealVolumeArray_new sys, io_key = (\<lambda>a. Inr (ra_index a)),
      io_serialize = RealVolumeArray_serialize sys, io_valid = RealVolumeArray_valid sys\<rparr>"

section \<open>Volumes\<close>

text \<open>\<open>vi_orgs\<close> and \<open>vi_reps\<close> are the tables behind the pointers, \<open>None\<close> the null pointer.\<close>

record volume_info =
  vi_name :: string
  vi_orgs :: "path option"
  vi_org_total :: u64
  vi_reps :: "path option"

definition table_at :: "path \<Rightarrow> 'info tagged" where
  "table_at p = \<lparr>tc_path = p, tc_index = 0, tc_prev = 0, tc_info = None\<rparr>"

text \<open>A table through a pointer that may be null.\<close>

definition through :: "path option \<Rightarrow> ('info tagged \<Rightarrow> 'a cmd) \<Rightarrow> 'a cmd" where
  "through p f = (case p of None \<Rightarrow> lift (Inl Undefined) | Some p \<Rightarrow> f (table_at p))"

text \<open>The sum of the sectors over the table of the original.\<close>

fun sum_sectors :: "system \<Rightarrow> nat \<Rightarrow> real_volume tagged \<Rightarrow> u64 \<Rightarrow> u64 cmd" where
  "sum_sectors sys 0 t acc = lift (Inl Undefined)"
| "sum_sectors sys (Suc n) t acc =
     then_do (tc_current (RealVolume sys) t) (\<lambda>(r, t).
     then_do (tc_next t) (\<lambda>(more, t).
       if more then sum_sectors sys n t (acc + rv_count r) else ret (acc + rv_count r)))"

definition org_sectors :: "system \<Rightarrow> real_volume tagged \<Rightarrow> u64 cmd" where
  "org_sectors sys t =
     then_do (tc_begin (RealVolume sys) t) (\<lambda>(some, t).
       if some then then_do (impl_size (tc_path t)) (\<lambda>n. sum_sectors sys (unat n) t 0) else ret 0)"

definition VolumeInfo_new :: "system \<Rightarrow> path \<Rightarrow> u64 \<Rightarrow> volume_info cmd" where
  "VolumeInfo_new sys p key =
     then_do (read_at p) (\<lambda>v.
     then_do (lift (isMember ''VolumeName'' v)) (\<lambda>named.
       if \<not> named then lift (Inl (Throw (''VolumeName is not specified'' @ [NL])))
       else then_do (lift (string_member ''VolumeName'' v)) (\<lambda>name.
     then_do (lift (isMember ''Main'' v)) (\<lambda>main.
       if \<not> main then lift (Inl (Throw (''Main is not specified'' @ [NL])))
       else then_do (TaggedConfigurator p ''Main'') (\<lambda>orgs.
     then_do (org_sectors sys orgs) (\<lambda>total.
     then_do (read_at p) (\<lambda>v.
     then_do (lift (isMember ''Copy'' v)) (\<lambda>copied.
     then_do (if copied then ret () else update_at (p @ [Key ''Copy'']) (json_resize 0)) (\<lambda>_.
     then_do (TaggedConfigurator p ''Copy'') (\<lambda>reps :: real_array tagged.
       ret \<lparr>vi_name = name, vi_orgs = Some (tc_path orgs), vi_org_total = total, vi_reps = Some (tc_path reps)\<rparr>))))))))))"

definition VolumeInfo_serialize :: "volume_info \<Rightarrow> json result" where
  "VolumeInfo_serialize i = set_member ''VolumeName'' (Value_string (vi_name i)) nullValue"

definition volume_required :: "string list" where
  "volume_required = [''VolumeName'', '''']"

definition volume_validators :: validators where
  "volume_validators = [(''VolumeName'', ForString (LengthValidator 1 PATH_MAX))]"

text \<open>A loop over a table that looks at every entry and remembers whether one was not valid.\<close>

fun any_invalid_loop :: "('info, 'key) info_ops \<Rightarrow> nat \<Rightarrow> 'info tagged \<Rightarrow> bool \<Rightarrow> bool cmd" where
  "any_invalid_loop ops 0 t bad = lift (Inl Undefined)"
| "any_invalid_loop ops (Suc n) t bad =
     then_do (tc_current ops t) (\<lambda>(info, t).
     then_do (io_valid ops info) (\<lambda>ok.
     then_do (tc_next t) (\<lambda>(more, t).
       if more then any_invalid_loop ops n t (bad \<or> \<not> ok) else ret (bad \<or> \<not> ok))))"

definition any_invalid :: "('info, 'key) info_ops \<Rightarrow> path \<Rightarrow> bool cmd" where
  "any_invalid ops p =
     then_do (tc_begin ops (table_at p)) (\<lambda>(some, t).
       if some then then_do (impl_size p) (\<lambda>n. any_invalid_loop ops (unat n) t False) else ret False)"

definition VolumeInfo_valid :: "system \<Rightarrow> volume_info \<Rightarrow> bool cmd" where
  "VolumeInfo_valid sys i =
     catch (then_do (entry_valid sys volume_required [''''] volume_validators (VolumeInfo_serialize i)) (\<lambda>good.
       case vi_orgs i of
         None \<Rightarrow> ret good
       | Some orgs \<Rightarrow>
           then_do (any_invalid (RealVolume sys) orgs) (\<lambda>bad.
             case vi_reps i of
               None \<Rightarrow> ret (good \<and> \<not> bad)
             | Some reps \<Rightarrow> then_do (any_invalid (RealVolumeArray sys) reps) (\<lambda>bad'. ret (good \<and> \<not> bad \<and> \<not> bad')))))
       (\<lambda>what. lift (Inl (Throw (''Illegal Volume '' @ [QUOTE] @ vi_name i @ [QUOTE] @ '' : '' @ what @ [NL]))))"

definition VolumeInfo :: "system \<Rightarrow> (volume_info, string) info_ops" where
  "VolumeInfo sys =
     \<lparr>io_new = VolumeInfo_new sys, io_key = (\<lambda>i. Inr (vi_name i)), io_serialize = VolumeInfo_serialize,
      io_valid = VolumeInfo_valid sys\<rparr>"

definition VolumeConfigurator :: "volume_info tagged cmd" where
  "VolumeConfigurator = TaggedConfigurator [] ''Volume''"

definition VolumeConfigurator_valid :: "system \<Rightarrow> volume_info tagged \<Rightarrow> bool cmd" where
  "VolumeConfigurator_valid sys t = tc_valid (VolumeInfo sys) (numbered ''Volume'') t"

text \<open>The constructor from a name makes a new volume; for a name that is taken the pointers stay null.\<close>

definition VolumeInfo_make :: "system \<Rightarrow> string \<Rightarrow> volume_info cmd" where
  "VolumeInfo_make sys name =
     then_do VolumeConfigurator (\<lambda>volumes.
     then_do (tc_find (VolumeInfo sys) name volumes) (\<lambda>(found, _).
       if found then ret \<lparr>vi_name = name, vi_orgs = None, vi_org_total = 0, vi_reps = None\<rparr>
       else then_do (lift (set_members [(''VolumeName'', Value_string name), (''Main'', arrayValue []),
              (''Copy'', arrayValue [])] nullValue)) (\<lambda>tmp.
     then_do (update_at [Key ''Volume''] (json_append tmp)) (\<lambda>_.
     then_do (read_at [Key ''Volume'']) (\<lambda>v.
       let p = [Key ''Volume'', Index (json_size v - 1)]
       in then_do (TaggedConfigurator p ''Main'') (\<lambda>orgs :: real_volume tagged.
          then_do (TaggedConfigurator p ''Copy'') (\<lambda>reps :: real_array tagged.
          ret \<lparr>vi_name = name, vi_orgs = Some (tc_path orgs), vi_org_total = 0,
               vi_reps = Some (tc_path reps)\<rparr>)))))))"

subsection \<open>Editing a volume\<close>

definition appendOrgPart :: "system \<Rightarrow> real_volume \<Rightarrow> volume_info \<Rightarrow> (bool \<times> volume_info) cmd" where
  "appendOrgPart sys r i =
     (let i' = i\<lparr>vi_org_total := vi_org_total i + rv_count r\<rparr>
      in through (vi_orgs i) (\<lambda>t. then_do (tc_add (RealVolume sys) r t) (\<lambda>(ok, _). ret (ok, i'))))"

definition createRep :: "system \<Rightarrow> real_volume \<Rightarrow> volume_info \<Rightarrow> (bool \<times> u64) cmd" where
  "createRep sys r i =
     through (vi_reps i) (\<lambda>t.
       then_do (impl_size (tc_path t)) (\<lambda>index.
       then_do (tc_add (RealVolumeArray sys) (RealVolumeArray_make r index) t) (\<lambda>(ok, _). ret (ok, index))))"

definition appendRepPart :: "system \<Rightarrow> u64 \<Rightarrow> real_volume \<Rightarrow> volume_info \<Rightarrow> bool cmd" where
  "appendRepPart sys index r i =
     through (vi_reps i) (\<lambda>t.
       then_do (tc_find (RealVolumeArray sys) index t) (\<lambda>(found, t).
         if \<not> found then ret False
         else then_do (tc_current (RealVolumeArray sys) t) (\<lambda>(a, t).
              then_do (tc_update (RealVolumeArray sys) (ra_add r a) t) (\<lambda>_. ret True))))"

definition removeRep :: "system \<Rightarrow> u64 \<Rightarrow> volume_info \<Rightarrow> bool cmd" where
  "removeRep sys index i =
     through (vi_reps i) (\<lambda>t. then_do (tc_del (RealVolumeArray sys) index t) (\<lambda>_. ret True))"

definition partsOrg :: "volume_info \<Rightarrow> u64 cmd" where
  "partsOrg i = through (vi_orgs i) (\<lambda>t :: real_volume tagged. impl_size (tc_path t))"

definition volumesRep :: "volume_info \<Rightarrow> u64 cmd" where
  "volumesRep i = through (vi_reps i) (\<lambda>t :: real_array tagged. impl_size (tc_path t))"

text \<open>\<^verbatim>\<open>partsRep\<close> and \<^verbatim>\<open>sectorSizeRep\<close> read one number of a replica, 0 when it is not there.\<close>

definition of_replica :: "(real_array \<Rightarrow> u64) \<Rightarrow> system \<Rightarrow> u64 \<Rightarrow> volume_info \<Rightarrow> u64 cmd" where
  "of_replica number sys index i =
     through (vi_reps i) (\<lambda>t.
       then_do (tc_find (RealVolumeArray sys) index t) (\<lambda>(found, t).
         if \<not> found then ret 0
         else then_do (tc_current (RealVolumeArray sys) t) (\<lambda>(a, _). ret (number a))))"

definition partsRep :: "system \<Rightarrow> u64 \<Rightarrow> volume_info \<Rightarrow> u64 cmd" where
  "partsRep = of_replica (\<lambda>a. of_nat (length (ra_volumes a)))"

definition sectorSizeRep :: "system \<Rightarrow> u64 \<Rightarrow> volume_info \<Rightarrow> u64 cmd" where
  "sectorSizeRep = of_replica ra_total"

section \<open>The whole configuration\<close>

text \<open>The tables of the root; each check makes its configurator anew.\<close>

definition root_section :: "system \<Rightarrow> string \<Rightarrow> bool cmd option" where
  "root_section sys name =
     (if name = ''TargetPort'' then Some (then_do (TargetPortConfigurator sys) (TargetPortConfigurator_valid sys))
      else if name = ''Target'' then Some (then_do TargetConfigurator (TargetConfigurator_valid sys))
      else if name = ''Initiator'' then Some (then_do InitiatorConfigurator (InitiatorConfigurator_valid sys))
      else if name = ''Volume'' then Some (then_do VolumeConfigurator (VolumeConfigurator_valid sys))
      else None)"

definition validate :: "system \<Rightarrow> bool cmd" where
  "validate sys =
     then_do (\<lambda>cf. (attrsSatisfied root_required root_optional (cf_root cf), cf)) (\<lambda>ok.
       if \<not> ok then ret False else validAttrs sys (root_section sys) root_validators cf_root)"

text \<open>\<^verbatim>\<open>readConfig\<close> of \<^verbatim>\<open>src/main.cpp\<close>: the file named by the configuration is read and what it made checked.
  \<open>None\<close> when reading the file does not end.\<close>

definition readConfig :: "system \<Rightarrow> config \<Rightarrow> (bool result \<times> config) option" where
  "readConfig sys cf =
     (case config_getAttr_string ''ConfigFile'' cf of
        Inl (Throw _) \<Rightarrow> Some (Inr False, cf)
      | Inl e \<Rightarrow> Some (Inl e, cf)
      | Inr None \<Rightarrow> Some (Inr False, cf)
      | Inr (Some file) \<Rightarrow>
          (case ConfigBinder_append sys file [] cf of
             None \<Rightarrow> None
           | Some (Inl (Throw _), _, cf') \<Rightarrow> Some (Inr False, cf')
           | Some (Inl e, _, cf') \<Rightarrow> Some (Inl e, cf')
           | Some (Inr _, _, cf') \<Rightarrow> Some (catch (validate sys) (\<lambda>_. ret False) cf')))"

end
