(* ===== verification/Config_Frame.thy ===== *)
theory Config_Frame
  imports ConfigVolumes
begin

text \<open>
  What a check of the configuration leaves alone. The tables of the configuration create members while they
  are looked at, but only below the four members of the root that hold tables; the other attributes, and so
  what the getters return, stay. The contract of the entries of a table is the locale \<open>framed_entry\<close>.
\<close>

section \<open>Attributes outside the tables\<close>

definition sections :: "string set" where
  "sections = {''TargetPort'', ''Target'', ''Initiator'', ''Volume''}"

fun in_section :: "path \<Rightarrow> bool" where
  "in_section (Key k # _) \<longleftrightarrow> k \<in> sections"
| "in_section _ \<longleftrightarrow> False"

definition root_members :: "config \<Rightarrow> (string \<times> json) list" where
  "root_members cf = (case cf_root cf of objectValue m \<Rightarrow> m | _ \<Rightarrow> [])"

definition same_scalars :: "config \<Rightarrow> config \<Rightarrow> bool" where
  "same_scalars cf cf' \<longleftrightarrow> cf_defaults cf' = cf_defaults cf \<and>
     (\<forall>name. name \<notin> sections \<longrightarrow> map_of (root_members cf') name = map_of (root_members cf) name) \<and>
     ((\<exists>m. cf_root cf = objectValue m) \<longrightarrow> (\<exists>m. cf_root cf' = objectValue m))"

lemma same_scalars_refl [simp]: "same_scalars cf cf"
  by (simp add: same_scalars_def)

lemma same_scalars_trans: "same_scalars cf cf1 \<Longrightarrow> same_scalars cf1 cf2 \<Longrightarrow> same_scalars cf cf2"
  by (simp add: same_scalars_def)

lemma in_section_append [simp]: "in_section p \<Longrightarrow> in_section (p @ q)"
  by (cases p rule: in_section.cases) auto

lemma c_str_section [simp]: "k \<in> sections \<Longrightarrow> c_str k = k"
  by (auto simp: sections_def c_str_def)

section \<open>Framed commands\<close>

text \<open>\<open>frames P m\<close>: whatever \<open>m\<close> ends with, the attributes are those of before, and a result satisfies \<open>P\<close>.\<close>

definition frames :: "('a \<Rightarrow> bool) \<Rightarrow> 'a cmd \<Rightarrow> bool" where
  "frames P m \<longleftrightarrow> (\<forall>cf r cf'. m cf = (r, cf') \<longrightarrow> same_scalars cf cf' \<and> (\<forall>a. r = Inr a \<longrightarrow> P a))"

named_theorems frame

lemma framesD: "frames P m \<Longrightarrow> m cf = (r, cf') \<Longrightarrow> same_scalars cf cf' \<and> (\<forall>a. r = Inr a \<longrightarrow> P a)"
  by (simp add: frames_def)

lemma frames_weaken: "frames P m \<Longrightarrow> (\<And>a. P a \<Longrightarrow> Q a) \<Longrightarrow> frames Q m"
  by (auto simp: frames_def)

lemma frames_ret [frame]: "P a \<Longrightarrow> frames P (ret a)"
  by (simp add: frames_def ret_def)

lemma frames_lift [frame]: "(\<And>a. m = Inr a \<Longrightarrow> P a) \<Longrightarrow> frames P (lift m)"
  by (simp add: frames_def lift_def)

lemma frames_read [frame]: "(\<And>v. P v) \<Longrightarrow> frames P (read_at p)"
  by (simp add: frames_def read_at_def)

lemma frames_then_do:
  assumes "frames P m" and "\<And>a. P a \<Longrightarrow> frames Q (f a)"
  shows "frames Q (then_do m f)"
  unfolding frames_def
proof (intro allI impI)
  fix cf r cf'
  assume run: "then_do m f cf = (r, cf')"
  obtain r1 cf1 where m: "m cf = (r1, cf1)"
    by fastforce
  note step = framesD[OF assms(1) m]
  show "same_scalars cf cf' \<and> (\<forall>a. r = Inr a \<longrightarrow> Q a)"
  proof (cases r1)
    case (Inl e)
    then show ?thesis
      using run m step by (auto simp: then_do_def)
  next
    case (Inr a)
    then have "same_scalars cf1 cf' \<and> (\<forall>a. r = Inr a \<longrightarrow> Q a)"
      using run m step framesD[OF assms(2)] by (auto simp: then_do_def)
    then show ?thesis
      using step same_scalars_trans by blast
  qed
qed

lemma frames_catch [frame]:
  assumes "frames P m" and "\<And>what. frames P (h what)"
  shows "frames P (catch m h)"
  unfolding frames_def
proof (intro allI impI)
  fix cf r cf'
  assume run: "catch m h cf = (r, cf')"
  obtain r1 cf1 where m: "m cf = (r1, cf1)"
    by fastforce
  note step = framesD[OF assms(1) m]
  show "same_scalars cf cf' \<and> (\<forall>a. r = Inr a \<longrightarrow> P a)"
  proof (cases "\<exists>what. r1 = Inl (Throw what)")
    case True
    then have "same_scalars cf1 cf' \<and> (\<forall>a. r = Inr a \<longrightarrow> P a)"
      using run m framesD[OF assms(2)] by (auto simp: catch_def)
    then show ?thesis
      using step same_scalars_trans by blast
  next
    case False
    then have "r = r1 \<and> cf' = cf1"
      using run m by (auto simp: catch_def split: sum.splits fault.splits)
    then show ?thesis
      using step by simp
  qed
qed

lemma frames_if [frame]:
  "(b \<Longrightarrow> frames P m1) \<Longrightarrow> (\<not> b \<Longrightarrow> frames P m2) \<Longrightarrow> frames P (if b then m1 else m2)"
  by simp

lemma frames_update:
  assumes "in_section p"
  shows "frames (\<lambda>_. True) (update_at p f)"
proof -
  obtain k q where p: "p = Key k # q" "k \<in> sections"
    using assms by (cases p rule: in_section.cases) auto
  then show ?thesis
    by (auto simp: frames_def update_at_def same_scalars_def root_members_def set_member_def object_of_def bind_Inr
        split: sum.splits json.splits)
qed

lemma frames_touch [frame]:
  assumes "in_section p \<or> p = [] \<and> key \<in> sections"
  shows "frames (\<lambda>_. True) (touch_member key p)"
proof (cases "in_section p")
  case True
  then show ?thesis
    by (simp add: touch_member_def frames_update)
next
  case False
  then show ?thesis
    using assms
    by (auto simp: frames_def touch_member_def update_at_def same_scalars_def root_members_def set_member_def
        object_of_def bind_Inr split: sum.splits json.splits)
qed

section \<open>Tables\<close>

text \<open>An entry whose constructor and check are framed; \<open>I\<close> is what the constructor promises of the entry.\<close>

locale framed_entry =
  fixes ops :: "('info, 'key) info_ops" and I :: "'info \<Rightarrow> bool"
  assumes new: "in_section p \<Longrightarrow> frames I (io_new ops p key)"
    and valid: "I info \<Longrightarrow> frames (\<lambda>_. True) (io_valid ops info)"
begin

definition tag_ok :: "'info tagged \<Rightarrow> bool" where
  "tag_ok t \<longleftrightarrow> in_section (tc_path t) \<and> pred_option I (tc_info t)"

lemma frames_impl_get: "in_section p \<Longrightarrow> frames I (impl_get ops p key)"
  unfolding impl_get_def touch_at_def
  by (intro frames_then_do[OF frames_read[of "\<lambda>_. True"]] frames_if frames_lift
      frames_then_do[OF frames_update] new) auto

lemma frames_size: "frames (\<lambda>_. True) (impl_size p)"
  unfolding impl_size_def by (intro frames_then_do[OF frames_read[of "\<lambda>_. True"]] frames_ret) auto

lemma frames_begin: "tag_ok t \<Longrightarrow> frames (\<lambda>(_, t'). tag_ok t') (tc_begin ops t)"
  unfolding tc_begin_def
  by (intro frames_then_do[OF frames_size] frames_if frames_ret frames_then_do[OF frames_impl_get])
    (auto simp: tag_ok_def)

lemma frames_next: "tag_ok t \<Longrightarrow> frames (\<lambda>(_, t'). tag_ok t') (tc_next t)"
  unfolding tc_next_def Let_def by (intro frames_then_do[OF frames_size] frames_ret) (auto simp: tag_ok_def)

lemma frames_current: "tag_ok t \<Longrightarrow> frames (\<lambda>(info, t'). I info \<and> tag_ok t') (tc_current ops t)"
  unfolding tc_current_def
  by (intro frames_if frames_then_do[OF frames_impl_get] frames_ret frames_lift)
    (auto simp: tag_ok_def split: option.splits)

lemma frames_loop:
  assumes "\<And>i info. I info \<Longrightarrow> frames (\<lambda>_. True) (body i info)"
  shows "tag_ok t \<Longrightarrow> frames (\<lambda>(_, t'). tag_ok t') (tc_loop ops body n t)"
proof (induction n arbitrary: t)
  case 0
  then show ?case
    by (auto intro: frames_lift)
next
  case (Suc n)
  show ?case
    unfolding tc_loop.simps
  proof (rule frames_then_do[OF frames_current[OF Suc.prems]], clarify)
    fix info t1
    assume t1: "I info" "tag_ok t1"
    show "frames (\<lambda>(_, t'). tag_ok t') (then_do (body (tc_index t1) info) (\<lambda>res.
        case res of Some a \<Rightarrow> ret (Some a, t1)
        | None \<Rightarrow> then_do (tc_next t1) (\<lambda>(more, t). if more then tc_loop ops body n t else ret (None, t))))"
    proof (rule frames_then_do[OF assms[OF t1(1)]])
      fix res
      show "frames (\<lambda>(_, t'). tag_ok t') (case res of Some a \<Rightarrow> ret (Some a, t1)
        | None \<Rightarrow> then_do (tc_next t1) (\<lambda>(more, t). if more then tc_loop ops body n t else ret (None, t)))"
        using t1(2) by (cases res)
          (auto intro!: frames_ret frames_then_do[OF frames_next[OF t1(2)]] intro: Suc.IH)
    qed
  qed
qed

lemma frames_for:
  assumes "\<And>i info. I info \<Longrightarrow> frames (\<lambda>_. True) (body i info)" and "tag_ok t"
  shows "frames (\<lambda>(_, t'). tag_ok t') (tc_for ops body t)"
  unfolding tc_for_def
  by (rule frames_then_do[OF frames_begin[OF assms(2)]])
    (auto intro!: frames_then_do[OF frames_size] frames_loop assms(1) frames_ret)

lemma frames_find: "tag_ok t \<Longrightarrow> frames (\<lambda>(_, t'). tag_ok t') (tc_find ops key t)"
  unfolding tc_find_def
  by (rule frames_then_do[OF frames_for])
    (auto intro!: frames_ret frames_then_do[OF frames_lift[of _ "\<lambda>_. True"]])

lemma frames_add: "I info \<Longrightarrow> tag_ok t \<Longrightarrow> frames (\<lambda>(_, t'). tag_ok t') (tc_add ops info t)"
  unfolding tc_add_def impl_add_def
  by (rule frames_then_do[OF frames_lift[of _ "\<lambda>_. True"]], simp,
      rule frames_then_do[OF frames_find])
    (auto simp: tag_ok_def intro!: frames_ret frames_then_do[OF frames_then_do[OF valid]] frames_if
      frames_then_do[OF frames_lift[of _ "\<lambda>_. True"]] frames_then_do[OF frames_update])

lemma frames_empty: "frames (\<lambda>_. True) (tc_empty t)"
  unfolding tc_empty_def by (intro frames_then_do[OF frames_size] frames_ret) simp

lemma frames_tc_valid: "tag_ok t \<Longrightarrow> frames (\<lambda>_. True) (tc_valid ops wrap t)"
  unfolding tc_valid_def
  by (rule frames_then_do[OF frames_empty])
    (auto intro!: frames_ret frames_lift valid frames_then_do[OF frames_for]
      frames_then_do[OF frames_catch[of "\<lambda>_. True"]])

lemma frames_tagged:
  assumes "in_section p \<or> p = [] \<and> tag \<in> sections"
  shows "frames tag_ok (TaggedConfigurator p tag)"
  unfolding TaggedConfigurator_def using assms
  by (intro frames_then_do[OF frames_touch] frames_ret) (auto simp: tag_ok_def)

lemma frames_any_invalid_loop: "tag_ok t \<Longrightarrow> frames (\<lambda>_. True) (any_invalid_loop ops n t bad)"
proof (induction n arbitrary: t bad)
  case 0
  then show ?case
    by (auto intro: frames_lift)
next
  case (Suc n)
  show ?case
    unfolding any_invalid_loop.simps
    by (rule frames_then_do[OF frames_current[OF Suc.prems]])
      (auto intro!: frames_then_do[OF valid] frames_then_do[OF frames_next] frames_ret Suc.IH)
qed

lemma frames_any_invalid: "in_section p \<Longrightarrow> frames (\<lambda>_. True) (any_invalid ops p)"
  unfolding any_invalid_def
  by (rule frames_then_do[OF frames_begin])
    (auto simp: tag_ok_def table_at_def intro!: frames_then_do[OF frames_size] frames_any_invalid_loop frames_ret)

end

section \<open>The entries\<close>

lemma frames_check_member:
  assumes "\<And>name check. sect name = Some check \<Longrightarrow> frames (\<lambda>_. True) check"
  shows "frames (\<lambda>_. True) (check_member sys sect vs tree name)"
  using assms by (cases "sect name") (auto simp: check_member_def frames_def)

lemma frames_check_members:
  assumes "\<And>name check. sect name = Some check \<Longrightarrow> frames (\<lambda>_. True) check"
  shows "frames (\<lambda>_. True) (check_members sys sect vs tree names acc)"
proof (induction names arbitrary: acc)
  case Nil
  then show ?case
    by (auto intro: frames_ret)
next
  case (Cons name names)
  then show ?case
    using frames_check_member[OF assms]
    by (cases acc) (auto intro!: frames_then_do[OF frames_catch[of "\<lambda>_. True"]] frames_ret
        frames_then_do[of "\<lambda>_. True" "check_member sys sect vs tree name"])
qed

lemma frames_names: "frames (\<lambda>_. True) (\<lambda>cf. (getMemberNames (tree cf), cf))"
  by (simp add: frames_def)

lemma frames_validAttrs:
  assumes "\<And>name check. sect name = Some check \<Longrightarrow> frames (\<lambda>_. True) check"
  shows "frames (\<lambda>_. True) (validAttrs sys sect vs tree)"
  unfolding validAttrs_def
  by (rule frames_then_do[OF frames_names], rule frames_then_do[OF frames_check_members[OF assms]])
    (auto intro: frames_ret frames_lift)

lemma frames_entry_valid: "frames (\<lambda>_. True) (entry_valid sys required optional vs serialized)"
  unfolding entry_valid_def
  by (intro frames_then_do[OF frames_lift[of _ "\<lambda>_. True"]] frames_if frames_ret frames_validAttrs) auto

interpretation target_port: framed_entry "TargetPortInfo sys" "\<lambda>_. True"
  by unfold_locales
    (auto simp: TargetPortInfo_def TargetPortInfo_new_def
      intro!: frames_ret frames_lift frames_then_do[OF frames_read[of "\<lambda>_. True"]])

interpretation lun: framed_entry LUNinfo "\<lambda>_. True"
  by unfold_locales
    (auto simp: LUNinfo_def LUNinfo_new_def
      intro!: frames_ret frames_lift frames_then_do[OF frames_read[of "\<lambda>_. True"]]
        frames_then_do[OF frames_lift[of _ "\<lambda>_. True"]])

interpretation target: framed_entry "TargetInfo sys" "\<lambda>_. True"
  by unfold_locales
    (auto simp: TargetInfo_def
      intro!: frames_entry_valid frames_lift frames_then_do[OF frames_read[of "\<lambda>_. True"]])

lemma frames_lift_do: "(\<And>a. m = Inr a \<Longrightarrow> frames Q (f a)) \<Longrightarrow> frames Q (then_do (lift m) f)"
  by (rule frames_then_do[OF frames_lift[of m "\<lambda>a. m = Inr a"]]) auto

lemma frames_read_do: "(\<And>v. frames Q (f v)) \<Longrightarrow> frames Q (then_do (read_at p) f)"
  by (rule frames_then_do[OF frames_read[of "\<lambda>_. True"]]) auto

interpretation initiator: framed_entry "InitiatorInfo sys" "\<lambda>i. in_section (ii_luns i)"
  by unfold_locales
    (auto simp: InitiatorInfo_def InitiatorInfo_new_def InitiatorInfo_valid_def
      intro!: frames_entry_valid frames_read_do frames_lift_do frames_lift frames_ret frames_then_do[OF frames_touch])

lemma frames_setHost: "frames (\<lambda>_. True) (setHost sys str host)"
  unfolding setHost_def TargetConfigurator_def
  by (rule frames_then_do[OF target.frames_tagged], simp add: sections_def,
      rule frames_then_do[OF target.frames_find[of _ sys]])
    (auto intro!: frames_ret frames_then_do[OF target.frames_current] frames_lift_do)

lemma frames_RealVolume_of: "frames (\<lambda>_. True) (RealVolume_of sys v key)"
  unfolding RealVolume_of_def
  by (intro frames_lift_do frames_then_do[OF frames_setHost]) (auto intro!: frames_lift frames_lift_do frames_ret)

interpretation real_vol: framed_entry "RealVolume sys" "\<lambda>_. True"
  by unfold_locales
    (auto simp: RealVolume_def RealVolume_valid_def intro!: frames_entry_valid frames_read_do frames_RealVolume_of)

lemma frames_read_volumes: "frames (\<lambda>_. True) (read_volumes sys i vs a)"
  by (induction vs arbitrary: i a) (auto intro!: frames_ret frames_then_do[OF frames_RealVolume_of])

lemma frames_all_valid: "(\<And>x. frames (\<lambda>_. True) (valid x)) \<Longrightarrow> frames (\<lambda>_. True) (all_valid valid xs)"
  by (induction xs) (auto intro!: frames_ret frames_then_do[of "\<lambda>_. True"])

interpretation real_arr: framed_entry "RealVolumeArray sys" "\<lambda>_. True"
  by unfold_locales
    (auto simp: RealVolumeArray_def RealVolumeArray_new_def RealVolumeArray_valid_def RealVolume_valid_def
      intro!: frames_read_do frames_lift frames_read_volumes frames_catch frames_all_valid frames_entry_valid)

lemma frames_sum_sectors: "real_vol.tag_ok t \<Longrightarrow> frames (\<lambda>_. True) (sum_sectors sys n t acc)"
proof (induction n arbitrary: t acc)
  case 0
  then show ?case
    by (auto intro: frames_lift)
next
  case (Suc n)
  show ?case
    unfolding sum_sectors.simps
    by (rule frames_then_do[OF real_vol.frames_current[OF Suc.prems]])
      (auto intro!: frames_then_do[OF real_vol.frames_next] frames_ret Suc.IH)
qed

lemma frames_org_sectors: "real_vol.tag_ok t \<Longrightarrow> frames (\<lambda>_. True) (org_sectors sys t)"
  unfolding org_sectors_def
  by (rule frames_then_do[OF real_vol.frames_begin[of t sys]])
    (auto intro!: frames_then_do[OF real_vol.frames_size] frames_sum_sectors frames_ret)

definition tables_ok :: "volume_info \<Rightarrow> bool" where
  "tables_ok i \<longleftrightarrow> pred_option in_section (vi_orgs i) \<and> pred_option in_section (vi_reps i)"

lemma frames_VolumeInfo_new:
  assumes p: "in_section p"
  shows "frames tables_ok (VolumeInfo_new sys p key)"
proof -
  have main: "frames real_vol.tag_ok (TaggedConfigurator p ''Main'')"
    and copy: "frames real_arr.tag_ok (TaggedConfigurator p ''Copy'')"
    using p by (auto intro: real_vol.frames_tagged real_arr.frames_tagged)
  have path: "in_section (tc_path t)" if "real_vol.tag_ok t" for t
    using that by (simp add: real_vol.tag_ok_def)
  have path': "in_section (tc_path t)" if "real_arr.tag_ok t" for t
    using that by (simp add: real_arr.tag_ok_def)
  have copy_array: "frames (\<lambda>_. True) (if copied then ret () else update_at (p @ [Key ''Copy'']) (json_resize 0))" for copied
    using p by (auto intro!: frames_ret frames_update)
  have tail: "frames tables_ok (then_do (TaggedConfigurator p ''Copy'') (\<lambda>reps :: real_array tagged.
      ret \<lparr>vi_name = name, vi_orgs = Some (tc_path orgs), vi_org_total = sectors, vi_reps = Some (tc_path reps)\<rparr>))"
    if "real_vol.tag_ok orgs" for name orgs sectors
    by (rule frames_then_do[OF copy]) (auto intro!: frames_ret simp: tables_ok_def path path' that)
  show ?thesis
    unfolding VolumeInfo_new_def
    by (intro frames_read_do frames_lift_do frames_if frames_lift frames_then_do[OF main]
        frames_then_do[OF frames_org_sectors] frames_then_do[OF copy_array] tail) auto
qed

lemma frames_VolumeInfo_valid:
  assumes "tables_ok i"
  shows "frames (\<lambda>_. True) (VolumeInfo_valid sys i)"
  unfolding VolumeInfo_valid_def
proof (intro frames_catch frames_then_do[OF frames_entry_valid] frames_lift TrueI)
  fix good
  show "frames (\<lambda>_. True) (case vi_orgs i of None \<Rightarrow> ret good
     | Some orgs \<Rightarrow> then_do (any_invalid (RealVolume sys) orgs) (\<lambda>bad. case vi_reps i of
           None \<Rightarrow> ret (good \<and> \<not> bad)
         | Some reps \<Rightarrow> then_do (any_invalid (RealVolumeArray sys) reps) (\<lambda>bad'. ret (good \<and> \<not> bad \<and> \<not> bad'))))"
    using assms
    by (auto simp: tables_ok_def split: option.splits
        intro!: frames_ret frames_then_do[OF real_vol.frames_any_invalid] frames_then_do[OF real_arr.frames_any_invalid])
qed

interpretation volume: framed_entry "VolumeInfo sys" tables_ok
  by unfold_locales (simp_all add: VolumeInfo_def frames_VolumeInfo_new frames_VolumeInfo_valid)

section \<open>The whole check\<close>

lemma root_section_framed:
  assumes "root_section sys name = Some check"
  shows "frames (\<lambda>_. True) check"
proof -
  have port: "frames target_port.tag_ok (TargetPortConfigurator sys)"
    unfolding TargetPortConfigurator_def
    by (rule frames_then_do[OF target_port.frames_tagged], simp add: sections_def,
        rule frames_then_do[OF target_port.frames_empty])
      (auto intro!: frames_ret frames_then_do[OF target_port.frames_add])
  have tables: "frames target.tag_ok TargetConfigurator" "frames initiator.tag_ok InitiatorConfigurator"
    "frames volume.tag_ok VolumeConfigurator"
    unfolding TargetConfigurator_def InitiatorConfigurator_def VolumeConfigurator_def
    by (auto intro!: target.frames_tagged initiator.frames_tagged volume.frames_tagged simp: sections_def)
  have "frames (\<lambda>_. True) (then_do (TargetPortConfigurator sys) (TargetPortConfigurator_valid sys))"
    by (rule frames_then_do[OF port]) (simp add: TargetPortConfigurator_valid_def target_port.frames_tc_valid)
  moreover have "frames (\<lambda>_. True) (then_do TargetConfigurator (TargetConfigurator_valid sys))"
    by (rule frames_then_do[OF tables(1)]) (simp add: TargetConfigurator_valid_def target.frames_tc_valid)
  moreover have "frames (\<lambda>_. True) (then_do InitiatorConfigurator (InitiatorConfigurator_valid sys))"
    by (rule frames_then_do[OF tables(2)]) (simp add: InitiatorConfigurator_valid_def initiator.frames_tc_valid)
  moreover have "frames (\<lambda>_. True) (then_do VolumeConfigurator (VolumeConfigurator_valid sys))"
    by (rule frames_then_do[OF tables(3)]) (simp add: VolumeConfigurator_valid_def volume.frames_tc_valid)
  ultimately show ?thesis
    using assms by (auto simp: root_section_def split: if_splits)
qed

end
