(* ===== verification/Config_Correct.thy ===== *)
theory Config_Correct
  imports ConfigVolumes
begin

text \<open>
  Properties of the configuration: when reading the file returns, what an accepted configuration guarantees
  of its attributes, and what the serialization of an initiator does.
\<close>

section \<open>Reading the file\<close>

text \<open>The lines of a text; the last one has no line feed and may be empty.\<close>

function lines_of :: "string \<Rightarrow> string list" where
  "lines_of cs =
     (if NL \<in> set cs
      then takeWhile (\<lambda>c. c \<noteq> NL) cs # lines_of (tl (dropWhile (\<lambda>c. c \<noteq> NL) cs))
      else [cs])"
  by pat_completeness auto
termination
proof (relation "measure length", goal_cases)
  case (2 cs)
  then have "dropWhile (\<lambda>c. c \<noteq> NL) cs \<noteq> []"
    by (simp add: dropWhile_eq_Nil_conv)
  moreover have "length (dropWhile (\<lambda>c. c \<noteq> NL) cs) \<le> length cs"
    by (rule length_dropWhile_le)
  ultimately show ?case
    by (cases "dropWhile (\<lambda>c. c \<noteq> NL) cs") auto
qed simp

declare lines_of.simps [simp del]

lemma append_lines_failed:
  assumes "append_lines s acc = Some res"
  shows "\<not> (is_fail s \<and> \<not> is_eof s)"
proof (rule append_lines.raw_induct[OF _ assms, of "\<lambda>s acc res. \<not> (is_fail s \<and> \<not> is_eof s)"])
  fix loop s acc res
  assume IH: "\<And>s acc res. loop s acc = Some res \<Longrightarrow> \<not> (is_fail s \<and> \<not> is_eof s)"
    and step: "(if is_eof s then Some acc
      else let (buf, s') = getline MAX_CHAR_PER_LINE s in loop s' (acc @ c_str buf @ [NL])) = Some res"
  show "\<not> (is_fail s \<and> \<not> is_eof s)"
  proof
    assume s: "is_fail s \<and> \<not> is_eof s"
    then have "loop (s\<lparr>is_fail := True\<rparr>) (acc @ c_str [] @ [NL]) = Some res"
      using step by (simp add: getline_def)
    from IH[OF this] show False
      using s by simp
  qed
qed

text \<open>C28. The configuration file is read exactly when every line of it is shorter than the buffer: then the
  lines come back with a line feed after each; a line of 128 characters or more sets the failure bit of the
  stream, \<^verbatim>\<open>eof()\<close> stays false, every further \<^verbatim>\<open>getline\<close> fails at once, and the loop never ends.\<close>

theorem config_file_is_read:
  "append_lines \<lparr>is_rest = doc, is_eof = False, is_fail = False\<rparr> acc =
     (if \<forall>l \<in> set (lines_of doc). length l < MAX_CHAR_PER_LINE
      then Some (acc @ concat (map (\<lambda>l. c_str l @ [NL]) (lines_of doc))) else None)"
proof (induction doc arbitrary: acc rule: lines_of.induct)
  case (1 doc)
  let ?s = "\<lparr>is_rest = doc, is_eof = False, is_fail = False\<rparr>"
  let ?line = "takeWhile (\<lambda>c. c \<noteq> NL) doc"
  have step: "append_lines ?s acc =
      (let (buf, s') = getline MAX_CHAR_PER_LINE ?s in append_lines s' (acc @ c_str buf @ [NL]))"
    by (subst append_lines.simps) simp
  show ?case
  proof (cases "MAX_CHAR_PER_LINE \<le> length ?line")
    case True
    have "append_lines s' acc' = None" if "is_fail s'" "\<not> is_eof s'" for s' acc'
      using append_lines_failed[of s' acc'] that by (cases "append_lines s' acc'") auto
    then have "append_lines ?s acc = None"
      using True by (simp add: step getline_def Let_def)
    moreover have "?line \<in> set (lines_of doc)"
      by (subst lines_of.simps) (auto simp: takeWhile_eq_all_conv[THEN iffD2])
    ultimately show ?thesis
      using True by (auto simp: not_less)
  next
    case short: False
    show ?thesis
    proof (cases "NL \<in> set doc")
      case True
      then have "append_lines ?s acc =
          append_lines (?s\<lparr>is_rest := tl (dropWhile (\<lambda>c. c \<noteq> NL) doc)\<rparr>) (acc @ c_str ?line @ [NL])"
        using short by (auto simp: step getline_def Let_def dropWhile_eq_Nil_conv)
      then show ?thesis
        using 1[OF True] short True by (subst (1 2) lines_of.simps) simp
    next
      case False
      then have line: "?line = doc" "dropWhile (\<lambda>c. c \<noteq> NL) doc = []"
        by (auto simp: takeWhile_eq_all_conv dropWhile_eq_Nil_conv)
      then have "append_lines ?s acc = Some (acc @ c_str doc @ [NL])"
        using short by (simp add: step getline_def Let_def append_lines.simps takeWhile_eq_all_conv[THEN iffD2])
      then show ?thesis
        using short False line by (subst (1 2) lines_of.simps) simp
    qed
  qed
qed


section \<open>Authentication of initiators\<close>

lemma then_do_Inr:
  "then_do m f cf = (Inr b, cf') \<longleftrightarrow> (\<exists>a cf1. m cf = (Inr a, cf1) \<and> f a cf1 = (Inr b, cf'))"
  by (auto simp: then_do_def split: prod.splits sum.splits)

lemma then_doE:
  assumes "then_do m f cf = (Inr b, cf')"
  obtains a cf1 where "m cf = (Inr a, cf1)" "f a cf1 = (Inr b, cf')"
  using assms by (auto simp: then_do_Inr)

lemma lift_Inr: "lift m cf = (Inr a, cf') \<longleftrightarrow> m = Inr a \<and> cf' = cf"
  by (auto simp: lift_def)

lemma ret_Inr: "ret a cf = (Inr b, cf') \<longleftrightarrow> b = a \<and> cf' = cf"
  by (auto simp: ret_def)

definition auth_ok :: "auth_info \<Rightarrow> bool" where
  "auth_ok a \<longleftrightarrow> au_method a \<in> {''None'', ''CHAP''} \<and> au_state a \<in> {''Discovery'', ''Session''}"

lemma credentials_ok:
  "credentials meth state user password v = Inr infs \<Longrightarrow> state \<in> {''Discovery'', ''Session''} \<Longrightarrow>
    \<forall>a \<in> set infs. auth_ok a \<and> au_state a = state"
  by (auto simp: credentials_def bind_Inr AuthInfoiSCSI_def auth_ok_def split: if_splits)

lemma auth_infos_ok:
  assumes "auth_infos state v = Inr (peers, myowns)" and "state \<in> {''Discovery'', ''Session''}"
  shows "\<forall>a \<in> set peers \<union> set myowns. auth_ok a \<and> au_state a = state"
proof (cases "isMember (state @ ''AuthMethod'') v = Inr True")
  case True
  then obtain meth infs bs where creds:
      "credentials meth state (state @ ''InitiatorUsername'') (state @ ''InitiatorPassword'') v = Inr infs"
      "credentials meth state (state @ ''TargetUsername'') (state @ ''TargetPassword'') v = Inr bs"
    and lists: "peers = (if has_substring ''None'' meth then [AuthInfoiSCSI ''None'' state] else []) @ infs"
      "myowns = (if has_substring ''None'' meth then [AuthInfoiSCSI ''None'' state] else []) @ bs"
    using assms(1) by (auto simp: auth_infos_def bind_Inr Let_def)
  have "auth_ok (AuthInfoiSCSI ''None'' state) \<and> au_state (AuthInfoiSCSI ''None'' state) = state"
    using assms(2) by (simp add: AuthInfoiSCSI_def auth_ok_def)
  then show ?thesis
    using credentials_ok[OF creds(1) assms(2)] credentials_ok[OF creds(2) assms(2)] by (auto simp: lists)
next
  case False
  then show ?thesis
    using assms(1) by (auto simp: auth_infos_def bind_Inr)
qed

lemma auth_infos_none:
  assumes "auth_infos state v = Inr (peers, myowns)" and "isMember (state @ ''AuthMethod'') v = Inr True"
    and "string_member (state @ ''AuthMethod'') v = Inr meth" and "has_substring ''None'' meth"
  shows "AuthInfoiSCSI ''None'' state \<in> set peers \<and> AuthInfoiSCSI ''None'' state \<in> set myowns"
  using assms by (auto simp: auth_infos_def bind_Inr Let_def)

text \<open>A method of the state is there.\<close>

definition has_method :: "string \<Rightarrow> json \<Rightarrow> bool" where
  "has_method state tmp \<longleftrightarrow> (\<exists>m s. tmp = objectValue m \<and> map_of m (state @ ''AuthMethod'') = Some (stringValue s) \<and> s \<noteq> [])"

definition is_tmp :: "json \<Rightarrow> bool" where
  "is_tmp tmp \<longleftrightarrow> (\<exists>m. tmp = objectValue m \<and>
     (\<forall>state \<in> {''Discovery'', ''Session''}. map_of m (state @ ''AuthMethod'') = None \<or> has_method state tmp))"

lemma c_str_names [simp]: "c_str ''DiscoveryAuthMethod'' = ''DiscoveryAuthMethod''"
  "c_str ''SessionAuthMethod'' = ''SessionAuthMethod''" "c_str ''None'' = ''None''" "c_str ''CHAP'' = ''CHAP''"
  "c_str ''DiscoveryInitiatorUsername'' = ''DiscoveryInitiatorUsername''"
  "c_str ''DiscoveryInitiatorPassword'' = ''DiscoveryInitiatorPassword''"
  "c_str ''DiscoveryTargetUsername'' = ''DiscoveryTargetUsername''"
  "c_str ''DiscoveryTargetPassword'' = ''DiscoveryTargetPassword''"
  "c_str ''SessionInitiatorUsername'' = ''SessionInitiatorUsername''"
  "c_str ''SessionInitiatorPassword'' = ''SessionInitiatorPassword''"
  "c_str ''SessionTargetUsername'' = ''SessionTargetUsername''"
  "c_str ''SessionTargetPassword'' = ''SessionTargetPassword''"
  "c_str ''InitiatorName'' = ''InitiatorName''" "c_str ''InitiatorAlias'' = ''InitiatorAlias''"
  "c_str ''InitiatorAddress'' = ''InitiatorAddress''"
  by (simp_all add: c_str_def)

lemma serialize_auth_again:
  assumes "au_state a \<in> {''Discovery'', ''Session''}" and "has_method (au_state a) tmp"
  shows "serialize_auth overwrite who a tmp = Inl Abort"
proof -
  obtain m s where m: "tmp = objectValue m" "map_of m (au_state a @ ''AuthMethod'') = Some (stringValue s)" "s \<noteq> []"
    using assms(2) by (auto simp: has_method_def)
  have key: "c_str (au_state a @ ''AuthMethod'') = au_state a @ ''AuthMethod''"
    using assms(1) by auto
  have "object_slot (au_state a @ ''AuthMethod'') tmp = stringValue s"
    unfolding object_slot_def slot_def m(1) by (simp only: json.case key m(2) option.case)
  moreover have "json_append x (stringValue s) = Inl Abort" for x
    by (simp add: json_append_def set_at_def array_of_def)
  ultimately show ?thesis
    using assms(1) m(1,3) by (simp add: serialize_auth_def Let_def object_of_def asString_def)
qed

lemma set_members_Nil [simp]: "set_members [] v = Inr v"
  by (simp add: set_members_def)

lemma fold_bind_Inl [simp]: "fold (\<lambda>a m. bind m (f a)) xs (Inl e) = Inl e"
  by (induction xs) auto

lemma set_members_Cons [simp]:
  "set_members ((k, x) # kvs) (objectValue m) = set_members kvs (objectValue (map_put (c_str k) x m))"
  by (simp add: set_members_def set_member_def object_of_def)

text \<open>The states that have a method in the tree that is built.\<close>

definition served :: "string set \<Rightarrow> json \<Rightarrow> bool" where
  "served S tmp \<longleftrightarrow> (\<exists>m. tmp = objectValue m \<and>
     (\<forall>state \<in> {''Discovery'', ''Session''}.
        if state \<in> S then has_method state tmp else map_of m (state @ ''AuthMethod'') = None))"

lemma auth_names_differ:
  assumes "st \<in> {''Discovery'', ''Session''}" "st' \<in> {''Discovery'', ''Session''}"
    "who \<in> {''Initiator'', ''Target''}"
  shows "st @ ''AuthMethod'' \<noteq> st' @ who @ ''Username''" "st @ ''AuthMethod'' \<noteq> st' @ who @ ''Password''"
    "st @ ''AuthMethod'' = st' @ ''AuthMethod'' \<longleftrightarrow> st = st'"
  using assms by (elim insertE emptyE; simp)+

lemma serialize_auth_first:
  assumes "auth_ok a" and "served S tmp" and "au_state a \<notin> S" and who: "who \<in> {''Initiator'', ''Target''}"
  shows "\<exists>tmp'. serialize_auth overwrite who a tmp = Inr tmp' \<and> served (insert (au_state a) S) tmp'"
proof -
  obtain m where m: "tmp = objectValue m" and fresh: "map_of m (au_state a @ ''AuthMethod'') = None"
    and others: "\<forall>state \<in> {''Discovery'', ''Session''}.
        if state \<in> S then has_method state tmp else map_of m (state @ ''AuthMethod'') = None"
    using assms(1-3) by (auto simp: served_def auth_ok_def)
  have names: "c_str (au_state a @ ''AuthMethod'') = au_state a @ ''AuthMethod''"
    "c_str (au_state a @ who @ ''Username'') = au_state a @ who @ ''Username''"
    "c_str (au_state a @ who @ ''Password'') = au_state a @ who @ ''Password''"
    "Value_string (au_method a) = stringValue (au_method a)" and state: "au_state a \<in> {''Discovery'', ''Session''}"
    using assms(1) who by (auto simp: auth_ok_def Value_string_def)
  have slot: "object_slot (au_state a @ ''AuthMethod'') tmp = nullValue"
    unfolding object_slot_def slot_def m by (simp only: json.case names fresh option.case)
  have cond: "\<not> (au_state a \<noteq> ''Discovery'' \<and> au_state a \<noteq> ''Session'')"
    using state by simp
  define key m1 m2 where "key = au_state a @ ''AuthMethod''"
    and "m1 = map_put key (stringValue (au_method a)) m"
    and "m2 = (if overwrite then map_put key (stringValue (au_method a)) m1 else m1)"
  define m3 where "m3 = map_put (au_state a @ who @ ''Password'') (Value_string (au_password a))
      (map_put (au_state a @ who @ ''Username'') (Value_string (au_name a)) m2)"
  have "serialize_auth overwrite who a tmp = Inr (objectValue m3)"
    unfolding serialize_auth_def Let_def slot
    by (simp only: cond if_False m object_of_def json.case bind.simps asString_def)
      (cases overwrite; simp add: set_member_def object_of_def names m3_def m2_def m1_def key_def)
  moreover have m3: "map_of m3 (st @ ''AuthMethod'') =
      (if st = au_state a then Some (stringValue (au_method a)) else map_of m (st @ ''AuthMethod''))"
    if "st \<in> {''Discovery'', ''Session''}" for st
    using auth_names_differ[OF that state who] by (simp add: m3_def m2_def m1_def key_def)
  moreover have "au_method a \<noteq> []"
    using assms(1) by (auto simp: auth_ok_def)
  ultimately have "served (insert (au_state a) S) (objectValue m3)"
    using others m state m3[of "''Discovery''"] m3[of "''Session''"]
    by (elim insertE emptyE; simp add: served_def has_method_def split: if_splits)
  with \<open>serialize_auth overwrite who a tmp = Inr (objectValue m3)\<close> show ?thesis
    by blast
qed

lemma served_has_method:
  "served S tmp \<Longrightarrow> state \<in> S \<Longrightarrow> state \<in> {''Discovery'', ''Session''} \<Longrightarrow> has_method state tmp"
  by (auto simp: served_def)

lemma serialize_auths:
  assumes "\<forall>a \<in> set infs. auth_ok a" and "served S tmp" and "who \<in> {''Initiator'', ''Target''}"
  shows "if distinct (map au_state infs) \<and> S \<inter> au_state ` set infs = {}
    then \<exists>tmp'. fold (\<lambda>a m. bind m (serialize_auth overwrite who a)) infs (Inr tmp) = Inr tmp' \<and>
      served (S \<union> au_state ` set infs) tmp'
    else fold (\<lambda>a m. bind m (serialize_auth overwrite who a)) infs (Inr tmp) = Inl Abort"
  using assms
proof (induction infs arbitrary: S tmp)
  case (Cons a infs)
  show ?case
  proof (cases "au_state a \<in> S")
    case True
    then have "serialize_auth overwrite who a tmp = Inl Abort"
      using Cons.prems by (intro serialize_auth_again served_has_method[of S]) (auto simp: auth_ok_def)
    then show ?thesis
      using True by auto
  next
    case False
    then obtain tmp' where tmp': "serialize_auth overwrite who a tmp = Inr tmp'" "served (insert (au_state a) S) tmp'"
      using Cons.prems serialize_auth_first[of a S tmp who overwrite] by auto
    show ?thesis
      using Cons.IH[OF _ tmp'(2)] Cons.prems False by (auto simp: tmp'(1) split: if_splits)
  qed
qed simp

lemma InitiatorInfo_new_auths:
  assumes "InitiatorInfo_new sys p key cf = (Inr i, cf')"
  obtains peers myowns peers' myowns' where
    "auth_infos ''Discovery'' (tree_at p (cf_root cf)) = Inr (peers, myowns)"
    "auth_infos ''Session'' (tree_at p (cf_root cf)) = Inr (peers', myowns')"
    "ii_peers i = peers @ peers'" "ii_myowns i = myowns @ myowns'"
  using assms unfolding InitiatorInfo_new_def
  by (elim then_doE)
    (auto simp: lift_Inr ret_Inr read_at_def elim!: then_doE split: if_split_asm)

lemma InitiatorInfo_serialize_auths:
  assumes "\<forall>a \<in> set (ii_peers i @ ii_myowns i). auth_ok a"
  shows "if distinct (map au_state (ii_peers i @ ii_myowns i))
    then \<exists>tmp. InitiatorInfo_serialize sys i = Inr tmp else InitiatorInfo_serialize sys i = Inl Abort"
proof -
  define tmp0 where "tmp0 = map_put ''InitiatorAlias'' (Value_string (ti_alias i))
      (map_put ''InitiatorName'' (Value_string (ti_name i)) [])"
  have start: "set_members [(''InitiatorName'', Value_string (ti_name i)),
      (''InitiatorAlias'', Value_string (ti_alias i))] nullValue = Inr (objectValue tmp0)"
    by (simp add: set_members_def set_member_def object_of_def tmp0_def)
  obtain tmp where tmp: "try_bind (bind (getAddrPortStr sys (ti_address i)) (\<lambda>a.
        set_member ''InitiatorAddress'' (Value_string a) (objectValue tmp0))) (\<lambda>_. Inr (objectValue tmp0)) =
      Inr (objectValue tmp)" "tmp = tmp0 \<or> (\<exists>a. tmp = map_put ''InitiatorAddress'' a tmp0)"
    by (cases "getAddrPortStr sys (ti_address i)")
      (auto simp: getAddrPortStr_def set_member_def object_of_def split: sum.splits prod.splits if_splits)
  have served: "served {} (objectValue tmp)"
    using tmp(2) by (auto simp: served_def tmp0_def)
  have peers: "\<forall>a \<in> set (ii_peers i). auth_ok a" and myowns: "\<forall>a \<in> set (ii_myowns i). auth_ok a"
    using assms by auto
  have unfolded: "InitiatorInfo_serialize sys i =
      bind (fold (\<lambda>a m. bind m (serialize_auth False ''Initiator'' a)) (ii_peers i) (Inr (objectValue tmp))) (\<lambda>tmp.
      fold (\<lambda>a m. bind m (serialize_auth True ''Target'' a)) (ii_myowns i) (Inr tmp))"
    by (simp add: InitiatorInfo_serialize_def start tmp(1))
  show ?thesis
  proof (cases "distinct (map au_state (ii_peers i))")
    case True
    then obtain tmp1 where tmp1: "fold (\<lambda>a m. bind m (serialize_auth False ''Initiator'' a)) (ii_peers i)
        (Inr (objectValue tmp)) = Inr tmp1" "served (au_state ` set (ii_peers i)) tmp1"
      using serialize_auths[OF peers served, of "''Initiator''" False] by auto
    then show ?thesis
      using serialize_auths[OF myowns tmp1(2), of "''Target''" True] True
      by (auto simp: unfolded split: if_splits)
  next
    case False
    then show ?thesis
      using serialize_auths[OF peers served, of "''Initiator''" False] by (simp add: unfolded)
  qed
qed

text \<open>C13. An initiator entry that was read from the configuration can be serialized, and so be checked, exactly
  when each of the states Discovery and Session has at most one method, of the initiator or of the target:
  the second method of a state is appended to the string that the first one left, and \<^verbatim>\<open>Value::append\<close>
  on a string aborts. So an entry that sets the method \<^verbatim>\<open>None\<close> always ends the program.\<close>

theorem initiator_auth_aborts:
  assumes "InitiatorInfo_new sys p key cf = (Inr i, cf')"
  shows "(if distinct (map au_state (ii_peers i @ ii_myowns i))
      then \<exists>tmp. InitiatorInfo_serialize sys i = Inr tmp
      else InitiatorInfo_valid sys i cf1 = (Inl Abort, cf1)) \<and>
    (\<forall>state \<in> {''Discovery'', ''Session''}. \<forall>meth.
      isMember (state @ ''AuthMethod'') (tree_at p (cf_root cf)) = Inr True \<and>
      string_member (state @ ''AuthMethod'') (tree_at p (cf_root cf)) = Inr meth \<and> has_substring ''None'' meth \<longrightarrow>
      InitiatorInfo_valid sys i cf1 = (Inl Abort, cf1))"
proof -
  let ?v = "tree_at p (cf_root cf)"
  obtain peers myowns peers' myowns' where infos:
      "auth_infos ''Discovery'' ?v = Inr (peers, myowns)" "auth_infos ''Session'' ?v = Inr (peers', myowns')"
    and i: "ii_peers i = peers @ peers'" "ii_myowns i = myowns @ myowns'"
    using InitiatorInfo_new_auths[OF assms] by metis
  have ok: "\<forall>a \<in> set (ii_peers i @ ii_myowns i). auth_ok a"
    using auth_infos_ok[OF infos(1)] auth_infos_ok[OF infos(2)] by (auto simp: i)
  have aborts: "InitiatorInfo_valid sys i cf1 = (Inl Abort, cf1)"
    if "\<not> distinct (map au_state (ii_peers i @ ii_myowns i))"
    using InitiatorInfo_serialize_auths[OF ok, of sys] that
    by (simp add: InitiatorInfo_valid_def entry_valid_def then_do_def lift_def)
  have "\<not> distinct (map au_state (ii_peers i @ ii_myowns i))"
    if "state \<in> {''Discovery'', ''Session''}" "isMember (state @ ''AuthMethod'') ?v = Inr True"
      "string_member (state @ ''AuthMethod'') ?v = Inr meth" "has_substring ''None'' meth" for state meth
  proof -
    have "AuthInfoiSCSI ''None'' state \<in> set (ii_peers i) \<inter> set (ii_myowns i)"
      using that auth_infos_none[OF infos(1)] auth_infos_none[OF infos(2)] by (auto simp: i)
    then show ?thesis
      by auto
  qed
  then show ?thesis
    using aborts InitiatorInfo_serialize_auths[OF ok, of sys] by (auto split: if_splits)
qed

section \<open>Examples\<close>

definition ex_system :: system where
  "ex_system = \<lparr>sys_getaddrinfo = (\<lambda>_ _. None), sys_getnameinfo = (\<lambda>_. Inl ''unknown''), sys_fresh = replicate 128 0,
     sys_bad_get = ''bad_get'', sys_files = (\<lambda>_. None), sys_lf = (\<lambda>_. None), sys_g = (\<lambda>_. [])\<rparr>"

definition ex_initiator :: config where
  "ex_initiator = \<lparr>cf_root = objectValue [(''DiscoveryAuthMethod'', stringValue ''None''),
     (''InitiatorName'', stringValue ''i'')], cf_cmdargs = nullValue, cf_defaults = []\<rparr>"

definition ex_info :: initiator_info where
  "ex_info = \<lparr>ti_name = ''i'', ti_alias = ''i'', ti_address = replicate 128 0, ii_luns = [Key ''LUN''],
     ii_peers = [AuthInfoiSCSI ''None'' ''Discovery''], ii_myowns = [AuthInfoiSCSI ''None'' ''Discovery'']\<rparr>"

lemma ex_new: "fst (InitiatorInfo_new ex_system [] 0 ex_initiator) = Inr ex_info"
  by code_simp

lemma initiator_auth_aborts_witness:
  "InitiatorInfo_valid ex_system ex_info ex_initiator = (Inl Abort, ex_initiator)"
proof -
  obtain cf' where new: "InitiatorInfo_new ex_system [] 0 ex_initiator = (Inr ex_info, cf')"
    using ex_new by (cases "InitiatorInfo_new ex_system [] 0 ex_initiator") auto
  have "\<not> distinct (map au_state (ii_peers ex_info @ ii_myowns ex_info))"
    by code_simp
  then show ?thesis
    using initiator_auth_aborts[OF new, of ex_initiator] by simp
qed

lemma config_file_is_read_witness:
  "append_lines \<lparr>is_rest = ''ab'' @ NL # ''c'', is_eof = False, is_fail = False\<rparr> [] = Some (''ab'' @ NL # ''c'' @ [NL]) \<and>
   append_lines \<lparr>is_rest = replicate 128 CHR ''a'', is_eof = False, is_fail = False\<rparr> [] = None"
proof -
  have "lines_of (''ab'' @ NL # ''c'') = [''ab'', ''c'']"
    by (simp add: lines_of.simps)
  moreover have "lines_of (replicate 128 CHR ''a'') = [replicate 128 CHR ''a'']"
    by (simp add: lines_of.simps)
  ultimately show ?thesis
    using config_file_is_read[of "''ab'' @ NL # ''c''" "[]"] config_file_is_read[of "replicate 128 CHR ''a''" "[]"]
    by (simp add: MAX_CHAR_PER_LINE_def c_str_def)
qed
end
