(* ===== verification/Config_Accepted.thy ===== *)
theory Config_Accepted
  imports Config_Frame Config_Correct Json_Rendering
begin

text \<open>
  What the rest of the program can rely on once the configuration was read and checked: every attribute that
  has a validator reads as a value of its type within the validator's limits, whether the file sets it or not.
\<close>

lemma check_members_accepts:
  assumes framed: "\<And>name check. sect name = Some check \<Longrightarrow> frames (\<lambda>_. True) check"
  shows "check_members sys sect vs cf_root names (good, errors) cf = (Inr (True, errors'), cf') \<Longrightarrow>
    good \<and> (\<forall>name \<in> set names. sect name = None \<longrightarrow>
      (\<exists>cf1 v a. same_scalars cf cf1 \<and> json_member name (cf_root cf1) = Inr v \<and> attr_of name v = Inr a \<and>
        validAttr sys vs name a = Inr True))"
proof (induction names arbitrary: good errors cf)
  case Nil
  then show ?case
    by (simp add: ret_Inr)
next
  case (Cons name names)
  obtain good1 errors1 cf1 where first: "catch (then_do (check_member sys sect vs cf_root name) (\<lambda>ok.
        ret (if ok then (good, errors) else (False, errors @ name @ '' is invalid'' @ [NL]))))
        (\<lambda>what. ret (False, errors @ what)) cf = (Inr (good1, errors1), cf1)"
    and rest: "check_members sys sect vs cf_root names (good1, errors1) cf1 = (Inr (True, errors'), cf')"
    using Cons.prems by (auto elim!: then_doE)
  note IH = Cons.IH[OF rest]
  obtain r cf0 where r: "check_member sys sect vs cf_root name cf = (r, cf0)"
    by fastforce
  have r_ok: "r = Inr True" "good" "cf1 = cf0"
    using first IH r by (auto simp: catch_def then_do_def ret_def split: sum.splits fault.splits if_splits)
  have same: "same_scalars cf cf1"
    using framesD[OF frames_check_member[OF framed] r] r_ok by simp
  have "\<exists>v a. json_member name (cf_root cf) = Inr v \<and> attr_of name v = Inr a \<and> validAttr sys vs name a = Inr True"
    if "sect name = None"
    using r r_ok that by (auto simp: check_member_def bind_Inr)
  then show ?case
    using IH r_ok(2) same same_scalars_refl same_scalars_trans by (metis set_ConsD)
qed

lemma json_member_scalar:
  assumes "same_scalars cf cf'" and "cf_root cf = objectValue m" and "name \<notin> sections" and "c_str name = name"
  shows "json_member name (cf_root cf') = Inr (slot name m)"
  using assms by (auto simp: same_scalars_def root_members_def json_member_def member_ref_def slot_def)

lemma member_ref_scalar:
  assumes "same_scalars cf cf'" and "cf_root cf = objectValue m" and "name \<notin> sections" and "c_str name = name"
  shows "member_ref name (cf_root cf') = Inr (map_of m name)"
  using assms by (auto simp: same_scalars_def root_members_def member_ref_def)

lemma validate_accepts:
  assumes "validate sys cf = (Inr True, cf')"
  shows "\<exists>m. cf_root cf = objectValue m \<and> same_scalars cf cf' \<and>
    (\<forall>name v. name \<notin> sections \<longrightarrow> c_str name = name \<longrightarrow> map_of m name = Some v \<longrightarrow>
      (\<exists>a. attr_of name v = Inr a \<and> validAttr sys root_validators name a = Inr True))"
proof -
  obtain m where m: "cf_root cf = objectValue m"
    using assms by (cases "cf_root cf")
      (auto simp: validate_def attrsSatisfied_def getMemberNames_def bind_Inr elim!: then_doE)
  obtain errors where checks:
      "check_members sys (root_section sys) root_validators cf_root (map fst m) (True, []) cf = (Inr (True, errors), cf')"
    using assms by (auto simp: validate_def validAttrs_def getMemberNames_def m ret_Inr lift_Inr elim!: then_doE
        split: if_splits)
  have accepts: "\<forall>name \<in> set (map fst m). root_section sys name = None \<longrightarrow>
      (\<exists>cf1 v a. same_scalars cf cf1 \<and> json_member name (cf_root cf1) = Inr v \<and> attr_of name v = Inr a \<and>
        validAttr sys root_validators name a = Inr True)"
    using check_members_accepts[OF _ checks] root_section_framed by blast
  have same: "same_scalars cf cf'"
    using framesD[OF frames_check_members checks] root_section_framed by blast
  have "\<exists>a. attr_of name v = Inr a \<and> validAttr sys root_validators name a = Inr True"
    if "name \<notin> sections" "c_str name = name" "map_of m name = Some v" for name v
  proof -
    have "name \<in> set (map fst m)" "root_section sys name = None"
      using that map_of_SomeD[OF that(3)] by (force simp: root_section_def sections_def)+
    then obtain cf1 v' a where "same_scalars cf cf1" "json_member name (cf_root cf1) = Inr v'"
        "attr_of name v' = Inr a" "validAttr sys root_validators name a = Inr True"
      using accepts by blast
    moreover have "v' = v"
      using json_member_scalar[OF \<open>same_scalars cf cf1\<close> m that(1,2)] calculation(2) that(3) by (simp add: slot_def)
    ultimately show ?thesis
      by blast
  qed
  with m same show ?thesis
    by blast
qed

section \<open>Values within limits\<close>

fun attr_within :: "system \<Rightarrow> config \<Rightarrow> string \<Rightarrow> any_validator \<Rightarrow> bool" where
  "attr_within sys cf name (ForNum n) \<longleftrightarrow> (\<exists>x. config_getAttr_uint64 name cf = Inr (Some x) \<and> num_valid n x)"
| "attr_within sys cf name (ForBool b) \<longleftrightarrow> (\<exists>x. config_getAttr_bool name cf = Inr (Some x) \<and> bool_valid b x)"
| "attr_within sys cf name (ForString s) \<longleftrightarrow> (\<exists>x. config_getAttr_string name cf = Inr (Some x) \<and> string_valid sys s x)"

text \<open>A default of the type of the validator, within its limits.\<close>

fun default_within :: "system \<Rightarrow> any_validator \<Rightarrow> attr option \<Rightarrow> bool" where
  "default_within sys (ForNum n) (Some (NumAttr x)) \<longleftrightarrow> num_valid n x"
| "default_within sys (ForBool b) (Some (BoolAttr x)) \<longleftrightarrow> bool_valid b x"
| "default_within sys (ForString s) (Some (StrAttr x)) \<longleftrightarrow> string_valid sys s (c_str x) \<and> c_str x = x"
| "default_within sys _ _ \<longleftrightarrow> False"

lemma attr_within_accepted:
  assumes ref: "member_ref name (cf_root cf) = Inr (map_of m name)"
    and valid: "\<And>v. map_of m name = Some v \<Longrightarrow>
      \<exists>a. attr_of name v = Inr a \<and> validAttr sys root_validators name a = Inr True"
    and vs: "map_of root_validators name = Some vd" and dflt: "default_within sys vd (map_of (cf_defaults cf) name)"
  shows "attr_within sys cf name vd"
proof (cases "map_of m name")
  case None
  then show ?thesis
    using ref dflt by (cases "(sys, vd, map_of (cf_defaults cf) name)" rule: default_within.cases)
      (auto simp: config_getAttr_uint64_def config_getAttr_bool_def config_getAttr_string_def config_getAttr_with_def isMember_def json_get_def
        asUInt_def asBool_def asString_def Value_string_def)
next
  case (Some v)
  then obtain a where "attr_of name v = Inr a" "validAttr sys root_validators name a = Inr True"
    using valid by blast
  then show ?thesis
    using ref dflt Some vs
    by (cases "(sys, vd, map_of (cf_defaults cf) name)" rule: default_within.cases; cases v)
      (auto simp: config_getAttr_uint64_def config_getAttr_bool_def config_getAttr_string_def config_getAttr_with_def isMember_def json_get_def
        asBool_def asString_def attr_of_def validAttr_def bind_Inr split: if_splits)
qed

lemma defaults_within:
  assumes "fst (getSockAddr sys ''[0.0.0.0]:32680'' (sys_fresh sys))"
  shows "\<forall>(name, vd) \<in> set root_validators. name \<notin> sections \<and> c_str name = name \<and>
    map_of root_validators name = Some vd \<and> default_within sys vd (map_of (cf_defaults Configurator) name)"
proof -
  have names: "\<forall>(name, vd) \<in> set root_validators. name \<notin> sections \<and> c_str name = name"
    by (simp add: root_validators_def sections_def c_str_def)
  have "distinct (map fst root_validators)"
    by (simp add: root_validators_def)
  then have found: "\<forall>(name, vd) \<in> set root_validators. map_of root_validators name = Some vd"
    by auto
  have closed: "\<forall>(name, vd) \<in> set root_validators. vd \<noteq> ForString AddrStrValidator \<longrightarrow>
      default_within ex_system vd (map_of (cf_defaults Configurator) name)"
    by (simp add: root_validators_def Configurator_def config_setDefaults_def default_values_def PATH_MAX_def
        c_str_def DEFAULT_CONFIGFILE_def DEFAULT_PIDFILE_def)
  have console: "\<forall>(name, vd) \<in> set root_validators. vd = ForString AddrStrValidator \<longrightarrow>
      map_of (cf_defaults Configurator) name = Some (StrAttr ''[0.0.0.0]:32680'')"
    by (simp add: root_validators_def Configurator_def config_setDefaults_def default_values_def)
  have indep: "default_within sys vd d" if "default_within ex_system vd d" "vd \<noteq> ForString AddrStrValidator" for vd d
    using that by (cases "(sys, vd, d)" rule: default_within.cases; simp)
      (metis string_valid.simps(1,3) string_validator.exhaust)
  have "default_within sys (ForString AddrStrValidator) (Some (StrAttr ''[0.0.0.0]:32680''))"
    using assms by (simp add: c_str_def)
  with names found closed console indep show ?thesis
    by fastforce
qed

lemma reader_keeps_defaults: "config_parse sys doc cf = (r, cf') \<Longrightarrow> cf_defaults cf' = cf_defaults cf"
  by (auto simp: config_parse_def Let_def restoreCommandArgs_def restore_def bind_Inr
      split: option.splits sum.splits prod.splits if_splits)

lemma readConfig_accepts:
  assumes "readConfig sys cf = Some (Inr True, cf')"
  obtains path doc cf1 where "ConfigBinder_append sys path [] cf = Some (Inr (), doc, cf1)"
    "catch (validate sys) (\<lambda>_. ret False) cf1 = (Inr True, cf')"
proof -
  obtain path where path: "config_getAttr_string ''ConfigFile'' cf = Inr (Some path)"
    using assms by (simp add: readConfig_def split: sum.split_asm option.split_asm fault.split_asm)
  obtain res doc cf1 where bound: "ConfigBinder_append sys path [] cf = Some (res, doc, cf1)"
    using assms path by (simp add: readConfig_def split: option.split_asm) (metis prod_cases3)
  have res: "res = Inr ()"
    using assms path bound by (simp add: readConfig_def split: sum.split_asm fault.split_asm)
  then have "catch (validate sys) (\<lambda>_. ret False) cf1 = (Inr True, cf')"
    using assms path bound by (simp add: readConfig_def)
  then show thesis
    using that bound res by simp
qed

lemma readConfig_valid:
  assumes "readConfig sys cf = Some (Inr True, cf')"
  obtains cf1 where "cf_defaults cf1 = cf_defaults cf" "validate sys cf1 = (Inr True, cf')"
proof -
  obtain path doc cf1 where "ConfigBinder_append sys path [] cf = Some (Inr (), doc, cf1)"
    and caught: "catch (validate sys) (\<lambda>_. ret False) cf1 = (Inr True, cf')"
    using readConfig_accepts[OF assms(1)] .
  then have "cf_defaults cf1 = cf_defaults cf"
    using reader_keeps_defaults by (auto simp: ConfigBinder_append_def split: option.splits sum.splits prod.splits)
  moreover have "validate sys cf1 = (Inr True, cf')"
    using caught by (auto simp: catch_def ret_def split: sum.splits fault.splits prod.splits)
  ultimately show thesis
    using that by blast
qed

lemma accepted_within:
  assumes "readConfig sys cf = Some (Inr True, cf')" and "cf_defaults cf = cf_defaults Configurator"
    and "fst (getSockAddr sys ''[0.0.0.0]:32680'' (sys_fresh sys))"
  shows "\<forall>(name, vd) \<in> set root_validators. attr_within sys cf' name vd"
proof -
  obtain cf1 where "cf_defaults cf1 = cf_defaults cf" "validate sys cf1 = (Inr True, cf')"
    using readConfig_valid[OF assms(1)] .
  moreover then obtain m where m: "cf_root cf1 = objectValue m" "same_scalars cf1 cf'"
    and valid: "\<forall>name v. name \<notin> sections \<longrightarrow> c_str name = name \<longrightarrow> map_of m name = Some v \<longrightarrow>
      (\<exists>a. attr_of name v = Inr a \<and> validAttr sys root_validators name a = Inr True)"
    using validate_accepts by blast
  moreover have "cf_defaults cf' = cf_defaults cf1"
    using m(2) by (simp add: same_scalars_def)
  ultimately show ?thesis
    using defaults_within[OF assms(3)] assms(2)
    by (auto intro!: attr_within_accepted[OF member_ref_scalar[OF m(2,1)]])
qed

text \<open>C4. When \<^verbatim>\<open>readConfig\<close> accepts, every attribute that has a validator can be read with the getter of its
  type, and what the getter returns is within the limits of the validator: the value of the file, or the
  default, which is within them as well. The check does not change these values although it writes to the
  tree.\<close>

theorem accepted_configuration_within_limits:
  assumes "readConfig sys cf = Some (Inr True, cf')" and "cf_defaults cf = cf_defaults Configurator"
    and "fst (getSockAddr sys ''[0.0.0.0]:32680'' (sys_fresh sys))"
  shows "\<forall>(name, vd) \<in> set root_validators. attr_within sys cf' name vd"
  using assms by (rule accepted_within)

section \<open>Examples\<close>

definition ex_tree_accepted :: json where
  "ex_tree_accepted =
     objectValue [(''GlobalTargetName'', stringValue ''g''), (''LocalTargetName'', stringValue ''l'')]"

definition ex_doc :: string where
  "ex_doc = CHR ''{'' # (QUOTE # ''GlobalTargetName'' @ QUOTE # CHR '':'' # QUOTE # ''g'' @ QUOTE # CHR '','' #
     QUOTE # ''LocalTargetName'' @ QUOTE # CHR '':'' # QUOTE # ''l'' @ [QUOTE]) @ ''}''"

definition ex_daemon :: system where
  "ex_daemon = ex_system\<lparr>sys_getaddrinfo := \<lambda>_ _. Some [2, 0], sys_files := \<lambda>_. Some ex_doc\<rparr>"

lemma ex_doc_rendering: "rendering ex_tree_accepted ex_doc"
proof -
  have texts: "rendering (stringValue ''g'') (QUOTE # ''g'' @ [QUOTE])" "rendering (stringValue ''l'') (QUOTE # ''l'' @ [QUOTE])"
    by (rule rendering_render_elements_render_members.str, simp)+
  have "render_members [(''LocalTargetName'', stringValue ''l'')]
      ([] @ QUOTE # ''LocalTargetName'' @ QUOTE # [] @ CHR '':'' # [] @ (QUOTE # ''l'' @ [QUOTE]) @ [])"
    using texts(2) by (intro rendering_render_elements_render_members.last_member) simp_all
  then have "render_members [(''GlobalTargetName'', stringValue ''g''), (''LocalTargetName'', stringValue ''l'')]
      ([] @ QUOTE # ''GlobalTargetName'' @ QUOTE # [] @ CHR '':'' # [] @ (QUOTE # ''g'' @ [QUOTE]) @ [] @ CHR '','' #
       [] @ QUOTE # ''LocalTargetName'' @ QUOTE # [] @ CHR '':'' # [] @ (QUOTE # ''l'' @ [QUOTE]) @ [])"
    using texts(1) by (intro rendering_render_elements_render_members.member) simp_all
  then show ?thesis
    unfolding ex_tree_accepted_def ex_doc_def
    by (intro rendering_render_elements_render_members.object) simp_all
qed

lemma ex_doc_lines: "append_lines \<lparr>is_rest = ex_doc, is_eof = False, is_fail = False\<rparr> [] = Some (ex_doc @ [NL])"
  by (simp add: append_lines.simps getline_def MAX_CHAR_PER_LINE_def ex_doc_def c_str_def)

lemma ex_doc_validated:
  "validate sys \<lparr>cf_root = ex_tree_accepted, cf_cmdargs = nullValue, cf_defaults = ds\<rparr> =
    (Inr True, \<lparr>cf_root = ex_tree_accepted, cf_cmdargs = nullValue, cf_defaults = ds\<rparr>)"
proof -
  have "attrsSatisfied root_required root_optional ex_tree_accepted = Inr True"
    by code_simp
  moreover have "validAttr sys root_validators ''GlobalTargetName'' (StrAttr ''g'') = Inr True"
    "validAttr sys root_validators ''LocalTargetName'' (StrAttr ''l'') = Inr True"
    by (simp_all add: validAttr_def root_validators_def PATH_MAX_def)
  ultimately show ?thesis
    by (simp add: validate_def validAttrs_def then_do_def catch_def ret_def check_member_def root_section_def
        getMemberNames_def json_member_def member_ref_def attr_of_def ex_tree_accepted_def c_str_def)
qed

lemma ex_doc_read: "readConfig ex_daemon Configurator = Some (Inr True, Configurator\<lparr>cf_root := ex_tree_accepted\<rparr>)"
proof -
  obtain r where "reader_parse (sys_lf ex_daemon) (2 * length (ex_doc @ [NL]) + 1) (ex_doc @ [NL]) nullValue =
      Some (Inr (True, ex_tree_accepted, r))"
    using rendering_text[OF ex_doc_rendering, of "[]" "[NL]" "2 * length (ex_doc @ [NL]) + 1" "sys_lf ex_daemon" nullValue]
    by (auto simp: is_space_def)
  note parsed = this
  obtain ds where conf: "Configurator = \<lparr>cf_root = nullValue, cf_cmdargs = nullValue, cf_defaults = ds\<rparr>"
    by (simp add: Configurator_def config_setDefaults_def)
  have "config_parse ex_daemon (ex_doc @ [NL]) Configurator =
      (Inr (), Configurator\<lparr>cf_root := ex_tree_accepted\<rparr>)"
    using parsed by (simp add: conf config_parse_def Let_def restoreCommandArgs_def restore_def isMember_def member_ref_def)
  moreover have "config_getAttr_string ''ConfigFile'' Configurator = Inr (Some DEFAULT_CONFIGFILE)"
    by code_simp
  moreover have "binder_append ex_daemon DEFAULT_CONFIGFILE [] = Some (Inr (ex_doc @ [NL]))"
    by (simp add: binder_append_def ex_daemon_def ex_doc_lines)
  moreover have "catch (validate ex_daemon) (\<lambda>_. ret False) (Configurator\<lparr>cf_root := ex_tree_accepted\<rparr>) =
      (Inr True, Configurator\<lparr>cf_root := ex_tree_accepted\<rparr>)"
    by (simp add: conf catch_def ex_doc_validated)
  ultimately show ?thesis
    by (simp add: readConfig_def ConfigBinder_append_def)
qed

lemma accepted_configuration_within_limits_witness:
  "attr_within ex_daemon (Configurator\<lparr>cf_root := ex_tree_accepted\<rparr>) ''MaxConnections'' (ForNum (RangeValidator 1 8))"
proof -
  have "fst (getSockAddr ex_daemon ''[0.0.0.0]:32680'' (sys_fresh ex_daemon))"
    by code_simp
  from accepted_configuration_within_limits[OF ex_doc_read refl this] show ?thesis
    by (simp add: root_validators_def)
qed

end
