(* ===== verification/SendTasks.thy ===== *)
theory SendTasks
  imports Writers
begin

text \<open>
  The send tasks of \<^verbatim>\<open>include/task.h\<close>, \<^verbatim>\<open>src/send.cpp\<close>, \<^verbatim>\<open>src/sendcache.cpp\<close> and
  \<^verbatim>\<open>src/sendfile.cpp\<close>: sending response buffers, sending blocks out of a cached write segment and
  sending blocks from the files. The socket is an environment that answers each \<^verbatim>\<open>writev\<close> with the
  number of bytes taken or with an error; the model keeps the stream of bytes that have been
  taken. The two \<^verbatim>\<open>writev\<close> loops share their shape, so the loop is one definition over what a task
  can do, and the locale \<open>stepper\<close> says what the loop needs of a task: that the \<^verbatim>\<open>iovec\<close> array holds
  what is left to send and that stepping forward drops exactly the bytes that were taken.
\<close>

section \<open>The writev loop\<close>

datatype send_answer = Taken nat | SendError

text \<open>What the loop tells the connection: \<^verbatim>\<open>waitWritable\<close>, \<^verbatim>\<open>unwaitWritable\<close>, or nothing.\<close>

datatype send_wait = WaitWritable | UnwaitWritable | KeepWait

text \<open>\<open>cnt\<close> is \<^verbatim>\<open>size()\<close>, \<open>vec\<close> the bytes of the \<^verbatim>\<open>iovec\<close> array, \<open>remain\<close> the total the result of
  \<^verbatim>\<open>writev\<close> is compared with, \<open>step\<close> is \<^verbatim>\<open>stepForward\<close>. The result is \<open>None\<close> while the answers run
  out; otherwise the returned value, the call on the connection, the task and the stream.\<close>

fun send_loop ::
  "('t \<Rightarrow> nat) \<Rightarrow> ('t \<Rightarrow> u8 list) \<Rightarrow> ('t \<Rightarrow> nat) \<Rightarrow> (nat \<Rightarrow> 't \<Rightarrow> bool \<times> 't) \<Rightarrow> 't \<Rightarrow> u8 list \<Rightarrow>
     send_answer list \<Rightarrow> (bool \<times> send_wait \<times> 't \<times> u8 list) option" where
  "send_loop cnt vec remain step t out [] =
     (if cnt t = 0 then Some (False, WaitWritable, t, out) else None)"
| "send_loop cnt vec remain step t out (a # as) =
     (if cnt t = 0 then Some (False, WaitWritable, t, out)
      else case a of
        SendError \<Rightarrow> Some (False, WaitWritable, t, out)
      | Taken n \<Rightarrow>
          let sz = min n (length (vec t)); out' = out @ take sz (vec t)
          in if sz = 0 then Some (False, WaitWritable, t, out)
             else if remain t = sz then Some (True, UnwaitWritable, t, out')
             else case step sz t of
                    (True, t') \<Rightarrow> send_loop cnt vec remain step t' out' as
                  | (False, t') \<Rightarrow> Some (True, KeepWait, t', out'))"

text \<open>The contract: a task with an invariant and the bytes it still has to send.\<close>

locale stepper =
  fixes cnt :: "'t \<Rightarrow> nat"
    and vec :: "'t \<Rightarrow> u8 list"
    and remain :: "'t \<Rightarrow> nat"
    and step :: "nat \<Rightarrow> 't \<Rightarrow> bool \<times> 't"
    and inv :: "'t \<Rightarrow> bool"
    and pending :: "'t \<Rightarrow> u8 list"
  assumes vec_pending: "inv t \<Longrightarrow> vec t = pending t"
    and remain_pending: "inv t \<Longrightarrow> remain t = length (pending t)"
    and cnt_pos: "inv t \<Longrightarrow> 0 < cnt t"
    and step_drop: "inv t \<Longrightarrow> 0 < n \<Longrightarrow> n < length (pending t) \<Longrightarrow>
      \<exists>t'. step n t = (True, t') \<and> inv t' \<and> pending t' = drop n (pending t)"
begin

text \<open>However the socket slices the writes, the stream and what is pending always make up the
  same bytes; a loop that returns success has sent everything.\<close>

lemma loop_stream:
  "inv t \<Longrightarrow> send_loop cnt vec remain step t out as = Some (r, w, t', out') \<Longrightarrow>
     (if r then w = UnwaitWritable \<and> out' = out @ pending t
      else w = WaitWritable \<and> inv t' \<and> out' @ pending t' = out @ pending t)"
proof (induction as arbitrary: t out)
  case Nil
  then show ?case using cnt_pos [of t] by (auto split: if_splits)
next
  case (Cons a as)
  have c: "cnt t \<noteq> 0" using cnt_pos Cons.prems(1) by auto
  show ?case
  proof (cases a)
    case SendError
    then show ?thesis using Cons.prems c by auto
  next
    case (Taken n)
    define sz where "sz = min n (length (pending t))"
    have v: "vec t = pending t" "remain t = length (pending t)"
      using vec_pending remain_pending Cons.prems(1) by auto
    consider "sz = 0" | "sz \<noteq> 0" "length (pending t) = sz" | "sz \<noteq> 0" "length (pending t) \<noteq> sz" by blast
    then show ?thesis
    proof cases
      case 1
      then show ?thesis using Cons.prems c Taken v by (auto simp: sz_def Let_def split: if_splits)
    next
      case 2
      then show ?thesis using Cons.prems c Taken v by (auto simp: sz_def [symmetric] Let_def)
    next
      case 3
      then have "0 < sz" "sz < length (pending t)" by (auto simp: sz_def)
      from step_drop [OF Cons.prems(1) this] obtain t1 where
        s: "step sz t = (True, t1)" "inv t1" "pending t1 = drop sz (pending t)" by blast
      have rest: "send_loop cnt vec remain step t1 (out @ take sz (pending t)) as = Some (r, w, t', out')"
        using Cons.prems(2) c Taken v 3 s(1) by (simp add: sz_def [symmetric] Let_def)
      from Cons.IH [OF s(2) rest] s(3) show ?thesis by (simp split: if_splits)
    qed
  qed
qed

text \<open>A socket that takes at least one byte each time finishes the task.\<close>

lemma loop_finishes:
  "inv t \<Longrightarrow> 0 < length (pending t) \<Longrightarrow> length (pending t) \<le> length as \<Longrightarrow>
     \<forall>a \<in> set as. \<exists>n > 0. a = Taken n \<Longrightarrow>
     \<exists>t' out'. send_loop cnt vec remain step t out as = Some (True, UnwaitWritable, t', out')"
proof (induction as arbitrary: t out)
  case (Cons a as)
  have c: "cnt t \<noteq> 0" using cnt_pos Cons.prems(1) by auto
  have v: "vec t = pending t" "remain t = length (pending t)"
    using vec_pending remain_pending Cons.prems(1) by auto
  from Cons.prems(4) obtain n where n: "a = Taken n" "0 < n" by auto
  define sz where "sz = min n (length (pending t))"
  have sz: "0 < sz" using n Cons.prems(2) by (simp add: sz_def)
  show ?case
  proof (cases "length (pending t) = sz")
    case True
    then have "min n (length (pending t)) = length (pending t)" by (simp add: sz_def)
    then show ?thesis using c v n sz True by (simp add: Let_def)
  next
    case False
    then have lt: "sz < length (pending t)" by (auto simp: sz_def)
    from step_drop [OF Cons.prems(1) sz this] obtain t1 where
      s: "step sz t = (True, t1)" "inv t1" "pending t1 = drop sz (pending t)" by blast
    have "0 < length (pending t1)" "length (pending t1) \<le> length as"
      using s(3) lt sz Cons.prems(3) by auto
    from Cons.IH [OF s(2) this] Cons.prems(4) obtain t' out' where
      "send_loop cnt vec remain step t1 (out @ take sz (pending t)) as = Some (True, UnwaitWritable, t', out')"
      by force
    then show ?thesis using c v n sz s(1) False by (simp add: sz_def [symmetric] Let_def)
  qed
qed simp

end

section \<open>Sending response buffers\<close>

record send_task =
  st_cbufs :: "common_buf list"
  st_total_remain :: nat

definition st_push :: "common_buf \<Rightarrow> send_task \<Rightarrow> send_task" where
  "st_push b t = t\<lparr>st_cbufs := st_cbufs t @ [b], st_total_remain := st_total_remain t + cb_getRemain b\<rparr>"

definition SendTask :: "common_buf \<Rightarrow> send_task" where
  "SendTask b = st_push b \<lparr>st_cbufs = [], st_total_remain = 0\<rparr>"

definition st_size :: "send_task \<Rightarrow> nat" where
  "st_size t = length (st_cbufs t)"

text \<open>The loop of \<^verbatim>\<open>stepForward\<close>: whole buffers are dropped, the last one is stepped forward.\<close>

fun st_step :: "common_buf list \<Rightarrow> nat \<Rightarrow> nat \<Rightarrow> common_buf list \<times> nat" where
  "st_step [] tmp tot = ([], tot)"
| "st_step (b # bs) tmp tot =
     (if tmp = 0 then (b # bs, tot)
      else if cb_getRemain b \<le> tmp then st_step bs (tmp - cb_getRemain b) (sub64 tot (cb_getRemain b))
      else (snd (cb_stepForwardOffset tmp b) # bs, sub64 tot tmp))"

definition st_stepForward :: "nat \<Rightarrow> send_task \<Rightarrow> bool \<times> send_task" where
  "st_stepForward n t =
     (if st_cbufs t = [] then (False, t)
      else let (bs, tot) = st_step (st_cbufs t) n (st_total_remain t)
           in (True, t\<lparr>st_cbufs := bs, st_total_remain := tot\<rparr>))"

text \<open>\<^verbatim>\<open>IovecContainer(SendTask *)\<close>: the unread bytes of each buffer and their sum.\<close>

definition cb_unread :: "common_buf \<Rightarrow> u8 list" where
  "cb_unread b = map (cb_bytes b) [cb_offset b..<cb_tail b]"

definition ic_of_SendTask :: "send_task \<Rightarrow> u8 list" where
  "ic_of_SendTask t = concat (map cb_unread (st_cbufs t))"

definition ic_remain_SendTask :: "send_task \<Rightarrow> nat" where
  "ic_remain_SendTask t = sum_list (map cb_getRemain (st_cbufs t))"

text \<open>\<^verbatim>\<open>run\<close> ignores the result of \<^verbatim>\<open>stepForward\<close>.\<close>

definition st_run :: "send_task \<Rightarrow> u8 list \<Rightarrow> send_answer list \<Rightarrow>
    (bool \<times> send_wait \<times> send_task \<times> u8 list) option" where
  "st_run = send_loop st_size ic_of_SendTask ic_remain_SendTask (\<lambda>n t. (True, snd (st_stepForward n t)))"

definition st_inv :: "send_task \<Rightarrow> bool" where
  "st_inv t \<longleftrightarrow> st_cbufs t \<noteq> [] \<and> (\<forall>b \<in> set (st_cbufs t). cb_wf b)"

lemma length_cb_unread [simp]: "length (cb_unread b) = cb_getRemain b"
  by (simp add: cb_unread_def cb_getRemain_def)

lemma length_unread_list: "length (concat (map cb_unread bs)) = sum_list (map cb_getRemain bs)"
  by (induction bs) auto

lemma cb_unread_step:
  "cb_wf b \<Longrightarrow> n \<le> cb_getRemain b \<Longrightarrow> cb_unread (snd (cb_stepForwardOffset n b)) = drop n (cb_unread b) \<and>
     cb_wf (snd (cb_stepForwardOffset n b))"
  by (auto simp: cb_unread_def cb_defs drop_map)

lemma st_step_drop:
  "\<forall>b \<in> set bs. cb_wf b \<Longrightarrow> n < length (concat (map cb_unread bs)) \<Longrightarrow>
     concat (map cb_unread (fst (st_step bs n tot))) = drop n (concat (map cb_unread bs)) \<and>
     fst (st_step bs n tot) \<noteq> [] \<and> (\<forall>b \<in> set (fst (st_step bs n tot)). cb_wf b)"
proof (induction bs arbitrary: n tot)
  case (Cons b bs)
  show ?case
  proof (cases "n = 0 \<or> n < cb_getRemain b")
    case True
    then show ?thesis using Cons.prems cb_unread_step [of b n] by (auto simp: not_le)
  next
    case False
    then have "n - cb_getRemain b < length (concat (map cb_unread bs))" using Cons.prems by auto
    with Cons.IH [OF _ this, of "sub64 tot (cb_getRemain b)"] Cons.prems False show ?thesis by simp
  qed
qed simp

interpretation st: stepper st_size ic_of_SendTask ic_remain_SendTask
  "\<lambda>n t. (True, snd (st_stepForward n t))" st_inv ic_of_SendTask
proof
  fix n t
  assume "st_inv t" "n < length (ic_of_SendTask t)"
  with st_step_drop [of "st_cbufs t" n "st_total_remain t"]
  show "\<exists>t'. (True, snd (st_stepForward n t)) = (True, t') \<and> st_inv t' \<and>
      ic_of_SendTask t' = drop n (ic_of_SendTask t)"
    by (auto simp: st_inv_def ic_of_SendTask_def st_stepForward_def split: prod.splits)
qed (auto simp: st_inv_def ic_of_SendTask_def ic_remain_SendTask_def st_size_def length_unread_list)

section \<open>Sending from the write cache\<close>

record send_cache_task =
  sct_ws :: write_segment
  sct_clba :: nat
  sct_total_remain :: nat
  sct_cur_index :: nat
  sct_offset :: nat

definition sct_size :: "send_cache_task \<Rightarrow> nat" where
  "sct_size t = sub64 (length (ws_cbufs (sct_ws t))) (sct_cur_index t)"

text \<open>The loop of \<^verbatim>\<open>_stepForward\<close> on \<^verbatim>\<open>cur_index\<close>, \<^verbatim>\<open>offset\<close> and \<^verbatim>\<open>tmp\<close>; the result is the returned
  value and the two members.\<close>

function sct_step :: "common_buf list \<Rightarrow> nat \<Rightarrow> nat \<Rightarrow> nat \<Rightarrow> nat \<Rightarrow> nat \<Rightarrow> bool \<times> nat \<times> nat" where
  "sct_step bs ds tot idx off tmp =
     (if tmp = 0 then (True, idx, off)
      else if length bs \<le> idx then (False, idx, off)
      else let remain = min tot (sub64 (sub64 (cb_size (bs ! idx)) off) (if idx = 0 then ds else 0))
           in if remain \<le> tmp then sct_step bs ds tot (Suc idx) 0 (tmp - remain)
              else (True, idx, off + tmp))"
  by pat_completeness auto
termination by (relation "measure (\<lambda>(bs, ds, tot, idx, off, tmp). length bs - idx)") auto

declare sct_step.simps [simp del]

definition sct__stepForward :: "nat \<Rightarrow> send_cache_task \<Rightarrow> bool \<times> send_cache_task" where
  "sct__stepForward n t =
     (let (ok, idx, off) = sct_step (ws_cbufs (sct_ws t)) (ws_ds_offset (sct_ws t)) (sct_total_remain t)
                             (sct_cur_index t) (sct_offset t) n
      in (ok, t\<lparr>sct_cur_index := idx, sct_offset := off\<rparr>))"

definition SendCacheTask :: "write_segment \<Rightarrow> nat \<Rightarrow> nat \<Rightarrow> send_cache_task" where
  "SendCacheTask ws lba n =
     (let t = \<lparr>sct_ws = ws, sct_clba = lba, sct_total_remain = LBA2OFFSET n, sct_cur_index = 0,
               sct_offset = 0\<rparr>
      in if ws_lba ws < lba
         then let skip = LBA2OFFSET (lba - ws_lba ws);
                  t1 = t\<lparr>sct_total_remain := add64 (sct_total_remain t) skip\<rparr>;
                  t2 = snd (sct__stepForward skip t1)
              in t2\<lparr>sct_total_remain := sub64 (sct_total_remain t2) skip\<rparr>
         else t)"

definition sct_stepForward :: "nat \<Rightarrow> send_cache_task \<Rightarrow> bool \<times> send_cache_task" where
  "sct_stepForward n t =
     (if sct_size t = 0 then (False, t)
      else if n > sct_total_remain t then (False, t)
      else let (ok, t') = sct__stepForward n t
           in if \<not> ok then (False, t')
              else (True, t'\<lparr>sct_total_remain := sct_total_remain t' - n\<rparr>))"

text \<open>\<^verbatim>\<open>begin\<close> and \<^verbatim>\<open>IovecContainer(SendCacheTask *)\<close>: the buffers from \<^verbatim>\<open>cur_index\<close> on, the first from the
  offset, cut to what remains.\<close>

definition sct_begin :: "send_cache_task \<Rightarrow> nat \<times> common_buf list" where
  "sct_begin t =
     ((if sct_cur_index t = 0 then sct_offset t + ws_ds_offset (sct_ws t) else sct_offset t),
      drop (sct_cur_index t) (ws_cbufs (sct_ws t)))"

fun iov_cells :: "nat \<Rightarrow> nat \<Rightarrow> nat \<Rightarrow> common_buf list \<Rightarrow> u8 list" where
  "iov_cells tot remain off [] = []"
| "iov_cells tot remain off (b # bs) =
     (let n = min (sub64 tot remain) (sub64 (cb_size b) off)
      in map (cb_bytes b) [off..<off + n] @ iov_cells tot (remain + n) 0 bs)"

definition ic_of_SendCacheTask :: "send_cache_task \<Rightarrow> u8 list" where
  "ic_of_SendCacheTask t = (let (off, bs) = sct_begin t in iov_cells (sct_total_remain t) 0 off bs)"

definition sct_run :: "send_cache_task \<Rightarrow> u8 list \<Rightarrow> send_answer list \<Rightarrow>
    (bool \<times> send_wait \<times> send_cache_task \<times> u8 list) option" where
  "sct_run = send_loop sct_size ic_of_SendCacheTask sct_total_remain sct_stepForward"

subsection \<open>The cache task as a stepper\<close>

lemma bufs_ok_drop: "bufs_ok 0 bs \<Longrightarrow> bufs_ok 0 (drop k bs)"
proof (induction bs arbitrary: k)
  case (Cons b bs)
  then show ?case by (cases k) auto
qed simp

lemma iov_cells_eq:
  "bufs_ok off bs \<Longrightarrow> r \<le> tot \<Longrightarrow> tot < 2 ^ 64 \<Longrightarrow> iov_cells tot r off bs = take (tot - r) (ws_pieces off bs)"
proof (induction bs arbitrary: off r)
  case (Cons b bs)
  define z where "z = cb_size b - off"
  define n where "n = min (tot - r) z"
  have z: "sub64 (cb_size b) off = z" using Cons.prems(1) by (simp add: z_def)
  have m: "min (sub64 tot r) (sub64 (cb_size b) off) = n" using Cons.prems(2,3) z by (simp add: n_def)
  have "iov_cells tot (r + n) 0 bs = take (tot - (r + n)) (ws_pieces 0 bs)"
    by (rule Cons.IH) (use Cons.prems in \<open>auto simp: n_def\<close>)
  moreover have "take (tot - r) (map (cb_bytes b) [off..<cb_size b]) = map (cb_bytes b) [off..<off + n]"
    using Cons.prems(1) by (auto simp: n_def z_def min_def take_map)
  moreover have "tot - (r + n) = tot - r - (cb_size b - off)" by (auto simp: n_def z_def)
  ultimately show ?case by (simp add: m Let_def)
qed simp

text \<open>The bytes from a position on, and the position's invariant.\<close>

definition sct_off :: "nat \<Rightarrow> nat \<Rightarrow> nat \<Rightarrow> nat" where
  "sct_off ds idx off = (if idx = 0 then off + ds else off)"

lemma sct_step_drop:
  "bufs_ok (sct_off ds idx off) (drop idx bs) \<Longrightarrow> tmp < tot \<Longrightarrow>
     tmp \<le> length (ws_pieces (sct_off ds idx off) (drop idx bs)) \<Longrightarrow>
     \<exists>idx' off'. sct_step bs ds tot idx off tmp = (True, idx', off') \<and>
       bufs_ok (sct_off ds idx' off') (drop idx' bs) \<and>
       ws_pieces (sct_off ds idx' off') (drop idx' bs) =
         drop tmp (ws_pieces (sct_off ds idx off) (drop idx bs))"
proof (induction "length bs - idx" arbitrary: idx off tmp rule: less_induct)
  case less
  show ?case
  proof (cases "tmp = 0")
    case True
    then show ?thesis using less.prems by (simp add: sct_step.simps)
  next
    case False
    then have i: "idx < length bs" using less.prems(3) by (cases "idx < length bs") auto
    define o' where "o' = sct_off ds idx off"
    define z where "z = cb_size (bs ! idx) - o'"
    have d: "drop idx bs = bs ! idx # drop (Suc idx) bs" using i by (simp add: Cons_nth_drop_Suc)
    have ok: "o' \<le> cb_size (bs ! idx)" "cb_size (bs ! idx) < 2 ^ 64" "bufs_ok 0 (drop (Suc idx) bs)"
      using less.prems(1) unfolding d o'_def by auto
    have "sub64 (sub64 (cb_size (bs ! idx)) off) (if idx = 0 then ds else 0) = z"
      using ok(1,2) by (auto simp: z_def o'_def sct_off_def)
    then have unf: "sct_step bs ds tot idx off tmp =
        (if min tot z \<le> tmp then sct_step bs ds tot (Suc idx) 0 (tmp - min tot z)
         else (True, idx, off + tmp))"
      using False i by (subst sct_step.simps) (simp add: Let_def)
    have p: "ws_pieces o' (drop idx bs) = map (cb_bytes (bs ! idx)) [o'..<cb_size (bs ! idx)] @
        ws_pieces 0 (drop (Suc idx) bs)" unfolding d by simp
    show ?thesis
    proof (cases "min tot z \<le> tmp")
      case True
      then have z: "min tot z = z" using less.prems(2) by auto
      have s: "sct_off ds (Suc idx) 0 = 0" by (simp add: sct_off_def)
      have len: "tmp - z \<le> length (ws_pieces 0 (drop (Suc idx) bs))"
        using less.prems(3) unfolding o'_def [symmetric] p by (auto simp: z_def)
      have "length bs - Suc idx < length bs - idx" using i by simp
      from less.hyps [OF this, of 0 "tmp - z"] len ok(3) le_less_trans [OF diff_le_self less.prems(2)]
      obtain idx' off' where
        "sct_step bs ds tot (Suc idx) 0 (tmp - z) = (True, idx', off')"
        "bufs_ok (sct_off ds idx' off') (drop idx' bs)"
        "ws_pieces (sct_off ds idx' off') (drop idx' bs) = drop (tmp - z) (ws_pieces 0 (drop (Suc idx) bs))"
        unfolding s by auto
      moreover have "drop tmp (ws_pieces o' (drop idx bs)) = drop (tmp - z) (ws_pieces 0 (drop (Suc idx) bs))"
        unfolding p using True z by (auto simp: z_def)
      ultimately show ?thesis using unf True z by (auto simp: o'_def)
    next
      case f: False
      then have t: "tmp < z" by auto
      have o2: "sct_off ds idx (off + tmp) = o' + tmp" by (simp add: sct_off_def o'_def)
      have "drop tmp (ws_pieces o' (drop idx bs)) = ws_pieces (o' + tmp) (drop idx bs)"
        unfolding p using t d by (simp add: z_def drop_map)
      moreover have "bufs_ok (o' + tmp) (drop idx bs)" unfolding d using ok t by (simp add: z_def)
      ultimately show ?thesis using unf f o2 by (simp add: o'_def)
    qed
  qed
qed

definition sct_rest :: "send_cache_task \<Rightarrow> u8 list" where
  "sct_rest t = ws_pieces (sct_off (ws_ds_offset (sct_ws t)) (sct_cur_index t) (sct_offset t))
     (drop (sct_cur_index t) (ws_cbufs (sct_ws t)))"

definition sct_inv :: "send_cache_task \<Rightarrow> bool" where
  "sct_inv t \<longleftrightarrow> bufs_ok (sct_off (ws_ds_offset (sct_ws t)) (sct_cur_index t) (sct_offset t))
       (drop (sct_cur_index t) (ws_cbufs (sct_ws t))) \<and>
     0 < sct_total_remain t \<and> sct_total_remain t \<le> length (sct_rest t) \<and> sct_total_remain t < 2 ^ 64 \<and>
     length (ws_cbufs (sct_ws t)) < 2 ^ 64"

definition sct_pending :: "send_cache_task \<Rightarrow> u8 list" where
  "sct_pending t = take (sct_total_remain t) (sct_rest t)"

lemma sct_index: "sct_inv t \<Longrightarrow> sct_cur_index t < length (ws_cbufs (sct_ws t))"
  by (rule ccontr) (auto simp: sct_inv_def sct_rest_def)

lemma sct_size_pos: "sct_inv t \<Longrightarrow> 0 < sct_size t"
  using sct_index [of t] by (simp add: sct_size_def sct_inv_def)

lemma sct__step_rest:
  assumes "bufs_ok (sct_off (ws_ds_offset (sct_ws t)) (sct_cur_index t) (sct_offset t))
       (drop (sct_cur_index t) (ws_cbufs (sct_ws t)))"
    and "n < sct_total_remain t" and "n \<le> length (sct_rest t)"
  shows "\<exists>t'. sct__stepForward n t = (True, t') \<and> sct_rest t' = drop n (sct_rest t) \<and>
    sct_ws t' = sct_ws t \<and> sct_total_remain t' = sct_total_remain t \<and> sct_clba t' = sct_clba t \<and>
    bufs_ok (sct_off (ws_ds_offset (sct_ws t')) (sct_cur_index t') (sct_offset t'))
       (drop (sct_cur_index t') (ws_cbufs (sct_ws t')))"
  using sct_step_drop [OF assms(1,2)] assms(3)
  by (auto simp: sct__stepForward_def sct_rest_def)

interpretation sct: stepper sct_size ic_of_SendCacheTask sct_total_remain sct_stepForward sct_inv sct_pending
proof
  fix t n
  assume i: "sct_inv t" and n: "0 < n" "n < length (sct_pending t)"
  then have lt: "n < sct_total_remain t" "n \<le> length (sct_rest t)" by (auto simp: sct_pending_def)
  from sct__step_rest [OF _ this] i obtain t1 where
    t1: "sct__stepForward n t = (True, t1)" "sct_rest t1 = drop n (sct_rest t)" "sct_ws t1 = sct_ws t"
    "sct_total_remain t1 = sct_total_remain t"
    "bufs_ok (sct_off (ws_ds_offset (sct_ws t1)) (sct_cur_index t1) (sct_offset t1))
       (drop (sct_cur_index t1) (ws_cbufs (sct_ws t1)))" by (auto simp: sct_inv_def)
  let ?t = "t1\<lparr>sct_total_remain := sct_total_remain t1 - n\<rparr>"
  have "sct_stepForward n t = (True, ?t)"
    using t1(1) lt sct_size_pos [OF i] by (simp add: sct_stepForward_def)
  moreover have r: "sct_rest ?t = sct_rest t1" by (simp add: sct_rest_def)
  moreover have "sct_inv ?t"
    using i lt t1 unfolding sct_inv_def r by (auto simp: sct_inv_def)
  moreover have "sct_pending ?t = drop n (sct_pending t)"
    unfolding sct_pending_def r using t1 by (simp add: drop_take)
  ultimately show "\<exists>t'. sct_stepForward n t = (True, t') \<and> sct_inv t' \<and> sct_pending t' = drop n (sct_pending t)"
    by blast
next
  fix t
  assume i: "sct_inv t"
  then show "ic_of_SendCacheTask t = sct_pending t"
    using iov_cells_eq [of "sct_off (ws_ds_offset (sct_ws t)) (sct_cur_index t) (sct_offset t)"
        "drop (sct_cur_index t) (ws_cbufs (sct_ws t))" 0 "sct_total_remain t"]
    by (simp add: ic_of_SendCacheTask_def sct_begin_def sct_pending_def sct_rest_def sct_inv_def sct_off_def)
  show "sct_total_remain t = length (sct_pending t)" using i by (simp add: sct_inv_def sct_pending_def)
  show "0 < sct_size t" by (rule sct_size_pos [OF i])
qed

text \<open>The task made for \<open>n\<close> blocks at \<open>lba\<close> of a segment that has received its data.\<close>

lemma SendCacheTask_ready:
  assumes s: "bufs_ok (ws_ds_offset ws) (ws_cbufs ws)" "length (ws_cbufs ws) < 2 ^ 64"
    and lba: "ws_lba ws \<le> lba" "0 < n"
    and len: "LBA2OFFSET (lba - ws_lba ws + n) \<le> length (ws_pieces (ws_ds_offset ws) (ws_cbufs ws))"
    and small: "LBA2OFFSET (lba - ws_lba ws + n) < 2 ^ 64"
  shows "sct_inv (SendCacheTask ws lba n) \<and> sct_pending (SendCacheTask ws lba n) =
    take (LBA2OFFSET n) (drop (LBA2OFFSET (lba - ws_lba ws)) (ws_pieces (ws_ds_offset ws) (ws_cbufs ws)))"
proof (cases "ws_lba ws < lba")
  case False
  then have "lba = ws_lba ws" using lba by simp
  then show ?thesis using assms
    by (simp add: SendCacheTask_def sct_inv_def sct_pending_def sct_rest_def sct_off_def LBA2OFFSET_eq)
next
  case True
  define skip where "skip = LBA2OFFSET (lba - ws_lba ws)"
  let ?t = "\<lparr>sct_ws = ws, sct_clba = lba, sct_total_remain = LBA2OFFSET n + skip, sct_cur_index = 0,
               sct_offset = 0\<rparr>"
  have sm: "LBA2OFFSET n + skip < 2 ^ 64" and ln: "LBA2OFFSET n + skip \<le> length (ws_pieces (ws_ds_offset ws) (ws_cbufs ws))"
    using small len by (simp_all add: skip_def LBA2OFFSET_add add.commute)
  have pos: "0 < LBA2OFFSET n" using lba(2) by (simp add: LBA2OFFSET_eq)
  have r: "sct_rest ?t = ws_pieces (ws_ds_offset ws) (ws_cbufs ws)" by (simp add: sct_rest_def sct_off_def)
  have "bufs_ok (sct_off (ws_ds_offset (sct_ws ?t)) (sct_cur_index ?t) (sct_offset ?t))
       (drop (sct_cur_index ?t) (ws_cbufs (sct_ws ?t)))" using s by (simp add: sct_off_def)
  moreover have "skip < sct_total_remain ?t" "skip \<le> length (sct_rest ?t)" using pos ln r by auto
  ultimately obtain t2 where t2: "sct__stepForward skip ?t = (True, t2)"
    "sct_rest t2 = drop skip (sct_rest ?t)" "sct_ws t2 = ws" "sct_total_remain t2 = LBA2OFFSET n + skip"
    "bufs_ok (sct_off (ws_ds_offset (sct_ws t2)) (sct_cur_index t2) (sct_offset t2))
       (drop (sct_cur_index t2) (ws_cbufs (sct_ws t2)))"
    using sct__step_rest [of ?t skip] by auto
  let ?u = "t2\<lparr>sct_total_remain := LBA2OFFSET n\<rparr>"
  have "add64 (LBA2OFFSET n) skip = LBA2OFFSET n + skip" "sub64 (LBA2OFFSET n + skip) skip = LBA2OFFSET n"
    using sm by simp_all
  then have u: "SendCacheTask ws lba n = ?u"
    using True t2(1,4) by (simp add: SendCacheTask_def skip_def [symmetric] Let_def)
  have ru: "sct_rest ?u = drop skip (ws_pieces (ws_ds_offset ws) (ws_cbufs ws))"
    using t2(2) r by (simp add: sct_rest_def)
  have "sct_inv ?u" using t2(3,5) s(2) pos sm ln unfolding sct_inv_def ru by auto
  then show ?thesis unfolding u sct_pending_def ru by (simp add: skip_def)
qed

section \<open>Sending from the files\<close>

record sendfile_task =
  sf_lv :: logical_volume
  sf_offset :: nat
  sf_remain :: nat

definition SendfileTask :: "logical_volume \<Rightarrow> nat \<Rightarrow> nat \<Rightarrow> sendfile_task" where
  "SendfileTask lv lba n = \<lparr>sf_lv = lv, sf_offset = LBA2OFFSET lba, sf_remain = LBA2OFFSET n\<rparr>"

text \<open>The \<^verbatim>\<open>for\<close> loop over the handles: \<open>False\<close> is \<^verbatim>\<open>goto try_again\<close>, after an error or a short
  \<^verbatim>\<open>sendfile64\<close>.\<close>

fun sf_handles ::
  "files \<Rightarrow> low_handle list \<Rightarrow> sendfile_task \<Rightarrow> u8 list \<Rightarrow> send_answer list \<Rightarrow>
     (bool \<times> sendfile_task \<times> u8 list) option" where
  "sf_handles fs [] t out as = Some (True, t, out)"
| "sf_handles fs (h # hs) t out [] = None"
| "sf_handles fs (h # hs) t out (SendError # as) = Some (False, t, out)"
| "sf_handles fs (h # hs) t out (Taken n # as) =
     (let sz = min n (lh_length h);
          t' = t\<lparr>sf_offset := sf_offset t + sz, sf_remain := sub64 (sf_remain t) sz\<rparr>;
          out' = out @ map (fs (lh_fd h)) [lh_offset h..<lh_offset h + sz]
      in if lh_length h \<noteq> sz then Some (False, t', out') else sf_handles fs hs t' out' as)"

definition sf_run ::
  "(string \<Rightarrow> bool \<Rightarrow> int) \<Rightarrow> files \<Rightarrow> sendfile_task \<Rightarrow> u8 list \<Rightarrow> send_answer list \<Rightarrow>
     (bool \<times> send_wait \<times> sendfile_task \<times> u8 list) option" where
  "sf_run opener fs t out as =
     (if sf_remain t > 0
      then case sf_handles fs (lv_getLowHandles opener (sf_lv t) (sf_offset t) (sf_remain t) True) t out as of
             None \<Rightarrow> None
           | Some (True, t', out') \<Rightarrow> Some (True, UnwaitWritable, t', out')
           | Some (False, t', out') \<Rightarrow> Some (False, WaitWritable, t', out')
      else Some (False, WaitWritable, t, out))"

definition vol_read :: "(string \<Rightarrow> bool \<Rightarrow> int) \<Rightarrow> logical_volume \<Rightarrow> files \<Rightarrow> nat \<Rightarrow> u8" where
  "vol_read opener lv fs i =
     (case locate (\<lambda>p. opener p True) (va_volumes (lv_original lv)) i of
        Some (fd, p) \<Rightarrow> fs fd p | None \<Rightarrow> 0)"

definition handles_bytes :: "files \<Rightarrow> low_handle list \<Rightarrow> u8 list" where
  "handles_bytes fs hs = concat (map (\<lambda>h. map (fs (lh_fd h)) [lh_offset h..<lh_offset h + lh_length h]) hs)"

lemma length_handles_bytes: "length (handles_bytes fs hs) = sum_list (map lh_length hs)"
  by (induction hs) (auto simp: handles_bytes_def)

lemma handles_bytes_nth:
  "k < sum_list (map lh_length hs) \<Longrightarrow>
     handles_bytes fs hs ! k = (case handles_loc hs k of Some (fd, p) \<Rightarrow> fs fd p | None \<Rightarrow> 0)"
proof (induction hs arbitrary: k)
  case (Cons h hs)
  have eq: "handles_bytes fs (h # hs) =
      map (fs (lh_fd h)) [lh_offset h..<lh_offset h + lh_length h] @ handles_bytes fs hs"
    by (simp add: handles_bytes_def)
  show ?case
  proof (cases "k < lh_length h")
    case True
    then show ?thesis unfolding eq by (simp add: nth_append)
  next
    case False
    then show ?thesis unfolding eq using Cons.IH [of "k - lh_length h"] Cons.prems
      by (simp add: nth_append)
  qed
qed simp

lemma sf_handles_stream:
  "sf_handles fs hs t out as = Some (r, t', out') \<Longrightarrow> sum_list (map lh_length hs) \<le> sf_remain t \<Longrightarrow>
     sf_remain t < 2 ^ 64 \<Longrightarrow>
     \<exists>m. m \<le> sum_list (map lh_length hs) \<and> out' = out @ take m (handles_bytes fs hs) \<and>
       sf_lv t' = sf_lv t \<and> sf_offset t' = sf_offset t + m \<and> sf_remain t' = sf_remain t - m \<and>
       (r \<longrightarrow> m = sum_list (map lh_length hs))"
proof (induction fs hs t out as rule: sf_handles.induct)
  case (4 fs h hs t out n as)
  define sz where "sz = min n (lh_length h)"
  let ?t = "t\<lparr>sf_offset := sf_offset t + sz, sf_remain := sub64 (sf_remain t) sz\<rparr>"
  have sub: "sub64 (sf_remain t) sz = sf_remain t - sz" using 4(3,4) by (auto simp: sz_def)
  have unf: "(if lh_length h \<noteq> sz then Some (False, ?t, out @ map (fs (lh_fd h)) [lh_offset h..<lh_offset h + sz])
      else sf_handles fs hs ?t (out @ map (fs (lh_fd h)) [lh_offset h..<lh_offset h + sz]) as) =
      Some (r, t', out')"
    using 4(2) unfolding sf_handles.simps Let_def sz_def .
  have eq: "handles_bytes fs (h # hs) =
      map (fs (lh_fd h)) [lh_offset h..<lh_offset h + lh_length h] @ handles_bytes fs hs"
    by (simp add: handles_bytes_def)
  have tk: "take sz (handles_bytes fs (h # hs)) = map (fs (lh_fd h)) [lh_offset h..<lh_offset h + sz]"
    unfolding eq by (auto simp: sz_def take_map min_def)
  show ?case
  proof (cases "lh_length h = sz")
    case False
    have "sz \<le> lh_length h" by (simp add: sz_def)
    moreover have "\<not> r" "t' = ?t" "out' = out @ take sz (handles_bytes fs (h # hs))"
      using unf False unfolding tk by auto
    ultimately show ?thesis using sub by (intro exI [of _ sz]) simp
  next
    case True
    then have rest: "sf_handles fs hs ?t (out @ map (fs (lh_fd h)) [lh_offset h..<lh_offset h + sz]) as =
        Some (r, t', out')" using unf by simp
    have "sum_list (map lh_length hs) \<le> sf_remain ?t" "sf_remain ?t < 2 ^ 64" using 4(3,4) True sub by auto
    from 4(1) [OF sz_def refl refl _ _ this] rest True obtain m where
      m: "m \<le> sum_list (map lh_length hs)"
      "out' = (out @ map (fs (lh_fd h)) [lh_offset h..<lh_offset h + sz]) @ take m (handles_bytes fs hs)"
      "sf_lv t' = sf_lv t" "sf_offset t' = sf_offset t + sz + m" "sf_remain t' = sf_remain t - sz - m"
      "r \<longrightarrow> m = sum_list (map lh_length hs)" using sub by auto
    then show ?thesis using True unfolding eq
      by (intro exI [of _ "sz + m"]) auto
  qed
qed auto

section \<open>Properties\<close>

text \<open>C39. Sending blocks out of a cached segment: whatever sizes the socket accepts, the stream
  followed by what the task still has to send is always the stream so far followed by the bytes of
  the requested blocks; success means that exactly these bytes were sent.\<close>

theorem sct_run_stream:
  assumes "bufs_ok (ws_ds_offset ws) (ws_cbufs ws)" and "length (ws_cbufs ws) < 2 ^ 64"
    and "ws_lba ws \<le> lba" and "0 < n"
    and "LBA2OFFSET (lba - ws_lba ws + n) \<le> length (ws_pieces (ws_ds_offset ws) (ws_cbufs ws))"
    and "LBA2OFFSET (lba - ws_lba ws + n) < 2 ^ 64"
    and "sct_run (SendCacheTask ws lba n) out as = Some (r, w, t', out')"
  shows "let blocks = take (LBA2OFFSET n) (drop (LBA2OFFSET (lba - ws_lba ws))
                        (ws_pieces (ws_ds_offset ws) (ws_cbufs ws)))
    in if r then w = UnwaitWritable \<and> out' = out @ blocks
       else w = WaitWritable \<and> sct_inv t' \<and> out' @ sct_pending t' = out @ blocks"
  using SendCacheTask_ready [OF assms(1-6)]
    sct.loop_stream [of "SendCacheTask ws lba n" out as r w t' out'] assms(7)
  by (simp add: sct_run_def Let_def)

text \<open>Sending response buffers: no byte is lost, repeated or reordered by partial writes, and a
  socket that takes at least one byte each time finishes the task.\<close>

theorem st_run_stream:
  assumes "st_inv t" and "0 < length (ic_of_SendTask t)"
  shows "(st_run t out as = Some (r, w, t', out') \<longrightarrow>
      (if r then w = UnwaitWritable \<and> out' = out @ ic_of_SendTask t
       else w = WaitWritable \<and> st_inv t' \<and> out' @ ic_of_SendTask t' = out @ ic_of_SendTask t)) \<and>
    (length (ic_of_SendTask t) \<le> length as \<and> (\<forall>a \<in> set as. \<exists>n > 0. a = Taken n) \<longrightarrow>
      (\<exists>t' out'. st_run t out as = Some (True, UnwaitWritable, t', out')))"
  using st.loop_stream [OF assms(1)] st.loop_finishes [OF assms] unfolding st_run_def by blast

text \<open>Sending blocks from the files: the stream grows by a prefix of the volume's bytes from the
  task's offset on, the task advances by exactly that prefix, and success means that the whole
  range was sent.\<close>

theorem sf_run_stream:
  assumes "0 < sf_remain t" and "sf_remain t < 2 ^ 64"
    and "sf_offset t + sf_remain t \<le> va_bytes (va_volumes (lv_original (sf_lv t)))"
    and "sf_run opener fs t out as = Some (r, w, t', out')"
  shows "\<exists>m \<le> sf_remain t.
    out' = out @ map (vol_read opener (sf_lv t) fs) [sf_offset t..<sf_offset t + m] \<and>
    sf_offset t' = sf_offset t + m \<and> sf_remain t' = sf_remain t - m \<and> (r \<longrightarrow> m = sf_remain t)"
proof -
  let ?hs = "lv_getLowHandles opener (sf_lv t) (sf_offset t) (sf_remain t) True"
  have h: "sum_list (map lh_length ?hs) = sf_remain t"
    "\<forall>k < sf_remain t. handles_loc ?hs k =
       locate (\<lambda>p. opener p True) (va_volumes (lv_original (sf_lv t))) (sf_offset t + k)"
    using low_handles_correct [OF assms(1,3), of opener True]
    by (simp_all add: lv_getLowHandles_def getLowHandles_def)
  have "handles_bytes fs ?hs = map (vol_read opener (sf_lv t) fs) [sf_offset t..<sf_offset t + sf_remain t]"
    by (rule nth_equalityI) (use h in \<open>auto simp: length_handles_bytes handles_bytes_nth vol_read_def\<close>)
  moreover obtain r' where "sf_handles fs ?hs t out as = Some (r', t', out')" "r' = r"
    using assms(1,4) by (auto simp: sf_run_def split: option.splits bool.splits)
  ultimately show ?thesis
    using sf_handles_stream [of fs ?hs t out as r t' out'] h(1) assms(2)
    by (auto simp: take_map)
qed

subsection \<open>Witnesses\<close>

definition ex_out :: common_buf where
  "ex_out = \<lparr>cb_bytes = (\<lambda>_. 7), cb_size = 512, cb_offset = 0, cb_tail = 512\<rparr>"

theorem sct_run_stream_witness:
  "\<exists>w t'. sct_run (SendCacheTask ex_seg 1 1) [1] (replicate 512 (Taken 1)) =
     Some (True, w, t', [1] @ replicate 512 7)"
proof -
  have b: "bufs_ok (ws_ds_offset ex_seg) (ws_cbufs ex_seg)" "length (ws_cbufs ex_seg) < 2 ^ 64"
    "ws_lba ex_seg \<le> 1" "0 < (1::nat)"
    "LBA2OFFSET (1 - ws_lba ex_seg + 1) \<le> length (ws_pieces (ws_ds_offset ex_seg) (ws_cbufs ex_seg))"
    "LBA2OFFSET (1 - ws_lba ex_seg + 1) < 2 ^ 64"
    by (simp_all add: ex_seg_def WriteSegment_def LBA2OFFSET_eq)
  have p: "take (LBA2OFFSET 1) (drop (LBA2OFFSET (1 - ws_lba ex_seg))
      (ws_pieces (ws_ds_offset ex_seg) (ws_cbufs ex_seg))) = replicate 512 7"
    by (simp add: ex_seg_def WriteSegment_def LBA2OFFSET_eq map_replicate_const)
  have "sct_inv (SendCacheTask ex_seg 1 1)" "sct_pending (SendCacheTask ex_seg 1 1) = replicate 512 7"
    using SendCacheTask_ready [OF b] p by auto
  with sct.loop_finishes [of "SendCacheTask ex_seg 1 1" "replicate 512 (Taken 1)" "[1]"]
  obtain t' out' where r: "sct_run (SendCacheTask ex_seg 1 1) [1] (replicate 512 (Taken 1)) =
    Some (True, UnwaitWritable, t', out')" by (auto simp: sct_run_def)
  from sct_run_stream [OF b r] have "out' = [1] @ replicate 512 7" unfolding p by simp
  with r show ?thesis by blast
qed

theorem st_run_stream_witness:
  "\<exists>t' out'. st_run (SendTask ex_out) [] (replicate 512 (Taken 1)) = Some (True, UnwaitWritable, t', out')"
proof -
  have c: "st_cbufs (SendTask ex_out) = [ex_out]" by (simp add: SendTask_def st_push_def)
  have "st_inv (SendTask ex_out)" by (simp add: st_inv_def c) (simp add: ex_out_def cb_wf_def)
  moreover have l: "length (ic_of_SendTask (SendTask ex_out)) = 512"
    by (simp add: ic_of_SendTask_def c) (simp add: ex_out_def cb_getRemain_def)
  ultimately show ?thesis
    using st_run_stream [of "SendTask ex_out" "[]" "replicate 512 (Taken 1)"] by simp
qed

theorem sf_run_stream_witness:
  "\<exists>out'. sf_run ex_open (\<lambda>_ _. 5) (SendfileTask ex_lv 1 1) [] [Taken 512] =
     Some (True, UnwaitWritable, (SendfileTask ex_lv 1 1)\<lparr>sf_offset := 1024, sf_remain := 0\<rparr>, out') \<and>
     length out' = 512"
proof -
  let ?t = "SendfileTask ex_lv 1 1"
  have r: "\<exists>out'. sf_run ex_open (\<lambda>_ _. 5) ?t [] [Taken 512] =
      Some (True, UnwaitWritable, ?t\<lparr>sf_offset := 1024, sf_remain := 0\<rparr>, out')"
    by (simp add: sf_run_def SendfileTask_def lv_getLowHandles_def getLowHandles_def getCoverage_def
        LowHandle_def ex_defs del: upt_rec_numeral)
  then obtain out' where r': "sf_run ex_open (\<lambda>_ _. 5) ?t [] [Taken 512] =
      Some (True, UnwaitWritable, ?t\<lparr>sf_offset := 1024, sf_remain := 0\<rparr>, out')" by blast
  have "0 < sf_remain ?t" "sf_remain ?t < 2 ^ 64"
    "sf_offset ?t + sf_remain ?t \<le> va_bytes (va_volumes (lv_original (sf_lv ?t)))"
    by (simp_all add: SendfileTask_def va_bytes_def ex_defs)
  from sf_run_stream [OF this r'] have "length out' = 512"
    by (auto simp: SendfileTask_def LBA2OFFSET_eq)
  with r' show ?thesis by blast
qed

text \<open>The copy that a split makes of a segment starts at \<^verbatim>\<open>ds_offset\<close> 0 of the first buffer: a
  READ that is answered from the copy sends the bytes in front of the data, here the header bytes
  1 instead of the block's bytes 2.\<close>

theorem copy_sends_shifted_bytes:
  "let s = (WriteSegment 0 1)\<lparr>ws_cbufs := [\<lparr>cb_bytes = (\<lambda>i. if i < 48 then 1 else 2), cb_size = 560,
               cb_offset = 0, cb_tail = 560\<rparr>], ws_ds_offset := 48\<rparr>
   in hd (ic_of_SendCacheTask (SendCacheTask s 0 1)) = 2 \<and>
      hd (ic_of_SendCacheTask (SendCacheTask (WriteSegment_copy s) 0 1)) = 1"
  by (simp add: WriteSegment_def WriteSegment_copy_def SendCacheTask_def ic_of_SendCacheTask_def
      sct_begin_def LBA2OFFSET_eq Let_def upt_conv_Cons del: upt_rec_numeral)

end
