(* ===== verification/ByteOrder.thy ===== *)
theory ByteOrder
  imports Prelude
begin

text \<open>
  Integers in memory: the program is built for a little-endian host, so a \<^verbatim>\<open>uint32_t\<close> member of a
  header struct is loaded and stored low byte first, and \<^verbatim>\<open>htonl\<close> and \<^verbatim>\<open>ntohl\<close> reverse the bytes.
  Also the 24-bit length macros \<^verbatim>\<open>ntoh24\<close> and \<^verbatim>\<open>hton24\<close> of \<^verbatim>\<open>include/iscsi/iscsi.h\<close>.
\<close>

section \<open>Loads and stores\<close>

definition st16 :: "u16 \<Rightarrow> u8 list" where
  "st16 w = [ucast w, ucast (drop_bit 8 w)]"

definition ld16 :: "u8 list \<Rightarrow> u16" where
  "ld16 bs = ucast (bs ! 0) OR push_bit 8 (ucast (bs ! 1))"

definition st32 :: "u32 \<Rightarrow> u8 list" where
  "st32 w = [ucast w, ucast (drop_bit 8 w), ucast (drop_bit 16 w), ucast (drop_bit 24 w)]"

definition ld32 :: "u8 list \<Rightarrow> u32" where
  "ld32 bs = ucast (bs ! 0) OR push_bit 8 (ucast (bs ! 1)) OR push_bit 16 (ucast (bs ! 2)) OR
     push_bit 24 (ucast (bs ! 3))"

definition htonl :: "u32 \<Rightarrow> u32" where
  "htonl w = ld32 (rev (st32 w))"

definition ntohl :: "u32 \<Rightarrow> u32" where
  "ntohl = htonl"

definition htons :: "u16 \<Rightarrow> u16" where
  "htons w = ld16 (rev (st16 w))"

definition ntohs :: "u16 \<Rightarrow> u16" where
  "ntohs = htons"

lemma length_st16 [simp]: "length (st16 w) = 2"
  by (simp add: st16_def)

lemma length_st32 [simp]: "length (st32 w) = 4"
  by (simp add: st32_def)

lemma ld16_st16 [simp]: "ld16 (st16 w @ bs) = w"
  by (rule bit_word_eqI) (auto simp: ld16_def st16_def bit_simps)

lemma bit_u8_less [dest]: "bit (a :: u8) n \<Longrightarrow> n < 8"
  using bit_imp_le_length [of a n] by simp

lemma ld32_st32 [simp]: "ld32 (st32 w @ bs) = w"
proof (rule bit_word_eqI)
  fix n
  assume "n < LENGTH(32)"
  then consider "n < 8" | "8 \<le> n" "n < 16" | "16 \<le> n" "n < 24" | "24 \<le> n" "n < 32" by fastforce
  then show "bit (ld32 (st32 w @ bs)) n = bit w n"
    by cases (auto simp: ld32_def st32_def bit_simps)
qed

lemma ld32_st32' [simp]: "ld32 (st32 w) = w"
  using ld32_st32 [of w "[]"] by simp

lemma ld16_st16' [simp]: "ld16 (st16 w) = w"
  using ld16_st16 [of w "[]"] by simp

lemma st32_ld32_4: "st32 (ld32 [a, b, c, d]) = [a, b, c, d]"
  by (simp add: st32_def ld32_def) (intro conjI bit_word_eqI; auto simp: bit_simps dest: bit_u8_less)

lemma st16_ld16_2: "st16 (ld16 [a, b]) = [a, b]"
  by (simp add: st16_def ld16_def) (intro conjI bit_word_eqI; auto simp: bit_simps dest: bit_u8_less)

lemma st32_htonl: "st32 (htonl w) = rev (st32 w)"
  by (simp add: htonl_def st32_def st32_ld32_4 [unfolded st32_def])

lemma ntohl_htonl [simp]: "ntohl (htonl w) = w"
proof -
  have "ntohl (htonl w) = ld32 (rev (st32 (htonl w)))" by (simp add: ntohl_def htonl_def)
  then show ?thesis by (simp add: st32_htonl)
qed

lemma htonl_ntohl [simp]: "htonl (ntohl w) = w"
  using ntohl_htonl [of w] by (simp add: ntohl_def)

lemma st16_htons: "st16 (htons w) = rev (st16 w)"
  by (simp add: htons_def st16_def st16_ld16_2 [unfolded st16_def])

lemma ntohs_htons [simp]: "ntohs (htons w) = w"
proof -
  have "ntohs (htons w) = ld16 (rev (st16 (htons w)))" by (simp add: ntohs_def htons_def)
  then show ?thesis by (simp add: st16_htons)
qed

section \<open>24-bit lengths\<close>

definition ntoh24 :: "u8 list \<Rightarrow> u32" where
  "ntoh24 p = push_bit 16 (ucast (p ! 0)) OR push_bit 8 (ucast (p ! 1)) OR ucast (p ! 2)"

definition hton24 :: "u32 \<Rightarrow> u8 list" where
  "hton24 v = [ucast (drop_bit 16 v AND 0xFF), ucast (drop_bit 8 v AND 0xFF), ucast (v AND 0xFF)]"

lemma length_hton24 [simp]: "length (hton24 v) = 3"
  by (simp add: hton24_def)

lemma mask_FF: "(0xFF :: u32) = mask 8"
  by (simp add: mask_eq_exp_minus_1)

lemma ntoh24_hton24: "ntoh24 (hton24 v) = take_bit 24 v"
proof (rule bit_word_eqI)
  fix n
  assume "n < LENGTH(32)"
  then consider "n < 8" | "8 \<le> n" "n < 16" | "16 \<le> n" "n < 24" | "24 \<le> n" "n < 32" by fastforce
  then show "bit (ntoh24 (hton24 v)) n = bit (take_bit 24 v) n"
    by cases (auto simp: ntoh24_def hton24_def mask_FF bit_simps)
qed

lemma ntoh24_hton24_small: "v < 2 ^ 24 \<Longrightarrow> ntoh24 (hton24 v) = v"
proof -
  assume "v < 2 ^ 24"
  then have "unat v < 2 ^ 24" by (simp add: word_less_nat_alt)
  then have "take_bit 24 v = v"
    by (intro word_unat_eq_iff [THEN iffD2]) (simp add: unsigned_take_bit_eq take_bit_nat_eq_self)
  then show ?thesis by (simp add: ntoh24_hton24)
qed

lemma ntoh24_less: "unat (ntoh24 p) < 2 ^ 24"
proof -
  have b: "n < 24" if "bit (ntoh24 p) n" for n
    using that unfolding ntoh24_def bit_or_iff bit_push_bit_iff bit_unsigned_iff
    by (auto dest: bit_u8_less)
  have "take_bit 24 (ntoh24 p) = ntoh24 p"
    by (rule bit_word_eqI) (auto simp: bit_take_bit_iff dest: b)
  then have "take_bit 24 (unat (ntoh24 p)) = unat (ntoh24 p)"
    by (metis unsigned_take_bit_eq)
  then show ?thesis by (simp add: take_bit_nat_eq_self_iff)
qed

end
