(* ===== verification/Headers.thy ===== *)
theory Headers
  imports ByteOrder
begin

text \<open>
  The 48-byte basic header segments of \<^verbatim>\<open>include/iscsi/*.h\<close>, one record per struct with the
  members as they lie in memory: a \<^verbatim>\<open>uint32_t\<close> member holds the loaded word, in network byte order
  where the code converts it. \<open>X_of\<close> is the overlay \<^verbatim>\<open>reinterpret_cast<X*>\<close> on received bytes,
  \<open>X_bytes\<close> the memory of a struct that is sent, \<open>new_X\<close> its constructor.
\<close>

record iSCSIHeader =
  ih_opcode :: u8
  ih_flags :: u8
  ih_rsvd2 :: "u8 list"
  ih_hlength :: u8
  ih_dlength :: "u8 list"
  ih_lun :: "u8 list"
  ih_itt :: u32
  ih_other :: "u8 list"

definition iSCSIHeader_of :: "u8 list \<Rightarrow> iSCSIHeader" where
  "iSCSIHeader_of bs =
     \<lparr>ih_opcode = bs ! 0, ih_flags = bs ! 1, ih_rsvd2 = take 2 (drop 2 bs),
      ih_hlength = bs ! 4, ih_dlength = take 3 (drop 5 bs), ih_lun = take 8 (drop 8 bs),
      ih_itt = ld32 (drop 16 bs), ih_other = take 28 (drop 20 bs)\<rparr>"

definition iSCSIHeader_bytes :: "iSCSIHeader \<Rightarrow> u8 list" where
  "iSCSIHeader_bytes h =
     [ih_opcode h] @ [ih_flags h] @ ih_rsvd2 h @ [ih_hlength h] @ ih_dlength h @ ih_lun h @
     st32 (ih_itt h) @ ih_other h"

record CommandReqHeader =
  cmd_opcode :: u8
  cmd_flags :: u8
  cmd_rsvd2 :: "u8 list"
  cmd_hlength :: u8
  cmd_dlength :: "u8 list"
  cmd_lun :: "u8 list"
  cmd_itt :: u32
  cmd_expdatalen :: u32
  cmd_cmdsn :: u32
  cmd_expstatsn :: u32
  cmd_scb :: "u8 list"

definition CommandReqHeader_of :: "u8 list \<Rightarrow> CommandReqHeader" where
  "CommandReqHeader_of bs =
     \<lparr>cmd_opcode = bs ! 0, cmd_flags = bs ! 1, cmd_rsvd2 = take 2 (drop 2 bs),
      cmd_hlength = bs ! 4, cmd_dlength = take 3 (drop 5 bs), cmd_lun = take 8 (drop 8 bs),
      cmd_itt = ld32 (drop 16 bs), cmd_expdatalen = ld32 (drop 20 bs),
      cmd_cmdsn = ld32 (drop 24 bs), cmd_expstatsn = ld32 (drop 28 bs),
      cmd_scb = take 16 (drop 32 bs)\<rparr>"

record SCSIRspHeader =
  rsp_opcode :: u8
  rsp_flags :: u8
  rsp_response :: u8
  rsp_cmd_status :: u8
  rsp_hlength :: u8
  rsp_dlength :: "u8 list"
  rsp_rsvd :: "u8 list"
  rsp_itt :: u32
  rsp_snack_tag :: u32
  rsp_statsn :: u32
  rsp_expcmdsn :: u32
  rsp_maxcmdsn :: u32
  rsp_expdatasn :: u32
  rsp_bidirectional_read_residual_count :: u32
  rsp_residual_count :: u32

definition SCSIRspHeader_bytes :: "SCSIRspHeader \<Rightarrow> u8 list" where
  "SCSIRspHeader_bytes h =
     [rsp_opcode h] @ [rsp_flags h] @ [rsp_response h] @ [rsp_cmd_status h] @ [rsp_hlength h] @
     rsp_dlength h @ rsp_rsvd h @ st32 (rsp_itt h) @ st32 (rsp_snack_tag h) @
     st32 (rsp_statsn h) @ st32 (rsp_expcmdsn h) @ st32 (rsp_maxcmdsn h) @
     st32 (rsp_expdatasn h) @ st32 (rsp_bidirectional_read_residual_count h) @
     st32 (rsp_residual_count h)"

definition new_SCSIRspHeader :: SCSIRspHeader where
  "new_SCSIRspHeader =
     \<lparr>rsp_opcode = 0x21, rsp_flags = 0, rsp_response = 0, rsp_cmd_status = 0, rsp_hlength = 0,
      rsp_dlength = replicate 3 0, rsp_rsvd = replicate 8 0, rsp_itt = 0, rsp_snack_tag = 0,
      rsp_statsn = 0, rsp_expcmdsn = 0, rsp_maxcmdsn = 0, rsp_expdatasn = 0,
      rsp_bidirectional_read_residual_count = 0, rsp_residual_count = 0\<rparr>"

record DataInHeader =
  di_opcode :: u8
  di_flags :: u8
  di_rsvd2 :: u8
  di_cmd_status :: u8
  di_hlength :: u8
  di_dlength :: "u8 list"
  di_lun :: "u8 list"
  di_itt :: u32
  di_ttt :: u32
  di_statsn :: u32
  di_expcmdsn :: u32
  di_maxcmdsn :: u32
  di_datasn :: u32
  di_offset :: u32
  di_residual_count :: u32

definition DataInHeader_bytes :: "DataInHeader \<Rightarrow> u8 list" where
  "DataInHeader_bytes h =
     [di_opcode h] @ [di_flags h] @ [di_rsvd2 h] @ [di_cmd_status h] @ [di_hlength h] @
     di_dlength h @ di_lun h @ st32 (di_itt h) @ st32 (di_ttt h) @ st32 (di_statsn h) @
     st32 (di_expcmdsn h) @ st32 (di_maxcmdsn h) @ st32 (di_datasn h) @ st32 (di_offset h) @
     st32 (di_residual_count h)"

definition new_DataInHeader :: DataInHeader where
  "new_DataInHeader =
     \<lparr>di_opcode = 0x25, di_flags = 0, di_rsvd2 = 0, di_cmd_status = 0, di_hlength = 0,
      di_dlength = replicate 3 0, di_lun = replicate 8 0, di_itt = 0, di_ttt = 0,
      di_statsn = 0, di_expcmdsn = 0, di_maxcmdsn = 0, di_datasn = 0, di_offset = 0,
      di_residual_count = 0\<rparr>"

record R2THeader =
  r2t_opcode :: u8
  r2t_flags :: u8
  r2t_rsvd :: "u8 list"
  r2t_hlength :: u8
  r2t_dlength :: "u8 list"
  r2t_lun :: "u8 list"
  r2t_itt :: u32
  r2t_ttt :: u32
  r2t_statsn :: u32
  r2t_expcmdsn :: u32
  r2t_maxcmdsn :: u32
  r2t_r2tsn :: u32
  r2t_offset :: u32
  r2t_transfer_length :: u32

definition R2THeader_bytes :: "R2THeader \<Rightarrow> u8 list" where
  "R2THeader_bytes h =
     [r2t_opcode h] @ [r2t_flags h] @ r2t_rsvd h @ [r2t_hlength h] @ r2t_dlength h @
     r2t_lun h @ st32 (r2t_itt h) @ st32 (r2t_ttt h) @ st32 (r2t_statsn h) @
     st32 (r2t_expcmdsn h) @ st32 (r2t_maxcmdsn h) @ st32 (r2t_r2tsn h) @ st32 (r2t_offset h) @
     st32 (r2t_transfer_length h)"

definition new_R2THeader :: R2THeader where
  "new_R2THeader =
     \<lparr>r2t_opcode = 0x31, r2t_flags = 0, r2t_rsvd = replicate 2 0, r2t_hlength = 0,
      r2t_dlength = replicate 3 0, r2t_lun = replicate 8 0, r2t_itt = 0, r2t_ttt = 0,
      r2t_statsn = 0, r2t_expcmdsn = 0, r2t_maxcmdsn = 0, r2t_r2tsn = 0, r2t_offset = 0,
      r2t_transfer_length = 0\<rparr>"

record DataOutHeader =
  do_opcode :: u8
  do_flags :: u8
  do_rsvd :: "u8 list"
  do_hlength :: u8
  do_dlength :: "u8 list"
  do_lun :: "u8 list"
  do_itt :: u32
  do_ttt :: u32
  do_rsvd2 :: u32
  do_expstatsn :: u32
  do_rsvd3 :: u32
  do_datasn :: u32
  do_offset :: u32
  do_rsvd4 :: u32

definition DataOutHeader_of :: "u8 list \<Rightarrow> DataOutHeader" where
  "DataOutHeader_of bs =
     \<lparr>do_opcode = bs ! 0, do_flags = bs ! 1, do_rsvd = take 2 (drop 2 bs), do_hlength = bs ! 4,
      do_dlength = take 3 (drop 5 bs), do_lun = take 8 (drop 8 bs), do_itt = ld32 (drop 16 bs),
      do_ttt = ld32 (drop 20 bs), do_rsvd2 = ld32 (drop 24 bs),
      do_expstatsn = ld32 (drop 28 bs), do_rsvd3 = ld32 (drop 32 bs),
      do_datasn = ld32 (drop 36 bs), do_offset = ld32 (drop 40 bs), do_rsvd4 = ld32 (drop 44 bs)\<rparr>"

record NopInHeader =
  ni_opcode :: u8
  ni_flags :: u8
  ni_rsvd2 :: u16
  ni_hlength :: u8
  ni_dlength :: "u8 list"
  ni_lun :: "u8 list"
  ni_itt :: u32
  ni_ttt :: u32
  ni_statsn :: u32
  ni_expcmdsn :: u32
  ni_maxcmdsn :: u32
  ni_rsvd4 :: "u8 list"

definition NopInHeader_of :: "u8 list \<Rightarrow> NopInHeader" where
  "NopInHeader_of bs =
     \<lparr>ni_opcode = bs ! 0, ni_flags = bs ! 1, ni_rsvd2 = ld16 (drop 2 bs), ni_hlength = bs ! 4,
      ni_dlength = take 3 (drop 5 bs), ni_lun = take 8 (drop 8 bs), ni_itt = ld32 (drop 16 bs),
      ni_ttt = ld32 (drop 20 bs), ni_statsn = ld32 (drop 24 bs),
      ni_expcmdsn = ld32 (drop 28 bs), ni_maxcmdsn = ld32 (drop 32 bs),
      ni_rsvd4 = take 12 (drop 36 bs)\<rparr>"

definition NopInHeader_bytes :: "NopInHeader \<Rightarrow> u8 list" where
  "NopInHeader_bytes h =
     [ni_opcode h] @ [ni_flags h] @ st16 (ni_rsvd2 h) @ [ni_hlength h] @ ni_dlength h @
     ni_lun h @ st32 (ni_itt h) @ st32 (ni_ttt h) @ st32 (ni_statsn h) @ st32 (ni_expcmdsn h) @
     st32 (ni_maxcmdsn h) @ ni_rsvd4 h"

record NopOutHeader =
  no_opcode :: u8
  no_flags :: u8
  no_rsvd2 :: u16
  no_rsvd3 :: u8
  no_dlength :: "u8 list"
  no_lun :: "u8 list"
  no_itt :: u32
  no_ttt :: u32
  no_cmdsn :: u32
  no_expstatsn :: u32
  no_rsvd4 :: "u8 list"

definition NopOutHeader_of :: "u8 list \<Rightarrow> NopOutHeader" where
  "NopOutHeader_of bs =
     \<lparr>no_opcode = bs ! 0, no_flags = bs ! 1, no_rsvd2 = ld16 (drop 2 bs), no_rsvd3 = bs ! 4,
      no_dlength = take 3 (drop 5 bs), no_lun = take 8 (drop 8 bs), no_itt = ld32 (drop 16 bs),
      no_ttt = ld32 (drop 20 bs), no_cmdsn = ld32 (drop 24 bs),
      no_expstatsn = ld32 (drop 28 bs), no_rsvd4 = take 16 (drop 32 bs)\<rparr>"

record LoginReqHeader =
  lq_opcode :: u8
  lq_flags :: u8
  lq_max_version :: u8
  lq_min_version :: u8
  lq_hlength :: u8
  lq_dlength :: "u8 list"
  lq_isid :: "u8 list"
  lq_tsih :: u16
  lq_itt :: u32
  lq_cid :: u16
  lq_rsvd3 :: u16
  lq_cmdsn :: u32
  lq_expstatsn :: u32
  lq_rsvd4 :: "u8 list"

definition LoginReqHeader_of :: "u8 list \<Rightarrow> LoginReqHeader" where
  "LoginReqHeader_of bs =
     \<lparr>lq_opcode = bs ! 0, lq_flags = bs ! 1, lq_max_version = bs ! 2, lq_min_version = bs ! 3,
      lq_hlength = bs ! 4, lq_dlength = take 3 (drop 5 bs), lq_isid = take 6 (drop 8 bs),
      lq_tsih = ld16 (drop 14 bs), lq_itt = ld32 (drop 16 bs), lq_cid = ld16 (drop 20 bs),
      lq_rsvd3 = ld16 (drop 22 bs), lq_cmdsn = ld32 (drop 24 bs),
      lq_expstatsn = ld32 (drop 28 bs), lq_rsvd4 = take 16 (drop 32 bs)\<rparr>"

record LoginRspHeader =
  lr_opcode :: u8
  lr_flags :: u8
  lr_max_version :: u8
  lr_active_version :: u8
  lr_hlength :: u8
  lr_dlength :: "u8 list"
  lr_isid :: "u8 list"
  lr_tsih :: u16
  lr_itt :: u32
  lr_rsvd3 :: u32
  lr_statsn :: u32
  lr_expcmdsn :: u32
  lr_maxcmdsn :: u32
  lr_status_class :: u8
  lr_status_detail :: u8
  lr_rsvd4 :: "u8 list"

definition LoginRspHeader_bytes :: "LoginRspHeader \<Rightarrow> u8 list" where
  "LoginRspHeader_bytes h =
     [lr_opcode h] @ [lr_flags h] @ [lr_max_version h] @ [lr_active_version h] @
     [lr_hlength h] @ lr_dlength h @ lr_isid h @ st16 (lr_tsih h) @ st32 (lr_itt h) @
     st32 (lr_rsvd3 h) @ st32 (lr_statsn h) @ st32 (lr_expcmdsn h) @ st32 (lr_maxcmdsn h) @
     [lr_status_class h] @ [lr_status_detail h] @ lr_rsvd4 h"

definition new_LoginRspHeader :: LoginRspHeader where
  "new_LoginRspHeader =
     \<lparr>lr_opcode = 0x23, lr_flags = 0, lr_max_version = 0, lr_active_version = 0,
      lr_hlength = 0, lr_dlength = replicate 3 0, lr_isid = replicate 6 0, lr_tsih = 0,
      lr_itt = 0, lr_rsvd3 = 0, lr_statsn = 0, lr_expcmdsn = 0, lr_maxcmdsn = 0,
      lr_status_class = 0, lr_status_detail = 0, lr_rsvd4 = replicate 10 0\<rparr>"

record LogoutReqHeader =
  oq_opcode :: u8
  oq_flags :: u8
  oq_rsvd1 :: "u8 list"
  oq_hlength :: u8
  oq_dlength :: "u8 list"
  oq_rsvd2 :: "u8 list"
  oq_itt :: u32
  oq_cid :: u16
  oq_rsvd3 :: u16
  oq_cmdsn :: u32
  oq_expstatsn :: u32
  oq_rsvd4 :: "u8 list"

definition LogoutReqHeader_of :: "u8 list \<Rightarrow> LogoutReqHeader" where
  "LogoutReqHeader_of bs =
     \<lparr>oq_opcode = bs ! 0, oq_flags = bs ! 1, oq_rsvd1 = take 2 (drop 2 bs),
      oq_hlength = bs ! 4, oq_dlength = take 3 (drop 5 bs), oq_rsvd2 = take 8 (drop 8 bs),
      oq_itt = ld32 (drop 16 bs), oq_cid = ld16 (drop 20 bs), oq_rsvd3 = ld16 (drop 22 bs),
      oq_cmdsn = ld32 (drop 24 bs), oq_expstatsn = ld32 (drop 28 bs),
      oq_rsvd4 = take 16 (drop 32 bs)\<rparr>"

record LogoutRspHeader =
  or_opcode :: u8
  or_flags :: u8
  or_response :: u8
  or_rsvd2 :: u8
  or_hlength :: u8
  or_dlength :: "u8 list"
  or_rsvd3 :: "u8 list"
  or_itt :: u32
  or_rsvd4 :: u32
  or_statsn :: u32
  or_expcmdsn :: u32
  or_maxcmdsn :: u32
  or_rsvd5 :: u32
  or_t2wait :: u16
  or_t2retain :: u16
  or_rsvd6 :: u32

definition LogoutRspHeader_bytes :: "LogoutRspHeader \<Rightarrow> u8 list" where
  "LogoutRspHeader_bytes h =
     [or_opcode h] @ [or_flags h] @ [or_response h] @ [or_rsvd2 h] @ [or_hlength h] @
     or_dlength h @ or_rsvd3 h @ st32 (or_itt h) @ st32 (or_rsvd4 h) @ st32 (or_statsn h) @
     st32 (or_expcmdsn h) @ st32 (or_maxcmdsn h) @ st32 (or_rsvd5 h) @ st16 (or_t2wait h) @
     st16 (or_t2retain h) @ st32 (or_rsvd6 h)"

definition new_LogoutRspHeader :: LogoutRspHeader where
  "new_LogoutRspHeader =
     \<lparr>or_opcode = 0x26, or_flags = 0, or_response = 0, or_rsvd2 = 0, or_hlength = 0,
      or_dlength = replicate 3 0, or_rsvd3 = replicate 8 0, or_itt = 0, or_rsvd4 = 0,
      or_statsn = 0, or_expcmdsn = 0, or_maxcmdsn = 0, or_rsvd5 = 0, or_t2wait = 0,
      or_t2retain = 0, or_rsvd6 = 0\<rparr>"

record TextReqHeader =
  tq_opcode :: u8
  tq_flags :: u8
  tq_rsvd2 :: "u8 list"
  tq_hlength :: u8
  tq_dlength :: "u8 list"
  tq_lun :: "u8 list"
  tq_itt :: u32
  tq_ttt :: u32
  tq_cmdsn :: u32
  tq_expstatsn :: u32
  tq_rsvd5 :: "u8 list"

definition TextReqHeader_of :: "u8 list \<Rightarrow> TextReqHeader" where
  "TextReqHeader_of bs =
     \<lparr>tq_opcode = bs ! 0, tq_flags = bs ! 1, tq_rsvd2 = take 2 (drop 2 bs),
      tq_hlength = bs ! 4, tq_dlength = take 3 (drop 5 bs), tq_lun = take 8 (drop 8 bs),
      tq_itt = ld32 (drop 16 bs), tq_ttt = ld32 (drop 20 bs), tq_cmdsn = ld32 (drop 24 bs),
      tq_expstatsn = ld32 (drop 28 bs), tq_rsvd5 = take 16 (drop 32 bs)\<rparr>"

record TextRspHeader =
  tr_opcode :: u8
  tr_flags :: u8
  tr_rsvd2 :: "u8 list"
  tr_hlength :: u8
  tr_dlength :: "u8 list"
  tr_rsvd4 :: "u8 list"
  tr_itt :: u32
  tr_ttt :: u32
  tr_statsn :: u32
  tr_expcmdsn :: u32
  tr_maxcmdsn :: u32
  tr_rsvd5 :: "u8 list"

definition TextRspHeader_bytes :: "TextRspHeader \<Rightarrow> u8 list" where
  "TextRspHeader_bytes h =
     [tr_opcode h] @ [tr_flags h] @ tr_rsvd2 h @ [tr_hlength h] @ tr_dlength h @ tr_rsvd4 h @
     st32 (tr_itt h) @ st32 (tr_ttt h) @ st32 (tr_statsn h) @ st32 (tr_expcmdsn h) @
     st32 (tr_maxcmdsn h) @ tr_rsvd5 h"

definition new_TextRspHeader :: TextRspHeader where
  "new_TextRspHeader =
     \<lparr>tr_opcode = 0x24, tr_flags = 0, tr_rsvd2 = replicate 2 0, tr_hlength = 0,
      tr_dlength = replicate 3 0, tr_rsvd4 = replicate 8 0, tr_itt = 0, tr_ttt = 0,
      tr_statsn = 0, tr_expcmdsn = 0, tr_maxcmdsn = 0, tr_rsvd5 = replicate 12 0\<rparr>"

record TaskMngReqHeader =
  mq_opcode :: u8
  mq_flags :: u8
  mq_rsvd1 :: "u8 list"
  mq_hlength :: u8
  mq_dlength :: "u8 list"
  mq_lun :: "u8 list"
  mq_itt :: u32
  mq_rtt :: u32
  mq_cmdsn :: u32
  mq_expstatsn :: u32
  mq_refcmdsn :: u32
  mq_expdatasn :: u32
  mq_rsvd2 :: "u8 list"

definition TaskMngReqHeader_of :: "u8 list \<Rightarrow> TaskMngReqHeader" where
  "TaskMngReqHeader_of bs =
     \<lparr>mq_opcode = bs ! 0, mq_flags = bs ! 1, mq_rsvd1 = take 2 (drop 2 bs),
      mq_hlength = bs ! 4, mq_dlength = take 3 (drop 5 bs), mq_lun = take 8 (drop 8 bs),
      mq_itt = ld32 (drop 16 bs), mq_rtt = ld32 (drop 20 bs), mq_cmdsn = ld32 (drop 24 bs),
      mq_expstatsn = ld32 (drop 28 bs), mq_refcmdsn = ld32 (drop 32 bs),
      mq_expdatasn = ld32 (drop 36 bs), mq_rsvd2 = take 8 (drop 40 bs)\<rparr>"

record TaskMngRspHeader =
  mr_opcode :: u8
  mr_flags :: u8
  mr_response :: u8
  mr_rsvd2 :: u8
  mr_hlength :: u8
  mr_dlength :: "u8 list"
  mr_lun :: "u8 list"
  mr_itt :: u32
  mr_rsvd4 :: u32
  mr_statsn :: u32
  mr_expcmdsn :: u32
  mr_maxcmdsn :: u32
  mr_rsvd5 :: "u8 list"

definition TaskMngRspHeader_bytes :: "TaskMngRspHeader \<Rightarrow> u8 list" where
  "TaskMngRspHeader_bytes h =
     [mr_opcode h] @ [mr_flags h] @ [mr_response h] @ [mr_rsvd2 h] @ [mr_hlength h] @
     mr_dlength h @ mr_lun h @ st32 (mr_itt h) @ st32 (mr_rsvd4 h) @ st32 (mr_statsn h) @
     st32 (mr_expcmdsn h) @ st32 (mr_maxcmdsn h) @ mr_rsvd5 h"

definition new_TaskMngRspHeader :: TaskMngRspHeader where
  "new_TaskMngRspHeader =
     \<lparr>mr_opcode = 0x22, mr_flags = 0, mr_response = 0, mr_rsvd2 = 0, mr_hlength = 0,
      mr_dlength = replicate 3 0, mr_lun = replicate 8 0, mr_itt = 0, mr_rsvd4 = 0,
      mr_statsn = 0, mr_expcmdsn = 0, mr_maxcmdsn = 0, mr_rsvd5 = replicate 12 0\<rparr>"

end
