(* ===== verification/Protocol.thy ===== *)
theory Protocol
  imports Headers Buffers
begin

text \<open>
  Parsing and generating iSCSI PDUs: \<^verbatim>\<open>iSCSIParser\<close>, \<^verbatim>\<open>LUN\<close>, \<^verbatim>\<open>SessionID\<close> and \<^verbatim>\<open>iSCSIGenerator\<close> of
  \<^verbatim>\<open>include/iscsi/iscsi.h\<close>, and the response generators of \<^verbatim>\<open>command\<close>, \<^verbatim>\<open>datain\<close>, \<^verbatim>\<open>r2t\<close>, \<^verbatim>\<open>nopin\<close>,
  \<^verbatim>\<open>logout\<close> and \<^verbatim>\<open>taskmng\<close>. A generator owns a fresh buffer whose first 48 bytes are the header;
  what \<^verbatim>\<open>serialize\<close> hands to a send task is that buffer.
\<close>

section \<open>Constants\<close>

definition ISCSI_FLAG_FINAL :: u8 where "ISCSI_FLAG_FINAL = 0x80"
definition ISCSI_OP_IMMEDIATE :: u8 where "ISCSI_OP_IMMEDIATE = 0x40"
definition ISCSI_OPCODE_MASK :: u8 where "ISCSI_OPCODE_MASK = 0x3F"
definition ISCSI_RSVD_TASK_TAG :: u32 where "ISCSI_RSVD_TASK_TAG = 0xffffffff"
definition PAD_WORD_LEN :: nat where "PAD_WORD_LEN = 4"
definition sizeof_iSCSIHeader :: nat where "sizeof_iSCSIHeader = 48"

definition iSCSI_OP_NOOP_OUT :: u8 where "iSCSI_OP_NOOP_OUT = 0x00"
definition iSCSI_OP_SCSI_CMD :: u8 where "iSCSI_OP_SCSI_CMD = 0x01"
definition iSCSI_OP_TASK_MGT_REQ :: u8 where "iSCSI_OP_TASK_MGT_REQ = 0x02"
definition iSCSI_OP_LOGIN_CMD :: u8 where "iSCSI_OP_LOGIN_CMD = 0x03"
definition iSCSI_OP_TEXT_CMD :: u8 where "iSCSI_OP_TEXT_CMD = 0x04"
definition iSCSI_OP_SCSI_DATA :: u8 where "iSCSI_OP_SCSI_DATA = 0x05"
definition iSCSI_OP_LOGOUT_CMD :: u8 where "iSCSI_OP_LOGOUT_CMD = 0x06"
definition iSCSI_OP_NOOP_IN :: u8 where "iSCSI_OP_NOOP_IN = 0x20"

lemmas opcode_defs = iSCSI_OP_NOOP_OUT_def iSCSI_OP_SCSI_CMD_def iSCSI_OP_TASK_MGT_REQ_def
  iSCSI_OP_LOGIN_CMD_def iSCSI_OP_TEXT_CMD_def iSCSI_OP_SCSI_DATA_def iSCSI_OP_LOGOUT_CMD_def
  iSCSI_OP_NOOP_IN_def

section \<open>The parser of the common header part\<close>

text \<open>The member functions of \<^verbatim>\<open>iSCSIParser<T>\<close> only touch members that lie at the same place in every
  header struct, so they are functions of the common overlay.\<close>

definition getFlags :: "iSCSIHeader \<Rightarrow> u8" where
  "getFlags h = ih_flags h"

definition isFinal :: "iSCSIHeader \<Rightarrow> bool" where
  "isFinal h \<longleftrightarrow> ih_flags h AND ISCSI_FLAG_FINAL \<noteq> 0"

definition isImmediateCmd :: "iSCSIHeader \<Rightarrow> bool" where
  "isImmediateCmd h \<longleftrightarrow> ih_opcode h AND ISCSI_OP_IMMEDIATE \<noteq> 0"

definition getOpCode :: "iSCSIHeader \<Rightarrow> u8" where
  "getOpCode h = ih_opcode h AND ISCSI_OPCODE_MASK"

definition getHlength :: "iSCSIHeader \<Rightarrow> nat" where
  "getHlength h = unat (ih_hlength h)"

definition getDlength :: "iSCSIHeader \<Rightarrow> nat" where
  "getDlength h = unat (ntoh24 (ih_dlength h))"

definition getITT :: "iSCSIHeader \<Rightarrow> u32" where
  "getITT h = ih_itt h"

text \<open>The sum is at most \<open>48 + 255 + 2 ^ 24\<close>, so the \<^verbatim>\<open>uint32_t\<close> cannot wrap around.\<close>

definition getPDUlength :: "iSCSIHeader \<Rightarrow> nat" where
  "getPDUlength h =
     (let n = sizeof_iSCSIHeader + getHlength h + getDlength h
      in if n mod PAD_WORD_LEN \<noteq> 0 then n + (PAD_WORD_LEN - n mod PAD_WORD_LEN) else n)"

definition getDataSegmentOffset :: "iSCSIHeader \<Rightarrow> nat" where
  "getDataSegmentOffset h = (if getDlength h = 0 then 0 else sizeof_iSCSIHeader + getHlength h)"

lemma getDlength_less: "getDlength h < 2 ^ 24"
  using ntoh24_less by (simp add: getDlength_def)

lemma getHlength_less: "getHlength h < 256"
  using unsigned_less [of "ih_hlength h"] by (simp add: getHlength_def)

section \<open>Session identifiers and logical unit numbers\<close>

type_synonym session_id = "u8 list"

definition SessionID :: session_id where
  "SessionID = replicate 6 0"

definition SessionID_set :: "u8 list \<Rightarrow> session_id" where
  "SessionID_set p = take 6 p"

definition sid_eq :: "session_id \<Rightarrow> session_id \<Rightarrow> bool" where
  "sid_eq a b \<longleftrightarrow> take 6 a = take 6 b"

definition LUN :: "u32 \<Rightarrow> u8 list" where
  "LUN n = replicate 4 0 @ st32 (htonl n)"

definition LUN_set :: "u8 list \<Rightarrow> u8 list" where
  "LUN_set p = take 8 p"

definition LUN_get :: "u8 list \<Rightarrow> u32" where
  "LUN_get l = ld32 (drop 4 l)"

definition LUN_eq :: "u8 list \<Rightarrow> u8 list \<Rightarrow> bool" where
  "LUN_eq a b \<longleftrightarrow> take 8 a = take 8 b"

section \<open>Buffers that carry a PDU\<close>

text \<open>A fresh buffer after \<^verbatim>\<open>stepForwardTail\<close> over the header: the memory behind the header is the
  parameter \<open>mem\<close>.\<close>

definition pdu_cbuf :: "u8 list \<Rightarrow> (nat \<Rightarrow> u8) \<Rightarrow> nat \<Rightarrow> common_buf" where
  "pdu_cbuf hdr mem tail =
     \<lparr>cb_bytes = (\<lambda>i. if i < length hdr then hdr ! i else mem (i - length hdr)),
      cb_size = COMMON_BUF_SIZE, cb_offset = 0, cb_tail = tail\<rparr>"

section \<open>SCSI Response\<close>

definition COMMAND_RESPONSE_FLAG_OVERFLOW :: u8 where "COMMAND_RESPONSE_FLAG_OVERFLOW = 0x04"
definition COMMAND_RESPONSE_FLAG_UNDERFLOW :: u8 where "COMMAND_RESPONSE_FLAG_UNDERFLOW = 0x02"

datatype iscsi_response = RESPONSE_CMD_COMPLETED | RESPONSE_TARGET_FAILURE | RESPONSE_SUBSYS_FAILURE

definition iscsi_response_code :: "iscsi_response \<Rightarrow> u8" where
  "iscsi_response_code r =
     (case r of RESPONSE_CMD_COMPLETED \<Rightarrow> 0 | RESPONSE_TARGET_FAILURE \<Rightarrow> 1 | RESPONSE_SUBSYS_FAILURE \<Rightarrow> 2)"

type_synonym scsi_rsp_generator = SCSIRspHeader

definition SCSIRspGenerator :: scsi_rsp_generator where
  "SCSIRspGenerator = new_SCSIRspHeader"

definition rsp_setFlags :: "u8 \<Rightarrow> scsi_rsp_generator \<Rightarrow> scsi_rsp_generator" where
  "rsp_setFlags f h = h\<lparr>rsp_flags := ISCSI_FLAG_FINAL OR f\<rparr>"

definition rsp_setITT :: "u32 \<Rightarrow> scsi_rsp_generator \<Rightarrow> scsi_rsp_generator" where
  "rsp_setITT itt h = h\<lparr>rsp_itt := itt\<rparr>"

definition rsp_setDlength :: "u32 \<Rightarrow> scsi_rsp_generator \<Rightarrow> scsi_rsp_generator" where
  "rsp_setDlength n h = h\<lparr>rsp_dlength := hton24 n\<rparr>"

definition rsp_getDlength :: "scsi_rsp_generator \<Rightarrow> u32" where
  "rsp_getDlength h = ntoh24 (rsp_dlength h)"

definition rsp_setResponse :: "iscsi_response \<Rightarrow> scsi_rsp_generator \<Rightarrow> scsi_rsp_generator" where
  "rsp_setResponse r h = h\<lparr>rsp_response := iscsi_response_code r\<rparr>"

definition rsp_setCmdStatus :: "u8 \<Rightarrow> scsi_rsp_generator \<Rightarrow> scsi_rsp_generator" where
  "rsp_setCmdStatus c h = h\<lparr>rsp_cmd_status := c\<rparr>"

definition rsp_setSTATSN :: "u32 \<Rightarrow> scsi_rsp_generator \<Rightarrow> scsi_rsp_generator" where
  "rsp_setSTATSN n h = h\<lparr>rsp_statsn := htonl n\<rparr>"

definition rsp_setEXPCMDSN :: "u32 \<Rightarrow> scsi_rsp_generator \<Rightarrow> scsi_rsp_generator" where
  "rsp_setEXPCMDSN n h = h\<lparr>rsp_expcmdsn := htonl n\<rparr>"

definition rsp_setMAXCMDSN :: "u32 \<Rightarrow> scsi_rsp_generator \<Rightarrow> scsi_rsp_generator" where
  "rsp_setMAXCMDSN n h = h\<lparr>rsp_maxcmdsn := htonl n\<rparr>"

definition rsp_setEXPDataSN :: "u32 \<Rightarrow> scsi_rsp_generator \<Rightarrow> scsi_rsp_generator" where
  "rsp_setEXPDataSN n h = h\<lparr>rsp_expdatasn := htonl n\<rparr>"

definition rsp_setResidualCount :: "u32 \<Rightarrow> u32 \<Rightarrow> scsi_rsp_generator \<Rightarrow> scsi_rsp_generator" where
  "rsp_setResidualCount expected cur h =
     (if expected > cur
      then h\<lparr>rsp_flags := rsp_flags h OR COMMAND_RESPONSE_FLAG_UNDERFLOW,
             rsp_residual_count := htonl (expected - cur)\<rparr>
      else if expected < cur
      then rsp_setDlength expected
             (h\<lparr>rsp_flags := rsp_flags h OR COMMAND_RESPONSE_FLAG_OVERFLOW,
                rsp_residual_count := htonl (cur - expected)\<rparr>)
      else h)"

definition rsp_serialize :: "(nat \<Rightarrow> u8) \<Rightarrow> scsi_rsp_generator \<Rightarrow> common_buf" where
  "rsp_serialize mem h = pdu_cbuf (SCSIRspHeader_bytes h) mem 48"

section \<open>Data-In\<close>

definition DATAIN_FLAG_STATUS :: u8 where "DATAIN_FLAG_STATUS = 0x01"
definition DATAIN_FLAG_OVERFLOW :: u8 where "DATAIN_FLAG_OVERFLOW = 0x04"
definition DATAIN_FLAG_UNDERFLOW :: u8 where "DATAIN_FLAG_UNDERFLOW = 0x02"

text \<open>The header, the memory behind it in the buffer, the buffer's tail and the data sequence
  counter.\<close>

record data_in_generator =
  dig_bhs :: DataInHeader
  dig_mem :: "nat \<Rightarrow> u8"
  dig_tail :: nat
  dig_datasn_gen :: seq_counter

definition DataInGenerator :: "(nat \<Rightarrow> u8) \<Rightarrow> data_in_generator" where
  "DataInGenerator mem =
     \<lparr>dig_bhs = new_DataInHeader, dig_mem = mem, dig_tail = 48,
      dig_datasn_gen = snd (seq_call seq_init)\<rparr>"

definition dig_getDlength :: "data_in_generator \<Rightarrow> nat" where
  "dig_getDlength g = unat (ntoh24 (di_dlength (dig_bhs g)))"

definition dig_upd :: "(DataInHeader \<Rightarrow> DataInHeader) \<Rightarrow> data_in_generator \<Rightarrow> data_in_generator" where
  "dig_upd f g = g\<lparr>dig_bhs := f (dig_bhs g)\<rparr>"

definition dig_setFlags :: "u8 \<Rightarrow> data_in_generator \<Rightarrow> data_in_generator" where
  "dig_setFlags f = dig_upd (\<lambda>h. h\<lparr>di_flags := f\<rparr>)"

definition dig_setITT :: "u32 \<Rightarrow> data_in_generator \<Rightarrow> data_in_generator" where
  "dig_setITT itt = dig_upd (\<lambda>h. h\<lparr>di_itt := itt\<rparr>)"

definition dig_setDlength :: "nat \<Rightarrow> data_in_generator \<Rightarrow> data_in_generator" where
  "dig_setDlength n = dig_upd (\<lambda>h. h\<lparr>di_dlength := hton24 (of_nat n)\<rparr>)"

definition dig_setCmdStatus :: "u8 \<Rightarrow> data_in_generator \<Rightarrow> data_in_generator" where
  "dig_setCmdStatus c =
     dig_upd (\<lambda>h. h\<lparr>di_flags := di_flags h OR (ISCSI_FLAG_FINAL OR DATAIN_FLAG_STATUS), di_cmd_status := c\<rparr>)"

definition dig_setLUN :: "u8 list \<Rightarrow> data_in_generator \<Rightarrow> data_in_generator" where
  "dig_setLUN l = dig_upd (\<lambda>h. h\<lparr>di_lun := take 8 l\<rparr>)"

definition dig_setTTT :: "u32 \<Rightarrow> data_in_generator \<Rightarrow> data_in_generator" where
  "dig_setTTT t = dig_upd (\<lambda>h. h\<lparr>di_ttt := t\<rparr>)"

definition dig_setSTATSN :: "u32 \<Rightarrow> data_in_generator \<Rightarrow> data_in_generator" where
  "dig_setSTATSN n = dig_upd (\<lambda>h. h\<lparr>di_statsn := htonl n\<rparr>)"

definition dig_setEXPCMDSN :: "u32 \<Rightarrow> data_in_generator \<Rightarrow> data_in_generator" where
  "dig_setEXPCMDSN n = dig_upd (\<lambda>h. h\<lparr>di_expcmdsn := htonl n\<rparr>)"

definition dig_setMAXCMDSN :: "u32 \<Rightarrow> data_in_generator \<Rightarrow> data_in_generator" where
  "dig_setMAXCMDSN n = dig_upd (\<lambda>h. h\<lparr>di_maxcmdsn := htonl n\<rparr>)"

definition dig_advanceDataSN :: "data_in_generator \<Rightarrow> data_in_generator" where
  "dig_advanceDataSN g =
     (let (v, s) = seq_call (dig_datasn_gen g)
      in (dig_upd (\<lambda>h. h\<lparr>di_datasn := htonl v\<rparr>) g)\<lparr>dig_datasn_gen := s\<rparr>)"

definition dig_getDataSN :: "data_in_generator \<Rightarrow> u32" where
  "dig_getDataSN g = seq_cur (dig_datasn_gen g)"

definition dig_addOffset :: "u32 \<Rightarrow> data_in_generator \<Rightarrow> data_in_generator" where
  "dig_addOffset n = dig_upd (\<lambda>h. h\<lparr>di_offset := htonl (ntohl (di_offset h) + n)\<rparr>)"

definition dig_setResidualCount :: "u32 \<Rightarrow> u32 \<Rightarrow> data_in_generator \<Rightarrow> data_in_generator" where
  "dig_setResidualCount expected cur g =
     (if expected > cur
      then dig_upd (\<lambda>h. h\<lparr>di_flags := di_flags h OR DATAIN_FLAG_UNDERFLOW,
                        di_residual_count := htonl (expected - cur)\<rparr>) g
      else if expected < cur
      then dig_setDlength (unat expected)
             (dig_upd (\<lambda>h. h\<lparr>di_flags := di_flags h OR DATAIN_FLAG_OVERFLOW,
                            di_residual_count := htonl (cur - expected)\<rparr>) g)
      else g)"

text \<open>\<^verbatim>\<open>reserveDataSegment\<close>: the result says whether the pointer is not null; it points behind the
  header.\<close>

definition dig_capacity :: "data_in_generator \<Rightarrow> nat" where
  "dig_capacity g = COMMON_BUF_SIZE - dig_tail g"

definition reserveDataSegment :: "nat \<Rightarrow> data_in_generator \<Rightarrow> bool \<times> data_in_generator" where
  "reserveDataSegment sz g =
     (if sz = 0 then (False, g)
      else if sz > dig_capacity g then (False, g)
      else (True, (dig_setDlength sz g)\<lparr>dig_tail := dig_tail g + sz\<rparr>))"

text \<open>A \<^verbatim>\<open>memcpy\<close> to the pointer, at an offset.\<close>

definition dig_store :: "nat \<Rightarrow> u8 list \<Rightarrow> data_in_generator \<Rightarrow> data_in_generator" where
  "dig_store at bs g =
     g\<lparr>dig_mem := (\<lambda>i. if at \<le> i \<and> i < at + length bs then bs ! (i - at) else dig_mem g i)\<rparr>"

definition resetDlength :: "nat \<Rightarrow> data_in_generator \<Rightarrow> bool \<times> data_in_generator" where
  "resetDlength sz g =
     (if sz = 0 then (False, g)
      else if sz > dig_capacity g then (False, g)
      else let old = dig_getDlength g
           in if sz > old then (False, g)
              else let g1 = dig_setDlength sz g
                   in if old - sz > dig_tail g1 then (False, g1)
                      else (True, g1\<lparr>dig_tail := dig_tail g1 - (old - sz)\<rparr>))"

text \<open>\<^verbatim>\<open>serialize\<close> pads the buffer on every call; a step that does not fit leaves the tail alone.\<close>

definition dig_pad :: "data_in_generator \<Rightarrow> data_in_generator" where
  "dig_pad g =
     (if dig_getDlength g mod PAD_WORD_LEN \<noteq> 0
      then let step = PAD_WORD_LEN - dig_getDlength g mod PAD_WORD_LEN
           in if COMMON_BUF_SIZE < dig_tail g + step then g else g\<lparr>dig_tail := dig_tail g + step\<rparr>
      else g)"

definition dig_cbuf :: "data_in_generator \<Rightarrow> common_buf" where
  "dig_cbuf g = pdu_cbuf (DataInHeader_bytes (dig_bhs g)) (dig_mem g) (dig_tail g)"

definition dig_serialize :: "data_in_generator \<Rightarrow> common_buf \<times> data_in_generator" where
  "dig_serialize g = (dig_cbuf (dig_pad g), dig_pad g)"

text \<open>The copy constructor serialises the old generator, copies its buffer into a fresh one and
  continues its data sequence. The result is the new and the old generator.\<close>

definition DataInGenerator_copy ::
  "(nat \<Rightarrow> u8) \<Rightarrow> data_in_generator \<Rightarrow> data_in_generator \<times> data_in_generator" where
  "DataInGenerator_copy mem old =
     (let (_, old') = dig_serialize old
      in (\<lparr>dig_bhs = dig_bhs old',
           dig_mem = (\<lambda>i. if i < dig_tail old' - 48 then dig_mem old' i else mem i),
           dig_tail = dig_tail old', dig_datasn_gen = seq_set (dig_getDataSN old') seq_init\<rparr>, old'))"

section \<open>Ready To Transfer\<close>

definition R2TGenerator :: R2THeader where
  "R2TGenerator = new_R2THeader\<lparr>r2t_flags := ISCSI_FLAG_FINAL\<rparr>"

definition r2t_setITT :: "u32 \<Rightarrow> R2THeader \<Rightarrow> R2THeader" where
  "r2t_setITT itt h = h\<lparr>r2t_itt := itt\<rparr>"

definition r2t_setLUN :: "u8 list \<Rightarrow> R2THeader \<Rightarrow> R2THeader" where
  "r2t_setLUN l h = h\<lparr>r2t_lun := take 8 l\<rparr>"

definition r2t_setTTT :: "u32 \<Rightarrow> R2THeader \<Rightarrow> R2THeader" where
  "r2t_setTTT t h = h\<lparr>r2t_ttt := t\<rparr>"

definition r2t_setSTATSN :: "u32 \<Rightarrow> R2THeader \<Rightarrow> R2THeader" where
  "r2t_setSTATSN n h = h\<lparr>r2t_statsn := htonl n\<rparr>"

definition r2t_setEXPCMDSN :: "u32 \<Rightarrow> R2THeader \<Rightarrow> R2THeader" where
  "r2t_setEXPCMDSN n h = h\<lparr>r2t_expcmdsn := htonl n\<rparr>"

definition r2t_setMAXCMDSN :: "u32 \<Rightarrow> R2THeader \<Rightarrow> R2THeader" where
  "r2t_setMAXCMDSN n h = h\<lparr>r2t_maxcmdsn := htonl n\<rparr>"

definition r2t_setR2TSN :: "u32 \<Rightarrow> R2THeader \<Rightarrow> R2THeader" where
  "r2t_setR2TSN n h = h\<lparr>r2t_r2tsn := htonl n\<rparr>"

definition r2t_setOffset :: "u32 \<Rightarrow> R2THeader \<Rightarrow> R2THeader" where
  "r2t_setOffset n h = h\<lparr>r2t_offset := htonl n\<rparr>"

definition r2t_setDesiredDataTransferLength :: "u32 \<Rightarrow> R2THeader \<Rightarrow> R2THeader" where
  "r2t_setDesiredDataTransferLength n h = h\<lparr>r2t_transfer_length := htonl n\<rparr>"

definition r2t_serialize :: "(nat \<Rightarrow> u8) \<Rightarrow> R2THeader \<Rightarrow> common_buf" where
  "r2t_serialize mem h = pdu_cbuf (R2THeader_bytes h) mem 48"

section \<open>Nop-In, Logout and Task Management responses\<close>

definition NopInGenerator :: NopInHeader where
  "NopInGenerator =
     \<lparr>ni_opcode = iSCSI_OP_NOOP_IN, ni_flags = ISCSI_FLAG_FINAL, ni_rsvd2 = 0, ni_hlength = 0,
      ni_dlength = replicate 3 0, ni_lun = replicate 8 0, ni_itt = 0, ni_ttt = 0, ni_statsn = 0,
      ni_expcmdsn = 0, ni_maxcmdsn = 0, ni_rsvd4 = replicate 12 0\<rparr>"

definition ni_setITT :: "u32 \<Rightarrow> NopInHeader \<Rightarrow> NopInHeader" where
  "ni_setITT itt h = h\<lparr>ni_itt := itt\<rparr>"

definition ni_setTTT :: "u32 \<Rightarrow> NopInHeader \<Rightarrow> NopInHeader" where
  "ni_setTTT t h = h\<lparr>ni_ttt := t\<rparr>"

definition ni_setSTATSN :: "u32 \<Rightarrow> NopInHeader \<Rightarrow> NopInHeader" where
  "ni_setSTATSN n h = h\<lparr>ni_statsn := htonl n\<rparr>"

definition ni_setEXPCMDSN :: "u32 \<Rightarrow> NopInHeader \<Rightarrow> NopInHeader" where
  "ni_setEXPCMDSN n h = h\<lparr>ni_expcmdsn := htonl n\<rparr>"

definition ni_setMAXCMDSN :: "u32 \<Rightarrow> NopInHeader \<Rightarrow> NopInHeader" where
  "ni_setMAXCMDSN n h = h\<lparr>ni_maxcmdsn := htonl n\<rparr>"

definition ni_serialize :: "(nat \<Rightarrow> u8) \<Rightarrow> NopInHeader \<Rightarrow> common_buf" where
  "ni_serialize mem h = pdu_cbuf (NopInHeader_bytes h) mem 48"

datatype logout_response =
  LOGOUT_SUCCESS | LOGOUT_CID_NOT_FOUND | LOGOUT_RECOVERY_UNSUPPORTED | LOGOUT_CLEANUP_FAILED

definition logout_response_code :: "logout_response \<Rightarrow> u8" where
  "logout_response_code r =
     (case r of LOGOUT_SUCCESS \<Rightarrow> 0 | LOGOUT_CID_NOT_FOUND \<Rightarrow> 1
      | LOGOUT_RECOVERY_UNSUPPORTED \<Rightarrow> 2 | LOGOUT_CLEANUP_FAILED \<Rightarrow> 3)"

definition lor_setFlags :: "u8 \<Rightarrow> LogoutRspHeader \<Rightarrow> LogoutRspHeader" where
  "lor_setFlags f h = h\<lparr>or_flags := ISCSI_FLAG_FINAL OR f\<rparr>"

definition lor_setITT :: "u32 \<Rightarrow> LogoutRspHeader \<Rightarrow> LogoutRspHeader" where
  "lor_setITT itt h = h\<lparr>or_itt := itt\<rparr>"

definition lor_setResponse :: "logout_response \<Rightarrow> LogoutRspHeader \<Rightarrow> LogoutRspHeader" where
  "lor_setResponse r h = h\<lparr>or_response := logout_response_code r\<rparr>"

definition lor_setSTATSN :: "u32 \<Rightarrow> LogoutRspHeader \<Rightarrow> LogoutRspHeader" where
  "lor_setSTATSN n h = h\<lparr>or_statsn := htonl n\<rparr>"

definition lor_setEXPCMDSN :: "u32 \<Rightarrow> LogoutRspHeader \<Rightarrow> LogoutRspHeader" where
  "lor_setEXPCMDSN n h = h\<lparr>or_expcmdsn := htonl n\<rparr>"

definition lor_setMAXCMDSN :: "u32 \<Rightarrow> LogoutRspHeader \<Rightarrow> LogoutRspHeader" where
  "lor_setMAXCMDSN n h = h\<lparr>or_maxcmdsn := htonl n\<rparr>"

definition lor_setTime2Wait :: "u16 \<Rightarrow> LogoutRspHeader \<Rightarrow> LogoutRspHeader" where
  "lor_setTime2Wait n h = h\<lparr>or_t2wait := htons n\<rparr>"

definition lor_setTime2Retain :: "u16 \<Rightarrow> LogoutRspHeader \<Rightarrow> LogoutRspHeader" where
  "lor_setTime2Retain n h = h\<lparr>or_t2retain := htons n\<rparr>"

definition lor_serialize :: "(nat \<Rightarrow> u8) \<Rightarrow> LogoutRspHeader \<Rightarrow> common_buf" where
  "lor_serialize mem h = pdu_cbuf (LogoutRspHeader_bytes h) mem 48"

section \<open>Lemmas\<close>

text \<open>The common overlay of what a generator sends.\<close>

definition pdu_header :: "common_buf \<Rightarrow> iSCSIHeader" where
  "pdu_header b = iSCSIHeader_of (map (cb_bytes b) [0..<48])"

lemma pdu_header_cbuf: "length hdr = 48 \<Longrightarrow> pdu_header (pdu_cbuf hdr mem tail) = iSCSIHeader_of hdr"
proof -
  assume "length hdr = 48"
  then have "map (cb_bytes (pdu_cbuf hdr mem tail)) [0..<48] = hdr"
    by (intro nth_equalityI) (auto simp: pdu_cbuf_def)
  then show ?thesis by (simp add: pdu_header_def)
qed

definition di_wf :: "DataInHeader \<Rightarrow> bool" where
  "di_wf h \<longleftrightarrow> length (di_dlength h) = 3 \<and> length (di_lun h) = 8 \<and> di_hlength h = 0"

lemma DataInHeader_overlay:
  "di_wf h \<Longrightarrow> length (DataInHeader_bytes h) = 48 \<and>
     ih_hlength (iSCSIHeader_of (DataInHeader_bytes h)) = 0 \<and>
     ih_dlength (iSCSIHeader_of (DataInHeader_bytes h)) = di_dlength h \<and>
     ih_itt (iSCSIHeader_of (DataInHeader_bytes h)) = di_itt h \<and>
     ih_opcode (iSCSIHeader_of (DataInHeader_bytes h)) = di_opcode h"
  by (auto simp: di_wf_def DataInHeader_bytes_def iSCSIHeader_of_def)

text \<open>A generator whose header describes its buffer.\<close>

definition dig_ok :: "data_in_generator \<Rightarrow> bool" where
  "dig_ok g \<longleftrightarrow> di_wf (dig_bhs g) \<and> dig_tail g = 48 + dig_getDlength g \<and>
     dig_tail g + 3 \<le> COMMON_BUF_SIZE"

lemmas dig_op_defs = dig_upd_def dig_setFlags_def dig_setITT_def dig_setCmdStatus_def dig_setLUN_def
  dig_setTTT_def dig_setSTATSN_def dig_setEXPCMDSN_def dig_setMAXCMDSN_def dig_advanceDataSN_def
  dig_addOffset_def dig_store_def

lemma dig_ok_new: "dig_ok (DataInGenerator mem)"
  by (simp add: dig_ok_def DataInGenerator_def di_wf_def new_DataInHeader_def dig_getDlength_def
      COMMON_BUF_SIZE_def) code_simp

lemma dig_ok_setters:
  "dig_ok g \<Longrightarrow> dig_ok (dig_setFlags f g)" "dig_ok g \<Longrightarrow> dig_ok (dig_setITT i g)"
  "dig_ok g \<Longrightarrow> dig_ok (dig_setCmdStatus c g)" "dig_ok g \<Longrightarrow> length l = 8 \<Longrightarrow> dig_ok (dig_setLUN l g)"
  "dig_ok g \<Longrightarrow> dig_ok (dig_setTTT t g)" "dig_ok g \<Longrightarrow> dig_ok (dig_setSTATSN n g)"
  "dig_ok g \<Longrightarrow> dig_ok (dig_setEXPCMDSN n g)" "dig_ok g \<Longrightarrow> dig_ok (dig_setMAXCMDSN n g)"
  "dig_ok g \<Longrightarrow> dig_ok (dig_advanceDataSN g)" "dig_ok g \<Longrightarrow> dig_ok (dig_addOffset n g)"
  "dig_ok g \<Longrightarrow> dig_ok (dig_store at bs g)"
  by (simp_all add: dig_ok_def dig_op_defs di_wf_def dig_getDlength_def)

lemma ntoh24_of_nat: "n < 2 ^ 24 \<Longrightarrow> unat (ntoh24 (hton24 (of_nat n))) = n"
proof -
  assume n: "n < 2 ^ 24"
  then have u: "unat (of_nat n :: u32) = n" by (simp add: unat_of_nat)
  with n have "(of_nat n :: u32) < 2 ^ 24" by (simp add: word_less_nat_alt)
  then show ?thesis using u by (simp add: ntoh24_hton24_small)
qed

lemma dig_ok_reserve:
  assumes "dig_ok g" and "dig_getDlength g = 0" and "0 < n" and "48 + n + 3 \<le> COMMON_BUF_SIZE"
  shows "\<exists>g'. reserveDataSegment n g = (True, g') \<and> dig_ok g' \<and> dig_getDlength g' = n"
  using assms ntoh24_of_nat [of n]
  by (auto simp: reserveDataSegment_def dig_capacity_def dig_ok_def dig_setDlength_def dig_upd_def
      di_wf_def dig_getDlength_def COMMON_BUF_SIZE_def)

text \<open>Generator and parser agree: whatever setters were applied, the buffer a Data-In generator
  serialises is exactly as long as the parser computes from the header in it, the parser finds the
  reserved length, and the data start where the parser looks for them.\<close>

theorem datain_pdu_consistent:
  assumes "dig_ok g" and "dig_serialize g = (b, g')"
  shows "getPDUlength (pdu_header b) = cb_getRemain b \<and> getDlength (pdu_header b) = dig_getDlength g \<and>
    getDataSegmentOffset (pdu_header b) = (if dig_getDlength g = 0 then 0 else 48) \<and>
    getITT (pdu_header b) = di_itt (dig_bhs g) \<and>
    (\<forall>i < dig_getDlength g. cb_bytes b (48 + i) = dig_mem g i)"
proof -
  have wf: "di_wf (dig_bhs g)" and t: "dig_tail g = 48 + dig_getDlength g" "dig_tail g + 3 \<le> COMMON_BUF_SIZE"
    using assms(1) by (auto simp: dig_ok_def)
  note ov = DataInHeader_overlay [OF wf]
  have p: "dig_bhs (dig_pad g) = dig_bhs g" "dig_mem (dig_pad g) = dig_mem g"
    by (simp_all add: dig_pad_def Let_def)
  have b: "b = pdu_cbuf (DataInHeader_bytes (dig_bhs g)) (dig_mem g) (dig_tail (dig_pad g))"
    using assms(2) p by (auto simp: dig_serialize_def dig_cbuf_def)
  have h: "pdu_header b = iSCSIHeader_of (DataInHeader_bytes (dig_bhs g))"
    unfolding b using ov by (simp add: pdu_header_cbuf)
  have d: "getDlength (pdu_header b) = dig_getDlength g" "getHlength (pdu_header b) = 0"
    unfolding h using ov by (simp_all add: getDlength_def getHlength_def dig_getDlength_def)
  have tl: "dig_tail (dig_pad g) =
      (if dig_getDlength g mod 4 \<noteq> 0 then 48 + dig_getDlength g + (4 - dig_getDlength g mod 4)
       else 48 + dig_getDlength g)"
  proof -
    have "\<not> COMMON_BUF_SIZE < dig_tail g + (4 - dig_getDlength g mod 4)" if "dig_getDlength g mod 4 \<noteq> 0"
      using that t(2) by presburger
    then show ?thesis using t(1) by (auto simp: dig_pad_def PAD_WORD_LEN_def Let_def)
  qed
  have m: "(48 + dig_getDlength g) mod 4 = dig_getDlength g mod 4" by presburger
  have "getPDUlength (pdu_header b) = cb_getRemain b"
    using d tl m by (simp add: getPDUlength_def sizeof_iSCSIHeader_def PAD_WORD_LEN_def b pdu_cbuf_def
        cb_getRemain_def)
  moreover have "getITT (pdu_header b) = di_itt (dig_bhs g)" unfolding h using ov by (simp add: getITT_def)
  ultimately show ?thesis using d ov
    by (simp add: getDataSegmentOffset_def sizeof_iSCSIHeader_def b pdu_cbuf_def)
qed

theorem datain_pdu_consistent_witness:
  "\<exists>g b g'. reserveDataSegment 13 (DataInGenerator (\<lambda>_. 0)) = (True, g) \<and> dig_serialize g = (b, g') \<and>
     cb_getRemain b = 64"
proof -
  have z: "dig_getDlength (DataInGenerator (\<lambda>_. 0)) = 0" by code_simp
  from dig_ok_reserve [OF dig_ok_new z, of 13] obtain g where
    g: "reserveDataSegment 13 (DataInGenerator (\<lambda>_. 0)) = (True, g)" "dig_ok g" "dig_getDlength g = 13"
    by (auto simp: COMMON_BUF_SIZE_def)
  obtain b g' where s: "dig_serialize g = (b, g')" by fastforce
  have h: "getHlength (pdu_header b) = 0"
  proof -
    have wf: "di_wf (dig_bhs g)" using g(2) by (simp add: dig_ok_def)
    have "dig_bhs (dig_pad g) = dig_bhs g" by (simp add: dig_pad_def Let_def)
    then have "b = pdu_cbuf (DataInHeader_bytes (dig_bhs g)) (dig_mem (dig_pad g)) (dig_tail (dig_pad g))"
      using s by (auto simp: dig_serialize_def dig_cbuf_def)
    then show ?thesis using DataInHeader_overlay [OF wf]
      by (simp add: pdu_header_cbuf getHlength_def)
  qed
  from datain_pdu_consistent [OF g(2) s] g(3)
  have "getPDUlength (pdu_header b) = cb_getRemain b" "getDlength (pdu_header b) = 13" by auto
  then have "cb_getRemain b = 64"
    using h by (simp add: getPDUlength_def sizeof_iSCSIHeader_def PAD_WORD_LEN_def)
  with g(1) s show ?thesis by blast
qed

lemma getPDUlength_bounds:
  "48 + getHlength h + getDlength h \<le> getPDUlength h \<and> getPDUlength h < 52 + getHlength h + getDlength h \<and>
     getPDUlength h mod 4 = 0"
proof -
  define n where "n = 48 + getHlength h + getDlength h"
  have "getPDUlength h = (if n mod 4 \<noteq> 0 then n + (4 - n mod 4) else n)"
    by (simp add: getPDUlength_def sizeof_iSCSIHeader_def PAD_WORD_LEN_def n_def)
  moreover have "52 + getHlength h + getDlength h = n + 4" by (simp add: n_def)
  moreover have "n \<le> p \<and> p < n + 4 \<and> p mod 4 = 0" if "p = (if n mod 4 \<noteq> 0 then n + (4 - n mod 4) else n)"
    for p
    using that by presburger
  ultimately show ?thesis unfolding n_def [symmetric] by metis
qed

text \<open>A logical unit number that is built from an identifier is not read back: the constructor
  stores network byte order and \<^verbatim>\<open>get\<close> returns the raw word, so every identifier but 0 and byte
  palindromes comes back byte-swapped.\<close>

theorem LUN_get_swaps:
  "LUN_get (LUN n) = htonl n \<and> LUN_get (LUN 1) = 0x01000000"
proof -
  have "LUN_get (LUN n) = htonl n" for n by (simp add: LUN_get_def LUN_def)
  then show ?thesis by (simp add: htonl_def) code_simp
qed

text \<open>In the overflow case a SCSI response announces a data segment that it does not carry: the
  header's PDU length exceeds the bytes that are sent, so the initiator takes the following PDU for
  data.\<close>

theorem rsp_overflow_announces_data:
  assumes "0 < expected" and "expected < cur" and "expected < 2 ^ 24"
  shows "let b = rsp_serialize mem (rsp_setResidualCount expected cur SCSIRspGenerator)
    in cb_getRemain b = 48 \<and> getPDUlength (pdu_header b) \<ge> 48 + unat expected"
proof -
  let ?h = "rsp_setResidualCount expected cur SCSIRspGenerator"
  have n: "\<not> expected > cur" using assms(2) by simp
  have ov: "length (SCSIRspHeader_bytes ?h) = 48"
    "ih_dlength (iSCSIHeader_of (SCSIRspHeader_bytes ?h)) = hton24 expected"
    using n assms(2) by (simp_all add: rsp_setResidualCount_def rsp_setDlength_def SCSIRspGenerator_def
        new_SCSIRspHeader_def SCSIRspHeader_bytes_def iSCSIHeader_of_def)
  have "getDlength (pdu_header (rsp_serialize mem ?h)) = unat expected"
    using ov assms(3) by (simp add: rsp_serialize_def pdu_header_cbuf getDlength_def ntoh24_hton24_small)
  with getPDUlength_bounds [of "pdu_header (rsp_serialize mem ?h)"] show ?thesis
    by (simp add: rsp_serialize_def pdu_cbuf_def cb_getRemain_def Let_def)
qed

theorem rsp_overflow_announces_data_witness:
  "getPDUlength (pdu_header (rsp_serialize (\<lambda>_. 0) (rsp_setResidualCount 512 1024 SCSIRspGenerator))) \<ge> 560"
  using rsp_overflow_announces_data [of 512 1024 "\<lambda>_. 0"] by (simp add: Let_def)

end
