(* ===== verification/Tokenizer.thy ===== *)
theory Tokenizer
  imports Protocol DiskWriter_Correct
begin

text \<open>
  The tokenizer of \<^verbatim>\<open>include/iscsi/tokenizer.h\<close> and \<^verbatim>\<open>src/iscsi/tokenizer.cpp\<close>: it cuts the bytes of
  a connection's receive buffers into PDUs and hands out the data segment of the front PDU as a
  write segment that shares the receive buffers.
\<close>

section \<open>Tokens\<close>

text \<open>A token keeps the address of its header, a buffer number and an offset, and the buffers the
  PDU lies in.\<close>

record iSCSIToken =
  tk_bhs :: "cbuf_ptr \<times> nat"
  tk_cbufs :: "cbuf_ptr list"

datatype token_status = TOKEN_HEAD | TOKEN_PARTIAL | TOKEN_COMPLETE

record iSCSITokenizer =
  tz_bhss :: "iSCSIToken list"
  tz_status :: token_status
  tz_offset :: nat

definition new_iSCSITokenizer :: iSCSITokenizer where
  "new_iSCSITokenizer = \<lparr>tz_bhss = [], tz_status = TOKEN_HEAD, tz_offset = 0\<rparr>"

text \<open>The 48 bytes at an address; a header at the edge of a buffer continues in the buffer's spare
  space behind its size, where \<^verbatim>\<open>push\<close> has copied the rest.\<close>

definition bhs_bytes :: "buf_store \<Rightarrow> cbuf_ptr \<times> nat \<Rightarrow> u8 list" where
  "bhs_bytes st a = map (cb_bytes (bs_buf st (fst a))) [snd a..<snd a + 48]"

definition tz_empty :: "iSCSITokenizer \<Rightarrow> bool" where
  "tz_empty t \<longleftrightarrow> tz_bhss t = []"

definition tz_frontHeader :: "buf_store \<Rightarrow> iSCSITokenizer \<Rightarrow> u8 list" where
  "tz_frontHeader st t = bhs_bytes st (tk_bhs (hd (tz_bhss t)))"

definition tz_pop :: "iSCSITokenizer \<Rightarrow> bool \<times> iSCSITokenizer" where
  "tz_pop t = (if tz_bhss t = [] then (False, t) else (True, t\<lparr>tz_bhss := tl (tz_bhss t)\<rparr>))"

section \<open>Cutting the stream into tokens\<close>

text \<open>\<^verbatim>\<open>while(pdu_length > 0)\<close>: when no buffer has bytes left the loop spins, which is \<open>None\<close> here.\<close>

fun tz_consume ::
  "nat \<Rightarrow> nat \<Rightarrow> iovec_container \<Rightarrow> buf_store \<Rightarrow> cbuf_ptr list \<Rightarrow>
     (cbuf_ptr list \<times> iovec_container \<times> buf_store) option" where
  "tz_consume 0 n ic st acc = (if n = 0 then Some (acc, ic, st) else None)"
| "tz_consume (Suc fuel) n ic st acc =
     (if n = 0 then Some (acc, ic, st)
      else case ic_stepForwardOffset ic n st of
             (None, n', ic', st') \<Rightarrow> tz_consume fuel n' ic' st' acc
           | (Some p, n', ic', st') \<Rightarrow> tz_consume fuel n' ic' st' (acc @ [p]))"

text \<open>The \<^verbatim>\<open>memcpy\<close> of the header's rest from the second buffer into the spare space of the first.\<close>

definition tz_copy_edge :: "cbuf_ptr \<Rightarrow> cbuf_ptr \<Rightarrow> nat \<Rightarrow> buf_store \<Rightarrow> buf_store" where
  "tz_copy_edge p q n st =
     (let b = bs_buf st p; c = bs_buf st q
      in st\<lparr>bs_buf := (bs_buf st)(p := b\<lparr>cb_bytes :=
           (\<lambda>i. if cb_size b \<le> i \<and> i < cb_size b + n then cb_bytes c (i - cb_size b) else cb_bytes b i)\<rparr>)\<rparr>)"

text \<open>One pass from the label \<^verbatim>\<open>multi_tokens\<close>; \<open>fuel\<close> bounds the passes and the inner loops.\<close>

fun tz_tokens ::
  "nat \<Rightarrow> (nat \<Rightarrow> u8) \<Rightarrow> iSCSITokenizer \<Rightarrow> iovec_container \<Rightarrow> buf_store \<Rightarrow>
     (bool \<times> iSCSITokenizer \<times> iovec_container \<times> buf_store) option" where
  "tz_tokens 0 m t ic st = None"
| "tz_tokens (Suc fuel) m t ic st =
     (let finish = (\<lambda>t' ic' st'. case ic_update fuel m ic' st' of
                      None \<Rightarrow> None | Some (ic2, st2) \<Rightarrow> Some (True, t', ic2, st2))
      in if tz_status t = TOKEN_HEAD \<and> tz_offset t < sizeof_iSCSIHeader then finish t ic st
         else case ic_cbufs ic of
                [] \<Rightarrow> None
              | p # ps \<Rightarrow>
                  let b = bs_buf st p; off = cb_offset b; edge = cb_isEdge b off sizeof_iSCSIHeader
                  in if edge \<and> ps = [] then None
                     else let st1 = (if edge
                                     then tz_copy_edge p (hd ps) (sizeof_iSCSIHeader - (cb_size b - off)) st
                                     else st);
                              pdu_length = getPDUlength (iSCSIHeader_of (bhs_bytes st1 (p, off)))
                          in if pdu_length > tz_offset t
                             then finish (t\<lparr>tz_status := TOKEN_PARTIAL\<rparr>) ic st1
                             else case tz_consume fuel pdu_length ic st1 [] of
                                    None \<Rightarrow> None
                                  | Some (cbs, ic2, st2) \<Rightarrow>
                                      let t2 = t\<lparr>tz_bhss := tz_bhss t @ [\<lparr>tk_bhs = (p, off), tk_cbufs = cbs\<rparr>],
                                                 tz_status := TOKEN_HEAD,
                                                 tz_offset := tz_offset t - pdu_length\<rparr>
                                      in if tz_offset t2 > 0
                                         then case ic_update fuel m ic2 st2 of
                                                None \<Rightarrow> None
                                              | Some (ic3, st3) \<Rightarrow> tz_tokens fuel m t2 ic3 st3
                                         else finish t2 ic2 st2)"

definition tz_push ::
  "nat \<Rightarrow> (nat \<Rightarrow> u8) \<Rightarrow> nat \<Rightarrow> iSCSITokenizer \<Rightarrow> iovec_container \<Rightarrow> buf_store \<Rightarrow>
     (bool \<times> iSCSITokenizer \<times> iovec_container \<times> buf_store) option" where
  "tz_push fuel m sz t ic st =
     (let (ok, st1) = ic_stepForwardTail ic sz st
      in if \<not> ok then Some (False, t, ic, st1)
         else tz_tokens fuel m (t\<lparr>tz_offset := tz_offset t + sz\<rparr>) ic st1)"

section \<open>The data segment of the front token\<close>

text \<open>The buffers of the token as values: the write segment shares them, and the bytes of a received
  PDU are not written again.\<close>

record token =
  tkv_off :: nat
  tkv_cbufs :: "common_buf list"

definition token_of :: "buf_store \<Rightarrow> iSCSIToken \<Rightarrow> token" where
  "token_of st t = \<lparr>tkv_off = snd (tk_bhs t), tkv_cbufs = map (bs_buf st) (tk_cbufs t)\<rparr>"

definition token_bytes :: "token \<Rightarrow> u8 list" where
  "token_bytes t = map (cb_bytes (hd (tkv_cbufs t))) [tkv_off t..<tkv_off t + 48]"

definition token_header :: "token \<Rightarrow> iSCSIHeader" where
  "token_header t = iSCSIHeader_of (token_bytes t)"

text \<open>The loop \<^verbatim>\<open>while(dlength > stored)\<close> over the remaining buffers.\<close>

fun tk_add_rest :: "nat \<Rightarrow> nat \<Rightarrow> common_buf list \<Rightarrow> write_segment \<Rightarrow> write_segment option" where
  "tk_add_rest dlength stored [] ws = (if dlength > stored then None else Some ws)"
| "tk_add_rest dlength stored (b # bs) ws =
     (if dlength > stored
      then let sz = min (dlength - stored) (cb_size b); (ok, ws') = addDataSegment b sz ws
           in if \<not> ok then None else tk_add_rest dlength (stored + sz) bs ws'
      else Some ws)"

definition frontDataSegment :: "token \<Rightarrow> nat \<Rightarrow> nat \<Rightarrow> write_segment option" where
  "frontDataSegment t lba transfer_length =
     (let h = token_header t; dlength = getDlength h; ds_offset = getDataSegmentOffset h;
          first = hd (tkv_cbufs t); rest = tl (tkv_cbufs t)
      in if ds_offset = 0 then None
         else let place =
                (if cb_isEdge first (tkv_off t) sizeof_iSCSIHeader
                 then if tkv_off t > cb_size first then None
                      else if rest = [] then None
                      else Some (sizeof_iSCSIHeader - (cb_size first - tkv_off t), hd rest, tl rest)
                 else Some (ds_offset + tkv_off t, first, rest))
              in case place of
                   None \<Rightarrow> None
                 | Some (off, b, bs) \<Rightarrow>
                     let stored = min dlength (sub64 (cb_size b) off);
                         (ok, ws) = set1stDataSegment b stored off (WriteSegment lba transfer_length)
                     in if \<not> ok then None else tk_add_rest dlength stored bs ws)"

lemma addDataSegment_ok:
  "ws_cbufs ws \<noteq> [] \<Longrightarrow> ws_stored ws + sz \<le> LBA2OFFSET (ws_transfer_length ws) \<Longrightarrow>
     addDataSegment b sz ws = (True, ws\<lparr>ws_stored := ws_stored ws + sz, ws_cbufs := ws_cbufs ws @ [b]\<rparr>)"
  by (simp add: addDataSegment_def Let_def)

lemma ws_pieces_append:
  "bs \<noteq> [] \<Longrightarrow> ws_pieces ds (bs @ cs) = ws_pieces ds bs @ ws_pieces 0 cs"
proof (induction bs arbitrary: ds)
  case (Cons b bs)
  then show ?case by (cases bs) auto
qed simp

lemma tk_add_rest_ok:
  "ws_cbufs ws \<noteq> [] \<Longrightarrow> ws_stored ws = stored \<Longrightarrow> stored \<le> dlength \<Longrightarrow>
     dlength \<le> LBA2OFFSET (ws_transfer_length ws) \<Longrightarrow> dlength \<le> stored + length (ws_pieces 0 bs) \<Longrightarrow>
     \<exists>k. tk_add_rest dlength stored bs ws =
           Some (ws\<lparr>ws_cbufs := ws_cbufs ws @ take k bs, ws_stored := dlength\<rparr>) \<and>
         dlength \<le> stored + length (ws_pieces 0 (take k bs))"
proof (induction bs arbitrary: stored ws)
  case Nil
  then show ?case by auto
next
  case (Cons b bs)
  show ?case
  proof (cases "dlength > stored")
    case False
    then show ?thesis using Cons.prems by (intro exI [of _ 0]) simp
  next
    case True
    define sz where "sz = min (dlength - stored) (cb_size b)"
    let ?ws = "ws\<lparr>ws_stored := stored + sz, ws_cbufs := ws_cbufs ws @ [b]\<rparr>"
    have le: "stored + sz \<le> dlength" using True by (simp add: sz_def)
    have add: "addDataSegment b sz ws = (True, ?ws)"
      using addDataSegment_ok [of ws sz b] Cons.prems le by simp
    have "dlength \<le> stored + sz + length (ws_pieces 0 bs)" using Cons.prems(5) by (simp add: sz_def)
    from Cons.IH [of ?ws "stored + sz"] this Cons.prems le obtain k where
      k: "tk_add_rest dlength (stored + sz) bs ?ws =
        Some (?ws\<lparr>ws_cbufs := ws_cbufs ?ws @ take k bs, ws_stored := dlength\<rparr>)"
      "dlength \<le> stored + sz + length (ws_pieces 0 (take k bs))" by auto
    have sl: "sz \<le> cb_size b" by (simp add: sz_def)
    have "tk_add_rest dlength stored (b # bs) ws = tk_add_rest dlength (stored + sz) bs ?ws"
      using True add by (simp add: Let_def sz_def [symmetric])
    then show ?thesis using k sl by (intro exI [of _ "Suc k"]) simp
  qed
qed

text \<open>A token that holds a whole PDU without additional header segments: the buffers carry the
  header and the data one after the other.\<close>

definition token_ok :: "token \<Rightarrow> bool" where
  "token_ok t \<longleftrightarrow> tkv_cbufs t \<noteq> [] \<and> bufs_ok (tkv_off t) (tkv_cbufs t) \<and>
     getHlength (token_header t) = 0 \<and> (\<forall>b \<in> set (tl (tkv_cbufs t)). 48 \<le> cb_size b) \<and>
     48 + getDlength (token_header t) \<le> length (ws_pieces (tkv_off t) (tkv_cbufs t))"

definition token_data :: "token \<Rightarrow> u8 list" where
  "token_data t = take (getDlength (token_header t)) (drop 48 (ws_pieces (tkv_off t) (tkv_cbufs t)))"

lemma frontDataSegment_ok:
  assumes "token_ok t" and "0 < getDlength (token_header t)"
    and "getDlength (token_header t) \<le> LBA2OFFSET n"
  shows "\<exists>ws. frontDataSegment t lba n = Some ws \<and> ws_lba ws = lba \<and> ws_transfer_length ws = n \<and>
    ws_rlba ws = lba \<and> ws_rlength ws = n \<and> \<not> ws_copy ws \<and> ws_stored ws = getDlength (token_header t) \<and>
    bufs_ok (ws_ds_offset ws) (ws_cbufs ws) \<and>
    take (getDlength (token_header t)) (ws_pieces (ws_ds_offset ws) (ws_cbufs ws)) = token_data t"
proof -
  define dl where "dl = getDlength (token_header t)"
  define first where "first = hd (tkv_cbufs t)"
  define rest where "rest = tl (tkv_cbufs t)"
  have cb: "tkv_cbufs t = first # rest" using assms(1) by (simp add: token_ok_def first_def rest_def)
  have ok: "tkv_off t \<le> cb_size first" "cb_size first < 2 ^ 64" "bufs_ok 0 rest"
    "\<forall>b \<in> set rest. 48 \<le> cb_size b" "48 + dl \<le> length (ws_pieces (tkv_off t) (tkv_cbufs t))"
    using assms(1) unfolding token_ok_def cb dl_def by auto
  have dso: "getDataSegmentOffset (token_header t) = 48"
    using assms(1,2) by (simp add: getDataSegmentOffset_def sizeof_iSCSIHeader_def token_ok_def)
  text \<open>Both cases find a first buffer, an offset in it and the buffers behind it.\<close>
  have core: "\<exists>ws. (let stored = min dl (sub64 (cb_size b) off);
          (ok, ws) = set1stDataSegment b stored off (WriteSegment lba n)
        in if \<not> ok then None else tk_add_rest dl stored bs ws) = Some ws \<and>
      ws_lba ws = lba \<and> ws_transfer_length ws = n \<and> ws_rlba ws = lba \<and> ws_rlength ws = n \<and>
      \<not> ws_copy ws \<and> ws_stored ws = dl \<and> bufs_ok (ws_ds_offset ws) (ws_cbufs ws) \<and>
      take dl (ws_pieces (ws_ds_offset ws) (ws_cbufs ws)) = take dl (ws_pieces off (b # bs))"
    if b: "off \<le> cb_size b" "cb_size b < 2 ^ 64" "bufs_ok 0 bs" "dl \<le> length (ws_pieces off (b # bs))"
    for b off bs
  proof -
    define stored where "stored = min dl (cb_size b - off)"
    let ?w = "(WriteSegment lba n)\<lparr>ws_stored := stored, ws_cbufs := [b], ws_ds_offset := off\<rparr>"
    have s: "sub64 (cb_size b) off = cb_size b - off" using b by simp
    have "stored \<le> LBA2OFFSET n" using assms(3) by (simp add: stored_def dl_def)
    then have set1: "set1stDataSegment b stored off (WriteSegment lba n) = (True, ?w)"
      by (simp add: set1stDataSegment_def WriteSegment_def Let_def)
    have "dl \<le> stored + length (ws_pieces 0 bs)" using b(4) by (simp add: stored_def)
    from tk_add_rest_ok [of ?w stored dl bs] this assms(3) obtain k where
      k: "tk_add_rest dl stored bs ?w = Some (?w\<lparr>ws_cbufs := [b] @ take k bs, ws_stored := dl\<rparr>)"
      "dl \<le> stored + length (ws_pieces 0 (take k bs))"
      by (auto simp: stored_def dl_def WriteSegment_def)
    have "bufs_ok 0 (take k bs)" using b(3)
    proof (induction bs arbitrary: k)
      case (Cons c bs)
      then show ?case by (cases k) auto
    qed simp
    moreover have "take dl (ws_pieces off (b # take k bs)) = take dl (ws_pieces off (b # bs))"
    proof (cases "k \<le> length bs \<and> take k bs \<noteq> []")
      case True
      then have "ws_pieces 0 bs = ws_pieces 0 (take k bs) @ ws_pieces 0 (drop k bs)"
        using ws_pieces_append [of "take k bs" 0 "drop k bs"] by simp
      then show ?thesis using k(2) by (simp add: stored_def)
    next
      case False
      then have "take k bs = [] \<or> take k bs = bs" by auto
      then show ?thesis using k(2) by (auto simp: stored_def)
    qed
    ultimately show ?thesis
      using set1 k(1) b(1,2) by (simp add: s stored_def [symmetric] Let_def WriteSegment_def)
  qed
  show ?thesis
  proof (cases "cb_isEdge first (tkv_off t) sizeof_iSCSIHeader")
    case False
    then have e: "tkv_off t + 48 \<le> cb_size first" using ok(1) by (simp add: cb_isEdge_def sizeof_iSCSIHeader_def)
    have d: "drop 48 (ws_pieces (tkv_off t) (tkv_cbufs t)) = ws_pieces (48 + tkv_off t) (first # rest)"
      unfolding cb using e by (simp add: drop_map add.commute)
    then have "dl \<le> length (ws_pieces (48 + tkv_off t) (first # rest))"
      using ok(5) by (metis add_diff_cancel_left' diff_le_mono length_drop)
    moreover have "frontDataSegment t lba n =
      (let stored = min dl (sub64 (cb_size first) (48 + tkv_off t));
          (ok, ws) = set1stDataSegment first stored (48 + tkv_off t) (WriteSegment lba n)
        in if \<not> ok then None else tk_add_rest dl stored rest ws)"
      using False unfolding first_def rest_def dl_def by (simp add: frontDataSegment_def Let_def dso)
    moreover have "token_data t = take dl (ws_pieces (48 + tkv_off t) (first # rest))"
      unfolding token_data_def d dl_def ..
    moreover have "48 + tkv_off t \<le> cb_size first" using e by simp
    ultimately show ?thesis using core [OF _ ok(2,3), of "48 + tkv_off t"] unfolding dl_def by metis
  next
    case True
    then have e: "cb_size first - tkv_off t < 48" by (simp add: cb_isEdge_def sizeof_iSCSIHeader_def)
    obtain b bs where r: "rest = b # bs"
      using ok(5) e unfolding cb by (cases rest) auto
    define off where "off = 48 - (cb_size first - tkv_off t)"
    have b: "off \<le> cb_size b" "cb_size b < 2 ^ 64" "bufs_ok 0 bs" using ok(3,4) r by (auto simp: off_def)
    have d: "drop 48 (ws_pieces (tkv_off t) (tkv_cbufs t)) = ws_pieces off (b # bs)"
      unfolding cb r using e b(1) by (simp add: off_def drop_map)
    then have "dl \<le> length (ws_pieces off (b # bs))"
      using ok(5) by (metis add_diff_cancel_left' diff_le_mono length_drop)
    moreover have "frontDataSegment t lba n =
      (let stored = min dl (sub64 (cb_size b) off);
          (ok, ws) = set1stDataSegment b stored off (WriteSegment lba n)
        in if \<not> ok then None else tk_add_rest dl stored bs ws)"
      using True ok(1) r unfolding first_def rest_def dl_def off_def
      by (simp add: frontDataSegment_def Let_def dso sizeof_iSCSIHeader_def)
    moreover have "token_data t = take dl (ws_pieces off (b # bs))"
      unfolding token_data_def d dl_def ..
    ultimately show ?thesis using core [OF b] unfolding dl_def by metis
  qed
qed

text \<open>C36. The data segment of a received PDU without additional header segments (\<open>token_ok\<close>), wherever the header and
  the data are split over the receive buffers, becomes a write segment whose bytes are exactly the data of the PDU, provided
  they fit into the announced blocks.\<close>

theorem frontDataSegment_correct:
  assumes "token_ok t" and "0 < getDlength (token_header t)"
    and "getDlength (token_header t) \<le> LBA2OFFSET n"
  shows "\<exists>ws. frontDataSegment t lba n = Some ws \<and> ws_lba ws = lba \<and> ws_transfer_length ws = n \<and>
    ws_rlba ws = lba \<and> ws_rlength ws = n \<and> \<not> ws_copy ws \<and> ws_stored ws = getDlength (token_header t) \<and>
    bufs_ok (ws_ds_offset ws) (ws_cbufs ws) \<and>
    take (getDlength (token_header t)) (ws_pieces (ws_ds_offset ws) (ws_cbufs ws)) = token_data t"
  using frontDataSegment_ok [OF assms] .

definition ex_token :: token where
  "ex_token = \<lparr>tkv_off = 0, tkv_cbufs = [\<lparr>cb_bytes = (\<lambda>i. if i = 6 then 2 else if i < 48 then 0 else 9),
     cb_size = 560, cb_offset = 0, cb_tail = 560\<rparr>]\<rparr>"

lemma ex_token_dlength: "getDlength (token_header ex_token) = 512" "getHlength (token_header ex_token) = 0"
  by code_simp+

lemma ex_token_ok: "token_ok ex_token"
  unfolding token_ok_def ex_token_dlength by (simp add: ex_token_def)

theorem frontDataSegment_correct_witness:
  "\<exists>ws. frontDataSegment ex_token 4 1 = Some ws \<and>
     take 512 (ws_pieces (ws_ds_offset ws) (ws_cbufs ws)) = replicate 512 9"
proof -
  have "token_data ex_token = replicate 512 9"
    unfolding token_data_def ex_token_dlength
    by (intro nth_equalityI) (auto simp: ex_token_def simp del: upt_rec_numeral)
  with frontDataSegment_correct [OF ex_token_ok, of 1 4] ex_token_dlength(1) show ?thesis
    by (auto simp: LBA2OFFSET_eq)
qed

end
