(* ===== verification/Session.thy ===== *)
theory Session
  imports SendTasks Tokenizer "HOL-Library.While_Combinator"
begin

text \<open>
  The session of \<^verbatim>\<open>include/session.h\<close> and \<^verbatim>\<open>src/session.cpp\<close>: its attributes, sequence
  numbers, connections, outstanding writes, queue of send tasks and table of protocol handlers,
  and the connection state of \<^verbatim>\<open>include/connection.h\<close>. Member classes are flattened into one record.
\<close>

section \<open>State\<close>

datatype attr_value = AttrBool bool | AttrNum u32

record iscsi_connection =
  cn_cid :: u16
  cn_statsn_gen :: seq_counter

definition iSCSIConnection :: iscsi_connection where
  "iSCSIConnection = \<lparr>cn_cid = 0, cn_statsn_gen = seq_init\<rparr>"

definition getSTATSN :: "iscsi_connection \<Rightarrow> u32" where
  "getSTATSN c = seq_cur (cn_statsn_gen c)"

definition advanceSTATSN :: "iscsi_connection \<Rightarrow> iscsi_connection" where
  "advanceSTATSN c = c\<lparr>cn_statsn_gen := snd (seq_call (cn_statsn_gen c))\<rparr>"

definition setSTATSN :: "u32 \<Rightarrow> iscsi_connection \<Rightarrow> iscsi_connection" where
  "setSTATSN sn c = c\<lparr>cn_statsn_gen := seq_set sn (cn_statsn_gen c)\<rparr>"

definition setCID :: "u16 \<Rightarrow> iscsi_connection \<Rightarrow> iscsi_connection" where
  "setCID cid c = c\<lparr>cn_cid := cid\<rparr>"

text \<open>The tasks of \<^verbatim>\<open>include/task.h\<close>; the first argument of the data tasks is the socket. The tasks
  that change connections and sessions carry the session they were given, a reference.\<close>

datatype task =
  TSend int send_task | TSendfile int sendfile_task | TSendCache int send_cache_task
| TCPCork int | TCPUncork int | CloseSession nat | CloseConnection nat int | CreateReactor nat int
| RemoveReactor nat

text \<open>The handlers of the protocol table. Those of a normal session copy parameters of the session
  when they are created: the negotiated lengths and flags.\<close>

record handler_params =
  hp_mrds :: u32
  hp_firstBurstLength :: u32
  hp_maxBurstLength :: u32
  hp_immediateEnabled :: bool
  hp_initialR2T :: bool

datatype handler =
  LoginHandler | TextHandler | LogoutHandler | CommandHandler handler_params | DataOutHandler u32
| NopOutHandler | NopInHandler | TaskMngHandler

record iscsi_initiator =
  ini_luns :: "logical_volume list"
  ini_MaxRecvDataSegmentLength :: u32
  ini_alias :: string
  ini_authens :: "(string \<times> string) list"

record iscsi_session =
  ses_type :: nat
  ses_sid :: session_id
  ses_tsih :: u16
  ses_tag :: u16
  ses_expcmdsn_gen :: seq_counter
  ses_maxcmdsn_gen :: seq_counter
  ses_tokens :: "token list"
  ses_tasks :: "task list"
  ses_infos :: "u32 \<rightharpoonup> data_out_info"
  ses_ports :: "(int \<times> iscsi_connection) list"
  ses_initiator :: "iscsi_initiator option"
  ses_wcaches :: "write_cache list"
  ses_attrs :: "string \<rightharpoonup> attr_value"
  ses_protos :: "u8 \<rightharpoonup> handler"
  ses_mrds_length :: u32

definition iSCSI_LOGIN_SESSION :: nat where "iSCSI_LOGIN_SESSION = 0"
definition iSCSI_DISCOVERY_SESSION :: nat where "iSCSI_DISCOVERY_SESSION = 1"
definition iSCSI_NORMAL_SESSION :: nat where "iSCSI_NORMAL_SESSION = 2"

lemmas session_type_defs = iSCSI_LOGIN_SESSION_def iSCSI_DISCOVERY_SESSION_def iSCSI_NORMAL_SESSION_def

section \<open>Attributes and construction\<close>

definition setAttr :: "string \<Rightarrow> attr_value \<Rightarrow> iscsi_session \<Rightarrow> iscsi_session" where
  "setAttr a v s = s\<lparr>ses_attrs := (ses_attrs s)(a \<mapsto> v)\<rparr>"

definition getAttr :: "string \<Rightarrow> iscsi_session \<Rightarrow> attr_value option" where
  "getAttr a s = ses_attrs s a"

text \<open>The configuration is the parameter \<open>num\<close> for the 64-bit numbers and \<open>flag\<close> for the booleans; the
  session keeps the low 32 bits. Note the attribute name that is spelled differently in the
  configuration.\<close>

definition iSCSISession :: "(string \<Rightarrow> u64) \<Rightarrow> (string \<Rightarrow> bool) \<Rightarrow> iscsi_session" where
  "iSCSISession num flag =
     \<lparr>ses_type = iSCSI_LOGIN_SESSION, ses_sid = SessionID, ses_tsih = 0, ses_tag = 1,
      ses_expcmdsn_gen = seq_set 1 seq_init, ses_maxcmdsn_gen = seq_set 2 seq_init,
      ses_tokens = [], ses_tasks = [], ses_infos = Map.empty, ses_ports = [], ses_initiator = None,
      ses_wcaches = [],
      ses_attrs =
        [''DefaultTime2Wait'' \<mapsto> AttrNum (ucast (num ''DefaultTime2Wait'')),
         ''DefaultTime2Retain'' \<mapsto> AttrNum (ucast (num ''DefaultTime2Retain'')),
         ''MaxBurstLength'' \<mapsto> AttrNum (ucast (num ''MaxBurstLength'')),
         ''FirstBurstLength'' \<mapsto> AttrNum (ucast (num ''FirstBurstLength'')),
         ''MaxConnections'' \<mapsto> AttrNum (ucast (num ''MaxConnections'')),
         ''MaxOutstandingR2T'' \<mapsto> AttrNum (ucast (num ''MaxOutStandingR2T'')),
         ''ErrorRecoveryLevel'' \<mapsto> AttrNum (ucast (num ''ErrorRecoveryLevel'')),
         ''MaxRecvDataSegmentLength'' \<mapsto> AttrNum (ucast (num ''MaxRecvDataSegmentLength'')),
         ''InitialR2T'' \<mapsto> AttrBool (flag ''InitialR2T''),
         ''ImmediateData'' \<mapsto> AttrBool (flag ''ImmediateData''),
         ''IFMarker'' \<mapsto> AttrBool (flag ''IFMarker''),
         ''OFMarker'' \<mapsto> AttrBool (flag ''OFMarker''),
         ''DataPDUInOrder'' \<mapsto> AttrBool (flag ''DataPDUInOrder''),
         ''DataSequenceInOrder'' \<mapsto> AttrBool (flag ''DataSequenceInOrder'')],
      ses_protos = [iSCSI_OP_LOGIN_CMD \<mapsto> LoginHandler],
      ses_mrds_length = ucast (num ''MaxRecvDataSegmentLength'')\<rparr>"

definition type_getStr :: "nat \<Rightarrow> string" where
  "type_getStr t =
     (if t = iSCSI_DISCOVERY_SESSION then ''Discovery''
      else if t = iSCSI_NORMAL_SESSION then ''Normal'' else ''Login'')"

definition type_set :: "string \<Rightarrow> iscsi_session \<Rightarrow> iscsi_session" where
  "type_set str s =
     s\<lparr>ses_type := (if str = ''Discovery'' then iSCSI_DISCOVERY_SESSION
                    else if str = ''Normal'' then iSCSI_NORMAL_SESSION else iSCSI_LOGIN_SESSION)\<rparr>"

section \<open>Stages\<close>

definition shift2Discovery :: "iscsi_session \<Rightarrow> bool \<times> iscsi_session" where
  "shift2Discovery s =
     (if ses_type s \<noteq> iSCSI_DISCOVERY_SESSION then (False, s)
      else (True, s\<lparr>ses_protos := (ses_protos s)(iSCSI_OP_TEXT_CMD \<mapsto> TextHandler,
                                                iSCSI_OP_LOGOUT_CMD \<mapsto> LogoutHandler)\<rparr>))"

text \<open>\<^verbatim>\<open>WriteHandler(parent)\<close> and \<^verbatim>\<open>ReadHandler(parent)\<close> read the initiator and the attributes; without
  an initiator the former throws. The session's constructor has set all the attributes with these
  types, so the default that the getters below return for a missing one is never used.\<close>

definition attr_num :: "u32 \<Rightarrow> string \<Rightarrow> iscsi_session \<Rightarrow> u32" where
  "attr_num junk a s = (case getAttr a s of Some (AttrNum n) \<Rightarrow> n | _ \<Rightarrow> junk)"

definition attr_bool :: "bool \<Rightarrow> string \<Rightarrow> iscsi_session \<Rightarrow> bool" where
  "attr_bool junk a s = (case getAttr a s of Some (AttrBool b) \<Rightarrow> b | _ \<Rightarrow> junk)"

definition new_params :: "iscsi_session \<Rightarrow> handler_params option" where
  "new_params s =
     (case ses_initiator s of
        None \<Rightarrow> None
      | Some ini \<Rightarrow> Some \<lparr>hp_mrds = ini_MaxRecvDataSegmentLength ini,
          hp_firstBurstLength = attr_num 0 ''FirstBurstLength'' s,
          hp_maxBurstLength = attr_num 0 ''MaxBurstLength'' s,
          hp_immediateEnabled = attr_bool False ''ImmediateData'' s,
          hp_initialR2T = attr_bool False ''InitialR2T'' s\<rparr>)"

definition CMD_QUEUE_SIZE32 :: u32 where
  "CMD_QUEUE_SIZE32 = 0x8f"

definition shift2Normal :: "iscsi_session \<Rightarrow> (bool \<times> iscsi_session) option" where
  "shift2Normal s =
     (if ses_type s \<noteq> iSCSI_NORMAL_SESSION then Some (False, s)
      else case new_params s of
        None \<Rightarrow> None
      | Some hp \<Rightarrow>
          let s1 = s\<lparr>ses_protos := (ses_protos s)(
                        iSCSI_OP_SCSI_CMD \<mapsto> CommandHandler hp,
                        iSCSI_OP_SCSI_DATA \<mapsto> DataOutHandler (hp_mrds hp),
                        iSCSI_OP_NOOP_OUT \<mapsto> NopOutHandler,
                        iSCSI_OP_NOOP_IN \<mapsto> NopInHandler,
                        iSCSI_OP_TASK_MGT_REQ \<mapsto> TaskMngHandler,
                        iSCSI_OP_LOGOUT_CMD \<mapsto> LogoutHandler)\<rparr>
          in Some (True, s1\<lparr>ses_maxcmdsn_gen :=
                 seq_set (seq_cur (ses_maxcmdsn_gen s1) + CMD_QUEUE_SIZE32) (ses_maxcmdsn_gen s1)\<rparr>))"

section \<open>Command sequence numbers\<close>

definition getEXPCMDSN :: "iscsi_session \<Rightarrow> u32" where
  "getEXPCMDSN s = seq_cur (ses_expcmdsn_gen s)"

definition getMAXCMDSN :: "iscsi_session \<Rightarrow> u32" where
  "getMAXCMDSN s = seq_cur (ses_maxcmdsn_gen s)"

text \<open>\<^verbatim>\<open>getCMDQueue\<close> is computed in 32 bits and widened.\<close>

definition cmd_queue :: "seq_counter \<Rightarrow> seq_counter \<Rightarrow> nat" where
  "cmd_queue expsn maxsn = unat (seq_cur maxsn - seq_cur expsn + 1)"

definition getCMDQueue :: "iscsi_session \<Rightarrow> nat" where
  "getCMDQueue s = cmd_queue (ses_expcmdsn_gen s) (ses_maxcmdsn_gen s)"

text \<open>The loop \<^verbatim>\<open>while(getCMDQueue() < queuesize_wil) maxcmdsn_gen();\<close>, \<open>None\<close> when it does not end.\<close>

definition adv_loop :: "nat \<Rightarrow> seq_counter \<Rightarrow> seq_counter \<Rightarrow> seq_counter option" where
  "adv_loop wil expsn = while_option (\<lambda>m. cmd_queue expsn m < wil) (\<lambda>m. snd (seq_call m))"

definition findLargestWriteCache :: "write_cache list \<Rightarrow> write_cache option" where
  "findLargestWriteCache cs =
     fst (fold (\<lambda>c (best, mx). if mx < wc_size c then (Some c, wc_size c) else (best, mx)) cs (None, 0))"

text \<open>The results are the session, the new pool state, and whether the thread waited for a cache to
  be drained. \<open>None\<close>: division by zero in the limitter, or the loop does not end.\<close>

definition advanceCMDSNs ::
  "linear_limitter \<Rightarrow> u64 \<Rightarrow> iscsi_session \<Rightarrow> (iscsi_session \<times> pool_state \<times> bool) option" where
  "advanceCMDSNs lim poolnum s =
     (let s1 = s\<lparr>ses_expcmdsn_gen := snd (seq_call (ses_expcmdsn_gen s))\<rparr>
      in case (if ses_type s1 = iSCSI_DISCOVERY_SESSION then Some 1 else lim_getY lim poolnum) of
           None \<Rightarrow> None
         | Some wil \<Rightarrow>
             (case adv_loop (unat wil) (ses_expcmdsn_gen s1) (ses_maxcmdsn_gen s1) of
                None \<Rightarrow> None
              | Some m \<Rightarrow>
                  let s2 = s1\<lparr>ses_maxcmdsn_gen := m\<rparr>
                  in if poolnum > lim_x2 lim
                     then Some (s2, POOL_STATE_HARD, findLargestWriteCache (ses_wcaches s2) \<noteq> None)
                     else if poolnum > lim_x1 lim then Some (s2, POOL_STATE_SOFT, False)
                     else Some (s2, POOL_STATE_NORMAL, False)))"

section \<open>Outstanding writes\<close>

definition recvinfo_put :: "u32 \<Rightarrow> data_out_info \<Rightarrow> iscsi_session \<Rightarrow> bool \<times> iscsi_session" where
  "recvinfo_put itt i s =
     (case ses_infos s itt of
        Some _ \<Rightarrow> (False, s)
      | None \<Rightarrow> (True, s\<lparr>ses_infos := (ses_infos s)(itt \<mapsto> i)\<rparr>))"

definition recvinfo_get :: "u32 \<Rightarrow> iscsi_session \<Rightarrow> data_out_info option" where
  "recvinfo_get itt s = ses_infos s itt"

definition recvinfo_pop :: "u32 \<Rightarrow> iscsi_session \<Rightarrow> bool \<times> iscsi_session" where
  "recvinfo_pop itt s =
     (case ses_infos s itt of
        None \<Rightarrow> (False, s)
      | Some _ \<Rightarrow> (True, s\<lparr>ses_infos := (ses_infos s)(itt := None)\<rparr>))"

section \<open>Connections\<close>

definition conn_find :: "int \<Rightarrow> iscsi_session \<Rightarrow> iscsi_connection option" where
  "conn_find fd s = map_of (ses_ports s) fd"

fun port_insert :: "int \<Rightarrow> 'v \<Rightarrow> (int \<times> 'v) list \<Rightarrow> (int \<times> 'v) list" where
  "port_insert fd c [] = [(fd, c)]"
| "port_insert fd c ((k, d) # ps) =
     (if fd < k then (fd, c) # (k, d) # ps
      else if fd = k then (fd, c) # ps else (k, d) # port_insert fd c ps)"

definition conn_add :: "int \<Rightarrow> iscsi_connection \<Rightarrow> iscsi_session \<Rightarrow> bool \<times> iscsi_session" where
  "conn_add fd c s =
     (case conn_find fd s of
        Some _ \<Rightarrow> (False, s)
      | None \<Rightarrow> (True, s\<lparr>ses_ports := port_insert fd c (ses_ports s)\<rparr>))"

definition conn_del :: "int \<Rightarrow> iscsi_session \<Rightarrow> bool \<times> iscsi_session" where
  "conn_del fd s =
     (case conn_find fd s of
        None \<Rightarrow> (False, s)
      | Some _ \<Rightarrow> (True, s\<lparr>ses_ports := filter (\<lambda>p. fst p \<noteq> fd) (ses_ports s)\<rparr>))"

definition conn_count :: "iscsi_session \<Rightarrow> nat" where
  "conn_count s = length (ses_ports s)"

definition conn_getInitial :: "iscsi_session \<Rightarrow> iscsi_connection option" where
  "conn_getInitial s = (case ses_ports s of [(fd, c)] \<Rightarrow> Some c | _ \<Rightarrow> None)"

text \<open>Connections are shared by pointer: a change through the pointer is an update in place.\<close>

definition conn_update :: "int \<Rightarrow> (iscsi_connection \<Rightarrow> iscsi_connection) \<Rightarrow> iscsi_session \<Rightarrow> iscsi_session" where
  "conn_update fd f s =
     s\<lparr>ses_ports := map (\<lambda>(k, c). if k = fd then (k, f c) else (k, c)) (ses_ports s)\<rparr>"

section \<open>Send tasks\<close>

definition sendtask_push :: "task \<Rightarrow> iscsi_session \<Rightarrow> iscsi_session" where
  "sendtask_push t s = s\<lparr>ses_tasks := ses_tasks s @ [t]\<rparr>"

text \<open>\<^verbatim>\<open>push(list<TaskPtr> &)\<close> is \<^verbatim>\<open>std::list::merge\<close>, which compares the elements: here the shared
  pointers, so the order \<open>lt\<close> is that of the tasks' addresses.\<close>

fun list_merge :: "('a \<Rightarrow> 'a \<Rightarrow> bool) \<Rightarrow> 'a list \<Rightarrow> 'a list \<Rightarrow> 'a list" where
  "list_merge lt [] ys = ys"
| "list_merge lt xs [] = xs"
| "list_merge lt (x # xs) (y # ys) =
     (if lt y x then y # list_merge lt (x # xs) ys else x # list_merge lt xs (y # ys))"

definition sendtask_push_list :: "(task \<Rightarrow> task \<Rightarrow> bool) \<Rightarrow> task list \<Rightarrow> iscsi_session \<Rightarrow> iscsi_session" where
  "sendtask_push_list lt ts s = s\<lparr>ses_tasks := list_merge lt (ses_tasks s) ts\<rparr>"

text \<open>\<^verbatim>\<open>invoke\<close> over the virtual \<^verbatim>\<open>run()\<close> of the tasks: \<open>None\<close> is an exception.\<close>

fun sendtask_invoke ::
  "(task \<Rightarrow> 'e \<Rightarrow> (bool \<times> task \<times> 'e) option) \<Rightarrow> task list \<Rightarrow> 'e \<Rightarrow> bool \<times> task list \<times> 'e" where
  "sendtask_invoke run [] e = (True, [], e)"
| "sendtask_invoke run (t # ts) e =
     (case run t e of
        None \<Rightarrow> (False, [], e)
      | Some (ok, t', e') \<Rightarrow> if \<not> ok then (True, t' # ts, e') else sendtask_invoke run ts e')"

section \<open>Tables\<close>

text \<open>The contract of the two tables of a session, outstanding writes and connections: an insertion
  never replaces, a deletion takes exactly one key away.\<close>

locale table =
  fixes get :: "'k \<Rightarrow> 's \<Rightarrow> 'v option"
    and put :: "'k \<Rightarrow> 'v \<Rightarrow> 's \<Rightarrow> bool \<times> 's"
    and del :: "'k \<Rightarrow> 's \<Rightarrow> bool \<times> 's"
    and inv :: "'s \<Rightarrow> bool"
  assumes put_new: "inv s \<Longrightarrow> get k s = None \<Longrightarrow>
      \<exists>s'. put k v s = (True, s') \<and> inv s' \<and> (\<forall>j. get j s' = (if j = k then Some v else get j s))"
    and put_old: "get k s \<noteq> None \<Longrightarrow> put k v s = (False, s)"
    and del_old: "inv s \<Longrightarrow> get k s \<noteq> None \<Longrightarrow>
      \<exists>s'. del k s = (True, s') \<and> inv s' \<and> (\<forall>j. get j s' = (if j = k then None else get j s))"
    and del_new: "get k s = None \<Longrightarrow> del k s = (False, s)"
begin

text \<open>An entry that was put is found until it is deleted, and then every other entry is as before.\<close>

lemma put_del:
  assumes "inv s" and "get k s = None"
  shows "\<exists>s1 s2. put k v s = (True, s1) \<and> get k s1 = Some v \<and> del k s1 = (True, s2) \<and>
    (\<forall>j. get j s2 = get j s) \<and> del k s2 = (False, s2)"
proof -
  from put_new [OF assms] obtain s1 where s1: "put k v s = (True, s1)" "inv s1"
    "\<forall>j. get j s1 = (if j = k then Some v else get j s)" by blast
  from del_old [OF s1(2), of k] s1(3) obtain s2 where s2: "del k s1 = (True, s2)"
    "\<forall>j. get j s2 = (if j = k then None else get j s1)" by auto
  then have "get k s2 = None" by simp
  from del_new [OF this] s1 s2 assms(2) show ?thesis by auto
qed

end

interpretation infos: table recvinfo_get recvinfo_put recvinfo_pop "\<lambda>s. True"
  by unfold_locales (auto simp: recvinfo_get_def recvinfo_put_def recvinfo_pop_def split: option.splits)

definition ports_ok :: "iscsi_session \<Rightarrow> bool" where
  "ports_ok s \<longleftrightarrow> sorted_wrt (<) (map fst (ses_ports s))"

lemma map_of_port_insert: "map_of (port_insert fd c ps) j = (if j = fd then Some c else map_of ps j)"
  by (induction ps) auto

lemma fst_port_insert: "fst ` set (port_insert fd c ps) = insert fd (fst ` set ps)"
proof (induction ps)
  case (Cons p ps)
  obtain k d where "p = (k, d)" by fastforce
  then show ?case
    by (cases "fd < k"; cases "fd = k") (simp_all only: port_insert.simps if_True if_False set_simps
        image_insert fst_conv Cons.IH insert_commute insert_absorb2 simp_thms)
qed simp

lemma port_insert_sorted:
  "sorted_wrt (<) (map fst ps) \<Longrightarrow> sorted_wrt (<) (map fst (port_insert fd c ps))"
proof (induction ps)
  case (Cons p ps)
  obtain k d where p: "p = (k, d)" by fastforce
  have "k < x" if "x \<in> fst ` set (port_insert fd c ps)" "k < fd" for x
    using that Cons.prems p by (auto simp: fst_port_insert)
  with Cons p show ?case by fastforce
qed simp

lemma map_of_filter_key: "map_of (filter (\<lambda>p. fst p \<noteq> k) ps) j = (if j = k then None else map_of ps j)"
  by (induction ps) auto

interpretation conns: table conn_find conn_add conn_del ports_ok
proof
  fix s k v
  assume "ports_ok s" "conn_find k s = None"
  then show "\<exists>s'. conn_add k v s = (True, s') \<and> ports_ok s' \<and>
      (\<forall>j. conn_find j s' = (if j = k then Some v else conn_find j s))"
    by (auto simp: conn_add_def conn_find_def ports_ok_def map_of_port_insert port_insert_sorted)
next
  fix s k
  assume a: "ports_ok s" "conn_find k s \<noteq> None"
  have "sorted_wrt (<) (map fst (filter (\<lambda>p. fst p \<noteq> k) (ses_ports s)))"
    using a(1) by (simp add: ports_ok_def sorted_wrt_map sorted_wrt_filter)
  with a show "\<exists>s'. conn_del k s = (True, s') \<and> ports_ok s' \<and>
      (\<forall>j. conn_find j s' = (if j = k then None else conn_find j s))"
    by (auto simp: conn_del_def conn_find_def ports_ok_def map_of_filter_key)
qed (auto simp: conn_add_def conn_del_def split: option.splits)

section \<open>The command window\<close>

lemma cmd_queue_step:
  "cmd_queue e m + 1 < 2 ^ 32 \<Longrightarrow> cmd_queue e (m + 1) = cmd_queue e m + 1"
proof -
  assume a: "cmd_queue e m + 1 < 2 ^ 32"
  have eq: "m + 1 - e + 1 = (m - e + 1) + 1" by simp
  have "unat (x + 1) = unat x + 1" if "unat x + 1 < 2 ^ 32" for x :: u32
    using that by (simp add: unat_word_ariths)
  from this [of "m - e + 1"] have "unat ((m - e + 1) + 1) = unat (m - e + 1) + 1"
    using a by (simp add: cmd_queue_def)
  then show ?thesis by (simp add: cmd_queue_def eq)
qed

lemma adv_loop_unfold:
  "adv_loop wil e m = (if cmd_queue e m < wil then adv_loop wil e (m + 1) else Some m)"
  unfolding adv_loop_def by (subst while_option_unfold) simp

lemma adv_loop_returns:
  "wil < 2 ^ 32 \<Longrightarrow> \<exists>m'. adv_loop wil e m = Some m' \<and> cmd_queue e m' = max (cmd_queue e m) wil"
proof (induction "wil - cmd_queue e m" arbitrary: m)
  case 0
  then show ?case by (subst adv_loop_unfold) auto
next
  case (Suc n)
  then have lt: "cmd_queue e m < wil" by simp
  with Suc.prems have step: "cmd_queue e (m + 1) = cmd_queue e m + 1" by (intro cmd_queue_step) simp
  with Suc.hyps(2) have "n = wil - cmd_queue e (m + 1)" by simp
  from Suc.hyps(1) [OF this Suc.prems] step lt show ?case by (subst adv_loop_unfold) auto
qed

lemma adv_loop_diverges: "2 ^ 32 \<le> wil \<Longrightarrow> adv_loop wil e m = None"
proof (rule ccontr)
  assume w: "2 ^ 32 \<le> wil" and "adv_loop wil e m \<noteq> None"
  then obtain m' where "adv_loop wil e m = Some m'" by auto
  then have "\<not> cmd_queue e m' < wil" unfolding adv_loop_def by (rule while_option_stop)
  moreover have "cmd_queue e m' < 2 ^ 32" using unsigned_less [of "m' - e + 1"] by (simp add: cmd_queue_def)
  ultimately show False using w by simp
qed

lemma cmd_queue_exp:
  "0 < cmd_queue e m \<Longrightarrow> cmd_queue (e + 1) m = cmd_queue e m - 1"
proof -
  assume "0 < cmd_queue e m"
  then have "m - e + 1 \<noteq> 0" by (auto simp: cmd_queue_def unat_gt_0)
  then have "unat (m - e + 1 - 1) = unat (m - e + 1) - 1" by (rule unat_minus_one)
  moreover have "m - (e + 1) + 1 = m - e + 1 - 1" by simp
  ultimately show ?thesis by (simp add: cmd_queue_def)
qed

text \<open>C37. For every non-immediate command the expected command number advances by one, and the
  command window becomes the limitter's size or stays one smaller than before, whichever is
  larger: it grows at once when memory is free and shrinks by one per command when it is not, and
  never takes back a number that was granted. This is for an open window and an answer of the limitter below
  \<open>2 ^ 32\<close>; for a larger one the loop does not end, and the default limits give one
  (\<open>advanceCMDSNs_hangs_witness\<close>).\<close>

theorem advanceCMDSNs_window:
  assumes "0 < getCMDQueue s"
    and "(if ses_type s = iSCSI_DISCOVERY_SESSION then Some 1 else lim_getY lim poolnum) = Some wil"
    and "unat wil < 2 ^ 32"
  shows "\<exists>s' st w. advanceCMDSNs lim poolnum s = Some (s', st, w) \<and>
    getEXPCMDSN s' = getEXPCMDSN s + 1 \<and> getCMDQueue s' = max (getCMDQueue s - 1) (unat wil) \<and>
    (st = POOL_STATE_HARD \<longleftrightarrow> poolnum > lim_x2 lim)"
proof -
  let ?e = "ses_expcmdsn_gen s" and ?m = "ses_maxcmdsn_gen s"
  from adv_loop_returns [OF assms(3), of "?e + 1" ?m] obtain m' where
    m: "adv_loop (unat wil) (?e + 1) ?m = Some m'"
      "cmd_queue (?e + 1) m' = max (cmd_queue (?e + 1) ?m) (unat wil)" by blast
  have "cmd_queue (?e + 1) ?m = getCMDQueue s - 1"
    using assms(1) by (simp add: getCMDQueue_def cmd_queue_exp)
  with m assms(2) show ?thesis
    by (auto simp: advanceCMDSNs_def Let_def getEXPCMDSN_def getCMDQueue_def split: if_splits)
qed

theorem advanceCMDSNs_window_witness:
  "\<exists>s' st w. advanceCMDSNs (LinearLimitter 100 1000) 10 (iSCSISession (\<lambda>_. 0) (\<lambda>_. False)) = Some (s', st, w) \<and>
     getCMDQueue s' = 143"
proof -
  let ?s = "iSCSISession (\<lambda>_. 0) (\<lambda>_. False)"
  have q: "getCMDQueue ?s = 2" by (simp add: getCMDQueue_def cmd_queue_def iSCSISession_def)
  have "(if ses_type ?s = iSCSI_DISCOVERY_SESSION then Some 1
      else lim_getY (LinearLimitter 100 1000) 10) = Some 143"
    by (simp add: iSCSISession_def session_type_defs lim_getY_def LinearLimitter_def CMD_QUEUE_SIZE_def)
  from advanceCMDSNs_window [OF _ this] q show ?thesis by fastforce
qed

text \<open>With a limitter whose slope has wrapped around, the loop that opens the window never ends:
  the 32-bit window cannot reach the requested size, and the thread that handles the command hangs.\<close>

theorem advanceCMDSNs_hangs:
  assumes "ses_type s \<noteq> iSCSI_DISCOVERY_SESSION" and "lim_getY lim poolnum = Some wil"
    and "2 ^ 32 \<le> unat wil"
  shows "advanceCMDSNs lim poolnum s = None"
  using assms adv_loop_diverges by (simp add: advanceCMDSNs_def Let_def)

theorem advanceCMDSNs_hangs_witness:
  "advanceCMDSNs (getLimitter 134217728 268435456) 2027 (iSCSISession (\<lambda>_. 0) (\<lambda>_. False)) = None"
proof -
  have t: "ses_type (iSCSISession (\<lambda>_. 0) (\<lambda>_. False)) \<noteq> iSCSI_DISCOVERY_SESSION"
    by (simp add: iSCSISession_def session_type_defs)
  have w: "lim_getY (getLimitter 134217728 268435456) 2027 = Some (2 ^ 64 - 1)"
    by (simp add: lim_getY_def getLimitter_def LinearLimitter_def CMD_QUEUE_SIZE_def
        COMMON_REAL_SIZE_def SIZEOF_COMMONBUF_def)
  show ?thesis by (rule advanceCMDSNs_hangs [OF t w]) simp
qed

text \<open>Tasks that a login or text handler pushes as a list are merged by address: a task at a lower
  address overtakes the tasks that are already queued, so responses can be sent out of order.\<close>

theorem push_list_overtakes:
  assumes "lt t u" and "ses_tasks s = [u]"
  shows "ses_tasks (sendtask_push_list lt [t] s) = [t, u] \<and> ses_tasks (sendtask_push t s) = [u, t]"
  using assms by (simp add: sendtask_push_list_def sendtask_push_def)

end
