(* ===== verification/Config_Session.thy ===== *)
theory Config_Session
  imports Config_Accepted Session
begin

text \<open>
  From the configuration to the daemon: the constructor of \<^verbatim>\<open>iSCSISession\<close> (\<^verbatim>\<open>src/session.cpp\<close>) reads its
  attributes with the getters of the configurator, and the constructor of \<^verbatim>\<open>iSCSIInitiator\<close>
  (\<^verbatim>\<open>src/initiator.cpp\<close>) finds the logical units of an initiator and builds their volumes
  (\<^verbatim>\<open>LogicalVolume::LogicalVolume\<close> of \<^verbatim>\<open>src/volume.cpp\<close>).
\<close>

section \<open>Attributes of a new session\<close>

text \<open>One variable, not initialised, is used for all numbers and one for all booleans: after the answer
  \<^verbatim>\<open>false\<close> it holds what the attribute before had.\<close>

fun read_each :: "(string \<Rightarrow> 'a option result) \<Rightarrow> 'a \<Rightarrow> string list \<Rightarrow> (string \<times> 'a) list result" where
  "read_each get v [] = Inr []"
| "read_each get v (name # names) =
     bind (get name) (\<lambda>r. let v' = (case r of None \<Rightarrow> v | Some x \<Rightarrow> x)
       in bind (read_each get v' names) (\<lambda>m. Inr ((name, v') # m)))"

definition session_numbers :: "string list" where
  "session_numbers =
     [''DefaultTime2Wait'', ''DefaultTime2Retain'', ''MaxBurstLength'', ''FirstBurstLength'', ''MaxConnections'',
      ''MaxOutStandingR2T'', ''ErrorRecoveryLevel'', ''MaxRecvDataSegmentLength'']"

definition session_flags :: "string list" where
  "session_flags =
     [''InitialR2T'', ''ImmediateData'', ''IFMarker'', ''OFMarker'', ''DataPDUInOrder'', ''DataSequenceInOrder'']"

definition value_of :: "(string \<times> 'a) list \<Rightarrow> 'a \<Rightarrow> string \<Rightarrow> 'a" where
  "value_of m v name = (case map_of m name of None \<Rightarrow> v | Some x \<Rightarrow> x)"

definition configured_session :: "u64 \<Rightarrow> bool \<Rightarrow> config \<Rightarrow> iscsi_session result" where
  "configured_session num flag cf =
     bind (read_each (\<lambda>name. config_getAttr_uint64 name cf) num session_numbers) (\<lambda>nums.
     bind (read_each (\<lambda>name. config_getAttr_bool name cf) flag session_flags) (\<lambda>flags.
     Inr (iSCSISession (value_of nums num) (value_of flags flag))))"

section \<open>The volumes of an initiator\<close>

text \<open>A loop over a table with an accumulator; \<open>body\<close> says whether it leaves the loop.\<close>

fun tc_fold_loop ::
  "('info, 'key) info_ops \<Rightarrow> ('info \<Rightarrow> 'a \<Rightarrow> ('a \<times> bool) cmd) \<Rightarrow> nat \<Rightarrow> 'info tagged \<Rightarrow> 'a \<Rightarrow> 'a cmd"
where
  "tc_fold_loop ops body 0 t acc = lift (Inl Undefined)"
| "tc_fold_loop ops body (Suc n) t acc =
     then_do (tc_current ops t) (\<lambda>(info, t).
     then_do (body info acc) (\<lambda>(acc, leave).
       if leave then ret acc
       else then_do (tc_next t) (\<lambda>(more, t). if more then tc_fold_loop ops body n t acc else ret acc)))"

definition tc_fold ::
  "('info, 'key) info_ops \<Rightarrow> ('info \<Rightarrow> 'a \<Rightarrow> ('a \<times> bool) cmd) \<Rightarrow> 'info tagged \<Rightarrow> 'a \<Rightarrow> 'a cmd"
where
  "tc_fold ops body t acc =
     then_do (tc_begin ops t) (\<lambda>(some, t).
       if some then then_do (impl_size (tc_path t)) (\<lambda>n. tc_fold_loop ops body (unat n) t acc) else ret acc)"

definition part_of :: "real_volume \<Rightarrow> volume_part" where
  "part_of r = (rv_path r, unat (rv_start r), unat (rv_count r))"

text \<open>The parts of the original; a part that can not be used makes the constructor throw.\<close>

definition original_part ::
  "(physical_volume \<Rightarrow> bool) \<Rightarrow> string \<Rightarrow> real_volume \<Rightarrow> volume_array \<Rightarrow> (volume_array \<times> bool) cmd" where
  "original_part probe name r a =
     (let pv = part_volume (part_of r)
      in if probe pv then ret (addVolume pv a, False)
         else lift (Inl (Throw (''Ignored Physical Volume : '' @ [QUOTE] @ pv_path pv @ [QUOTE] @
                                '' in Logical Volume(Main) : '' @ name))))"

text \<open>A replica; a part of it that can not be used ends the constructor.\<close>

definition replica ::
  "(physical_volume \<Rightarrow> bool) \<Rightarrow> real_array \<Rightarrow> logical_volume \<Rightarrow> (logical_volume \<times> bool) cmd" where
  "replica probe r lv =
     (case add_parts probe (map part_of (ra_volumes r)) VolumeArray of
        Inl _ \<Rightarrow> ret (lv, True)
      | Inr vols \<Rightarrow> ret (if lv_count lv > va_count vols then lv else lv\<lparr>lv_copies := lv_copies lv @ [vols]\<rparr>, False))"

definition LogicalVolume_of :: "system \<Rightarrow> (physical_volume \<Rightarrow> bool) \<Rightarrow> volume_info \<Rightarrow> logical_volume cmd" where
  "LogicalVolume_of sys probe i =
     through (vi_orgs i) (\<lambda>orgs.
     then_do (tc_fold (RealVolume sys) (original_part probe (vi_name i)) orgs VolumeArray) (\<lambda>original.
     through (vi_reps i) (\<lambda>reps.
       tc_fold (RealVolumeArray sys) (replica probe) reps
         \<lparr>lv_name = vi_name i, lv_original = original, lv_copies = [], lv_count = va_count original\<rparr>)))"

text \<open>\<^verbatim>\<open>find\<close> is not compared with \<^verbatim>\<open>end()\<close>: for a name that is not configured the null pointer is
  dereferenced. Every exception of a volume is thrown again with its text.\<close>

definition lun_volume ::
  "system \<Rightarrow> (physical_volume \<Rightarrow> bool) \<Rightarrow> string \<Rightarrow> logical_volume list \<Rightarrow> (logical_volume list \<times> bool) cmd" where
  "lun_volume sys probe lun lvs =
     then_do VolumeConfigurator (\<lambda>volumes.
     then_do (tc_find (VolumeInfo sys) lun volumes) (\<lambda>(found, volumes).
       if \<not> found then lift (Inl Undefined)
       else then_do (tc_current (VolumeInfo sys) volumes) (\<lambda>(i, _).
            then_do (LogicalVolume_of sys probe i) (\<lambda>lv. ret (lvs @ [lv], False)))))"

definition iSCSIInitiator :: "system \<Rightarrow> (physical_volume \<Rightarrow> bool) \<Rightarrow> string \<Rightarrow> iscsi_initiator cmd" where
  "iSCSIInitiator sys probe iname =
     then_do InitiatorConfigurator (\<lambda>initiators.
     then_do (tc_find (InitiatorInfo sys) iname initiators) (\<lambda>(found, initiators).
       if \<not> found then lift (Inl Undefined)
       else then_do (tc_current (InitiatorInfo sys) initiators) (\<lambda>(i, _).
            then_do (tc_fold LUNinfo (lun_volume sys probe) (luns_of i) []) (\<lambda>lvs.
            ret \<lparr>ini_luns = lvs, ini_MaxRecvDataSegmentLength = 8192, ini_alias = [], ini_authens = []\<rparr>))))"


subsection \<open>Building an initiator changes no attribute\<close>

context framed_entry begin

lemma frames_fold_loop:
  assumes "\<And>info a. I info \<Longrightarrow> frames (\<lambda>_. True) (body info a)"
  shows "tag_ok t \<Longrightarrow> frames (\<lambda>_. True) (tc_fold_loop ops body n t acc)"
proof (induction n arbitrary: t acc)
  case 0
  then show ?case
    by (auto intro: frames_lift)
next
  case (Suc n)
  show ?case
    unfolding tc_fold_loop.simps
    by (rule frames_then_do[OF frames_current[OF Suc.prems]])
      (auto intro!: frames_then_do[OF assms] frames_ret frames_then_do[OF frames_next] Suc.IH)
qed

lemma frames_fold:
  assumes "\<And>info a. I info \<Longrightarrow> frames (\<lambda>_. True) (body info a)" and "tag_ok t"
  shows "frames (\<lambda>_. True) (tc_fold ops body t acc)"
  unfolding tc_fold_def
  by (rule frames_then_do[OF frames_begin[OF assms(2)]])
    (auto intro!: frames_then_do[OF frames_size] frames_fold_loop[OF assms(1)] frames_ret)

end

lemma frames_LogicalVolume:
  assumes "tables_ok i"
  shows "frames (\<lambda>_. True) (LogicalVolume_of sys probe i)"
proof -
  have part: "frames (\<lambda>_. True) (original_part probe name r a)" for name r a
    by (auto simp: original_part_def Let_def intro: frames_ret frames_lift)
  have copies: "frames (\<lambda>_. True) (replica probe r lv)" for r lv
    by (auto simp: replica_def split: sum.splits intro: frames_ret)
  show ?thesis
    using assms unfolding LogicalVolume_of_def
    by (cases "vi_orgs i"; cases "vi_reps i")
      (auto simp: through_def tables_ok_def table_at_def real_vol.tag_ok_def real_arr.tag_ok_def
        intro!: frames_lift frames_then_do[OF real_vol.frames_fold[OF part]] real_arr.frames_fold[OF copies])
qed

lemma frames_lun_volume: "frames (\<lambda>_. True) (lun_volume sys probe lun lvs)"
  unfolding lun_volume_def VolumeConfigurator_def
  by (rule frames_then_do[OF volume.frames_tagged], simp add: sections_def,
      rule frames_then_do[OF volume.frames_find[of _ sys]])
    (auto intro!: frames_ret frames_lift frames_then_do[OF volume.frames_current]
      frames_then_do[OF frames_LogicalVolume])

lemma frames_iSCSIInitiator: "frames (\<lambda>_. True) (iSCSIInitiator sys probe iname)"
  unfolding iSCSIInitiator_def InitiatorConfigurator_def
  by (rule frames_then_do[OF initiator.frames_tagged], simp add: sections_def,
      rule frames_then_do[OF initiator.frames_find[of _ sys]])
    (auto simp: lun.tag_ok_def luns_of_def
      intro!: frames_ret frames_lift frames_then_do[OF initiator.frames_current]
        frames_then_do[OF lun.frames_fold[OF frames_lun_volume]])


section \<open>A session of an accepted configuration\<close>

lemma map_puts_dom: "fst ` set (fold (\<lambda>a m. map_put a v m) names m) = set names \<union> fst ` set m"
  by (induction names arbitrary: m) auto

lemma optional_names:
  "fold (\<lambda>a m. bind m (\<lambda>opt. if P a then Inl (fault a) else Inr (map_put a v opt))) names (Inr m) = Inr opt \<Longrightarrow>
     fst ` set opt = set names \<union> fst ` set m"
proof (induction names arbitrary: m)
  case (Cons a names)
  have "fold (\<lambda>a m. bind m (\<lambda>opt. if P a then Inl (fault a) else Inr (map_put a v opt))) names (Inl e) = Inl e" for e
    by (induction names) simp_all
  with Cons show ?case
    by (cases "P a") auto
qed simp

lemma AttrValidator_names:
  assumes "AttrValidator required optional = Inr av" and "\<not> attr_invalid av a"
  shows "a \<in> set required \<union> set optional"
proof -
  let ?r = "takeWhile (\<lambda>s. s \<noteq> []) required" and ?o = "takeWhile (\<lambda>s. s \<noteq> []) optional"
  let ?req = "fold (\<lambda>a m. map_put a False m) ?r []"
  obtain opt where opt: "fold (\<lambda>a m. bind m (\<lambda>opt. if map_of ?req a \<noteq> None
      then Inl (Throw (a @ '' is duplicated'')) else Inr (map_put a False opt))) ?o (Inr []) = Inr opt"
    and av: "av = \<lparr>av_required = ?req, av_optional = opt\<rparr>"
    using assms(1) by (auto simp: AttrValidator_def Let_def bind_Inr)
  have "fst ` set (av_required av) = set ?r"
    using av by (simp add: map_puts_dom)
  moreover have "fst ` set (av_optional av) = set ?o"
    using optional_names[OF opt] av by simp
  ultimately have "a \<in> set ?r \<union> set ?o"
    using assms(2) by (simp add: attr_invalid_def map_of_eq_None_iff)
  then show ?thesis
    by (auto dest: set_takeWhileD)
qed

lemma known_names:
  assumes "attrsSatisfied required optional (objectValue m) = Inr True"
  shows "fst ` set m \<subseteq> set required \<union> set optional"
proof -
  obtain av where "AttrValidator required optional = Inr av" "find (attr_invalid av) (map fst m) = None"
    using assms by (auto simp: attrsSatisfied_def getMemberNames_def bind_Inr split: option.splits)
  then show ?thesis
    using AttrValidator_names[of required optional av] by (fastforce simp: find_None_iff)
qed

lemma accepted_root:
  assumes "readConfig sys cf = Some (Inr True, cf')"
  obtains m cf1 where "cf_root cf1 = objectValue m" "same_scalars cf1 cf'" "cf_defaults cf' = cf_defaults cf"
    "fst ` set m \<subseteq> set root_required \<union> set root_optional"
proof -
  obtain cf1 where cf1: "cf_defaults cf1 = cf_defaults cf" and v: "validate sys cf1 = (Inr True, cf')"
    using readConfig_valid[OF assms] .
  obtain m where m: "cf_root cf1 = objectValue m" and same: "same_scalars cf1 cf'"
    using validate_accepts[OF v] by blast
  have "attrsSatisfied root_required root_optional (objectValue m) = Inr True"
    using v m by (auto simp: validate_def ret_Inr elim!: then_doE split: if_splits)
  then show thesis
    using that[OF m same] known_names same cf1 by (simp add: same_scalars_def)
qed

lemma accepted_unread:
  assumes "readConfig sys cf = Some (Inr True, cf')" and "cf_defaults cf = cf_defaults Configurator"
  shows "config_getAttr_uint64 ''MaxOutStandingR2T'' cf' = Inr None"
proof -
  obtain m cf1 where m: "cf_root cf1 = objectValue m" and same: "same_scalars cf1 cf'"
    and dflt: "cf_defaults cf' = cf_defaults cf" and names: "fst ` set m \<subseteq> set root_required \<union> set root_optional"
    using accepted_root[OF assms(1)] .
  have "map_of m ''MaxOutStandingR2T'' = None"
    using names by (auto simp: map_of_eq_None_iff root_required_def root_optional_def)
  moreover have "member_ref ''MaxOutStandingR2T'' (cf_root cf') = Inr (map_of m ''MaxOutStandingR2T'')"
    by (rule member_ref_scalar[OF same m]) (simp_all add: sections_def c_str_def)
  moreover have "map_of (cf_defaults cf') ''MaxOutStandingR2T'' = None"
    using dflt assms(2) by (simp add: Configurator_def config_setDefaults_def default_values_def)
  ultimately show ?thesis
    by (simp add: config_getAttr_uint64_def config_getAttr_with_def isMember_def)
qed

text \<open>What a session can rely on: the limits of each number that it reads.\<close>

definition session_limits :: "(string \<times> u64 \<times> u64) list" where
  "session_limits =
     [(''DefaultTime2Wait'', 0, 3600), (''DefaultTime2Retain'', 0, 3600), (''MaxBurstLength'', 512, 2 ^ 25 - 1),
      (''FirstBurstLength'', 512, 2 ^ 25 - 1), (''MaxConnections'', 1, 8), (''ErrorRecoveryLevel'', 0, 2),
      (''MaxRecvDataSegmentLength'', 512, 2 ^ 25 - 1)]"

lemma session_limits_validated:
  "\<forall>(a, lo, hi) \<in> set session_limits. (a, ForNum (RangeValidator lo hi)) \<in> set root_validators"
  by (simp add: session_limits_def root_validators_def)

lemma within_32:
  assumes "n \<le> (2 ^ 25 - 1 :: u64)"
  shows "ucast (ucast n :: u32) = n"
proof -
  have "unat n < 2 ^ 32"
    using assms by (simp add: word_le_nat_alt)
  then show ?thesis
    by (simp add: word_unat_eq_iff unsigned_ucast_eq unsigned_take_bit_eq take_bit_nat_eq_self)
qed

lemma num_of_accepted:
  assumes within: "\<forall>(name, vd) \<in> set root_validators. attr_within sys cf name vd"
    and "(a, lo, hi) \<in> set session_limits"
  shows "\<exists>n. config_getAttr_uint64 a cf = Inr (Some n) \<and> lo \<le> n \<and> n \<le> hi \<and> ucast (ucast n :: u32) = n"
proof -
  have "attr_within sys cf a (ForNum (RangeValidator lo hi))"
    using within session_limits_validated assms(2) by fastforce
  moreover have "hi \<le> 2 ^ 25 - 1"
    using assms(2) by (auto simp: session_limits_def)
  ultimately show ?thesis
    using within_32 by (auto intro: order_trans)
qed

lemma flag_of_accepted:
  assumes within: "\<forall>(name, vd) \<in> set root_validators. attr_within sys cf name vd"
    and "a \<in> set session_flags"
  shows "\<exists>b. config_getAttr_bool a cf = Inr (Some b) \<and> (a \<in> {''DataPDUInOrder'', ''DataSequenceInOrder''} \<longrightarrow> b)"
proof -
  have "(a, ForBool (if a \<in> {''DataPDUInOrder'', ''DataSequenceInOrder''} then FixedBool True else NullBool)) \<in> set root_validators"
    using assms(2) by (auto simp: session_flags_def root_validators_def)
  then show ?thesis
    using within by (fastforce split: if_splits)
qed

lemma session_of_numbers:
  assumes num: "\<And>a lo hi. (a, lo, hi) \<in> set session_limits \<Longrightarrow> config_getAttr_uint64 a cf = Inr (Some (n a))"
    and flag: "\<And>a. a \<in> set session_flags \<Longrightarrow> config_getAttr_bool a cf = Inr (Some (b a))"
    and "config_getAttr_uint64 ''MaxOutStandingR2T'' cf = Inr None"
  shows "configured_session v w cf = Inr (iSCSISession
    (value_of (map (\<lambda>a. (a, n (if a = ''MaxOutStandingR2T'' then ''MaxConnections'' else a))) session_numbers) v)
    (value_of (map (\<lambda>a. (a, b a)) session_flags) w))"
proof -
  have "read_each (\<lambda>name. config_getAttr_uint64 name cf) v session_numbers =
      Inr (map (\<lambda>a. (a, n (if a = ''MaxOutStandingR2T'' then ''MaxConnections'' else a))) session_numbers)"
    using num assms(3) by (simp add: session_numbers_def session_limits_def Let_def)
  moreover have "read_each (\<lambda>name. config_getAttr_bool name cf) w session_flags = Inr (map (\<lambda>a. (a, b a)) session_flags)"
    using flag by (simp add: session_flags_def Let_def)
  ultimately show ?thesis
    by (simp add: configured_session_def)
qed


text \<open>C5. A session made after \<^verbatim>\<open>readConfig\<close> accepted has every number of the configuration within its limits
  and not cut to 32 bits, every flag as configured with the two orders enforced, and the buffer length of the
  configuration. \<^verbatim>\<open>MaxOutstandingR2T\<close> is never read: its name is misspelt in the constructor, the answer
  \<^verbatim>\<open>false\<close> is ignored, and the variable still holds \<^verbatim>\<open>MaxConnections\<close>.\<close>

theorem session_of_accepted_configuration:
  assumes "readConfig sys cf = Some (Inr True, cf')" and "cf_defaults cf = cf_defaults Configurator"
    and "fst (getSockAddr sys ''[0.0.0.0]:32680'' (sys_fresh sys))"
  shows "\<exists>s. configured_session v w cf' = Inr s \<and>
    (\<forall>(a, lo, hi) \<in> set session_limits. \<exists>n. getAttr a s = Some (AttrNum n) \<and>
      config_getAttr_uint64 a cf' = Inr (Some (ucast n)) \<and> lo \<le> ucast n \<and> ucast n \<le> hi) \<and>
    (\<forall>a \<in> set session_flags. \<exists>b. getAttr a s = Some (AttrBool b) \<and> config_getAttr_bool a cf' = Inr (Some b)) \<and>
    getAttr ''DataPDUInOrder'' s = Some (AttrBool True) \<and> getAttr ''DataSequenceInOrder'' s = Some (AttrBool True) \<and>
    getAttr ''MaxRecvDataSegmentLength'' s = Some (AttrNum (ses_mrds_length s)) \<and>
    getAttr ''MaxOutstandingR2T'' s = getAttr ''MaxConnections'' s"
proof -
  note within = accepted_within[OF assms]
  define n where "n a = (case config_getAttr_uint64 a cf' of Inr (Some x) \<Rightarrow> x | _ \<Rightarrow> 0)" for a
  have n: "config_getAttr_uint64 a cf' = Inr (Some (n a)) \<and> lo \<le> n a \<and> n a \<le> hi \<and> ucast (ucast (n a) :: u32) = n a"
    if "(a, lo, hi) \<in> set session_limits" for a lo hi
    using num_of_accepted[OF within that] by (auto simp: n_def)
  obtain b where b: "\<And>a. a \<in> set session_flags \<Longrightarrow> config_getAttr_bool a cf' = Inr (Some (b a)) \<and>
      (a \<in> {''DataPDUInOrder'', ''DataSequenceInOrder''} \<longrightarrow> b a)"
    using flag_of_accepted[OF within] by metis
  have orders: "b ''DataPDUInOrder''" "b ''DataSequenceInOrder''"
    using b[of "''DataPDUInOrder''"] b[of "''DataSequenceInOrder''"] by (simp_all add: session_flags_def)
  let ?s = "iSCSISession
    (value_of (map (\<lambda>a. (a, n (if a = ''MaxOutStandingR2T'' then ''MaxConnections'' else a))) session_numbers) v)
    (value_of (map (\<lambda>a. (a, b a)) session_flags) w)"
  have "configured_session v w cf' = Inr ?s"
    using n b accepted_unread[OF assms(1,2)] by (intro session_of_numbers) blast+
  moreover have "\<forall>(a, lo, hi) \<in> set session_limits. getAttr a ?s = Some (AttrNum (ucast (n a)))"
    by (simp add: session_limits_def session_numbers_def value_of_def iSCSISession_def getAttr_def)
  then have "\<forall>(a, lo, hi) \<in> set session_limits. \<exists>n. getAttr a ?s = Some (AttrNum n) \<and>
      config_getAttr_uint64 a cf' = Inr (Some (ucast n)) \<and> lo \<le> ucast n \<and> ucast n \<le> hi"
    using n by fastforce
  moreover have "\<forall>a \<in> set session_flags. getAttr a ?s = Some (AttrBool (b a))"
    by (simp add: session_flags_def value_of_def iSCSISession_def getAttr_def)
  then have "\<forall>a \<in> set session_flags. \<exists>b. getAttr a ?s = Some (AttrBool b) \<and> config_getAttr_bool a cf' = Inr (Some b)"
    using b by blast
  moreover have "getAttr ''DataPDUInOrder'' ?s = Some (AttrBool True)"
    "getAttr ''DataSequenceInOrder'' ?s = Some (AttrBool True)"
    "getAttr ''MaxRecvDataSegmentLength'' ?s = Some (AttrNum (ses_mrds_length ?s))"
    "getAttr ''MaxOutstandingR2T'' ?s = getAttr ''MaxConnections'' ?s"
    using orders by (simp_all add: session_flags_def session_numbers_def value_of_def iSCSISession_def getAttr_def)
  ultimately show ?thesis
    by blast
qed

lemma session_of_accepted_configuration_witness:
  "\<exists>s. configured_session 0 False (Configurator\<lparr>cf_root := ex_tree_accepted\<rparr>) = Inr s \<and>
     getAttr ''MaxOutstandingR2T'' s = getAttr ''MaxConnections'' s"
proof -
  have "fst (getSockAddr ex_daemon ''[0.0.0.0]:32680'' (sys_fresh ex_daemon))"
    by code_simp
  from session_of_accepted_configuration[OF ex_doc_read refl this, of 0 False] show ?thesis
    by blast
qed

end
