(* ===== verification/ScsiRead.thy ===== *)
theory ScsiRead
  imports Session
begin

text \<open>
  READ(10): the parsers of \<^verbatim>\<open>include/iscsi/command.h\<close> and \<^verbatim>\<open>include/scsi/read.h\<close> and the handler of
  \<^verbatim>\<open>src/scsi/read.cpp\<close>, which queues for every data segment the Data-In header and then the tasks
  that send the blocks, from the write cache where it holds them and from the files elsewhere.
\<close>

section \<open>Requests\<close>

definition COMMAND_FLAG_READ :: u8 where "COMMAND_FLAG_READ = 0x40"
definition COMMAND_FLAG_WRITE :: u8 where "COMMAND_FLAG_WRITE = 0x20"
definition READ_10 :: u8 where "READ_10 = 0x28"
definition SCSI_GOOD :: u8 where "SCSI_GOOD = 0x00"

definition cmd_request :: "token \<Rightarrow> CommandReqHeader" where
  "cmd_request t = CommandReqHeader_of (token_bytes t)"

definition cmd_valid :: "token \<Rightarrow> bool" where
  "cmd_valid t \<longleftrightarrow> getOpCode (token_header t) = iSCSI_OP_SCSI_CMD \<and>
     \<not> (cmd_flags (cmd_request t) AND COMMAND_FLAG_READ \<noteq> 0 \<and>
        cmd_flags (cmd_request t) AND COMMAND_FLAG_WRITE \<noteq> 0)"

definition cmd_getLUN :: "token \<Rightarrow> u8 list" where
  "cmd_getLUN t = LUN_set (cmd_lun (cmd_request t))"

definition cmd_getEXPDATALEN :: "token \<Rightarrow> u32" where
  "cmd_getEXPDATALEN t = ntohl (cmd_expdatalen (cmd_request t))"

definition cmd_getCMDSN :: "token \<Rightarrow> u32" where
  "cmd_getCMDSN t = ntohl (cmd_cmdsn (cmd_request t))"

definition cmd_getEXPSTATSN :: "token \<Rightarrow> u32" where
  "cmd_getEXPSTATSN t = ntohl (cmd_expstatsn (cmd_request t))"

definition cmd_getCDBOpCode :: "token \<Rightarrow> u8" where
  "cmd_getCDBOpCode t = cmd_scb (cmd_request t) ! 0"

text \<open>The ten bytes of a READ(10) or WRITE(10) command block: the two packed structs are alike.\<close>

record Cmd10 =
  c10_opcode :: u8
  c10_flags :: u8
  c10_lba :: u32
  c10_group_number :: u8
  c10_transfer_length :: u16
  c10_control :: u8

definition Cmd10_of :: "u8 list \<Rightarrow> Cmd10" where
  "Cmd10_of b =
     \<lparr>c10_opcode = b ! 0, c10_flags = b ! 1, c10_lba = ld32 (drop 2 b), c10_group_number = b ! 6,
      c10_transfer_length = ld16 (drop 7 b), c10_control = b ! 9\<rparr>"

definition c10_protect :: "Cmd10 \<Rightarrow> u8" where "c10_protect c = c10_flags c AND 0xE0"
definition c10_isDPO :: "Cmd10 \<Rightarrow> bool" where "c10_isDPO c \<longleftrightarrow> c10_flags c AND 0x10 \<noteq> 0"
definition c10_getLBA :: "Cmd10 \<Rightarrow> nat" where "c10_getLBA c = unat (ntohl (c10_lba c))"

definition c10_getTransferLength :: "Cmd10 \<Rightarrow> nat" where
  "c10_getTransferLength c = unat (ntohs (c10_transfer_length c))"

definition Read10_valid :: "Cmd10 \<Rightarrow> bool" where
  "Read10_valid c \<longleftrightarrow> c10_opcode c = READ_10 \<and> c10_protect c = 0 \<and> \<not> c10_isDPO c"

definition ini_getLUN :: "iscsi_initiator \<Rightarrow> nat \<Rightarrow> logical_volume option" where
  "ini_getLUN ini lun = (if lun \<ge> length (ini_luns ini) then None else Some (ini_luns ini ! lun))"

section \<open>Reading through the cache\<close>

text \<open>What the handler queues for a piece of a data segment.\<close>

datatype read_item = FromFile nat nat | FromCache write_segment nat nat

definition item_task :: "int \<Rightarrow> logical_volume \<Rightarrow> read_item \<Rightarrow> task" where
  "item_task fd lv i =
     (case i of FromFile lba n \<Rightarrow> TSendfile fd (SendfileTask lv lba n)
      | FromCache ws lba n \<Rightarrow> TSendCache fd (SendCacheTask ws lba n))"

definition getHitSegments :: "write_segment list \<Rightarrow> nat \<Rightarrow> nat \<Rightarrow> write_segment list" where
  "getHitSegments cache lba n =
     filter (\<lambda>ws. (lba \<le> ws_rlba ws \<and> ws_rlba ws \<le> lba + n) \<or>
                  (ws_rlba ws < lba \<and> lba + n < ws_rlba ws + ws_rlength ws) \<or>
                  (ws_rlba ws < lba \<and> lba < ws_rlba ws + ws_rlength ws)) cache"

text \<open>\<^verbatim>\<open>uint32_t\<close> subtraction; the operands may be 64 bits wide.\<close>

definition sub32 :: "nat \<Rightarrow> nat \<Rightarrow> nat" where
  "sub32 a b = (a + 2 ^ 64 - b) mod 2 ^ 32"

text \<open>The loop of \<^verbatim>\<open>sendCache\<close>; \<^verbatim>\<open>clength\<close> is the 32-bit copy of \<^verbatim>\<open>rlength\<close>. The result is the items, the
  reference parameter \<^verbatim>\<open>rlba\<close> and \<^verbatim>\<open>transfer_length\<close>.\<close>

fun sc_loop :: "write_segment list \<Rightarrow> nat \<Rightarrow> nat \<Rightarrow> read_item list \<times> nat \<times> nat" where
  "sc_loop [] rlba n = ([], rlba, n)"
| "sc_loop (ws # hits) rlba n =
     (if n = 0 then ([], rlba, n)
      else
        let clba = ws_rlba ws; clength = ws_rlength ws mod 2 ^ 32 in
        if clba \<le> rlba
        then let hit0 = sub32 clength (rlba - clba);
                 hit = (if rlba + n < clba + clength then sub32 hit0 (clba + clength - rlba - n) else hit0);
                 (items, r', n') = sc_loop hits (rlba + hit) (sub32 n hit)
             in (FromCache ws rlba hit # items, r', n')
        else if rlba + n \<le> clba + clength
        then let miss = (clba - rlba) mod 2 ^ 32
             in ([FromFile rlba miss, FromCache ws clba (sub32 n miss)], sub64 (clba + clength) miss, 0)
        else let miss = (clba - rlba) mod 2 ^ 32;
                 (items, r', n') = sc_loop hits (clba + clength) (sub32 n (miss + clength))
             in (FromFile rlba miss # FromCache ws clba clength # items, r', n'))"

definition sendCache :: "write_segment list \<Rightarrow> nat \<Rightarrow> nat \<Rightarrow> read_item list \<times> nat" where
  "sendCache hits rlba n =
     (let (items, r', n') = sc_loop hits rlba n
      in if n' > 0 then (items @ [FromFile r' n'], r' + n') else (items, r'))"

section \<open>The handler\<close>

text \<open>The first lines of a loop round: the length of this data segment, the reply with its length and
  flags, and the transfer length after the test.\<close>

definition read_round :: "u32 \<Rightarrow> nat \<Rightarrow> data_in_generator \<Rightarrow> nat \<times> data_in_generator \<times> nat" where
  "read_round byte_mrds n reply =
     (let transfer_mrds = OFFSET2LBA (unat byte_mrds)
      in if n > transfer_mrds
         then (transfer_mrds, dig_setDlength (unat byte_mrds) reply, n)
         else (n, dig_setDlength (LBA2OFFSET n) (dig_setCmdStatus SCSI_GOOD reply), 0))"

text \<open>The last lines: the copy that becomes the next reply. Copying serialises the old reply again,
  whose buffer the queued task shares, so the buffer as it is then is returned too.\<close>

definition read_next :: "(nat \<Rightarrow> u8) \<Rightarrow> nat \<Rightarrow> data_in_generator \<Rightarrow> data_in_generator \<times> common_buf" where
  "read_next mem len reply =
     (let (replica, old) = DataInGenerator_copy mem reply
      in (dig_addOffset (of_nat (LBA2OFFSET len)) (dig_advanceDataSN replica), dig_cbuf old))"

text \<open>The two loops \<^verbatim>\<open>while(1)\<close>. They do not end when a data segment is shorter than a block; then the
  value is \<open>None\<close>.\<close>

partial_function (option) read_miss ::
  "(nat \<Rightarrow> u8) \<Rightarrow> int \<Rightarrow> logical_volume \<Rightarrow> u32 \<Rightarrow> data_in_generator \<Rightarrow> nat \<Rightarrow> nat \<Rightarrow> task list \<Rightarrow>
     task list option" where
  "read_miss mem fd lv byte_mrds reply lba n ts =
     (let (len, reply1, n1) = read_round byte_mrds n reply;
          (b, reply2) = dig_serialize reply1
      in if n1 = 0 then Some (ts @ [TSend fd (SendTask b), item_task fd lv (FromFile lba len)])
         else let (reply3, b') = read_next mem len reply2
              in read_miss mem fd lv byte_mrds reply3 (lba + len) (n1 - len)
                   (ts @ [TSend fd ((SendTask b)\<lparr>st_cbufs := [b']\<rparr>), item_task fd lv (FromFile lba len)]))"

text \<open>The result is the returned value with the queue: an empty selection of segments fails the
  command after the header has been queued.\<close>

partial_function (option) read_hit ::
  "(nat \<Rightarrow> u8) \<Rightarrow> int \<Rightarrow> logical_volume \<Rightarrow> write_segment list \<Rightarrow> u32 \<Rightarrow> data_in_generator \<Rightarrow> nat \<Rightarrow> nat \<Rightarrow>
     task list \<Rightarrow> (bool \<times> task list) option" where
  "read_hit mem fd lv cache byte_mrds reply lba n ts =
     (let (len, reply1, n1) = read_round byte_mrds n reply;
          (b, reply2) = dig_serialize reply1;
          hits = getHitSegments cache lba len
      in if hits = [] then Some (False, ts @ [TSend fd (SendTask b)])
         else let (items, lba') = sendCache hits lba len
              in if n1 = 0 then Some (True, ts @ TSend fd (SendTask b) # map (item_task fd lv) items)
                 else let (reply3, b') = read_next mem len reply2
                      in read_hit mem fd lv cache byte_mrds reply3 lba' (n1 - len)
                           (ts @ TSend fd ((SendTask b)\<lparr>st_cbufs := [b']\<rparr>) # map (item_task fd lv) items))"

text \<open>\<^verbatim>\<open>ReadHandler::handle\<close>; \<open>lb\<close> is the index's \<^verbatim>\<open>lower_bound\<close> and \<open>mem\<close> the memory of fresh buffers.
  \<open>None\<close>: a null pointer or a vector position out of range is dereferenced, or a loop does not end.\<close>

definition ReadHandler_handle ::
  "(nat list \<Rightarrow> nat \<Rightarrow> nat) \<Rightarrow> (nat \<Rightarrow> u8) \<Rightarrow> handler_params \<Rightarrow> token \<Rightarrow> int \<Rightarrow> iscsi_session \<Rightarrow>
     (bool \<times> iscsi_session) option" where
  "ReadHandler_handle lb mem hp t fd s =
     (let fl = getFlags (token_header t); cdb = Cmd10_of (cmd_scb (cmd_request t))
      in if fl AND COMMAND_FLAG_READ = 0 \<or> fl AND COMMAND_FLAG_WRITE \<noteq> 0 \<or> \<not> Read10_valid cdb
         then Some (False, s)
         else if \<not> isFinal (token_header t) then Some (False, s)
         else case ses_initiator s of
           None \<Rightarrow> None
         | Some ini \<Rightarrow>
             let lun_id = unat (LUN_get (cmd_getLUN t)) in
             case ini_getLUN ini lun_id of
               None \<Rightarrow> Some (False, s)
             | Some lv \<Rightarrow>
                 let lba = c10_getLBA cdb; n = c10_getTransferLength cdb in
                 if lba \<ge> lv_count lv \<or> n = 0 \<or> lba + n > lv_count lv then Some (False, s)
                 else case conn_find fd s of
                   None \<Rightarrow> None
                 | Some conn \<Rightarrow>
                     if length (ses_wcaches s) \<le> lun_id then None
                     else
                       let reply = dig_setMAXCMDSN (getMAXCMDSN s) (dig_setEXPCMDSN (getEXPCMDSN s)
                             (dig_setSTATSN (getSTATSN conn) (dig_setTTT ISCSI_RSVD_TASK_TAG
                                (dig_setITT (getITT (token_header t)) (DataInGenerator mem)))));
                           s1 = conn_update fd advanceSTATSN s;
                           wc = ses_wcaches s ! lun_id;
                           cache = map (wc_heap wc) (wc_search lb wc lba n);
                           ts = ses_tasks s1 @ [TCPCork fd];
                           mrds = hp_mrds hp
                       in case (if cache = [] then map_option (Pair True) (read_miss mem fd lv mrds reply lba n ts)
                                else read_hit mem fd lv cache mrds reply lba n ts) of
                            None \<Rightarrow> None
                          | Some (ok, ts') \<Rightarrow>
                              if ok then Some (True, s1\<lparr>ses_tasks := ts' @ [TCPUncork fd]\<rparr>)
                              else Some (False, s1\<lparr>ses_tasks := ts'\<rparr>))"

section \<open>Which blocks come from where\<close>

text \<open>The block by block plan of the items: the source and the address.\<close>

fun item_plan :: "read_item \<Rightarrow> (write_segment option \<times> nat) list" where
  "item_plan (FromFile lba n) = map (\<lambda>b. (None, b)) [lba..<lba + n]"
| "item_plan (FromCache ws lba n) = map (\<lambda>b. (Some ws, b)) [lba..<lba + n]"

definition plan :: "read_item list \<Rightarrow> (write_segment option \<times> nat) list" where
  "plan items = concat (map item_plan items)"

text \<open>What should be sent: for each block the segment that covers it, else the file.\<close>

definition read_source :: "write_segment list \<Rightarrow> nat \<Rightarrow> write_segment option \<times> nat" where
  "read_source hits b = (find (\<lambda>ws. ws_covers ws b) hits, b)"

lemma sub32_exact: "b \<le> a \<Longrightarrow> a < 2 ^ 32 \<Longrightarrow> sub32 a b = a - b"
proof -
  assume a: "b \<le> a" "a < 2 ^ 32"
  then have "a + 2 ^ 64 - b = (a - b) + 2 ^ 32 * 2 ^ 32" by simp
  then have "sub32 a b = (a - b) mod 2 ^ 32" unfolding sub32_def by (metis mod_mult_self2)
  then show ?thesis using a by simp
qed

lemma map_upt_split: "a \<le> b \<Longrightarrow> b \<le> c \<Longrightarrow> map f [a..<c] = map f [a..<b] @ map f [b..<c]"
  by (metis le_add_diff_inverse map_append upt_add_eq_append)

text \<open>Segments ordered and disjoint, live, and reaching into the range.\<close>

definition hits_ok :: "nat \<Rightarrow> nat \<Rightarrow> write_segment list \<Rightarrow> bool" where
  "hits_ok lba n hits \<longleftrightarrow> sorted_wrt (\<lambda>a b. ws_end a \<le> ws_rlba b) hits \<and>
     (\<forall>ws \<in> set hits. lba < ws_end ws \<and> ws_rlba ws < lba + n \<and> 0 < ws_rlength ws \<and> ws_rlength ws < 2 ^ 32)"

lemma read_source_Cons_in:
  "ws_covers ws b \<Longrightarrow> read_source (ws # hits) b = (Some ws, b)"
  by (simp add: read_source_def)

lemma read_source_Cons_out:
  "\<not> ws_covers ws b \<Longrightarrow> read_source (ws # hits) b = read_source hits b"
  by (simp add: read_source_def)

lemma read_source_before:
  "\<forall>ws \<in> set hits. b < ws_rlba ws \<Longrightarrow> read_source hits b = (None, b)"
  by (auto simp: read_source_def ws_covers_def find_None_iff)

lemma plan_simps [simp]:
  "plan [] = []" "plan (i # is) = item_plan i @ plan is" "plan (is @ js) = plan is @ plan js"
  by (simp_all add: plan_def)

lemma sc_loop_in:
  assumes a: "n \<noteq> 0" "ws_rlba ws \<le> rlba" "ws_rlength ws < 2 ^ 32" "rlba < ws_end ws" "n < 2 ^ 32"
    and h: "h = min (ws_end ws - rlba) n"
  shows "sc_loop (ws # hits) rlba n =
    (let (items, r, n') = sc_loop hits (rlba + h) (n - h) in (FromCache ws rlba h # items, r, n'))"
proof -
  let ?c = "ws_rlength ws" and ?b = "ws_rlba ws"
  have m: "?c mod 2 ^ 32 = ?c" using a(3) by simp
  have h0: "sub32 ?c (rlba - ?b) = ?b + ?c - rlba"
    using a by (subst sub32_exact) (auto simp: ws_end_def)
  have hit: "(if rlba + n < ?b + ?c then sub32 (?b + ?c - rlba) (?b + ?c - rlba - n) else ?b + ?c - rlba) = h"
  proof (cases "rlba + n < ?b + ?c")
    case True
    moreover have "sub32 (?b + ?c - rlba) (?b + ?c - rlba - n) = ?b + ?c - rlba - (?b + ?c - rlba - n)"
      using a(2,3) by (intro sub32_exact) auto
    ultimately show ?thesis using h by (auto simp: ws_end_def)
  qed (use h in \<open>auto simp: ws_end_def\<close>)
  have s: "sub32 n h = n - h" using a(5) h by (intro sub32_exact) auto
  show ?thesis
    unfolding sc_loop.simps Let_def m h0 hit s using a(1,2) by simp
qed

lemma sc_loop_middle:
  assumes a: "n \<noteq> 0" "rlba < ws_rlba ws" "ws_rlength ws < 2 ^ 32" "n < 2 ^ 32"
    "rlba + n \<le> ws_end ws" "ws_rlba ws < rlba + n"
  shows "sc_loop (ws # hits) rlba n =
    ([FromFile rlba (ws_rlba ws - rlba), FromCache ws (ws_rlba ws) (rlba + n - ws_rlba ws)],
     sub64 (ws_end ws) (ws_rlba ws - rlba), 0)"
proof -
  let ?m = "ws_rlba ws - rlba"
  have "?m mod 2 ^ 32 = ?m" using a by simp
  moreover have "sub32 n ?m = rlba + n - ws_rlba ws" using a by (subst sub32_exact) auto
  moreover have "ws_rlength ws mod 2 ^ 32 = ws_rlength ws" using a(3) by simp
  ultimately show ?thesis using a by (simp add: Let_def ws_end_def)
qed

lemma sc_loop_past:
  assumes a: "n \<noteq> 0" "rlba < ws_rlba ws" "ws_rlength ws < 2 ^ 32" "n < 2 ^ 32" "ws_end ws < rlba + n"
  shows "sc_loop (ws # hits) rlba n =
    (let (items, r, n') = sc_loop hits (ws_end ws) (rlba + n - ws_end ws)
     in (FromFile rlba (ws_rlba ws - rlba) # FromCache ws (ws_rlba ws) (ws_rlength ws) # items, r, n'))"
proof -
  let ?m = "ws_rlba ws - rlba"
  have "?m < 2 ^ 32" using a by (simp add: ws_end_def)
  then have m: "?m mod 2 ^ 32 = ?m" by simp
  have s: "sub32 n (?m + ws_rlength ws) = rlba + n - ws_end ws"
    using a by (subst sub32_exact) (auto simp: ws_end_def)
  have c: "ws_rlength ws mod 2 ^ 32 = ws_rlength ws" using a(3) by simp
  have ni: "\<not> ws_rlba ws \<le> rlba" "\<not> rlba + n \<le> ws_rlba ws + ws_rlength ws"
    using a by (auto simp: ws_end_def)
  show ?thesis unfolding sc_loop.simps Let_def c m s using a(1) ni by (simp add: ws_end_def)
qed

lemma sendCache_from:
  "fst (sendCache hits rlba n) =
     (let (items, r, n') = sc_loop hits rlba n in if n' > 0 then items @ [FromFile r n'] else items)"
  by (simp add: sendCache_def Let_def split: prod.splits)

lemma hits_okD:
  "hits_ok rlba n (ws # hits) \<Longrightarrow> b < ws_end ws \<Longrightarrow> \<forall>w \<in> set hits. b < ws_rlba w"
  by (auto simp: hits_ok_def)

lemma plan_range_in:
  assumes "hits_ok rlba n (ws # hits)" and "ws_rlba ws \<le> a" and "b \<le> ws_end ws"
  shows "map (read_source (ws # hits)) [a..<b] = map (\<lambda>b. (Some ws, b)) [a..<b]"
  using assms by (auto simp: ws_covers_def ws_end_def intro!: read_source_Cons_in)

lemma plan_range_before:
  assumes "hits_ok rlba n (ws # hits)" and "b \<le> ws_rlba ws"
  shows "map (read_source (ws # hits)) [a..<b] = map (\<lambda>b. (None, b)) [a..<b]"
  using assms hits_okD [OF assms(1)]
  by (auto intro!: read_source_before simp: ws_end_def)

lemma plan_range_after:
  assumes "ws_end ws \<le> a"
  shows "map (read_source (ws # hits)) [a..<b] = map (read_source hits) [a..<b]"
  using assms by (auto intro!: read_source_Cons_out simp: ws_covers_def ws_end_def)

lemma sendCache_plan:
  "hits_ok rlba n hits \<Longrightarrow> n < 2 ^ 32 \<Longrightarrow>
     plan (fst (sendCache hits rlba n)) = map (read_source hits) [rlba..<rlba + n]"
proof (induction hits arbitrary: rlba n)
  case Nil
  then show ?case by (auto simp: sendCache_from read_source_def)
next
  case (Cons ws hits)
  show ?case
  proof (cases "n = 0")
    case True
    then show ?thesis by (simp add: sendCache_from)
  next
    case n: False
    have ws: "rlba < ws_end ws" "ws_rlba ws < rlba + n" "0 < ws_rlength ws" "ws_rlength ws < 2 ^ 32"
      using Cons.prems(1) by (auto simp: hits_ok_def)
    consider "ws_rlba ws \<le> rlba" | "rlba < ws_rlba ws" "rlba + n \<le> ws_end ws"
      | "rlba < ws_rlba ws" "ws_end ws < rlba + n" by linarith
    then show ?thesis
    proof cases
      case 1
      define h where "h = min (ws_end ws - rlba) n"
      have hle: "h \<le> n" "rlba + h \<le> ws_end ws" using ws(1) by (auto simp: h_def)
      have ok: "hits_ok (rlba + h) (n - h) hits"
        using Cons.prems(1) ws hle by (fastforce simp: hits_ok_def ws_end_def)
      have "fst (sendCache (ws # hits) rlba n) = FromCache ws rlba h # fst (sendCache hits (rlba + h) (n - h))"
        using sc_loop_in [OF n 1 ws(4,1) Cons.prems(2) h_def, of hits]
        by (simp add: sendCache_from Let_def split: prod.splits)
      moreover have "map (read_source (ws # hits)) [rlba + h..<rlba + n] =
          map (read_source hits) [rlba + h..<rlba + n]"
        by (cases "h = n") (simp, rule plan_range_after, simp add: h_def)
      moreover have "map (read_source (ws # hits)) [rlba..<rlba + n] =
          map (read_source (ws # hits)) [rlba..<rlba + h] @ map (read_source (ws # hits)) [rlba + h..<rlba + n]"
        using hle by (intro map_upt_split) auto
      ultimately show ?thesis
        using Cons.IH [OF ok] Cons.prems(2) hle plan_range_in [OF Cons.prems(1) 1 hle(2)] by simp
    next
      case 2
      have "map (read_source (ws # hits)) [rlba..<rlba + n] =
          map (read_source (ws # hits)) [rlba..<ws_rlba ws] @ map (read_source (ws # hits)) [ws_rlba ws..<rlba + n]"
        using 2 ws by (intro map_upt_split) auto
      then show ?thesis
        using sc_loop_middle [OF n 2(1) ws(4) Cons.prems(2) 2(2) ws(2), of hits] ws 2
          plan_range_before [OF Cons.prems(1) order.refl] plan_range_in [OF Cons.prems(1) order.refl 2(2)]
        by (simp add: sendCache_from)
    next
      case 3
      have ok: "hits_ok (ws_end ws) (rlba + n - ws_end ws) hits"
        using Cons.prems(1) 3 ws by (fastforce simp: hits_ok_def ws_end_def)
      have e: "ws_end ws = ws_rlba ws + ws_rlength ws" by (simp add: ws_end_def)
      have "map (read_source (ws # hits)) [rlba..<rlba + n] =
          map (read_source (ws # hits)) [rlba..<ws_rlba ws] @ map (read_source (ws # hits)) [ws_rlba ws..<ws_end ws] @
          map (read_source (ws # hits)) [ws_end ws..<rlba + n]"
        using 3 e map_upt_split [of rlba "ws_rlba ws" "rlba + n" "read_source (ws # hits)"]
          map_upt_split [of "ws_rlba ws" "ws_end ws" "rlba + n" "read_source (ws # hits)"] by simp
      moreover have "fst (sendCache (ws # hits) rlba n) = FromFile rlba (ws_rlba ws - rlba) #
          FromCache ws (ws_rlba ws) (ws_rlength ws) # fst (sendCache hits (ws_end ws) (rlba + n - ws_end ws))"
        using sc_loop_past [OF n 3(1) ws(4) Cons.prems(2) 3(2), of hits]
        by (simp add: sendCache_from Let_def split: prod.splits)
      moreover have "map (read_source (ws # hits)) [ws_end ws..<rlba + n] =
          map (read_source hits) [ws_end ws..<rlba + n]" by (rule plan_range_after) simp
      moreover have "rlba + n - ws_end ws < 2 ^ 32" using Cons.prems(2) 3 e by auto
      then have "plan (fst (sendCache hits (ws_end ws) (rlba + n - ws_end ws))) =
          map (read_source hits) [ws_end ws..<rlba + n]"
        using Cons.IH [OF ok] 3 by simp
      ultimately show ?thesis
        using 3(1) e [symmetric] plan_range_before [OF Cons.prems(1) order.refl, of rlba]
          plan_range_in [OF Cons.prems(1) order.refl order.refl] by simp
    qed
  qed
qed

section \<open>Properties\<close>

text \<open>The segments that a search returns are good hits, and all of them are selected again.\<close>

lemma search_hits_ok:
  assumes "ordered_index lb ub" and "wc_inv c"
    and "\<forall>p \<in> set (wc_lba c). ws_rlength (wc_heap c p) < 2 ^ 32"
  shows "hits_ok lba n (map (wc_heap c) (wc_search lb c lba n))"
proof -
  have ok: "idx_ok (map (wc_heap c) (wc_lba c))" using assms(2) by (simp add: wc_inv_def)
  have eq: "wc_search lb c lba n = filter (\<lambda>p. ws_hit lba n (wc_heap c p)) (wc_lba c)"
    using ordered_index.search_list_eq [OF assms(1) ok] assms(2)
    by (auto simp: wc_search_def Let_def wc_inv_def)
  have "sorted_wrt (\<lambda>p q. idx_rel (wc_heap c p) (wc_heap c q)) (wc_search lb c lba n)"
    using ok unfolding eq by (intro sorted_wrt_filter) (simp add: idx_ok_def sorted_wrt_map)
  then have "sorted_wrt (\<lambda>p q. ws_end (wc_heap c p) \<le> ws_rlba (wc_heap c q)) (wc_search lb c lba n)"
    by (rule sorted_wrt_mono_rel [rotated]) (auto simp: eq idx_rel_def ws_hit_def)
  moreover have "\<forall>p \<in> set (wc_search lb c lba n). lba < ws_end (wc_heap c p) \<and>
      ws_rlba (wc_heap c p) < lba + n \<and> 0 < ws_rlength (wc_heap c p) \<and> ws_rlength (wc_heap c p) < 2 ^ 32"
    using assms(3) unfolding eq by (auto simp: ws_hit_def ws_live_def ws_end_def)
  ultimately show ?thesis by (auto simp: hits_ok_def sorted_wrt_map)
qed

lemma getHitSegments_all: "hits_ok lba n hits \<Longrightarrow> getHitSegments hits lba n = hits"
  by (auto simp: getHitSegments_def hits_ok_def ws_end_def filter_id_conv)

text \<open>C11. A READ that fits into one data segment is answered correctly from the cache and the files:
  what is queued behind the header sends, block by block and in order, the cached block where the
  cache's view has one and the file's block elsewhere, whatever segments the search returned.\<close>

theorem sendCache_merges_view:
  assumes "ordered_index lb ub" and "wc_inv c"
    and "\<forall>p \<in> set (wc_lba c). ws_rlength (wc_heap c p) < 2 ^ 32" and "n < 2 ^ 32"
  shows "let cache = map (wc_heap c) (wc_search lb c lba n)
    in map (\<lambda>(ws, b). (map_option ws_data ws, b)) (plan (fst (sendCache (getHitSegments cache lba n) lba n))) =
       map (\<lambda>b. (wc_view c b, b)) [lba..<lba + n]"
proof -
  let ?cache = "map (wc_heap c) (wc_search lb c lba n)"
  have hok: "hits_ok lba n ?cache" by (rule search_hits_ok [OF assms(1-3)])
  have ok: "idx_ok (map (wc_heap c) (wc_lba c))" using assms(2) by (simp add: wc_inv_def)
  have eq: "wc_search lb c lba n = filter (\<lambda>p. ws_hit lba n (wc_heap c p)) (wc_lba c)"
    using ordered_index.search_list_eq [OF assms(1) ok] assms(2)
    by (auto simp: wc_search_def Let_def wc_inv_def)
  have src: "map_option ws_data (fst (read_source ?cache b)) = wc_view c b" if b: "lba \<le> b" "b < lba + n" for b
  proof (cases "find (\<lambda>ws. ws_covers ws b) ?cache")
    case None
    then have "\<forall>p \<in> set (wc_search lb c lba n). \<not> ws_covers (wc_heap c p) b" by (auto simp: find_None_iff)
    then have "\<forall>p \<in> set (wc_lba c). \<not> ws_covers (wc_heap c p) b"
      using b unfolding eq by (auto simp: ws_range_defs)
    then have "find (\<lambda>p. ws_covers (wc_heap c p) b) (wc_lba c) = None" by (auto simp: find_None_iff)
    then show ?thesis using None by (simp add: wc_view_def read_source_def)
  next
    case (Some ws)
    then have "ws \<in> set ?cache" "ws_covers ws b" by (auto simp: find_Some_iff)
    then obtain p where "p \<in> set (wc_lba c)" "ws = wc_heap c p" unfolding eq by auto
    with \<open>ws_covers ws b\<close> wc_view_Some_iff [OF assms(2), of b "ws_data ws"]
    have "wc_view c b = Some (ws_data ws)" by auto
    then show ?thesis using Some by (simp add: read_source_def)
  qed
  have "plan (fst (sendCache (getHitSegments ?cache lba n) lba n)) = map (read_source ?cache) [lba..<lba + n]"
    unfolding getHitSegments_all [OF hok] by (rule sendCache_plan [OF hok assms(4)])
  then show ?thesis using src by (simp add: Let_def read_source_def case_prod_unfold o_def)
qed

theorem sendCache_merges_view_witness:
  "let c = wc_write std_lb std_ub seg_b (WriteCache (\<lambda>_. seg_a) 0); cache = map (wc_heap c) (wc_search std_lb c 0 8)
   in map (\<lambda>(ws, b). (map_option ws_data ws, b)) (plan (fst (sendCache (getHitSegments cache 0 8) 0 8))) =
      map (\<lambda>b. (wc_view c b, b)) [0..<8]"
proof -
  let ?c = "wc_write std_lb std_ub seg_b (WriteCache (\<lambda>_. seg_a) 0)"
  have "ws_fresh seg_b" by (simp add: seg_b_def WriteSegment_def ws_fresh_def)
  from ordered_index.write_correct [OF std.ordered_index_axioms wc_inv_WriteCache this wc_safe_WriteCache]
  have inv: "wc_inv ?c" by blast
  have "\<forall>p \<in> set (wc_lba ?c). ws_rlength (wc_heap ?c p) < 2 ^ 32"
    by (simp add: wc_eval) (simp add: seg_b_def WriteSegment_def)
  from sendCache_merges_view [OF std.ordered_index_axioms inv this, of 8 0] show ?thesis
    by (simp add: Let_def)
qed

text \<open>When a READ is split into several data segments and a cached segment starts exactly where
  one of them ends, the selection includes it, a task of length zero is queued, and that task never
  reports success: every write of the socket leaves it waiting, so the session sends nothing any
  more.\<close>

theorem adjacent_hit_blocks_session:
  assumes "ws_rlba ws = lba + n" and "0 < n" and "n < 2 ^ 32" and "ws_rlength ws < 2 ^ 32"
    and "ws_lba ws = lba + n" and "ws_cbufs ws \<noteq> []" and "length (ws_cbufs ws) < 2 ^ 64"
  shows "getHitSegments [ws] lba n = [ws] \<and>
    fst (sendCache [ws] lba n) = [FromFile lba n, FromCache ws (lba + n) 0] \<and>
    sct_run (SendCacheTask ws (lba + n) 0) out (a # as) =
      Some (False, WaitWritable, SendCacheTask ws (lba + n) 0, out)"
proof -
  have m: "n mod 2 ^ 32 = n" "ws_rlength ws mod 2 ^ 32 = ws_rlength ws" using assms by auto
  have z: "sub32 n n = 0" using assms(3) by (subst sub32_exact) auto
  have "fst (sendCache [ws] lba n) = [FromFile lba n, FromCache ws (lba + n) 0]"
    using assms(1,2) m z by (simp add: sendCache_def Let_def)
  moreover have "getHitSegments [ws] lba n = [ws]" using assms(1,2) by (simp add: getHitSegments_def)
  moreover have t: "SendCacheTask ws (lba + n) 0 =
      \<lparr>sct_ws = ws, sct_clba = lba + n, sct_total_remain = 0, sct_cur_index = 0, sct_offset = 0\<rparr>"
    using assms(5) by (simp add: SendCacheTask_def)
  moreover have "iov_cells 0 r off bs = []" if "r = 0" for r off bs
    using that by (induction bs arbitrary: r off) (simp_all add: Let_def sub64_def)
  then have "ic_of_SendCacheTask (SendCacheTask ws (lba + n) 0) = []"
    unfolding t by (simp add: ic_of_SendCacheTask_def sct_begin_def)
  moreover have "sct_size (SendCacheTask ws (lba + n) 0) \<noteq> 0"
    using assms(6,7) unfolding t by (simp add: sct_size_def)
  ultimately show ?thesis by (simp add: sct_run_def split: send_answer.splits)
qed

theorem adjacent_hit_blocks_session_witness:
  "sct_run (SendCacheTask ex_seg 1 0) [] [Taken 100, Taken 100] =
     Some (False, WaitWritable, SendCacheTask ex_seg 1 0, [])"
  using adjacent_hit_blocks_session [of ex_seg 0 1 "[]" "Taken 100" "[Taken 100]"]
  by (simp add: ex_seg_def WriteSegment_def)

text \<open>A chunk of a longer READ in which the cache holds no block fails the whole command after its
  header has been queued, although other chunks are cached and the files hold the data.\<close>

theorem uncached_chunk_fails_read:
  "let ws = (WriteSegment 20 4)\<lparr>ws_cbufs := [ex_out]\<rparr>
   in getHitSegments [ws] 0 16 = [] \<and>
      map_option fst (read_hit (\<lambda>_. 0) 3 ex_lv [ws] 8192 (DataInGenerator (\<lambda>_. 0)) 0 24 []) = Some False"
  unfolding Let_def by (subst read_hit.simps)
    (auto simp: getHitSegments_def WriteSegment_def read_round_def dig_serialize_def OFFSET2LBA_eq)

text \<open>After a segment that reaches behind the end of the chunk the address for the next chunk is
  computed from the segment's end: for the chunk 0 to 15 and a segment 8 to 39 it becomes 32, not 16.\<close>

theorem sendCache_next_address_wrong:
  "let ws = (WriteSegment 8 32)\<lparr>ws_cbufs := [ex_out]\<rparr>
   in sendCache [ws] 0 16 = ([FromFile 0 8, FromCache ws 8 8], 32)"
  by (simp add: sendCache_def WriteSegment_def sub32_def sub64_def Let_def)

end
