(* ===== verification/ScsiWrite.thy ===== *)
theory ScsiWrite
  imports ScsiRead
begin

text \<open>
  WRITE(10) and the Data-Out PDUs that carry its data: the handlers of \<^verbatim>\<open>src/scsi/write.cpp\<close> and
  \<^verbatim>\<open>src/iscsi/dataout.cpp\<close>. A command records what is outstanding under its task tag, every data PDU
  is pushed into the logical unit's write cache, and the handlers answer with an R2T for the rest or
  with the final SCSI response. Waking the disk writer is left out: it runs in its own thread.
\<close>

section \<open>Common steps\<close>

definition WRITE_10 :: u8 where "WRITE_10 = 0x2a"

definition Write10_valid :: "Cmd10 \<Rightarrow> bool" where
  "Write10_valid c \<longleftrightarrow> c10_opcode c = WRITE_10 \<and> c10_protect c = 0 \<and> \<not> c10_isDPO c"

text \<open>The \<^verbatim>\<open>uint32_t\<close> values of the handlers are words, so that the subtractions wrap as in C.\<close>

definition cache_push ::
  "(nat list \<Rightarrow> nat \<Rightarrow> nat) \<Rightarrow> (nat list \<Rightarrow> nat \<Rightarrow> nat) \<Rightarrow> nat \<Rightarrow> write_segment \<Rightarrow> iscsi_session \<Rightarrow> iscsi_session" where
  "cache_push lb ub lun ws s =
     s\<lparr>ses_wcaches := (ses_wcaches s)[lun := wc_write lb ub ws (ses_wcaches s ! lun)]\<rparr>"

text \<open>The final response: \<^verbatim>\<open>None\<close> when the connection is gone.\<close>

definition send_good :: "(nat \<Rightarrow> u8) \<Rightarrow> int \<Rightarrow> u32 \<Rightarrow> iscsi_session \<Rightarrow> iscsi_session option" where
  "send_good mem fd itt s =
     (case conn_find fd s of
        None \<Rightarrow> None
      | Some conn \<Rightarrow>
          let reply = rsp_setITT itt (rsp_setCmdStatus SCSI_GOOD (rsp_setFlags ISCSI_FLAG_FINAL SCSIRspGenerator));
              reply1 = rsp_setMAXCMDSN (getMAXCMDSN s) (rsp_setEXPCMDSN (getEXPCMDSN s)
                         (rsp_setSTATSN (getSTATSN conn) reply))
          in Some (sendtask_push (TSend fd (SendTask (rsp_serialize mem reply1)))
                    (conn_update fd advanceSTATSN s)))"

text \<open>The R2T for what remains, at most \<open>mrds\<close> bytes of it; it takes the next R2T number.\<close>

definition make_r2t ::
  "iscsi_session \<Rightarrow> iscsi_connection \<Rightarrow> u32 \<Rightarrow> u8 list \<Rightarrow> u32 \<Rightarrow> u32 \<Rightarrow> u32 \<Rightarrow> u32 \<Rightarrow> R2THeader" where
  "make_r2t s conn itt lun offset remain mrds r2tsn =
     r2t_setR2TSN r2tsn (r2t_setDesiredDataTransferLength (min remain mrds) (r2t_setOffset offset
       (r2t_setMAXCMDSN (getMAXCMDSN s) (r2t_setEXPCMDSN (getEXPCMDSN s) (r2t_setSTATSN (getSTATSN conn)
         (r2t_setLUN lun (r2t_setTTT itt (r2t_setITT itt R2TGenerator))))))))"

section \<open>WRITE(10)\<close>

text \<open>\<^verbatim>\<open>WriteHandler::handle\<close>. \<open>None\<close> is a dereferenced null pointer.\<close>

definition WriteHandler_handle ::
  "(nat list \<Rightarrow> nat \<Rightarrow> nat) \<Rightarrow> (nat list \<Rightarrow> nat \<Rightarrow> nat) \<Rightarrow> (nat \<Rightarrow> u8) \<Rightarrow> handler_params \<Rightarrow> token \<Rightarrow> int \<Rightarrow>
     iscsi_session \<Rightarrow> (bool \<times> iscsi_session) option" where
  "WriteHandler_handle lb ub mem hp t fd s =
     (let fl = getFlags (token_header t); cdb = Cmd10_of (cmd_scb (cmd_request t));
          itt = getITT (token_header t)
      in if fl AND COMMAND_FLAG_WRITE = 0 \<or> fl AND COMMAND_FLAG_READ \<noteq> 0 \<or> \<not> Write10_valid cdb
         then Some (False, s)
         else if LBA2OFFSET (c10_getTransferLength cdb) > unat (hp_maxBurstLength hp) then Some (False, s)
         else case ses_initiator s of
           None \<Rightarrow> None
         | Some ini \<Rightarrow>
             let lun_id = unat (LUN_get (cmd_getLUN t)) in
             case ini_getLUN ini lun_id of
               None \<Rightarrow> Some (False, s)
             | Some lv \<Rightarrow>
                 let lba = c10_getLBA cdb; n = c10_getTransferLength cdb;
                     tot = of_nat (LBA2OFFSET n) :: u32
                 in if lba \<ge> lv_count lv \<or> n = 0 \<or> lba + n > lv_count lv then Some (False, s)
                 else
                   let dlen = getDlength (token_header t);
                       immediate =
                         (if hp_immediateEnabled hp
                          then case frontDataSegment t lba (OFFSET2LBA dlen) of
                                 None \<Rightarrow> None
                               | Some ws \<Rightarrow>
                                   if length (ses_wcaches s) \<le> lun_id then None
                                   else Some (cache_push lb ub lun_id ws s, tot - of_nat dlen, True)
                          else Some (s, tot, False))
                   in case immediate of
                        None \<Rightarrow> Some (False, s)
                      | Some (s1, remain, pushed) \<Rightarrow>
                          if pushed \<and> remain = 0
                          then if \<not> isFinal (token_header t) then Some (False, s1)
                               else map_option (Pair True) (send_good mem fd itt s1)
                          else
                            let dinfo = DataOutInfo lba tot remain in
                            if hp_initialR2T hp \<or> of_nat dlen \<ge> hp_firstBurstLength hp
                            then case conn_find fd s1 of
                                   None \<Rightarrow> None
                                 | Some conn \<Rightarrow>
                                     let (r2tsn, dinfo1) = advanceR2TSN dinfo;
                                         r2t = make_r2t s1 conn itt (cmd_getLUN t) (tot - remain) remain
                                                 (hp_mrds hp) r2tsn;
                                         s2 = sendtask_push (TSend fd (SendTask (r2t_serialize mem r2t))) s1
                                     in Some (True, snd (recvinfo_put itt dinfo1 s2))
                            else Some (True, snd (recvinfo_put itt dinfo s1)))"

section \<open>Data-Out\<close>

definition do_request :: "token \<Rightarrow> DataOutHeader" where
  "do_request t = DataOutHeader_of (token_bytes t)"

definition do_valid :: "token \<Rightarrow> bool" where
  "do_valid t \<longleftrightarrow> getOpCode (token_header t) = iSCSI_OP_SCSI_DATA"

definition do_getLUN :: "token \<Rightarrow> u8 list" where
  "do_getLUN t = LUN_set (do_lun (do_request t))"

text \<open>\<^verbatim>\<open>DataOutHandler::handle\<close>; the information about the write is shared by pointer, so its update is an
  update of the table.\<close>

definition set_info :: "u32 \<Rightarrow> data_out_info \<Rightarrow> iscsi_session \<Rightarrow> iscsi_session" where
  "set_info itt i s = s\<lparr>ses_infos := (ses_infos s)(itt \<mapsto> i)\<rparr>"

definition DataOutHandler_handle ::
  "(nat list \<Rightarrow> nat \<Rightarrow> nat) \<Rightarrow> (nat list \<Rightarrow> nat \<Rightarrow> nat) \<Rightarrow> (nat \<Rightarrow> u8) \<Rightarrow> u32 \<Rightarrow> token \<Rightarrow> int \<Rightarrow>
     iscsi_session \<Rightarrow> (bool \<times> iscsi_session) option" where
  "DataOutHandler_handle lb ub mem mrds t fd s =
     (if \<not> do_valid t then Some (False, s)
      else let itt = getITT (token_header t) in
        case recvinfo_get itt s of
          None \<Rightarrow> Some (False, s)
        | Some dinfo \<Rightarrow>
            let lba = doi_lba dinfo; remain = doi_remain dinfo;
                dlen = of_nat (getDlength (token_header t)) :: u32;
                lun_id = unat (LUN_get (do_getLUN t));
                seg = frontDataSegment t (lba + OFFSET2LBA (unat (doi_total dinfo - remain)))
                        (OFFSET2LBA (unat dlen))
            in if seg \<noteq> None \<and> length (ses_wcaches s) \<le> lun_id then Some (False, s)
               else
                 let s1 = (case seg of None \<Rightarrow> s | Some ws \<Rightarrow> cache_push lb ub lun_id ws s)
                 in if remain < dlen then Some (False, s1)
                    else
                      let remain1 = remain - dlen; dinfo1 = setRemain remain1 dinfo;
                          s2 = set_info itt dinfo1 s1
                      in if \<not> isFinal (token_header t) then Some (True, s2)
                         else if remain1 = 0
                         then case send_good mem fd itt s2 of
                                None \<Rightarrow> None
                              | Some s3 \<Rightarrow> Some (True, snd (recvinfo_pop itt s3))
                         else case conn_find fd s2 of
                                None \<Rightarrow> None
                              | Some conn \<Rightarrow>
                                  let (r2tsn, dinfo2) = advanceR2TSN dinfo1;
                                      r2t = make_r2t s2 conn itt (do_getLUN t) (doi_total dinfo1 - remain1)
                                              remain1 mrds r2tsn
                                  in Some (True, sendtask_push (TSend fd (SendTask (r2t_serialize mem r2t)))
                                                   (set_info itt dinfo2 s2)))"

section \<open>A whole transfer\<close>

text \<open>A Data-Out PDU for the task tag and unit, block aligned and complete.\<close>

definition do_ok :: "u32 \<Rightarrow> nat \<Rightarrow> token \<Rightarrow> bool" where
  "do_ok itt lun t \<longleftrightarrow> do_valid t \<and> token_ok t \<and> getITT (token_header t) = itt \<and>
     unat (LUN_get (do_getLUN t)) = lun \<and> 0 < getDlength (token_header t) \<and>
     512 dvd getDlength (token_header t)"

definition do_len :: "token \<Rightarrow> nat" where
  "do_len t = getDlength (token_header t)"

text \<open>The segment pushed for a PDU whose data start at block \<open>a\<close>.\<close>

definition do_seg :: "nat \<Rightarrow> token \<Rightarrow> write_segment" where
  "do_seg a t = the (frontDataSegment t a (OFFSET2LBA (do_len t)))"

fun do_segs :: "nat \<Rightarrow> token list \<Rightarrow> write_segment list" where
  "do_segs a [] = []"
| "do_segs a (t # ts) = do_seg a t # do_segs (a + OFFSET2LBA (do_len t)) ts"

lemma LBA2OFFSET_OFFSET2LBA: "512 dvd d \<Longrightarrow> LBA2OFFSET (OFFSET2LBA d) = d"
  by (auto simp: LBA2OFFSET_eq OFFSET2LBA_eq)

lemma do_seg_correct:
  assumes "do_ok itt lun t"
  shows "frontDataSegment t a (OFFSET2LBA (do_len t)) = Some (do_seg a t) \<and>
    ws_lba (do_seg a t) = a \<and> ws_transfer_length (do_seg a t) = OFFSET2LBA (do_len t) \<and>
    ws_fresh (do_seg a t) \<and> ws_bytes (do_seg a t) = token_data t"
proof -
  have t: "token_ok t" "0 < getDlength (token_header t)" "512 dvd getDlength (token_header t)"
    using assms by (auto simp: do_ok_def)
  have eq: "LBA2OFFSET (OFFSET2LBA (do_len t)) = do_len t"
    using LBA2OFFSET_OFFSET2LBA [OF t(3)] by (simp add: do_len_def)
  then have "0 < OFFSET2LBA (do_len t)" using t(2) by (cases "OFFSET2LBA (do_len t)") (auto simp: do_len_def)
  moreover have "getDlength (token_header t) \<le> LBA2OFFSET (OFFSET2LBA (do_len t))" using eq by (simp add: do_len_def)
  from frontDataSegment_ok [OF t(1,2) this, of a] obtain ws where
    ws: "frontDataSegment t a (OFFSET2LBA (do_len t)) = Some ws" "ws_lba ws = a"
    "ws_transfer_length ws = OFFSET2LBA (do_len t)" "ws_rlba ws = a" "ws_rlength ws = OFFSET2LBA (do_len t)"
    "\<not> ws_copy ws" "take (getDlength (token_header t)) (ws_pieces (ws_ds_offset ws) (ws_cbufs ws)) = token_data t"
    by blast
  ultimately show ?thesis using eq by (simp add: do_seg_def ws_fresh_def ws_bytes_def do_len_def)
qed

lemma conn_find_update: "conn_find fd (conn_update fd' f s) = (if fd = fd' then map_option f (conn_find fd s) else conn_find fd s)"
proof -
  have "map_of (map (\<lambda>(k, c). if k = fd' then (k, f c) else (k, c)) ps) fd =
      (if fd = fd' then map_option f (map_of ps fd) else map_of ps fd)" for ps
    by (induction ps) auto
  then show ?thesis by (simp add: conn_find_def conn_update_def)
qed

lemma conn_find_push [simp]: "conn_find fd (s\<lparr>ses_tasks := ts\<rparr>) = conn_find fd s"
  by (simp add: conn_find_def)

lemma conn_update_other [simp]:
  "ses_tasks (conn_update fd f s) = ses_tasks s" "ses_infos (conn_update fd f s) = ses_infos s"
  "ses_wcaches (conn_update fd f s) = ses_wcaches s"
  by (simp_all add: conn_update_def)

lemma send_good_eq:
  "conn_find fd s = Some conn \<Longrightarrow> \<exists>b s'. send_good mem fd itt s = Some s' \<and>
     ses_tasks s' = ses_tasks s @ [TSend fd (SendTask b)] \<and> ses_infos s' = ses_infos s \<and>
     ses_wcaches s' = ses_wcaches s \<and> conn_find fd s' = Some (advanceSTATSN conn)"
  by (auto simp add: send_good_def sendtask_push_def Let_def conn_find_update)

text \<open>One PDU: what is pushed, what remains, and the answer.\<close>

lemma dataout_step:
  assumes ok: "do_ok itt lun t" and info: "ses_infos s itt = Some i"
    and len: "do_len t \<le> unat (doi_remain i)" and tot: "doi_remain i \<le> doi_total i"
    and lun: "lun < length (ses_wcaches s)" and conn: "conn_find fd s \<noteq> None"
  defines "a \<equiv> doi_lba i + OFFSET2LBA (unat (doi_total i - doi_remain i))"
  shows "\<exists>s'. DataOutHandler_handle lb ub mem mrds t fd s = Some (True, s') \<and>
    ses_wcaches s' = (ses_wcaches s)[lun := wc_write lb ub (do_seg a t) (ses_wcaches s ! lun)] \<and>
    conn_find fd s' \<noteq> None \<and>
    (if isFinal (token_header t) \<and> unat (doi_remain i) = do_len t
     then ses_infos s' = (ses_infos s)(itt := None)
     else \<exists>i'. ses_infos s' = (ses_infos s)(itt \<mapsto> i') \<and> doi_lba i' = doi_lba i \<and> doi_total i' = doi_total i \<and>
            unat (doi_remain i') = unat (doi_remain i) - do_len t) \<and>
    (if isFinal (token_header t) then \<exists>b. ses_tasks s' = ses_tasks s @ [TSend fd (SendTask b)]
     else ses_tasks s' = ses_tasks s)"
proof -
  define dlen :: u32 where "dlen = of_nat (do_len t)"
  have d24: "do_len t < 2 ^ 24" using getDlength_less by (simp add: do_len_def)
  then have u: "unat dlen = do_len t" by (simp add: dlen_def unat_of_nat)
  have le: "\<not> doi_remain i < dlen" using len u by (simp add: word_less_nat_alt)
  have sub: "unat (doi_remain i - dlen) = unat (doi_remain i) - do_len t"
    using len u by (subst unat_sub) (simp_all add: word_le_nat_alt)
  have z: "doi_remain i - dlen = 0 \<longleftrightarrow> unat (doi_remain i) = do_len t"
    using len sub by (metis diff_is_0_eq diff_self_eq_0 le_antisym unat_0 unat_eq_zero)
  have itt: "getITT (token_header t) = itt" "unat (LUN_get (do_getLUN t)) = lun" "do_valid t"
    using ok by (auto simp: do_ok_def)
  have seg: "frontDataSegment t a (OFFSET2LBA (unat dlen)) = Some (do_seg a t)"
    using do_seg_correct [OF ok, of a] u by simp
  define s1 where "s1 = cache_push lb ub lun (do_seg a t) s"
  define i1 where "i1 = setRemain (doi_remain i - dlen) i"
  define s2 where "s2 = set_info itt i1 s1"
  have s2: "ses_wcaches s2 = (ses_wcaches s)[lun := wc_write lb ub (do_seg a t) (ses_wcaches s ! lun)]"
    "ses_infos s2 = (ses_infos s)(itt \<mapsto> i1)" "ses_tasks s2 = ses_tasks s" "conn_find fd s2 = conn_find fd s"
    by (simp_all add: s2_def s1_def set_info_def cache_push_def conn_find_def)
  have i1: "doi_lba i1 = doi_lba i" "doi_total i1 = doi_total i" "unat (doi_remain i1) = unat (doi_remain i) - do_len t"
    using sub by (simp_all add: i1_def setRemain_def)
  obtain conn' where conn': "conn_find fd s2 = Some conn'" using conn s2(4) by auto
  have h: "DataOutHandler_handle lb ub mem mrds t fd s =
    (if \<not> isFinal (token_header t) then Some (True, s2)
     else if doi_remain i - dlen = 0
     then (case send_good mem fd itt s2 of None \<Rightarrow> None | Some s3 \<Rightarrow> Some (True, snd (recvinfo_pop itt s3)))
     else let (r2tsn, i2) = advanceR2TSN i1;
              r2t = make_r2t s2 conn' itt (do_getLUN t) (doi_total i1 - (doi_remain i - dlen))
                      (doi_remain i - dlen) mrds r2tsn
          in Some (True, sendtask_push (TSend fd (SendTask (r2t_serialize mem r2t))) (set_info itt i2 s2)))"
    using itt info seg lun le conn'
    by (simp add: DataOutHandler_handle_def recvinfo_get_def Let_def a_def [symmetric] do_len_def [symmetric]
        dlen_def [symmetric] s1_def [symmetric] i1_def [symmetric] s2_def [symmetric]
        del: right_minus_eq)
      (simp add: s2_def i1_def)
  consider "\<not> isFinal (token_header t)" | "isFinal (token_header t)" "doi_remain i - dlen = 0"
    | "isFinal (token_header t)" "doi_remain i - dlen \<noteq> 0" by blast
  then show ?thesis
  proof cases
    case 1
    then show ?thesis using s2 i1 conn unfolding h by auto
  next
    case 2
    from send_good_eq [OF conn', of mem itt] obtain b s3 where
      "send_good mem fd itt s2 = Some s3" "ses_tasks s3 = ses_tasks s2 @ [TSend fd (SendTask b)]"
      "ses_infos s3 = ses_infos s2" "ses_wcaches s3 = ses_wcaches s2" "conn_find fd s3 \<noteq> None" by auto
    then show ?thesis using 2 s2 z unfolding h by (auto simp: recvinfo_pop_def conn_find_def)
  next
    case 3
    let ?i2 = "snd (advanceR2TSN i1)"
    have "doi_lba ?i2 = doi_lba i1 \<and> doi_total ?i2 = doi_total i1 \<and> doi_remain ?i2 = doi_remain i1"
      by (simp add: advanceR2TSN_def)
    then show ?thesis using 3 s2 z i1 conn unfolding h
      by (auto simp: Let_def sendtask_push_def set_info_def conn_find_def split: prod.splits)
  qed
qed

fun do_run ::
  "(nat list \<Rightarrow> nat \<Rightarrow> nat) \<Rightarrow> (nat list \<Rightarrow> nat \<Rightarrow> nat) \<Rightarrow> (nat \<Rightarrow> u8) \<Rightarrow> u32 \<Rightarrow> int \<Rightarrow> token list \<Rightarrow>
     iscsi_session \<Rightarrow> iscsi_session option" where
  "do_run lb ub mem mrds fd [] s = Some s"
| "do_run lb ub mem mrds fd (t # ts) s =
     (case DataOutHandler_handle lb ub mem mrds t fd s of
        Some (True, s') \<Rightarrow> do_run lb ub mem mrds fd ts s'
      | _ \<Rightarrow> None)"

lemma do_run_transfer:
  "\<forall>t \<in> set ts. do_ok itt lun t \<Longrightarrow> ts \<noteq> [] \<Longrightarrow> isFinal (token_header (last ts)) \<Longrightarrow> ses_infos s itt = Some i \<Longrightarrow>
     unat (doi_remain i) = sum_list (map do_len ts) \<Longrightarrow> doi_remain i \<le> doi_total i \<Longrightarrow>
     512 dvd unat (doi_total i) \<Longrightarrow> lun < length (ses_wcaches s) \<Longrightarrow> conn_find fd s \<noteq> None \<Longrightarrow>
     \<exists>s'. do_run lb ub mem mrds fd ts s = Some s' \<and> ses_infos s' = (ses_infos s)(itt := None) \<and>
       ses_wcaches s' = (ses_wcaches s)[lun := fold (wc_write lb ub)
         (do_segs (doi_lba i + OFFSET2LBA (unat (doi_total i - doi_remain i))) ts) (ses_wcaches s ! lun)] \<and>
       (\<exists>us b. ses_tasks s' = ses_tasks s @ us @ [TSend fd (SendTask b)] \<and>
          length us = length (filter (\<lambda>t. isFinal (token_header t)) (butlast ts)))"
proof (induction ts arbitrary: s i)
  case (Cons t ts)
  let ?a = "doi_lba i + OFFSET2LBA (unat (doi_total i - doi_remain i))"
  have ok: "do_ok itt lun t" and len: "do_len t \<le> unat (doi_remain i)" using Cons.prems by auto
  from dataout_step [OF ok Cons.prems(4) len Cons.prems(6,8,9), of lb ub mem mrds] obtain s1 where
    h: "DataOutHandler_handle lb ub mem mrds t fd s = Some (True, s1)"
    and w: "ses_wcaches s1 = (ses_wcaches s)[lun := wc_write lb ub (do_seg ?a t) (ses_wcaches s ! lun)]"
    and c: "conn_find fd s1 \<noteq> None"
    and inf: "if isFinal (token_header t) \<and> unat (doi_remain i) = do_len t
     then ses_infos s1 = (ses_infos s)(itt := None)
     else \<exists>i'. ses_infos s1 = (ses_infos s)(itt \<mapsto> i') \<and> doi_lba i' = doi_lba i \<and> doi_total i' = doi_total i \<and>
            unat (doi_remain i') = unat (doi_remain i) - do_len t"
    and tk: "if isFinal (token_header t) then \<exists>b. ses_tasks s1 = ses_tasks s @ [TSend fd (SendTask b)]
     else ses_tasks s1 = ses_tasks s" by blast
  show ?case
  proof (cases ts)
    case Nil
    then show ?thesis using Cons.prems(3,5) h w inf tk by auto
  next
    case (Cons u us)
    have pos: "0 < do_len u" using Cons.prems(1) local.Cons by (auto simp: do_ok_def do_len_def)
    then have "unat (doi_remain i) \<noteq> do_len t" using Cons.prems(5) local.Cons by auto
    with inf obtain i' where i': "ses_infos s1 = (ses_infos s)(itt \<mapsto> i')" "doi_lba i' = doi_lba i"
      "doi_total i' = doi_total i" "unat (doi_remain i') = unat (doi_remain i) - do_len t" by auto
    have le': "doi_remain i' \<le> doi_total i'"
      using Cons.prems(6) i'(3,4) by (simp add: word_le_nat_alt)
    have sum: "unat (doi_remain i') = sum_list (map do_len ts)" using Cons.prems(5) i'(4) by simp
    have "512 dvd do_len x" if "x \<in> set (t # ts)" for x
      using Cons.prems(1) that by (auto simp: do_ok_def do_len_def)
    then have dv: "512 dvd do_len t" by simp
    have off: "OFFSET2LBA (unat (doi_total i' - doi_remain i')) =
        OFFSET2LBA (unat (doi_total i - doi_remain i)) + OFFSET2LBA (do_len t)"
    proof -
      have "unat (doi_total i' - doi_remain i') = unat (doi_total i) - unat (doi_remain i')"
        using le' i'(3) by (subst unat_sub) auto
      also have "\<dots> = unat (doi_total i - doi_remain i) + do_len t"
        using Cons.prems(6) len i'(4) by (subst unat_sub) (auto simp: word_le_nat_alt)
      finally show ?thesis using dv by (simp add: OFFSET2LBA_eq div_plus_div_distrib_dvd_right)
    qed
    have lun1: "lun < length (ses_wcaches s1)" using Cons.prems(8) w by simp
    have itt1: "ses_infos s1 itt = Some i'" using i'(1) by simp
    have fin: "isFinal (token_header (last ts))" using Cons.prems(3) local.Cons by simp
    have tot: "512 dvd unat (doi_total i')" using Cons.prems(7) i'(3) by simp
    have oks: "\<forall>t\<in>set ts. do_ok itt lun t" and ne: "ts \<noteq> []" using Cons.prems(1) local.Cons by simp_all
    from Cons.IH [OF oks ne fin itt1 sum le' tot lun1 c] obtain s2 us' b where
      r: "do_run lb ub mem mrds fd ts s1 = Some s2" "ses_infos s2 = (ses_infos s1)(itt := None)"
      "ses_wcaches s2 = (ses_wcaches s1)[lun := fold (wc_write lb ub)
         (do_segs (doi_lba i' + OFFSET2LBA (unat (doi_total i' - doi_remain i'))) ts) (ses_wcaches s1 ! lun)]"
      "ses_tasks s2 = ses_tasks s1 @ us' @ [TSend fd (SendTask b)]"
      "length us' = length (filter (\<lambda>t. isFinal (token_header t)) (butlast ts))" by blast
    have "do_run lb ub mem mrds fd (t # ts) s = Some s2" using h r(1) by simp
    moreover have "ses_infos s2 = (ses_infos s)(itt := None)" using r(2) i'(1) by simp
    moreover have "ses_wcaches s2 = (ses_wcaches s)[lun := fold (wc_write lb ub) (do_segs ?a (t # ts)) (ses_wcaches s ! lun)]"
      using r(3) w Cons.prems(8) i'(2) off by (simp add: add.assoc)
    moreover have "\<exists>us b. ses_tasks s2 = ses_tasks s @ us @ [TSend fd (SendTask b)] \<and>
        length us = length (filter (\<lambda>t. isFinal (token_header t)) (butlast (t # ts)))"
    proof (cases "isFinal (token_header t)")
      case True
      with tk obtain b' where "ses_tasks s1 = ses_tasks s @ [TSend fd (SendTask b')]" by auto
      then show ?thesis using r(4,5) True local.Cons
        by (intro exI [of _ "TSend fd (SendTask b') # us'"] exI [of _ b]) simp
    next
      case False
      then show ?thesis using r(4,5) tk local.Cons by (intro exI [of _ us'] exI [of _ b]) simp
    qed
    ultimately show ?thesis by blast
  qed
qed simp

lemma do_segs_data:
  "\<forall>t \<in> set ts. do_ok itt lun t \<Longrightarrow>
     concat (map ws_bytes (do_segs a ts)) = concat (map token_data ts) \<and>
     (\<forall>w \<in> set (do_segs a ts). ws_fresh w) \<and>
     concat (map (\<lambda>w. [ws_lba w..<ws_wtail w]) (do_segs a ts)) = [a..<a + sum_list (map (\<lambda>t. OFFSET2LBA (do_len t)) ts)]"
proof (induction ts arbitrary: a)
  case (Cons t ts)
  let ?n = "OFFSET2LBA (do_len t)"
  from Cons.prems have "do_ok itt lun t" by simp
  note d = do_seg_correct [OF this, of a]
  from Cons.IH [of "a + ?n"] Cons.prems have ih:
    "concat (map ws_bytes (do_segs (a + ?n) ts)) = concat (map token_data ts)"
    "\<forall>w \<in> set (do_segs (a + ?n) ts). ws_fresh w"
    "concat (map (\<lambda>w. [ws_lba w..<ws_wtail w]) (do_segs (a + ?n) ts)) =
       [a + ?n..<a + ?n + sum_list (map (\<lambda>t. OFFSET2LBA (do_len t)) ts)]" by auto
  then show ?case using d upt_add_eq_append [of a "a + ?n"] by (simp add: ws_wtail_def add.assoc)
qed simp

text \<open>C10. A write transfer completes: Data-Out PDUs without additional header segments, whose lengths are multiples of
  the block size and add up to what is outstanding (\<open>do_ok\<close>), are all accepted; together they push contiguous segments, in order, that cover exactly
  the outstanding blocks and carry exactly the received bytes; each burst but the last is answered
  with one PDU (an R2T), the last with the final response; and the record of the write is removed.\<close>

theorem dataout_transfer:
  assumes "\<forall>t \<in> set ts. do_ok itt lun t" and "ts \<noteq> []" and "isFinal (token_header (last ts))"
    and "ses_infos s itt = Some i" and "unat (doi_remain i) = sum_list (map do_len ts)"
    and "doi_remain i \<le> doi_total i" and "512 dvd unat (doi_total i)"
    and "lun < length (ses_wcaches s)" and "conn_find fd s \<noteq> None"
  shows "\<exists>s' segs us b. do_run lb ub mem mrds fd ts s = Some s' \<and>
    ses_infos s' = (ses_infos s)(itt := None) \<and>
    ses_wcaches s' = (ses_wcaches s)[lun := fold (wc_write lb ub) segs (ses_wcaches s ! lun)] \<and>
    (let a = doi_lba i + OFFSET2LBA (unat (doi_total i - doi_remain i))
     in concat (map (\<lambda>w. [ws_lba w..<ws_wtail w]) segs) =
          [a..<a + sum_list (map (\<lambda>t. OFFSET2LBA (do_len t)) ts)]) \<and>
    concat (map ws_bytes segs) = concat (map token_data ts) \<and> (\<forall>w \<in> set segs. ws_fresh w) \<and>
    ses_tasks s' = ses_tasks s @ us @ [TSend fd (SendTask b)] \<and>
    length us = length (filter (\<lambda>t. isFinal (token_header t)) (butlast ts))"
  using do_run_transfer [OF assms, of lb ub mem mrds] do_segs_data [OF assms(1)]
  unfolding Let_def by blast

definition ex_do_token :: token where
  "ex_do_token = \<lparr>tkv_off = 0, tkv_cbufs = [\<lparr>cb_bytes = (\<lambda>i. if i = 0 then 5 else if i = 1 then 0x80 else if i = 6 then 2 else if i < 48 then 0 else 9),
     cb_size = 560, cb_offset = 0, cb_tail = 560\<rparr>]\<rparr>"

definition ex_do_session :: iscsi_session where
  "ex_do_session = (iSCSISession (\<lambda>_. 0) (\<lambda>_. False))\<lparr>ses_infos := [0 \<mapsto> DataOutInfo 4 1024 512],
     ses_ports := [(3, iSCSIConnection)], ses_wcaches := [WriteCache (\<lambda>_. WriteSegment 0 0) 1]\<rparr>"

lemma ex_do_token_ok: "do_ok 0 0 ex_do_token" "do_len ex_do_token = 512" "isFinal (token_header ex_do_token)"
proof -
  have h: "getDlength (token_header ex_do_token) = 512" "getHlength (token_header ex_do_token) = 0"
    "getITT (token_header ex_do_token) = 0" "getOpCode (token_header ex_do_token) = 5"
    "unat (LUN_get (do_getLUN ex_do_token)) = 0" "isFinal (token_header ex_do_token)"
    by code_simp+
  moreover have "token_ok ex_do_token"
    unfolding token_ok_def h by (simp add: ex_do_token_def)
  ultimately show "do_ok 0 0 ex_do_token" "do_len ex_do_token = 512" "isFinal (token_header ex_do_token)"
    by (simp_all add: do_ok_def do_valid_def do_len_def iSCSI_OP_SCSI_DATA_def)
qed

theorem dataout_transfer_witness:
  "\<exists>s' segs. do_run (\<lambda>_ _. 0) (\<lambda>_ _. 0) (\<lambda>_. 0) 8192 3 [ex_do_token] ex_do_session = Some s' \<and>
     ses_infos s' = Map.empty \<and> concat (map ws_bytes segs) = token_data ex_do_token \<and>
     concat (map (\<lambda>w. [ws_lba w..<ws_wtail w]) segs) = [5]"
proof -
  let ?s = ex_do_session and ?i = "DataOutInfo 4 1024 512"
  have s: "ses_infos ?s 0 = Some ?i" "0 < length (ses_wcaches ?s)" "conn_find 3 ?s \<noteq> None"
    "ses_infos ?s = [0 \<mapsto> ?i]"
    by (simp_all add: ex_do_session_def conn_find_def)
  have i: "unat (doi_remain ?i) = sum_list (map do_len [ex_do_token])" "doi_remain ?i \<le> doi_total ?i"
    "512 dvd unat (doi_total ?i)" "doi_lba ?i + OFFSET2LBA (unat (doi_total ?i - doi_remain ?i)) = 5"
    "OFFSET2LBA (do_len ex_do_token) = 1"
    by (simp_all add: DataOutInfo_def ex_do_token_ok OFFSET2LBA_eq)
  have t: "\<forall>t \<in> set [ex_do_token]. do_ok 0 0 t" "[ex_do_token] \<noteq> []"
    "isFinal (token_header (last [ex_do_token]))" using ex_do_token_ok by simp_all
  from dataout_transfer [OF t s(1) i(1,2,3) s(2,3), where lb = "\<lambda>_ _. 0" and ub = "\<lambda>_ _. 0"
      and mem = "\<lambda>_. 0" and mrds = 8192] obtain s' segs where
    r: "do_run (\<lambda>_ _. 0) (\<lambda>_ _. 0) (\<lambda>_. 0) 8192 3 [ex_do_token] ?s = Some s'"
      "ses_infos s' = (ses_infos ?s)(0 := None)"
      "concat (map (\<lambda>w. [ws_lba w..<ws_wtail w]) segs) =
         [5..<5 + sum_list (map (\<lambda>t. OFFSET2LBA (do_len t)) [ex_do_token])]"
      "concat (map ws_bytes segs) = concat (map token_data [ex_do_token])"
    unfolding Let_def i(4) by blast
  have "ses_infos s' = Map.empty" using r(2) s(4) by simp
  moreover have "concat (map (\<lambda>w. [ws_lba w..<ws_wtail w]) segs) = [5]" using r(3) i(5) by simp
  moreover have "concat (map ws_bytes segs) = token_data ex_do_token" using r(4) by simp
  ultimately show ?thesis using r(1) by blast
qed

end
