(* ===== verification/ScsiInfo.thy ===== *)
theory ScsiInfo
  imports ScsiWrite
begin

text \<open>
  The commands that describe the target: INQUIRY, READ CAPACITY (10) and (16), REPORT LUNS, MODE
  SENSE(6), MAINTENANCE IN and the commands that are only acknowledged. Handlers of
  \<^verbatim>\<open>src/scsi/inquiry.cpp\<close>, \<^verbatim>\<open>readcapacity.cpp\<close>, \<^verbatim>\<open>readcapacity16.cpp\<close>, \<^verbatim>\<open>reportluns.cpp\<close>,
  \<^verbatim>\<open>modesense.cpp\<close>, \<^verbatim>\<open>maintenancein.cpp\<close> and \<^verbatim>\<open>dummy.cpp\<close> with the data structs of
  \<^verbatim>\<open>include/scsi\<close>. A reply is built in place in the data segment of a Data-In buffer; members that
  a constructor leaves alone, and bytes nobody writes, are what the memory held before (\<open>junk\<close> for
  a temporary on the stack, \<open>mem\<close> for the buffer).
\<close>

section \<open>Data segments\<close>

type_synonym handler_result = "(bool \<times> iscsi_session) option"

text \<open>The pointer \<^verbatim>\<open>reserveDataSegment\<close> returns: to the first byte behind the header, or null.\<close>

type_synonym ds_ptr = bool

text \<open>A store through the pointer; storing through null is \<open>None\<close>.\<close>

definition ds_store :: "ds_ptr \<Rightarrow> nat \<Rightarrow> u8 list \<Rightarrow> data_in_generator \<Rightarrow> data_in_generator option" where
  "ds_store ptr at bs g = (if ptr then Some (dig_store at bs g) else None)"

text \<open>\<^verbatim>\<open>DataSegment<T>::DataSegment\<close>: the bytes of a default \<^verbatim>\<open>T\<close> are assigned if they fit the limit.\<close>

definition DataSegment :: "u8 list \<Rightarrow> ds_ptr \<Rightarrow> nat \<Rightarrow> data_in_generator \<Rightarrow> data_in_generator option" where
  "DataSegment tmp ptr max_size g = (if max_size \<ge> length tmp then ds_store ptr 0 tmp g else Some g)"

text \<open>A segment of fixed size whose limit is that size.\<close>

definition reserve_struct :: "u8 list \<Rightarrow> data_in_generator \<Rightarrow> data_in_generator option" where
  "reserve_struct tmp g =
     (let (ptr, g1) = reserveDataSegment (length tmp) g in DataSegment tmp ptr (length tmp) g1)"

definition chars :: "string \<Rightarrow> u8 list" where
  "chars s = map of_char s"

section \<open>The frame of the handlers\<close>

text \<open>The guards that all of them share.\<close>

definition read_direction :: "token \<Rightarrow> bool" where
  "read_direction t \<longleftrightarrow> getFlags (token_header t) AND COMMAND_FLAG_READ \<noteq> 0 \<and>
     getFlags (token_header t) AND COMMAND_FLAG_WRITE = 0"

definition info_reply ::
  "(nat \<Rightarrow> u8) \<Rightarrow> u8 \<Rightarrow> token \<Rightarrow> iscsi_connection \<Rightarrow> iscsi_session \<Rightarrow> data_in_generator" where
  "info_reply mem status t conn s =
     dig_setMAXCMDSN (getMAXCMDSN s) (dig_setEXPCMDSN (getEXPCMDSN s) (dig_setSTATSN (getSTATSN conn)
       (dig_setTTT ISCSI_RSVD_TASK_TAG (dig_setITT (getITT (token_header t))
         (dig_setCmdStatus status (DataInGenerator mem))))))"

text \<open>Guards, status number, reply and task. The part that fills the data segment is \<open>body\<close>: \<open>None\<close> for
  a null pointer, otherwise whether to send the reply.\<close>

definition info_handle ::
  "(nat \<Rightarrow> u8) \<Rightarrow> bool \<Rightarrow> u8 \<Rightarrow> (data_in_generator \<Rightarrow> (bool \<times> data_in_generator) option) \<Rightarrow>
     token \<Rightarrow> int \<Rightarrow> iscsi_session \<Rightarrow> handler_result" where
  "info_handle mem cdb_valid status body t fd s =
     (if \<not> read_direction t \<or> \<not> cdb_valid then Some (False, s)
      else if \<not> isFinal (token_header t) then Some (False, s)
      else case conn_find fd s of
        None \<Rightarrow> None
      | Some conn \<Rightarrow>
          let s1 = conn_update fd advanceSTATSN s
          in case body (info_reply mem status t conn s) of
               None \<Rightarrow> None
             | Some (ok, reply) \<Rightarrow>
                 if \<not> ok then Some (False, s1)
                 else Some (True, sendtask_push (TSend fd (SendTask (fst (dig_serialize reply)))) s1))"

text \<open>\<^verbatim>\<open>reply.setResidualCount(req.getEXPDATALEN(), reply.getDlength())\<close>.\<close>

definition set_residual :: "token \<Rightarrow> data_in_generator \<Rightarrow> data_in_generator" where
  "set_residual t reply = dig_setResidualCount (cmd_getEXPDATALEN t) (of_nat (dig_getDlength reply)) reply"

definition finish_residual :: "token \<Rightarrow> data_in_generator option \<Rightarrow> (bool \<times> data_in_generator) option" where
  "finish_residual t = map_option (\<lambda>g. (True, set_residual t g))"

text \<open>The logical unit of the request; without an initiator the pointer is null.\<close>

definition req_lun :: "token \<Rightarrow> iscsi_session \<Rightarrow> logical_volume option option" where
  "req_lun t s = map_option (\<lambda>ini. ini_getLUN ini (unat (LUN_get (cmd_getLUN t)))) (ses_initiator s)"

definition cdb_of :: "token \<Rightarrow> u8 list" where
  "cdb_of t = cmd_scb (cmd_request t)"

section \<open>INQUIRY\<close>

definition INQUIRY :: u8 where "INQUIRY = 0x12"

definition inq_getAllocationLength :: "u8 list \<Rightarrow> nat" where
  "inq_getAllocationLength cdb = unat (ntohs (ld16 (drop 3 cdb)))"

definition inq_isEVPD :: "u8 list \<Rightarrow> bool" where
  "inq_isEVPD cdb \<longleftrightarrow> cdb ! 1 AND 0x01 \<noteq> 0"

definition Inquiry_valid :: "u8 list \<Rightarrow> bool" where
  "Inquiry_valid cdb \<longleftrightarrow> cdb ! 0 = INQUIRY \<and> 16 \<le> inq_getAllocationLength cdb"

definition InquiryDataHeader :: "u8 list" where
  "InquiryDataHeader =
     [0, 0, 0x06, 0x40 OR 0x02, 0, 0, 0, 0x02] @ chars ''PRIV    '' @ chars ''sStorage        '' @
     chars ''0.1'' @ [0]"

text \<open>The length members are set after the default struct was assigned.\<close>

definition InquiryData :: "u8 list" where
  "InquiryData = InquiryDataHeader[4 := of_nat (length InquiryDataHeader - 4)]"

definition SupportedVPDData :: "u8 list" where
  "SupportedVPDData = [0, 0x00, 0, 0, 0x00, 0x80, 0x83][3 := 7 - 4]"

definition ProductSerialData :: "(nat \<Rightarrow> u8) \<Rightarrow> u8 list" where
  "ProductSerialData junk = ([0, 0x80, 0, 0] @ chars ''0.1'' @ [junk 7])[3 := 8 - 4]"

definition Designator :: "(nat \<Rightarrow> u8) \<Rightarrow> u8 list" where
  "Designator junk = [0x01, 0x01, 0, 0] @ chars ''ISP'' @ map junk [7..<28]"

definition DeviceIDData :: "(nat \<Rightarrow> u8) \<Rightarrow> u8 list" where
  "DeviceIDData junk = [0, 0x83] @ st16 0 @ (Designator (\<lambda>i. junk (i + 4)))[3 := 28 - 4]"

definition inquiry_data :: "(nat \<Rightarrow> u8) \<Rightarrow> u8 list \<Rightarrow> u8 list option" where
  "inquiry_data junk cdb =
     (if \<not> inq_isEVPD cdb then Some InquiryData
      else if cdb ! 2 = 0x00 then Some SupportedVPDData
      else if cdb ! 2 = 0x80 then Some (ProductSerialData junk)
      else if cdb ! 2 = 0x83 then Some (DeviceIDData junk)
      else None)"

definition InquiryHandler_handle ::
  "(nat \<Rightarrow> u8) \<Rightarrow> (nat \<Rightarrow> u8) \<Rightarrow> token \<Rightarrow> int \<Rightarrow> iscsi_session \<Rightarrow> handler_result" where
  "InquiryHandler_handle mem junk t fd s =
     (let cdb = cdb_of t
      in info_handle mem (Inquiry_valid cdb) SCSI_GOOD
           (\<lambda>reply. case inquiry_data junk cdb of
              None \<Rightarrow> Some (False, reply)
            | Some bytes \<Rightarrow>
                if inq_getAllocationLength cdb < length bytes then Some (False, reply)
                else finish_residual t (reserve_struct bytes reply)) t fd s)"

section \<open>READ CAPACITY\<close>

definition READ_CAPACITY :: u8 where "READ_CAPACITY = 0x25"
definition SERVICE_ACTION_IN_16 :: u8 where "SERVICE_ACTION_IN_16 = 0x9e"
definition CHECK_CONDITION :: u8 where "CHECK_CONDITION = 0x01"

definition FixedSenseParam :: "u8 list" where
  "FixedSenseParam = [0x70, 0, 0x05] @ replicate 4 0 @ [6] @ replicate 4 0 @ [0x24, 0x00]"

definition ReadCapacityHeader :: "u8 list" where
  "ReadCapacityHeader = st32 0 @ st32 (htonl 512)"

definition cap10_valid :: "u8 list \<Rightarrow> bool" where
  "cap10_valid cdb \<longleftrightarrow> cdb ! 0 = READ_CAPACITY \<and> cdb ! 8 AND 0x01 = 0"

definition cap10_last :: "nat \<Rightarrow> u32" where
  "cap10_last count = (if count > 0xFFFFFFFF then 0xFFFFFFFF else of_nat count - 1)"

definition ReadCapacityHandler_handle ::
  "(nat \<Rightarrow> u8) \<Rightarrow> token \<Rightarrow> int \<Rightarrow> iscsi_session \<Rightarrow> handler_result" where
  "ReadCapacityHandler_handle mem t fd s =
     (let cdb = cdb_of t
      in info_handle mem (cap10_valid cdb) SCSI_GOOD
           (\<lambda>reply. if ntohl (ld32 (drop 2 cdb)) = 0
              then let (ptr, g) = reserveDataSegment (length ReadCapacityHeader) reply
                   in case DataSegment ReadCapacityHeader ptr (length ReadCapacityHeader) g of
                        None \<Rightarrow> None
                      | Some g1 \<Rightarrow>
                          (case req_lun t s of
                             None \<Rightarrow> None
                           | Some None \<Rightarrow> Some (False, g1)
                           | Some (Some lv) \<Rightarrow>
                               finish_residual t (ds_store ptr 0 (st32 (htonl (cap10_last (lv_count lv)))) g1))
              else finish_residual t (reserve_struct FixedSenseParam (dig_setCmdStatus CHECK_CONDITION reply)))
           t fd s)"

text \<open>Big-endian 64-bit members.\<close>

definition ld64be :: "u8 list \<Rightarrow> u64" where
  "ld64be bs = foldl (\<lambda>a b. push_bit 8 a OR ucast b) 0 (take 8 bs)"

definition st64be :: "u64 \<Rightarrow> u8 list" where
  "st64be w = map (\<lambda>i. ucast (drop_bit (56 - 8 * i) w)) [0..<8]"

definition cap16_valid :: "u8 list \<Rightarrow> bool" where
  "cap16_valid cdb \<longleftrightarrow> cdb ! 0 = SERVICE_ACTION_IN_16 \<and> cdb ! 14 AND 0x01 = 0"

definition ReadCapacity16Header :: "(nat \<Rightarrow> u8) \<Rightarrow> u8 list" where
  "ReadCapacity16Header junk = st64be 0 @ st32 (htonl 512) @ map junk [12..<32]"

definition ReadCapacity16Handler_handle ::
  "(nat \<Rightarrow> u8) \<Rightarrow> (nat \<Rightarrow> u8) \<Rightarrow> token \<Rightarrow> int \<Rightarrow> iscsi_session \<Rightarrow> handler_result" where
  "ReadCapacity16Handler_handle mem junk t fd s =
     (let cdb = cdb_of t
      in info_handle mem (cap16_valid cdb) SCSI_GOOD
           (\<lambda>reply. if ld64be (drop 2 cdb) = 0
              then let tmp = ReadCapacity16Header junk; (ptr, g) = reserveDataSegment (length tmp) reply
                   in case DataSegment tmp ptr (length tmp) g of
                        None \<Rightarrow> None
                      | Some g1 \<Rightarrow>
                          (case req_lun t s of
                             None \<Rightarrow> None
                           | Some None \<Rightarrow> Some (False, g1)
                           | Some (Some lv) \<Rightarrow>
                               finish_residual t (ds_store ptr 0 (st64be (of_nat (lv_count lv) - 1)) g1))
              else finish_residual t (reserve_struct FixedSenseParam (dig_setCmdStatus CHECK_CONDITION reply)))
           t fd s)"

section \<open>MAINTENANCE IN\<close>

definition MAINTENANCE_IN :: u8 where "MAINTENANCE_IN = 0xa3"

definition SenseErrorHeader :: "(nat \<Rightarrow> u8) \<Rightarrow> u8 list" where
  "SenseErrorHeader junk =
     [0x70, junk 1, 0x05] @ map junk [3..<7] @ [10] @ map junk [8..<12] @ st16 (htons 0x2400) @
     map junk [14..<18]"

definition MaintenanceIn_valid :: "u8 list \<Rightarrow> bool" where
  "MaintenanceIn_valid cdb \<longleftrightarrow> cdb ! 0 = MAINTENANCE_IN"

definition MaintenanceInHandler_handle ::
  "(nat \<Rightarrow> u8) \<Rightarrow> (nat \<Rightarrow> u8) \<Rightarrow> token \<Rightarrow> int \<Rightarrow> iscsi_session \<Rightarrow> handler_result" where
  "MaintenanceInHandler_handle mem junk t fd s =
     info_handle mem (MaintenanceIn_valid (cdb_of t)) CHECK_CONDITION
       (\<lambda>reply. finish_residual t (reserve_struct (SenseErrorHeader junk) reply)) t fd s"

section \<open>REPORT LUNS\<close>

definition REPORT_LUNS :: u8 where "REPORT_LUNS = 0xa0"

definition rl_getAllocationLength :: "u8 list \<Rightarrow> nat" where
  "rl_getAllocationLength cdb = unat (ntohl (ld32 (drop 6 cdb)))"

definition ReportLUNS_valid :: "u8 list \<Rightarrow> bool" where
  "ReportLUNS_valid cdb \<longleftrightarrow> cdb ! 0 = REPORT_LUNS \<and> 16 \<le> rl_getAllocationLength cdb"

definition ReportLUNSheader :: "u8 list" where
  "ReportLUNSheader = st32 0 @ st32 0"

text \<open>\<^verbatim>\<open>ReportLUNSData::add\<close>: the length grows even when the entry does not fit.\<close>

definition rl_length :: "data_in_generator \<Rightarrow> u32" where
  "rl_length g = ntohl (ld32 (map (dig_mem g) [0..<4]))"

definition rl_add :: "ds_ptr \<Rightarrow> nat \<Rightarrow> u32 \<Rightarrow> data_in_generator \<Rightarrow> (bool \<times> data_in_generator) option" where
  "rl_add ptr limit lun_id g =
     (if \<not> ptr then None
      else let len = rl_length g + 8; g1 = dig_store 0 (st32 (htonl len)) g
           in if limit < 8 + unat len then Some (False, g1)
              else Some (True, dig_store (unat len) (LUN lun_id) g1))"

fun rl_add_all :: "ds_ptr \<Rightarrow> nat \<Rightarrow> u32 \<Rightarrow> nat \<Rightarrow> data_in_generator \<Rightarrow> data_in_generator option" where
  "rl_add_all ptr limit lun_id 0 g = Some g"
| "rl_add_all ptr limit lun_id (Suc n) g =
     (case rl_add ptr limit lun_id g of
        None \<Rightarrow> None | Some (_, g1) \<Rightarrow> rl_add_all ptr limit (lun_id + 1) n g1)"

definition ReportLUNSHandler_handle ::
  "(nat \<Rightarrow> u8) \<Rightarrow> token \<Rightarrow> int \<Rightarrow> iscsi_session \<Rightarrow> handler_result" where
  "ReportLUNSHandler_handle mem t fd s =
     (let cdb = cdb_of t; alloc = rl_getAllocationLength cdb
      in info_handle mem (ReportLUNS_valid cdb) SCSI_GOOD
           (\<lambda>reply. let (ptr, g) = reserveDataSegment alloc reply
              in case DataSegment ReportLUNSheader ptr alloc g of
                   None \<Rightarrow> None
                 | Some g1 \<Rightarrow>
                     (case ses_initiator s of
                        None \<Rightarrow> None
                      | Some ini \<Rightarrow>
                          if ini_luns ini = [] then Some (False, g1)
                          else map_option (Pair True) (rl_add_all ptr alloc 0 (length (ini_luns ini)) g1)))
           t fd s)"

section \<open>MODE SENSE(6)\<close>

definition MODE_SENSE :: u8 where "MODE_SENSE = 0x1a"

definition ms_isDBD :: "u8 list \<Rightarrow> bool" where "ms_isDBD cdb \<longleftrightarrow> cdb ! 1 AND 0x08 \<noteq> 0"
definition ms_getPageCode :: "u8 list \<Rightarrow> u8" where "ms_getPageCode cdb = cdb ! 2 AND 0x3F"
definition ms_getAllocationLength :: "u8 list \<Rightarrow> nat" where "ms_getAllocationLength cdb = unat (cdb ! 4)"
definition ModeSense_valid :: "u8 list \<Rightarrow> bool" where "ModeSense_valid cdb \<longleftrightarrow> cdb ! 0 = MODE_SENSE"

definition ModeParamHeader :: "u8 list" where "ModeParamHeader = replicate 4 0"

text \<open>\<^verbatim>\<open>ModeSenseData\<close>: the pointer, the limit, the member \<^verbatim>\<open>total\<close> and the generator that holds the bytes.\<close>

record mode_sense_data =
  msd_ptr :: ds_ptr
  msd_limit :: nat
  msd_total :: nat
  msd_reply :: data_in_generator

definition ModeSenseData :: "ds_ptr \<Rightarrow> nat \<Rightarrow> data_in_generator \<Rightarrow> mode_sense_data option" where
  "ModeSenseData ptr sz g =
     map_option (\<lambda>g1. \<lparr>msd_ptr = ptr, msd_limit = sz, msd_total = length ModeParamHeader, msd_reply = g1\<rparr>)
       (DataSegment ModeParamHeader ptr sz g)"

definition msd_store :: "nat \<Rightarrow> u8 list \<Rightarrow> mode_sense_data \<Rightarrow> mode_sense_data option" where
  "msd_store at bs d = map_option (\<lambda>g. d\<lparr>msd_reply := g\<rparr>) (ds_store (msd_ptr d) at bs (msd_reply d))"

definition setBlockDescriptorLength :: "nat \<Rightarrow> mode_sense_data \<Rightarrow> mode_sense_data option" where
  "setBlockDescriptorLength sz d = msd_store 3 [of_nat sz] d"

definition setDesiredLength :: "u8 \<Rightarrow> mode_sense_data \<Rightarrow> mode_sense_data option" where
  "setDesiredLength sz d = msd_store 0 [sz] d"

definition msd_setLength :: "nat \<Rightarrow> mode_sense_data \<Rightarrow> (bool \<times> mode_sense_data) option" where
  "msd_setLength sz d =
     map_option (\<lambda>d1. (\<not> (msd_limit d < sz \<or> 0x100 < sz), d1)) (msd_store 0 [of_nat (sz - 1)] d)"

text \<open>The shape the page functions share: the length, then the members that the function assigns, at
  their offsets in the page; the others keep what the memory held.\<close>

fun msd_stores :: "(nat \<times> u8 list) list \<Rightarrow> mode_sense_data \<Rightarrow> mode_sense_data option" where
  "msd_stores [] d = Some d"
| "msd_stores ((at, bs) # ws) d = (case msd_store at bs d of None \<Rightarrow> None | Some d1 \<Rightarrow> msd_stores ws d1)"

definition append_page :: "nat \<Rightarrow> (nat \<times> u8 list) list \<Rightarrow> mode_sense_data \<Rightarrow> mode_sense_data option" where
  "append_page sz members d =
     (let prev = msd_total d; d1 = d\<lparr>msd_total := prev + sz\<rparr>
      in case msd_setLength (msd_total d1) d1 of
           None \<Rightarrow> None
         | Some (ok, d2) \<Rightarrow>
             if \<not> ok then Some d2 else msd_stores (map (\<lambda>(at, bs). (prev + at, bs)) members) d2)"

definition appendBlockDescriptor :: "logical_volume \<Rightarrow> mode_sense_data \<Rightarrow> mode_sense_data option" where
  "appendBlockDescriptor lv d =
     (let d1 = d\<lparr>msd_total := msd_total d + 8\<rparr>
      in if msd_total d1 > msd_limit d then Some d1
         else append_page 8
           [(0, st32 (htonl (if lv_count lv div 2 ^ 32 \<noteq> 0 then 0xFFFFFFFF else of_nat (lv_count lv))))] d)"

definition appendDisconnectReconnect :: "mode_sense_data \<Rightarrow> mode_sense_data option" where
  "appendDisconnectReconnect = append_page 16 [(0, [0x02]), (1, [14]), (2, [0x80]), (3, [0x80]), (5, [10])]"

definition appendFormatDevice :: "mode_sense_data \<Rightarrow> mode_sense_data option" where
  "appendFormatDevice = append_page 24 [(0, [0x03]), (1, [22]), (10, [1]), (12, [2]), (20, [0x0c])]"

definition appendRigidDiskGeometry :: "mode_sense_data \<Rightarrow> mode_sense_data option" where
  "appendRigidDiskGeometry =
     append_page 24 [(0, [0x04]), (1, [22]), (2, hton24 0x80), (5, [0x40]), (20, st16 (htons 15000))]"

text \<open>The build does not define \<^verbatim>\<open>SPC4_ENABLED\<close>.\<close>

definition appendCaching :: "mode_sense_data \<Rightarrow> mode_sense_data option" where
  "appendCaching = append_page 4 [(0, [0x08]), (2, [0x14]), (1, [2])]"

definition appendControl :: "mode_sense_data \<Rightarrow> mode_sense_data option" where
  "appendControl = append_page 12 [(0, [0x0A]), (1, [10]), (2, [0x02]), (10, st16 (htons 500))]"

definition appendInformationalExceptionsCtrl :: "mode_sense_data \<Rightarrow> mode_sense_data option" where
  "appendInformationalExceptionsCtrl = append_page 12 [(0, [0x1C]), (1, [10]), (2, [0x08])]"

fun msd_seq :: "(mode_sense_data \<Rightarrow> mode_sense_data option) list \<Rightarrow> mode_sense_data \<Rightarrow> mode_sense_data option" where
  "msd_seq [] d = Some d"
| "msd_seq (f # fs) d = (case f d of None \<Rightarrow> None | Some d1 \<Rightarrow> msd_seq fs d1)"

text \<open>The functions the switch over the page code calls.\<close>

definition mode_pages :: "u8 \<Rightarrow> (mode_sense_data \<Rightarrow> mode_sense_data option) list option" where
  "mode_pages code =
     (if code = 0x00 then Some []
      else if code = 0x02 then Some [appendDisconnectReconnect]
      else if code = 0x03 then Some [appendFormatDevice]
      else if code = 0x04 then Some [appendRigidDiskGeometry]
      else if code = 0x08 then Some [appendCaching]
      else if code = 0x0A then Some [appendControl]
      else if code = 0x1C then Some [appendInformationalExceptionsCtrl]
      else if code = 0x3F then
        Some [appendDisconnectReconnect, appendFormatDevice, appendRigidDiskGeometry, appendCaching,
              appendControl, appendInformationalExceptionsCtrl]
      else None)"

text \<open>The label \<^verbatim>\<open>header_only\<close>.\<close>

definition ms_finish :: "token \<Rightarrow> nat \<Rightarrow> mode_sense_data \<Rightarrow> bool \<times> data_in_generator" where
  "ms_finish t alloc d =
     (let (ok, g) = resetDlength (min (msd_total d) alloc) (msd_reply d)
      in if \<not> ok then (False, g) else (True, set_residual t g))"

text \<open>From the test for the bare header to the end.\<close>

definition ms_fill ::
  "u8 list \<Rightarrow> token \<Rightarrow> logical_volume \<Rightarrow> mode_sense_data \<Rightarrow> (bool \<times> data_in_generator) option" where
  "ms_fill cdb t lv d =
     (let alloc = ms_getAllocationLength cdb
      in if alloc = length ModeParamHeader then map_option (ms_finish t alloc) (setDesiredLength 0x1F d)
         else case (if ms_isDBD cdb then Some d else appendBlockDescriptor lv d) of
           None \<Rightarrow> None
         | Some d1 \<Rightarrow>
             (case mode_pages (ms_getPageCode cdb) of
                None \<Rightarrow> Some (False, msd_reply d1)
              | Some fs \<Rightarrow> map_option (ms_finish t alloc) (msd_seq fs d1)))"

definition mode_sense_body ::
  "u8 list \<Rightarrow> token \<Rightarrow> iscsi_session \<Rightarrow> data_in_generator \<Rightarrow> (bool \<times> data_in_generator) option" where
  "mode_sense_body cdb t s reply =
     (let alloc = ms_getAllocationLength cdb; (ptr, g) = reserveDataSegment alloc reply
      in case ModeSenseData ptr alloc g of
           None \<Rightarrow> None
         | Some d \<Rightarrow>
             (case req_lun t s of
                None \<Rightarrow> None
              | Some None \<Rightarrow> Some (False, msd_reply d)
              | Some (Some lv) \<Rightarrow>
                  (case (if ms_isDBD cdb then Some d else setBlockDescriptorLength 8 d) of
                     None \<Rightarrow> None
                   | Some d1 \<Rightarrow> ms_fill cdb t lv d1)))"

definition ModeSenseHandler_handle ::
  "(nat \<Rightarrow> u8) \<Rightarrow> token \<Rightarrow> int \<Rightarrow> iscsi_session \<Rightarrow> handler_result" where
  "ModeSenseHandler_handle mem t fd s =
     (let cdb = cdb_of t
      in info_handle mem (ModeSense_valid cdb) SCSI_GOOD (mode_sense_body cdb t s) t fd s)"

section \<open>Commands that are only acknowledged\<close>

definition DummyHandler_handle :: "(nat \<Rightarrow> u8) \<Rightarrow> token \<Rightarrow> int \<Rightarrow> iscsi_session \<Rightarrow> handler_result" where
  "DummyHandler_handle mem t fd s =
     (if \<not> isFinal (token_header t) then Some (False, s)
      else case conn_find fd s of
        None \<Rightarrow> None
      | Some conn \<Rightarrow>
          let reply = rsp_setITT (getITT (token_header t))
                        (rsp_setCmdStatus SCSI_GOOD (rsp_setFlags ISCSI_FLAG_FINAL SCSIRspGenerator));
              reply1 = rsp_setMAXCMDSN (getMAXCMDSN s) (rsp_setEXPCMDSN (getEXPCMDSN s)
                         (rsp_setSTATSN (getSTATSN conn) reply));
              reply2 = rsp_setResidualCount (cmd_getEXPDATALEN t) (rsp_getDlength reply1) reply1
          in Some (True, sendtask_push (TSend fd (SendTask (rsp_serialize mem reply2)))
                           (conn_update fd advanceSTATSN s)))"

end
