(* ===== verification/Handlers.thy ===== *)
theory Handlers
  imports ScsiInfo
begin

text \<open>
  The remaining request handlers of a session: SCSI commands with their dispatch by operation code
  (\<^verbatim>\<open>src/iscsi/command.cpp\<close>), NOP-Out and NOP-In (\<^verbatim>\<open>nopout.cpp\<close>, \<^verbatim>\<open>nopin.cpp\<close>), task management
  (\<^verbatim>\<open>taskmng.cpp\<close>) and logout (\<^verbatim>\<open>logout.cpp\<close>), with the parsers of their headers.
\<close>

section \<open>Sequence numbers of a request\<close>

text \<open>The state of the buffer pool that \<^verbatim>\<open>advanceCMDSNs\<close> reads and sets.\<close>

record buffer_pool =
  bp_limitter :: linear_limitter
  bp_num :: u64
  bp_state :: pool_state

text \<open>\<^verbatim>\<open>if(!req.isImmediateCmd()) parent->advanceCMDSNs();\<close> waiting for the disk writer is left out.\<close>

definition count_command :: "token \<Rightarrow> buffer_pool \<Rightarrow> iscsi_session \<Rightarrow> (buffer_pool \<times> iscsi_session) option" where
  "count_command t bp s =
     (if isImmediateCmd (token_header t) then Some (bp, s)
      else case advanceCMDSNs (bp_limitter bp) (bp_num bp) s of
        None \<Rightarrow> None
      | Some (s1, st, _) \<Rightarrow> Some (bp\<lparr>bp_state := st\<rparr>, s1))"

type_synonym pdu_result = "(bool \<times> buffer_pool \<times> iscsi_session) option"

section \<open>SCSI commands\<close>

datatype scsi_handler =
  ReportLUNSHandler | InquiryHandler | ReadCapacityHandler | ReadCapacity16Handler | ModeSenseHandler
| ReadHandler | WriteHandler | MaintenanceInHandler | DummyHandler

definition commands :: "u8 \<rightharpoonup> scsi_handler" where
  "commands =
     [REPORT_LUNS \<mapsto> ReportLUNSHandler, INQUIRY \<mapsto> InquiryHandler, READ_CAPACITY \<mapsto> ReadCapacityHandler,
      SERVICE_ACTION_IN_16 \<mapsto> ReadCapacity16Handler, MODE_SENSE \<mapsto> ModeSenseHandler,
      READ_10 \<mapsto> ReadHandler, WRITE_10 \<mapsto> WriteHandler, MAINTENANCE_IN \<mapsto> MaintenanceInHandler,
      0x00 \<mapsto> DummyHandler, 0x2f \<mapsto> DummyHandler, 0x35 \<mapsto> DummyHandler, 0x1b \<mapsto> DummyHandler,
      0x07 \<mapsto> DummyHandler, 0x16 \<mapsto> DummyHandler, 0x17 \<mapsto> DummyHandler]"

text \<open>What the handlers are given besides the request: the search functions of the cache's index, the
  memory of fresh buffers and of temporaries.\<close>

record host =
  h_lb :: "nat list \<Rightarrow> nat \<Rightarrow> nat"
  h_ub :: "nat list \<Rightarrow> nat \<Rightarrow> nat"
  h_mem :: "nat \<Rightarrow> u8"
  h_junk :: "nat \<Rightarrow> u8"

definition scsi_handle ::
  "host \<Rightarrow> handler_params \<Rightarrow> scsi_handler \<Rightarrow> token \<Rightarrow> int \<Rightarrow> iscsi_session \<Rightarrow> handler_result" where
  "scsi_handle h hp c t fd s =
     (case c of
        ReportLUNSHandler \<Rightarrow> ReportLUNSHandler_handle (h_mem h) t fd s
      | InquiryHandler \<Rightarrow> InquiryHandler_handle (h_mem h) (h_junk h) t fd s
      | ReadCapacityHandler \<Rightarrow> ReadCapacityHandler_handle (h_mem h) t fd s
      | ReadCapacity16Handler \<Rightarrow> ReadCapacity16Handler_handle (h_mem h) (h_junk h) t fd s
      | ModeSenseHandler \<Rightarrow> ModeSenseHandler_handle (h_mem h) t fd s
      | ReadHandler \<Rightarrow> ReadHandler_handle (h_lb h) (h_mem h) hp t fd s
      | WriteHandler \<Rightarrow> WriteHandler_handle (h_lb h) (h_ub h) (h_mem h) hp t fd s
      | MaintenanceInHandler \<Rightarrow> MaintenanceInHandler_handle (h_mem h) (h_junk h) t fd s
      | DummyHandler \<Rightarrow> DummyHandler_handle (h_mem h) t fd s)"

definition CommandHandler_handle ::
  "host \<Rightarrow> handler_params \<Rightarrow> token \<Rightarrow> int \<Rightarrow> buffer_pool \<Rightarrow> iscsi_session \<Rightarrow> pdu_result" where
  "CommandHandler_handle h hp t fd bp s =
     (if \<not> cmd_valid t then Some (False, bp, s)
      else case count_command t bp s of
        None \<Rightarrow> None
      | Some (bp1, s1) \<Rightarrow>
          (case commands (cmd_getCDBOpCode t) of
             None \<Rightarrow> Some (False, bp1, s1)
           | Some c \<Rightarrow>
               (case scsi_handle h hp c t fd s1 of
                  None \<Rightarrow> None
                | Some (ok, s2) \<Rightarrow> Some (ok, bp1, s2))))"

section \<open>NOP-Out and NOP-In\<close>

definition nopout_request :: "token \<Rightarrow> NopOutHeader" where
  "nopout_request t = NopOutHeader_of (token_bytes t)"

definition NopOut_valid :: "token \<Rightarrow> bool" where
  "NopOut_valid t \<longleftrightarrow>
     getOpCode (token_header t) = iSCSI_OP_NOOP_OUT \<and> isFinal (token_header t) \<and>
     getITT (token_header t) \<noteq> ISCSI_RSVD_TASK_TAG \<and> no_ttt (nopout_request t) = ISCSI_RSVD_TASK_TAG \<and>
     \<not> getDlength (token_header t) > 0"

definition NopOutHandler_handle ::
  "host \<Rightarrow> token \<Rightarrow> int \<Rightarrow> buffer_pool \<Rightarrow> iscsi_session \<Rightarrow> pdu_result" where
  "NopOutHandler_handle h t fd bp s =
     (if \<not> NopOut_valid t then Some (False, bp, s)
      else case count_command t bp s of
        None \<Rightarrow> None
      | Some (bp1, s1) \<Rightarrow>
          (case conn_find fd s1 of
             None \<Rightarrow> None
           | Some conn \<Rightarrow>
               let reply = ni_setTTT ISCSI_RSVD_TASK_TAG (ni_setITT (getITT (token_header t)) NopInGenerator);
                   reply1 = ni_setMAXCMDSN (getMAXCMDSN s1) (ni_setEXPCMDSN (getEXPCMDSN s1)
                              (ni_setSTATSN (getSTATSN conn) reply))
               in Some (True, bp1, sendtask_push (TSend fd (SendTask (ni_serialize (h_mem h) reply1)))
                                     (conn_update fd advanceSTATSN s1))))"

definition NopIn_valid :: "token \<Rightarrow> bool" where
  "NopIn_valid t \<longleftrightarrow>
     getOpCode (token_header t) = iSCSI_OP_NOOP_IN \<and> isFinal (token_header t) \<and>
     ld32 (drop 20 (token_bytes t)) = ISCSI_RSVD_TASK_TAG"

definition NopInHandler_handle :: "token \<Rightarrow> buffer_pool \<Rightarrow> iscsi_session \<Rightarrow> pdu_result" where
  "NopInHandler_handle t bp s = Some (NopIn_valid t, bp, s)"

section \<open>Task management\<close>

definition taskmng_request :: "token \<Rightarrow> TaskMngReqHeader" where
  "taskmng_request t = TaskMngReqHeader_of (token_bytes t)"

definition TASK_FUNC_ABORT_TASK :: u8 where "TASK_FUNC_ABORT_TASK = 1"
definition TASK_FUNC_TASK_REASSIGN :: u8 where "TASK_FUNC_TASK_REASSIGN = 8"

definition mq_getFunction :: "token \<Rightarrow> u8" where
  "mq_getFunction t = 0x7F AND mq_flags (taskmng_request t)"

definition mq_getRTT :: "token \<Rightarrow> u32" where
  "mq_getRTT t = ntohl (mq_rtt (taskmng_request t))"

definition mq_getLUN :: "token \<Rightarrow> u8 list" where
  "mq_getLUN t = LUN_set (mq_lun (taskmng_request t))"

definition TaskMng_valid :: "token \<Rightarrow> bool" where
  "TaskMng_valid t \<longleftrightarrow>
     getOpCode (token_header t) = iSCSI_OP_TASK_MGT_REQ \<and> isFinal (token_header t) \<and>
     getHlength (token_header t) = 0 \<and> getDlength (token_header t) = 0 \<and>
     \<not> (mq_getFunction t \<noteq> TASK_FUNC_ABORT_TASK \<and> mq_getFunction t \<noteq> TASK_FUNC_TASK_REASSIGN \<and>
        mq_getRTT t \<noteq> ISCSI_RSVD_TASK_TAG)"

definition TaskMngGenerator :: TaskMngRspHeader where
  "TaskMngGenerator = new_TaskMngRspHeader\<lparr>mr_flags := ISCSI_FLAG_FINAL\<rparr>"

definition mr_setResponse :: "u8 \<Rightarrow> TaskMngRspHeader \<Rightarrow> TaskMngRspHeader" where
  "mr_setResponse c h = h\<lparr>mr_response := c\<rparr>"
definition mr_setITT :: "u32 \<Rightarrow> TaskMngRspHeader \<Rightarrow> TaskMngRspHeader" where
  "mr_setITT n h = h\<lparr>mr_itt := n\<rparr>"
definition mr_setLUN :: "u8 list \<Rightarrow> TaskMngRspHeader \<Rightarrow> TaskMngRspHeader" where
  "mr_setLUN l h = h\<lparr>mr_lun := take 8 l\<rparr>"
definition mr_setSTATSN :: "u32 \<Rightarrow> TaskMngRspHeader \<Rightarrow> TaskMngRspHeader" where
  "mr_setSTATSN n h = h\<lparr>mr_statsn := htonl n\<rparr>"
definition mr_setEXPCMDSN :: "u32 \<Rightarrow> TaskMngRspHeader \<Rightarrow> TaskMngRspHeader" where
  "mr_setEXPCMDSN n h = h\<lparr>mr_expcmdsn := htonl n\<rparr>"
definition mr_setMAXCMDSN :: "u32 \<Rightarrow> TaskMngRspHeader \<Rightarrow> TaskMngRspHeader" where
  "mr_setMAXCMDSN n h = h\<lparr>mr_maxcmdsn := htonl n\<rparr>"
definition mr_serialize :: "(nat \<Rightarrow> u8) \<Rightarrow> TaskMngRspHeader \<Rightarrow> common_buf" where
  "mr_serialize mem h = pdu_cbuf (TaskMngRspHeader_bytes h) mem 48"

definition TASKMNG_FUNC_COMPLETE :: u8 where "TASKMNG_FUNC_COMPLETE = 0"

text \<open>Every function, whatever it asks for, is answered as complete; no task is touched.\<close>

definition TaskMngHandler_handle ::
  "host \<Rightarrow> token \<Rightarrow> int \<Rightarrow> buffer_pool \<Rightarrow> iscsi_session \<Rightarrow> pdu_result" where
  "TaskMngHandler_handle h t fd bp s =
     (if \<not> TaskMng_valid t then Some (False, bp, s)
      else case count_command t bp s of
        None \<Rightarrow> None
      | Some (bp1, s1) \<Rightarrow>
          (case conn_find fd s1 of
             None \<Rightarrow> None
           | Some conn \<Rightarrow>
               let reply = mr_setLUN (mq_getLUN t) (mr_setITT (getITT (token_header t))
                             (mr_setResponse TASKMNG_FUNC_COMPLETE TaskMngGenerator));
                   reply1 = mr_setMAXCMDSN (getMAXCMDSN s1) (mr_setEXPCMDSN (getEXPCMDSN s1)
                              (mr_setSTATSN (getSTATSN conn) reply))
               in Some (True, bp1, sendtask_push (TSend fd (SendTask (mr_serialize (h_mem h) reply1)))
                                     (conn_update fd advanceSTATSN s1))))"

section \<open>Logout\<close>

definition logout_request :: "token \<Rightarrow> LogoutReqHeader" where
  "logout_request t = LogoutReqHeader_of (token_bytes t)"

definition Logout_valid :: "token \<Rightarrow> bool" where
  "Logout_valid t \<longleftrightarrow> getOpCode (token_header t) = iSCSI_OP_LOGOUT_CMD \<and> isFinal (token_header t)"

definition oq_getReason :: "token \<Rightarrow> u8" where
  "oq_getReason t = 0x7F AND oq_flags (logout_request t)"

definition oq_getCID :: "token \<Rightarrow> u16" where
  "oq_getCID t = ntohs (oq_cid (logout_request t))"

definition LOGOUT_REASON_CLOSE_SESSION :: u8 where "LOGOUT_REASON_CLOSE_SESSION = 0"
definition LOGOUT_REASON_CLOSE_CONNECTION :: u8 where "LOGOUT_REASON_CLOSE_CONNECTION = 1"
definition LOGOUT_REASON_RECOVERY :: u8 where "LOGOUT_REASON_RECOVERY = 2"

definition LogoutGenerator :: LogoutRspHeader where
  "LogoutGenerator = new_LogoutRspHeader\<lparr>or_flags := ISCSI_FLAG_FINAL\<rparr>"

text \<open>The switch over the reason: the response code and the tasks behind the response. The connection
  is looked up by the connection identifier of the request although the table is keyed by socket.
  \<open>self\<close> is the reference to the session.\<close>

definition logout_plan :: "nat \<Rightarrow> token \<Rightarrow> int \<Rightarrow> iscsi_session \<Rightarrow> logout_response \<times> task list" where
  "logout_plan self t fd s =
     (let close = (if ses_type s = iSCSI_DISCOVERY_SESSION then [CloseSession self]
                   else [RemoveReactor self]);
          reason = oq_getReason t
      in if reason = LOGOUT_REASON_CLOSE_SESSION then (LOGOUT_SUCCESS, close)
         else if reason = LOGOUT_REASON_CLOSE_CONNECTION
         then if conn_find (int (unat (oq_getCID t))) s = None then (LOGOUT_CID_NOT_FOUND, close)
              else (LOGOUT_SUCCESS, [CloseConnection self fd])
         else if reason = LOGOUT_REASON_RECOVERY then (LOGOUT_RECOVERY_UNSUPPORTED, [])
         else (LOGOUT_CLEANUP_FAILED, []))"

text \<open>\<open>lt\<close> orders the tasks by address, as \<^verbatim>\<open>std::list::merge\<close> does.\<close>

definition LogoutHandler_handle ::
  "host \<Rightarrow> (task \<Rightarrow> task \<Rightarrow> bool) \<Rightarrow> nat \<Rightarrow> token \<Rightarrow> int \<Rightarrow> buffer_pool \<Rightarrow> iscsi_session \<Rightarrow> pdu_result" where
  "LogoutHandler_handle h lt self t fd bp s =
     (if \<not> Logout_valid t then Some (False, bp, s)
      else
        let (response, tasks) = logout_plan self t fd s;
            wait = attr_num 0 ''DefaultTime2Wait'' s;
            retain = (case getAttr ''DefaultTime2Retain'' s of Some (AttrNum n) \<Rightarrow> n | _ \<Rightarrow> wait);
            reply = lor_setTime2Retain (ucast retain) (lor_setTime2Wait (ucast wait)
                      (lor_setITT (getITT (token_header t)) (lor_setResponse response LogoutGenerator)))
        in case conn_find fd s of
             None \<Rightarrow> None
           | Some conn \<Rightarrow>
               let reply1 = lor_setMAXCMDSN (getMAXCMDSN s) (lor_setEXPCMDSN (getEXPCMDSN s)
                              (lor_setSTATSN (getSTATSN conn) reply))
               in Some (True, bp, sendtask_push_list lt (TSend fd (SendTask (lor_serialize (h_mem h) reply1)) # tasks)
                                    (conn_update fd advanceSTATSN s)))"

end
