(* ===== verification/Commands_Correct.thy ===== *)
theory Commands_Correct
  imports Handlers
begin

text \<open>
  What the information commands of \<open>ScsiInfo\<close> promise: the bytes of the data segments they
  queue, the length of the PDU against the length its header announces, the memory they write, and
  requests that stop the server.
\<close>

section \<open>What a serialised reply holds\<close>

lemma dig_serialize_reply:
  assumes "di_wf (dig_bhs g)"
  shows "cb_bytes (fst (dig_serialize g)) (48 + i) = dig_mem g i"
    and "getDlength (pdu_header (fst (dig_serialize g))) = dig_getDlength g"
    and "getHlength (pdu_header (fst (dig_serialize g))) = 0"
    and "cb_getRemain (fst (dig_serialize g)) = dig_tail (dig_pad g)"
proof -
  note ov = DataInHeader_overlay [OF assms]
  have p: "dig_bhs (dig_pad g) = dig_bhs g" "dig_mem (dig_pad g) = dig_mem g"
    by (simp_all add: dig_pad_def Let_def)
  have b: "fst (dig_serialize g) = pdu_cbuf (DataInHeader_bytes (dig_bhs g)) (dig_mem g) (dig_tail (dig_pad g))"
    using p by (simp add: dig_serialize_def dig_cbuf_def)
  show "cb_bytes (fst (dig_serialize g)) (48 + i) = dig_mem g i"
    "cb_getRemain (fst (dig_serialize g)) = dig_tail (dig_pad g)"
    using ov by (simp_all add: b pdu_cbuf_def cb_getRemain_def)
  show "getDlength (pdu_header (fst (dig_serialize g))) = dig_getDlength g"
    "getHlength (pdu_header (fst (dig_serialize g))) = 0"
    using ov by (simp_all add: b pdu_header_cbuf getDlength_def getHlength_def dig_getDlength_def)
qed

lemma dig_payload:
  "di_wf (dig_bhs g) \<Longrightarrow> map (cb_bytes (fst (dig_serialize g))) [48..<48 + n] = map (dig_mem g) [0..<n]"
  using dig_serialize_reply(1) [of g] by (intro nth_equalityI) simp_all

text \<open>The reply before the data segment: an empty one, in good order.\<close>

definition dig_fresh :: "data_in_generator \<Rightarrow> bool" where
  "dig_fresh g \<longleftrightarrow> di_wf (dig_bhs g) \<and> dig_getDlength g = 0 \<and> dig_tail g = 48"

lemma dig_fresh_new: "dig_fresh (DataInGenerator mem)"
  by (simp add: dig_fresh_def DataInGenerator_def di_wf_def new_DataInHeader_def dig_getDlength_def) code_simp

lemma dig_fresh_setters:
  "dig_fresh g \<Longrightarrow> dig_fresh (dig_setITT i g)" "dig_fresh g \<Longrightarrow> dig_fresh (dig_setCmdStatus c g)"
  "dig_fresh g \<Longrightarrow> dig_fresh (dig_setTTT t g)" "dig_fresh g \<Longrightarrow> dig_fresh (dig_setSTATSN n g)"
  "dig_fresh g \<Longrightarrow> dig_fresh (dig_setEXPCMDSN n g)" "dig_fresh g \<Longrightarrow> dig_fresh (dig_setMAXCMDSN n g)"
  by (simp_all add: dig_fresh_def dig_op_defs di_wf_def dig_getDlength_def)

lemma info_reply_fresh: "dig_fresh (info_reply mem st t conn s)"
  by (simp add: info_reply_def dig_fresh_setters dig_fresh_new)

lemma reserve_fresh:
  assumes "dig_fresh g" and "0 < n" and "48 + n \<le> COMMON_BUF_SIZE"
  shows "\<exists>g'. reserveDataSegment n g = (True, g') \<and> di_wf (dig_bhs g') \<and> dig_getDlength g' = n \<and>
    dig_tail g' = 48 + n \<and> dig_mem g' = dig_mem g"
  using assms ntoh24_of_nat [of n]
  by (auto simp: reserveDataSegment_def dig_capacity_def dig_fresh_def dig_setDlength_def dig_upd_def
      di_wf_def dig_getDlength_def COMMON_BUF_SIZE_def)

lemma dig_store_simps [simp]:
  "dig_bhs (dig_store at bs g) = dig_bhs g" "dig_tail (dig_store at bs g) = dig_tail g"
  "dig_getDlength (dig_store at bs g) = dig_getDlength g"
  by (simp_all add: dig_store_def dig_getDlength_def)

lemma dig_store_inside: "map (dig_mem (dig_store at bs g)) [at..<at + length bs] = bs"
  by (intro nth_equalityI) (simp_all add: dig_store_def)

lemma dig_store_outside:
  "b \<le> at \<or> at + length bs \<le> a \<Longrightarrow> map (dig_mem (dig_store at bs g)) [a..<b] = map (dig_mem g) [a..<b]"
  by (auto simp: dig_store_def)

lemma reserve_struct_fresh:
  assumes "dig_fresh g" and "tmp \<noteq> []" and "48 + length tmp \<le> COMMON_BUF_SIZE"
  shows "\<exists>g'. reserve_struct tmp g = Some g' \<and> di_wf (dig_bhs g') \<and> dig_getDlength g' = length tmp \<and>
    dig_tail g' = 48 + length tmp \<and> map (dig_mem g') [0..<length tmp] = tmp"
proof -
  from reserve_fresh [OF assms(1) _ assms(3)] assms(2) obtain g1 where
    "reserveDataSegment (length tmp) g = (True, g1)" "di_wf (dig_bhs g1)" "dig_getDlength g1 = length tmp"
    "dig_tail g1 = 48 + length tmp" by auto
  then show ?thesis using dig_store_inside [of 0 tmp g1]
    by (simp add: reserve_struct_def DataSegment_def ds_store_def)
qed

section \<open>Residual counts\<close>

lemma set_residual_simps [simp]:
  "dig_mem (set_residual t g) = dig_mem g" "dig_tail (set_residual t g) = dig_tail g"
  by (simp_all add: set_residual_def dig_setResidualCount_def dig_upd_def dig_setDlength_def)

lemma set_residual_wf: "di_wf (dig_bhs g) \<Longrightarrow> di_wf (dig_bhs (set_residual t g))"
  by (simp add: set_residual_def dig_setResidualCount_def dig_upd_def dig_setDlength_def di_wf_def)

lemma set_residual_dlength:
  assumes "dig_getDlength g < 2 ^ 24"
  shows "dig_getDlength (set_residual t g) = min (dig_getDlength g) (unat (cmd_getEXPDATALEN t))"
proof -
  let ?e = "cmd_getEXPDATALEN t" and ?n = "dig_getDlength g"
  have n: "unat (of_nat ?n :: u32) = ?n" using assms by (simp add: unat_of_nat)
  consider "?e > of_nat ?n" | "?e = of_nat ?n" | "?e < of_nat ?n" by (meson less_linear)
  then show ?thesis
  proof cases
    case 1
    then have "?n < unat ?e" using n by (simp add: word_less_nat_alt)
    then show ?thesis using 1
      by (simp add: set_residual_def dig_setResidualCount_def dig_upd_def dig_getDlength_def)
  next
    case 2
    then show ?thesis using n by (simp add: set_residual_def dig_setResidualCount_def)
  next
    case 3
    then have lt: "unat ?e < ?n" using n by (simp add: word_less_nat_alt)
    with assms have "unat ?e < 2 ^ 24" by simp
    from ntoh24_of_nat [OF this] have "unat (ntoh24 (hton24 ?e)) = unat ?e" by simp
    moreover have "\<not> ?e > of_nat ?n" using 3 by simp
    ultimately show ?thesis using 3 lt
      by (simp add: set_residual_def dig_setResidualCount_def dig_setDlength_def dig_upd_def dig_getDlength_def)
  qed
qed

text \<open>The buffer is as long as its header says exactly when the initiator expected at least the data.\<close>

lemma residual_in_step:
  fixes t g
  assumes "di_wf (dig_bhs g)" and "dig_tail g = 48 + dig_getDlength g" and "dig_getDlength g < 2 ^ 16"
  defines "b \<equiv> fst (dig_serialize (set_residual t g))"
  shows "getPDUlength (pdu_header b) = cb_getRemain b \<longleftrightarrow> dig_getDlength g \<le> unat (cmd_getEXPDATALEN t)"
proof -
  let ?g = "set_residual t g" and ?e = "unat (cmd_getEXPDATALEN t)"
  have wf: "di_wf (dig_bhs ?g)" using assms(1) by (rule set_residual_wf)
  have d: "dig_getDlength ?g = min (dig_getDlength g) ?e" using assms(3) by (intro set_residual_dlength) simp
  define m where "m = min (dig_getDlength g) ?e"
  have "\<not> COMMON_BUF_SIZE < dig_tail ?g + (4 - m mod 4)"
    using assms(2,3) by (simp add: COMMON_BUF_SIZE_def)
  then have tl: "dig_tail (dig_pad ?g) = dig_tail g + (if m mod 4 \<noteq> 0 then 4 - m mod 4 else 0)"
    using d by (simp add: dig_pad_def PAD_WORD_LEN_def Let_def m_def)
  have m4: "(48 + m) mod 4 = m mod 4" by presburger
  have "getPDUlength (pdu_header b) = 48 + m + (if m mod 4 \<noteq> 0 then 4 - m mod 4 else 0)"
    using dig_serialize_reply(2,3) [OF wf] d m4
    by (simp add: getPDUlength_def sizeof_iSCSIHeader_def PAD_WORD_LEN_def b_def m_def)
  moreover have "cb_getRemain b = 48 + dig_getDlength g + (if m mod 4 \<noteq> 0 then 4 - m mod 4 else 0)"
    using dig_serialize_reply(4) [OF wf] tl assms(2) by (simp add: b_def)
  ultimately show ?thesis unfolding m_def by auto
qed

section \<open>The frame\<close>

lemma pushed_tasks: "ses_tasks (sendtask_push u (conn_update fd f s)) = ses_tasks s @ [u]"
  by (simp add: sendtask_push_def)

lemmas info_frame_defs = info_handle_def finish_residual_def Let_def

text \<open>INQUIRY is answered with the standard data, and the stream of PDUs stays in step exactly when
  the initiator expected at least that much: otherwise the header announces only what was expected
  while the whole data are sent, and the initiator takes the rest for the next header.\<close>

theorem inquiry_residual_stream:
  assumes "read_direction t" and "Inquiry_valid (cdb_of t)" and "isFinal (token_header t)"
    and "conn_find fd s = Some conn" and "\<not> inq_isEVPD (cdb_of t)" and "36 \<le> inq_getAllocationLength (cdb_of t)"
  shows "\<exists>s' b. InquiryHandler_handle mem junk t fd s = Some (True, s') \<and>
    ses_tasks s' = ses_tasks s @ [TSend fd (SendTask b)] \<and> map (cb_bytes b) [48..<84] = InquiryData \<and>
    (getPDUlength (pdu_header b) = cb_getRemain b \<longleftrightarrow> 36 \<le> unat (cmd_getEXPDATALEN t))"
proof -
  let ?r = "info_reply mem SCSI_GOOD t conn s"
  have len: "length InquiryData = 36" by (simp add: InquiryData_def InquiryDataHeader_def chars_def)
  have ne: "InquiryData \<noteq> []" "48 + length InquiryData \<le> COMMON_BUF_SIZE"
    using len by (auto simp: COMMON_BUF_SIZE_def)
  from reserve_struct_fresh [OF info_reply_fresh ne, of mem SCSI_GOOD t conn s] len obtain g where
    g: "reserve_struct InquiryData ?r = Some g" "di_wf (dig_bhs g)" "dig_getDlength g = 36"
      "dig_tail g = 48 + dig_getDlength g" "map (dig_mem g) [0..<36] = InquiryData" by auto
  let ?b = "fst (dig_serialize (set_residual t g))"
  have "map (cb_bytes ?b) [48..<48 + 36] = InquiryData"
    using dig_payload [OF set_residual_wf [OF g(2)], of t 36] g(5) by (simp del: upt_rec_numeral)
  then have pay: "map (cb_bytes ?b) [48..<84] = InquiryData" by (simp del: upt_rec_numeral)
  have "dig_getDlength g < 2 ^ 16" using g(3) by simp
  from residual_in_step [OF g(2,4) this, of t] g(3)
  have pdu: "getPDUlength (pdu_header ?b) = cb_getRemain ?b \<longleftrightarrow> 36 \<le> unat (cmd_getEXPDATALEN t)" by simp
  have "InquiryHandler_handle mem junk t fd s =
      Some (True, sendtask_push (TSend fd (SendTask ?b)) (conn_update fd advanceSTATSN s))"
    using assms g(1) len by (simp add: InquiryHandler_handle_def info_frame_defs inquiry_data_def)
  with pay pdu pushed_tasks show ?thesis by blast
qed

section \<open>Requests for examples\<close>

definition mk_token :: "u8 list \<Rightarrow> token" where
  "mk_token bs = \<lparr>tkv_off = 0, tkv_cbufs = [\<lparr>cb_bytes = (\<lambda>i. if i < length bs then bs ! i else 0),
     cb_size = 4096, cb_offset = 0, cb_tail = length bs\<rparr>]\<rparr>"

text \<open>A SCSI command to unit 0 with the final and the read flag, an expected length and a command block.\<close>

definition cmd_token :: "u32 \<Rightarrow> u8 list \<Rightarrow> token" where
  "cmd_token n cdb = mk_token ([1, 0xC0] @ replicate 18 0 @ st32 (htonl n) @ replicate 8 0 @ cdb)"

definition ex_session :: iscsi_session where
  "ex_session = (iSCSISession (\<lambda>_. 0) (\<lambda>_. False))\<lparr>ses_ports := [(3, iSCSIConnection)],
     ses_initiator := Some \<lparr>ini_luns = [ex_lv], ini_MaxRecvDataSegmentLength = 8192,
       ini_alias = [], ini_authens = []\<rparr>\<rparr>"

lemma ex_conn: "conn_find 3 ex_session = Some iSCSIConnection"
  by (simp add: ex_session_def conn_find_def)

lemma ex_inquiry:
  "read_direction (cmd_token 20 [0x12, 0, 0, 0, 96, 0])" "Inquiry_valid (cdb_of (cmd_token 20 [0x12, 0, 0, 0, 96, 0]))"
  "isFinal (token_header (cmd_token 20 [0x12, 0, 0, 0, 96, 0]))"
  "\<not> inq_isEVPD (cdb_of (cmd_token 20 [0x12, 0, 0, 0, 96, 0]))"
  "36 \<le> inq_getAllocationLength (cdb_of (cmd_token 20 [0x12, 0, 0, 0, 96, 0]))"
  "cmd_getEXPDATALEN (cmd_token 20 [0x12, 0, 0, 0, 96, 0]) = 20"
  by code_simp+

theorem inquiry_residual_stream_witness:
  "\<exists>s' b. InquiryHandler_handle (\<lambda>_. 0) (\<lambda>_. 0) (cmd_token 20 [0x12, 0, 0, 0, 96, 0]) 3 ex_session = Some (True, s') \<and>
     ses_tasks s' = ses_tasks ex_session @ [TSend 3 (SendTask b)] \<and> getPDUlength (pdu_header b) \<noteq> cb_getRemain b"
  using inquiry_residual_stream [OF ex_inquiry(1-3) ex_conn ex_inquiry(4,5), of "\<lambda>_. 0" "\<lambda>_. 0"] ex_inquiry(6) by auto

section \<open>READ CAPACITY\<close>

text \<open>READ CAPACITY(10) reports the address of the last block and the block size.\<close>

theorem read_capacity_last_block:
  assumes "read_direction t" and "cap10_valid (cdb_of t)" and "isFinal (token_header t)"
    and "conn_find fd s = Some conn" and "ntohl (ld32 (drop 2 (cdb_of t))) = 0"
    and "req_lun t s = Some (Some lv)" and "0 < lv_count lv" and "lv_count lv < 2 ^ 32"
  shows "\<exists>s' b. ReadCapacityHandler_handle mem t fd s = Some (True, s') \<and>
    ses_tasks s' = ses_tasks s @ [TSend fd (SendTask b)] \<and>
    unat (ntohl (ld32 (map (cb_bytes b) [48..<52]))) = lv_count lv - 1 \<and>
    ntohl (ld32 (map (cb_bytes b) [52..<56])) = 512"
proof -
  let ?r = "info_reply mem SCSI_GOOD t conn s"
  have len: "length ReadCapacityHeader = 8" by (simp add: ReadCapacityHeader_def)
  from reserve_fresh [OF info_reply_fresh, of 8 mem SCSI_GOOD t conn s] obtain g where
    g: "reserveDataSegment 8 ?r = (True, g)" "di_wf (dig_bhs g)" by (auto simp: COMMON_BUF_SIZE_def)
  define g1 where "g1 = dig_store 0 ReadCapacityHeader g"
  define g2 where "g2 = dig_store 0 (st32 (htonl (cap10_last (lv_count lv)))) g1"
  let ?b = "fst (dig_serialize (set_residual t g2))"
  have wf: "di_wf (dig_bhs (set_residual t g2))" using g(2) by (intro set_residual_wf) (simp add: g2_def g1_def)
  have a: "map (dig_mem g2) [0..<4] = st32 (htonl (cap10_last (lv_count lv)))"
    using dig_store_inside [of 0 "st32 (htonl (cap10_last (lv_count lv)))" g1] unfolding g2_def by simp
  have "map (dig_mem g2) [4..<8] = map (dig_mem g1) [4..<8]"
    unfolding g2_def by (rule dig_store_outside) simp
  also have "\<dots> = drop 4 (map (dig_mem g1) [0..<8])" by (simp only: drop_map drop_upt) simp
  also have "\<dots> = drop 4 ReadCapacityHeader"
    using dig_store_inside [of 0 ReadCapacityHeader g] len unfolding g1_def by simp
  finally have c: "map (dig_mem g2) [4..<8] = st32 (htonl 512)" by (simp add: ReadCapacityHeader_def)
  have p: "map (cb_bytes ?b) [48 + i..<48 + j] = map (dig_mem g2) [i..<j]" for i j
    using dig_serialize_reply(1) [OF wf] by (intro nth_equalityI) (simp_all add: add.assoc)
  have "map (cb_bytes ?b) [48..<52] = st32 (htonl (cap10_last (lv_count lv)))" using p [of 0 4] a by simp
  moreover have "map (cb_bytes ?b) [52..<56] = st32 (htonl 512)" using p [of 4 8] c by simp
  moreover have "unat (cap10_last (lv_count lv)) = lv_count lv - 1"
  proof -
    have "unat (of_nat (lv_count lv) :: u32) = lv_count lv" using assms(8) by (simp add: unat_of_nat)
    then have "(of_nat (lv_count lv) :: u32) \<noteq> 0" using assms(7) by (metis not_less_zero unat_0)
    then have "unat (of_nat (lv_count lv) - 1 :: u32) = unat (of_nat (lv_count lv) :: u32) - 1"
      by (rule unat_minus_one)
    then show ?thesis using assms(8) by (simp add: cap10_last_def unat_of_nat)
  qed
  ultimately have pay: "unat (ntohl (ld32 (map (cb_bytes ?b) [48..<52]))) = lv_count lv - 1"
    "ntohl (ld32 (map (cb_bytes ?b) [52..<56])) = 512" by simp_all
  have "ReadCapacityHandler_handle mem t fd s =
      Some (True, sendtask_push (TSend fd (SendTask ?b)) (conn_update fd advanceSTATSN s))"
    using assms(1-6) g(1) len
    by (simp add: ReadCapacityHandler_handle_def info_frame_defs DataSegment_def ds_store_def
        g1_def [symmetric] g2_def [symmetric])
  with pay pushed_tasks show ?thesis by blast
qed

lemma ex_capacity:
  "read_direction (cmd_token 8 (0x25 # replicate 9 0))" "cap10_valid (cdb_of (cmd_token 8 (0x25 # replicate 9 0)))"
  "isFinal (token_header (cmd_token 8 (0x25 # replicate 9 0)))"
  "ntohl (ld32 (drop 2 (cdb_of (cmd_token 8 (0x25 # replicate 9 0))))) = 0"
  "unat (LUN_get (cmd_getLUN (cmd_token 8 (0x25 # replicate 9 0)))) = 0"
  by code_simp+

theorem read_capacity_last_block_witness:
  "\<exists>s' b. ReadCapacityHandler_handle (\<lambda>_. 0) (cmd_token 8 (0x25 # replicate 9 0)) 3 ex_session = Some (True, s') \<and>
     ses_tasks s' = ses_tasks ex_session @ [TSend 3 (SendTask b)] \<and>
     unat (ntohl (ld32 (map (cb_bytes b) [48..<52]))) = 7"
proof -
  have "req_lun (cmd_token 8 (0x25 # replicate 9 0)) ex_session = Some (Some ex_lv)"
    using ex_capacity(5) by (simp add: req_lun_def ex_session_def ini_getLUN_def)
  from read_capacity_last_block [OF ex_capacity(1-3) ex_conn ex_capacity(4) this, of "\<lambda>_. 0"] show ?thesis
    by (auto simp: ex_lv_def)
qed


section \<open>REPORT LUNS\<close>

definition luns_bytes :: "nat \<Rightarrow> u8 list" where
  "luns_bytes k = st32 (htonl (of_nat (8 * k))) @ st32 0 @ concat (map (\<lambda>i. LUN (of_nat i)) [0..<k])"

lemma length_LUN: "length (LUN n) = 8"
  by (simp add: LUN_def)

lemma length_luns_bytes: "length (luns_bytes k) = 8 + 8 * k"
  by (simp add: luns_bytes_def length_concat length_LUN o_def sum_list_triv)

lemma upt_split: "a \<le> b \<Longrightarrow> b \<le> c \<Longrightarrow> [a..<c] = [a..<b] @ [b..<c]"
  by (metis le_add_diff_inverse upt_add_eq_append)

lemma rl_add_step:
  assumes g: "map (dig_mem g) [0..<8 + 8 * k] = luns_bytes k" and lim: "8 + 8 * Suc k \<le> limit"
    and k: "8 * Suc k < 2 ^ 32"
  shows "\<exists>g'. rl_add True limit (of_nat k) g = Some (True, g') \<and>
    map (dig_mem g') [0..<8 + 8 * Suc k] = luns_bytes (Suc k) \<and> dig_bhs g' = dig_bhs g"
proof -
  have "map (dig_mem g) [0..<4] = take 4 (map (dig_mem g) [0..<8 + 8 * k])" by (simp add: take_map)
  then have "map (dig_mem g) [0..<4] = st32 (htonl (of_nat (8 * k)))" by (simp add: g luns_bytes_def)
  then have len: "rl_length g + 8 = of_nat (8 * Suc k)" by (simp add: rl_length_def)
  have u: "unat (of_nat (8 * Suc k) :: u32) = 8 * Suc k" using k by (simp only: unat_of_nat) simp
  define h where "h = st32 (htonl (of_nat (8 * Suc k)))"
  define g1 where "g1 = dig_store 0 h g"
  define g2 where "g2 = dig_store (8 * Suc k) (LUN (of_nat k)) g1"
  have r: "rl_add True limit (of_nat k) g = Some (True, g2)"
    using lim by (simp add: rl_add_def len u Let_def h_def [symmetric] g1_def [symmetric] g2_def [symmetric] del: of_nat_mult mult_Suc_right of_nat_Suc)
  have lh: "length h = 4" by (simp add: h_def)
  have "[0..<8 + 8 * Suc k] = [0..<4] @ [4..<8 * Suc k] @ [8 * Suc k..<8 * Suc k + length (LUN (of_nat k))]"
    using upt_split [of 0 4 "8 + 8 * Suc k"] upt_split [of 4 "8 * Suc k" "8 + 8 * Suc k"]
    by (simp add: length_LUN add.commute del: upt_rec_numeral)
  moreover have "map (dig_mem g2) [8 * Suc k..<8 * Suc k + length (LUN (of_nat k))] = LUN (of_nat k)"
    unfolding g2_def by (rule dig_store_inside)
  moreover have "map (dig_mem g2) [0..<4] = h"
  proof -
    have "map (dig_mem g2) [0..<4] = map (dig_mem g1) [0..<4]"
      unfolding g2_def by (rule dig_store_outside) simp
    then show ?thesis using dig_store_inside [of 0 h g] lh unfolding g1_def by (simp only: add_0)
  qed
  moreover have "map (dig_mem g2) [4..<8 * Suc k] = st32 0 @ concat (map (\<lambda>i. LUN (of_nat i)) [0..<k])"
  proof -
    have "map (dig_mem g2) [4..<8 * Suc k] = map (dig_mem g1) [4..<8 * Suc k]"
      unfolding g2_def by (rule dig_store_outside) simp
    also have "\<dots> = map (dig_mem g) [4..<8 * Suc k]"
      unfolding g1_def by (rule dig_store_outside) (simp add: lh)
    also have "\<dots> = drop 4 (map (dig_mem g) [0..<8 + 8 * k])" by (simp add: drop_map)
    finally show ?thesis by (simp add: g luns_bytes_def)
  qed
  ultimately have "map (dig_mem g2) [0..<8 + 8 * Suc k] = luns_bytes (Suc k)"
    by (simp add: luns_bytes_def h_def del: upt_rec_numeral mult_Suc_right of_nat_mult of_nat_Suc)
  with r show ?thesis by (simp add: g2_def g1_def)
qed

lemma rl_add_all_lists:
  "map (dig_mem g) [0..<8 + 8 * k] = luns_bytes k \<Longrightarrow> 8 + 8 * (k + n) \<le> limit \<Longrightarrow> 8 * (k + n) < 2 ^ 32 \<Longrightarrow>
     \<exists>g'. rl_add_all True limit (of_nat k) n g = Some g' \<and>
       map (dig_mem g') [0..<8 + 8 * (k + n)] = luns_bytes (k + n) \<and> dig_bhs g' = dig_bhs g"
proof (induction n arbitrary: k g)
  case (Suc n)
  from rl_add_step [OF Suc.prems(1), of limit] Suc.prems(2,3) obtain g1 where
    g1: "rl_add True limit (of_nat k) g = Some (True, g1)" "map (dig_mem g1) [0..<8 + 8 * Suc k] = luns_bytes (Suc k)"
      "dig_bhs g1 = dig_bhs g" by auto
  from Suc.IH [OF g1(2)] Suc.prems(2,3) obtain g2 where
    "rl_add_all True limit (of_nat (Suc k)) n g1 = Some g2"
    "map (dig_mem g2) [0..<8 + 8 * (Suc k + n)] = luns_bytes (Suc k + n)" "dig_bhs g2 = dig_bhs g1" by auto
  moreover have "(of_nat (Suc k) :: u32) = of_nat k + 1" by simp
  ultimately show ?case using g1 by (simp del: of_nat_Suc)
qed simp

text \<open>REPORT LUNS lists every logical unit: when the allocation length has room for them, the data
  are the length of the list and the numbers 0, 1, ... in order, one entry for each volume.\<close>

theorem report_luns_lists_all:
  assumes "read_direction t" and "ReportLUNS_valid (cdb_of t)" and "isFinal (token_header t)"
    and "conn_find fd s = Some conn" and "ses_initiator s = Some ini" and "ini_luns ini \<noteq> []"
    and "8 + 8 * length (ini_luns ini) \<le> rl_getAllocationLength (cdb_of t)"
    and "48 + rl_getAllocationLength (cdb_of t) \<le> COMMON_BUF_SIZE"
  shows "\<exists>s' b. ReportLUNSHandler_handle mem t fd s = Some (True, s') \<and>
    ses_tasks s' = ses_tasks s @ [TSend fd (SendTask b)] \<and>
    map (cb_bytes b) [48..<48 + (8 + 8 * length (ini_luns ini))] = luns_bytes (length (ini_luns ini))"
proof -
  let ?r = "info_reply mem SCSI_GOOD t conn s" and ?a = "rl_getAllocationLength (cdb_of t)"
  let ?n = "length (ini_luns ini)"
  have a: "0 < ?a" "8 * ?n < 2 ^ 32" using assms(7,8) by (auto simp: COMMON_BUF_SIZE_def)
  from reserve_fresh [OF info_reply_fresh a(1) assms(8), of mem SCSI_GOOD t conn s] obtain g where
    g: "reserveDataSegment ?a ?r = (True, g)" "di_wf (dig_bhs g)" by auto
  define g1 where "g1 = dig_store 0 ReportLUNSheader g"
  have len: "length ReportLUNSheader = 8" by (simp add: ReportLUNSheader_def)
  have "map (dig_mem g1) [0..<8 + 8 * 0] = luns_bytes 0"
    using dig_store_inside [of 0 ReportLUNSheader g] len
    unfolding g1_def by (simp add: luns_bytes_def ReportLUNSheader_def htonl_def) code_simp
  from rl_add_all_lists [OF this, of ?n ?a] assms(7) a(2) obtain g2 where
    g2: "rl_add_all True ?a 0 ?n g1 = Some g2" "map (dig_mem g2) [0..<8 + 8 * ?n] = luns_bytes ?n"
      "dig_bhs g2 = dig_bhs g1" by auto
  let ?b = "fst (dig_serialize g2)"
  have wf: "di_wf (dig_bhs g2)" using g(2) g2(3) by (simp add: g1_def)
  have "8 \<le> ?a" using assms(7) by simp
  then have "ReportLUNSHandler_handle mem t fd s =
      Some (True, sendtask_push (TSend fd (SendTask ?b)) (conn_update fd advanceSTATSN s))"
    using assms(1-6) g(1) len g2(1)
    by (simp add: ReportLUNSHandler_handle_def info_frame_defs DataSegment_def ds_store_def g1_def [symmetric])
  moreover have "map (cb_bytes ?b) [48..<48 + (8 + 8 * ?n)] = luns_bytes ?n"
    using dig_payload [OF wf, of "8 + 8 * ?n"] g2(2) by (simp only:)
  ultimately show ?thesis using pushed_tasks by blast
qed

lemma ex_luns:
  "read_direction (cmd_token 64 ([0xa0, 0, 0, 0, 0, 0, 0, 0, 0, 64] @ replicate 6 0))"
  "ReportLUNS_valid (cdb_of (cmd_token 64 ([0xa0, 0, 0, 0, 0, 0, 0, 0, 0, 64] @ replicate 6 0)))"
  "isFinal (token_header (cmd_token 64 ([0xa0, 0, 0, 0, 0, 0, 0, 0, 0, 64] @ replicate 6 0)))"
  "rl_getAllocationLength (cdb_of (cmd_token 64 ([0xa0, 0, 0, 0, 0, 0, 0, 0, 0, 64] @ replicate 6 0))) = 64"
  by code_simp+

theorem report_luns_lists_all_witness:
  "\<exists>s' b. ReportLUNSHandler_handle (\<lambda>_. 0) (cmd_token 64 ([0xa0, 0, 0, 0, 0, 0, 0, 0, 0, 64] @ replicate 6 0)) 3 ex_session =
       Some (True, s') \<and> ses_tasks s' = ses_tasks ex_session @ [TSend 3 (SendTask b)] \<and>
     map (cb_bytes b) [48..<64] = luns_bytes 1"
proof -
  let ?ini = "\<lparr>ini_luns = [ex_lv], ini_MaxRecvDataSegmentLength = 8192,
       ini_alias = [], ini_authens = []\<rparr>"
  have i: "ses_initiator ex_session = Some ?ini" by (simp add: ex_session_def)
  have "ini_luns ?ini \<noteq> []" by simp
  note r = report_luns_lists_all [OF ex_luns(1-3) ex_conn i this, where mem = "\<lambda>_. 0", unfolded ex_luns(4)]
  have "8 + 8 * length (ini_luns ?ini) \<le> 64" "48 + 64 \<le> COMMON_BUF_SIZE" by (simp_all add: COMMON_BUF_SIZE_def)
  from r [OF this] show ?thesis by (simp del: upt_rec_numeral)
qed

text \<open>An allocation length that does not fit into a buffer is not refused: the reservation returns
  a null pointer, and the default header is stored through it, so the server dies.\<close>

theorem report_luns_null_pointer:
  assumes "read_direction t" and "ReportLUNS_valid (cdb_of t)" and "isFinal (token_header t)"
    and "conn_find fd s \<noteq> None" and "COMMON_BUF_SIZE < 48 + rl_getAllocationLength (cdb_of t)"
  shows "ReportLUNSHandler_handle mem t fd s = None"
proof -
  have f: "dig_tail (info_reply mem st t c s) = 48" for st c
    using info_reply_fresh [of mem st t c s] by (simp add: dig_fresh_def)
  have "reserveDataSegment (rl_getAllocationLength (cdb_of t)) (info_reply mem st t c s) =
      (False, info_reply mem st t c s)" for st c
    using assms(5) by (auto simp: reserveDataSegment_def dig_capacity_def f COMMON_BUF_SIZE_def)
  moreover have "16 \<le> rl_getAllocationLength (cdb_of t)" using assms(2) by (simp add: ReportLUNS_valid_def)
  ultimately show ?thesis using assms
    by (auto simp: ReportLUNSHandler_handle_def info_frame_defs DataSegment_def ds_store_def ReportLUNSheader_def)
qed

theorem report_luns_null_pointer_witness:
  "ReportLUNSHandler_handle (\<lambda>_. 0) (cmd_token 64 ([0xa0, 0, 0, 0, 0, 0, 0, 2, 0, 0] @ replicate 6 0)) 3 ex_session = None"
proof -
  let ?t = "cmd_token 64 ([0xa0, 0, 0, 0, 0, 0, 0, 2, 0, 0] @ replicate 6 0)"
  have a: "ntohl (ld32 (drop 6 (cdb_of ?t))) = 0x20000" "cdb_of ?t ! 0 = REPORT_LUNS" by code_simp+
  have t: "read_direction ?t" "isFinal (token_header ?t)" by code_simp+
  have n: "rl_getAllocationLength (cdb_of ?t) = 0x20000" unfolding rl_getAllocationLength_def a(1) by simp
  have v: "ReportLUNS_valid (cdb_of ?t)" unfolding ReportLUNS_valid_def n using a(2) by simp
  show ?thesis by (rule report_luns_null_pointer [OF t(1) v t(2)]) (unfold n, simp_all add: ex_conn COMMON_BUF_SIZE_def)
qed


section \<open>MODE SENSE stays inside its data segment\<close>

text \<open>The bytes from \<open>n\<close> on are untouched, and so is what describes the buffer.\<close>

definition msd_within :: "nat \<Rightarrow> mode_sense_data \<Rightarrow> mode_sense_data \<Rightarrow> bool" where
  "msd_within n d d' \<longleftrightarrow> msd_limit d' = msd_limit d \<and> dig_bhs (msd_reply d') = dig_bhs (msd_reply d) \<and>
     dig_tail (msd_reply d') = dig_tail (msd_reply d) \<and>
     (\<forall>i \<ge> n. dig_mem (msd_reply d') i = dig_mem (msd_reply d) i)"

lemma msd_within_refl: "msd_within n d d"
  by (simp add: msd_within_def)

lemma msd_within_trans: "msd_within n a b \<Longrightarrow> msd_within n b c \<Longrightarrow> msd_within n a c"
  by (simp add: msd_within_def)

lemma msd_store_within:
  "msd_store at bs d = Some d' \<Longrightarrow> at + length bs \<le> n \<Longrightarrow> msd_within n d d' \<and> msd_total d' = msd_total d"
  by (auto simp: msd_store_def ds_store_def dig_store_def msd_within_def split: if_splits)

lemma msd_stores_within:
  "msd_stores ws d = Some d' \<Longrightarrow> \<forall>(at, bs) \<in> set ws. at + length bs \<le> n \<Longrightarrow>
     msd_within n d d' \<and> msd_total d' = msd_total d"
proof (induction ws arbitrary: d)
  case (Cons w ws)
  obtain at bs where w: "w = (at, bs)" by fastforce
  with Cons.prems obtain d1 where "msd_store at bs d = Some d1" "msd_stores ws d1 = Some d'"
    by (auto split: option.splits)
  with Cons.prems(2) w Cons.IH [of d1] msd_store_within [of at bs d d1 n] show ?case
    by (auto intro: msd_within_trans)
qed (simp add: msd_within_refl)

lemma append_page_within:
  assumes "append_page sz ws d = Some d'" and "\<forall>(at, bs) \<in> set ws. at + length bs \<le> sz"
    and "msd_limit d \<le> n" and "4 \<le> n"
  shows "msd_within n d d' \<and> msd_total d' = msd_total d + sz"
proof -
  let ?d1 = "d\<lparr>msd_total := msd_total d + sz\<rparr>"
  from assms(1) obtain ok d2 where
    s: "msd_setLength (msd_total d + sz) ?d1 = Some (ok, d2)" and
    r: "(if \<not> ok then Some d2 else msd_stores (map (\<lambda>(at, bs). (msd_total d + at, bs)) ws) d2) = Some d'"
    by (auto simp: append_page_def Let_def split: option.splits prod.splits)
  from s have "msd_store 0 [of_nat (msd_total d + sz - 1)] ?d1 = Some d2"
    and ok: "ok \<Longrightarrow> msd_total d + sz \<le> msd_limit d" by (auto simp: msd_setLength_def)
  from msd_store_within [OF this(1), of n] assms(4)
  have d2: "msd_within n d d2" "msd_total d2 = msd_total d + sz" by (auto simp: msd_within_def)
  show ?thesis
  proof (cases ok)
    case True
    then have "\<forall>(at, bs) \<in> set (map (\<lambda>(at, bs). (msd_total d + at, bs)) ws). at + length bs \<le> n"
      using ok assms(2,3) by fastforce
    from msd_stores_within [OF _ this] r True d2 show ?thesis by (auto intro: msd_within_trans)
  next
    case False
    then show ?thesis using r d2 by simp
  qed
qed

text \<open>Every page function, with the size of its page.\<close>

lemma pages_within:
  assumes "msd_limit d \<le> n" and "4 \<le> n"
  shows "mode_pages code = Some fs \<Longrightarrow> f \<in> set fs \<Longrightarrow> f d = Some d' \<Longrightarrow> msd_within n d d'"
  using append_page_within [OF _ _ assms]
  by (auto simp: mode_pages_def appendDisconnectReconnect_def appendFormatDevice_def
      appendRigidDiskGeometry_def appendCaching_def appendControl_def
      appendInformationalExceptionsCtrl_def hton24_def split: if_splits)

lemma msd_seq_within:
  "msd_seq fs d = Some d' \<Longrightarrow> msd_limit d \<le> n \<Longrightarrow>
     (\<And>f d d'. f \<in> set fs \<Longrightarrow> msd_limit d \<le> n \<Longrightarrow> f d = Some d' \<Longrightarrow> msd_within n d d') \<Longrightarrow> msd_within n d d'"
proof (induction fs arbitrary: d)
  case (Cons f fs)
  then obtain d1 where d1: "f d = Some d1" "msd_seq fs d1 = Some d'" by (auto split: option.splits)
  with Cons.prems have w: "msd_within n d d1" by auto
  then have "msd_limit d1 \<le> n" using Cons.prems(2) by (simp add: msd_within_def)
  with Cons.IH [OF d1(2)] Cons.prems(3) have "msd_within n d1 d'" by auto
  with w show ?case by (rule msd_within_trans)
qed (simp add: msd_within_refl)

lemma appendBlockDescriptor_within:
  "appendBlockDescriptor lv d = Some d' \<Longrightarrow> msd_limit d \<le> n \<Longrightarrow> 4 \<le> n \<Longrightarrow> msd_within n d d'"
  using append_page_within [of 8 _ d d' n]
  by (fastforce simp: appendBlockDescriptor_def Let_def msd_within_def split: if_splits)

lemma resetDlength_simps:
  "resetDlength n g = (ok, g') \<Longrightarrow> dig_mem g' = dig_mem g \<and> (ok \<longrightarrow> n < 2 ^ 24 \<longrightarrow> dig_getDlength g' = n)"
  using ntoh24_of_nat [of n]
  by (auto simp: resetDlength_def dig_setDlength_def dig_upd_def dig_getDlength_def Let_def split: if_splits)

lemma ms_finish_bounds:
  assumes "ms_finish t alloc d = (ok, g)" and "alloc < 2 ^ 24"
  shows "dig_mem g = dig_mem (msd_reply d) \<and> (ok \<longrightarrow> dig_getDlength g \<le> alloc)"
proof -
  obtain r g1 where r: "resetDlength (min (msd_total d) alloc) (msd_reply d) = (r, g1)" by fastforce
  from resetDlength_simps [OF r] assms(2) have m: "dig_mem g1 = dig_mem (msd_reply d)"
    "r \<Longrightarrow> dig_getDlength g1 = min (msd_total d) alloc" by (auto simp: min_less_iff_disj)
  then show ?thesis
    using assms r set_residual_dlength [of g1 t] by (auto simp: ms_finish_def split: if_splits)
qed

lemma reserveDataSegment_mem: "reserveDataSegment n g = (ptr, g') \<Longrightarrow> dig_mem g' = dig_mem g"
  by (auto simp: reserveDataSegment_def dig_setDlength_def dig_upd_def split: if_splits)

lemma ModeSenseData_mem:
  "ModeSenseData ptr alloc g = Some d \<Longrightarrow> msd_limit d = alloc \<and> (\<forall>i \<ge> 4. dig_mem (msd_reply d) i = dig_mem g i)"
  by (auto simp: ModeSenseData_def DataSegment_def ds_store_def dig_store_def ModeParamHeader_def split: if_splits)

text \<open>What a reply may have done: nothing from byte \<open>n\<close> on, and announced no more than \<open>alloc\<close>.\<close>

definition ms_bounded :: "nat \<Rightarrow> nat \<Rightarrow> data_in_generator \<Rightarrow> bool \<Rightarrow> data_in_generator \<Rightarrow> bool" where
  "ms_bounded n alloc g ok g' \<longleftrightarrow>
     (\<forall>i \<ge> n. dig_mem g' i = dig_mem g i) \<and> (ok \<longrightarrow> dig_getDlength g' \<le> alloc)"

lemma ms_bounded_finish:
  "msd_within n d d' \<Longrightarrow> ms_finish t alloc d' = (ok, g') \<Longrightarrow> alloc < 2 ^ 24 \<Longrightarrow> ms_bounded n alloc (msd_reply d) ok g'"
  using ms_finish_bounds [of t alloc d' ok g'] by (simp add: ms_bounded_def msd_within_def)

lemma ms_fill_bounded:
  assumes "ms_fill cdb t lv d = Some (ok, g')" and "msd_limit d \<le> n" and "4 \<le> n"
  shows "ms_bounded n (ms_getAllocationLength cdb) (msd_reply d) ok g'"
proof -
  let ?a = "ms_getAllocationLength cdb"
  have "unat (cdb ! 4) < 2 ^ LENGTH(8)" by (rule unsigned_less)
  then have a: "?a < 2 ^ 24" by (simp add: ms_getAllocationLength_def)
  show ?thesis
  proof (cases "?a = length ModeParamHeader")
    case True
    with assms(1) obtain d2 where d2: "setDesiredLength 0x1F d = Some d2" "ms_finish t ?a d2 = (ok, g')"
      by (auto simp: ms_fill_def Let_def)
    have "msd_within n d d2" using d2(1) msd_store_within [of 0 _ d d2 n] assms(3) by (simp add: setDesiredLength_def)
    from ms_bounded_finish [OF this d2(2) a] show ?thesis .
  next
    case False
    with assms(1) obtain d2 where d2: "(if ms_isDBD cdb then Some d else appendBlockDescriptor lv d) = Some d2"
      by (auto simp: ms_fill_def Let_def split: option.splits)
    have w2: "msd_within n d d2"
      using d2 appendBlockDescriptor_within [OF _ assms(2,3)] by (auto simp: msd_within_refl split: if_splits)
    then have lim2: "msd_limit d2 \<le> n" using assms(2) by (simp add: msd_within_def)
    show ?thesis
    proof (cases "mode_pages (ms_getPageCode cdb)")
      case None
      then show ?thesis using assms(1) False d2 w2 by (auto simp: ms_fill_def ms_bounded_def msd_within_def)
    next
      case (Some fs)
      with assms(1) False d2 obtain d3 where d3: "msd_seq fs d2 = Some d3" "ms_finish t ?a d3 = (ok, g')"
        by (auto simp: ms_fill_def)
      have "msd_within n d2 d3"
        by (rule msd_seq_within [OF d3(1) lim2]) (rule pages_within [OF _ assms(3) Some])
      with w2 have "msd_within n d d3" by (rule msd_within_trans)
      from ms_bounded_finish [OF this d3(2) a] show ?thesis .
    qed
  qed
qed

text \<open>C35. MODE SENSE writes nothing behind the larger of the allocation length and its four header bytes, whatever
  pages were asked for, and a reply that is sent announces at most the allocation length. For an allocation length
  of 1 to 3 the header is stored as a whole all the same, behind what was reserved.\<close>

theorem mode_sense_stays_inside:
  assumes "mode_sense_body cdb t s reply = Some (ok, reply')"
  shows "(\<forall>i \<ge> max 4 (ms_getAllocationLength cdb). dig_mem reply' i = dig_mem reply i) \<and>
    (ok \<longrightarrow> dig_getDlength reply' \<le> ms_getAllocationLength cdb)"
proof -
  let ?a = "ms_getAllocationLength cdb" and ?n = "max 4 (ms_getAllocationLength cdb)"
  obtain ptr g where g: "reserveDataSegment ?a reply = (ptr, g)" by fastforce
  from assms g obtain d where d: "ModeSenseData ptr ?a g = Some d"
    by (auto simp: mode_sense_body_def Let_def split: option.splits)
  have lim: "msd_limit d \<le> ?n" and base: "\<forall>i \<ge> ?n. dig_mem (msd_reply d) i = dig_mem reply i"
    using ModeSenseData_mem [OF d] reserveDataSegment_mem [OF g] by auto
  from assms g d consider (no_lun) "\<not> ok" "reply' = msd_reply d"
    | (lun) lv d1 where "(if ms_isDBD cdb then Some d else setBlockDescriptorLength 8 d) = Some d1"
        "ms_fill cdb t lv d1 = Some (ok, reply')"
    by (auto simp: mode_sense_body_def Let_def split: option.splits)
  then show ?thesis
  proof cases
    case no_lun
    then show ?thesis using base by simp
  next
    case lun
    have w: "msd_within ?n d d1"
      using lun(1) msd_store_within [of 3 _ d d1 ?n]
      by (auto simp: setBlockDescriptorLength_def msd_within_refl split: if_splits)
    then have "msd_limit d1 \<le> ?n" using lim by (simp add: msd_within_def)
    from ms_fill_bounded [OF lun(2) this] w base show ?thesis by (simp add: ms_bounded_def msd_within_def)
  qed
qed

theorem mode_sense_stays_inside_witness:
  "\<exists>g. mode_sense_body [0x1a, 8, 0, 0, 4, 0] (cmd_token 4 [0x1a, 8, 0, 0, 4, 0]) ex_session
        (DataInGenerator (\<lambda>i. 9)) = Some (True, g) \<and> dig_mem g 4 = 9 \<and> dig_getDlength g \<le> 4"
proof -
  let ?cdb = "[0x1a, 8, 0, 0, 4, 0] :: u8 list" and ?t = "cmd_token 4 [0x1a, 8, 0, 0, 4, 0]"
  have a: "ms_getAllocationLength ?cdb = 4" "ms_isDBD ?cdb" "unat (LUN_get (cmd_getLUN ?t)) = 0" by code_simp+
  have lun: "req_lun ?t ex_session = Some (Some ex_lv)"
    by (simp add: req_lun_def ex_session_def ini_getLUN_def a)
  from reserve_fresh [OF dig_fresh_new, of 4 "\<lambda>i. 9"] obtain g0 where
    g0: "reserveDataSegment 4 (DataInGenerator (\<lambda>i. 9)) = (True, g0)" "dig_getDlength g0 = 4" "dig_tail g0 = 52"
      "dig_mem g0 = (\<lambda>i. 9)" by (auto simp: COMMON_BUF_SIZE_def DataInGenerator_def)
  have "\<exists>g. mode_sense_body ?cdb ?t ex_session (DataInGenerator (\<lambda>i. 9)) = Some (True, g)"
    using g0 a lun
    by (simp add: mode_sense_body_def ms_fill_def ModeSenseData_def DataSegment_def ds_store_def ModeParamHeader_def
        setDesiredLength_def msd_store_def ms_finish_def resetDlength_def dig_capacity_def COMMON_BUF_SIZE_def
        dig_setDlength_def dig_upd_def)
  then obtain g where g: "mode_sense_body ?cdb ?t ex_session (DataInGenerator (\<lambda>i. 9)) = Some (True, g)" by blast
  from mode_sense_stays_inside [OF g] g a show ?thesis by (auto simp: DataInGenerator_def)
qed

end
