(* ===== verification/Command_Frame.thy ===== *)
theory Command_Frame
  imports Commands_Correct
begin

text \<open>
  What a SCSI command leaves alone: every handler of the table only appends to the session's send
  queue and works on its own connection. The two loops of READ need fixpoint induction, the others
  are compositions of steps that are collected in \<open>quiet_steps\<close>.
\<close>

section \<open>What a command leaves alone\<close>

text \<open>A task that only concerns the socket \<open>fd\<close>.\<close>

definition data_task :: "int \<Rightarrow> task \<Rightarrow> bool" where
  "data_task fd u \<longleftrightarrow> (\<exists>x. u = TSend fd x) \<or> (\<exists>x. u = TSendfile fd x) \<or> (\<exists>x. u = TSendCache fd x) \<or>
     u = TCPCork fd \<or> u = TCPUncork fd"

lemma data_task_simps [simp]:
  "data_task fd (TSend k x) \<longleftrightarrow> k = fd" "data_task fd (TSendfile k y) \<longleftrightarrow> k = fd"
  "data_task fd (TSendCache k z) \<longleftrightarrow> k = fd" "\<not> data_task fd (CreateReactor q k)"
  "\<not> data_task fd (RemoveReactor q)" "\<not> data_task fd (CloseSession q)"
  "data_task fd (TCPCork k) \<longleftrightarrow> k = fd" "data_task fd (TCPUncork k) \<longleftrightarrow> k = fd"
  "data_task fd (item_task fd lv i)"
  by (auto simp: data_task_def item_task_def split: read_item.split)

text \<open>A handler that works for the connection \<open>fd\<close> only appends data tasks for it to the send queue,
  does not touch the other connections, and leaves the identity, parameters and handlers of the
  session alone.\<close>

definition session_frame :: "int \<Rightarrow> iscsi_session \<Rightarrow> iscsi_session \<Rightarrow> bool" where
  "session_frame fd s s' \<longleftrightarrow> (\<exists>ts. ses_tasks s' = ses_tasks s @ ts \<and> (\<forall>u \<in> set ts. data_task fd u)) \<and>
     (\<forall>k. k \<noteq> fd \<longrightarrow> conn_find k s' = conn_find k s) \<and> map fst (ses_ports s') = map fst (ses_ports s) \<and>
     ses_type s' = ses_type s \<and> ses_sid s' = ses_sid s \<and> ses_tsih s' = ses_tsih s \<and> ses_tag s' = ses_tag s \<and>
     ses_attrs s' = ses_attrs s \<and> ses_protos s' = ses_protos s \<and> ses_initiator s' = ses_initiator s \<and>
     ses_tokens s' = ses_tokens s \<and> ses_mrds_length s' = ses_mrds_length s \<and>
     length (ses_wcaches s') = length (ses_wcaches s)"

definition same_numbers :: "iscsi_session \<Rightarrow> iscsi_session \<Rightarrow> bool" where
  "same_numbers s s' \<longleftrightarrow> ses_expcmdsn_gen s' = ses_expcmdsn_gen s \<and> ses_maxcmdsn_gen s' = ses_maxcmdsn_gen s"

definition quiet :: "int \<Rightarrow> iscsi_session \<Rightarrow> iscsi_session \<Rightarrow> bool" where
  "quiet fd s s' \<longleftrightarrow> session_frame fd s s' \<and> same_numbers s s'"

lemma quiet_refl [simp]: "quiet fd s s"
  by (simp add: quiet_def session_frame_def same_numbers_def)

lemma session_frame_refl [simp]: "session_frame fd s s"
  by (simp add: session_frame_def)

lemma session_frame_trans: "session_frame fd a b \<Longrightarrow> session_frame fd b c \<Longrightarrow> session_frame fd a c"
  unfolding session_frame_def by (elim conjE exE, intro conjI) (fastforce, simp_all)

lemma quiet_trans: "quiet fd a b \<Longrightarrow> quiet fd b c \<Longrightarrow> quiet fd a c"
  using session_frame_trans by (auto simp: quiet_def same_numbers_def)

lemma conn_update_ports: "map fst (ses_ports (conn_update fd f s)) = map fst (ses_ports s)"
  by (auto simp: conn_update_def)

lemma conn_find_other [simp]:
  "conn_find k (s\<lparr>ses_wcaches := w\<rparr>) = conn_find k s" "conn_find k (s\<lparr>ses_infos := i\<rparr>) = conn_find k s"
  "conn_find k (s\<lparr>ses_expcmdsn_gen := g\<rparr>) = conn_find k s" "conn_find k (s\<lparr>ses_maxcmdsn_gen := g\<rparr>) = conn_find k s"
  by (simp_all add: conn_find_def)

lemma conn_update_frame [simp]:
  "ses_type (conn_update fd f s) = ses_type s" "ses_sid (conn_update fd f s) = ses_sid s"
  "ses_tsih (conn_update fd f s) = ses_tsih s" "ses_tag (conn_update fd f s) = ses_tag s"
  "ses_attrs (conn_update fd f s) = ses_attrs s" "ses_protos (conn_update fd f s) = ses_protos s"
  "ses_initiator (conn_update fd f s) = ses_initiator s" "ses_tokens (conn_update fd f s) = ses_tokens s"
  "ses_mrds_length (conn_update fd f s) = ses_mrds_length s"
  "ses_expcmdsn_gen (conn_update fd f s) = ses_expcmdsn_gen s"
  "ses_maxcmdsn_gen (conn_update fd f s) = ses_maxcmdsn_gen s"
  by (simp_all add: conn_update_def)

lemma quiet_steps [intro]:
  "quiet fd s (conn_update fd f s)" "data_task fd u \<Longrightarrow> quiet fd s (sendtask_push u s)"
  "quiet fd s (cache_push lb ub lun ws s)"
  "quiet fd s (snd (recvinfo_put itt i s))" "quiet fd s (snd (recvinfo_pop itt s))" "quiet fd s (set_info itt i s)"
  "\<forall>u \<in> set ts. data_task fd u \<Longrightarrow> quiet fd s (s\<lparr>ses_tasks := ses_tasks s @ ts\<rparr>)"
  by (auto simp: quiet_def session_frame_def same_numbers_def conn_find_update conn_update_ports
      sendtask_push_def cache_push_def recvinfo_put_def recvinfo_pop_def set_info_def split: option.splits)

lemma quiet_reply [simp, intro]: "quiet fd s (sendtask_push (TSend fd x) (conn_update fd f s))"
  by (rule quiet_trans [OF quiet_steps(1) quiet_steps(2)]) simp

lemma send_good_quiet: "send_good mem fd itt s = Some s' \<Longrightarrow> quiet fd s s'"
  by (auto simp: send_good_def Let_def split: option.splits)

lemma info_handle_quiet: "info_handle mem v st body t fd s = Some (ok, s') \<Longrightarrow> quiet fd s s'"
  by (auto simp: info_handle_def Let_def split: if_splits option.splits prod.splits intro: quiet_trans)

lemma DummyHandler_quiet: "DummyHandler_handle mem t fd s = Some (ok, s') \<Longrightarrow> quiet fd s s'"
  by (auto simp: DummyHandler_handle_def Let_def split: if_splits option.splits intro: quiet_trans)

lemma info_handlers_quiet:
  "ReportLUNSHandler_handle mem t fd s = Some (ok, s') \<Longrightarrow> quiet fd s s'"
  "InquiryHandler_handle mem junk t fd s = Some (ok, s') \<Longrightarrow> quiet fd s s'"
  "ReadCapacityHandler_handle mem t fd s = Some (ok, s') \<Longrightarrow> quiet fd s s'"
  "ReadCapacity16Handler_handle mem junk t fd s = Some (ok, s') \<Longrightarrow> quiet fd s s'"
  "ModeSenseHandler_handle mem t fd s = Some (ok, s') \<Longrightarrow> quiet fd s s'"
  "MaintenanceInHandler_handle mem junk t fd s = Some (ok, s') \<Longrightarrow> quiet fd s s'"
  unfolding ReportLUNSHandler_handle_def InquiryHandler_handle_def ReadCapacityHandler_handle_def
    ReadCapacity16Handler_handle_def ModeSenseHandler_handle_def MaintenanceInHandler_handle_def Let_def
  by (erule info_handle_quiet)+

text \<open>The two loops of READ only append.\<close>

lemma read_miss_appends:
  assumes "read_miss mem fd lv mrds reply lba n ts = Some ts'"
  shows "\<exists>us. ts' = ts @ us \<and> (\<forall>u \<in> set us. data_task fd u)"
proof (rule read_miss.raw_induct [where P = "\<lambda>mem fd lv mrds reply lba n ts y.
      \<exists>us. y = ts @ us \<and> (\<forall>u \<in> set us. data_task fd u)", OF _ assms])
  fix f mem fd lv mrds reply lba n ts y
  assume ih: "\<And>mem fd lv mrds reply lba n ts y. f mem fd lv mrds reply lba n ts = Some y \<Longrightarrow>
      \<exists>us. y = ts @ us \<and> (\<forall>u \<in> set us. data_task fd u)"
    and eq: "(let (len, reply1, n1) = read_round mrds n reply; (b, reply2) = dig_serialize reply1
      in if n1 = 0 then Some (ts @ [TSend fd (SendTask b), item_task fd lv (FromFile lba len)])
         else let (reply3, b') = read_next mem len reply2
              in f mem fd lv mrds reply3 (lba + len) (n1 - len)
                   (ts @ [TSend fd ((SendTask b)\<lparr>st_cbufs := [b']\<rparr>), item_task fd lv (FromFile lba len)])) = Some y"
  from eq show "\<exists>us. y = ts @ us \<and> (\<forall>u \<in> set us. data_task fd u)"
    by (auto simp: Let_def split: prod.splits if_splits dest!: ih)
qed

lemma read_hit_appends:
  assumes "read_hit mem fd lv cache mrds reply lba n ts = Some r"
  shows "\<exists>us. snd r = ts @ us \<and> (\<forall>u \<in> set us. data_task fd u)"
proof (rule read_hit.raw_induct [where P = "\<lambda>mem fd lv cache mrds reply lba n ts y.
      \<exists>us. snd y = ts @ us \<and> (\<forall>u \<in> set us. data_task fd u)", OF _ assms])
  fix f mem fd lv cache mrds reply lba n ts y
  assume ih: "\<And>mem fd lv cache mrds reply lba n ts y.
      f mem fd lv cache mrds reply lba n ts = Some y \<Longrightarrow> \<exists>us. snd y = ts @ us \<and> (\<forall>u \<in> set us. data_task fd u)"
    and eq: "(let (len, reply1, n1) = read_round mrds n reply; (b, reply2) = dig_serialize reply1;
        hits = getHitSegments cache lba len
      in if hits = [] then Some (False, ts @ [TSend fd (SendTask b)])
         else let (items, lba') = sendCache hits lba len
              in if n1 = 0 then Some (True, ts @ TSend fd (SendTask b) # map (item_task fd lv) items)
                 else let (reply3, b') = read_next mem len reply2
                      in f mem fd lv cache mrds reply3 lba' (n1 - len)
                           (ts @ TSend fd ((SendTask b)\<lparr>st_cbufs := [b']\<rparr>) # map (item_task fd lv) items)) = Some y"
  from eq show "\<exists>us. snd y = ts @ us \<and> (\<forall>u \<in> set us. data_task fd u)"
    by (auto simp: Let_def split: prod.splits if_splits dest!: ih)
qed

lemma quiet_appended [simp]:
  "\<forall>u \<in> set us. data_task fd u \<Longrightarrow> quiet fd s (conn_update fd f s\<lparr>ses_tasks := ses_tasks s @ TCPCork fd # us\<rparr>)"
  by (auto simp: quiet_def session_frame_def same_numbers_def conn_find_update conn_update_ports)

lemma quiet_appended_uncork [simp]:
  "\<forall>u \<in> set us. data_task fd u \<Longrightarrow>
     quiet fd s (conn_update fd f s\<lparr>ses_tasks := ses_tasks s @ TCPCork fd # us @ [TCPUncork fd]\<rparr>)"
  using quiet_appended [of "us @ [TCPUncork fd]" fd s f] by simp

lemma ReadHandler_quiet:
  "ReadHandler_handle lb mem hp t fd s = Some (ok, s') \<Longrightarrow> quiet fd s s'"
  by (auto simp: ReadHandler_handle_def Let_def split: if_splits option.splits
      dest!: read_miss_appends read_hit_appends)

lemma WriteHandler_quiet:
  assumes "WriteHandler_handle lb ub mem hp t fd s = Some (ok, s')"
  shows "quiet fd s s'"
proof -
  let ?itt = "getITT (token_header t)"
  have "\<exists>s1. (s1 = s \<or> (\<exists>lun ws. s1 = cache_push lb ub lun ws s)) \<and>
      (s' = s1 \<or> send_good mem fd ?itt s1 = Some s' \<or>
       (\<exists>x i. s' = snd (recvinfo_put ?itt i (sendtask_push (TSend fd x) s1))) \<or>
       (\<exists>i. s' = snd (recvinfo_put ?itt i s1)))"
    using assms
    by (auto simp: WriteHandler_handle_def Let_def split: if_splits option.splits prod.splits)
  then obtain s1 where "s1 = s \<or> (\<exists>lun ws. s1 = cache_push lb ub lun ws s)"
    and r: "s' = s1 \<or> send_good mem fd ?itt s1 = Some s' \<or>
      (\<exists>x i. s' = snd (recvinfo_put ?itt i (sendtask_push (TSend fd x) s1))) \<or>
      (\<exists>i. s' = snd (recvinfo_put ?itt i s1))"
    by blast
  then have "quiet fd s s1" by (metis quiet_refl quiet_steps(3))
  moreover from r have "quiet fd s1 s'"
    using send_good_quiet quiet_trans [OF quiet_steps(2) quiet_steps(4), OF data_task_simps(1) [THEN iffD2, OF refl]]
    by (metis quiet_refl quiet_steps(4))
  ultimately show ?thesis by (rule quiet_trans)
qed

lemma scsi_handle_quiet: "scsi_handle h hp c t fd s = Some (ok, s') \<Longrightarrow> quiet fd s s'"
  by (auto simp: scsi_handle_def split: scsi_handler.splits
      intro: info_handlers_quiet ReadHandler_quiet WriteHandler_quiet DummyHandler_quiet)

text \<open>Counting a command changes nothing but the two command numbers.\<close>

lemma count_command_frame:
  assumes "count_command t bp s = Some (bp', s')"
  shows "session_frame fd s s' \<and>
    getEXPCMDSN s' = getEXPCMDSN s + (if isImmediateCmd (token_header t) then 0 else 1)"
proof -
  have "advanceCMDSNs l p s = Some (s1, st, w) \<Longrightarrow>
      \<exists>m. s1 = s\<lparr>ses_expcmdsn_gen := snd (seq_call (ses_expcmdsn_gen s)), ses_maxcmdsn_gen := m\<rparr>" for l p s1 st w
    by (auto simp: advanceCMDSNs_def Let_def split: option.splits if_splits)
  with assms show ?thesis
    by (fastforce simp: count_command_def session_frame_def getEXPCMDSN_def split: if_splits option.splits)
qed

lemma CommandHandler_frame:
  assumes "CommandHandler_handle h hp t fd bp s = Some (ok, bp', s')"
  shows "session_frame fd s s' \<and>
    getEXPCMDSN s' = getEXPCMDSN s + (if cmd_valid t \<and> \<not> isImmediateCmd (token_header t) then 1 else 0)"
proof (cases "cmd_valid t")
  case False
  then show ?thesis using assms by (auto simp: CommandHandler_handle_def)
next
  case True
  with assms obtain bp1 s1 where c: "count_command t bp s = Some (bp1, s1)"
    and r: "s' = s1 \<or> (\<exists>c. scsi_handle h hp c t fd s1 = Some (ok, s'))"
    by (fastforce simp: CommandHandler_handle_def split: option.splits)
  have "quiet fd s1 s'" using r scsi_handle_quiet by auto
  then have "session_frame fd s1 s'" "getEXPCMDSN s' = getEXPCMDSN s1"
    by (auto simp: quiet_def same_numbers_def getEXPCMDSN_def)
  with count_command_frame [OF c, of fd] True show ?thesis by (auto intro: session_frame_trans)
qed

text \<open>C30. A SCSI command, accepted or refused, works on its own connection only: it appends to the send
  queue and takes nothing away, leaves the other connections, the negotiated parameters, the table
  of handlers and the number of write caches alone, and counts exactly one command number, or none
  if it is immediate.\<close>

theorem command_frame:
  assumes "CommandHandler_handle h hp t fd bp s = Some (ok, bp', s')"
  shows "session_frame fd s s' \<and>
    getEXPCMDSN s' = getEXPCMDSN s + (if cmd_valid t \<and> \<not> isImmediateCmd (token_header t) then 1 else 0)"
  by (rule CommandHandler_frame [OF assms])

theorem command_frame_witness:
  "\<exists>bp' s'. CommandHandler_handle \<lparr>h_lb = \<lambda>_ _. 0, h_ub = \<lambda>_ _. 0, h_mem = \<lambda>_. 0, h_junk = \<lambda>_. 0\<rparr>
        \<lparr>hp_mrds = 0, hp_firstBurstLength = 0, hp_maxBurstLength = 0, hp_immediateEnabled = False, hp_initialR2T = False\<rparr>
        (cmd_token 0 (replicate 16 0)) 3
        \<lparr>bp_limitter = LinearLimitter 100 1000, bp_num = 10, bp_state = POOL_STATE_SOFT\<rparr>
        ex_session = Some (True, bp', s') \<and> getEXPCMDSN s' = getEXPCMDSN ex_session + 1"
proof -
  let ?t = "cmd_token 0 (replicate 16 0)"
  let ?bp = "\<lparr>bp_limitter = LinearLimitter 100 1000, bp_num = 10, bp_state = POOL_STATE_SOFT\<rparr>"
  let ?h = "\<lparr>h_lb = \<lambda>_ _. 0, h_ub = \<lambda>_ _. 0, h_mem = \<lambda>_. 0, h_junk = \<lambda>_. 0\<rparr>"
  let ?hp = "\<lparr>hp_mrds = 0, hp_firstBurstLength = 0, hp_maxBurstLength = 0, hp_immediateEnabled = False, hp_initialR2T = False\<rparr>"
  let ?e = "snd (seq_call (ses_expcmdsn_gen ex_session))"
  have t: "cmd_valid ?t" "\<not> isImmediateCmd (token_header ?t)" "isFinal (token_header ?t)" "cmd_getCDBOpCode ?t = 0"
    by code_simp+
  have c: "commands 0 = Some DummyHandler" by code_simp
  from adv_loop_returns [of 143 ?e "ses_maxcmdsn_gen ex_session"] obtain m where
    m: "adv_loop 143 ?e (ses_maxcmdsn_gen ex_session) = Some m" by auto
  let ?s1 = "ex_session\<lparr>ses_expcmdsn_gen := ?e, ses_maxcmdsn_gen := m\<rparr>"
  have ty: "ses_type ex_session \<noteq> iSCSI_DISCOVERY_SESSION"
    by (simp add: ex_session_def iSCSISession_def session_type_defs)
  have y: "lim_getY (LinearLimitter 100 1000) 10 = Some 143" "\<not> lim_x2 (LinearLimitter 100 1000) < 10"
    "\<not> lim_x1 (LinearLimitter 100 1000) < 10"
    by (simp_all add: lim_getY_def LinearLimitter_def CMD_QUEUE_SIZE_def)
  have "count_command ?t ?bp ex_session = Some (?bp\<lparr>bp_state := POOL_STATE_NORMAL\<rparr>, ?s1)"
    using t(2) ty y m by (simp add: count_command_def advanceCMDSNs_def Let_def)
  moreover have "conn_find 3 ?s1 = Some iSCSIConnection" using ex_conn by (simp add: conn_find_def)
  ultimately have "\<exists>bp' s'. CommandHandler_handle ?h ?hp ?t 3 ?bp ex_session = Some (True, bp', s')"
    using t(1,3,4) c by (simp add: CommandHandler_handle_def scsi_handle_def DummyHandler_handle_def Let_def)
  then obtain bp' s' where r: "CommandHandler_handle ?h ?hp ?t 3 ?bp ex_session = Some (True, bp', s')" by blast
  have "getEXPCMDSN s' = getEXPCMDSN ex_session + 1" using command_frame [OF r] t(1,2) by simp
  with r show ?thesis by blast
qed

end
