(* ===== verification/Manager.thy ===== *)
theory Manager
  imports Command_Frame
begin

text \<open>
  The objects that the threads share: the manager of \<^verbatim>\<open>include/manager.h\<close> and
  \<^verbatim>\<open>src/manager.cpp\<close> with its sessions and reactors, the reactor of \<^verbatim>\<open>src/reactor.cpp\<close>, the
  tasks of \<^verbatim>\<open>src/task.cpp\<close> that change them, the acceptor of \<^verbatim>\<open>src/acceptor.cpp\<close> and the
  clean-up of a session in \<^verbatim>\<open>src/session.cpp\<close>. Objects are shared by pointer, so sessions live in
  a store and everything else holds references. The destruction of an object to which no
  reference is left is not modelled: the store only grows.
\<close>

section \<open>The shared state\<close>

text \<open>The loop that waits for a socket: the one of the main thread, or that of a reactor.\<close>

datatype listener = MainListener | ReactorListener nat

record reactor =
  rc_id :: nat
  rc_session :: nat
  rc_stop :: bool

record world =
  w_heap :: "nat \<Rightarrow> iscsi_session"
  w_next :: nat
  w_sessions :: "(int \<times> nat) list"
  w_reactors :: "reactor list"
  w_nextReactor :: nat
  w_tsih_gen :: u32
  w_polls :: "int \<Rightarrow> listener option"
  w_pool :: buffer_pool

text \<open>Errors that leave a handler or task: a null pointer is used, an exception that nobody but \<^verbatim>\<open>main\<close>
  catches, memory outside a buffer is accessed, a loop does not end. \<open>Broken\<close> stands for the \<open>None\<close> of
  the handlers in the theories before, which do not tell a null pointer from an endless loop.\<close>

datatype abort = NullPointer | UncaughtException | OutOfBounds | NoReturn | Broken

type_synonym 'a exec = "abort + 'a"

fun exec_bind :: "'a exec \<Rightarrow> ('a \<Rightarrow> 'b exec) \<Rightarrow> 'b exec" where
  "exec_bind (Inl e) f = Inl e"
| "exec_bind (Inr a) f = f a"

definition deref :: "'a option \<Rightarrow> 'a exec" where
  "deref p = (case p of None \<Rightarrow> Inl NullPointer | Some a \<Rightarrow> Inr a)"

lemma exec_bind_Inr: "exec_bind m f = Inr b \<longleftrightarrow> (\<exists>a. m = Inr a \<and> f a = Inr b)"
  by (cases m) auto

lemma deref_simps [simp]: "deref None = Inl NullPointer" "deref (Some a) = Inr a"
  by (simp_all add: deref_def)

lemma deref_Inr [simp]: "deref p = Inr a \<longleftrightarrow> p = Some a"
  by (cases p) auto

definition ses_update :: "nat \<Rightarrow> (iscsi_session \<Rightarrow> iscsi_session) \<Rightarrow> world \<Rightarrow> world" where
  "ses_update r f w = w\<lparr>w_heap := (w_heap w)(r := f (w_heap w r))\<rparr>"

text \<open>A connection object belongs to one socket; the tables that hold it share it.\<close>

definition w_conn_update :: "int \<Rightarrow> (iscsi_connection \<Rightarrow> iscsi_connection) \<Rightarrow> world \<Rightarrow> world" where
  "w_conn_update fd f w = w\<lparr>w_heap := (\<lambda>r. conn_update fd f (w_heap w r))\<rparr>"

definition initial_world :: "buffer_pool \<Rightarrow> world" where
  "initial_world bp =
     \<lparr>w_heap = (\<lambda>_. iSCSISession (\<lambda>_. 0) (\<lambda>_. False)), w_next = 0, w_sessions = [], w_reactors = [],
      w_nextReactor = 0, w_tsih_gen = 1, w_polls = (\<lambda>_. None), w_pool = bp\<rparr>"

section \<open>The manager\<close>

text \<open>The session table is ordered by socket. A session is added under the socket of its only
  connection.\<close>

definition addSession :: "nat \<Rightarrow> world \<Rightarrow> bool \<times> world" where
  "addSession r w =
     (case ses_ports (w_heap w r) of
        [(fd, conn)] \<Rightarrow>
          (case map_of (w_sessions w) fd of
             Some _ \<Rightarrow> (False, w)
           | None \<Rightarrow> (True, w\<lparr>w_sessions := port_insert fd r (w_sessions w)\<rparr>))
      | _ \<Rightarrow> (False, w))"

definition delSession :: "nat \<Rightarrow> world \<Rightarrow> bool \<times> world" where
  "delSession r w =
     (case find (\<lambda>p. snd p = r) (w_sessions w) of
        None \<Rightarrow> (False, w)
      | Some p \<Rightarrow> (True, w\<lparr>w_sessions := remove1 p (w_sessions w)\<rparr>))"

definition findSession :: "nat \<Rightarrow> world \<Rightarrow> nat option" where
  "findSession r w = map_option snd (find (\<lambda>p. snd p = r) (w_sessions w))"

definition findSession_sid :: "session_id \<Rightarrow> world \<Rightarrow> nat option" where
  "findSession_sid sid w =
     map_option snd (find (\<lambda>p. sid_eq (ses_sid (w_heap w (snd p))) sid) (w_sessions w))"

definition getSessionID :: "world \<Rightarrow> reactor \<Rightarrow> session_id" where
  "getSessionID w rc = ses_sid (w_heap w (rc_session rc))"

text \<open>\<^verbatim>\<open>addReactor\<close> also starts the reactor's thread.\<close>

definition addReactor :: "reactor \<Rightarrow> world \<Rightarrow> bool \<times> world" where
  "addReactor rc w =
     (if find (\<lambda>tmp. sid_eq (getSessionID w tmp) (getSessionID w rc)) (w_reactors w) \<noteq> None
      then (False, w) else (True, w\<lparr>w_reactors := rc # w_reactors w\<rparr>))"

definition delReactor :: "nat \<Rightarrow> world \<Rightarrow> bool \<times> world" where
  "delReactor key w =
     (find (\<lambda>rc. rc_id rc = key) (w_reactors w) \<noteq> None,
      w\<lparr>w_reactors := filter (\<lambda>rc. rc_id rc \<noteq> key) (w_reactors w)\<rparr>)"

definition findReactor :: "session_id \<Rightarrow> world \<Rightarrow> reactor option" where
  "findReactor sid w = find (\<lambda>tmp. sid_eq (getSessionID w tmp) sid) (w_reactors w)"

text \<open>\<^verbatim>\<open>IncrementalCounter<uint32_t,1,ULONG_MAX>\<close>.\<close>

definition getNextTSIH :: "world \<Rightarrow> u32 \<times> world" where
  "getNextTSIH w =
     (let (v, c) = incremental_counter 1 ULONG_MAX_as_u32 (w_tsih_gen w) in (v, w\<lparr>w_tsih_gen := c\<rparr>))"

section \<open>Reactors and listeners\<close>

text \<open>\<^verbatim>\<open>mayStop\<close> only sets the flag that the loop tests.\<close>

definition reactor_mayStop :: "nat \<Rightarrow> world \<Rightarrow> world" where
  "reactor_mayStop i w =
     w\<lparr>w_reactors := map (\<lambda>rc. if rc_id rc = i then rc\<lparr>rc_stop := True\<rparr> else rc) (w_reactors w)\<rparr>"

definition changeListener :: "int \<Rightarrow> nat \<Rightarrow> world \<Rightarrow> world" where
  "changeListener fd i w = w\<lparr>w_polls := (w_polls w)(fd \<mapsto> ReactorListener i)\<rparr>"

definition clearListener :: "int \<Rightarrow> world \<Rightarrow> world" where
  "clearListener fd w = w\<lparr>w_polls := (w_polls w)(fd := None)\<rparr>"

definition conn_clearListener :: "nat \<Rightarrow> world \<Rightarrow> world" where
  "conn_clearListener r w = fold clearListener (map fst (ses_ports (w_heap w r))) w"

text \<open>The end of the reactor's thread, from the moment the loop has left: \<^verbatim>\<open>clearListener\<close> of all
  connections and \<^verbatim>\<open>delReactor\<close>.\<close>

definition reactor_end :: "reactor \<Rightarrow> world \<Rightarrow> world" where
  "reactor_end rc w = snd (delReactor (rc_id rc) (conn_clearListener (rc_session rc) w))"

section \<open>Tasks on sessions\<close>

definition run_CloseSession :: "nat \<Rightarrow> world \<Rightarrow> (bool \<times> world) exec" where
  "run_CloseSession r w = Inr (True, snd (delSession r w))"

definition run_CloseConnection :: "nat \<Rightarrow> int \<Rightarrow> world \<Rightarrow> (bool \<times> world) exec" where
  "run_CloseConnection r fd w = Inr (True, ses_update r (\<lambda>s. snd (conn_del fd s)) w)"

definition run_CreateReactor :: "nat \<Rightarrow> int \<Rightarrow> world \<Rightarrow> (bool \<times> world) exec" where
  "run_CreateReactor r fd w =
     (let w1 = snd (delSession r w);
          rc = \<lparr>rc_id = w_nextReactor w1, rc_session = r, rc_stop = False\<rparr>;
          w2 = w1\<lparr>w_nextReactor := Suc (w_nextReactor w1)\<rparr>
      in exec_bind (deref (conn_find fd (w_heap w2 r)))
           (\<lambda>conn. Inr (addReactor rc (changeListener fd (rc_id rc) w2))))"

definition run_RemoveReactor :: "nat \<Rightarrow> world \<Rightarrow> (bool \<times> world) exec" where
  "run_RemoveReactor r w =
     exec_bind (deref (findReactor (ses_sid (w_heap w r)) w))
       (\<lambda>rc. Inr (True, reactor_mayStop (rc_id rc) w))"

section \<open>Accepting and dropping a connection\<close>

text \<open>\<^verbatim>\<open>iSCSIAcceptor::accept\<close> for the accepted socket \<open>fd\<close>; the session is built from the configuration.\<close>

definition accept :: "(string \<Rightarrow> u64) \<Rightarrow> (string \<Rightarrow> bool) \<Rightarrow> int \<Rightarrow> world \<Rightarrow> bool \<times> world" where
  "accept num flag fd w =
     (let r = w_next w;
          s = snd (conn_add fd iSCSIConnection (iSCSISession num flag));
          w1 = w\<lparr>w_heap := (w_heap w)(r := s), w_next := Suc r,
                 w_polls := (w_polls w)(fd \<mapsto> MainListener)\<rparr>
      in addSession r w1)"

definition cleanUp :: "nat \<Rightarrow> int \<Rightarrow> world \<Rightarrow> world" where
  "cleanUp r fd w =
     (if conn_count (w_heap w r) \<le> 1
      then let (ok, w1) = delSession r w
           in if ok then w1
              else (case findReactor (ses_sid (w_heap w r)) w1 of
                      None \<Rightarrow> w1
                    | Some rc \<Rightarrow> reactor_mayStop (rc_id rc) w1)
      else ses_update r (\<lambda>s. snd (conn_del fd s)) w)"

end
