(* ===== verification/KeyValue.thy ===== *)
theory KeyValue
  imports Manager
begin

text \<open>
  The text keys of login and text requests: the validators and handlers of
  \<^verbatim>\<open>include/iscsi/keyvalue.h\<close> and \<^verbatim>\<open>src/iscsi/keyvalue.cpp\<close> and the range validators of
  \<^verbatim>\<open>include/validator.h\<close>. What the code asks libraries and the configuration is a parameter, a
  record of functions; the properties name what they rely on as hypotheses.
\<close>

section \<open>What the handlers ask for\<close>

text \<open>\<open>env_regex\<close> is \<^verbatim>\<open>boost::regex_search\<close> with the expression \<^verbatim>\<open>(.*)=(.*)\<close> and gives its two groups;
  \<open>env_cast\<close> and \<open>env_cast32\<close> are \<^verbatim>\<open>boost::lexical_cast\<close> to \<^verbatim>\<open>size_t\<close> and \<^verbatim>\<open>uint32_t\<close>, \<open>None\<close> when it
  throws; \<open>env_show\<close> is \<^verbatim>\<open>lexical_cast<string>\<close> of a number. The configuration answers \<open>env_config\<close>
  (string attributes), \<open>env_initiator\<close> (is the initiator listed) and \<open>env_newInitiator\<close> (the object
  its constructor builds, \<open>None\<close> when it throws); \<open>env_ports\<close> are the configured target addresses,
  \<open>env_isAnyAddr\<close> tests for the wildcard address, and \<open>env_nics\<close> gives the addresses of the host for the
  family and port of a target address, each with its loopback flag and its printed form.
  \<open>env_junk\<close> is an uninitialised variable, \<open>env_mem\<close> a fresh buffer.\<close>

record environment =
  env_regex :: "string \<Rightarrow> (string \<times> string) option"
  env_cast :: "string \<Rightarrow> nat option"
  env_cast32 :: "string \<Rightarrow> u32 option"
  env_show :: "nat \<Rightarrow> string"
  env_config :: "string \<Rightarrow> string option"
  env_initiator :: "string \<Rightarrow> bool"
  env_newInitiator :: "string \<Rightarrow> iscsi_initiator option"
  env_ports :: "string list"
  env_isAnyAddr :: "string \<Rightarrow> bool"
  env_nics :: "string \<Rightarrow> (bool \<times> string option) list option"
  env_junk :: u32
  env_mem :: "nat \<Rightarrow> u8"

section \<open>The data segment of a text response\<close>

text \<open>The part that \<^verbatim>\<open>LoginGenerator\<close> and \<^verbatim>\<open>TextGenerator\<close> share: the memory behind the header, the
  tail of the buffer and \<^verbatim>\<open>total_dlength\<close>. The capacity is not tested, so the \<^verbatim>\<open>memcpy\<close> can leave the
  allocated 512 bytes behind the buffer's size.\<close>

record kv_data =
  kv_mem :: "nat \<Rightarrow> u8"
  kv_tail :: nat
  kv_total :: u32

definition COMMON_ALLOC_SIZE :: nat where
  "COMMON_ALLOC_SIZE = COMMON_BUF_SIZE + 512"

definition new_kv_data :: "(nat \<Rightarrow> u8) \<Rightarrow> kv_data" where
  "new_kv_data mem = \<lparr>kv_mem = mem, kv_tail = 48, kv_total = 0\<rparr>"

definition kv_step :: "nat \<Rightarrow> nat \<Rightarrow> nat" where
  "kv_step tail n = (if COMMON_BUF_SIZE < tail + n then tail else tail + n)"

definition addKeyValue :: "string \<Rightarrow> string \<Rightarrow> kv_data \<Rightarrow> kv_data exec" where
  "addKeyValue key value g =
     (let pair = key @ CHR ''='' # value; bs = chars pair @ [0]; at = kv_tail g - 48
      in if COMMON_ALLOC_SIZE < kv_tail g + length bs then Inl OutOfBounds
         else Inr \<lparr>kv_mem = (\<lambda>i. if at \<le> i \<and> i < at + length bs then bs ! (i - at) else kv_mem g i),
                   kv_tail = kv_step (kv_tail g) (length bs),
                   kv_total = kv_total g + of_nat (length bs)\<rparr>)"

text \<open>The padding of \<^verbatim>\<open>serialize\<close>.\<close>

definition kv_pad :: "kv_data \<Rightarrow> kv_data" where
  "kv_pad g = (if unat (kv_total g) mod PAD_WORD_LEN \<noteq> 0
     then g\<lparr>kv_tail := kv_step (kv_tail g) (PAD_WORD_LEN - unat (kv_total g) mod PAD_WORD_LEN)\<rparr> else g)"

section \<open>Validators\<close>

definition VALUE_MAXLEN :: nat where "VALUE_MAXLEN = 255"

datatype pair_validator =
  AlwaysTrueValidator | InitiatorNameValidator | AuthMethodValidator | SessionTypeValidator
| TargetNameValidator | DigestValidator | BoolStringValidator | RangeCastValidator nat nat
| SendTargetsValidator

text \<open>\<^verbatim>\<open>strncasecmp\<close> in the C locale, as a test for equality.\<close>

definition to_lower :: "char \<Rightarrow> char" where
  "to_lower c = (if 65 \<le> (of_char c :: nat) \<and> (of_char c :: nat) \<le> 90
     then char_of ((of_char c :: nat) + 32) else c)"

definition strncasecmp_eq :: "string \<Rightarrow> string \<Rightarrow> nat \<Rightarrow> bool" where
  "strncasecmp_eq a b n \<longleftrightarrow> map to_lower (take n a) = map to_lower (take n b)"

definition TargetName_valid :: "environment \<Rightarrow> string \<Rightarrow> bool" where
  "TargetName_valid env value \<longleftrightarrow>
     length value \<le> VALUE_MAXLEN \<and>
     strncasecmp_eq value (case env_config env ''GlobalTargetName'' of None \<Rightarrow> [] | Some n \<Rightarrow> n) (length value)"

definition RangeCast_valid :: "environment \<Rightarrow> nat \<Rightarrow> nat \<Rightarrow> string \<Rightarrow> bool exec" where
  "RangeCast_valid env mn mx challenge =
     (case env_cast env challenge of
        None \<Rightarrow> Inl UncaughtException
      | Some len \<Rightarrow> Inr (mn \<le> len \<and> len \<le> mx))"

definition AlwaysTrue_valid :: "string \<Rightarrow> bool" where
  "AlwaysTrue_valid value \<longleftrightarrow> length value \<le> VALUE_MAXLEN"

definition InitiatorName_valid :: "environment \<Rightarrow> string \<Rightarrow> bool" where
  "InitiatorName_valid env value \<longleftrightarrow> length value \<le> VALUE_MAXLEN \<and> env_initiator env value"

definition AuthMethod_valid :: "string \<Rightarrow> bool" where
  "AuthMethod_valid value \<longleftrightarrow> length value \<le> VALUE_MAXLEN \<and> (value = ''None'' \<or> value = ''CHAP,None'')"

definition SessionType_valid :: "string \<Rightarrow> bool" where
  "SessionType_valid value \<longleftrightarrow> length value \<le> VALUE_MAXLEN \<and> (value = ''Discovery'' \<or> value = ''Normal'')"

definition Digest_valid :: "string \<Rightarrow> bool" where
  "Digest_valid value \<longleftrightarrow> length value \<le> VALUE_MAXLEN \<and>
     (value = ''None'' \<or> value = ''None,CRC32C'' \<or> value = ''CRC32C,None'')"

definition BoolString_valid :: "string \<Rightarrow> bool" where
  "BoolString_valid value \<longleftrightarrow> length value \<le> VALUE_MAXLEN \<and> (value = ''No'' \<or> value = ''Yes'')"

definition SendTargets_valid :: "string \<Rightarrow> bool" where
  "SendTargets_valid value \<longleftrightarrow> length value \<le> VALUE_MAXLEN \<and> value = ''All''"

lemmas validator_defs [simp] = AlwaysTrue_valid_def InitiatorName_valid_def AuthMethod_valid_def
  SessionType_valid_def Digest_valid_def BoolString_valid_def SendTargets_valid_def

definition pair_valid :: "environment \<Rightarrow> pair_validator \<Rightarrow> string \<Rightarrow> bool exec" where
  "pair_valid env v value =
     (case v of
        AlwaysTrueValidator \<Rightarrow> Inr (AlwaysTrue_valid value)
      | InitiatorNameValidator \<Rightarrow> Inr (InitiatorName_valid env value)
      | AuthMethodValidator \<Rightarrow> Inr (AuthMethod_valid value)
      | SessionTypeValidator \<Rightarrow> Inr (SessionType_valid value)
      | TargetNameValidator \<Rightarrow> Inr (TargetName_valid env value)
      | DigestValidator \<Rightarrow> Inr (Digest_valid value)
      | BoolStringValidator \<Rightarrow> Inr (BoolString_valid value)
      | RangeCastValidator mn mx \<Rightarrow> RangeCast_valid env mn mx value
      | SendTargetsValidator \<Rightarrow> Inr (SendTargets_valid value))"

section \<open>Handlers of login keys\<close>

datatype pair_handler =
  InitiatorNameHandler | InitiatorAliasHandler | AuthMethodHandler | NothingTodoHandler
| TargetAliasHandler | DigestHandler string | MaxRecvDataSegmentLengthHandler
| NegotiateMaxHandler string | NegotiateMinHandler string | NormalMinHandler string
| NormalOrHandler string | NormalAndHandler string | NegotiateAndHandler string

type_synonym pair_result = "(bool \<times> iscsi_session \<times> kv_data) exec"

text \<open>\<^verbatim>\<open>value.find(pat) != value.npos\<close>.\<close>

fun contains :: "string \<Rightarrow> string \<Rightarrow> bool" where
  "contains pat [] \<longleftrightarrow> pat = []"
| "contains pat (c # cs) \<longleftrightarrow> take (length pat) (c # cs) = pat \<or> contains pat cs"

text \<open>\<^verbatim>\<open>getAttr<T>\<close>: a missing attribute leaves the variable alone, one of the other type makes
  \<^verbatim>\<open>boost::get\<close> throw.\<close>

definition getAttr_num :: "string \<Rightarrow> u32 \<Rightarrow> iscsi_session \<Rightarrow> (bool \<times> u32) exec" where
  "getAttr_num a v s =
     (case getAttr a s of
        None \<Rightarrow> Inr (False, v)
      | Some (AttrNum n) \<Rightarrow> Inr (True, n)
      | Some (AttrBool _) \<Rightarrow> Inl UncaughtException)"

definition getAttr_bool :: "string \<Rightarrow> bool \<Rightarrow> iscsi_session \<Rightarrow> (bool \<times> bool) exec" where
  "getAttr_bool a v s =
     (case getAttr a s of
        None \<Rightarrow> Inr (False, v)
      | Some (AttrBool b) \<Rightarrow> Inr (True, b)
      | Some (AttrNum _) \<Rightarrow> Inl UncaughtException)"

definition cast32 :: "environment \<Rightarrow> string \<Rightarrow> u32 exec" where
  "cast32 env value = (case env_cast32 env value of None \<Rightarrow> Inl UncaughtException | Some n \<Rightarrow> Inr n)"

text \<open>The body that the numeric negotiations share; \<open>init\<close> is the value of the variable before
  \<^verbatim>\<open>getAttr\<close>, \<open>f\<close> is \<^verbatim>\<open>min\<close> or \<^verbatim>\<open>max\<close>.\<close>

definition negotiate_num ::
  "(u32 \<Rightarrow> u32 \<Rightarrow> u32) \<Rightarrow> u32 \<Rightarrow> environment \<Rightarrow> string \<Rightarrow> string \<Rightarrow> iscsi_session \<Rightarrow> kv_data \<Rightarrow> pair_result" where
  "negotiate_num f init env attr value s g =
     exec_bind (getAttr_num attr init s) (\<lambda>(_, old).
     exec_bind (cast32 env value) (\<lambda>offered.
       let negotiated = f old offered
       in exec_bind (addKeyValue attr (env_show env (unat negotiated)) g)
            (\<lambda>g1. Inr (True, setAttr attr (AttrNum negotiated) s, g1))))"

definition negotiate_bool ::
  "(bool \<Rightarrow> bool \<Rightarrow> bool) \<Rightarrow> string \<Rightarrow> string \<Rightarrow> iscsi_session \<Rightarrow> kv_data \<Rightarrow> pair_result" where
  "negotiate_bool f attr value s g =
     exec_bind (getAttr_bool attr False s) (\<lambda>(_, old).
       let negotiated = f old (value = ''Yes'')
       in exec_bind (addKeyValue attr (if negotiated then ''Yes'' else ''No'') g)
            (\<lambda>g1. Inr (True, setAttr attr (AttrBool negotiated) s, g1)))"

text \<open>The handlers that are refused outside a normal session.\<close>

definition normal_only :: "iscsi_session \<Rightarrow> kv_data \<Rightarrow> pair_result \<Rightarrow> pair_result" where
  "normal_only s g r = (if ses_type s \<noteq> iSCSI_NORMAL_SESSION then Inr (False, s, g) else r)"

definition InitiatorName_handle :: "environment \<Rightarrow> string \<Rightarrow> iscsi_session \<Rightarrow> kv_data \<Rightarrow> pair_result" where
  "InitiatorName_handle env value s g =
     (case env_newInitiator env value of
        None \<Rightarrow> Inr (False, s, g)
      | Some ini \<Rightarrow>
          let s1 = s\<lparr>ses_initiator := Some ini\<rparr>;
              s2 = (if ses_type s1 = iSCSI_DISCOVERY_SESSION then s1\<lparr>ses_tag := 1\<rparr> else s1)
          in exec_bind (addKeyValue ''TargetPortalGroupTag'' (env_show env (unat (ses_tag s2))) g)
               (\<lambda>g1. Inr (True, s2, g1)))"

text \<open>The initiator is changed through the pointer the session holds.\<close>

definition upd_initiator :: "(iscsi_initiator \<Rightarrow> iscsi_initiator) \<Rightarrow> iscsi_session \<Rightarrow> iscsi_session exec" where
  "upd_initiator f s =
     exec_bind (deref (ses_initiator s)) (\<lambda>ini. Inr (s\<lparr>ses_initiator := Some (f ini)\<rparr>))"

definition addAuthInfo :: "string \<Rightarrow> string \<Rightarrow> iscsi_initiator \<Rightarrow> iscsi_initiator" where
  "addAuthInfo method state ini = ini\<lparr>ini_authens := ini_authens ini @ [(method, state)]\<rparr>"

definition AuthMethod_handle :: "string \<Rightarrow> iscsi_session \<Rightarrow> kv_data \<Rightarrow> pair_result" where
  "AuthMethod_handle value s g =
     (let state = type_getStr (ses_type s)
      in exec_bind (if contains ''CHAP'' value
                    then exec_bind (upd_initiator (addAuthInfo ''CHAP'' state) s) (\<lambda>s1. Inr (s1, ''CHAP''))
                    else Inr (s, ''''))
           (\<lambda>(s1, method).
         exec_bind (if contains ''None'' value
                    then exec_bind (upd_initiator (addAuthInfo ''None'' state) s1)
                           (\<lambda>s2. Inr (s2, if length method > 0 then method @ '',None'' else ''None''))
                    else Inr (s1, method))
           (\<lambda>(s2, method2). exec_bind (addKeyValue ''AuthMethod'' method2 g) (\<lambda>g1. Inr (True, s2, g1)))))"

definition Digest_handle :: "environment \<Rightarrow> string \<Rightarrow> string \<Rightarrow> iscsi_session \<Rightarrow> kv_data \<Rightarrow> pair_result" where
  "Digest_handle env attr value s g =
     (let tconfig = (case env_config env attr of None \<Rightarrow> '''' | Some c \<Rightarrow> c);
          negotiated = (if contains ''CRC32C'' tconfig \<and> contains ''CRC32C'' value then ''CRC32C'' else '''');
          negotiated2 = (if contains ''None'' tconfig \<and> contains ''None'' value
                         then (if length negotiated > 0 then negotiated @ '',None'' else ''None'')
                         else negotiated)
      in exec_bind (addKeyValue attr negotiated2 g) (\<lambda>g1. Inr (True, s, g1)))"

definition MaxRecv_handle :: "environment \<Rightarrow> string \<Rightarrow> iscsi_session \<Rightarrow> kv_data \<Rightarrow> pair_result" where
  "MaxRecv_handle env value s g =
     exec_bind (cast32 env value) (\<lambda>mrds.
     exec_bind (upd_initiator (\<lambda>ini. ini\<lparr>ini_MaxRecvDataSegmentLength := mrds\<rparr>) s) (\<lambda>s1.
     exec_bind (getAttr_num ''MaxRecvDataSegmentLength'' mrds s1) (\<lambda>(found, mine).
       if \<not> found then Inr (True, s1, g)
       else exec_bind (addKeyValue ''MaxRecvDataSegmentLength'' (env_show env (unat mine)) g)
              (\<lambda>g1. Inr (True, s1, g1)))))"

definition InitiatorAlias_handle :: "string \<Rightarrow> iscsi_session \<Rightarrow> kv_data \<Rightarrow> pair_result" where
  "InitiatorAlias_handle value s g =
     exec_bind (upd_initiator (\<lambda>ini. ini\<lparr>ini_alias := value\<rparr>) s) (\<lambda>s1. Inr (True, s1, g))"

definition NegotiateMax_handle :: "environment \<Rightarrow> string \<Rightarrow> string \<Rightarrow> iscsi_session \<Rightarrow> kv_data \<Rightarrow> pair_result" where
  "NegotiateMax_handle env attr value s g = negotiate_num max 0 env attr value s g"

definition NegotiateMin_handle :: "environment \<Rightarrow> string \<Rightarrow> string \<Rightarrow> iscsi_session \<Rightarrow> kv_data \<Rightarrow> pair_result" where
  "NegotiateMin_handle env attr value s g = negotiate_num min (env_junk env) env attr value s g"

definition NormalMin_handle :: "environment \<Rightarrow> string \<Rightarrow> string \<Rightarrow> iscsi_session \<Rightarrow> kv_data \<Rightarrow> pair_result" where
  "NormalMin_handle env attr value s g = normal_only s g (negotiate_num min 0 env attr value s g)"

definition NormalOr_handle :: "string \<Rightarrow> string \<Rightarrow> iscsi_session \<Rightarrow> kv_data \<Rightarrow> pair_result" where
  "NormalOr_handle attr value s g = normal_only s g (negotiate_bool (\<or>) attr value s g)"

definition NormalAnd_handle :: "string \<Rightarrow> string \<Rightarrow> iscsi_session \<Rightarrow> kv_data \<Rightarrow> pair_result" where
  "NormalAnd_handle attr value s g = normal_only s g (negotiate_bool (\<and>) attr value s g)"

definition NegotiateAnd_handle :: "string \<Rightarrow> string \<Rightarrow> iscsi_session \<Rightarrow> kv_data \<Rightarrow> pair_result" where
  "NegotiateAnd_handle attr value s g = negotiate_bool (\<and>) attr value s g"

lemmas handler_defs [simp] = InitiatorAlias_handle_def NegotiateMax_handle_def NegotiateMin_handle_def
  NormalMin_handle_def NormalOr_handle_def NormalAnd_handle_def NegotiateAnd_handle_def

definition pair_handle ::
  "environment \<Rightarrow> pair_handler \<Rightarrow> string \<Rightarrow> iscsi_session \<Rightarrow> kv_data \<Rightarrow> pair_result" where
  "pair_handle env h value s g =
     (case h of
        InitiatorNameHandler \<Rightarrow> InitiatorName_handle env value s g
      | InitiatorAliasHandler \<Rightarrow> InitiatorAlias_handle value s g
      | AuthMethodHandler \<Rightarrow> AuthMethod_handle value s g
      | NothingTodoHandler \<Rightarrow> Inr (True, s, g)
      | TargetAliasHandler \<Rightarrow> Inr (True, s, g)
      | DigestHandler attr \<Rightarrow> Digest_handle env attr value s g
      | MaxRecvDataSegmentLengthHandler \<Rightarrow> MaxRecv_handle env value s g
      | NegotiateMaxHandler attr \<Rightarrow> NegotiateMax_handle env attr value s g
      | NegotiateMinHandler attr \<Rightarrow> NegotiateMin_handle env attr value s g
      | NormalMinHandler attr \<Rightarrow> NormalMin_handle env attr value s g
      | NormalOrHandler attr \<Rightarrow> NormalOr_handle attr value s g
      | NormalAndHandler attr \<Rightarrow> NormalAnd_handle attr value s g
      | NegotiateAndHandler attr \<Rightarrow> NegotiateAnd_handle attr value s g)"

section \<open>SendTargets\<close>

text \<open>The tag is printed once per address. An address whose printing throws ends the loop with \<^verbatim>\<open>false\<close>.\<close>

fun add_nics :: "string \<Rightarrow> (bool \<times> string option) list \<Rightarrow> kv_data \<Rightarrow> (bool \<times> kv_data) exec" where
  "add_nics tag [] g = Inr (True, g)"
| "add_nics tag ((loopback, addr) # as) g =
     (if loopback then add_nics tag as g
      else case addr of
        None \<Rightarrow> Inr (False, g)
      | Some a \<Rightarrow> exec_bind (addKeyValue ''TargetAddress'' (a @ '','' @ tag) g) (add_nics tag as))"

fun add_ports :: "string \<Rightarrow> string list \<Rightarrow> kv_data \<Rightarrow> kv_data exec" where
  "add_ports tag [] g = Inr g"
| "add_ports tag (p # ps) g =
     exec_bind (addKeyValue ''TargetAddress'' (p @ '','' @ tag) g) (add_ports tag ps)"

definition SendTargets_handle :: "environment \<Rightarrow> iscsi_session \<Rightarrow> kv_data \<Rightarrow> (bool \<times> kv_data) exec" where
  "SendTargets_handle env s g =
     (let tname = (case env_config env ''GlobalTargetName'' of None \<Rightarrow> '''' | Some n \<Rightarrow> n);
          tag = env_show env (unat (ses_tag s))
      in exec_bind (addKeyValue ''TargetName'' tname g) (\<lambda>g1.
           case env_ports env of
             [p] \<Rightarrow> if env_isAnyAddr env p
                    then (case env_nics env p of None \<Rightarrow> Inr (False, g1) | Some as \<Rightarrow> add_nics tag as g1)
                    else exec_bind (add_ports tag [p] g1) (\<lambda>g2. Inr (True, g2))
           | ps \<Rightarrow> exec_bind (add_ports tag ps g1) (\<lambda>g2. Inr (True, g2))))"

end
