(* ===== verification/Login.thy ===== *)
theory Login
  imports KeyValue
begin

text \<open>
  The login and text requests: \<^verbatim>\<open>src/iscsi/login.cpp\<close>, \<^verbatim>\<open>src/iscsi/text.cpp\<close> and their headers.
  The text keys of a request are cut out of the receive buffer, tested, and handled one after the
  other while the response is filled; a first login request also decides with the manager which
  session and reactor the connection belongs to.
\<close>

section \<open>Cutting the keys out of the data segment\<close>

text \<open>\<^verbatim>\<open>string str(ptr)\<close>: the bytes up to the next null, wherever it is. The memory ends where the
  allocation of the buffer ends.\<close>

function c_string :: "(nat \<Rightarrow> u8) \<Rightarrow> nat \<Rightarrow> nat \<Rightarrow> string exec" where
  "c_string m lim i =
     (if lim \<le> i then Inl OutOfBounds
      else if m i = 0 then Inr []
      else exec_bind (c_string m lim (Suc i)) (\<lambda>s. Inr (char_of (unat (m i)) # s)))"
  by pat_completeness auto
termination by (relation "measure (\<lambda>(m, lim, i). lim - i)") auto

declare c_string.simps [simp del]

definition GetKeyValuePair :: "environment \<Rightarrow> string \<Rightarrow> string \<times> string" where
  "GetKeyValuePair env str = (case env_regex env str of None \<Rightarrow> ('''', '''') | Some p \<Rightarrow> p)"

type_synonym pairs = "(string \<times> string) list"

definition parsePair ::
  "environment \<Rightarrow> (string \<rightharpoonup> pair_validator) \<Rightarrow> string \<times> string \<Rightarrow> pairs \<Rightarrow> (bool \<times> pairs) exec" where
  "parsePair env validators apair ps =
     (case validators (fst apair) of
        None \<Rightarrow> Inr (False, ps)
      | Some v \<Rightarrow> exec_bind (pair_valid env v (snd apair))
          (\<lambda>ok. if \<not> ok then Inr (False, ps) else Inr (True, ps @ [apair])))"

fun getPairValue :: "string \<Rightarrow> pairs \<Rightarrow> string" where
  "getPairValue attr [] = ''''"
| "getPairValue attr ((k, v) # ps) = (if k = attr then v else getPairValue attr ps)"

lemma exec_bind_cong [fundef_cong]:
  "m = m' \<Longrightarrow> (\<And>a. m' = Inr a \<Longrightarrow> f a = f' a) \<Longrightarrow> exec_bind m f = exec_bind m' f'"
  by (cases m') auto

text \<open>The loop \<^verbatim>\<open>while(dlength > 0)\<close>; \<^verbatim>\<open>dlength\<close> is an \<^verbatim>\<open>int32_t\<close> below \<open>2 ^ 24\<close>.\<close>

function parse_pairs ::
  "environment \<Rightarrow> (string \<rightharpoonup> pair_validator) \<Rightarrow> (nat \<Rightarrow> u8) \<Rightarrow> nat \<Rightarrow> nat \<Rightarrow> int \<Rightarrow> pairs \<Rightarrow>
     (bool \<times> pairs) exec" where
  "parse_pairs env validators m lim ptr dlength ps =
     (if \<not> dlength > 0 then Inr (True, ps)
      else exec_bind (c_string m lim ptr) (\<lambda>str.
        exec_bind (parsePair env validators (GetKeyValuePair env str) ps) (\<lambda>(ok, ps1).
          if \<not> ok then Inr (False, ps1)
          else parse_pairs env validators m lim (ptr + (length str + 1)) (dlength - int (length str + 1)) ps1)))"
  by pat_completeness auto
termination by (relation "measure (\<lambda>(env, vs, m, lim, ptr, dlength, ps). nat dlength)") auto

declare parse_pairs.simps [simp del]

text \<open>The data segment begins behind the basic header: \<^verbatim>\<open>bhs + 1\<close>, an additional header is not skipped.\<close>

definition request_pairs :: "environment \<Rightarrow> (string \<rightharpoonup> pair_validator) \<Rightarrow> token \<Rightarrow> (bool \<times> pairs) exec" where
  "request_pairs env validators t =
     parse_pairs env validators (cb_bytes (hd (tkv_cbufs t))) COMMON_ALLOC_SIZE (tkv_off t + 48)
       (int (getDlength (token_header t))) []"

section \<open>Login: keys\<close>

definition SEGMENT_LEN_MIN :: nat where "SEGMENT_LEN_MIN = 512"
definition SEGMENT_LEN_MAX :: nat where "SEGMENT_LEN_MAX = 1024 * 1024 * 16 - 1"

definition login_validator_list :: "(string \<times> pair_validator) list" where
  "login_validator_list =
     [(''InitiatorName'', InitiatorNameValidator), (''InitiatorAlias'', AlwaysTrueValidator),
      (''AuthMethod'', AuthMethodValidator), (''SessionType'', SessionTypeValidator),
      (''TargetName'', TargetNameValidator), (''TargetAlias'', AlwaysTrueValidator),
      (''HeaderDigest'', DigestValidator), (''DataDigest'', DigestValidator),
      (''IFMarker'', BoolStringValidator), (''OFMarker'', BoolStringValidator),
      (''MaxRecvDataSegmentLength'', RangeCastValidator SEGMENT_LEN_MIN SEGMENT_LEN_MAX),
      (''DefaultTime2Wait'', RangeCastValidator 0 3600),
      (''DefaultTime2Retain'', RangeCastValidator 0 3600),
      (''ErrorRecoveryLevel'', RangeCastValidator 0 2),
      (''MaxConnections'', RangeCastValidator 1 65535),
      (''MaxBurstLength'', RangeCastValidator SEGMENT_LEN_MIN SEGMENT_LEN_MAX),
      (''FirstBurstLength'', RangeCastValidator SEGMENT_LEN_MIN SEGMENT_LEN_MAX),
      (''MaxOutstandingR2T'', RangeCastValidator 1 65535),
      (''InitialR2T'', BoolStringValidator), (''ImmediateData'', BoolStringValidator),
      (''DataPDUInOrder'', BoolStringValidator), (''DataSequenceInOrder'', BoolStringValidator),
      (''X-com.cisco.PingTimeout'', AlwaysTrueValidator),
      (''X-com.cisco.sendAsyncText'', AlwaysTrueValidator),
      (''X-com.cisco.protocol'', AlwaysTrueValidator)]"

definition login_validators :: "string \<rightharpoonup> pair_validator" where
  "login_validators = map_of login_validator_list"

definition login_handlers :: "string \<rightharpoonup> pair_handler" where
  "login_handlers = map_of
     [(''InitiatorName'', InitiatorNameHandler), (''InitiatorAlias'', InitiatorAliasHandler),
      (''AuthMethod'', AuthMethodHandler), (''SessionType'', NothingTodoHandler),
      (''TargetName'', NothingTodoHandler), (''TargetAlias'', TargetAliasHandler),
      (''HeaderDigest'', DigestHandler ''HeaderDigest''), (''DataDigest'', DigestHandler ''DataDigest''),
      (''MaxRecvDataSegmentLength'', MaxRecvDataSegmentLengthHandler),
      (''DefaultTime2Wait'', NegotiateMaxHandler ''DefaultTime2Wait''),
      (''DefaultTime2Retain'', NegotiateMinHandler ''DefaultTime2Retain''),
      (''ErrorRecoveryLevel'', NegotiateMinHandler ''ErrorRecoveryLevel''),
      (''MaxConnections'', NormalMinHandler ''MaxConnections''),
      (''MaxBurstLength'', NormalMinHandler ''MaxBurstLength''),
      (''FirstBurstLength'', NormalMinHandler ''FirstBurstLength''),
      (''MaxOutstandingR2T'', NormalMinHandler ''MaxOutstandingR2T''),
      (''InitialR2T'', NormalOrHandler ''InitialR2T''),
      (''ImmediateData'', NormalAndHandler ''ImmediateData''),
      (''DataPDUInOrder'', NormalOrHandler ''DataPDUInOrder''),
      (''DataSequenceInOrder'', NormalOrHandler ''DataSequenceInOrder''),
      (''IFMarker'', NegotiateAndHandler ''IFMarker''), (''OFMarker'', NegotiateAndHandler ''OFMarker''),
      (''X-com.cisco.PingTimeout'', NothingTodoHandler),
      (''X-com.cisco.sendAsyncText'', NothingTodoHandler),
      (''X-com.cisco.protocol'', NothingTodoHandler)]"

text \<open>The loop over the keys of the request: each key is handled with the first value that the request
  has for it.\<close>

fun handle_pairs :: "environment \<Rightarrow> pairs \<Rightarrow> pairs \<Rightarrow> iscsi_session \<Rightarrow> kv_data \<Rightarrow> pair_result" where
  "handle_pairs env all [] s g = Inr (True, s, g)"
| "handle_pairs env all ((k, v) # ps) s g =
     exec_bind (deref (login_handlers k)) (\<lambda>h.
     exec_bind (pair_handle env h (getPairValue k all) s g) (\<lambda>(ok, s1, g1).
       if \<not> ok then Inr (False, s1, g1) else handle_pairs env all ps s1 g1))"

section \<open>Login: header\<close>

definition login_request :: "token \<Rightarrow> LoginReqHeader" where
  "login_request t = LoginReqHeader_of (token_bytes t)"

definition lq_getEXPSTATSN :: "token \<Rightarrow> u32" where
  "lq_getEXPSTATSN t = ntohl (lq_expstatsn (login_request t))"
definition lq_getSessionID :: "token \<Rightarrow> session_id" where
  "lq_getSessionID t = SessionID_set (lq_isid (login_request t))"
definition lq_getTSIH :: "token \<Rightarrow> u16" where
  "lq_getTSIH t = ntohs (lq_tsih (login_request t))"
definition lq_getCID :: "token \<Rightarrow> u16" where
  "lq_getCID t = ntohs (lq_cid (login_request t))"
definition lq_currentStage :: "token \<Rightarrow> u8" where
  "lq_currentStage t = drop_bit 2 (lq_flags (login_request t) AND 0x0C)"
definition lq_nextStage :: "token \<Rightarrow> u8" where
  "lq_nextStage t = lq_flags (login_request t) AND 0x03"
definition lq_isContinue :: "token \<Rightarrow> bool" where
  "lq_isContinue t \<longleftrightarrow> lq_flags (login_request t) AND 0x40 \<noteq> 0"
definition lq_isTransit :: "token \<Rightarrow> bool" where
  "lq_isTransit t \<longleftrightarrow> lq_flags (login_request t) AND 0x80 \<noteq> 0"

definition Login_valid :: "token \<Rightarrow> bool" where
  "Login_valid t \<longleftrightarrow>
     getOpCode (token_header t) = iSCSI_OP_LOGIN_CMD \<and> lq_isTransit t \<and> \<not> lq_isContinue t"

definition SECURITY_NEGOTIATION_STAGE :: u8 where "SECURITY_NEGOTIATION_STAGE = 0"
definition OP_PARMS_NEGOTIATION_STAGE :: u8 where "OP_PARMS_NEGOTIATION_STAGE = 1"
definition FULL_FEATURE_PHASE :: u8 where "FULL_FEATURE_PHASE = 3"
definition UNKNOWN_PHASE :: u8 where "UNKNOWN_PHASE = 0xFF"

lemmas stage_defs = SECURITY_NEGOTIATION_STAGE_def OP_PARMS_NEGOTIATION_STAGE_def FULL_FEATURE_PHASE_def
  UNKNOWN_PHASE_def

definition shiftLoginStage :: "u8 \<Rightarrow> u8 \<Rightarrow> u8" where
  "shiftLoginStage csg nsg =
     (if csg = SECURITY_NEGOTIATION_STAGE
      then if nsg \<noteq> FULL_FEATURE_PHASE \<and> nsg \<noteq> OP_PARMS_NEGOTIATION_STAGE then UNKNOWN_PHASE
           else if nsg < FULL_FEATURE_PHASE then nsg else FULL_FEATURE_PHASE
      else if csg = OP_PARMS_NEGOTIATION_STAGE
      then if nsg \<noteq> FULL_FEATURE_PHASE then UNKNOWN_PHASE else FULL_FEATURE_PHASE
      else UNKNOWN_PHASE)"

section \<open>Login: the first request\<close>

text \<open>\<^verbatim>\<open>cur_conn\<close> is found before it is known to exist; it is used where \<open>with_conn\<close> stands.\<close>

definition with_conn :: "nat \<Rightarrow> int \<Rightarrow> world \<Rightarrow> (iscsi_connection \<Rightarrow> 'a exec) \<Rightarrow> 'a exec" where
  "with_conn r fd w f = exec_bind (deref (conn_find fd (w_heap w r))) f"

type_synonym first_result = "(bool \<times> task list \<times> world) exec"

text \<open>\<^verbatim>\<open>parent->sid.set(...); cur_conn->setCID(...)\<close>.\<close>

definition take_identity :: "nat \<Rightarrow> token \<Rightarrow> int \<Rightarrow> world \<Rightarrow> world" where
  "take_identity r t fd w =
     w_conn_update fd (setCID (lq_getCID t)) (ses_update r (\<lambda>s. s\<lparr>ses_sid := lq_getSessionID t\<rparr>) w)"

definition handle1stDiscoveryRequest :: "nat \<Rightarrow> token \<Rightarrow> int \<Rightarrow> world \<Rightarrow> first_result" where
  "handle1stDiscoveryRequest r t fd w =
     (if findSession_sid (lq_getSessionID t) w \<noteq> None then Inr (False, [], w)
      else with_conn r fd w (\<lambda>_. Inr (True, [], take_identity r t fd w)))"

definition handle1stNormalRequest :: "nat \<Rightarrow> token \<Rightarrow> int \<Rightarrow> world \<Rightarrow> first_result" where
  "handle1stNormalRequest r t fd w =
     (case findReactor (lq_getSessionID t) w of
        None \<Rightarrow>
          if lq_getTSIH t \<noteq> 0 then Inr (False, [], w)
          else with_conn r fd w (\<lambda>_. Inr (True, [CreateReactor r fd], take_identity r t fd w))
      | Some rc \<Rightarrow>
          let old = rc_session rc in
          if lq_getTSIH t = 0
          then with_conn r fd w (\<lambda>_. Inr (True, [RemoveReactor old, CreateReactor r fd], take_identity r t fd w))
          else if lq_getTSIH t \<noteq> ses_tsih (w_heap w old) then Inr (False, [], w)
          else let cid = int (unat (lq_getCID t)) in
            (case conn_find cid (w_heap w old) of
               None \<Rightarrow>
                 with_conn r fd w (\<lambda>cur.
                   let w1 = ses_update old (\<lambda>s. snd (conn_add fd cur s)) (changeListener fd (rc_id rc) w)
                   in Inr (True, [CloseSession r], take_identity r t fd w1))
             | Some old_conn \<Rightarrow>
                 if lq_getEXPSTATSN t \<noteq> getSTATSN old_conn then Inr (False, [], w)
                 else with_conn r fd w (\<lambda>cur.
                   let w1 = w_conn_update fd (setSTATSN (getSTATSN old_conn)) w;
                       w2 = ses_update old (\<lambda>s. snd (conn_del cid s)) w1;
                       w3 = ses_update old (\<lambda>s. snd (conn_add fd (setSTATSN (getSTATSN old_conn) cur) s))
                              (changeListener fd (rc_id rc) w2)
                   in Inr (True, [CloseSession r], take_identity r t fd w3))))"

definition handle1stRequest :: "nat \<Rightarrow> token \<Rightarrow> int \<Rightarrow> world \<Rightarrow> first_result" where
  "handle1stRequest r t fd w =
     (let ty = ses_type (w_heap w r)
      in if ty = iSCSI_DISCOVERY_SESSION then handle1stDiscoveryRequest r t fd w
         else if ty = iSCSI_NORMAL_SESSION then handle1stNormalRequest r t fd w
         else Inr (False, [], w))"

section \<open>Login: the response\<close>

definition lgr_setFlags :: "u8 \<Rightarrow> LoginRspHeader \<Rightarrow> LoginRspHeader" where
  "lgr_setFlags f h = h\<lparr>lr_flags := 0x80 OR f\<rparr>"
definition lgr_setSTATSN :: "u32 \<Rightarrow> LoginRspHeader \<Rightarrow> LoginRspHeader" where
  "lgr_setSTATSN n h = h\<lparr>lr_statsn := htonl n\<rparr>"
definition lgr_setEXPCMDSN :: "u32 \<Rightarrow> LoginRspHeader \<Rightarrow> LoginRspHeader" where
  "lgr_setEXPCMDSN n h = h\<lparr>lr_expcmdsn := htonl n\<rparr>"
definition lgr_setMAXCMDSN :: "u32 \<Rightarrow> LoginRspHeader \<Rightarrow> LoginRspHeader" where
  "lgr_setMAXCMDSN n h = h\<lparr>lr_maxcmdsn := htonl n\<rparr>"
definition lgr_setSessionID :: "session_id \<Rightarrow> LoginRspHeader \<Rightarrow> LoginRspHeader" where
  "lgr_setSessionID sid h = h\<lparr>lr_isid := take 6 sid\<rparr>"

text \<open>The header as it is filled before the keys are handled; status class and detail are 0.\<close>

definition login_response :: "token \<Rightarrow> u8 \<Rightarrow> iscsi_connection \<Rightarrow> iscsi_session \<Rightarrow> LoginRspHeader" where
  "login_response t nsg conn s =
     (lgr_setSessionID (ses_sid s) (lgr_setMAXCMDSN (getMAXCMDSN s) (lgr_setEXPCMDSN (getEXPCMDSN s)
       (lgr_setSTATSN (getSTATSN conn)
         ((lgr_setFlags (push_bit 2 (lq_currentStage t) OR nsg) new_LoginRspHeader)
            \<lparr>lr_itt := getITT (token_header t)\<rparr>)))))\<lparr>lr_status_class := 0, lr_status_detail := 0\<rparr>"

definition login_serialize :: "LoginRspHeader \<Rightarrow> kv_data \<Rightarrow> common_buf" where
  "login_serialize h g =
     pdu_cbuf (LoginRspHeader_bytes (h\<lparr>lr_dlength := hton24 (kv_total g)\<rparr>)) (kv_mem g) (kv_tail (kv_pad g))"

text \<open>The switch over the next stage. Without an initiator the constructor of \<^verbatim>\<open>ReadHandler\<close> uses a null
  pointer.\<close>

definition enter_stage :: "u8 \<Rightarrow> nat \<Rightarrow> world \<Rightarrow> (bool \<times> world) exec" where
  "enter_stage nsg r w =
     (if nsg = SECURITY_NEGOTIATION_STAGE \<or> nsg = OP_PARMS_NEGOTIATION_STAGE then Inr (True, w)
      else if nsg \<noteq> FULL_FEATURE_PHASE then Inr (False, w)
      else
        let w1 = (if ses_tsih (w_heap w r) = 0
                  then let (n, w0) = getNextTSIH w in ses_update r (\<lambda>s. s\<lparr>ses_tsih := ucast n\<rparr>) w0
                  else w);
            s = w_heap w1 r
        in if ses_type s = iSCSI_DISCOVERY_SESSION
           then Inr (True, ses_update r (\<lambda>s. snd (shift2Discovery s)) w1)
           else if ses_type s = iSCSI_NORMAL_SESSION
           then exec_bind (deref (shift2Normal s)) (\<lambda>(_, s1). Inr (True, ses_update r (\<lambda>_. s1) w1))
           else Inr (False, w1))"

text \<open>\<^verbatim>\<open>if(!req.isImmediateCmd()) parent->advanceCMDSNs();\<close> on the shared state.\<close>

definition w_count :: "nat \<Rightarrow> token \<Rightarrow> world \<Rightarrow> world exec" where
  "w_count r t w =
     (case count_command t (w_pool w) (w_heap w r) of
        None \<Rightarrow> Inl NoReturn
      | Some (bp, s) \<Rightarrow> Inr (ses_update r (\<lambda>_. s) (w\<lparr>w_pool := bp\<rparr>)))"

text \<open>From the sequence numbers to the end; \<open>tasks\<close> are those of the first request.\<close>

definition login_respond ::
  "environment \<Rightarrow> (task \<Rightarrow> task \<Rightarrow> bool) \<Rightarrow> nat \<Rightarrow> token \<Rightarrow> int \<Rightarrow> pairs \<Rightarrow> task list \<Rightarrow> world \<Rightarrow>
     (bool \<times> world) exec" where
  "login_respond env lt r t fd ps tasks w =
     (let nsg = shiftLoginStage (lq_currentStage t) (lq_nextStage t)
      in exec_bind (w_count r t w) (\<lambda>w1.
         with_conn r fd w1 (\<lambda>conn.
           let hdr = login_response t nsg conn (w_heap w1 r);
               w2 = w_conn_update fd advanceSTATSN w1
           in exec_bind (handle_pairs env ps ps (w_heap w2 r) (new_kv_data (env_mem env))) (\<lambda>(ok, s, g).
                let w3 = ses_update r (\<lambda>_. s) w2
                in if \<not> ok then Inr (False, w3)
                   else exec_bind (enter_stage nsg r w3) (\<lambda>(ok2, w4).
                     if \<not> ok2 then Inr (False, w4)
                     else Inr (True, ses_update r
                            (sendtask_push_list lt (TSend fd (SendTask (login_serialize hdr g)) # tasks)) w4))))))"

definition LoginHandler_handle ::
  "environment \<Rightarrow> (task \<Rightarrow> task \<Rightarrow> bool) \<Rightarrow> nat \<Rightarrow> token \<Rightarrow> int \<Rightarrow> world \<Rightarrow> (bool \<times> world) exec" where
  "LoginHandler_handle env lt r t fd w =
     (if \<not> Login_valid t then Inr (False, w)
      else exec_bind (request_pairs env login_validators t) (\<lambda>(ok, ps).
        if \<not> ok then Inr (False, w)
        else if ses_type (w_heap w r) = iSCSI_LOGIN_SESSION
        then let w1 = ses_update r (type_set (getPairValue ''SessionType'' ps)) w
             in exec_bind (handle1stRequest r t fd w1) (\<lambda>(ok1, tasks, w2).
                  if \<not> ok1 then Inr (False, w2) else login_respond env lt r t fd ps tasks w2)
        else login_respond env lt r t fd ps [] w))"

section \<open>Text requests\<close>

definition text_validators :: "string \<rightharpoonup> pair_validator" where
  "text_validators = [''SendTargets'' \<mapsto> SendTargetsValidator]"

definition text_request :: "token \<Rightarrow> TextReqHeader" where
  "text_request t = TextReqHeader_of (token_bytes t)"

definition tq_isContinue :: "token \<Rightarrow> bool" where
  "tq_isContinue t \<longleftrightarrow> tq_flags (text_request t) AND 0x40 \<noteq> 0"

definition Text_valid :: "token \<Rightarrow> bool" where
  "Text_valid t \<longleftrightarrow>
     getOpCode (token_header t) = iSCSI_OP_TEXT_CMD \<and>
     \<not> (tq_isContinue t \<or> \<not> isFinal (token_header t)) \<and> tq_ttt (text_request t) = ISCSI_RSVD_TASK_TAG"

definition txr_setSTATSN :: "u32 \<Rightarrow> TextRspHeader \<Rightarrow> TextRspHeader" where
  "txr_setSTATSN n h = h\<lparr>tr_statsn := htonl n\<rparr>"
definition txr_setEXPCMDSN :: "u32 \<Rightarrow> TextRspHeader \<Rightarrow> TextRspHeader" where
  "txr_setEXPCMDSN n h = h\<lparr>tr_expcmdsn := htonl n\<rparr>"
definition txr_setMAXCMDSN :: "u32 \<Rightarrow> TextRspHeader \<Rightarrow> TextRspHeader" where
  "txr_setMAXCMDSN n h = h\<lparr>tr_maxcmdsn := htonl n\<rparr>"
definition txr_setTTT :: "u32 \<Rightarrow> TextRspHeader \<Rightarrow> TextRspHeader" where
  "txr_setTTT n h = h\<lparr>tr_ttt := n\<rparr>"

definition text_serialize :: "TextRspHeader \<Rightarrow> kv_data \<Rightarrow> common_buf" where
  "text_serialize h g =
     pdu_cbuf (TextRspHeader_bytes (h\<lparr>tr_dlength := hton24 (kv_total g)\<rparr>)) (kv_mem g) (kv_tail (kv_pad g))"

text \<open>\<^verbatim>\<open>attrs[0]\<close> of an empty vector is outside of it. The result of the SendTargets handler is not
  looked at, the response is sent in any case.\<close>

definition TextHandler_handle ::
  "environment \<Rightarrow> token \<Rightarrow> int \<Rightarrow> buffer_pool \<Rightarrow> iscsi_session \<Rightarrow> (bool \<times> buffer_pool \<times> iscsi_session) exec" where
  "TextHandler_handle env t fd bp s =
     (if \<not> Text_valid t then Inr (False, bp, s)
      else exec_bind (request_pairs env text_validators t) (\<lambda>(ok, ps).
        if \<not> ok then Inr (False, bp, s)
        else case count_command t bp s of
          None \<Rightarrow> Inl NoReturn
        | Some (bp1, s1) \<Rightarrow>
            exec_bind (deref (conn_find fd s1)) (\<lambda>conn.
              let hdr = txr_setMAXCMDSN (getMAXCMDSN s1) (txr_setEXPCMDSN (getEXPCMDSN s1)
                          (txr_setSTATSN (getSTATSN conn) (txr_setTTT ISCSI_RSVD_TASK_TAG
                            (new_TextRspHeader\<lparr>tr_flags := ISCSI_FLAG_FINAL, tr_itt := getITT (token_header t)\<rparr>))));
                  s2 = conn_update fd advanceSTATSN s1
              in case ps of
                   [] \<Rightarrow> Inl OutOfBounds
                 | (k, v) # _ \<Rightarrow>
                     if k \<noteq> ''SendTargets'' then Inr (False, bp1, s2)
                     else exec_bind (SendTargets_handle env s2 (new_kv_data (env_mem env))) (\<lambda>(_, g).
                       Inr (True, bp1, sendtask_push (TSend fd (SendTask (text_serialize hdr g))) s2)))))"

end
