(* ===== verification/Dispatch.thy ===== *)
theory Dispatch
  imports Login
begin

text \<open>
  The session at work: receiving on a connection, the dispatch of PDUs to the handlers of the
  session's table and the run of its send tasks, \<^verbatim>\<open>doRecv\<close>, \<^verbatim>\<open>doWork\<close>, \<^verbatim>\<open>recv\<close> and
  \<^verbatim>\<open>SessionSendTask::invoke\<close> of \<^verbatim>\<open>src/session.cpp\<close>, over the state that the threads share.
\<close>

section \<open>One PDU\<close>

definition opt_exec :: "'a option \<Rightarrow> 'a exec" where
  "opt_exec p = (case p of None \<Rightarrow> Inl Broken | Some a \<Rightarrow> Inr a)"

text \<open>A handler that works on the session and the buffer pool only.\<close>

definition on_session :: "nat \<Rightarrow> (bool \<times> buffer_pool \<times> iscsi_session) exec \<Rightarrow> world \<Rightarrow> (bool \<times> world) exec" where
  "on_session r res w = exec_bind res (\<lambda>(ok, bp, s). Inr (ok, ses_update r (\<lambda>_. s) (w\<lparr>w_pool := bp\<rparr>)))"

text \<open>What does not change while the program runs: the libraries and configuration, the memory and
  search functions, and the order of the tasks' addresses.\<close>

record program =
  pg_env :: environment
  pg_host :: host
  pg_lt :: "task \<Rightarrow> task \<Rightarrow> bool"

definition handler_handle :: "program \<Rightarrow> handler \<Rightarrow> nat \<Rightarrow> token \<Rightarrow> int \<Rightarrow> world \<Rightarrow> (bool \<times> world) exec" where
  "handler_handle pg p r t fd w =
     (let s = w_heap w r; bp = w_pool w; h = pg_host pg; lt = pg_lt pg
      in case p of
           LoginHandler \<Rightarrow> LoginHandler_handle (pg_env pg) lt r t fd w
         | TextHandler \<Rightarrow> on_session r (TextHandler_handle (pg_env pg) t fd bp s) w
         | LogoutHandler \<Rightarrow> on_session r (opt_exec (LogoutHandler_handle h lt r t fd bp s)) w
         | CommandHandler hp \<Rightarrow> on_session r (opt_exec (CommandHandler_handle h hp t fd bp s)) w
         | DataOutHandler mrds \<Rightarrow> on_session r (opt_exec (map_option (\<lambda>(ok, s1). (ok, bp, s1))
              (DataOutHandler_handle (h_lb h) (h_ub h) (h_mem h) mrds t fd s))) w
         | NopOutHandler \<Rightarrow> on_session r (opt_exec (NopOutHandler_handle h t fd bp s)) w
         | NopInHandler \<Rightarrow> on_session r (opt_exec (NopInHandler_handle t bp s)) w
         | TaskMngHandler \<Rightarrow> on_session r (opt_exec (TaskMngHandler_handle h t fd bp s)) w)"

section \<open>The loop over the complete PDUs\<close>

definition EIO :: int where "EIO = 5"
definition ESRCH :: int where "ESRCH = 3"

definition pop_token :: "nat \<Rightarrow> world \<Rightarrow> world" where
  "pop_token r = ses_update r (\<lambda>s. s\<lparr>ses_tokens := tl (ses_tokens s)\<rparr>)"

text \<open>\<^verbatim>\<open>while(!tokens.empty())\<close>. No handler touches the tokens of the session
  (\<open>handlers_keep_tokens\<close> in \<open>Session_Frame\<close>), so the loop runs over those that are there when it starts.\<close>

fun doWork_tokens :: "program \<Rightarrow> nat \<Rightarrow> int \<Rightarrow> token list \<Rightarrow> world \<Rightarrow> (int \<times> world) exec" where
  "doWork_tokens pg r fd [] w = Inr (0, w)"
| "doWork_tokens pg r fd (t # ts) w =
     (case ses_protos (w_heap w r) (getOpCode (token_header t)) of
        None \<Rightarrow> Inr (- ESRCH, cleanUp r fd w)
      | Some p \<Rightarrow> exec_bind (handler_handle pg p r t fd w) (\<lambda>(ok, w1).
          if \<not> ok then Inr (- EIO, cleanUp r fd w1)
          else doWork_tokens pg r fd ts (pop_token r w1)))"

definition session_doWork :: "program \<Rightarrow> nat \<Rightarrow> int \<Rightarrow> world \<Rightarrow> (int \<times> world) exec" where
  "session_doWork pg r fd w = doWork_tokens pg r fd (ses_tokens (w_heap w r)) w"

section \<open>Receiving\<close>

text \<open>The answers of \<^verbatim>\<open>readv\<close>: bytes, after which the tokenizer has completed some PDUs; the end of the
  stream; nothing there (\<^verbatim>\<open>EAGAIN\<close>); an error number. The receive buffers and the tokenizer that turn
  bytes into PDUs have theories of their own, an event carries their result.\<close>

datatype recv_event = Received nat "token list" | Closed | WouldBlock | ReadError int

definition push_tokens :: "nat \<Rightarrow> token list \<Rightarrow> world \<Rightarrow> world" where
  "push_tokens r ts = ses_update r (\<lambda>s. s\<lparr>ses_tokens := ses_tokens s @ ts\<rparr>)"

fun doRecv_loop :: "program \<Rightarrow> nat \<Rightarrow> int \<Rightarrow> recv_event list \<Rightarrow> nat \<Rightarrow> world \<Rightarrow> (int \<times> world) exec" where
  "doRecv_loop pg r fd [] tot w = Inr (int tot, w)"
| "doRecv_loop pg r fd (Received n ts # es) tot w =
     exec_bind (session_doWork pg r fd (push_tokens r ts w)) (\<lambda>(ret, w1).
       if ret < 0 then Inr (ret, w1) else doRecv_loop pg r fd es (tot + n) w1)"
| "doRecv_loop pg r fd (Closed # es) tot w = Inr (0, w)"
| "doRecv_loop pg r fd (WouldBlock # es) tot w = Inr (int tot, w)"
| "doRecv_loop pg r fd (ReadError e # es) tot w = Inr (- e, w)"

definition doRecv :: "program \<Rightarrow> nat \<Rightarrow> int \<Rightarrow> recv_event list \<Rightarrow> world \<Rightarrow> (int \<times> world) exec" where
  "doRecv pg r fd es w = with_conn r fd w (\<lambda>_. doRecv_loop pg r fd es 0 w)"

section \<open>Send tasks\<close>

text \<open>Data tasks write to the socket: \<open>io\<close> tells whether the task is done and what is left of it, \<open>None\<close>
  when it throws. Setting a socket option never fails visibly.\<close>

definition run_task ::
  "(task \<Rightarrow> (bool \<times> task) option) \<Rightarrow> task \<Rightarrow> world \<Rightarrow> (bool \<times> task \<times> world) option exec" where
  "run_task io t w =
     (let control = (\<lambda>m. exec_bind m (\<lambda>(ok, w1). Inr (Some (ok, t, w1))))
      in case t of
           TCPCork fd \<Rightarrow> Inr (Some (True, t, w))
         | TCPUncork fd \<Rightarrow> Inr (Some (True, t, w))
         | CloseSession q \<Rightarrow> control (run_CloseSession q w)
         | CloseConnection q fd \<Rightarrow> control (run_CloseConnection q fd w)
         | CreateReactor q fd \<Rightarrow> control (run_CreateReactor q fd w)
         | RemoveReactor q \<Rightarrow> control (run_RemoveReactor q w)
         | _ \<Rightarrow> Inr (map_option (\<lambda>(ok, t1). (ok, t1, w)) (io t)))"

fun invoke_tasks ::
  "(task \<Rightarrow> (bool \<times> task) option) \<Rightarrow> task list \<Rightarrow> world \<Rightarrow> (bool \<times> task list \<times> world) exec" where
  "invoke_tasks io [] w = Inr (True, [], w)"
| "invoke_tasks io (t # ts) w =
     exec_bind (run_task io t w) (\<lambda>res.
       case res of
         None \<Rightarrow> Inr (False, [], w)
       | Some (ok, t1, w1) \<Rightarrow> if \<not> ok then Inr (True, t1 # ts, w1) else invoke_tasks io ts w1)"

definition session_invoke :: "(task \<Rightarrow> (bool \<times> task) option) \<Rightarrow> nat \<Rightarrow> world \<Rightarrow> (bool \<times> world) exec" where
  "session_invoke io r w =
     exec_bind (invoke_tasks io (ses_tasks (w_heap w r)) w) (\<lambda>(ok, ts, w1).
       Inr (ok, ses_update r (\<lambda>s. s\<lparr>ses_tasks := ts\<rparr>) w1))"

section \<open>The receiver of a port\<close>

definition session_recv ::
  "program \<Rightarrow> (task \<Rightarrow> (bool \<times> task) option) \<Rightarrow> nat \<Rightarrow> int \<Rightarrow> recv_event list \<Rightarrow> world \<Rightarrow> (int \<times> world) exec" where
  "session_recv pg io r fd es w =
     exec_bind (doRecv pg r fd es w) (\<lambda>(n, w1).
       if n \<le> 0 then Inr (0, cleanUp r fd w1)
       else exec_bind (session_invoke io r w1) (\<lambda>(ok, w2). Inr (if ok then 1 else - EIO, w2)))"

definition session_send :: "(task \<Rightarrow> (bool \<times> task) option) \<Rightarrow> nat \<Rightarrow> world \<Rightarrow> (int \<times> world) exec" where
  "session_send io r w =
     exec_bind (session_invoke io r w) (\<lambda>(ok, w1). Inr (if ok then 0 else - EIO, w1))"

end
