(* ===== verification/EventLoop.thy ===== *)
theory EventLoop
  imports Dispatch Json
begin

text \<open>
  The event loops: ports (\<^verbatim>\<open>include/port.h\<close>, \<^verbatim>\<open>src/port.cpp\<close>), the loop over \<^verbatim>\<open>select\<close>
  (\<^verbatim>\<open>include/loop.h\<close>, \<^verbatim>\<open>src/loop.cpp\<close>), the part of a connection that moves its port between loops
  (\<^verbatim>\<open>src/connection.cpp\<close>), and the thread that takes the signals (\<^verbatim>\<open>src/signallistener.cpp\<close>). A port is
  shared by pointer: it has a number, and the loops and connections hold the number. A handler is what
  \<^verbatim>\<open>boost::function\<close> holds; running one is a parameter, it may change ports and loops. \<^verbatim>\<open>PollLoop\<close> is
  declared without a body and never used.
\<close>

section \<open>Descriptor sets\<close>

text \<open>\<^verbatim>\<open>fd_set\<close> has a fixed size; the macros do not check the descriptor.\<close>

definition FD_SETSIZE :: int where
  "FD_SETSIZE = 1024"

definition INVALID_SOCKET :: int where
  "INVALID_SOCKET = -1"

definition FD_SET :: "int \<Rightarrow> int set \<Rightarrow> int set result" where
  "FD_SET fd fds = (if 0 \<le> fd \<and> fd < FD_SETSIZE then Inr (insert fd fds) else Inl Undefined)"

definition FD_CLR :: "int \<Rightarrow> int set \<Rightarrow> int set result" where
  "FD_CLR fd fds = (if 0 \<le> fd \<and> fd < FD_SETSIZE then Inr (fds - {fd}) else Inl Undefined)"

definition FD_ISSET :: "int \<Rightarrow> int set \<Rightarrow> bool result" where
  "FD_ISSET fd fds = (if 0 \<le> fd \<and> fd < FD_SETSIZE then Inr (fd \<in> fds) else Inl Undefined)"

section \<open>State\<close>

record 'h port =
  pt_fd :: int
  pt_receiver :: "'h option"
  pt_sender :: "'h option"

text \<open>\<open>lp_moved\<close> is not in the code: it counts the changes of the vector of ports that make iterators into it
  unusable, \<^verbatim>\<open>push_back\<close> and an \<^verbatim>\<open>erase\<close> that removes something.\<close>

record select_loop =
  lp_ports :: "nat list"
  lp_stop :: bool
  lp_readfds :: "int set"
  lp_writefds :: "int set"
  lp_nfds :: int
  lp_moved :: nat

record ('h, 'w) events =
  ev_ports :: "nat \<Rightarrow> 'h port"
  ev_loops :: "listener \<Rightarrow> select_loop"
  ev_world :: 'w

definition SelectLoop :: select_loop where
  "SelectLoop = \<lparr>lp_ports = [], lp_stop = False, lp_readfds = {}, lp_writefds = {}, lp_nfds = INVALID_SOCKET, lp_moved = 0\<rparr>"

subsection \<open>Ports\<close>

definition setReceiver :: "'h \<Rightarrow> 'h port \<Rightarrow> bool \<times> 'h port" where
  "setReceiver h p = (if pt_receiver p \<noteq> None then (False, p) else (True, p\<lparr>pt_receiver := Some h\<rparr>))"

definition clearReceiver :: "'h port \<Rightarrow> 'h port" where
  "clearReceiver p = p\<lparr>pt_receiver := None\<rparr>"

definition setSender :: "'h \<Rightarrow> 'h port \<Rightarrow> bool \<times> 'h port" where
  "setSender h p = (if pt_sender p \<noteq> None then (False, p) else (True, p\<lparr>pt_sender := Some h\<rparr>))"

type_synonym ('h, 'w) runner = "'h \<Rightarrow> int \<Rightarrow> ('h, 'w) events \<Rightarrow> (int \<times> ('h, 'w) events) result"

definition onReceive :: "('h, 'w) runner \<Rightarrow> nat \<Rightarrow> int \<Rightarrow> ('h, 'w) events \<Rightarrow> (int \<times> ('h, 'w) events) result" where
  "onReceive run p fd s =
     (case pt_receiver (ev_ports s p) of
        None \<Rightarrow> Inl (Throw (''Port receiver not specified for ['' @ show_int fd @ '']''))
      | Some h \<Rightarrow> run h fd s)"

definition onSend :: "('h, 'w) runner \<Rightarrow> nat \<Rightarrow> int \<Rightarrow> ('h, 'w) events \<Rightarrow> (int \<times> ('h, 'w) events) result" where
  "onSend run p fd s =
     (case pt_sender (ev_ports s p) of
        None \<Rightarrow> Inl (Throw (''Port sender not specified for ['' @ show_int fd @ '']''))
      | Some h \<Rightarrow> run h fd s)"

subsection \<open>Opening ports\<close>

text \<open>The answers of the system to one port: the descriptor, or an error number, and whether the calls after it
  fail. \<open>opened\<close> are the descriptors that are open. When a constructor throws, the base class is complete and its
  destructor closes the socket; the class \<^verbatim>\<open>Port\<close> itself throws only when there is none.\<close>

record socket_calls =
  sk_socket :: "int + int"
  sk_getfl :: "int option"
  sk_setfl :: "int option"
  sk_bind :: "int option"
  sk_listen :: "int option"
  sk_strerror :: "int \<Rightarrow> string"

definition close_port :: "int \<Rightarrow> int set \<Rightarrow> int set" where
  "close_port fd opened = (if fd \<noteq> INVALID_SOCKET then opened - {fd} else opened)"

definition new_port :: "int \<Rightarrow> 'h port" where
  "new_port fd = \<lparr>pt_fd = fd, pt_receiver = None, pt_sender = None\<rparr>"

definition open_socket :: "socket_calls \<Rightarrow> string \<Rightarrow> int set \<Rightarrow> int result \<times> int set" where
  "open_socket sk what opened =
     (case sk_socket sk of
        Inl e \<Rightarrow> (Inl (Throw (what @ sk_strerror sk e)), opened)
      | Inr fd \<Rightarrow> (Inr fd, insert fd opened))"

definition Port_address :: "socket_calls \<Rightarrow> int set \<Rightarrow> 'h port result \<times> int set" where
  "Port_address sk opened =
     (case open_socket sk ''Failed to open socket : '' opened of
        (Inl e, opened1) \<Rightarrow> (Inl e, opened1)
      | (Inr fd, opened1) \<Rightarrow> (Inr (new_port fd), opened1))"

definition set_nonblocking :: "socket_calls \<Rightarrow> int \<Rightarrow> int set \<Rightarrow> 'h port result \<times> int set" where
  "set_nonblocking sk fd opened =
     (case sk_getfl sk of
        Some e \<Rightarrow> (Inl (Throw (''Failed to get socket options : '' @ sk_strerror sk e)), close_port fd opened)
      | None \<Rightarrow>
          (case sk_setfl sk of
             Some e \<Rightarrow> (Inl (Throw (''Failed to set nonblocking mode : '' @ sk_strerror sk e)), close_port fd opened)
           | None \<Rightarrow> (Inr (new_port fd), opened)))"

definition NonBlockingPort_accepted :: "socket_calls \<Rightarrow> int \<Rightarrow> int set \<Rightarrow> 'h port result \<times> int set" where
  "NonBlockingPort_accepted sk accepted opened = set_nonblocking sk accepted opened"

definition NonBlockingPort_address :: "socket_calls \<Rightarrow> int set \<Rightarrow> 'h port result \<times> int set" where
  "NonBlockingPort_address sk opened =
     (case open_socket sk ''Failed to open nonblocking socket : '' opened of
        (Inl e, opened1) \<Rightarrow> (Inl e, opened1)
      | (Inr fd, opened1) \<Rightarrow> set_nonblocking sk fd opened1)"

definition ListenPort :: "socket_calls \<Rightarrow> int set \<Rightarrow> 'h port result \<times> int set" where
  "ListenPort sk opened =
     (case open_socket sk ''Failed to open socket : '' opened of
        (Inl e, opened1) \<Rightarrow> (Inl e, opened1)
      | (Inr fd, opened1) \<Rightarrow>
          (case sk_bind sk of
             Some e \<Rightarrow> (Inl (Throw (''Failed to bind socket : '' @ sk_strerror sk e)), close_port fd opened1)
           | None \<Rightarrow>
               (case sk_listen sk of
                  Some e \<Rightarrow> (Inl (Throw (''Failed to listen socket : '' @ sk_strerror sk e)), close_port fd opened1)
                | None \<Rightarrow> (Inr (new_port fd), opened1))))"

subsection \<open>The ports of a loop\<close>

text \<open>\<open>fd\<close> is the socket of the port. \<^verbatim>\<open>nfds\<close> is never made smaller.\<close>

definition addPort :: "nat \<Rightarrow> int \<Rightarrow> select_loop \<Rightarrow> select_loop result" where
  "addPort p fd l =
     (let nfds = (if fd > lp_nfds l then fd else lp_nfds l)
      in bind (FD_SET fd (lp_readfds l)) (\<lambda>r.
           Inr (l\<lparr>lp_nfds := nfds, lp_readfds := r, lp_ports := lp_ports l @ [p], lp_moved := Suc (lp_moved l)\<rparr>)))"

definition erase_port :: "nat \<Rightarrow> select_loop \<Rightarrow> select_loop" where
  "erase_port p l =
     l\<lparr>lp_ports := filter (\<lambda>q. q \<noteq> p) (lp_ports l),
       lp_moved := (if p \<in> set (lp_ports l) then Suc (lp_moved l) else lp_moved l)\<rparr>"

definition clear_fds :: "int \<Rightarrow> select_loop \<Rightarrow> select_loop result" where
  "clear_fds fd l =
     bind (FD_CLR fd (lp_readfds l)) (\<lambda>r. bind (FD_CLR fd (lp_writefds l)) (\<lambda>w.
       Inr (l\<lparr>lp_readfds := r, lp_writefds := w\<rparr>)))"

definition delPort :: "nat \<Rightarrow> int \<Rightarrow> select_loop \<Rightarrow> select_loop result" where
  "delPort p fd l = bind (clear_fds fd l) (\<lambda>l1. Inr (erase_port p l1))"

text \<open>\<^verbatim>\<open>delPort(socket_t)\<close>: \<^verbatim>\<open>remove\<close> is given a reference to the element it finds. The slot that the
  reference names is overwritten by the first element that is kept, which is then the one compared with.\<close>

fun remove_slot :: "nat \<Rightarrow> nat list \<Rightarrow> nat list" where
  "remove_slot p [] = []"
| "remove_slot p (q # qs) = (if q = p then remove_slot p qs else q # filter (\<lambda>x. x \<noteq> q) qs)"

definition delPort_fd :: "(nat \<Rightarrow> int) \<Rightarrow> int \<Rightarrow> select_loop \<Rightarrow> (bool \<times> select_loop) result" where
  "delPort_fd socket fd l =
     bind (clear_fds fd l) (\<lambda>l1.
       case dropWhile (\<lambda>p. socket p \<noteq> fd) (lp_ports l1) of
         [] \<Rightarrow> Inr (False, l1)
       | p # ps \<Rightarrow>
           Inr (True, l1\<lparr>lp_ports := takeWhile (\<lambda>q. socket q \<noteq> fd) (lp_ports l1) @ remove_slot p ps,
                         lp_moved := Suc (lp_moved l1)\<rparr>))"

definition waitWritable :: "int \<Rightarrow> select_loop \<Rightarrow> select_loop result" where
  "waitWritable fd l = bind (FD_SET fd (lp_writefds l)) (\<lambda>w. Inr (l\<lparr>lp_writefds := w\<rparr>))"

definition unwaitWritable :: "int \<Rightarrow> select_loop \<Rightarrow> select_loop result" where
  "unwaitWritable fd l = bind (FD_CLR fd (lp_writefds l)) (\<lambda>w. Inr (l\<lparr>lp_writefds := w\<rparr>))"

definition loop_mayStop :: "select_loop \<Rightarrow> select_loop" where
  "loop_mayStop l = l\<lparr>lp_stop := True\<rparr>"

section \<open>A connection and its listener\<close>

record connection_port =
  cp_port :: nat
  cp_listener :: "listener option"

definition on_loop ::
  "listener \<Rightarrow> (select_loop \<Rightarrow> select_loop result) \<Rightarrow> ('h, 'w) events \<Rightarrow> ('h, 'w) events result" where
  "on_loop i f s = bind (f (ev_loops s i)) (\<lambda>l. Inr (s\<lparr>ev_loops := (ev_loops s)(i := l)\<rparr>))"

definition port_fd :: "nat \<Rightarrow> ('h, 'w) events \<Rightarrow> int" where
  "port_fd p s = pt_fd (ev_ports s p)"

text \<open>The constructor uses the listener it is given; it is null once \<^verbatim>\<open>main\<close> has cleared it.\<close>

definition cp_connection :: "nat \<Rightarrow> listener option \<Rightarrow> ('h, 'w) events \<Rightarrow> (connection_port \<times> ('h, 'w) events) result" where
  "cp_connection p actor s =
     (case actor of
        None \<Rightarrow> Inl Undefined
      | Some i \<Rightarrow> bind (on_loop i (addPort p (port_fd p s)) s) (\<lambda>s1. Inr (\<lparr>cp_port = p, cp_listener = actor\<rparr>, s1)))"

definition cp_destroy :: "connection_port \<Rightarrow> ('h, 'w) events \<Rightarrow> ('h, 'w) events result" where
  "cp_destroy c s =
     (case cp_listener c of
        None \<Rightarrow> Inr s
      | Some i \<Rightarrow> on_loop i (delPort (cp_port c) (port_fd (cp_port c) s)) s)"

definition cp_waitWritable :: "connection_port \<Rightarrow> ('h, 'w) events \<Rightarrow> ('h, 'w) events result" where
  "cp_waitWritable c s =
     (case cp_listener c of None \<Rightarrow> Inl Undefined | Some i \<Rightarrow> on_loop i (waitWritable (port_fd (cp_port c) s)) s)"

definition cp_unwaitWritable :: "connection_port \<Rightarrow> ('h, 'w) events \<Rightarrow> ('h, 'w) events result" where
  "cp_unwaitWritable c s =
     (case cp_listener c of None \<Rightarrow> Inl Undefined | Some i \<Rightarrow> on_loop i (unwaitWritable (port_fd (cp_port c) s)) s)"

text \<open>\<open>recv\<close> is the handler bound to the reactor's \<^verbatim>\<open>recv\<close>; the answer of \<^verbatim>\<open>setReceiver\<close> is ignored.\<close>

definition cp_changeListener ::
  "listener \<Rightarrow> 'h \<Rightarrow> connection_port \<Rightarrow> ('h, 'w) events \<Rightarrow> (connection_port \<times> ('h, 'w) events) result" where
  "cp_changeListener actor recv c s =
     (let p = cp_port c; fd = port_fd p s
      in bind (case cp_listener c of None \<Rightarrow> Inr s | Some i \<Rightarrow> on_loop i (delPort p fd) s) (\<lambda>s1.
         bind (on_loop actor (addPort p fd) s1) (\<lambda>s2.
           Inr (c\<lparr>cp_listener := Some actor\<rparr>,
                s2\<lparr>ev_ports := (ev_ports s2)(p := snd (setReceiver recv (clearReceiver (ev_ports s2 p))))\<rparr>))))"

definition cp_clearListener :: "connection_port \<Rightarrow> ('h, 'w) events \<Rightarrow> (connection_port \<times> ('h, 'w) events) result" where
  "cp_clearListener c s =
     (case cp_listener c of
        None \<Rightarrow> Inl Undefined
      | Some i \<Rightarrow>
          bind (on_loop i (delPort (cp_port c) (port_fd (cp_port c) s)) s) (\<lambda>s1.
            Inr (c\<lparr>cp_listener := None\<rparr>,
                 s1\<lparr>ev_ports := (ev_ports s1)(cp_port c := clearReceiver (ev_ports s1 (cp_port c)))\<rparr>)))"

section \<open>One pass over the ready ports\<close>

text \<open>The iterators are taken before the loop, so the loop goes over the ports of that moment. Going on after a
  handler has changed the vector uses iterators that are not valid any more. \<open>n\<close> is \<^verbatim>\<open>events\<close>, which is only
  logged.\<close>

definition moved :: "listener \<Rightarrow> ('h, 'w) events \<Rightarrow> nat" where
  "moved i s = lp_moved (ev_loops s i)"

fun scan ::
  "('h, 'w) runner \<Rightarrow> listener \<Rightarrow> int set \<Rightarrow> int set \<Rightarrow> nat list \<Rightarrow> int \<Rightarrow> ('h, 'w) events \<Rightarrow>
    (int \<times> ('h, 'w) events) result"
where
  "scan run i readfds writefds [] n s = Inr (n, s)"
| "scan run i readfds writefds (p # ps) n s =
     (let fd = port_fd p s
      in bind (FD_ISSET fd readfds) (\<lambda>readable.
         bind (if readable then bind (onReceive run p fd s) (\<lambda>(status, s1). Inr (n - 1, status \<le> 0, s1)) else Inr (n, False, s))
           (\<lambda>(n1, leave, s1).
         if leave then Inr (n1, s1)
         else if moved i s1 \<noteq> moved i s then Inl Undefined
         else bind (FD_ISSET fd writefds) (\<lambda>writable.
              bind (if writable then bind (onSend run p fd s1) (\<lambda>(status, s2). Inr (n1 - 1, status < 0, s2)) else Inr (n1, False, s1))
                (\<lambda>(n2, leave2, s2).
              if leave2 then Inr (n2, s2)
              else if moved i s2 \<noteq> moved i s1 then Inl Undefined
              else scan run i readfds writefds ps n2 s2)))))"

section \<open>Signals\<close>

datatype signal = SIGHUP | SIGINT | SIGTERM | NoSignal

record signal_flags =
  sg_reinit :: bool
  sg_fin :: bool
  sg_may_exit :: bool
  sg_ended :: bool

definition SignalListener :: signal_flags where
  "SignalListener = \<lparr>sg_reinit = False, sg_fin = False, sg_may_exit = False, sg_ended = False\<rparr>"

text \<open>One turn of the thread: what \<^verbatim>\<open>sigtimedwait\<close> answers. \<open>sg_ended\<close> says that the thread has left its loop.\<close>

definition signal_turn :: "signal \<Rightarrow> signal_flags \<Rightarrow> signal_flags" where
  "signal_turn signo g =
     (if sg_ended g then g
      else case signo of
             SIGHUP \<Rightarrow> g\<lparr>sg_reinit := True\<rparr>
           | SIGINT \<Rightarrow> g\<lparr>sg_fin := True, sg_ended := True\<rparr>
           | SIGTERM \<Rightarrow> g\<lparr>sg_fin := True, sg_ended := True\<rparr>
           | NoSignal \<Rightarrow> if sg_may_exit g then g\<lparr>sg_ended := True\<rparr> else g)"

definition clearReinit :: "signal_flags \<Rightarrow> signal_flags" where
  "clearReinit g = g\<lparr>sg_reinit := False\<rparr>"

definition signal_exit :: "signal_flags \<Rightarrow> signal_flags" where
  "signal_exit g = g\<lparr>sg_may_exit := True\<rparr>"

text \<open>The instance is made when it is first asked for; \<open>ok\<close> says that the signals could be blocked.\<close>

definition signal_init :: "bool \<Rightarrow> signal_flags option result" where
  "signal_init ok = (if ok then Inr (Some SignalListener) else Inl (Throw ''Failed to construct SignalListener''))"

definition signal_getInstance :: "bool \<Rightarrow> signal_flags option \<Rightarrow> (signal_flags \<times> signal_flags option) result" where
  "signal_getInstance ok cache =
     (case cache of
        Some g \<Rightarrow> Inr (g, cache)
      | None \<Rightarrow>
          (case signal_init ok of
             Inr (Some g) \<Rightarrow> Inr (g, Some g)
           | _ \<Rightarrow> Inl (Throw ''Can't get SignalListener instance'')))"

definition signal_clearInstance :: "signal_flags option \<Rightarrow> signal_flags option" where
  "signal_clearInstance cache = None"

section \<open>The loop\<close>

datatype select_answer = Ready int "int set" "int set" | Interrupted | SelectFailed

text \<open>One turn of the loop: the signals taken and whether another thread has stopped the loop since the last
  turn, and the answer of \<^verbatim>\<open>select\<close>.\<close>

record turn =
  tn_signals :: "signal list"
  tn_mayStop :: bool
  tn_select :: select_answer

text \<open>A turn of the loop: whether it left the loop.\<close>

definition loop_turn ::
  "('h, 'w) runner \<Rightarrow> listener \<Rightarrow> turn \<Rightarrow> signal_flags \<Rightarrow> ('h, 'w) events \<Rightarrow> (bool \<times> signal_flags \<times> ('h, 'w) events) result"
where
  "loop_turn run i t g s =
     (let g1 = fold signal_turn (tn_signals t) g;
          s1 = (if tn_mayStop t then s\<lparr>ev_loops := (ev_loops s)(i := loop_mayStop (ev_loops s i))\<rparr> else s)
      in if lp_stop (ev_loops s1 i) then Inr (True, g1, s1)
         else if sg_fin g1 then Inr (True, g1, s1)
         else let g2 = (if sg_reinit g1 then clearReinit g1 else g1)
              in case tn_select t of
                   Interrupted \<Rightarrow> Inr (False, g2, s1)
                 | SelectFailed \<Rightarrow> Inr (True, g2, s1)
                 | Ready n readfds writefds \<Rightarrow>
                     bind (scan run i readfds writefds (lp_ports (ev_loops s1 i)) n s1) (\<lambda>(_, s2). Inr (False, g2, s2)))"

fun loop_run ::
  "('h, 'w) runner \<Rightarrow> listener \<Rightarrow> turn list \<Rightarrow> signal_flags \<Rightarrow> ('h, 'w) events \<Rightarrow> (bool \<times> signal_flags \<times> ('h, 'w) events) result"
where
  "loop_run run i [] g s = Inr (False, g, s)"
| "loop_run run i (t # ts) g s =
     bind (loop_turn run i t g s) (\<lambda>(left, g1, s1). if left then Inr (True, g1, s1) else loop_run run i ts g1 s1)"

section \<open>The daemon's handlers\<close>

text \<open>The handlers of the program: the acceptor on a listening port, a session that is not in full feature phase
  yet, which is served by the main loop, its sender, and a session with a reactor. The connections have their
  listeners, by socket.\<close>

datatype io_handler = AcceptHandler | SessionRecv nat | SessionSend nat | ReactorRecv nat

text \<open>\<open>nt_accepts\<close> are the answers of \<^verbatim>\<open>accept\<close>, a new socket or an error number, \<^verbatim>\<open>EAGAIN\<close> after the last;
  \<open>nt_next\<close> numbers the new ports. Making the new socket non-blocking succeeds.\<close>

record net =
  nt_world :: world
  nt_conns :: "int \<Rightarrow> connection_port option"
  nt_accepts :: "(nat + int) list"
  nt_next :: nat

type_synonym daemon = "(io_handler, net) events"

text \<open>What the world says about the listener of a socket, \<open>w_polls\<close>, is carried out on the loops: the
  task \<open>CreateReactor\<close> calls \<^verbatim>\<open>changeListener\<close> of the connection.\<close>

definition follow_listener :: "nat \<Rightarrow> int \<Rightarrow> world \<Rightarrow> daemon \<Rightarrow> daemon result" where
  "follow_listener r fd w s =
     (let old = w_polls (nt_world (ev_world s)) fd;
          s1 = s\<lparr>ev_world := (ev_world s)\<lparr>nt_world := w\<rparr>\<rparr>
      in case (w_polls w fd, nt_conns (ev_world s) fd) of
           (Some (ReactorListener k), Some c) \<Rightarrow>
             if old = Some (ReactorListener k) then Inr s1
             else bind (cp_changeListener (ReactorListener k) (ReactorRecv r) c s1) (\<lambda>(c1, s2).
                  Inr (s2\<lparr>ev_world := (ev_world s2)\<lparr>nt_conns := (nt_conns (ev_world s2))(fd \<mapsto> c1)\<rparr>\<rparr>))
         | _ \<Rightarrow> Inr s1)"

definition session_handler :: "nat \<Rightarrow> int \<Rightarrow> (world \<Rightarrow> (int \<times> world) exec) \<Rightarrow> daemon \<Rightarrow> (int \<times> daemon) result" where
  "session_handler r fd f s =
     (case f (nt_world (ev_world s)) of
        Inl _ \<Rightarrow> Inl Undefined
      | Inr (status, w) \<Rightarrow> bind (follow_listener r fd w s) (\<lambda>s1. Inr (status, s1)))"

definition EAGAIN :: nat where "EAGAIN = 11"

definition accept_call :: "net \<Rightarrow> (nat + int) \<times> net" where
  "accept_call nt = (case nt_accepts nt of [] \<Rightarrow> (Inl EAGAIN, nt) | a # rest \<Rightarrow> (a, nt\<lparr>nt_accepts := rest\<rparr>))"

definition accept_handler :: "(string \<Rightarrow> u64) \<Rightarrow> (string \<Rightarrow> bool) \<Rightarrow> daemon \<Rightarrow> (int \<times> daemon) result" where
  "accept_handler num flag s =
     (let nt = snd (accept_call (ev_world s))
      in case fst (accept_call (ev_world s)) of
           Inl e \<Rightarrow> Inr (- int e, s\<lparr>ev_world := nt\<rparr>)
         | Inr client \<Rightarrow>
             let r = w_next (nt_world nt); p = nt_next nt;
                 port = snd (setSender (SessionSend r) (snd (setReceiver (SessionRecv r) (new_port client))));
                 s1 = s\<lparr>ev_ports := (ev_ports s)(p := port), ev_world := nt\<lparr>nt_next := Suc p\<rparr>\<rparr>
             in bind (cp_connection p (Some MainListener) s1) (\<lambda>(c, s2).
                let res = accept num flag client (nt_world nt);
                    s3 = s2\<lparr>ev_world := (ev_world s2)\<lparr>nt_world := snd res\<rparr>\<rparr>
                in if fst res
                   then Inr (0, s3\<lparr>ev_world := (ev_world s3)\<lparr>nt_conns := (nt_conns nt)(client \<mapsto> c)\<rparr>\<rparr>)
                   else bind (cp_destroy c s3) (\<lambda>s4. Inr (- EIO, s4))))"

record daemon_calls =
  dc_program :: program
  dc_io :: "task \<Rightarrow> (bool \<times> task) option"
  dc_received :: "int \<Rightarrow> recv_event list"
  dc_num :: "string \<Rightarrow> u64"
  dc_flag :: "string \<Rightarrow> bool"

definition serve :: "daemon_calls \<Rightarrow> (io_handler, net) runner" where
  "serve dc h fd s =
     (case h of
        AcceptHandler \<Rightarrow> accept_handler (dc_num dc) (dc_flag dc) s
      | SessionRecv r \<Rightarrow> session_handler r fd (session_recv (dc_program dc) (dc_io dc) r fd (dc_received dc fd)) s
      | SessionSend r \<Rightarrow> session_handler r fd (session_send (dc_io dc) r) s
      | ReactorRecv r \<Rightarrow> session_handler r fd (session_recv (dc_program dc) (dc_io dc) r fd (dc_received dc fd)) s)"

end
