(* ===== verification/KeyValue_Correct.thy ===== *)
theory KeyValue_Correct
  imports Login
begin

text \<open>
  Properties of the text keys: what a generator writes is what the parser reads; a validated key is
  handled without a null pointer, a bad type or a write outside the buffer; what a negotiation agrees
  on.
\<close>

section \<open>What is relied on\<close>

text \<open>The documented behaviour of the expression \<^verbatim>\<open>(.*)=(.*)\<close>: the first group takes as much as it can.\<close>

definition regex_greedy :: "environment \<Rightarrow> bool" where
  "regex_greedy env \<longleftrightarrow>
     (\<forall>k v. CHR ''='' \<notin> set v \<longrightarrow> env_regex env (k @ CHR ''='' # v) = Some (k, v)) \<and>
     (\<forall>s. CHR ''='' \<notin> set s \<longrightarrow> env_regex env s = None)"

text \<open>The two casts read the same number, and a printed 32-bit number has at most ten digits.\<close>

definition casts_ok :: "environment \<Rightarrow> bool" where
  "casts_ok env \<longleftrightarrow>
     (\<forall>v n. env_cast env v = Some n \<longrightarrow> n < 2 ^ 32 \<longrightarrow> env_cast32 env v = Some (of_nat n)) \<and>
     (\<forall>n < 2 ^ 32. length (env_show env n) \<le> 10)"

section \<open>An example environment\<close>

definition split_last :: "string \<Rightarrow> (string \<times> string) option" where
  "split_last s =
     (if CHR ''='' \<in> set s
      then Some (rev (tl (dropWhile (\<lambda>c. c \<noteq> CHR ''='') (rev s))), rev (takeWhile (\<lambda>c. c \<noteq> CHR ''='') (rev s)))
      else None)"

text \<open>Decimal numbers without sign.\<close>

definition digit :: "char \<Rightarrow> nat option" where
  "digit c = (let n = (of_char c :: nat) in if 48 \<le> n \<and> n \<le> 57 then Some (n - 48) else None)"

fun decimal_acc :: "nat \<Rightarrow> string \<Rightarrow> nat option" where
  "decimal_acc n [] = Some n"
| "decimal_acc n (c # cs) = (case digit c of None \<Rightarrow> None | Some d \<Rightarrow> decimal_acc (10 * n + d) cs)"

definition decimal :: "string \<Rightarrow> nat option" where
  "decimal s = (if s = [] then None else decimal_acc 0 s)"

fun show_digits :: "nat \<Rightarrow> nat \<Rightarrow> string" where
  "show_digits 0 n = []"
| "show_digits (Suc k) n =
     (if n < 10 then [char_of (48 + n)] else show_digits k (n div 10) @ [char_of (48 + n mod 10)])"

definition ex_env :: environment where
  "ex_env =
     \<lparr>env_regex = split_last, env_cast = decimal, env_cast32 = (\<lambda>s. map_option of_nat (decimal s)),
      env_show = show_digits 10, env_config = [''GlobalTargetName'' \<mapsto> ''iqn.t''],
      env_initiator = (\<lambda>s. s = ''iqn.i''),
      env_newInitiator = (\<lambda>s. Some \<lparr>ini_luns = [], ini_MaxRecvDataSegmentLength = 8192, ini_alias = [], ini_authens = []\<rparr>),
      env_ports = [''[10.0.0.1]:3260''], env_isAnyAddr = (\<lambda>_. False), env_nics = (\<lambda>_. None),
      env_junk = 0, env_mem = (\<lambda>_. 0)\<rparr>"

lemma split_last_greedy: "CHR ''='' \<notin> set v \<Longrightarrow> split_last (k @ CHR ''='' # v) = Some (k, v)"
proof -
  assume v: "CHR ''='' \<notin> set v"
  then have "takeWhile (\<lambda>c. c \<noteq> CHR ''='') (rev v @ CHR ''='' # rev k) = rev v"
    "dropWhile (\<lambda>c. c \<noteq> CHR ''='') (rev v @ CHR ''='' # rev k) = CHR ''='' # rev k"
    by (auto simp: takeWhile_append dropWhile_append)
  then show ?thesis by (simp add: split_last_def)
qed

lemma ex_regex_greedy: "regex_greedy ex_env"
  using split_last_greedy by (simp add: regex_greedy_def ex_env_def) (simp add: split_last_def)

lemma length_show_digits: "length (show_digits k n) \<le> k"
  by (induction k arbitrary: n) auto

lemma ex_casts_ok: "casts_ok ex_env"
  using length_show_digits [of 10] by (simp add: casts_ok_def ex_env_def)

section \<open>Writing and reading keys\<close>

lemma char_of_byte [simp]: "char_of (unat (of_char c :: u8)) = c"
proof -
  have "unat (of_char c :: u8) = unat (of_nat (of_char c) :: u8)" by (simp only: of_nat_of_char)
  also have "\<dots> = (of_char c :: nat) mod 256" by (simp only: unat_of_nat) simp
  also have "\<dots> = of_char c" by simp
  finally show ?thesis by simp
qed

lemma of_char_zero: "(of_char c :: u8) = 0 \<longleftrightarrow> c = CHR 0x00"
proof
  assume "(of_char c :: u8) = 0"
  then have "(of_char (char_of (unat (of_char c :: u8))) :: nat) = of_char (char_of (0::nat))" by simp
  then have "(of_char c :: nat) = of_char (CHR 0x00)" by (simp only: char_of_byte) simp
  then show "c = CHR 0x00" by (simp only: of_char_eq_iff)
qed simp

lemma length_chars [simp]: "length (chars s) = length s"
  by (simp add: chars_def)

lemma chars_nth [simp]: "i < length s \<Longrightarrow> chars s ! i = of_char (s ! i)"
  by (simp add: chars_def)

lemma c_string_reads:
  "(\<forall>i < length s. m (ptr + i) = of_char (s ! i)) \<Longrightarrow> m (ptr + length s) = 0 \<Longrightarrow> CHR 0x00 \<notin> set s \<Longrightarrow>
     ptr + length s < lim \<Longrightarrow> c_string m lim ptr = Inr s"
proof (induction s arbitrary: ptr)
  case Nil
  then show ?case by (subst c_string.simps) simp
next
  case (Cons c s)
  from Cons.prems(1) have c: "m ptr = of_char c" by fastforce
  have "m (Suc ptr + i) = of_char (s ! i)" if "i < length s" for i
    using Cons.prems(1) that by (metis add_Suc_shift length_Cons not_less_eq nth_Cons_Suc)
  then have "c_string m lim (Suc ptr) = Inr s" using Cons by simp
  moreover have "m ptr \<noteq> 0" using c Cons.prems(3) of_char_zero by auto
  ultimately show ?case using c Cons.prems(4) by (subst c_string.simps) simp
qed

definition kv_bytes :: "pairs \<Rightarrow> u8 list" where
  "kv_bytes ps = concat (map (\<lambda>(k, v). chars (k @ CHR ''='' # v) @ [0]) ps)"

lemma kv_bytes_simps [simp]:
  "kv_bytes [] = []" "kv_bytes ((k, v) # ps) = chars (k @ CHR ''='' # v) @ 0 # kv_bytes ps"
  "kv_bytes (ps @ qs) = kv_bytes ps @ kv_bytes qs"
  by (simp_all add: kv_bytes_def)

text \<open>Keys that survive the way: no null character, no equals sign in the value.\<close>

definition pair_clean :: "string \<times> string \<Rightarrow> bool" where
  "pair_clean p \<longleftrightarrow> CHR 0x00 \<notin> set (fst p) \<and> CHR 0x00 \<notin> set (snd p) \<and> CHR ''='' \<notin> set (snd p)"

definition pair_accepted :: "environment \<Rightarrow> (string \<rightharpoonup> pair_validator) \<Rightarrow> string \<times> string \<Rightarrow> bool" where
  "pair_accepted env vs p \<longleftrightarrow> (\<exists>w. vs (fst p) = Some w \<and> pair_valid env w (snd p) = Inr True)"

lemma parsePair_accepted:
  "pair_accepted env vs p \<Longrightarrow> parsePair env vs p ps = Inr (True, ps @ [p])"
  by (auto simp: pair_accepted_def parsePair_def)

text \<open>The reference for the pointer walk: the keys one after the other, as a list.\<close>

fun parse_reference ::
  "environment \<Rightarrow> (string \<rightharpoonup> pair_validator) \<Rightarrow> pairs \<Rightarrow> pairs \<Rightarrow> (bool \<times> pairs) exec" where
  "parse_reference env vs [] acc = Inr (True, acc)"
| "parse_reference env vs (p # ps) acc =
     exec_bind (parsePair env vs p acc) (\<lambda>(ok, acc1).
       if \<not> ok then Inr (False, acc1) else parse_reference env vs ps acc1)"

definition mem_holds :: "(nat \<Rightarrow> u8) \<Rightarrow> nat \<Rightarrow> u8 list \<Rightarrow> bool" where
  "mem_holds m ptr bs \<longleftrightarrow> (\<forall>i < length bs. m (ptr + i) = bs ! i)"

lemma parse_pairs_walk:
  assumes greedy: "regex_greedy env"
  shows "mem_holds m ptr (kv_bytes ps) \<Longrightarrow> ptr + length (kv_bytes ps) \<le> lim \<Longrightarrow> (\<forall>p \<in> set ps. pair_clean p) \<Longrightarrow>
    parse_pairs env vs m lim ptr (int (length (kv_bytes ps))) acc = parse_reference env vs ps acc"
proof (induction ps arbitrary: ptr acc)
  case Nil
  then show ?case by (subst parse_pairs.simps) simp
next
  case (Cons p ps)
  obtain k v where p: "p = (k, v)" by fastforce
  let ?s = "k @ CHR ''='' # v"
  have len: "length (kv_bytes (p # ps)) = Suc (length ?s) + length (kv_bytes ps)" using p by simp
  from Cons.prems(1) have all: "\<And>i. i < length (kv_bytes (p # ps)) \<Longrightarrow> m (ptr + i) = kv_bytes (p # ps) ! i"
    unfolding mem_holds_def by blast
  have s: "m (ptr + i) = of_char (?s ! i)" if "i < length ?s" for i
    using all [of i] that p len by (simp add: nth_append del: append_Cons append_assoc)
  have z: "m (ptr + length ?s) = 0" using all [of "length ?s"] p len by (simp add: nth_append)
  have rest: "mem_holds m (ptr + (length ?s + 1)) (kv_bytes ps)"
    unfolding mem_holds_def
  proof (intro allI impI)
    fix i
    assume "i < length (kv_bytes ps)"
    then show "m (ptr + (length ?s + 1) + i) = kv_bytes ps ! i"
      using all [of "length ?s + 1 + i"] p len by (simp add: nth_append add.assoc)
  qed
  have clean: "pair_clean p" using Cons.prems(3) by simp
  have "c_string m lim ptr = Inr ?s"
    using s z clean p Cons.prems(2) len by (intro c_string_reads) (auto simp: pair_clean_def)
  moreover have "GetKeyValuePair env ?s = p"
    using greedy clean p by (simp add: regex_greedy_def GetKeyValuePair_def pair_clean_def)
  moreover have "parse_pairs env vs m lim (ptr + (length ?s + 1)) (int (length (kv_bytes ps))) acc1 =
      parse_reference env vs ps acc1" for acc1
    using Cons.prems len rest by (intro Cons.IH) auto
  ultimately show ?case using len
    by (subst parse_pairs.simps) (cases "parsePair env vs p acc", auto split: prod.split)
qed

text \<open>C20. The walk over the null-terminated strings of a data segment, with its decreasing length and
  moving pointer, does the same as a loop over the list of keys: same pairs, same refusal, same
  exception. It holds for all texts whose keys and values contain no null character and whose values
  contain no equals sign.\<close>

theorem parse_pairs_equals_reference:
  assumes "regex_greedy env" and "\<forall>p \<in> set ps. pair_clean p"
    and "mem_holds m ptr (kv_bytes ps)" and "ptr + length (kv_bytes ps) \<le> lim"
  shows "parse_pairs env vs m lim ptr (int (length (kv_bytes ps))) acc = parse_reference env vs ps acc"
  using assms by (intro parse_pairs_walk)

theorem parse_pairs_equals_reference_witness:
  "parse_pairs ex_env login_validators (\<lambda>i. (kv_bytes [(''IFMarker'', ''No''), (''Nonsense'', ''x'')] @ [0]) ! i) 50 0
     (int (length (kv_bytes [(''IFMarker'', ''No''), (''Nonsense'', ''x'')]))) [] = Inr (False, [(''IFMarker'', ''No'')])"
proof -
  let ?ps = "[(''IFMarker'', ''No''), (''Nonsense'', ''x'')]"
  have c: "\<forall>p \<in> set ?ps. pair_clean p" by (simp add: pair_clean_def)
  have m: "mem_holds (\<lambda>i. (kv_bytes ?ps @ [0]) ! i) 0 (kv_bytes ?ps)"
    unfolding mem_holds_def by (simp only: nth_append add_0) simp
  have l: "0 + length (kv_bytes ?ps) \<le> 50" by simp
  have r: "parse_reference ex_env login_validators ?ps [] = Inr (False, [(''IFMarker'', ''No'')])"
    by (simp add: parsePair_def login_validators_def login_validator_list_def pair_valid_def VALUE_MAXLEN_def)
  from parse_pairs_equals_reference [OF ex_regex_greedy c m l, of login_validators "[]"]
  show ?thesis by (simp only: r)
qed

lemma parse_reference_accepted:
  "\<forall>p \<in> set ps. pair_accepted env vs p \<Longrightarrow> parse_reference env vs ps acc = Inr (True, acc @ ps)"
  by (induction ps arbitrary: acc) (simp_all add: parsePair_accepted)

lemma parse_reference_append:
  "\<forall>p \<in> set ps. pair_accepted env vs p \<Longrightarrow> parse_reference env vs (ps @ qs) acc = parse_reference env vs qs (acc @ ps)"
  by (induction ps arbitrary: acc) (simp_all add: parsePair_accepted)

text \<open>The calls of \<^verbatim>\<open>addKeyValue\<close> that fill a response.\<close>

fun add_pairs :: "pairs \<Rightarrow> kv_data \<Rightarrow> kv_data exec" where
  "add_pairs [] g = Inr g"
| "add_pairs ((k, v) # ps) g = exec_bind (addKeyValue k v g) (add_pairs ps)"

definition kv_holds :: "pairs \<Rightarrow> kv_data \<Rightarrow> bool" where
  "kv_holds ps g \<longleftrightarrow> map (kv_mem g) [0..<length (kv_bytes ps)] = kv_bytes ps \<and>
     kv_tail g = 48 + length (kv_bytes ps) \<and> kv_tail g \<le> COMMON_BUF_SIZE \<and> unat (kv_total g) = length (kv_bytes ps)"

lemma kv_holds_new: "kv_holds [] (new_kv_data mem)"
  by (simp add: kv_holds_def new_kv_data_def COMMON_BUF_SIZE_def)

lemma addKeyValue_holds:
  assumes "kv_holds ps g" and "48 + length (kv_bytes (ps @ [(k, v)])) \<le> COMMON_BUF_SIZE"
  shows "\<exists>g'. addKeyValue k v g = Inr g' \<and> kv_holds (ps @ [(k, v)]) g'"
proof -
  let ?bs = "chars (k @ CHR ''='' # v) @ [0]" and ?at = "length (kv_bytes ps)"
  let ?g' = "\<lparr>kv_mem = (\<lambda>i. if ?at \<le> i \<and> i < ?at + length ?bs then ?bs ! (i - ?at) else kv_mem g i),
    kv_tail = kv_tail g + length ?bs, kv_total = kv_total g + of_nat (length ?bs)\<rparr>"
  have t: "kv_tail g = 48 + ?at" and u: "unat (kv_total g) = ?at" using assms(1) by (auto simp: kv_holds_def)
  have all: "kv_bytes (ps @ [(k, v)]) = kv_bytes ps @ ?bs" by simp
  have le: "48 + ?at + length ?bs \<le> COMMON_BUF_SIZE" using assms(2) unfolding all by simp
  have "addKeyValue k v g = Inr ?g'"
    using le t by (simp add: addKeyValue_def kv_step_def COMMON_ALLOC_SIZE_def Let_def)
  moreover have "map (kv_mem ?g') [0..<?at + length ?bs] = kv_bytes ps @ ?bs"
  proof (rule nth_equalityI)
    fix i
    assume "i < length (map (kv_mem ?g') [0..<?at + length ?bs])"
    then have i: "i < ?at + length ?bs" by simp
    have old: "kv_mem g i = kv_bytes ps ! i" if "i < ?at"
      using assms(1) that unfolding kv_holds_def
      by (metis add_0 diff_zero length_upt nth_map nth_upt)
    show "map (kv_mem ?g') [0..<?at + length ?bs] ! i = (kv_bytes ps @ ?bs) ! i"
    proof (cases "i < ?at")
      case True
      with i old show ?thesis by (simp add: nth_append)
    next
      case False
      with i show ?thesis by (simp only: nth_map_upt nth_append) simp
    qed
  qed simp
  moreover have "unat (kv_total g + of_nat (length ?bs)) = ?at + length ?bs"
  proof -
    have b: "unat (of_nat (length ?bs) :: u32) = length ?bs"
      using le by (simp only: unat_of_nat) (simp add: COMMON_BUF_SIZE_def)
    show ?thesis unfolding unat_word_ariths b u using le by (simp add: COMMON_BUF_SIZE_def)
  qed
  ultimately show ?thesis using le t by (intro exI [of _ ?g']) (simp add: kv_holds_def)
qed

lemma add_pairs_holds:
  "kv_holds qs g \<Longrightarrow> 48 + length (kv_bytes (qs @ ps)) \<le> COMMON_BUF_SIZE \<Longrightarrow>
     \<exists>g'. add_pairs ps g = Inr g' \<and> kv_holds (qs @ ps) g'"
proof (induction ps arbitrary: qs g)
  case (Cons p ps)
  obtain k v where p: "p = (k, v)" by fastforce
  have "48 + length (kv_bytes (qs @ [(k, v)])) \<le> COMMON_BUF_SIZE" using Cons.prems(2) p by simp
  from addKeyValue_holds [OF Cons.prems(1) this] obtain g1 where
    g1: "addKeyValue k v g = Inr g1" "kv_holds (qs @ [(k, v)]) g1" by blast
  from Cons.IH [OF g1(2)] Cons.prems(2) p g1(1) show ?case by simp
qed auto

text \<open>C21. The keys that a generator writes into a response are the keys that the parser of requests cuts out
  of the same bytes, in the same order, with the length that the header announces: for all pairs that the
  parser's validators accept, whose keys and values hold no null character and whose values hold no equals sign,
  as long as the response fits the buffer.\<close>

theorem key_value_roundtrip:
  assumes "regex_greedy env" and "\<forall>p \<in> set ps. pair_clean p \<and> pair_accepted env vs p"
    and "48 + length (kv_bytes ps) \<le> COMMON_BUF_SIZE" and "COMMON_BUF_SIZE \<le> lim"
  shows "\<exists>g. add_pairs ps (new_kv_data mem) = Inr g \<and>
    parse_pairs env vs (kv_mem g) lim 0 (int (unat (kv_total g))) [] = Inr (True, ps)"
proof -
  from add_pairs_holds [OF kv_holds_new, of ps mem] assms(3) obtain g where
    g: "add_pairs ps (new_kv_data mem) = Inr g" "kv_holds ps g" by auto
  have "kv_mem g (0 + i) = kv_bytes ps ! i" if "i < length (kv_bytes ps)" for i
    using g(2) that unfolding kv_holds_def by (metis add_0 diff_zero length_upt nth_map nth_upt)
  then have "mem_holds (kv_mem g) 0 (kv_bytes ps)" by (simp add: mem_holds_def)
  from parse_pairs_walk [OF assms(1) this, of lim vs "[]"] assms(2-4) parse_reference_accepted [of ps env vs "[]"]
  have P: "parse_pairs env vs (kv_mem g) lim 0 (int (length (kv_bytes ps))) [] = Inr (True, ps)" by simp

  have "unat (kv_total g) = length (kv_bytes ps)" using g(2) by (simp add: kv_holds_def)
  then show ?thesis using g(1) P by metis
qed

theorem key_value_roundtrip_witness:
  "\<exists>g. add_pairs [(''SessionType'', ''Normal''), (''InitialR2T'', ''No'')] (new_kv_data (\<lambda>_. 0)) = Inr g \<and>
     parse_pairs ex_env login_validators (kv_mem g) COMMON_BUF_SIZE 0 (int (unat (kv_total g))) [] =
       Inr (True, [(''SessionType'', ''Normal''), (''InitialR2T'', ''No'')])"
  by (rule key_value_roundtrip [OF ex_regex_greedy])
    (simp_all add: pair_clean_def pair_accepted_def login_validators_def login_validator_list_def pair_valid_def VALUE_MAXLEN_def
      COMMON_BUF_SIZE_def)

text \<open>A value that contains an equals sign is cut at the last one: the text before it becomes part of the
  key, which is then unknown, and the request is refused.\<close>

lemma value_with_equals_refused:
  assumes "regex_greedy env" and "CHR ''='' \<notin> set v" and "vs (k @ CHR ''='' # u) = None"
  shows "parsePair env vs (GetKeyValuePair env (k @ CHR ''='' # u @ CHR ''='' # v)) ps = Inr (False, ps)"
proof -
  have "env_regex env ((k @ CHR ''='' # u) @ CHR ''='' # v) = Some (k @ CHR ''='' # u, v)"
    using assms(1,2) unfolding regex_greedy_def by blast
  then show ?thesis using assms(3) by (simp add: GetKeyValuePair_def parsePair_def)
qed

section \<open>Handling a validated key\<close>

definition num_attrs :: "string list" where
  "num_attrs = [''DefaultTime2Wait'', ''DefaultTime2Retain'', ''MaxBurstLength'', ''FirstBurstLength'',
     ''MaxConnections'', ''MaxOutstandingR2T'', ''ErrorRecoveryLevel'', ''MaxRecvDataSegmentLength'']"

definition bool_attrs :: "string list" where
  "bool_attrs = [''InitialR2T'', ''ImmediateData'', ''IFMarker'', ''OFMarker'', ''DataPDUInOrder'',
     ''DataSequenceInOrder'']"

text \<open>Every attribute is there with the type that the code reads it with.\<close>

definition attrs_typed :: "iscsi_session \<Rightarrow> bool" where
  "attrs_typed s \<longleftrightarrow> (\<forall>a \<in> set num_attrs. \<exists>n. ses_attrs s a = Some (AttrNum n)) \<and>
     (\<forall>a \<in> set bool_attrs. \<exists>b. ses_attrs s a = Some (AttrBool b))"

lemma attrs_typed_new: "attrs_typed (iSCSISession num flag)"
  by (simp add: attrs_typed_def iSCSISession_def num_attrs_def bool_attrs_def)

lemma attrs_disjoint: "a \<in> set num_attrs \<Longrightarrow> a \<notin> set bool_attrs"
  by (auto simp: num_attrs_def bool_attrs_def)

lemma attrs_typed_set:
  "attrs_typed s \<Longrightarrow> a \<in> set num_attrs \<Longrightarrow> attrs_typed (setAttr a (AttrNum n) s)"
  "attrs_typed s \<Longrightarrow> a \<in> set bool_attrs \<Longrightarrow> attrs_typed (setAttr a (AttrBool b) s)"
  using attrs_disjoint by (auto simp: attrs_typed_def setAttr_def)

lemma addKeyValue_room:
  "kv_tail g + (length k + length v + 2) \<le> COMMON_ALLOC_SIZE \<Longrightarrow>
     \<exists>g'. addKeyValue k v g = Inr g' \<and> kv_tail g' \<le> kv_tail g + (length k + length v + 2)"
  by (auto simp: addKeyValue_def kv_step_def Let_def)

text \<open>What handling a key keeps of the session, besides the attributes and the initiator.\<close>

definition login_frame :: "iscsi_session \<Rightarrow> iscsi_session \<Rightarrow> bool" where
  "login_frame s s' \<longleftrightarrow> ses_type s' = ses_type s \<and> ses_sid s' = ses_sid s \<and> ses_tsih s' = ses_tsih s \<and>
     ses_tasks s' = ses_tasks s \<and> ses_ports s' = ses_ports s \<and> ses_tokens s' = ses_tokens s \<and>
     ses_protos s' = ses_protos s \<and> (ses_initiator s \<noteq> None \<longrightarrow> ses_initiator s' \<noteq> None)"

lemma login_frame_refl [simp]: "login_frame s s"
  by (simp add: login_frame_def)

lemma login_frame_trans: "login_frame a b \<Longrightarrow> login_frame b c \<Longrightarrow> login_frame a c"
  by (auto simp: login_frame_def)

lemma upd_initiator_frame: "upd_initiator f s = Inr s' \<Longrightarrow> login_frame s s' \<and> ses_attrs s' = ses_attrs s"
  by (auto simp: upd_initiator_def exec_bind_Inr login_frame_def)

lemma setAttr_frame [simp]: "login_frame s (setAttr a v s)"
  by (simp add: login_frame_def setAttr_def)

text \<open>The room that the longest answer to one key needs.\<close>

definition KEY_ROOM :: nat where "KEY_ROOM = 64"

text \<open>One key: the result of its handler is a value, the buffer has grown by at most the room of one key,
  the attributes keep their types, and nothing else of the session has changed.\<close>

definition key_done :: "iscsi_session \<Rightarrow> kv_data \<Rightarrow> pair_result \<Rightarrow> bool" where
  "key_done s g res \<longleftrightarrow> (\<exists>ok s' g'. res = Inr (ok, s', g') \<and> attrs_typed s' \<and> login_frame s s' \<and>
     kv_tail g' \<le> kv_tail g + KEY_ROOM)"

lemma key_done_same: "attrs_typed s \<Longrightarrow> key_done s g (Inr (ok, s, g))"
  by (simp add: key_done_def)

lemma key_done_add:
  assumes "kv_tail g + KEY_ROOM \<le> COMMON_ALLOC_SIZE" and "length k + length v \<le> 62"
    and "attrs_typed s'" and "login_frame s s'"
  shows "key_done s g (exec_bind (addKeyValue k v g) (\<lambda>g1. Inr (True, s', g1)))"
proof -
  have "kv_tail g + (length k + length v + 2) \<le> COMMON_ALLOC_SIZE" using assms(1,2) by (simp add: KEY_ROOM_def)
  from addKeyValue_room [OF this] obtain g' where
    "addKeyValue k v g = Inr g'" "kv_tail g' \<le> kv_tail g + (length k + length v + 2)" by blast
  then show ?thesis using assms(2-4) by (auto simp: key_done_def KEY_ROOM_def)
qed

lemma unat_less32: "unat (n :: u32) < 2 ^ 32" "unat (m :: u16) < 2 ^ 32"
proof -
  have "unat n < 2 ^ LENGTH(32)" "unat m < 2 ^ LENGTH(16)" by (rule unsigned_less)+
  then show "unat n < 2 ^ 32" "unat m < 2 ^ 32" by simp_all
qed

lemma show_short: "casts_ok env \<Longrightarrow> length (env_show env (unat (n :: u32))) \<le> 10"
  "casts_ok env \<Longrightarrow> length (env_show env (unat (m :: u16))) \<le> 10"
  using unat_less32 unfolding casts_ok_def by blast+

lemma attr_length: "a \<in> set num_attrs \<union> set bool_attrs \<Longrightarrow> length a \<le> 24"
  by (auto simp: num_attrs_def bool_attrs_def)

lemma getAttr_typed:
  "attrs_typed s \<Longrightarrow> a \<in> set num_attrs \<Longrightarrow> \<exists>n. getAttr a s = Some (AttrNum n)"
  "attrs_typed s \<Longrightarrow> a \<in> set bool_attrs \<Longrightarrow> \<exists>b. getAttr a s = Some (AttrBool b)"
  by (auto simp: attrs_typed_def getAttr_def)

lemma negotiate_num_eq:
  "getAttr a s = Some (AttrNum old) \<Longrightarrow> env_cast32 env v = Some n \<Longrightarrow>
     negotiate_num f i env a v s g =
       exec_bind (addKeyValue a (env_show env (unat (f old n))) g)
         (\<lambda>g1. Inr (True, setAttr a (AttrNum (f old n)) s, g1))"
  by (simp add: negotiate_num_def getAttr_num_def cast32_def Let_def)

lemma negotiate_bool_eq:
  "getAttr a s = Some (AttrBool old) \<Longrightarrow>
     negotiate_bool f a v s g =
       exec_bind (addKeyValue a (if f old (v = ''Yes'') then ''Yes'' else ''No'') g)
         (\<lambda>g1. Inr (True, setAttr a (AttrBool (f old (v = ''Yes''))) s, g1))"
  by (simp add: negotiate_bool_def getAttr_bool_def Let_def)

lemma negotiate_num_done:
  assumes "kv_tail g + KEY_ROOM \<le> COMMON_ALLOC_SIZE" and "casts_ok env" and "attrs_typed s"
    and "a \<in> set num_attrs" and "env_cast32 env v = Some n"
  shows "key_done s g (negotiate_num f i env a v s g)"
proof -
  from getAttr_typed(1) [OF assms(3,4)] obtain old where "getAttr a s = Some (AttrNum old)" by blast
  from negotiate_num_eq [OF this assms(5)] show ?thesis
    using attr_length [of a] show_short(1) [OF assms(2), of "f old n"] assms
    by (simp add: key_done_add attrs_typed_set)
qed

lemma negotiate_bool_done:
  assumes "kv_tail g + KEY_ROOM \<le> COMMON_ALLOC_SIZE" and "attrs_typed s" and "a \<in> set bool_attrs"
  shows "key_done s g (negotiate_bool f a v s g)"
proof -
  from getAttr_typed(2) [OF assms(2,3)] obtain old where "getAttr a s = Some (AttrBool old)" by blast
  from negotiate_bool_eq [OF this] show ?thesis
    using attr_length [of a] assms by (simp add: key_done_add attrs_typed_set)
qed

lemma InitiatorName_done:
  assumes "kv_tail g + KEY_ROOM \<le> COMMON_ALLOC_SIZE" and "casts_ok env" and "attrs_typed s"
  shows "key_done s g (InitiatorName_handle env v s g)"
proof (cases "env_newInitiator env v")
  case None
  then show ?thesis using assms(3) by (simp add: InitiatorName_handle_def key_done_same)
next
  case (Some ini)
  let ?s = "if ses_type s = iSCSI_DISCOVERY_SESSION then s\<lparr>ses_initiator := Some ini, ses_tag := 1\<rparr>
    else s\<lparr>ses_initiator := Some ini\<rparr>"
  have "InitiatorName_handle env v s g =
      exec_bind (addKeyValue ''TargetPortalGroupTag'' (env_show env (unat (ses_tag ?s))) g)
        (\<lambda>g1. Inr (True, ?s, g1))"
    using Some by (simp add: InitiatorName_handle_def)
  moreover have "attrs_typed ?s" "login_frame s ?s" using assms(3) by (auto simp: attrs_typed_def login_frame_def)
  ultimately show ?thesis using show_short(2) [OF assms(2), of "ses_tag ?s"] assms(1)
    by (simp only:) (rule key_done_add, simp_all)
qed

lemma InitiatorName_sets: "InitiatorName_handle env v s g = Inr (True, s', g') \<Longrightarrow> ses_initiator s' \<noteq> None"
  by (auto simp: InitiatorName_handle_def Let_def split: option.splits if_splits elim!: exec_bind.elims)

lemma upd_initiator_done:
  "ses_initiator s \<noteq> None \<Longrightarrow> \<exists>s'. upd_initiator f s = Inr s' \<and> login_frame s s' \<and> ses_attrs s' = ses_attrs s \<and>
     ses_initiator s' \<noteq> None"
  by (auto simp: upd_initiator_def login_frame_def)

lemma attrs_typed_cong: "ses_attrs s' = ses_attrs s \<Longrightarrow> attrs_typed s' \<longleftrightarrow> attrs_typed s"
  by (simp add: attrs_typed_def)

lemma AuthMethod_done:
  assumes "kv_tail g + KEY_ROOM \<le> COMMON_ALLOC_SIZE" and "attrs_typed s" and "ses_initiator s \<noteq> None"
  shows "key_done s g (AuthMethod_handle v s g)"
proof -
  let ?st = "type_getStr (ses_type s)"
  from upd_initiator_done [OF assms(3), of "addAuthInfo ''CHAP'' ?st"] obtain s1 where
    s1: "upd_initiator (addAuthInfo ''CHAP'' ?st) s = Inr s1" "login_frame s s1" "ses_attrs s1 = ses_attrs s"
      "ses_initiator s1 \<noteq> None" by blast
  let ?s1 = "if contains ''CHAP'' v then s1 else s"
  have i1: "ses_initiator ?s1 \<noteq> None" using s1(4) assms(3) by simp
  from upd_initiator_done [OF i1, of "addAuthInfo ''None'' ?st"] obtain s2 where
    s2: "upd_initiator (addAuthInfo ''None'' ?st) ?s1 = Inr s2" "login_frame ?s1 s2" "ses_attrs s2 = ses_attrs ?s1"
    by blast
  let ?s2 = "if contains ''None'' v then s2 else ?s1"
  let ?m1 = "if contains ''CHAP'' v then ''CHAP'' else ''''"
  let ?m2 = "if contains ''None'' v then if length ?m1 > 0 then ?m1 @ '',None'' else ''None'' else ?m1"
  have "AuthMethod_handle v s g = exec_bind (addKeyValue ''AuthMethod'' ?m2 g) (\<lambda>g1. Inr (True, ?s2, g1))"
    using s1(1) s2(1) by (cases "contains ''CHAP'' v"; cases "contains ''None'' v")
      (simp_all add: AuthMethod_handle_def del: contains.simps)
  moreover have "login_frame s ?s2"
    using s1(2) s2(2) login_frame_trans by (cases "contains ''CHAP'' v"; cases "contains ''None'' v") auto
  moreover have "ses_attrs ?s2 = ses_attrs s" using s1(3) s2(3) by simp
  then have "attrs_typed ?s2" using assms(2) attrs_typed_cong by blast
  ultimately show ?thesis using assms(1) by (simp only:) (rule key_done_add, simp_all)
qed

lemma Digest_done:
  assumes "kv_tail g + KEY_ROOM \<le> COMMON_ALLOC_SIZE" and "attrs_typed s" and "length a \<le> 24"
  shows "key_done s g (Digest_handle env a v s g)"
  unfolding Digest_handle_def Let_def using assms by (intro key_done_add) simp_all

lemma MaxRecv_done:
  assumes "kv_tail g + KEY_ROOM \<le> COMMON_ALLOC_SIZE" and "casts_ok env" and "attrs_typed s"
    and "ses_initiator s \<noteq> None" and "env_cast32 env v = Some n"
  shows "key_done s g (MaxRecv_handle env v s g)"
proof -
  from upd_initiator_done [OF assms(4), of "\<lambda>ini. ini\<lparr>ini_MaxRecvDataSegmentLength := n\<rparr>"] obtain s1 where
    s1: "upd_initiator (\<lambda>ini. ini\<lparr>ini_MaxRecvDataSegmentLength := n\<rparr>) s = Inr s1" "login_frame s s1"
      "ses_attrs s1 = ses_attrs s" by blast
  have t: "attrs_typed s1" using assms(3) attrs_typed_cong [OF s1(3)] by simp
  from getAttr_typed(1) [OF t, of "''MaxRecvDataSegmentLength''"] obtain mine where
    m: "getAttr ''MaxRecvDataSegmentLength'' s1 = Some (AttrNum mine)" by (auto simp: num_attrs_def)
  show ?thesis
    using s1(1,2) m t assms(1,5) show_short(1) [OF assms(2), of mine]
    by (simp add: MaxRecv_handle_def cast32_def getAttr_num_def key_done_add)
qed

text \<open>The two tables name the same keys, and fit together.\<close>

definition ranged :: "pair_validator \<Rightarrow> bool" where
  "ranged w \<longleftrightarrow> (\<exists>mn mx. w = RangeCastValidator mn mx \<and> mx < 2 ^ 32)"

definition handler_fits :: "string \<Rightarrow> pair_validator \<Rightarrow> pair_handler \<Rightarrow> bool" where
  "handler_fits k w h \<longleftrightarrow>
     (case h of
        InitiatorNameHandler \<Rightarrow> k = ''InitiatorName''
      | DigestHandler a \<Rightarrow> length a \<le> 24
      | MaxRecvDataSegmentLengthHandler \<Rightarrow> ranged w
      | NegotiateMaxHandler a \<Rightarrow> a = k \<and> a \<in> set num_attrs \<and> ranged w
      | NegotiateMinHandler a \<Rightarrow> a = k \<and> a \<in> set num_attrs \<and> ranged w
      | NormalMinHandler a \<Rightarrow> a = k \<and> a \<in> set num_attrs \<and> ranged w
      | NormalOrHandler a \<Rightarrow> a = k \<and> a \<in> set bool_attrs
      | NormalAndHandler a \<Rightarrow> a = k \<and> a \<in> set bool_attrs
      | NegotiateAndHandler a \<Rightarrow> a = k \<and> a \<in> set bool_attrs
      | _ \<Rightarrow> True)"

lemma login_tables_checked:
  "\<forall>p \<in> set login_validator_list. \<exists>h. login_handlers (fst p) = Some h \<and> handler_fits (fst p) (snd p) h"
  unfolding login_validator_list_def
  by (simp add: login_handlers_def handler_fits_def ranged_def num_attrs_def bool_attrs_def
      SEGMENT_LEN_MAX_def)

lemma login_tables_fit:
  assumes "login_validators k = Some w"
  shows "\<exists>h. login_handlers k = Some h \<and> handler_fits k w h"
proof -
  from assms have "(k, w) \<in> set login_validator_list" unfolding login_validators_def by (rule map_of_SomeD)
  with login_tables_checked show ?thesis by fastforce
qed

lemma ranged_cast:
  assumes "ranged w" and "pair_valid env w v = Inr True" and "casts_ok env"
  shows "\<exists>n. env_cast32 env v = Some (of_nat n)"
  using assms by (fastforce simp: ranged_def pair_valid_def RangeCast_valid_def casts_ok_def split: option.splits)

lemma login_key_done:
  assumes "pair_accepted env login_validators (k, v)" and "casts_ok env" and "attrs_typed s"
    and "ses_initiator s \<noteq> None \<or> k = ''InitiatorName''" and "kv_tail g + KEY_ROOM \<le> COMMON_ALLOC_SIZE"
  shows "\<exists>h. login_handlers k = Some h \<and> handler_fits k (the (login_validators k)) h \<and>
    key_done s g (pair_handle env h v s g)"
proof -
  from assms(1) obtain w where w: "login_validators k = Some w" "pair_valid env w v = Inr True"
    by (auto simp: pair_accepted_def)
  from login_tables_fit [OF w(1)] obtain h where h: "login_handlers k = Some h" "handler_fits k w h" by blast
  have ini: "ses_initiator s \<noteq> None" if "h \<noteq> InitiatorNameHandler"
    using assms(4) that h(1) by (auto simp: login_handlers_def)
  have cast: "\<exists>n. env_cast32 env v = Some n" if "ranged w"
    using ranged_cast [OF that w(2) assms(2)] by blast
  have "key_done s g (pair_handle env h v s g)"
  proof (cases h)
    case InitiatorNameHandler
    then show ?thesis using InitiatorName_done [OF assms(5,2,3)] by (simp add: pair_handle_def)
  next
    case InitiatorAliasHandler
    with ini upd_initiator_done [of s "\<lambda>ini. ini\<lparr>ini_alias := v\<rparr>"] obtain s1 where
      "upd_initiator (\<lambda>ini. ini\<lparr>ini_alias := v\<rparr>) s = Inr s1" "login_frame s s1" "ses_attrs s1 = ses_attrs s" by auto
    then show ?thesis using InitiatorAliasHandler assms(3) attrs_typed_cong [of s1 s]
      by (auto simp: pair_handle_def key_done_def)
  next
    case AuthMethodHandler
    then show ?thesis using AuthMethod_done [OF assms(5,3)] ini by (simp add: pair_handle_def)
  next
    case (DigestHandler a)
    then show ?thesis using Digest_done [OF assms(5,3)] h(2) by (simp add: pair_handle_def handler_fits_def)
  next
    case MaxRecvDataSegmentLengthHandler
    then show ?thesis using MaxRecv_done [OF assms(5,2,3)] ini cast h(2)
      by (auto simp: pair_handle_def handler_fits_def)
  next
    case (NegotiateMaxHandler a)
    then show ?thesis using negotiate_num_done [OF assms(5,2,3)] cast h(2)
      by (auto simp: pair_handle_def handler_fits_def)
  next
    case (NegotiateMinHandler a)
    then show ?thesis using negotiate_num_done [OF assms(5,2,3)] cast h(2)
      by (auto simp: pair_handle_def handler_fits_def)
  next
    case (NormalMinHandler a)
    then show ?thesis using negotiate_num_done [OF assms(5,2,3)] cast h(2) key_done_same [OF assms(3)]
      by (auto simp: pair_handle_def handler_fits_def normal_only_def)
  qed (use h(2) negotiate_bool_done [OF assms(5,3)] key_done_same [OF assms(3)] in
      \<open>auto simp: pair_handle_def handler_fits_def normal_only_def\<close>)
  then show ?thesis using h w(1) by auto
qed

lemma getPairValue_in: "(k, v) \<in> set ps \<Longrightarrow> (k, getPairValue k ps) \<in> set ps"
proof (induction ps)
  case (Cons p ps)
  then show ?case by (cases p) auto
qed simp

text \<open>C16. The keys of a login request never break the program once they have passed their validators:
  every accepted key has a handler, no attribute is read at a type it does not have, no number fails
  to convert, and no null initiator is used. This holds for a session whose attributes are typed and which has an
  initiator already or gets its name as the first key, and for a response with room for \<open>KEY_ROOM\<close> bytes per key;
  then the response stays inside that room. The handlers keep the attributes typed, and leave the identity,
  connections, queue and handler table alone. Without the name in front the program breaks, see
  \<open>login_needs_name\<close>.\<close>

theorem login_keys_type_safe:
  assumes "casts_ok env" and "\<forall>p \<in> set all. pair_accepted env login_validators p"
    and "set ps \<subseteq> set all" and "attrs_typed s"
    and "ses_initiator s \<noteq> None \<or> ps \<noteq> [] \<and> fst (hd ps) = ''InitiatorName''"
    and "kv_tail g + KEY_ROOM * length ps \<le> COMMON_ALLOC_SIZE"
  shows "\<exists>ok s' g'. handle_pairs env all ps s g = Inr (ok, s', g') \<and> attrs_typed s' \<and> login_frame s s' \<and>
    kv_tail g' \<le> kv_tail g + KEY_ROOM * length ps"
  using assms(3-6)
proof (induction ps arbitrary: s g)
  case (Cons p ps)
  obtain k v where p: "p = (k, v)" by fastforce
  have "(k, getPairValue k all) \<in> set all" using Cons.prems(1) p getPairValue_in by auto
  then have acc: "pair_accepted env login_validators (k, getPairValue k all)" using assms(2) by blast
  have room: "kv_tail g + KEY_ROOM \<le> COMMON_ALLOC_SIZE" using Cons.prems(4) by (simp add: KEY_ROOM_def)
  have name: "ses_initiator s \<noteq> None \<or> k = ''InitiatorName''" using Cons.prems(3) p by simp
  from login_key_done [OF acc assms(1) Cons.prems(2) name room] obtain h ok s1 g1 where
    1: "login_handlers k = Some h" "pair_handle env h (getPairValue k all) s g = Inr (ok, s1, g1)"
      "attrs_typed s1" "login_frame s s1" "kv_tail g1 \<le> kv_tail g + KEY_ROOM"
    by (auto simp: key_done_def)
  show ?case
  proof (cases ok)
    case False
    then show ?thesis using 1 p by (auto simp: KEY_ROOM_def)
  next
    case True
    have "ses_initiator s1 \<noteq> None"
      using 1(1,2,4) True name InitiatorName_sets [of env _ s g s1 g1]
      by (auto simp: login_frame_def login_handlers_def pair_handle_def)
    moreover have "kv_tail g1 + KEY_ROOM * length ps \<le> COMMON_ALLOC_SIZE" using 1(5) Cons.prems(4) by simp
    ultimately obtain ok2 s2 g2 where 2: "handle_pairs env all ps s1 g1 = Inr (ok2, s2, g2)" "attrs_typed s2"
      "login_frame s1 s2" "kv_tail g2 \<le> kv_tail g1 + KEY_ROOM * length ps"
      using Cons.IH [of s1 g1] Cons.prems(1) 1(3) by auto
    have "handle_pairs env all (p # ps) s g = Inr (ok2, s2, g2)" using 1(1,2) 2(1) True p by simp
    moreover have "kv_tail g2 \<le> kv_tail g + KEY_ROOM * length (p # ps)" using 1(5) 2(4) by simp
    ultimately show ?thesis using 2(2) login_frame_trans [OF 1(4) 2(3)] by blast
  qed
qed auto

definition ex_login_session :: iscsi_session where
  "ex_login_session = (iSCSISession (\<lambda>_. 8192) (\<lambda>_. True))\<lparr>ses_type := iSCSI_NORMAL_SESSION,
     ses_initiator := Some \<lparr>ini_luns = [], ini_MaxRecvDataSegmentLength = 8192, ini_alias = [], ini_authens = []\<rparr>,
     ses_ports := [(3, iSCSIConnection)]\<rparr>"

theorem login_keys_type_safe_witness:
  "\<exists>ok s' g'. handle_pairs ex_env [(''InitiatorName'', ''iqn.i''), (''MaxBurstLength'', ''4096'')]
       [(''InitiatorName'', ''iqn.i''), (''MaxBurstLength'', ''4096'')] (ex_login_session\<lparr>ses_initiator := None\<rparr>)
       (new_kv_data (\<lambda>_. 0)) = Inr (ok, s', g') \<and> attrs_typed s'"
proof -
  let ?ps = "[(''InitiatorName'', ''iqn.i''), (''MaxBurstLength'', ''4096'')]" and ?s = "ex_login_session\<lparr>ses_initiator := None\<rparr>"
  have v: "decimal ''4096'' = Some 4096" by (simp add: decimal_def digit_def)
  have a: "\<forall>p \<in> set ?ps. pair_accepted ex_env login_validators p"
    using v by (simp add: pair_accepted_def login_validators_def login_validator_list_def pair_valid_def
        RangeCast_valid_def ex_env_def VALUE_MAXLEN_def SEGMENT_LEN_MIN_def SEGMENT_LEN_MAX_def)
  have t: "attrs_typed ?s"
    using attrs_typed_new attrs_typed_cong [of ?s "iSCSISession (\<lambda>_. 8192) (\<lambda>_. True)"]
    by (simp add: ex_login_session_def)
  have i: "ses_initiator ?s \<noteq> None \<or> ?ps \<noteq> [] \<and> fst (hd ?ps) = ''InitiatorName''" by simp
  have g: "kv_tail (new_kv_data (\<lambda>_. 0)) + KEY_ROOM * length ?ps \<le> COMMON_ALLOC_SIZE"
    by (simp add: new_kv_data_def KEY_ROOM_def COMMON_ALLOC_SIZE_def COMMON_BUF_SIZE_def)
  from login_keys_type_safe [OF ex_casts_ok a order_refl t i g] show ?thesis by blast
qed

section \<open>What a negotiation agrees on\<close>

definition negotiated :: "pair_handler \<Rightarrow> u32 \<Rightarrow> u32 \<Rightarrow> u32" where
  "negotiated h old offered = (case h of NegotiateMaxHandler _ \<Rightarrow> max old offered | _ \<Rightarrow> min old offered)"

lemma num_handlers:
  "\<forall>k \<in> set num_attrs. k = ''MaxRecvDataSegmentLength'' \<or> (\<exists>h. login_handlers k = Some h \<and>
     h \<in> {NegotiateMaxHandler k, NegotiateMinHandler k, NormalMinHandler k})"
  unfolding num_attrs_def by (simp add: login_handlers_def)

text \<open>The value of a numeric key after a login request is the smaller of the configured and the
  offered value (the larger one for \<^verbatim>\<open>DefaultTime2Wait\<close>), it is what the response announces, and no
  other attribute changes.\<close>

theorem negotiation_result:
  assumes "login_handlers k = Some h" and "k \<in> set num_attrs" and "k \<noteq> ''MaxRecvDataSegmentLength''"
    and "ses_type s = iSCSI_NORMAL_SESSION" and "getAttr k s = Some (AttrNum old)"
    and "env_cast32 env v = Some offered" and "pair_handle env h v s g = Inr (ok, s', g')"
  shows "ok \<and> s' = setAttr k (AttrNum (negotiated h old offered)) s \<and>
    addKeyValue k (env_show env (unat (negotiated h old offered))) g = Inr g'"
proof -
  have "h \<in> {NegotiateMaxHandler k, NegotiateMinHandler k, NormalMinHandler k}"
    using num_handlers assms(1-3) by fastforce
  then show ?thesis using assms(4-7)
    by (auto simp: pair_handle_def normal_only_def negotiate_num_eq negotiated_def exec_bind_Inr)
qed

theorem negotiation_result_witness:
  "\<exists>s' g'. pair_handle ex_env (NormalMinHandler ''MaxBurstLength'') ''4096'' ex_login_session (new_kv_data (\<lambda>_. 0)) =
      Inr (True, s', g') \<and> getAttr ''MaxBurstLength'' s' = Some (AttrNum 4096)"
proof -
  let ?h = "NormalMinHandler ''MaxBurstLength''"
  have a: "getAttr ''MaxBurstLength'' ex_login_session = Some (AttrNum 8192)"
    by (simp add: ex_login_session_def getAttr_def iSCSISession_def)
  have v: "env_cast32 ex_env ''4096'' = Some 4096" by (simp add: ex_env_def decimal_def digit_def)
  have h: "login_handlers ''MaxBurstLength'' = Some ?h" by (simp add: login_handlers_def)
  have n: "ses_type ex_login_session = iSCSI_NORMAL_SESSION" by (simp add: ex_login_session_def)
  have "kv_tail (new_kv_data (\<lambda>_. 0)) + (length ''MaxBurstLength'' + length (env_show ex_env 4096) + 2) \<le> COMMON_ALLOC_SIZE"
    using length_show_digits [of 10 4096]
    by (simp add: new_kv_data_def ex_env_def COMMON_ALLOC_SIZE_def COMMON_BUF_SIZE_def del: show_digits.simps)
  from addKeyValue_room [OF this] obtain g' where
    g: "addKeyValue ''MaxBurstLength'' (env_show ex_env 4096) (new_kv_data (\<lambda>_. 0)) = Inr g'" by blast
  have "min (8192 :: u32) 4096 = 4096" by simp
  then have p: "\<exists>s'. pair_handle ex_env ?h ''4096'' ex_login_session (new_kv_data (\<lambda>_. 0)) = Inr (True, s', g')"
    using a v g n by (simp add: pair_handle_def normal_only_def negotiate_num_eq)
  then obtain s' where s': "pair_handle ex_env ?h ''4096'' ex_login_session (new_kv_data (\<lambda>_. 0)) = Inr (True, s', g')" ..
  from negotiation_result [OF h _ _ n a v s'] have "s' = setAttr ''MaxBurstLength'' (AttrNum 4096) ex_login_session"
    by (simp add: num_attrs_def negotiated_def)
  with s' show ?thesis by (simp add: getAttr_def setAttr_def)
qed

end
