(* ===== verification/Session_Frame.thy ===== *)
theory Session_Frame
  imports Dispatch KeyValue_Correct
begin

text \<open>
  What handling one PDU leaves alone in the state that the threads share. A handler of the full
  feature phase works on its own session; a login request also moves connections between sessions,
  but it never touches the tables of the manager, the queues of other sessions or an identity that
  is already known.
\<close>

section \<open>Handlers of one session\<close>

text \<open>Tasks that create a reactor come from login requests only.\<close>

definition is_create :: "task \<Rightarrow> bool" where
  "is_create u = (case u of CreateReactor q k \<Rightarrow> True | _ \<Rightarrow> False)"

lemma is_create_simps [simp]:
  "is_create (CreateReactor q k)" "\<not> is_create (TSend k x)" "\<not> is_create (RemoveReactor q)"
  "\<not> is_create (CloseSession q)" "\<not> is_create (CloseConnection q k)"
  by (simp_all add: is_create_def)

lemma data_task_create: "data_task fd u \<Longrightarrow> \<not> is_create u"
  by (auto simp: data_task_def is_create_def)

text \<open>Identity, type and received tokens are as before, and no new reactor was asked for.\<close>

definition keeps_identity :: "iscsi_session \<Rightarrow> iscsi_session \<Rightarrow> bool" where
  "keeps_identity s s' \<longleftrightarrow> ses_type s' = ses_type s \<and> ses_sid s' = ses_sid s \<and> ses_tokens s' = ses_tokens s \<and>
     set (ses_tasks s) \<subseteq> set (ses_tasks s') \<and>
     (\<forall>u \<in> set (ses_tasks s'). is_create u \<longrightarrow> u \<in> set (ses_tasks s))"

lemma keeps_identity_refl [simp]: "keeps_identity s s"
  by (simp add: keeps_identity_def)

lemma keeps_identity_trans: "keeps_identity a b \<Longrightarrow> keeps_identity b c \<Longrightarrow> keeps_identity a c"
  by (auto simp: keeps_identity_def)

lemma frame_keeps_identity: "session_frame fd s s' \<Longrightarrow> keeps_identity s s'"
  by (auto simp: session_frame_def keeps_identity_def dest: data_task_create)

lemma quiet_keeps_identity: "quiet fd s s' \<Longrightarrow> keeps_identity s s'"
  unfolding quiet_def using frame_keeps_identity by blast

lemma set_list_merge [simp]: "set (list_merge lt xs ys) = set xs \<union> set ys"
  by (induction lt xs ys rule: list_merge.induct) auto

lemma keeps_identity_steps [simp]:
  "keeps_identity s (conn_update fd f s)"
  "\<not> is_create u \<Longrightarrow> keeps_identity s (sendtask_push u s)"
  "\<forall>u \<in> set us. \<not> is_create u \<Longrightarrow> keeps_identity s (sendtask_push_list lt us s)"
  by (auto simp: keeps_identity_def conn_update_def sendtask_push_def sendtask_push_list_def)

lemma count_command_identity: "count_command t bp s = Some (bp', s') \<Longrightarrow> keeps_identity s s'"
  using count_command_frame frame_keeps_identity by blast

lemma keeps_identity_reply [simp]:
  "keeps_identity s (sendtask_push (TSend fd x) (conn_update fd f s))"
  by (rule keeps_identity_trans [OF keeps_identity_steps(1) keeps_identity_steps(2)]) simp

lemma counted_reply [simp]:
  "count_command t bp s = Some (bp', s1) \<Longrightarrow>
     keeps_identity s (sendtask_push (TSend fd x) (conn_update fd f s1))"
  using keeps_identity_trans [OF count_command_identity keeps_identity_reply] .

lemma NopOut_identity: "NopOutHandler_handle h t fd bp s = Some (ok, bp', s') \<Longrightarrow> keeps_identity s s'"
  by (auto simp: NopOutHandler_handle_def Let_def split: if_splits option.splits dest: count_command_identity)

lemma TaskMng_identity: "TaskMngHandler_handle h t fd bp s = Some (ok, bp', s') \<Longrightarrow> keeps_identity s s'"
  by (auto simp: TaskMngHandler_handle_def Let_def split: if_splits option.splits dest: count_command_identity)

lemma NopIn_identity: "NopInHandler_handle t bp s = Some (ok, bp', s') \<Longrightarrow> keeps_identity s s'"
  by (auto simp: NopInHandler_handle_def)

lemma logout_plan_tasks: "logout_plan q t fd s = (c, us) \<Longrightarrow> \<forall>u \<in> set us. \<not> is_create u"
  by (auto simp: logout_plan_def Let_def split: if_splits)

lemma Logout_identity:
  assumes "LogoutHandler_handle h lt q t fd bp s = Some (ok, bp', s')"
  shows "keeps_identity s s'"
proof -
  obtain c us where p: "logout_plan q t fd s = (c, us)" by fastforce
  have "s' = s \<or> (\<exists>x. s' = sendtask_push_list lt (TSend fd x # us) (conn_update fd advanceSTATSN s))"
    using assms p by (auto simp: LogoutHandler_handle_def Let_def split: if_splits option.splits)
  moreover have "keeps_identity s (sendtask_push_list lt (TSend fd x # us) (conn_update fd advanceSTATSN s))" for x
    using logout_plan_tasks [OF p] keeps_identity_trans [OF keeps_identity_steps(1) keeps_identity_steps(3)] by simp
  ultimately show ?thesis by auto
qed

lemma quiet_more [simp]:
  "quiet fd s s1 \<Longrightarrow> quiet fd s (set_info itt i s1)"
  "quiet fd s s1 \<Longrightarrow> quiet fd s (sendtask_push (TSend fd x) s1)"
  "quiet fd s s1 \<Longrightarrow> quiet fd s (cache_push lb ub lun ws s1)"
  "quiet fd s s1 \<Longrightarrow> quiet fd s (snd (recvinfo_pop itt s1))"
  by (erule quiet_trans, rule quiet_steps, simp?)+

lemma send_good_more: "send_good mem fd itt s1 = Some s2 \<Longrightarrow> quiet fd s s1 \<Longrightarrow> quiet fd s s2"
  using quiet_trans [OF _ send_good_quiet] .

lemma send_good_pop_more:
  "send_good mem fd itt s1 = Some s2 \<Longrightarrow> quiet fd s s1 \<Longrightarrow> quiet fd s (snd (recvinfo_pop itt s2))"
  using quiet_more(4) [OF send_good_more] .

lemma DataOut_quiet:
  assumes "DataOutHandler_handle lb ub mem mrds t fd s = Some (ok, s')"
  shows "quiet fd s s'"
  using assms
  by (auto simp: DataOutHandler_handle_def Let_def split: if_splits option.splits prod.splits
      del: quiet_steps intro: send_good_pop_more)

lemma Text_identity:
  assumes "TextHandler_handle env t fd bp s = Inr (ok, bp', s')"
  shows "keeps_identity s s'"
proof (cases "Text_valid t")
  case True
  from assms True obtain ok1 ps where p: "request_pairs env text_validators t = Inr (ok1, ps)"
    by (auto simp: TextHandler_handle_def exec_bind_Inr)
  show ?thesis
  proof (cases ok1)
    case True
    with assms \<open>Text_valid t\<close> p obtain bp1 s1 where c: "count_command t bp s = Some (bp1, s1)"
      by (auto simp: TextHandler_handle_def split: option.splits)
    with assms \<open>Text_valid t\<close> p True obtain conn where "conn_find fd s1 = Some conn"
      by (auto simp: TextHandler_handle_def exec_bind_Inr)
    with assms \<open>Text_valid t\<close> p True c have "s' = conn_update fd advanceSTATSN s1 \<or>
        (\<exists>x. s' = sendtask_push (TSend fd x) (conn_update fd advanceSTATSN s1))"
      by (cases ps) (auto simp: TextHandler_handle_def exec_bind_Inr Let_def split: if_splits)
    then show ?thesis using c keeps_identity_trans [OF count_command_identity [OF c] keeps_identity_steps(1)]
      by auto
  qed (use assms \<open>Text_valid t\<close> p in \<open>simp add: TextHandler_handle_def\<close>)
qed (use assms in \<open>simp add: TextHandler_handle_def\<close>)

section \<open>One PDU in the shared state\<close>

text \<open>What the tables, queues and identities of the manager depend on.\<close>

definition control :: "iscsi_session \<Rightarrow> nat \<times> session_id \<times> task list \<times> token list" where
  "control s = (ses_type s, ses_sid s, ses_tasks s, ses_tokens s)"

definition tables_same :: "world \<Rightarrow> world \<Rightarrow> bool" where
  "tables_same w w' \<longleftrightarrow> w_sessions w' = w_sessions w \<and> w_reactors w' = w_reactors w \<and>
     w_next w' = w_next w \<and> w_nextReactor w' = w_nextReactor w"

definition others_same :: "nat \<Rightarrow> world \<Rightarrow> world \<Rightarrow> bool" where
  "others_same r w w' \<longleftrightarrow> tables_same w w' \<and> (\<forall>q. q \<noteq> r \<longrightarrow> control (w_heap w' q) = control (w_heap w q)) \<and>
     ses_tokens (w_heap w' r) = ses_tokens (w_heap w r)"

lemma others_same_refl [simp]: "others_same r w w"
  by (simp add: others_same_def tables_same_def)

lemma others_same_trans: "others_same r a b \<Longrightarrow> others_same r b c \<Longrightarrow> others_same r a c"
  by (simp add: others_same_def tables_same_def)

lemma control_ports [simp]:
  "control (conn_update fd f s) = control s" "control (snd (conn_add fd c s)) = control s"
  "control (snd (conn_del fd s)) = control s"
  by (auto simp: control_def conn_update_def conn_add_def conn_del_def split: option.splits)

text \<open>Steps that leave the control part of every session alone.\<close>

definition control_same :: "world \<Rightarrow> world \<Rightarrow> bool" where
  "control_same w w' \<longleftrightarrow> tables_same w w' \<and> (\<forall>q. control (w_heap w' q) = control (w_heap w q))"

lemma control_same_refl [simp]: "control_same w w"
  by (simp add: control_same_def tables_same_def)

lemma control_same_trans: "control_same a b \<Longrightarrow> control_same b c \<Longrightarrow> control_same a c"
  by (simp add: control_same_def tables_same_def)

lemma control_same_others: "control_same w w' \<Longrightarrow> others_same r w w'"
  by (simp add: control_same_def others_same_def control_def)

lemma control_same_steps [simp]:
  "control_same w (w_conn_update fd f w)" "control_same w (changeListener fd i w)"
  "control_same w (ses_update q (\<lambda>s. snd (conn_add fd c s)) w)"
  "control_same w (ses_update q (\<lambda>s. snd (conn_del fd s)) w)"
  "control_same w (clearListener fd w)" "control_same w (w\<lparr>w_pool := bp\<rparr>)"
  "control_same w (w\<lparr>w_tsih_gen := n\<rparr>)"
  by (auto simp: control_same_def tables_same_def w_conn_update_def changeListener_def ses_update_def
      clearListener_def)

lemma others_same_update:
  "ses_tokens (f (w_heap w r)) = ses_tokens (w_heap w r) \<Longrightarrow> others_same r w (ses_update r f w)"
  by (auto simp: others_same_def tables_same_def ses_update_def)

lemma others_same_replace:
  "keeps_identity (w_heap w r) s \<Longrightarrow> others_same r w (ses_update r (\<lambda>_. s) (w\<lparr>w_pool := bp\<rparr>))"
  by (auto simp: others_same_def tables_same_def ses_update_def keeps_identity_def)

lemma heap_ses_update [simp]: "w_heap (ses_update r f w) q = (if q = r then f (w_heap w r) else w_heap w q)"
  by (simp add: ses_update_def)

lemma ses_update_fields [simp]:
  "w_sessions (ses_update r f w) = w_sessions w" "w_reactors (ses_update r f w) = w_reactors w"
  "w_next (ses_update r f w) = w_next w" "w_nextReactor (ses_update r f w) = w_nextReactor w"
  "w_polls (ses_update r f w) = w_polls w" "w_pool (ses_update r f w) = w_pool w"
  by (simp_all add: ses_update_def)

section \<open>Handlers of the full feature phase\<close>

lemma on_session_Inr:
  "on_session r res w = Inr (ok, w') \<longleftrightarrow>
     (\<exists>bp s. res = Inr (ok, bp, s) \<and> w' = ses_update r (\<lambda>_. s) (w\<lparr>w_pool := bp\<rparr>))"
  by (auto simp: on_session_def exec_bind_Inr)

lemma opt_exec_Inr [simp]: "opt_exec p = Inr a \<longleftrightarrow> p = Some a"
  by (cases p) (auto simp: opt_exec_def)

lemma handler_local:
  assumes "p \<noteq> LoginHandler" and "handler_handle pg p r t fd w = Inr (ok, w')"
  shows "\<exists>bp s. w' = ses_update r (\<lambda>_. s) (w\<lparr>w_pool := bp\<rparr>) \<and> keeps_identity (w_heap w r) s"
proof (cases "\<exists>m. p = DataOutHandler m")
  case True
  with assms(2) obtain m s where "DataOutHandler_handle (h_lb (pg_host pg)) (h_ub (pg_host pg)) (h_mem (pg_host pg))
      m t fd (w_heap w r) = Some (ok, s)" and "w' = ses_update r (\<lambda>_. s) (w\<lparr>w_pool := w_pool w\<rparr>)"
    by (auto simp: handler_handle_def Let_def on_session_Inr)
  then show ?thesis using DataOut_quiet quiet_keeps_identity by blast
next
  case False
  then show ?thesis using assms
    by (cases p) (auto simp: handler_handle_def Let_def on_session_Inr dest: Text_identity Logout_identity
      NopOut_identity NopIn_identity TaskMng_identity frame_keeps_identity CommandHandler_frame [THEN conjunct1])
qed

section \<open>Login\<close>

lemma negotiate_num_frame: "negotiate_num f i env a v s g = Inr (ok, s', g') \<Longrightarrow> login_frame s s'"
  by (auto simp: negotiate_num_def exec_bind_Inr Let_def)

lemma negotiate_bool_frame: "negotiate_bool f a v s g = Inr (ok, s', g') \<Longrightarrow> login_frame s s'"
  by (auto simp: negotiate_bool_def exec_bind_Inr Let_def)

lemma normal_only_frame:
  "normal_only s g res = Inr (ok, s', g') \<Longrightarrow> (res = Inr (ok, s', g') \<Longrightarrow> login_frame s s') \<Longrightarrow> login_frame s s'"
  by (auto simp: normal_only_def split: if_splits)

lemma InitiatorName_frame: "InitiatorName_handle env v s g = Inr (ok, s', g') \<Longrightarrow> login_frame s s'"
  by (auto simp: InitiatorName_handle_def exec_bind_Inr Let_def login_frame_def split: option.splits if_splits)

lemma AuthMethod_frame: "AuthMethod_handle v s g = Inr (ok, s', g') \<Longrightarrow> login_frame s s'"
  by (auto simp: AuthMethod_handle_def exec_bind_Inr Let_def split: if_splits prod.splits
      dest!: upd_initiator_frame intro: login_frame_trans simp del: contains.simps)

lemma MaxRecv_frame: "MaxRecv_handle env v s g = Inr (ok, s', g') \<Longrightarrow> login_frame s s'"
  by (auto simp: MaxRecv_handle_def exec_bind_Inr dest!: upd_initiator_frame split: if_splits)

lemma Digest_frame: "Digest_handle env a v s g = Inr (ok, s', g') \<Longrightarrow> login_frame s s'"
  unfolding Digest_handle_def Let_def by (auto simp: exec_bind_Inr simp del: contains.simps)

lemma pair_handle_frame: "pair_handle env h v s g = Inr (ok, s', g') \<Longrightarrow> login_frame s s'"
  by (cases h) (auto simp: pair_handle_def exec_bind_Inr dest: InitiatorName_frame AuthMethod_frame
      Digest_frame MaxRecv_frame negotiate_num_frame negotiate_bool_frame upd_initiator_frame
      elim: normal_only_frame)

lemma handle_pairs_frame: "handle_pairs env all ps s g = Inr (ok, s', g') \<Longrightarrow> login_frame s s'"
proof (induction env all ps s g rule: handle_pairs.induct)
  case (2 env all k v ps s g)
  from "2.prems" obtain h ok1 s1 g1 where h: "login_handlers k = Some h"
    "pair_handle env h (getPairValue k all) s g = Inr (ok1, s1, g1)"
    "if \<not> ok1 then s' = s1 else handle_pairs env all ps s1 g1 = Inr (ok, s', g')"
    by (auto simp: exec_bind_Inr split: if_splits)
  have 1: "login_frame s s1" using h(2) by (rule pair_handle_frame)
  show ?case
  proof (cases ok1)
    case True
    then have "login_frame s1 s'" using "2.IH" [of h "(ok1, s1, g1)" ok1 "(s1, g1)" s1 g1] h by simp
    with 1 show ?thesis by (rule login_frame_trans)
  qed (use h 1 in simp)
qed simp

lemma control_same_more [simp]:
  "control_same w a \<Longrightarrow> control_same w (w_conn_update fd f a)"
  "control_same w a \<Longrightarrow> control_same w (changeListener fd i a)"
  "control_same w a \<Longrightarrow> control_same w (ses_update q (\<lambda>s. snd (conn_add fd c s)) a)"
  "control_same w a \<Longrightarrow> control_same w (ses_update q (\<lambda>s. snd (conn_del fd s)) a)"
  by (rule control_same_trans, assumption, simp)+

text \<open>The first request: the connection may move to the session of a reactor, the manager's tables stay.
  A reactor is only asked for by a normal session, for itself.\<close>

definition identity_taken :: "nat \<Rightarrow> token \<Rightarrow> int \<Rightarrow> world \<Rightarrow> world \<Rightarrow> bool" where
  "identity_taken r t fd w w' \<longleftrightarrow> w' = w \<or> (\<exists>w1. control_same w w1 \<and> w' = take_identity r t fd w1)"

lemma identity_taken_intros [simp]:
  "identity_taken r t fd w w" "control_same w w1 \<Longrightarrow> identity_taken r t fd w (take_identity r t fd w1)"
  by (auto simp: identity_taken_def)

lemma handle1stRequest_shape:
  assumes "handle1stRequest r t fd w = Inr (ok, us, w')"
  shows "identity_taken r t fd w w' \<and>
    (\<forall>u \<in> set us. is_create u \<longrightarrow> u = CreateReactor r fd \<and> ses_type (w_heap w r) = iSCSI_NORMAL_SESSION)"
  using assms
  by (auto simp: handle1stRequest_def handle1stDiscoveryRequest_def handle1stNormalRequest_def with_conn_def
      exec_bind_Inr Let_def split: if_splits option.splits)

lemma take_identity_others:
  "others_same r w (take_identity r t fd w) \<and>
   ses_type (w_heap (take_identity r t fd w) r) = ses_type (w_heap w r) \<and>
   ses_tasks (w_heap (take_identity r t fd w) r) = ses_tasks (w_heap w r)"
proof -
  let ?w = "ses_update r (\<lambda>s. s\<lparr>ses_sid := lq_getSessionID t\<rparr>) w"
  have "others_same r w ?w" by (rule others_same_update) simp
  moreover have "others_same r ?w (take_identity r t fd w)"
    unfolding take_identity_def by (rule control_same_others) simp
  ultimately have "others_same r w (take_identity r t fd w)" by (rule others_same_trans)
  then show ?thesis by (simp add: take_identity_def w_conn_update_def conn_update_def)
qed

lemma handle1stRequest_others:
  assumes "handle1stRequest r t fd w = Inr (ok, us, w')"
  shows "others_same r w w' \<and> ses_type (w_heap w' r) = ses_type (w_heap w r) \<and>
    ses_tasks (w_heap w' r) = ses_tasks (w_heap w r)"
proof -
  have "others_same r w w1 \<and> ses_type (w_heap w1 r) = ses_type (w_heap w r) \<and>
      ses_tasks (w_heap w1 r) = ses_tasks (w_heap w r)" if "control_same w w1" for w1
    using that control_same_others by (auto simp: control_same_def control_def)
  then show ?thesis
    using handle1stRequest_shape [OF assms] take_identity_others others_same_trans
    unfolding identity_taken_def by (metis others_same_refl)
qed

text \<open>The response: nothing but the session's own queue and parameters change.\<close>

definition own_step :: "nat \<Rightarrow> task list \<Rightarrow> world \<Rightarrow> world \<Rightarrow> bool" where
  "own_step r us w w' \<longleftrightarrow> others_same r w w' \<and> ses_type (w_heap w' r) = ses_type (w_heap w r) \<and>
     ses_sid (w_heap w' r) = ses_sid (w_heap w r) \<and>
     (\<forall>u \<in> set (ses_tasks (w_heap w' r)). is_create u \<longrightarrow> u \<in> set (ses_tasks (w_heap w r)) \<union> set us)"

lemma own_step_trans: "own_step r us a b \<Longrightarrow> own_step r us b c \<Longrightarrow> own_step r us a c"
  by (auto simp: own_step_def intro: others_same_trans)

lemma own_step_control: "control_same w w' \<Longrightarrow> own_step r us w w'"
  by (auto simp: own_step_def control_same_others) (simp_all add: control_same_def control_def)

lemma own_step_identity: "keeps_identity (w_heap w r) s \<Longrightarrow> own_step r us w (ses_update r (\<lambda>_. s) (w\<lparr>w_pool := bp\<rparr>))"
  by (auto simp: own_step_def others_same_replace) (auto simp: keeps_identity_def)

lemma own_step_session:
  "ses_type s = ses_type (w_heap w r) \<Longrightarrow> ses_sid s = ses_sid (w_heap w r) \<Longrightarrow>
   ses_tokens s = ses_tokens (w_heap w r) \<Longrightarrow>
   (\<forall>u \<in> set (ses_tasks s). is_create u \<longrightarrow> u \<in> set (ses_tasks (w_heap w r)) \<union> set us) \<Longrightarrow>
   own_step r us w (ses_update r (\<lambda>_. s) w)"
  by (auto simp: own_step_def intro!: others_same_update)

lemma w_count_own: "w_count r t w = Inr w' \<Longrightarrow> own_step r us w w'"
  by (auto simp: w_count_def split: option.splits intro!: own_step_identity dest: count_command_identity)

lemma shift2Normal_fields:
  "shift2Normal s = Some (ok, s') \<Longrightarrow> ses_type s' = ses_type s \<and> ses_sid s' = ses_sid s \<and>
     ses_tokens s' = ses_tokens s \<and> ses_tasks s' = ses_tasks s"
  by (auto simp: shift2Normal_def Let_def split: if_splits option.splits)

lemma shift2Discovery_fields:
  "ses_type (snd (shift2Discovery s)) = ses_type s \<and> ses_sid (snd (shift2Discovery s)) = ses_sid s \<and>
     ses_tokens (snd (shift2Discovery s)) = ses_tokens s \<and> ses_tasks (snd (shift2Discovery s)) = ses_tasks s"
  by (simp add: shift2Discovery_def)

lemma enter_stage_own:
  assumes "enter_stage nsg r w = Inr (ok, w')"
  shows "own_step r us w w'"
proof -
  define w1 where "w1 = (if ses_tsih (w_heap w r) = 0
    then let (n, w0) = getNextTSIH w in ses_update r (\<lambda>s. s\<lparr>ses_tsih := ucast n\<rparr>) w0 else w)"
  have a: "own_step r us w w1"
    by (auto simp: w1_def getNextTSIH_def Let_def own_step_def others_same_def tables_same_def split: prod.splits)
  have "w' = w \<or> w' = w1 \<or> w' = ses_update r (\<lambda>_. snd (shift2Discovery (w_heap w1 r))) w1 \<or>
      (\<exists>b s1. shift2Normal (w_heap w1 r) = Some (b, s1) \<and> w' = ses_update r (\<lambda>_. s1) w1)"
    using assms
    by (auto simp: enter_stage_def Let_def w1_def [symmetric] exec_bind_Inr ses_update_def split: if_splits)
  moreover have "own_step r us w w" by (simp add: own_step_def)
  moreover have "own_step r us w (ses_update r (\<lambda>_. snd (shift2Discovery (w_heap w1 r))) w1)"
    using shift2Discovery_fields by (intro own_step_trans [OF a own_step_session]) auto
  moreover have "shift2Normal (w_heap w1 r) = Some (b, s1) \<Longrightarrow> own_step r us w (ses_update r (\<lambda>_. s1) w1)" for b s1
    using shift2Normal_fields [of "w_heap w1 r" b s1] by (intro own_step_trans [OF a own_step_session]) auto
  ultimately show ?thesis using a by auto
qed

lemma login_respond_own:
  assumes "login_respond env lt r t fd ps us w = Inr (ok, w')"
  shows "own_step r us w w'"
proof -
  let ?nsg = "shiftLoginStage (lq_currentStage t) (lq_nextStage t)"
  from assms obtain w1 where 1: "w_count r t w = Inr w1" by (auto simp: login_respond_def Let_def exec_bind_Inr)
  from assms 1 obtain ok1 s g where
    2: "handle_pairs env ps ps (w_heap (w_conn_update fd advanceSTATSN w1) r) (new_kv_data (env_mem env)) = Inr (ok1, s, g)"
    by (auto simp: login_respond_def Let_def with_conn_def exec_bind_Inr)
  have 3: "\<not> ok1 \<longrightarrow> w' = ses_update r (\<lambda>_. s) (w_conn_update fd advanceSTATSN w1)"
    using assms 1 2 by (auto simp: login_respond_def Let_def with_conn_def exec_bind_Inr)
  have 4: "ok1 \<longrightarrow> (\<exists>ok2 w4. enter_stage ?nsg r (ses_update r (\<lambda>_. s) (w_conn_update fd advanceSTATSN w1)) = Inr (ok2, w4) \<and>
       (w' = w4 \<or> (\<exists>x. w' = ses_update r (sendtask_push_list lt (TSend fd x # us)) w4)))"
  proof
    assume ok1
    with assms 1 2 obtain ok2 w4 where
      e: "enter_stage ?nsg r (ses_update r (\<lambda>_. s) (w_conn_update fd advanceSTATSN w1)) = Inr (ok2, w4)"
      by (auto simp: login_respond_def Let_def with_conn_def exec_bind_Inr)
    with assms 1 2 \<open>ok1\<close> have "w' = w4 \<or> (\<exists>x. w' = ses_update r (sendtask_push_list lt (TSend fd x # us)) w4)"
      by (cases ok2) (auto simp: login_respond_def Let_def with_conn_def exec_bind_Inr)
    with e show "\<exists>ok2 w4. enter_stage ?nsg r (ses_update r (\<lambda>_. s) (w_conn_update fd advanceSTATSN w1)) = Inr (ok2, w4) \<and>
       (w' = w4 \<or> (\<exists>x. w' = ses_update r (sendtask_push_list lt (TSend fd x # us)) w4))" by blast
  qed
  let ?w3 = "ses_update r (\<lambda>_. s) (w_conn_update fd advanceSTATSN w1)"
  have "own_step r us (w_conn_update fd advanceSTATSN w1) ?w3"
    using handle_pairs_frame [OF 2] by (intro own_step_session) (auto simp: login_frame_def)
  then have a: "own_step r us w ?w3"
    using own_step_trans [OF w_count_own [OF 1] own_step_trans [OF own_step_control]]
      control_same_steps(1) by blast
  have push: "own_step r us w4 (ses_update r (sendtask_push_list lt (TSend fd x # us)) w4)" for w4 x
    by (auto simp: own_step_def sendtask_push_list_def others_same_update)
  show ?thesis
  proof (cases ok1)
    case True
    with 4 obtain ok2 w4 where e: "enter_stage ?nsg r ?w3 = Inr (ok2, w4)"
      "w' = w4 \<or> (\<exists>x. w' = ses_update r (sendtask_push_list lt (TSend fd x # us)) w4)" by blast
    then show ?thesis using own_step_trans [OF a enter_stage_own [OF e(1)]] own_step_trans [OF _ push] by auto
  qed (use 3 a in simp)
qed

text \<open>What every PDU leaves alone.\<close>

definition pdu_frame :: "nat \<Rightarrow> int \<Rightarrow> world \<Rightarrow> world \<Rightarrow> bool" where
  "pdu_frame r fd w w' \<longleftrightarrow> others_same r w w' \<and>
     (ses_type (w_heap w r) \<noteq> iSCSI_LOGIN_SESSION \<longrightarrow>
        ses_type (w_heap w' r) = ses_type (w_heap w r) \<and> ses_sid (w_heap w' r) = ses_sid (w_heap w r)) \<and>
     (\<forall>u \<in> set (ses_tasks (w_heap w' r)). is_create u \<longrightarrow> u \<in> set (ses_tasks (w_heap w r)) \<or>
        u = CreateReactor r fd \<and> ses_type (w_heap w r) = iSCSI_LOGIN_SESSION \<and>
        ses_type (w_heap w' r) = iSCSI_NORMAL_SESSION)"

lemma pdu_frame_refl [simp]: "pdu_frame r fd w w"
  by (simp add: pdu_frame_def)

lemma own_step_frame: "own_step r [] w w' \<Longrightarrow> pdu_frame r fd w w'"
  by (auto simp: own_step_def pdu_frame_def)

lemma LoginHandler_frame:
  assumes "LoginHandler_handle env lt r t fd w = Inr (ok, w')"
  shows "pdu_frame r fd w w'"
proof (cases "ses_type (w_heap w r) = iSCSI_LOGIN_SESSION")
  case False
  then have "w' = w \<or> (\<exists>ps. login_respond env lt r t fd ps [] w = Inr (ok, w'))"
    using assms by (auto simp: LoginHandler_handle_def exec_bind_Inr split: if_splits)
  then show ?thesis using login_respond_own own_step_frame by auto
next
  case True
  let ?w1 = "\<lambda>ps. ses_update r (type_set (getPairValue ''SessionType'' ps)) w"
  from assms True have "w' = w \<or> (\<exists>ps ok1 us w2. handle1stRequest r t fd (?w1 ps) = Inr (ok1, us, w2) \<and>
      (w' = w2 \<or> login_respond env lt r t fd ps us w2 = Inr (ok, w')))"
    by (auto simp: LoginHandler_handle_def exec_bind_Inr Let_def split: if_splits)
  moreover have "pdu_frame r fd w w'"
    if h: "handle1stRequest r t fd (?w1 ps) = Inr (ok1, us, w2)"
      and l: "w' = w2 \<or> login_respond env lt r t fd ps us w2 = Inr (ok, w')" for ps ok1 us w2
  proof -
    have "own_step r us w2 w2" by (simp add: own_step_def)
    with l login_respond_own have o: "own_step r us w2 w'" by blast
    have f: "others_same r w (?w1 ps)" by (rule others_same_update) (simp add: type_set_def)
    have t: "ses_tasks (w_heap (?w1 ps) r) = ses_tasks (w_heap w r)" by (simp add: type_set_def)
    from handle1stRequest_others [OF h] have s: "others_same r (?w1 ps) w2"
      "ses_type (w_heap w2 r) = ses_type (w_heap (?w1 ps) r)" "ses_tasks (w_heap w2 r) = ses_tasks (w_heap w r)"
      using t by auto
    have "others_same r w w'" using o others_same_trans [OF others_same_trans [OF f s(1)]]
      by (auto simp: own_step_def)
    moreover have "u \<in> set (ses_tasks (w_heap w r)) \<or> u = CreateReactor r fd \<and>
        ses_type (w_heap w r) = iSCSI_LOGIN_SESSION \<and> ses_type (w_heap w' r) = iSCSI_NORMAL_SESSION"
      if u: "u \<in> set (ses_tasks (w_heap w' r))" "is_create u" for u
    proof -
      from o u s(3) have "u \<in> set (ses_tasks (w_heap w r)) \<union> set us" by (auto simp: own_step_def)
      moreover have "u \<in> set us \<Longrightarrow> u = CreateReactor r fd \<and> ses_type (w_heap (?w1 ps) r) = iSCSI_NORMAL_SESSION"
        using handle1stRequest_shape [OF h] u(2) by blast
      moreover have "ses_type (w_heap w' r) = ses_type (w_heap (?w1 ps) r)" using o s(2) by (simp add: own_step_def)
      ultimately show ?thesis using True by auto
    qed
    ultimately show ?thesis using True by (simp add: pdu_frame_def)
  qed
  ultimately show ?thesis by auto
qed

lemma handler_frame:
  assumes "handler_handle pg p r t fd w = Inr (ok, w')"
  shows "pdu_frame r fd w w'"
proof (cases "p = LoginHandler")
  case True
  then show ?thesis using assms LoginHandler_frame by (simp add: handler_handle_def Let_def)
next
  case False
  from handler_local [OF this assms] own_step_identity [where us = "[]"] show ?thesis
    by (auto intro: own_step_frame)
qed

text \<open>No handler touches the received PDUs.\<close>

lemma handlers_keep_tokens:
  "handler_handle pg p r t fd w = Inr (ok, w') \<Longrightarrow> ses_tokens (w_heap w' q) = ses_tokens (w_heap w q)"
  using handler_frame by (cases "q = r") (fastforce simp: pdu_frame_def others_same_def control_def)+

end
