(* ===== verification/Login_Correct.thy ===== *)
theory Login_Correct
  imports Session_Frame
begin

text \<open>
  What a login achieves: the stage machine, the handlers of the full feature phase and their
  parameters, the login of a concrete initiator that the witnesses use, and the requests that break
  the program.
\<close>

section \<open>Stages\<close>

text \<open>The stage machine only moves forward: from security negotiation to operational negotiation or the full
  feature phase, from operational negotiation to the full feature phase; every other transition that
  a request asks for is unknown, and an unknown stage is refused.\<close>

theorem login_stages_move_forward:
  "(shiftLoginStage csg nsg = (if (csg, nsg) \<in> {(SECURITY_NEGOTIATION_STAGE, OP_PARMS_NEGOTIATION_STAGE),
        (SECURITY_NEGOTIATION_STAGE, FULL_FEATURE_PHASE), (OP_PARMS_NEGOTIATION_STAGE, FULL_FEATURE_PHASE)}
      then nsg else UNKNOWN_PHASE)) \<and>
   enter_stage UNKNOWN_PHASE r w = Inr (False, w)"
  by (auto simp: shiftLoginStage_def enter_stage_def stage_defs)

section \<open>The end of a login\<close>

lemma login_respond_success:
  assumes "login_respond env lt r t fd ps us w = Inr (True, w')"
  shows "\<exists>w3 w4 x. enter_stage (shiftLoginStage (lq_currentStage t) (lq_nextStage t)) r w3 = Inr (True, w4) \<and>
    w' = ses_update r (sendtask_push_list lt (TSend fd x # us)) w4"
  using assms by (fastforce simp: login_respond_def Let_def with_conn_def exec_bind_Inr split: if_splits)

lemma LoginHandler_success:
  assumes "LoginHandler_handle env lt r t fd w = Inr (True, w')"
  shows "\<exists>ps us w2. login_respond env lt r t fd ps us w2 = Inr (True, w')"
  using assms by (fastforce simp: LoginHandler_handle_def exec_bind_Inr Let_def split: if_splits)

lemma new_params_cong:
  "ses_initiator s' = ses_initiator s \<Longrightarrow> ses_attrs s' = ses_attrs s \<Longrightarrow> new_params s' = new_params s"
  by (simp add: new_params_def attr_num_def attr_bool_def getAttr_def split: option.split)

lemma shift2Normal_handlers:
  assumes "shift2Normal s = Some (ok, s')" and "ses_type s = iSCSI_NORMAL_SESSION"
  shows "\<exists>hp. new_params s' = Some hp \<and> ses_protos s' = (ses_protos s)(iSCSI_OP_SCSI_CMD \<mapsto> CommandHandler hp,
      iSCSI_OP_SCSI_DATA \<mapsto> DataOutHandler (hp_mrds hp), iSCSI_OP_NOOP_OUT \<mapsto> NopOutHandler,
      iSCSI_OP_NOOP_IN \<mapsto> NopInHandler, iSCSI_OP_TASK_MGT_REQ \<mapsto> TaskMngHandler,
      iSCSI_OP_LOGOUT_CMD \<mapsto> LogoutHandler)"
proof -
  from assms obtain hp where hp: "new_params s = Some hp" by (auto simp: shift2Normal_def split: option.splits)
  with assms have s': "ses_initiator s' = ses_initiator s" "ses_attrs s' = ses_attrs s"
    "ses_protos s' = (ses_protos s)(iSCSI_OP_SCSI_CMD \<mapsto> CommandHandler hp,
      iSCSI_OP_SCSI_DATA \<mapsto> DataOutHandler (hp_mrds hp), iSCSI_OP_NOOP_OUT \<mapsto> NopOutHandler,
      iSCSI_OP_NOOP_IN \<mapsto> NopInHandler, iSCSI_OP_TASK_MGT_REQ \<mapsto> TaskMngHandler,
      iSCSI_OP_LOGOUT_CMD \<mapsto> LogoutHandler)"
    by (auto simp: shift2Normal_def Let_def)
  with hp new_params_cong [of s' s] show ?thesis by simp
qed

lemma enter_full_feature:
  assumes "enter_stage FULL_FEATURE_PHASE r w = Inr (True, w')" and "ses_type (w_heap w' r) = iSCSI_NORMAL_SESSION"
  shows "\<exists>hp s0. new_params (w_heap w' r) = Some hp \<and> ses_protos (w_heap w' r) = s0(
      iSCSI_OP_SCSI_CMD \<mapsto> CommandHandler hp, iSCSI_OP_SCSI_DATA \<mapsto> DataOutHandler (hp_mrds hp),
      iSCSI_OP_NOOP_OUT \<mapsto> NopOutHandler, iSCSI_OP_NOOP_IN \<mapsto> NopInHandler,
      iSCSI_OP_TASK_MGT_REQ \<mapsto> TaskMngHandler, iSCSI_OP_LOGOUT_CMD \<mapsto> LogoutHandler)"
proof -
  define w1 where "w1 = (if ses_tsih (w_heap w r) = 0
    then let (n, w0) = getNextTSIH w in ses_update r (\<lambda>s. s\<lparr>ses_tsih := ucast n\<rparr>) w0 else w)"
  have e: "enter_stage FULL_FEATURE_PHASE r w =
      (if ses_type (w_heap w1 r) = iSCSI_DISCOVERY_SESSION
       then Inr (True, ses_update r (\<lambda>s. snd (shift2Discovery s)) w1)
       else if ses_type (w_heap w1 r) = iSCSI_NORMAL_SESSION
       then exec_bind (deref (shift2Normal (w_heap w1 r))) (\<lambda>(_, s1). Inr (True, ses_update r (\<lambda>_. s1) w1))
       else Inr (False, w1))"
    by (simp add: enter_stage_def Let_def w1_def stage_defs)
  have "ses_type (w_heap w1 r) = iSCSI_NORMAL_SESSION"
    using assms shift2Discovery_fields unfolding e by (auto split: if_splits)
  moreover from this have "exec_bind (deref (shift2Normal (w_heap w1 r))) (\<lambda>(_, s1). Inr (True, ses_update r (\<lambda>_. s1) w1)) =
      Inr (True, w')" using assms(1) unfolding e by (simp add: session_type_defs)
  ultimately obtain ok s1 where "shift2Normal (w_heap w1 r) = Some (ok, s1)" "w' = ses_update r (\<lambda>_. s1) w1"
    by (auto simp: exec_bind_Inr)
  then show ?thesis using shift2Normal_handlers [of "w_heap w1 r"] \<open>ses_type (w_heap w1 r) = iSCSI_NORMAL_SESSION\<close>
    by auto
qed

text \<open>C15. When a normal login reaches the full feature phase, the table of the session serves all requests of
  that phase, its SCSI and Data-Out handlers carry the parameters that this very login has
  negotiated, and the login response is in the send queue.\<close>

theorem login_full_feature:
  assumes "LoginHandler_handle env lt r t fd w = Inr (True, w')"
    and "shiftLoginStage (lq_currentStage t) (lq_nextStage t) = FULL_FEATURE_PHASE"
    and "ses_type (w_heap w' r) = iSCSI_NORMAL_SESSION"
  shows "\<exists>hp s0. new_params (w_heap w' r) = Some hp \<and> ses_protos (w_heap w' r) = s0(
      iSCSI_OP_SCSI_CMD \<mapsto> CommandHandler hp, iSCSI_OP_SCSI_DATA \<mapsto> DataOutHandler (hp_mrds hp),
      iSCSI_OP_NOOP_OUT \<mapsto> NopOutHandler, iSCSI_OP_NOOP_IN \<mapsto> NopInHandler,
      iSCSI_OP_TASK_MGT_REQ \<mapsto> TaskMngHandler, iSCSI_OP_LOGOUT_CMD \<mapsto> LogoutHandler) \<and>
    (\<exists>x. TSend fd x \<in> set (ses_tasks (w_heap w' r)))"
proof -
  from LoginHandler_success [OF assms(1)] login_respond_success obtain w3 w4 x us where
    e: "enter_stage FULL_FEATURE_PHASE r w3 = Inr (True, w4)"
    and w': "w' = ses_update r (sendtask_push_list lt (TSend fd x # us)) w4"
    unfolding assms(2) [symmetric] by blast
  have "ses_type (w_heap w4 r) = iSCSI_NORMAL_SESSION" using assms(3) by (simp add: w' sendtask_push_list_def)
  moreover have "w_heap w' r = sendtask_push_list lt (TSend fd x # us) (w_heap w4 r)" by (simp add: w')
  then have "new_params (w_heap w' r) = new_params (w_heap w4 r)" "ses_protos (w_heap w' r) = ses_protos (w_heap w4 r)"
    "TSend fd x \<in> set (ses_tasks (w_heap w' r))"
    using new_params_cong [of "w_heap w' r" "w_heap w4 r"] by (simp_all add: sendtask_push_list_def)
  moreover note enter_full_feature [OF e]
  ultimately show ?thesis by metis
qed

section \<open>The login of an example\<close>

text \<open>An immediate request of the operational negotiation stage that asks for the full feature phase, with the
  name and the session type.\<close>

definition ex_pairs :: pairs where
  "ex_pairs = [(''InitiatorName'', ''iqn.i''), (''SessionType'', ''Normal'')]"

definition ex_sid :: session_id where
  "ex_sid = [0x40, 0, 0, 0, 0, 1]"

definition ex_login_header :: "u8 list" where
  "ex_login_header = [0x43, 0x87, 0, 0, 0, 0, 0, 39] @ ex_sid @ [0, 0] @ replicate 32 0"

definition ex_login_token :: token where
  "ex_login_token = mk_token (ex_login_header @ kv_bytes ex_pairs)"

lemma kv_bytes_ex: "length (kv_bytes ex_pairs) = 39"
  by (simp add: ex_pairs_def)

lemma ex_login_header_facts:
  "Login_valid ex_login_token" "isImmediateCmd (token_header ex_login_token)"
  "getDlength (token_header ex_login_token) = 39" "lq_getSessionID ex_login_token = ex_sid"
  "lq_getTSIH ex_login_token = 0" "shiftLoginStage (lq_currentStage ex_login_token) (lq_nextStage ex_login_token) = 3"
  "getOpCode (token_header ex_login_token) = iSCSI_OP_LOGIN_CMD"
  by code_simp+

lemma ex_login_pairs: "request_pairs ex_env login_validators ex_login_token = Inr (True, ex_pairs)"
proof -
  let ?m = "cb_bytes (hd (tkv_cbufs ex_login_token))"
  have h: "length ex_login_header = 48" by (simp add: ex_login_header_def ex_sid_def)
  have m: "mem_holds ?m 48 (kv_bytes ex_pairs)"
    unfolding mem_holds_def by (simp add: ex_login_token_def mk_token_def nth_append h)
  have c: "\<forall>p \<in> set ex_pairs. pair_clean p" by (simp add: pair_clean_def ex_pairs_def)
  have a: "\<forall>p \<in> set ex_pairs. pair_accepted ex_env login_validators p"
    by (simp add: ex_pairs_def pair_accepted_def login_validators_def login_validator_list_def pair_valid_def
        VALUE_MAXLEN_def ex_env_def)
  have "48 + length (kv_bytes ex_pairs) \<le> COMMON_ALLOC_SIZE"
    by (simp add: kv_bytes_ex COMMON_ALLOC_SIZE_def COMMON_BUF_SIZE_def)
  from parse_pairs_walk [OF ex_regex_greedy m this c, of login_validators "[]"] parse_reference_accepted [OF a, of "[]"]
  have "parse_pairs ex_env login_validators ?m COMMON_ALLOC_SIZE 48 39 [] = Inr (True, ex_pairs)"
    by (simp add: kv_bytes_ex)
  moreover have "tkv_off ex_login_token = 0" by (simp add: ex_login_token_def mk_token_def)
  ultimately show ?thesis by (simp add: request_pairs_def ex_login_header_facts)
qed

lemma findReactor_sid:
  "w_reactors w' = w_reactors w \<Longrightarrow> (\<And>q. ses_sid (w_heap w' q) = ses_sid (w_heap w q)) \<Longrightarrow>
     findReactor sid w' = findReactor sid w"
  by (simp add: findReactor_def getSessionID_def)

text \<open>The tasks that the first request of a normal session asks for.\<close>

definition takeover_tasks :: "world \<Rightarrow> session_id \<Rightarrow> nat \<Rightarrow> int \<Rightarrow> task list" where
  "takeover_tasks w sid r fd =
     (case findReactor sid w of None \<Rightarrow> [] | Some rc \<Rightarrow> [RemoveReactor (rc_session rc)]) @ [CreateReactor r fd]"

lemma ex_handle1st:
  assumes "ses_type (w_heap w r) = iSCSI_NORMAL_SESSION" and "conn_find fd (w_heap w r) = Some c"
  shows "handle1stRequest r ex_login_token fd w =
    Inr (True, takeover_tasks w ex_sid r fd, take_identity r ex_login_token fd w)"
  using assms by (simp add: handle1stRequest_def handle1stNormalRequest_def ex_login_header_facts takeover_tasks_def
      with_conn_def session_type_defs split: option.split)

lemma ex_handle_pairs:
  assumes "ses_tag s = 1" and "ses_type s = iSCSI_NORMAL_SESSION"
  shows "\<exists>ini g. handle_pairs ex_env ex_pairs ex_pairs s (new_kv_data (env_mem ex_env)) =
    Inr (True, s\<lparr>ses_initiator := Some ini\<rparr>, g)"
proof -
  let ?g = "new_kv_data (env_mem ex_env)"
  let ?tag = "env_show ex_env (unat (ses_tag s))"
  have "length ?tag \<le> 10" using length_show_digits [of 10 "unat (ses_tag s)"] by (simp add: ex_env_def)
  then have "kv_tail ?g + (length ''TargetPortalGroupTag'' + length ?tag + 2) \<le> COMMON_ALLOC_SIZE"
    by (simp add: new_kv_data_def COMMON_ALLOC_SIZE_def COMMON_BUF_SIZE_def)
  from addKeyValue_room [OF this] obtain g where "addKeyValue ''TargetPortalGroupTag'' ?tag ?g = Inr g" by blast
  moreover obtain ini where "env_newInitiator ex_env ''iqn.i'' = Some ini" by (simp add: ex_env_def)
  ultimately show ?thesis using assms
    by (auto simp: ex_pairs_def login_handlers_def pair_handle_def InitiatorName_handle_def session_type_defs)
qed

text \<open>A fresh session logs in: the session takes the identifier, asks for its reactor and is a normal one.\<close>

lemma ex_login:
  assumes "ses_type (w_heap w r) = iSCSI_LOGIN_SESSION" and "ses_tasks (w_heap w r) = []"
    and "ses_ports (w_heap w r) = [(fd, c)]" and "ses_tag (w_heap w r) = 1"
  shows "\<exists>w' x c'. LoginHandler_handle ex_env lt r ex_login_token fd w = Inr (True, w') \<and>
    ses_tasks (w_heap w' r) = TSend fd x # takeover_tasks w ex_sid r fd \<and> ses_sid (w_heap w' r) = ex_sid \<and>
    ses_type (w_heap w' r) = iSCSI_NORMAL_SESSION \<and> ses_ports (w_heap w' r) = [(fd, c')]"
proof -
  let ?t = ex_login_token
  let ?w1 = "ses_update r (type_set ''Normal'') w"
  let ?w2 = "take_identity r ?t fd ?w1"
  have h1: "w_heap ?w1 r = (w_heap w r)\<lparr>ses_type := iSCSI_NORMAL_SESSION\<rparr>" by (simp add: type_set_def)
  have "findReactor ex_sid ?w1 = findReactor ex_sid w" by (rule findReactor_sid) (simp_all add: type_set_def)
  then have us: "takeover_tasks ?w1 ex_sid r fd = takeover_tasks w ex_sid r fd" by (simp add: takeover_tasks_def)
  have "conn_find fd (w_heap ?w1 r) = Some c" using assms(3) h1 by (simp add: conn_find_def)
  from ex_handle1st [OF _ this] h1 us
  have first: "handle1stRequest r ?t fd ?w1 = Inr (True, takeover_tasks w ex_sid r fd, ?w2)" by simp
  have s2: "ses_tag (w_heap ?w2 r) = 1" "ses_type (w_heap ?w2 r) = iSCSI_NORMAL_SESSION"
    "ses_sid (w_heap ?w2 r) = ex_sid" "ses_tasks (w_heap ?w2 r) = []" "\<exists>c'. ses_ports (w_heap ?w2 r) = [(fd, c')]"
    using assms by (simp_all add: take_identity_def w_conn_update_def ex_login_header_facts type_set_def conn_update_def)
  let ?w3 = "ses_update r (\<lambda>_. w_heap ?w2 r) ?w2"
  have count: "w_count r ?t ?w2 = Inr ?w3" by (simp add: w_count_def count_command_def ex_login_header_facts)
  let ?w4 = "w_conn_update fd advanceSTATSN ?w3"
  have s4: "ses_tag (w_heap ?w4 r) = 1" "ses_type (w_heap ?w4 r) = iSCSI_NORMAL_SESSION"
    "ses_sid (w_heap ?w4 r) = ex_sid" "ses_tasks (w_heap ?w4 r) = []"
    using s2 by (simp_all add: w_conn_update_def)
  have p4: "\<exists>c'. ses_ports (w_heap ?w4 r) = [(fd, c')]"
    using s2(5) by (auto simp: w_conn_update_def conn_update_def)
  from ex_handle_pairs [OF s4(1,2)] obtain ini g where
    keys: "handle_pairs ex_env ex_pairs ex_pairs (w_heap ?w4 r) (new_kv_data (env_mem ex_env)) =
      Inr (True, (w_heap ?w4 r)\<lparr>ses_initiator := Some ini\<rparr>, g)" by blast
  let ?s5 = "(w_heap ?w4 r)\<lparr>ses_initiator := Some ini\<rparr>"
  let ?w5 = "ses_update r (\<lambda>_. ?s5) ?w4"
  have "\<exists>w6. enter_stage 3 r ?w5 = Inr (True, w6) \<and> ses_tasks (w_heap w6 r) = [] \<and> ses_sid (w_heap w6 r) = ex_sid \<and>
      ses_type (w_heap w6 r) = iSCSI_NORMAL_SESSION \<and> ses_ports (w_heap w6 r) = ses_ports ?s5"
    using s4 by (simp add: enter_stage_def stage_defs Let_def getNextTSIH_def shift2Normal_def new_params_def
        session_type_defs split: prod.split)
  then obtain w6 where stage: "enter_stage 3 r ?w5 = Inr (True, w6)" "ses_tasks (w_heap w6 r) = []"
    "ses_sid (w_heap w6 r) = ex_sid" "ses_type (w_heap w6 r) = iSCSI_NORMAL_SESSION"
    "ses_ports (w_heap w6 r) = ses_ports ?s5" by blast
  obtain c3 where conn3: "conn_find fd (w_heap ?w3 r) = Some c3"
    using s2(5) by (auto simp: conn_find_def)
  have "\<exists>x. login_respond ex_env lt r ?t fd ex_pairs (takeover_tasks w ex_sid r fd) ?w2 =
      Inr (True, ses_update r (sendtask_push_list lt (TSend fd x # takeover_tasks w ex_sid r fd)) w6)"
    unfolding login_respond_def Let_def ex_login_header_facts count exec_bind.simps with_conn_def conn3 deref_simps keys
    using stage(1) by auto
  then obtain x where "login_respond ex_env lt r ?t fd ex_pairs (takeover_tasks w ex_sid r fd) ?w2 =
      Inr (True, ses_update r (sendtask_push_list lt (TSend fd x # takeover_tasks w ex_sid r fd)) w6)" by blast
  moreover have "getPairValue ''SessionType'' ex_pairs = ''Normal''" by (simp add: ex_pairs_def)
  ultimately have "LoginHandler_handle ex_env lt r ?t fd w =
      Inr (True, ses_update r (sendtask_push_list lt (TSend fd x # takeover_tasks w ex_sid r fd)) w6)"
    using assms(1) first by (simp add: LoginHandler_handle_def ex_login_header_facts ex_login_pairs)
  then show ?thesis using stage p4 by (simp add: sendtask_push_list_def)
qed

definition ex_pool :: buffer_pool where
  "ex_pool = \<lparr>bp_limitter = LinearLimitter 100 1000, bp_num = 10, bp_state = POOL_STATE_SOFT\<rparr>"

text \<open>The world after two connections were accepted, and the sessions of both.\<close>

lemma ex_accepted:
  "w_heap (snd (accept num flag fd w)) (w_next w) = (iSCSISession num flag)\<lparr>ses_ports := [(fd, iSCSIConnection)]\<rparr>"
proof -
  have "w_heap (snd (addSession r v)) = w_heap v" for r v
    by (auto simp: addSession_def split: list.splits option.splits)
  then show ?thesis by (simp add: accept_def Let_def conn_add_def conn_find_def iSCSISession_def)
qed

lemma fresh_session:
  "ses_type (iSCSISession num flag) = iSCSI_LOGIN_SESSION" "ses_tasks (iSCSISession num flag) = []"
  "ses_tag (iSCSISession num flag) = 1" "ses_tokens (iSCSISession num flag) = []"
  "ses_protos (iSCSISession num flag) = [iSCSI_OP_LOGIN_CMD \<mapsto> LoginHandler]"
  "ses_sid (iSCSISession num flag) = SessionID"
  by (simp_all add: iSCSISession_def)

theorem login_full_feature_witness:
  "\<exists>w' hp. LoginHandler_handle ex_env (\<lambda>_ _. False) 0 ex_login_token 3
       (snd (accept (\<lambda>_. 8192) (\<lambda>_. True) 3 (initial_world ex_pool))) = Inr (True, w') \<and>
     ses_protos (w_heap w' 0) iSCSI_OP_SCSI_CMD = Some (CommandHandler hp) \<and> new_params (w_heap w' 0) = Some hp"
proof -
  let ?w = "snd (accept (\<lambda>_. 8192) (\<lambda>_. True) 3 (initial_world ex_pool))"
  have s: "w_heap ?w 0 = (iSCSISession (\<lambda>_. 8192) (\<lambda>_. True))\<lparr>ses_ports := [(3, iSCSIConnection)]\<rparr>"
    using ex_accepted [of _ _ _ "initial_world ex_pool"] by (simp add: initial_world_def)
  have "ses_type (w_heap ?w 0) = iSCSI_LOGIN_SESSION" "ses_tasks (w_heap ?w 0) = []"
    "ses_ports (w_heap ?w 0) = [(3, iSCSIConnection)]" "ses_tag (w_heap ?w 0) = 1"
    unfolding s by (simp_all add: fresh_session)
  from ex_login [OF this, of "\<lambda>_ _. False"] obtain w' where
    w': "LoginHandler_handle ex_env (\<lambda>_ _. False) 0 ex_login_token 3 ?w = Inr (True, w')"
    "ses_type (w_heap w' 0) = iSCSI_NORMAL_SESSION" by blast
  have "shiftLoginStage (lq_currentStage ex_login_token) (lq_nextStage ex_login_token) = FULL_FEATURE_PHASE"
    by (simp add: ex_login_header_facts stage_defs)
  from login_full_feature [OF w'(1) this w'(2)] obtain hp s0 where hp: "new_params (w_heap w' 0) = Some hp"
    "ses_protos (w_heap w' 0) = s0(iSCSI_OP_SCSI_CMD \<mapsto> CommandHandler hp,
      iSCSI_OP_SCSI_DATA \<mapsto> DataOutHandler (hp_mrds hp), iSCSI_OP_NOOP_OUT \<mapsto> NopOutHandler,
      iSCSI_OP_NOOP_IN \<mapsto> NopInHandler, iSCSI_OP_TASK_MGT_REQ \<mapsto> TaskMngHandler,
      iSCSI_OP_LOGOUT_CMD \<mapsto> LogoutHandler)" by blast
  have "iSCSI_OP_SCSI_CMD \<notin> {iSCSI_OP_SCSI_DATA, iSCSI_OP_NOOP_OUT, iSCSI_OP_NOOP_IN, iSCSI_OP_TASK_MGT_REQ,
      iSCSI_OP_LOGOUT_CMD}" by code_simp
  with hp have "ses_protos (w_heap w' 0) iSCSI_OP_SCSI_CMD = Some (CommandHandler hp)" by simp
  with w'(1) hp(1) show ?thesis by blast
qed

section \<open>Requests that break the program\<close>

text \<open>The initiator of a session is a null pointer until its name is handled: a key that needs it and comes
  first uses the null pointer, and so does a normal login that reaches the full feature phase without
  a name.\<close>

theorem login_needs_name:
  assumes "ses_initiator s = None"
  shows "handle_pairs env all ((''InitiatorAlias'', v) # ps) s g = Inl NullPointer \<and>
    (getPairValue ''AuthMethod'' all = ''None'' \<longrightarrow>
       handle_pairs env all ((''AuthMethod'', v) # ps) s g = Inl NullPointer) \<and>
    (env_cast32 env (getPairValue ''MaxRecvDataSegmentLength'' all) \<noteq> None \<longrightarrow>
       handle_pairs env all ((''MaxRecvDataSegmentLength'', v) # ps) s g = Inl NullPointer) \<and>
    (w_heap w r = s \<longrightarrow> ses_type s = iSCSI_NORMAL_SESSION \<longrightarrow> ses_tsih s \<noteq> 0 \<longrightarrow>
       enter_stage FULL_FEATURE_PHASE r w = Inl NullPointer)"
  using assms
  by (auto simp: login_handlers_def pair_handle_def upd_initiator_def AuthMethod_handle_def MaxRecv_handle_def
      cast32_def enter_stage_def stage_defs session_type_defs shift2Normal_def new_params_def)

theorem login_needs_name_witness:
  "handle_pairs ex_env [(''InitiatorAlias'', ''x'')] [(''InitiatorAlias'', ''x'')]
     (iSCSISession (\<lambda>_. 8192) (\<lambda>_. True)) (new_kv_data (\<lambda>_. 0)) = Inl NullPointer"
  using login_needs_name [of "iSCSISession (\<lambda>_. 8192) (\<lambda>_. True)" ex_env "[(''InitiatorAlias'', ''x'')]" "''x''" "[]"]
  by (simp add: iSCSISession_def)

text \<open>A number that \<^verbatim>\<open>lexical_cast\<close> refuses throws through the handler.\<close>

lemma malformed_number_uncaught:
  assumes "env_cast env v = None"
  shows "parsePair env login_validators (''MaxBurstLength'', v) ps = Inl UncaughtException"
  using assms by (simp add: parsePair_def login_validators_def login_validator_list_def pair_valid_def RangeCast_valid_def)

text \<open>A text request without keys reads the first element of an empty vector.\<close>

lemma text_without_keys:
  assumes "Text_valid t" and "getDlength (token_header t) = 0" and "count_command t bp s = Some (bp1, s1)"
    and "conn_find fd s1 = Some c"
  shows "TextHandler_handle env t fd bp s = Inl OutOfBounds"
proof -
  have "request_pairs env text_validators t = Inr (True, [])"
    using assms(2) by (simp add: request_pairs_def parse_pairs.simps)
  then show ?thesis using assms by (simp add: TextHandler_handle_def Let_def)
qed

text \<open>The response never tells the initiator its session handle.\<close>

lemma login_response_no_tsih: "lr_tsih (login_response t nsg conn s) = 0"
  by (simp add: login_response_def lgr_setSessionID_def lgr_setMAXCMDSN_def lgr_setEXPCMDSN_def lgr_setSTATSN_def
      lgr_setFlags_def new_LoginRspHeader_def)

text \<open>A discovery login with identifier zero meets the identifier of every session that has not logged in,
  itself included.\<close>

lemma discovery_zero_refused:
  assumes "(fd, r) \<in> set (w_sessions w)" and "ses_sid (w_heap w r) = SessionID"
    and "lq_getSessionID t = SessionID"
  shows "handle1stDiscoveryRequest r t fd w = Inr (False, [], w)"
  using assms by (force simp: handle1stDiscoveryRequest_def findSession_sid_def find_None_iff sid_eq_def)

text \<open>Every prefix of the target's name is accepted as its name, in any case; also the empty one.\<close>

lemma target_name_prefix: "TargetName_valid env []"
  by (simp add: TargetName_valid_def strncasecmp_eq_def)

end
