(* ===== verification/Dispatch_Correct.thy ===== *)
theory Dispatch_Correct
  imports Login_Correct
begin

text \<open>
  The daemon as a whole: a step relation over the state that the threads share, with the invariant
  that no two reactors serve the same session identifier, the results of the loop over the received
  PDUs, and how connections pass from the main listener to reactors and are dropped again.
\<close>

section \<open>Steps that only take away\<close>

definition rc_key :: "reactor \<Rightarrow> nat \<times> nat" where
  "rc_key rc = (rc_id rc, rc_session rc)"

text \<open>Reactors may go or be told to stop and requests for reactors may go; identities stay.\<close>

definition shrinks :: "world \<Rightarrow> world \<Rightarrow> bool" where
  "shrinks w w' \<longleftrightarrow> (\<exists>P. map rc_key (w_reactors w') = filter P (map rc_key (w_reactors w))) \<and>
     w_next w \<le> w_next w' \<and> w_nextReactor w \<le> w_nextReactor w' \<and>
     (\<forall>q. ses_type (w_heap w' q) = ses_type (w_heap w q) \<and> ses_sid (w_heap w' q) = ses_sid (w_heap w q) \<and>
        (\<forall>u \<in> set (ses_tasks (w_heap w' q)). is_create u \<longrightarrow> u \<in> set (ses_tasks (w_heap w q))))"

lemma shrinks_same_reactors:
  "w_reactors w' = w_reactors w \<Longrightarrow> w_next w \<le> w_next w' \<Longrightarrow> w_nextReactor w \<le> w_nextReactor w' \<Longrightarrow>
   (\<And>q. ses_type (w_heap w' q) = ses_type (w_heap w q) \<and> ses_sid (w_heap w' q) = ses_sid (w_heap w q) \<and>
        (\<forall>u \<in> set (ses_tasks (w_heap w' q)). is_create u \<longrightarrow> u \<in> set (ses_tasks (w_heap w q)))) \<Longrightarrow> shrinks w w'"
  unfolding shrinks_def by (intro conjI exI [of _ "\<lambda>_. True"]) auto

lemma shrinks_refl [simp]: "shrinks w w"
  by (rule shrinks_same_reactors) auto

lemma shrinks_trans:
  assumes "shrinks a b" and "shrinks b c"
  shows "shrinks a c"
proof -
  from assms obtain P Q where "map rc_key (w_reactors b) = filter P (map rc_key (w_reactors a))"
    "map rc_key (w_reactors c) = filter Q (map rc_key (w_reactors b))" by (auto simp: shrinks_def)
  then have "map rc_key (w_reactors c) = filter (\<lambda>x. P x \<and> Q x) (map rc_key (w_reactors a))"
    by (simp only: filter_filter)
  then show ?thesis using assms unfolding shrinks_def by (auto intro: exI [of _ "\<lambda>x. P x \<and> Q x"])
qed

lemma control_same_shrinks: "control_same w w' \<Longrightarrow> shrinks w w'"
  by (rule shrinks_same_reactors) (auto simp: control_same_def tables_same_def control_def)

lemma shrinks_update:
  "ses_type (f (w_heap w r)) = ses_type (w_heap w r) \<Longrightarrow> ses_sid (f (w_heap w r)) = ses_sid (w_heap w r) \<Longrightarrow>
   (\<forall>u \<in> set (ses_tasks (f (w_heap w r))). is_create u \<longrightarrow> u \<in> set (ses_tasks (w_heap w r))) \<Longrightarrow>
   shrinks w (ses_update r f w)"
  by (rule shrinks_same_reactors) auto

lemma shrinks_steps [simp]:
  "shrinks w (push_tokens r ts w)" "shrinks w (pop_token r w)"
  "shrinks w (ses_update r (\<lambda>s. s\<lparr>ses_wcaches := cs\<rparr>) w)" "shrinks w (w\<lparr>w_sessions := l\<rparr>)"
  by (auto simp: push_tokens_def pop_token_def intro!: shrinks_update shrinks_same_reactors)

lemma delSession_same:
  "snd (delSession r w) = w\<lparr>w_sessions := w_sessions (snd (delSession r w))\<rparr>"
  by (auto simp: delSession_def split: option.splits)

lemma delSession_shrinks [simp]: "shrinks w (snd (delSession r w))"
  by (subst delSession_same) simp

lemma mayStop_keys: "map rc_key (w_reactors (reactor_mayStop i w)) = map rc_key (w_reactors w)"
  by (simp add: reactor_mayStop_def rc_key_def)

lemma reactor_mayStop_shrinks [simp]: "shrinks w (reactor_mayStop i w)"
  unfolding shrinks_def mayStop_keys
  by (intro conjI exI [of _ "\<lambda>_. True"]) (simp_all add: reactor_mayStop_def)

lemma conn_clearListener_same: "control_same w (conn_clearListener r w)"
proof -
  have "control_same a (fold clearListener fds a)" for a fds
    by (induction fds arbitrary: a) (simp, metis control_same_trans control_same_steps(5) fold_simps(2))
  then show ?thesis by (simp add: conn_clearListener_def)
qed

lemma delReactor_shrinks: "shrinks w (snd (delReactor i w))"
  unfolding shrinks_def
  by (intro conjI exI [of _ "\<lambda>k. fst k \<noteq> i"]) (simp_all add: delReactor_def filter_map rc_key_def comp_def)

lemma reactor_end_shrinks: "shrinks w (reactor_end rc w)"
  unfolding reactor_end_def
  by (rule shrinks_trans [OF control_same_shrinks [OF conn_clearListener_same] delReactor_shrinks])

lemma cleanUp_shrinks: "shrinks w (cleanUp r fd w)"
proof -
  obtain ok w1 where d: "delSession r w = (ok, w1)" by fastforce
  then have s: "shrinks w w1" using delSession_shrinks by (metis snd_conv)
  show ?thesis
  proof (cases "conn_count (w_heap w r) \<le> 1")
    case True
    then show ?thesis using d s shrinks_trans [OF s reactor_mayStop_shrinks]
      by (auto simp: cleanUp_def split: option.splits)
  next
    case False
    then show ?thesis using control_same_steps(4) control_same_shrinks by (simp add: cleanUp_def)
  qed
qed

section \<open>The invariant\<close>

text \<open>Reactors are numbered, serve distinct identifiers of sessions that exist and have left the login
  type; a request for a reactor is in the queue of the session it is for.\<close>

definition world_inv :: "world \<Rightarrow> bool" where
  "world_inv w \<longleftrightarrow> distinct (map rc_id (w_reactors w)) \<and>
     distinct (map (\<lambda>rc. take 6 (getSessionID w rc)) (w_reactors w)) \<and>
     (\<forall>rc \<in> set (w_reactors w). rc_id rc < w_nextReactor w \<and> rc_session rc < w_next w \<and>
        ses_type (w_heap w (rc_session rc)) \<noteq> iSCSI_LOGIN_SESSION) \<and>
     (\<forall>q. \<forall>u \<in> set (ses_tasks (w_heap w q)). is_create u \<longrightarrow> (\<exists>k. u = CreateReactor q k) \<and> q < w_next w \<and>
        ses_type (w_heap w q) \<noteq> iSCSI_LOGIN_SESSION)"

lemma reactors_by_key:
  "(\<forall>rc \<in> set (w_reactors w). rc_id rc < n \<and> rc_session rc < m \<and> Q (rc_session rc)) \<longleftrightarrow>
     (\<forall>k \<in> set (map rc_key (w_reactors w)). fst k < n \<and> snd k < m \<and> Q (snd k))"
  "map rc_id (w_reactors w) = map fst (map rc_key (w_reactors w))"
  "map (\<lambda>rc. take 6 (getSessionID w rc)) (w_reactors w) =
     map (\<lambda>k. take 6 (ses_sid (w_heap w (snd k)))) (map rc_key (w_reactors w))"
  by (auto simp: rc_key_def getSessionID_def)

lemma inv_shrinks:
  assumes "world_inv w" and "shrinks w w'"
  shows "world_inv w'"
proof -
  from assms(2) obtain P where P: "map rc_key (w_reactors w') = filter P (map rc_key (w_reactors w))"
    by (auto simp: shrinks_def)
  have h: "ses_type (w_heap w' q) = ses_type (w_heap w q)" "ses_sid (w_heap w' q) = ses_sid (w_heap w q)"
    "\<forall>u \<in> set (ses_tasks (w_heap w' q)). is_create u \<longrightarrow> u \<in> set (ses_tasks (w_heap w q))"
    "w_next w \<le> w_next w'" "w_nextReactor w \<le> w_nextReactor w'" for q
    using assms(2) by (auto simp: shrinks_def)
  have old: "\<exists>rc0 \<in> set (w_reactors w). rc_id rc0 = rc_id rc \<and> rc_session rc0 = rc_session rc"
    if "rc \<in> set (w_reactors w')" for rc
  proof -
    from that have "rc_key rc \<in> set (map rc_key (w_reactors w'))" by simp
    then show ?thesis unfolding P by (auto simp: rc_key_def)
  qed
  have "distinct (map rc_id (w_reactors w'))" "distinct (map (\<lambda>rc. take 6 (getSessionID w' rc)) (w_reactors w'))"
    using assms(1) unfolding world_inv_def reactors_by_key P h(2) by (auto simp: distinct_map_filter)
  moreover have "rc_id rc < w_nextReactor w' \<and> rc_session rc < w_next w' \<and>
      ses_type (w_heap w' (rc_session rc)) \<noteq> iSCSI_LOGIN_SESSION" if "rc \<in> set (w_reactors w')" for rc
    using old [OF that] assms(1) h(1,4,5) unfolding world_inv_def by (metis order.strict_trans2)
  moreover have "(\<exists>k. u = CreateReactor q k) \<and> q < w_next w' \<and> ses_type (w_heap w' q) \<noteq> iSCSI_LOGIN_SESSION"
    if "u \<in> set (ses_tasks (w_heap w' q))" "is_create u" for u q
    using that assms(1) h(1,3,4) unfolding world_inv_def by (metis order.strict_trans2)
  ultimately show ?thesis unfolding world_inv_def by blast
qed

lemma inv_pdu_frame:
  assumes "world_inv w" and "pdu_frame r fd w w'" and "r < w_next w"
  shows "world_inv w'"
proof -
  have t: "w_reactors w' = w_reactors w" "w_next w' = w_next w" "w_nextReactor w' = w_nextReactor w"
    using assms(2) by (auto simp: pdu_frame_def others_same_def tables_same_def)
  have other: "ses_type (w_heap w' q) = ses_type (w_heap w q)" "ses_sid (w_heap w' q) = ses_sid (w_heap w q)"
    "ses_tasks (w_heap w' q) = ses_tasks (w_heap w q)" if "q \<noteq> r" for q
    using assms(2) that by (auto simp: pdu_frame_def others_same_def control_def)
  have known: "ses_type (w_heap w' q) = ses_type (w_heap w q) \<and> ses_sid (w_heap w' q) = ses_sid (w_heap w q)"
    if "ses_type (w_heap w q) \<noteq> iSCSI_LOGIN_SESSION" for q
    using assms(2) that other by (cases "q = r") (auto simp: pdu_frame_def)
  have rc: "rc_id rc < w_nextReactor w \<and> rc_session rc < w_next w \<and>
      ses_type (w_heap w (rc_session rc)) \<noteq> iSCSI_LOGIN_SESSION" if "rc \<in> set (w_reactors w)" for rc
    using assms(1) that by (auto simp: world_inv_def)
  have sid: "take 6 (getSessionID w' rc) = take 6 (getSessionID w rc)" if "rc \<in> set (w_reactors w)" for rc
    using rc [OF that] known by (simp add: getSessionID_def)
  have "map (\<lambda>rc. take 6 (getSessionID w' rc)) (w_reactors w) = map (\<lambda>rc. take 6 (getSessionID w rc)) (w_reactors w)"
    by (rule map_cong [OF refl sid])
  moreover have "(\<exists>k. u = CreateReactor q k) \<and> q < w_next w \<and> ses_type (w_heap w' q) \<noteq> iSCSI_LOGIN_SESSION"
    if "u \<in> set (ses_tasks (w_heap w' q))" "is_create u" for u q
  proof (cases "u \<in> set (ses_tasks (w_heap w q))")
    case True
    then have "(\<exists>k. u = CreateReactor q k) \<and> q < w_next w \<and> ses_type (w_heap w q) \<noteq> iSCSI_LOGIN_SESSION"
      using assms(1) that(2) by (auto simp: world_inv_def)
    then show ?thesis using known by auto
  next
    case False
    have "q = r"
    proof (rule ccontr)
      assume "q \<noteq> r"
      then show False using other(3) [of q] that(1) False by simp
    qed
    then show ?thesis using False that assms(2,3) by (auto simp: pdu_frame_def session_type_defs)
  qed
  ultimately show ?thesis using assms(1) rc known unfolding world_inv_def t by metis
qed

lemma addSession_same: "snd (addSession r w) = w\<lparr>w_sessions := w_sessions (snd (addSession r w))\<rparr>"
  by (auto simp: addSession_def split: list.splits option.splits)

lemma inv_addSession: "world_inv w \<Longrightarrow> world_inv (snd (addSession r w))"
  by (subst addSession_same) (rule inv_shrinks [OF _ shrinks_steps(4)])

lemma inv_accept:
  assumes "world_inv w"
  shows "world_inv (snd (accept num flag fd w))"
proof -
  let ?s = "snd (conn_add fd iSCSIConnection (iSCSISession num flag))"
  let ?w = "w\<lparr>w_heap := (w_heap w)(w_next w := ?s), w_next := Suc (w_next w), w_polls := (w_polls w)(fd \<mapsto> MainListener)\<rparr>"
  have s: "ses_tasks ?s = []" by (simp add: conn_add_def iSCSISession_def split: option.split)
  have rc: "rc_id rc < w_nextReactor w \<and> rc_session rc < w_next w \<and>
      ses_type (w_heap w (rc_session rc)) \<noteq> iSCSI_LOGIN_SESSION" if "rc \<in> set (w_reactors w)" for rc
    using assms that by (auto simp: world_inv_def)
  have "map (\<lambda>rc. take 6 (getSessionID ?w rc)) (w_reactors w) = map (\<lambda>rc. take 6 (getSessionID w rc)) (w_reactors w)"
  proof (rule map_cong [OF refl])
    fix rc
    assume "rc \<in> set (w_reactors w)"
    then have "rc_session rc < w_next w" using rc by blast
    then show "take 6 (getSessionID ?w rc) = take 6 (getSessionID w rc)" by (simp add: getSessionID_def)
  qed
  moreover have "\<forall>q. \<forall>u \<in> set (ses_tasks (w_heap ?w q)). is_create u \<longrightarrow> (\<exists>k. u = CreateReactor q k) \<and>
      q < w_next ?w \<and> ses_type (w_heap ?w q) \<noteq> iSCSI_LOGIN_SESSION"
  proof (intro allI)
    fix q
    show "\<forall>u \<in> set (ses_tasks (w_heap ?w q)). is_create u \<longrightarrow> (\<exists>k. u = CreateReactor q k) \<and>
      q < w_next ?w \<and> ses_type (w_heap ?w q) \<noteq> iSCSI_LOGIN_SESSION"
      using assms s unfolding world_inv_def by (cases "q = w_next w") (simp, auto intro: less_SucI)
  qed
  moreover have "\<forall>rc \<in> set (w_reactors ?w). rc_id rc < w_nextReactor ?w \<and> rc_session rc < w_next ?w \<and>
      ses_type (w_heap ?w (rc_session rc)) \<noteq> iSCSI_LOGIN_SESSION"
    using rc by (fastforce intro: less_SucI)
  moreover have "w_reactors ?w = w_reactors w" by simp
  moreover note inv = assms [unfolded world_inv_def]
  ultimately have "world_inv ?w" unfolding world_inv_def by metis
  then show ?thesis by (simp add: accept_def Let_def inv_addSession)
qed

lemma not_in_map: "(\<And>x. x \<in> set xs \<Longrightarrow> f x \<noteq> b) \<Longrightarrow> b \<notin> set (map f xs)"
  by auto

text \<open>A reactor is listed only if no other serves its identifier.\<close>

lemma inv_addReactor:
  assumes "world_inv w" and "r < w_next w" and "ses_type (w_heap w r) \<noteq> iSCSI_LOGIN_SESSION"
  shows "world_inv (snd (addReactor \<lparr>rc_id = w_nextReactor w, rc_session = r, rc_stop = False\<rparr>
      (w\<lparr>w_nextReactor := Suc (w_nextReactor w)\<rparr>)))" (is "world_inv (snd (addReactor ?rc ?w))")
proof (cases "find (\<lambda>tmp. sid_eq (getSessionID ?w tmp) (getSessionID ?w ?rc)) (w_reactors w) = None")
  case False
  have "shrinks w ?w" by (rule shrinks_same_reactors) auto
  then show ?thesis using False inv_shrinks [OF assms(1)] by (simp add: addReactor_def)
next
  case True
  have "take 6 (getSessionID w tmp) \<noteq> take 6 (getSessionID w ?rc)" if "tmp \<in> set (w_reactors w)" for tmp
    using True that by (auto simp: find_None_iff sid_eq_def getSessionID_def)
  then have "take 6 (getSessionID w ?rc) \<notin> set (map (\<lambda>rc. take 6 (getSessionID w rc)) (w_reactors w))"
    by (rule not_in_map)
  moreover have "rc_id tmp < w_nextReactor w" if "tmp \<in> set (w_reactors w)" for tmp
    using assms(1) that by (auto simp: world_inv_def)
  then have "w_nextReactor w \<notin> set (map rc_id (w_reactors w))"
    by (intro not_in_map) (metis less_irrefl)
  moreover have "snd (addReactor ?rc ?w) = ?w\<lparr>w_reactors := ?rc # w_reactors w\<rparr>"
    using True by (simp add: addReactor_def)
  moreover have "\<forall>rc \<in> set (w_reactors w). rc_id rc < Suc (w_nextReactor w) \<and> rc_session rc < w_next w \<and>
      ses_type (w_heap w (rc_session rc)) \<noteq> iSCSI_LOGIN_SESSION"
    using assms(1) by (auto simp: world_inv_def dest: less_SucI)
  moreover have "getSessionID (?w\<lparr>w_reactors := ?rc # w_reactors w\<rparr>) = getSessionID w"
    by (simp add: getSessionID_def fun_eq_iff)
  moreover note inv = assms(1) [unfolded world_inv_def]
  ultimately show ?thesis using assms(2,3)
    unfolding world_inv_def by simp
qed

text \<open>What running a task keeps of the sessions: everything but their connections.\<close>

definition heap_same :: "world \<Rightarrow> world \<Rightarrow> bool" where
  "heap_same w w' \<longleftrightarrow> w_next w' = w_next w \<and> (\<forall>q. control (w_heap w' q) = control (w_heap w q))"

lemma heap_same_refl [simp]: "heap_same w w"
  by (simp add: heap_same_def)

lemma delSession_heap [simp]:
  "w_heap (snd (delSession r w)) = w_heap w" "w_next (snd (delSession r w)) = w_next w"
  "w_reactors (snd (delSession r w)) = w_reactors w" "w_polls (snd (delSession r w)) = w_polls w"
  "w_nextReactor (snd (delSession r w)) = w_nextReactor w"
  by (subst delSession_same, simp)+

lemma addReactor_heap [simp]: "w_heap (snd (addReactor rc w)) = w_heap w" "w_next (snd (addReactor rc w)) = w_next w"
  "w_polls (snd (addReactor rc w)) = w_polls w"
  by (simp_all add: addReactor_def)

lemma listener_and_number:
  "(w :: world)\<lparr>w_nextReactor := n, w_polls := p\<rparr> = w\<lparr>w_polls := p, w_nextReactor := n\<rparr>"
  by (cases w) simp

lemma run_CreateReactor_inv:
  assumes "run_CreateReactor r fd w = Inr (ok, w')" and "world_inv w" and "r < w_next w"
    and "ses_type (w_heap w r) \<noteq> iSCSI_LOGIN_SESSION"
  shows "world_inv w' \<and> heap_same w w'"
proof -
  let ?w1 = "changeListener fd (w_nextReactor w) (snd (delSession r w))"
  have i: "world_inv ?w1"
    using inv_shrinks [OF inv_shrinks [OF assms(2) delSession_shrinks] control_same_shrinks
      [OF control_same_steps(2)]] .
  have f: "w_nextReactor ?w1 = w_nextReactor w" "w_next ?w1 = w_next w" "w_heap ?w1 = w_heap w"
    by (simp_all add: changeListener_def)
  have "w' = snd (addReactor \<lparr>rc_id = w_nextReactor w, rc_session = r, rc_stop = False\<rparr>
      (?w1\<lparr>w_nextReactor := Suc (w_nextReactor w)\<rparr>))"
  proof -
    have "run_CreateReactor r fd w = exec_bind (deref (conn_find fd (w_heap w r)))
       (\<lambda>_. Inr (addReactor \<lparr>rc_id = w_nextReactor w, rc_session = r, rc_stop = False\<rparr>
          (?w1\<lparr>w_nextReactor := Suc (w_nextReactor w)\<rparr>)))"
      by (simp add: run_CreateReactor_def Let_def changeListener_def listener_and_number)
    with assms(1) have "addReactor \<lparr>rc_id = w_nextReactor w, rc_session = r, rc_stop = False\<rparr>
       (?w1\<lparr>w_nextReactor := Suc (w_nextReactor w)\<rparr>) = (ok, w')" by (cases "conn_find fd (w_heap w r)") simp_all
    then show ?thesis by (simp only: snd_conv)
  qed
  then show ?thesis using inv_addReactor [OF i, of r] assms(3,4) f by (simp add: heap_same_def)
qed

section \<open>Tasks\<close>

text \<open>What is left of a data task is a data task.\<close>

definition io_ok :: "(task \<Rightarrow> (bool \<times> task) option) \<Rightarrow> bool" where
  "io_ok io \<longleftrightarrow> (\<forall>t ok t1. io t = Some (ok, t1) \<longrightarrow> \<not> is_create t \<longrightarrow> \<not> is_create t1)"

lemma run_task_create: "run_task io (CreateReactor q k) w = Inr (Some (ok, t1, w1)) \<Longrightarrow>
    t1 = CreateReactor q k \<and> run_CreateReactor q k w = Inr (ok, w1)"
  by (auto simp: run_task_def Let_def exec_bind_Inr)

text \<open>The other tasks.\<close>

lemma run_task_other:
  assumes "run_task io t w = Inr (Some (ok, t1, w1))" and "\<not> is_create t" and "io_ok io"
  shows "shrinks w w1 \<and> heap_same w w1 \<and> \<not> is_create t1"
proof -
  have del: "heap_same w (ses_update q (\<lambda>s. snd (conn_del fd s)) w)" for q fd
    using control_same_steps(4) [of w q fd] by (simp add: control_same_def tables_same_def heap_same_def)
  have del': "shrinks w (ses_update q (\<lambda>s. snd (conn_del fd s)) w)" for q fd
    by (rule control_same_shrinks [OF control_same_steps(4)])
  have stop: "heap_same w (reactor_mayStop i w)" for i by (simp add: heap_same_def reactor_mayStop_def)
  have ses: "heap_same w (snd (delSession q w))" for q by (simp add: heap_same_def)
  show ?thesis using assms(1,2)
    by (cases t) (auto simp: run_task_def Let_def exec_bind_Inr run_CloseSession_def run_CloseConnection_def
        run_RemoveReactor_def del del' stop ses dest: assms(3) [unfolded io_ok_def, rule_format])
qed

lemma heap_same_trans: "heap_same a b \<Longrightarrow> heap_same b c \<Longrightarrow> heap_same a c"
  by (simp add: heap_same_def)

lemma run_task_inv:
  assumes "run_task io t w = Inr (Some (ok, t1, w1))" and "world_inv w" and "io_ok io"
    and "is_create t \<Longrightarrow> \<exists>q. t \<in> set (ses_tasks (w_heap w q))"
  shows "world_inv w1 \<and> heap_same w w1 \<and> (is_create t1 \<longrightarrow> t1 = t)"
proof (cases "is_create t")
  case True
  with assms(2,4) obtain q k where t: "t = CreateReactor q k" "q < w_next w"
    "ses_type (w_heap w q) \<noteq> iSCSI_LOGIN_SESSION" unfolding world_inv_def by blast
  with assms(1) run_task_create have c: "t1 = t" "run_CreateReactor q k w = Inr (ok, w1)" by blast+
  then show ?thesis using run_CreateReactor_inv [OF c(2) assms(2) t(2,3)] by simp
next
  case False
  from run_task_other [OF assms(1) this assms(3)] inv_shrinks [OF assms(2)] show ?thesis by simp
qed

text \<open>The run of a queue: what is left of it asks for no other reactors.\<close>

lemma invoke_tasks_inv:
  "invoke_tasks io ts w = Inr (ok, ts', w') \<Longrightarrow> world_inv w \<Longrightarrow> io_ok io \<Longrightarrow>
   (\<forall>t \<in> set ts. is_create t \<longrightarrow> t \<in> set (ses_tasks (w_heap w r))) \<Longrightarrow>
   world_inv w' \<and> heap_same w w' \<and> (\<forall>t \<in> set ts'. is_create t \<longrightarrow> t \<in> set ts)"
proof (induction io ts w arbitrary: ok ts' w' rule: invoke_tasks.induct)
  case (2 io t ts w)
  from "2.prems"(1) obtain res where res: "run_task io t w = Inr res" by (auto simp: exec_bind_Inr)
  show ?case
  proof (cases res)
    case None
    then show ?thesis using "2.prems" res by auto
  next
    case (Some p)
    obtain ok1 t1 w1 where p: "p = (ok1, t1, w1)" by (cases p) auto
    from run_task_inv [OF res [unfolded Some p] "2.prems"(2,3)] "2.prems"(4)
    have 1: "world_inv w1" "heap_same w w1" "is_create t1 \<longrightarrow> t1 = t" by auto
    show ?thesis
    proof (cases ok1)
      case False
      then show ?thesis using "2.prems"(1) res Some p 1 by auto
    next
      case True
      then have e: "invoke_tasks io ts w1 = Inr (ok, ts', w')" using "2.prems"(1) res Some p by simp
      have "\<forall>t \<in> set ts. is_create t \<longrightarrow> t \<in> set (ses_tasks (w_heap w1 r))"
        using "2.prems"(4) 1(2) by (simp add: heap_same_def control_def)
      from "2.IH" [OF res Some p [symmetric] refl _ e 1(1) "2.prems"(3) this] True heap_same_trans [OF 1(2)]
      show ?thesis by auto
    qed
  qed
qed auto

lemma session_invoke_inv:
  assumes "session_invoke io r w = Inr (ok, w')" and "world_inv w" and "io_ok io"
  shows "world_inv w' \<and> w_next w' = w_next w"
proof -
  from assms(1) obtain ts w1 where i: "invoke_tasks io (ses_tasks (w_heap w r)) w = Inr (ok, ts, w1)"
    and w': "w' = ses_update r (\<lambda>s. s\<lparr>ses_tasks := ts\<rparr>) w1" by (auto simp: session_invoke_def exec_bind_Inr)
  from invoke_tasks_inv [OF i assms(2,3), of r] have 1: "world_inv w1" "heap_same w w1"
    "\<forall>t \<in> set ts. is_create t \<longrightarrow> t \<in> set (ses_tasks (w_heap w r))" by auto
  then have "shrinks w1 w'" unfolding w' by (intro shrinks_update) (auto simp: heap_same_def control_def)
  with 1 show ?thesis using inv_shrinks by (auto simp: w' heap_same_def)
qed

section \<open>The loop over the received PDUs\<close>

lemma cleanUp_next [simp]: "w_next (cleanUp r fd w) = w_next w"
  by (auto simp: cleanUp_def delSession_def reactor_mayStop_def split: option.splits)

lemma push_pop_next [simp]: "w_next (push_tokens r ts w) = w_next w" "w_next (pop_token r w) = w_next w"
  by (simp_all add: push_tokens_def pop_token_def)

lemma doWork_tokens_inv:
  "doWork_tokens pg r fd ts w = Inr (ret, w') \<Longrightarrow> world_inv w \<Longrightarrow> r < w_next w \<Longrightarrow>
     world_inv w' \<and> w_next w' = w_next w"
proof (induction pg r fd ts w arbitrary: ret w' rule: doWork_tokens.induct)
  case (2 pg r fd t ts w)
  show ?case
  proof (cases "ses_protos (w_heap w r) (getOpCode (token_header t))")
    case None
    then show ?thesis using "2.prems" inv_shrinks [OF _ cleanUp_shrinks] by auto
  next
    case (Some p)
    with "2.prems"(1) obtain ok w1 where h: "handler_handle pg p r t fd w = Inr (ok, w1)"
      by (auto simp: exec_bind_Inr)
    have f: "pdu_frame r fd w w1" using h by (rule handler_frame)
    then have 1: "world_inv w1" "w_next w1 = w_next w"
      using inv_pdu_frame [OF "2.prems"(2) f "2.prems"(3)] by (simp_all add: pdu_frame_def others_same_def tables_same_def)
    show ?thesis
    proof (cases ok)
      case False
      then show ?thesis using "2.prems"(1) Some h 1 inv_shrinks [OF _ cleanUp_shrinks] by auto
    next
      case True
      then have "doWork_tokens pg r fd ts (pop_token r w1) = Inr (ret, w')" using "2.prems"(1) Some h by simp
      from "2.IH" [OF Some h refl _ this inv_shrinks [OF 1(1) shrinks_steps(2)]] True 1(2) "2.prems"(3)
      show ?thesis by simp
    qed
  qed
qed simp

lemma doRecv_loop_inv:
  "doRecv_loop pg r fd es n w = Inr (ret, w') \<Longrightarrow> world_inv w \<Longrightarrow> r < w_next w \<Longrightarrow>
     world_inv w' \<and> w_next w' = w_next w"
proof (induction pg r fd es n w arbitrary: ret w' rule: doRecv_loop.induct)
  case (2 pg r fd n ts es tot w)
  from "2.prems"(1) obtain ret1 w1 where d: "session_doWork pg r fd (push_tokens r ts w) = Inr (ret1, w1)"
    by (auto simp: exec_bind_Inr)
  from doWork_tokens_inv [OF d [unfolded session_doWork_def]] "2.prems"(2,3) inv_shrinks [OF "2.prems"(2) shrinks_steps(1)]
  have 1: "world_inv w1" "w_next w1 = w_next w" by auto
  show ?case using "2.prems" d 1 "2.IH" [OF d refl _ _ 1(1)] by (cases "ret1 < 0") auto
qed auto

lemma session_recv_inv:
  assumes "session_recv pg io r fd es w = Inr (n, w')" and "world_inv w" and "r < w_next w" and "io_ok io"
  shows "world_inv w' \<and> w_next w' = w_next w"
proof -
  from assms(1) obtain n1 w1 where "doRecv pg r fd es w = Inr (n1, w1)" by (auto simp: session_recv_def exec_bind_Inr)
  then have "doRecv_loop pg r fd es 0 w = Inr (n1, w1)" by (auto simp: doRecv_def with_conn_def exec_bind_Inr)
  from doRecv_loop_inv [OF this assms(2,3)] have 1: "world_inv w1" "w_next w1 = w_next w" by auto
  show ?thesis
  proof (cases "n1 \<le> 0")
    case True
    then show ?thesis using assms(1) \<open>doRecv pg r fd es w = Inr (n1, w1)\<close> 1 inv_shrinks [OF 1(1) cleanUp_shrinks]
      by (auto simp: session_recv_def)
  next
    case False
    with assms(1) \<open>doRecv pg r fd es w = Inr (n1, w1)\<close> obtain ok where "session_invoke io r w1 = Inr (ok, w')"
      by (auto simp: session_recv_def exec_bind_Inr)
    from session_invoke_inv [OF this 1(1) assms(4)] 1(2) show ?thesis by simp
  qed
qed

section \<open>The daemon\<close>

text \<open>The steps of the main thread and of the reactors: a connection is accepted, data is received, a socket
  can be written again, a disk writer changes a cache, the thread of a reactor ends. A step is one
  activation of a thread; the ends of reactors and the writers may come between any two of them.\<close>

inductive world_step :: "program \<Rightarrow> world \<Rightarrow> world \<Rightarrow> bool" for pg where
  accept: "world_step pg w (snd (accept num flag fd w))"
| recv: "r < w_next w \<Longrightarrow> io_ok io \<Longrightarrow> session_recv pg io r fd es w = Inr (n, w') \<Longrightarrow> world_step pg w w'"
| send: "r < w_next w \<Longrightarrow> io_ok io \<Longrightarrow> session_send io r w = Inr (n, w') \<Longrightarrow> world_step pg w w'"
| drain: "world_step pg w (ses_update r (\<lambda>s. s\<lparr>ses_wcaches := cs\<rparr>) w)"
| finish: "rc \<in> set (w_reactors w) \<Longrightarrow> world_step pg w (reactor_end rc w)"

inductive reachable :: "program \<Rightarrow> world \<Rightarrow> bool" for pg where
  start: "reachable pg (initial_world bp)"
| step: "reachable pg w \<Longrightarrow> world_step pg w w' \<Longrightarrow> reachable pg w'"

lemma initial_inv: "world_inv (initial_world bp)"
  by (simp add: world_inv_def initial_world_def iSCSISession_def)

lemma step_inv: "world_step pg w w' \<Longrightarrow> world_inv w \<Longrightarrow> world_inv w'"
proof (induction rule: world_step.induct)
  case (recv r w io fd es n w')
  then show ?case using session_recv_inv by blast
next
  case (send r w io n w')
  then obtain ok where "session_invoke io r w = Inr (ok, w')" by (auto simp: session_send_def exec_bind_Inr)
  then show ?case using session_invoke_inv send by blast
qed (auto intro: inv_accept inv_shrinks reactor_end_shrinks)

lemma reachable_inv: "reachable pg w \<Longrightarrow> world_inv w"
  by (induction rule: reachable.induct) (auto intro: initial_inv step_inv)

section \<open>What becomes of the received PDUs\<close>

lemma cleanUp_tokens [simp]: "ses_tokens (w_heap (cleanUp r fd w) q) = ses_tokens (w_heap w q)"
  by (auto simp: cleanUp_def delSession_def reactor_mayStop_def conn_del_def ses_update_def split: option.splits)

text \<open>Why the loop stops at a PDU: there is no handler for it, or the handler refuses it.\<close>

definition pdu_refused :: "program \<Rightarrow> nat \<Rightarrow> token \<Rightarrow> int \<Rightarrow> world \<Rightarrow> int \<Rightarrow> world \<Rightarrow> bool" where
  "pdu_refused pg r t fd w ret w' \<longleftrightarrow>
     (case ses_protos (w_heap w r) (getOpCode (token_header t)) of
        None \<Rightarrow> ret = - ESRCH \<and> w' = cleanUp r fd w
      | Some p \<Rightarrow> \<exists>w1. handler_handle pg p r t fd w = Inr (False, w1) \<and> ret = - EIO \<and> w' = cleanUp r fd w1)"

lemma doWork_tokens_result:
  "doWork_tokens pg r fd ts w = Inr (ret, w') \<Longrightarrow> ses_tokens (w_heap w r) = ts \<Longrightarrow>
     ret = 0 \<and> ses_tokens (w_heap w' r) = [] \<or>
     (\<exists>pre t post w1. ts = pre @ t # post \<and> doWork_tokens pg r fd pre w = Inr (0, w1) \<and>
        pdu_refused pg r t fd w1 ret w' \<and> ses_tokens (w_heap w' r) = t # post)"
proof (induction pg r fd ts w arbitrary: ret w' rule: doWork_tokens.induct)
  case (2 pg r fd t ts w)
  let ?none = "\<lambda>w1 pre. doWork_tokens pg r fd pre w = Inr (0, w1)"
  show ?case
  proof (cases "ses_protos (w_heap w r) (getOpCode (token_header t))")
    case None
    then have "?none w []" "pdu_refused pg r t fd w ret w'" "ses_tokens (w_heap w' r) = t # ts"
      using "2.prems" by (auto simp: pdu_refused_def)
    then show ?thesis by (metis append_Nil)
  next
    case (Some p)
    with "2.prems"(1) obtain ok w1 where h: "handler_handle pg p r t fd w = Inr (ok, w1)"
      by (auto simp: exec_bind_Inr)
    have tok: "ses_tokens (w_heap w1 r) = t # ts" using handlers_keep_tokens [OF h] "2.prems"(2) by simp
    show ?thesis
    proof (cases ok)
      case False
      then have "?none w []" "pdu_refused pg r t fd w ret w'" "ses_tokens (w_heap w' r) = t # ts"
        using "2.prems" Some h tok by (auto simp: pdu_refused_def)
      then show ?thesis by (metis append_Nil)
    next
      case True
      then have "doWork_tokens pg r fd ts (pop_token r w1) = Inr (ret, w')" using "2.prems"(1) Some h by simp
      from "2.IH" [OF Some h refl _ this] True tok
      have "ret = 0 \<and> ses_tokens (w_heap w' r) = [] \<or>
        (\<exists>pre t' post w2. ts = pre @ t' # post \<and> doWork_tokens pg r fd pre (pop_token r w1) = Inr (0, w2) \<and>
          pdu_refused pg r t' fd w2 ret w' \<and> ses_tokens (w_heap w' r) = t' # post)" by (simp add: pop_token_def)
      moreover have "doWork_tokens pg r fd (t # pre) w = doWork_tokens pg r fd pre (pop_token r w1)" for pre
        using Some h True by simp
      ultimately show ?thesis by (metis append_Cons)
    qed
  qed
qed simp

text \<open>C31. The received PDUs are handled in order. Either all are handled and none is left, or the loop stops at
  the first PDU that has no handler or that its handler refuses: the PDUs before it have been
  handled, the connection is cleaned up once more, the error number says which case it was, and this
  PDU and those behind it are still in the queue.\<close>

theorem doWork_in_order:
  assumes "session_doWork pg r fd w = Inr (ret, w')"
  shows "ret = 0 \<and> ses_tokens (w_heap w' r) = [] \<or>
    (\<exists>pre t post w1. ses_tokens (w_heap w r) = pre @ t # post \<and> doWork_tokens pg r fd pre w = Inr (0, w1) \<and>
       pdu_refused pg r t fd w1 ret w' \<and> ses_tokens (w_heap w' r) = t # post)"
  by (rule doWork_tokens_result [OF assms [unfolded session_doWork_def] refl])

section \<open>Cleaning up\<close>

lemma conn_del_head: "ses_ports s = [(fd, c), (fd2, c2)] \<Longrightarrow> fd \<noteq> fd2 \<Longrightarrow> ses_ports (snd (conn_del fd s)) = [(fd2, c2)]"
  by (simp add: conn_del_def conn_find_def)

lemma cleanUp_one:
  "conn_count (w_heap w r) \<le> 1 \<Longrightarrow> findSession r w = None \<Longrightarrow> findReactor (ses_sid (w_heap w r)) w = Some rc \<Longrightarrow>
     cleanUp r fd w = reactor_mayStop (rc_id rc) w"
  by (simp add: cleanUp_def delSession_def findSession_def)

lemma cleanUp_more:
  "conn_count (w_heap w r) > 1 \<Longrightarrow> cleanUp r fd w = ses_update r (\<lambda>s. snd (conn_del fd s)) w"
  by (simp add: cleanUp_def)

lemma conn_del_sid [simp]: "ses_sid (snd (conn_del fd s)) = ses_sid s"
  by (simp add: conn_del_def split: option.splits)

text \<open>When a session of a reactor has two connections and one of them is closed by its peer, the other one goes
  on. When one of them delivers a PDU without handler, both the loop over the PDUs and the receiver
  clean up: the connection is removed, and as only one is left then, the reactor is told to stop and
  the connection that did nothing wrong is dropped with it.\<close>

theorem bad_pdu_stops_session:
  assumes ports: "ses_ports (w_heap w r) = [(fd, c), (fd2, c2)]" "fd \<noteq> fd2"
    and reactor: "findSession r w = None" "findReactor (ses_sid (w_heap w r)) w = Some rc"
    and bad: "ses_tokens (w_heap w r) = []" "ses_protos (w_heap w r) (getOpCode (token_header t)) = None"
  shows "(\<exists>w'. session_recv pg io r fd [Closed] w = Inr (0, w') \<and> ses_ports (w_heap w' r) = [(fd2, c2)] \<and>
      w_reactors w' = w_reactors w) \<and>
    (\<exists>w'. session_recv pg io r fd [Received n [t]] w = Inr (0, w') \<and> ses_ports (w_heap w' r) = [(fd2, c2)] \<and>
      w_reactors w' = w_reactors (reactor_mayStop (rc_id rc) w))"
proof -
  have conn: "conn_find fd (w_heap w r) = Some c" using ports by (simp add: conn_find_def)
  have two: "conn_count (w_heap w r) > 1" using ports by (simp add: conn_count_def)
  let ?w1 = "push_tokens r [t] w"
  let ?w2 = "ses_update r (\<lambda>s. snd (conn_del fd s)) ?w1"
  have heap: "w_heap ?w1 r = (w_heap w r)\<lparr>ses_tokens := [t]\<rparr>" using bad(1) by (simp add: push_tokens_def)
  have "session_doWork pg r fd ?w1 = Inr (- ESRCH, cleanUp r fd ?w1)" using bad(2) heap by (simp add: session_doWork_def)
  moreover have "cleanUp r fd ?w1 = ?w2" by (rule cleanUp_more) (use two heap in \<open>simp add: conn_count_def\<close>)
  ultimately have "doRecv pg r fd [Received n [t]] w = Inr (- ESRCH, ?w2)"
    using conn by (simp add: doRecv_def with_conn_def ESRCH_def)
  then have recv: "session_recv pg io r fd [Received n [t]] w = Inr (0, cleanUp r fd ?w2)"
    by (simp add: session_recv_def ESRCH_def)
  have left: "ses_ports (w_heap ?w2 r) = [(fd2, c2)]" using conn_del_head [of "w_heap ?w1 r"] ports heap by simp
  have sid: "ses_sid (w_heap ?w2 q) = ses_sid (w_heap w q)" for q by (simp add: push_tokens_def)
  have same: "w_reactors ?w2 = w_reactors w" "w_sessions ?w2 = w_sessions w" by (simp_all add: push_tokens_def)
  have "cleanUp r fd ?w2 = reactor_mayStop (rc_id rc) ?w2"
  proof (rule cleanUp_one)
    show "conn_count (w_heap ?w2 r) \<le> 1" using left by (simp add: conn_count_def)
    show "findSession r ?w2 = None" using reactor(1) same(2) by (simp add: findSession_def)
    show "findReactor (ses_sid (w_heap ?w2 r)) ?w2 = Some rc"
      unfolding sid findReactor_sid [of ?w2 w, OF same(1) sid] by (rule reactor(2))
  qed
  then have "ses_ports (w_heap (cleanUp r fd ?w2) r) = [(fd2, c2)]"
    "w_reactors (cleanUp r fd ?w2) = w_reactors (reactor_mayStop (rc_id rc) w)"
    using left same(1) by (simp_all add: reactor_mayStop_def)
  moreover have "session_recv pg io r fd [Closed] w = Inr (0, ses_update r (\<lambda>s. snd (conn_del fd s)) w)"
    using conn cleanUp_more [OF two] by (simp add: session_recv_def doRecv_def with_conn_def)
  ultimately show ?thesis using recv conn_del_head [of "w_heap w r"] ports by simp
qed

section \<open>From the main listener to a reactor\<close>

lemma run_CreateReactor_eq:
  assumes "conn_find fd (w_heap w r) = Some c"
  shows "run_CreateReactor r fd w =
    Inr (findReactor (ses_sid (w_heap w r)) w = None,
      (snd (delSession r w))\<lparr>w_polls := (w_polls w)(fd \<mapsto> ReactorListener (w_nextReactor w)),
        w_nextReactor := Suc (w_nextReactor w),
        w_reactors := (if findReactor (ses_sid (w_heap w r)) w = None
           then \<lparr>rc_id = w_nextReactor w, rc_session = r, rc_stop = False\<rparr> # w_reactors w else w_reactors w)\<rparr>)"
proof -
  let ?rc = "\<lparr>rc_id = w_nextReactor w, rc_session = r, rc_stop = False\<rparr>"
  let ?w1 = "(snd (delSession r w))\<lparr>w_polls := (w_polls w)(fd \<mapsto> ReactorListener (w_nextReactor w)),
        w_nextReactor := Suc (w_nextReactor w)\<rparr>"
  have "run_CreateReactor r fd w = Inr (addReactor ?rc ?w1)"
    using assms by (simp add: run_CreateReactor_def Let_def changeListener_def listener_and_number)
  moreover have "find (\<lambda>tmp. sid_eq (getSessionID ?w1 tmp) (getSessionID ?w1 ?rc)) (w_reactors ?w1) =
      findReactor (ses_sid (w_heap w r)) w" by (simp add: findReactor_def getSessionID_def)
  moreover have reactors: "w_reactors ?w1 = w_reactors w" by simp
  have "v\<lparr>w_reactors := w_reactors v\<rparr> = v" for v :: world by simp
  from this [of ?w1] have "?w1\<lparr>w_reactors := w_reactors w\<rparr> = ?w1" unfolding reactors .
  ultimately show ?thesis by (simp add: addReactor_def)
qed

text \<open>A connection is handed to a reactor of its own exactly when no reactor serves the identifier of its
  session. In both cases it is polled by the new reactor from then on and its session leaves the
  manager's table; but otherwise this reactor is in no list and no thread runs it.\<close>

theorem create_reactor_handover:
  assumes "conn_find fd (w_heap w r) = Some c"
  shows "\<exists>ok w'. run_task io (CreateReactor r fd) w = Inr (Some (ok, CreateReactor r fd, w')) \<and>
    (ok \<longleftrightarrow> findReactor (ses_sid (w_heap w r)) w = None) \<and>
    w_polls w' = (w_polls w)(fd \<mapsto> ReactorListener (w_nextReactor w)) \<and>
    w_sessions w' = w_sessions (snd (delSession r w)) \<and> w_heap w' = w_heap w \<and>
    w_reactors w' = (if ok then [\<lparr>rc_id = w_nextReactor w, rc_session = r, rc_stop = False\<rparr>] else []) @ w_reactors w"
  unfolding run_task_def Let_def using run_CreateReactor_eq [OF assms] by simp

lemma findReactor_Some: "findReactor sid w = Some rc \<Longrightarrow> rc \<in> set (w_reactors w) \<and> take 6 (getSessionID w rc) = take 6 sid"
  by (auto simp: findReactor_def find_Some_iff sid_eq_def)

lemma findReactor_cong: "take 6 a = take 6 b \<Longrightarrow> findReactor a w = findReactor b w"
  by (simp add: findReactor_def sid_eq_def)

lemma find_map_None: "find P (map f xs) = None \<longleftrightarrow> find (\<lambda>x. P (f x)) xs = None"
  by (induction xs) auto

lemma findReactor_mayStop: "findReactor sid (reactor_mayStop i w) = None \<longleftrightarrow> findReactor sid w = None"
proof -
  let ?f = "\<lambda>rc. if rc_id rc = i then rc\<lparr>rc_stop := True\<rparr> else rc"
  have "getSessionID (reactor_mayStop i w) (?f rc) = getSessionID w rc" for rc
    by (simp add: getSessionID_def reactor_mayStop_def)
  then show ?thesis by (simp add: findReactor_def find_map_None reactor_mayStop_def)
qed

lemma mayStop_fields [simp]:
  "w_heap (reactor_mayStop i w) = w_heap w" "w_nextReactor (reactor_mayStop i w) = w_nextReactor w"
  "w_polls (reactor_mayStop i w) = w_polls w"
  by (simp_all add: reactor_mayStop_def)

text \<open>C19. Session reinstatement: an initiator logs in again while a reactor serves its identifier, and the queue
  holds the login response and the two tasks that \<^verbatim>\<open>handle1stNormalRequest\<close> asks for. The
  response is sent. The old reactor is only told to stop, it
  is still listed when the new one is to be added, so the new one is refused: the task stays in the
  queue, and the connection is polled by a reactor that is not listed and never runs.\<close>

theorem reinstatement_orphans_connection:
  assumes inv: "reachable pg w" and old: "findReactor (ses_sid (w_heap w r)) w = Some rc"
    and conn: "conn_find fd (w_heap w r) = Some c"
    and tasks: "ses_tasks (w_heap w r) = [TSend fd x, RemoveReactor (rc_session rc), CreateReactor r fd]"
    and sent: "io (TSend fd x) = Some (True, u)"
  shows "\<exists>w' i. session_invoke io r w = Inr (True, w') \<and> ses_tasks (w_heap w' r) = [CreateReactor r fd] \<and>
    w_polls w' fd = Some (ReactorListener i) \<and> i \<notin> rc_id ` set (w_reactors w') \<and>
    map rc_id (w_reactors w') = map rc_id (w_reactors w)"
proof -
  let ?w1 = "reactor_mayStop (rc_id rc) w"
  have "take 6 (ses_sid (w_heap w (rc_session rc))) = take 6 (ses_sid (w_heap w r))"
    using findReactor_Some [OF old] by (simp add: getSessionID_def)
  have 0: "run_task io (TSend fd x) w = Inr (Some (True, u, w))" using sent by (simp add: run_task_def)
  from trans [OF findReactor_cong [OF \<open>take 6 _ = take 6 _\<close>] old]
  have 1: "run_task io (RemoveReactor (rc_session rc)) w = Inr (Some (True, RemoveReactor (rc_session rc), ?w1))"
    by (simp add: run_task_def run_RemoveReactor_def)
  have f: "findReactor (ses_sid (w_heap ?w1 r)) ?w1 \<noteq> None" using old findReactor_mayStop by simp
  have conn1: "conn_find fd (w_heap ?w1 r) = Some c" using conn by simp
  let ?i = "w_nextReactor w"
  obtain w2 where r: "run_CreateReactor r fd ?w1 = Inr (False, w2)"
    and w2: "w_polls w2 fd = Some (ReactorListener ?i)" "w_reactors w2 = w_reactors ?w1"
    using run_CreateReactor_eq [OF conn1] f by auto
  then have 2: "run_task io (CreateReactor r fd) ?w1 = Inr (Some (False, CreateReactor r fd, w2))"
    by (simp add: run_task_def)
  have "session_invoke io r w = Inr (True, ses_update r (\<lambda>s. s\<lparr>ses_tasks := [CreateReactor r fd]\<rparr>) w2)"
    using 0 1 2 tasks by (simp add: session_invoke_def)
  moreover
  have ids: "map rc_id (w_reactors ?w1) = map rc_id (w_reactors w)" by (simp add: reactor_mayStop_def)
  moreover have "?i \<notin> rc_id ` set (w_reactors w)"
    using reachable_inv [OF inv] by (auto simp: world_inv_def)
  then have "?i \<notin> rc_id ` set (w_reactors w2)" unfolding w2(2) set_map [symmetric] ids .
  moreover have "map rc_id (w_reactors w2) = map rc_id (w_reactors w)" unfolding w2(2) by (rule ids)
  ultimately show ?thesis
    using w2(1) by (intro exI [of _ "ses_update r (\<lambda>s. s\<lparr>ses_tasks := [CreateReactor r fd]\<rparr>) w2"] exI [of _ ?i]) simp
qed

section \<open>A concrete run\<close>

text \<open>Two initiators log in with the same identifier, one after the other; the sockets of the first can be
  written at once, those of the second not.\<close>

definition ex_program :: program where
  "ex_program = \<lparr>pg_env = ex_env, pg_host = \<lparr>h_lb = \<lambda>_ _. 0, h_ub = \<lambda>_ _. 0, h_mem = \<lambda>_. 0, h_junk = \<lambda>_. 0\<rparr>,
     pg_lt = \<lambda>_ _. False\<rparr>"

definition io_done :: "task \<Rightarrow> (bool \<times> task) option" where "io_done t = Some (True, t)"
definition io_blocked :: "task \<Rightarrow> (bool \<times> task) option" where "io_blocked t = Some (False, t)"

lemma io_examples [simp]: "io_ok io_done" "io_ok io_blocked"
  by (auto simp: io_ok_def io_done_def io_blocked_def)

definition fresh_at :: "world \<Rightarrow> nat \<Rightarrow> int \<Rightarrow> bool" where
  "fresh_at w r fd \<longleftrightarrow> ses_type (w_heap w r) = iSCSI_LOGIN_SESSION \<and> ses_tasks (w_heap w r) = [] \<and>
     ses_ports (w_heap w r) = [(fd, iSCSIConnection)] \<and> ses_tag (w_heap w r) = 1 \<and> ses_tokens (w_heap w r) = [] \<and>
     ses_protos (w_heap w r) = [iSCSI_OP_LOGIN_CMD \<mapsto> LoginHandler]"

lemma accept_fresh: "fresh_at (snd (accept num flag fd w)) (w_next w) fd"
  by (simp add: fresh_at_def ex_accepted fresh_session)

lemma accept_other:
  "w_reactors (snd (accept num flag fd w)) = w_reactors w" "w_next (snd (accept num flag fd w)) = Suc (w_next w)"
  "q \<noteq> w_next w \<Longrightarrow> w_heap (snd (accept num flag fd w)) q = w_heap w q"
  by (simp_all add: accept_def Let_def addSession_def split: list.split option.split)

lemma ex_doRecv:
  assumes "fresh_at w r fd"
  shows "\<exists>w1 x c. doRecv ex_program r fd [Received 87 [ex_login_token]] w = Inr (87, w1) \<and>
    ses_tasks (w_heap w1 r) = TSend fd x # takeover_tasks w ex_sid r fd \<and> ses_sid (w_heap w1 r) = ex_sid \<and>
    conn_find fd (w_heap w1 r) = Some c \<and> w_reactors w1 = w_reactors w \<and> w_next w1 = w_next w \<and>
    w_nextReactor w1 = w_nextReactor w \<and> (\<forall>q. q \<noteq> r \<longrightarrow> ses_sid (w_heap w1 q) = ses_sid (w_heap w q))"
proof -
  let ?w = "push_tokens r [ex_login_token] w"
  have p: "w_heap ?w q = (if q = r then (w_heap w r)\<lparr>ses_tokens := ses_tokens (w_heap w r) @ [ex_login_token]\<rparr> else w_heap w q)" for q
    by (simp add: push_tokens_def)
  have f: "ses_type (w_heap ?w r) = iSCSI_LOGIN_SESSION" "ses_tasks (w_heap ?w r) = []"
    "ses_ports (w_heap ?w r) = [(fd, iSCSIConnection)]" "ses_tag (w_heap ?w r) = 1"
    "ses_tokens (w_heap ?w r) = [ex_login_token]" "ses_protos (w_heap ?w r) = [iSCSI_OP_LOGIN_CMD \<mapsto> LoginHandler]"
    using assms unfolding p fresh_at_def by simp_all
  have "findReactor ex_sid ?w = findReactor ex_sid w" by (rule findReactor_sid) (simp_all add: push_tokens_def)
  then have us: "takeover_tasks ?w ex_sid r fd = takeover_tasks w ex_sid r fd" by (simp add: takeover_tasks_def)
  from ex_login [OF f(1-4), of "\<lambda>_ _. False"] obtain w1 x c where
    l: "LoginHandler_handle ex_env (\<lambda>_ _. False) r ex_login_token fd ?w = Inr (True, w1)"
    "ses_tasks (w_heap w1 r) = TSend fd x # takeover_tasks w ex_sid r fd" "ses_sid (w_heap w1 r) = ex_sid"
    "ses_ports (w_heap w1 r) = [(fd, c)]" unfolding us by blast
  from LoginHandler_frame [OF l(1)] have fr: "w_reactors w1 = w_reactors w" "w_next w1 = w_next w"
    "w_nextReactor w1 = w_nextReactor w"
    "q \<noteq> r \<Longrightarrow> ses_sid (w_heap w1 q) = ses_sid (w_heap w q)" for q
    by (simp_all add: pdu_frame_def others_same_def tables_same_def control_def push_tokens_def)
  have "session_doWork ex_program r fd ?w = Inr (0, pop_token r w1)"
    using f(5,6) l(1) by (simp add: session_doWork_def ex_login_header_facts handler_handle_def ex_program_def)
  moreover have "conn_find fd (w_heap w r) = Some iSCSIConnection" using assms by (simp add: fresh_at_def conn_find_def)
  ultimately have "doRecv ex_program r fd [Received 87 [ex_login_token]] w = Inr (87, pop_token r w1)"
    by (simp add: doRecv_def with_conn_def)
  then show ?thesis using l fr by (auto simp: pop_token_def conn_find_def)
qed

text \<open>The first one gets a reactor.\<close>

lemma ex_first_recv:
  "\<exists>w. session_recv ex_program io_done 0 3 [Received 87 [ex_login_token]]
      (snd (accept (\<lambda>_. 8192) (\<lambda>_. True) 3 (initial_world ex_pool))) = Inr (1, w) \<and> w_next w = 1 \<and>
    w_reactors w = [\<lparr>rc_id = 0, rc_session = 0, rc_stop = False\<rparr>] \<and> ses_sid (w_heap w 0) = ex_sid \<and>
    w_polls w 3 = Some (ReactorListener 0)"
proof -
  let ?w0 = "snd (accept (\<lambda>_. 8192) (\<lambda>_. True) 3 (initial_world ex_pool))"
  have i: "w_next (initial_world ex_pool) = 0" "w_reactors (initial_world ex_pool) = []"
    "w_nextReactor (initial_world ex_pool) = 0" by (simp_all add: initial_world_def)
  have fresh: "fresh_at ?w0 0 3" using accept_fresh [of _ _ 3 "initial_world ex_pool"] i by simp
  have e0: "w_reactors ?w0 = []" "w_next ?w0 = 1" using accept_other i by simp_all
  from ex_doRecv [OF fresh] obtain w1 x c where 1: "doRecv ex_program 0 3 [Received 87 [ex_login_token]] ?w0 = Inr (87, w1)"
    "ses_tasks (w_heap w1 0) = TSend 3 x # takeover_tasks ?w0 ex_sid 0 3" "ses_sid (w_heap w1 0) = ex_sid"
    "conn_find 3 (w_heap w1 0) = Some c" "w_reactors w1 = []" "w_next w1 = 1" "w_nextReactor w1 = w_nextReactor ?w0"
    unfolding e0 by blast
  have ts: "ses_tasks (w_heap w1 0) = [TSend 3 x, CreateReactor 0 3]"
    using 1(2) e0 by (simp add: takeover_tasks_def findReactor_def)
  have none: "findReactor (ses_sid (w_heap w1 0)) w1 = None" using 1(5) by (simp add: findReactor_def)
  have nr: "w_nextReactor w1 = 0"
    using 1(7) i by (simp add: accept_def Let_def addSession_def split: list.split option.split)
  from run_CreateReactor_eq [OF 1(4)] none nr 1(5) obtain w2 where
    c: "run_CreateReactor 0 3 w1 = Inr (True, w2)" "w_reactors w2 = [\<lparr>rc_id = 0, rc_session = 0, rc_stop = False\<rparr>]"
      "w_heap w2 = w_heap w1" "w_next w2 = w_next w1" "w_polls w2 3 = Some (ReactorListener 0)" by simp
  then have "session_invoke io_done 0 w1 = Inr (True, ses_update 0 (\<lambda>s. s\<lparr>ses_tasks := []\<rparr>) w2)"
    using ts by (simp add: session_invoke_def run_task_def io_done_def)
  then have "session_recv ex_program io_done 0 3 [Received 87 [ex_login_token]] ?w0 =
      Inr (1, ses_update 0 (\<lambda>s. s\<lparr>ses_tasks := []\<rparr>) w2)" using 1(1) by (simp add: session_recv_def)
  then show ?thesis using c 1(3,6) by (simp add: ses_update_def)
qed

lemma ex_first:
  "\<exists>w. reachable ex_program w \<and> w_next w = 1 \<and> w_reactors w = [\<lparr>rc_id = 0, rc_session = 0, rc_stop = False\<rparr>] \<and>
     ses_sid (w_heap w 0) = ex_sid"
proof -
  let ?w0 = "snd (accept (\<lambda>_. 8192) (\<lambda>_. True) 3 (initial_world ex_pool))"
  from ex_first_recv obtain w where w: "session_recv ex_program io_done 0 3 [Received 87 [ex_login_token]] ?w0 = Inr (1, w)"
    "w_next w = 1" "w_reactors w = [\<lparr>rc_id = 0, rc_session = 0, rc_stop = False\<rparr>]" "ses_sid (w_heap w 0) = ex_sid" by blast
  have r0: "reachable ex_program ?w0" by (rule reachable.step [OF reachable.start world_step.accept])
  have "w_next ?w0 = 1" using accept_other by (simp add: initial_world_def)
  then have "world_step ex_program ?w0 w" using w(1) by (intro world_step.recv) simp_all
  from reachable.step [OF r0 this] w(2-4) show ?thesis by blast
qed

lemma ses_tasks_same: "ses_tasks (w_heap w r) = ts \<Longrightarrow> ses_update r (\<lambda>s. s\<lparr>ses_tasks := ts\<rparr>) w = w"
proof -
  assume t: "ses_tasks (w_heap w r) = ts"
  have s: "s\<lparr>ses_tasks := ses_tasks s\<rparr> = s" for s :: iscsi_session by simp
  have "(w_heap w)(r := (w_heap w r)\<lparr>ses_tasks := ts\<rparr>) = w_heap w" unfolding t [symmetric] s by simp
  then show ?thesis by (simp add: ses_update_def)
qed

text \<open>The second one is waiting for its socket, with the takeover in its queue.\<close>

lemma ex_second:
  "\<exists>w rc x c. reachable ex_program w \<and> w_reactors w = [rc] \<and> findReactor (ses_sid (w_heap w 1)) w = Some rc \<and>
     conn_find 4 (w_heap w 1) = Some c \<and>
     ses_tasks (w_heap w 1) = [TSend 4 x, RemoveReactor (rc_session rc), CreateReactor 1 4]"
proof -
  let ?rc = "\<lparr>rc_id = 0, rc_session = 0, rc_stop = False\<rparr>"
  from ex_first obtain w where w: "reachable ex_program w" "w_next w = 1" "w_reactors w = [?rc]"
    "ses_sid (w_heap w 0) = ex_sid" by blast
  let ?w0 = "snd (accept (\<lambda>_. 8192) (\<lambda>_. True) 4 w)"
  have r0: "reachable ex_program ?w0" by (rule reachable.step [OF w(1) world_step.accept])
  have fresh: "fresh_at ?w0 1 4" using accept_fresh [of _ _ 4 w] w(2) by simp
  have e0: "w_reactors ?w0 = [?rc]" "w_next ?w0 = 2" "ses_sid (w_heap ?w0 0) = ex_sid"
    using accept_other w by simp_all
  from ex_doRecv [OF fresh] obtain w1 x c where 1: "doRecv ex_program 1 4 [Received 87 [ex_login_token]] ?w0 = Inr (87, w1)"
    "ses_tasks (w_heap w1 1) = TSend 4 x # takeover_tasks ?w0 ex_sid 1 4" "ses_sid (w_heap w1 1) = ex_sid"
    "conn_find 4 (w_heap w1 1) = Some c" "w_reactors w1 = [?rc]" "w_next w1 = 2"
    "\<forall>q. q \<noteq> 1 \<longrightarrow> ses_sid (w_heap w1 q) = ses_sid (w_heap ?w0 q)" unfolding e0 by blast
  have ts: "ses_tasks (w_heap w1 1) = [TSend 4 x, RemoveReactor 0, CreateReactor 1 4]"
    using 1(2) e0 by (simp add: takeover_tasks_def findReactor_def getSessionID_def sid_eq_def)
  have f: "findReactor (ses_sid (w_heap w1 1)) w1 = Some ?rc"
    using 1(3,5,7) e0(3) by (simp add: findReactor_def getSessionID_def sid_eq_def)
  have "session_invoke io_blocked 1 w1 = Inr (True, w1)"
    using ts ses_tasks_same [OF ts] by (simp add: session_invoke_def run_task_def io_blocked_def)
  then have "session_recv ex_program io_blocked 1 4 [Received 87 [ex_login_token]] ?w0 = Inr (1, w1)"
    using 1(1) by (simp add: session_recv_def)
  then have "world_step ex_program ?w0 w1" using e0(2) by (intro world_step.recv) simp_all
  from reachable.step [OF r0 this] 1(4,5) f ts show ?thesis by fastforce
qed

text \<open>C3. Whatever the initiators send and however the threads take turns, no two reactors serve sessions with
  the same identifier, the reactors are numbered apart, and every reactor serves a session whose type an initiator
  has chosen, discovery or normal; the type is set at the first login PDU that names it.\<close>

theorem reactor_sessions_distinct:
  assumes "reachable pg w"
  shows "distinct (map (\<lambda>rc. take 6 (getSessionID w rc)) (w_reactors w)) \<and> distinct (map rc_id (w_reactors w)) \<and>
    (\<forall>rc \<in> set (w_reactors w). ses_type (w_heap w (rc_session rc)) \<noteq> iSCSI_LOGIN_SESSION)"
  using reachable_inv [OF assms] by (auto simp: world_inv_def)

theorem reactor_sessions_distinct_witness:
  "\<exists>w. reachable ex_program w \<and> w_reactors w \<noteq> [] \<and> distinct (map (\<lambda>rc. take 6 (getSessionID w rc)) (w_reactors w))"
proof -
  from ex_second obtain w rc where "reachable ex_program w" "w_reactors w = [rc]" by blast
  with reactor_sessions_distinct [of ex_program w] show ?thesis by auto
qed

theorem reinstatement_orphans_connection_witness:
  "\<exists>w w' i. reachable ex_program w \<and> session_invoke io_done 1 w = Inr (True, w') \<and>
     ses_tasks (w_heap w' 1) = [CreateReactor 1 4] \<and> w_polls w' 4 = Some (ReactorListener i) \<and>
     i \<notin> rc_id ` set (w_reactors w')"
proof -
  from ex_second obtain w rc x c where w: "reachable ex_program w" "findReactor (ses_sid (w_heap w 1)) w = Some rc"
    "conn_find 4 (w_heap w 1) = Some c"
    "ses_tasks (w_heap w 1) = [TSend 4 x, RemoveReactor (rc_session rc), CreateReactor 1 4]" by blast
  from reinstatement_orphans_connection [where io = io_done, OF w] w(1) show ?thesis by (auto simp: io_done_def)
qed

text \<open>Two connections in the session of a reactor, and a PDU whose operation code nobody serves.\<close>

definition ex_pair_world :: world where
  "ex_pair_world = (initial_world ex_pool)\<lparr>w_heap := (\<lambda>_. (iSCSISession (\<lambda>_. 8192) (\<lambda>_. True))
     \<lparr>ses_ports := [(3, iSCSIConnection), (4, iSCSIConnection)]\<rparr>), w_next := 1,
     w_reactors := [\<lparr>rc_id = 0, rc_session = 0, rc_stop = False\<rparr>], w_nextReactor := 1\<rparr>"

definition ex_bad_token :: token where
  "ex_bad_token = mk_token (0x3F # replicate 47 0)"

lemma ex_bad_opcode: "getOpCode (token_header ex_bad_token) \<noteq> iSCSI_OP_LOGIN_CMD"
  by code_simp

theorem bad_pdu_stops_session_witness:
  "\<exists>w'. session_recv ex_program io_done 0 3 [Received 48 [ex_bad_token]] ex_pair_world = Inr (0, w') \<and>
     ses_ports (w_heap w' 0) = [(4, iSCSIConnection)] \<and> map rc_stop (w_reactors w') = [True]"
proof -
  let ?w = ex_pair_world
  have "ses_ports (w_heap ?w 0) = [(3, iSCSIConnection), (4, iSCSIConnection)]" "(3::int) \<noteq> 4"
    "findSession 0 ?w = None"
    "findReactor (ses_sid (w_heap ?w 0)) ?w = Some \<lparr>rc_id = 0, rc_session = 0, rc_stop = False\<rparr>"
    "ses_tokens (w_heap ?w 0) = []" "ses_protos (w_heap ?w 0) (getOpCode (token_header ex_bad_token)) = None"
    using ex_bad_opcode by (simp_all add: ex_pair_world_def initial_world_def findSession_def findReactor_def
        getSessionID_def sid_eq_def fresh_session)
  from bad_pdu_stops_session [where io = io_done and pg = ex_program and n = 48, OF this] show ?thesis
    by (auto simp: reactor_mayStop_def ex_pair_world_def)
qed

theorem doWork_in_order_witness:
  "\<exists>w'. session_doWork ex_program 0 3 (push_tokens 0 [ex_bad_token] ex_pair_world) = Inr (- ESRCH, w') \<and>
     ses_tokens (w_heap w' 0) = [ex_bad_token]"
proof -
  let ?w = "push_tokens 0 [ex_bad_token] ex_pair_world"
  have d: "session_doWork ex_program 0 3 ?w = Inr (- ESRCH, cleanUp 0 3 ?w)"
    using ex_bad_opcode by (simp add: session_doWork_def push_tokens_def ex_pair_world_def fresh_session)
  have "ses_tokens (w_heap ?w 0) = [ex_bad_token]" by (simp add: push_tokens_def ex_pair_world_def fresh_session)
  with doWork_in_order [OF d] have "ses_tokens (w_heap (cleanUp 0 3 ?w) 0) = [ex_bad_token]"
    by (auto simp: ESRCH_def)
  with d show ?thesis by blast
qed

theorem create_reactor_handover_witness:
  "\<exists>w'. run_task io_done (CreateReactor 0 4) ex_pair_world = Inr (Some (False, CreateReactor 0 4, w'))"
proof -
  have c: "conn_find 4 (w_heap ex_pair_world 0) = Some iSCSIConnection" by (simp add: ex_pair_world_def conn_find_def)
  have "findReactor (ses_sid (w_heap ex_pair_world 0)) ex_pair_world \<noteq> None"
    by (simp add: ex_pair_world_def findReactor_def getSessionID_def sid_eq_def)
  with create_reactor_handover [OF c, of io_done] show ?thesis by auto
qed

end
