(* ===== verification/Event_Correct.thy ===== *)
theory Event_Correct
  imports EventLoop Dispatch_Correct
begin

text \<open>
  The event loops are correct where their handlers keep a rule that is only a comment in the code: one that
  changes the ports of the loop that runs it has to end the pass. The acceptor keeps it, a login does not.
\<close>

section \<open>The ports of a loop\<close>

text \<open>The descriptors a loop waits for are those of its ports.\<close>

definition loop_ok :: "(nat \<Rightarrow> int) \<Rightarrow> select_loop \<Rightarrow> bool" where
  "loop_ok socket l \<longleftrightarrow> distinct (lp_ports l) \<and> inj_on socket (set (lp_ports l)) \<and>
     lp_readfds l = socket ` set (lp_ports l) \<and> lp_writefds l \<subseteq> lp_readfds l \<and>
     (\<forall>fd \<in> lp_readfds l. 0 \<le> fd \<and> fd < FD_SETSIZE \<and> fd \<le> lp_nfds l)"

lemma loop_ok_empty: "loop_ok socket SelectLoop"
  by (simp add: loop_ok_def SelectLoop_def)

lemma loop_ok_addPort:
  assumes "loop_ok socket l" and "socket p \<notin> lp_readfds l" and "0 \<le> socket p" "socket p < FD_SETSIZE"
  shows "\<exists>l'. addPort p (socket p) l = Inr l' \<and> loop_ok socket l' \<and> lp_ports l' = lp_ports l @ [p] \<and>
    lp_readfds l' = insert (socket p) (lp_readfds l)"
  using assms by (auto simp: addPort_def FD_SET_def loop_ok_def Let_def) (drule (1) bspec, simp)

lemma loop_ok_delPort:
  assumes "loop_ok socket l" and "p \<in> set (lp_ports l)"
  shows "\<exists>l'. delPort p (socket p) l = Inr l' \<and> loop_ok socket l' \<and> lp_readfds l' = lp_readfds l - {socket p} \<and>
    p \<notin> set (lp_ports l') \<and> lp_moved l' = Suc (lp_moved l)"
proof -
  have fd: "0 \<le> socket p" "socket p < FD_SETSIZE" and inj: "inj_on socket (set (lp_ports l))"
    using assms by (auto simp: loop_ok_def)
  have "socket ` (set (lp_ports l) - {p}) = socket ` set (lp_ports l) - {socket p}"
    using inj_on_image_set_diff[OF inj, of "set (lp_ports l)" "{p}"] assms(2) by simp
  then have "socket ` {q \<in> set (lp_ports l). q \<noteq> p} = socket ` set (lp_ports l) - {socket p}"
    by (simp add: set_diff_eq)
  with assms fd show ?thesis
    by (auto simp: delPort_def clear_fds_def FD_CLR_def erase_port_def loop_ok_def inj_on_def)
qed

text \<open>When no port is in the loop twice, deleting by socket is deleting the port.\<close>

lemma delPort_fd_is_delPort:
  assumes "loop_ok socket l" and "p \<in> set (lp_ports l)"
  shows "delPort_fd socket (socket p) l = bind (delPort p (socket p) l) (\<lambda>l'. Inr (True, l'))"
proof -
  obtain ps qs where split: "lp_ports l = ps @ p # qs"
    using split_list[OF assms(2)] by blast
  have others: "\<forall>q \<in> set ps. socket q \<noteq> socket p" "\<forall>q \<in> set (ps @ qs). q \<noteq> p"
    using assms(1) split by (auto simp: loop_ok_def inj_on_def)
  have "remove_slot p qs = qs" if "distinct qs" "\<forall>q \<in> set qs. q \<noteq> p" for qs
    using that by (cases qs) (auto simp: filter_id_conv)
  then have "remove_slot p qs = qs"
    using assms(1) split others by (simp add: loop_ok_def)
  moreover have "takeWhile (\<lambda>q. socket q \<noteq> socket p) (ps @ p # qs) = ps" "dropWhile (\<lambda>q. socket q \<noteq> socket p) (ps @ p # qs) = p # qs"
    using others(1) by (simp_all add: takeWhile_append dropWhile_append)
  moreover have "filter (\<lambda>q. q \<noteq> p) (ps @ p # qs) = ps @ qs"
    using others(2) by (auto simp: filter_id_conv)
  ultimately show ?thesis
    using assms(2) split by (auto simp: delPort_fd_def delPort_def clear_fds_def erase_port_def bind_Inr FD_CLR_def)
qed

lemma loop_ok_waitWritable:
  assumes "loop_ok socket l" and "fd \<in> lp_readfds l"
  shows "\<exists>l'. waitWritable fd l = Inr l' \<and> loop_ok socket l' \<and> lp_writefds l' = insert fd (lp_writefds l) \<and>
    (\<exists>l''. unwaitWritable fd l' = Inr l'' \<and> loop_ok socket l'' \<and> lp_writefds l'' = lp_writefds l - {fd})"
  using assms by (auto simp: waitWritable_def unwaitWritable_def FD_SET_def FD_CLR_def loop_ok_def)

text \<open>A constructor that throws leaves no socket open that was not open before.\<close>

lemma failed_port_closes:
  assumes "\<And>fd. sk_socket sk = Inr fd \<Longrightarrow> fd \<notin> opened \<and> fd \<noteq> INVALID_SOCKET"
  shows "fst (ListenPort sk opened) = Inl e \<Longrightarrow> snd (ListenPort sk opened) = opened"
    and "fst (NonBlockingPort_address sk opened) = Inl e' \<Longrightarrow> snd (NonBlockingPort_address sk opened) = opened"
    and "fst (Port_address sk opened) = Inl e'' \<Longrightarrow> snd (Port_address sk opened) = opened"
  using assms
  by (auto simp: ListenPort_def NonBlockingPort_address_def Port_address_def open_socket_def set_nonblocking_def close_port_def
      split: sum.splits option.splits)

section \<open>Loops and listeners\<close>

text \<open>The loops agree with the listener of every connection; besides, the main loop waits for the sockets
  \<open>ls\<close> it listens on.\<close>

definition polls_match :: "int set \<Rightarrow> ('h, 'w) events \<Rightarrow> (int \<Rightarrow> listener option) \<Rightarrow> bool" where
  "polls_match ls s polls \<longleftrightarrow> (\<forall>i. loop_ok (\<lambda>p. port_fd p s) (ev_loops s i) \<and>
     (\<forall>fd. fd \<in> lp_readfds (ev_loops s i) \<longleftrightarrow> polls fd = Some i \<or> i = MainListener \<and> fd \<in> ls))"

definition conn_match :: "int set \<Rightarrow> connection_port \<Rightarrow> ('h, 'w) events \<Rightarrow> (int \<Rightarrow> listener option) \<Rightarrow> bool" where
  "conn_match ls c s polls \<longleftrightarrow> port_fd (cp_port c) s \<notin> ls \<and> cp_listener c = polls (port_fd (cp_port c) s) \<and>
     0 \<le> port_fd (cp_port c) s \<and> port_fd (cp_port c) s < FD_SETSIZE \<and>
     (\<forall>i. cp_listener c = Some i \<longrightarrow> cp_port c \<in> set (lp_ports (ev_loops s i)))"

lemma same_sockets:
  "(\<lambda>q. port_fd q (s\<lparr>ev_ports := (ev_ports s)(p := snd (setReceiver h (clearReceiver (ev_ports s p))))\<rparr>)) =
    (\<lambda>q. port_fd q s)"
  by (auto simp: port_fd_def setReceiver_def clearReceiver_def fun_eq_iff)

lemma unlisten:
  assumes "polls_match ls s polls" and "conn_match ls c s polls" and "cp_listener c = Some i"
  shows "\<exists>s'. on_loop i (delPort (cp_port c) (port_fd (cp_port c) s)) s = Inr s' \<and>
    polls_match ls s' (polls(port_fd (cp_port c) s := None)) \<and> ev_ports s' = ev_ports s \<and>
    moved i s' = Suc (moved i s)"
proof -
  obtain l where "delPort (cp_port c) (port_fd (cp_port c) s) (ev_loops s i) = Inr l"
    "loop_ok (\<lambda>p. port_fd p s) l" "lp_readfds l = lp_readfds (ev_loops s i) - {port_fd (cp_port c) s}"
    "lp_moved l = Suc (lp_moved (ev_loops s i))"
    using loop_ok_delPort[of "\<lambda>p. port_fd p s" "ev_loops s i" "cp_port c"] assms
    by (auto simp: polls_match_def conn_match_def)
  with assms show ?thesis
    by (auto simp: on_loop_def polls_match_def conn_match_def port_fd_def moved_def)
qed

lemma listen:
  assumes "polls_match ls s polls" and "polls (port_fd p s) = None" "port_fd p s \<notin> ls" and "0 \<le> port_fd p s" "port_fd p s < FD_SETSIZE"
  shows "\<exists>s'. on_loop i (addPort p (port_fd p s)) s = Inr s' \<and> polls_match ls s' (polls(port_fd p s \<mapsto> i)) \<and>
    ev_ports s' = ev_ports s \<and> p \<in> set (lp_ports (ev_loops s' i)) \<and> (\<forall>j. j \<noteq> i \<longrightarrow> moved j s' = moved j s)"
proof -
  obtain l where "addPort p (port_fd p s) (ev_loops s i) = Inr l" "loop_ok (\<lambda>p. port_fd p s) l"
    "lp_ports l = lp_ports (ev_loops s i) @ [p]" "lp_readfds l = insert (port_fd p s) (lp_readfds (ev_loops s i))"
    using loop_ok_addPort[of "\<lambda>p. port_fd p s" "ev_loops s i" p] assms by (auto simp: polls_match_def)
  with assms show ?thesis
    by (auto simp: on_loop_def polls_match_def port_fd_def moved_def)
qed

lemma changeListener_run:
  assumes "polls_match ls s polls" and "conn_match ls c s polls"
  shows "\<exists>c' s'. cp_changeListener (ReactorListener k) h c s = Inr (c', s') \<and>
    polls_match ls s' (polls(port_fd (cp_port c) s \<mapsto> ReactorListener k)) \<and>
    conn_match ls c' s' (polls(port_fd (cp_port c) s \<mapsto> ReactorListener k)) \<and>
    pt_receiver (ev_ports s' (cp_port c)) = Some h \<and>
    (\<forall>i. cp_listener c = Some i \<longrightarrow> i \<noteq> ReactorListener k \<longrightarrow> moved i s' = Suc (moved i s))"
proof -
  let ?p = "cp_port c" and ?fd = "port_fd (cp_port c) s" and ?off = "polls(port_fd (cp_port c) s := None)"
  have "\<exists>s1. (case cp_listener c of None \<Rightarrow> Inr s | Some i \<Rightarrow> on_loop i (delPort ?p ?fd) s) = Inr s1 \<and>
      polls_match ls s1 ?off \<and> ev_ports s1 = ev_ports s \<and> (\<forall>i. cp_listener c = Some i \<longrightarrow> moved i s1 = Suc (moved i s))"
  proof (cases "cp_listener c")
    case None
    then have "?off = polls"
      using assms(2) by (simp add: conn_match_def fun_eq_iff)
    with None assms(1) show ?thesis
      by simp
  next
    case (Some i)
    then show ?thesis
      using unlisten[OF assms Some] by fastforce
  qed
  then obtain s1 where s1: "(case cp_listener c of None \<Rightarrow> Inr s | Some i \<Rightarrow> on_loop i (delPort ?p ?fd) s) = Inr s1"
    "polls_match ls s1 ?off" "ev_ports s1 = ev_ports s" "\<forall>i. cp_listener c = Some i \<longrightarrow> moved i s1 = Suc (moved i s)"
    by blast
  then have fd: "port_fd ?p s1 = ?fd"
    by (simp add: port_fd_def)
  obtain s2 where s2: "on_loop (ReactorListener k) (addPort ?p ?fd) s1 = Inr s2"
    "polls_match ls s2 (?off(?fd \<mapsto> ReactorListener k))" "ev_ports s2 = ev_ports s1"
    "?p \<in> set (lp_ports (ev_loops s2 (ReactorListener k)))" "\<forall>j. j \<noteq> ReactorListener k \<longrightarrow> moved j s2 = moved j s1"
    using listen[OF s1(2), of ?p "ReactorListener k"] fd assms(2) by (auto simp: conn_match_def)
  define s' where "s' = s2\<lparr>ev_ports := (ev_ports s2)(?p := snd (setReceiver h (clearReceiver (ev_ports s2 ?p))))\<rparr>"
  have sockets: "port_fd q s' = port_fd q s2" for q
    unfolding s'_def using same_sockets[of s2 ?p h] by (simp add: fun_eq_iff)
  have run: "cp_changeListener (ReactorListener k) h c s = Inr (c\<lparr>cp_listener := Some (ReactorListener k)\<rparr>, s')"
    using s1(1) s2(1) by (simp add: cp_changeListener_def Let_def s'_def)
  have same_fd: "port_fd ?p s2 = ?fd"
    using s1(3) s2(3) by (simp add: port_fd_def)
  have "polls_match ls s' (polls(?fd \<mapsto> ReactorListener k))"
    using s2(2) by (simp add: polls_match_def sockets) (simp add: s'_def)
  moreover have "conn_match ls (c\<lparr>cp_listener := Some (ReactorListener k)\<rparr>) s' (polls(?fd \<mapsto> ReactorListener k))"
    using assms(2) s2(4) same_fd by (simp add: conn_match_def sockets) (simp add: s'_def)
  moreover have "pt_receiver (ev_ports s' ?p) = Some h"
    by (simp add: s'_def setReceiver_def clearReceiver_def)
  moreover have "\<forall>i. cp_listener c = Some i \<longrightarrow> i \<noteq> ReactorListener k \<longrightarrow> moved i s' = Suc (moved i s)"
    using s1(4) s2(5) by (simp add: s'_def moved_def)
  ultimately show ?thesis
    using run by blast
qed

text \<open>What \<^verbatim>\<open>changeListener\<close> changes, and nothing else.\<close>

lemma changeListener_frame:
  assumes "cp_changeListener actor h c s = Inr (c', s')"
  shows "c' = c\<lparr>cp_listener := Some actor\<rparr> \<and> ev_world s' = ev_world s \<and>
    ev_ports s' = (ev_ports s)(cp_port c := (ev_ports s (cp_port c))\<lparr>pt_receiver := Some h\<rparr>) \<and>
    (\<forall>i. lp_ports (ev_loops s' i) =
        (if cp_listener c = Some i then filter (\<lambda>q. q \<noteq> cp_port c) (lp_ports (ev_loops s i)) else lp_ports (ev_loops s i)) @
        (if i = actor then [cp_port c] else []) \<and>
      lp_writefds (ev_loops s' i) =
        lp_writefds (ev_loops s i) - (if cp_listener c = Some i then {port_fd (cp_port c) s} else {}) \<and>
      lp_stop (ev_loops s' i) = lp_stop (ev_loops s i) \<and>
      (cp_listener c \<noteq> Some i \<and> i \<noteq> actor \<longrightarrow> ev_loops s' i = ev_loops s i))"
proof (cases "cp_listener c")
  case None
  with assms show ?thesis
    by (auto simp: cp_changeListener_def Let_def on_loop_def bind_Inr addPort_def setReceiver_def clearReceiver_def)
next
  case (Some j)
  with assms show ?thesis
    by (auto simp: cp_changeListener_def Let_def on_loop_def bind_Inr addPort_def delPort_def clear_fds_def erase_port_def
        FD_CLR_def setReceiver_def clearReceiver_def split: if_splits)
qed

text \<open>C6. \<^verbatim>\<open>changeListener\<close> of a connection implements the change of the table of listeners: afterwards exactly
  the loop of the reactor waits to read from the socket, and every other socket is waited for where it was. The
  port moves from the old vector to the end of the new one and gets the receiver of the reactor; the old loop
  gives up waiting to write to the socket, which the new one does not take over. No other port, no other entry of a
  vector, no other descriptor waited for to write, no third loop and nothing outside the loops changes.\<close>

theorem changeListener_refines:
  assumes "polls_match ls s (w_polls w)" and "conn_match ls c s (w_polls w)"
  shows "\<exists>c' s'. cp_changeListener (ReactorListener k) h c s = Inr (c', s') \<and>
    polls_match ls s' (w_polls (changeListener (port_fd (cp_port c) s) k w)) \<and>
    conn_match ls c' s' (w_polls (changeListener (port_fd (cp_port c) s) k w)) \<and>
    c' = c\<lparr>cp_listener := Some (ReactorListener k)\<rparr> \<and> ev_world s' = ev_world s \<and>
    ev_ports s' = (ev_ports s)(cp_port c := (ev_ports s (cp_port c))\<lparr>pt_receiver := Some h\<rparr>) \<and>
    (\<forall>i. lp_ports (ev_loops s' i) =
        (if cp_listener c = Some i then filter (\<lambda>q. q \<noteq> cp_port c) (lp_ports (ev_loops s i)) else lp_ports (ev_loops s i)) @
        (if i = ReactorListener k then [cp_port c] else []) \<and>
      lp_writefds (ev_loops s' i) =
        lp_writefds (ev_loops s i) - (if cp_listener c = Some i then {port_fd (cp_port c) s} else {}) \<and>
      lp_stop (ev_loops s' i) = lp_stop (ev_loops s i) \<and>
      (cp_listener c \<noteq> Some i \<and> i \<noteq> ReactorListener k \<longrightarrow> ev_loops s' i = ev_loops s i))"
proof -
  obtain c' s' where run: "cp_changeListener (ReactorListener k) h c s = Inr (c', s')"
    and match: "polls_match ls s' (w_polls (changeListener (port_fd (cp_port c) s) k w))"
      "conn_match ls c' s' (w_polls (changeListener (port_fd (cp_port c) s) k w))"
    using changeListener_run[OF assms, of k h] by (auto simp: changeListener_def)
  with changeListener_frame[OF run] show ?thesis
    by blast
qed

text \<open>\<^verbatim>\<open>clearListener\<close> and the constructor of a connection, for the table of listeners.\<close>

lemma clearListener_refines:
  assumes "polls_match ls s (w_polls w)" and "conn_match ls c s (w_polls w)" and "cp_listener c \<noteq> None"
  shows "\<exists>c' s'. cp_clearListener c s = Inr (c', s') \<and>
    polls_match ls s' (w_polls (clearListener (port_fd (cp_port c) s) w)) \<and> pt_receiver (ev_ports s' (cp_port c)) = None"
proof -
  obtain i where i: "cp_listener c = Some i"
    using assms(3) by blast
  obtain s1 where s1: "on_loop i (delPort (cp_port c) (port_fd (cp_port c) s)) s = Inr s1"
    "polls_match ls s1 ((w_polls w)(port_fd (cp_port c) s := None))" "ev_ports s1 = ev_ports s"
    using unlisten[OF assms(1,2) i] by blast
  define s' where "s' = s1\<lparr>ev_ports := (ev_ports s1)(cp_port c := clearReceiver (ev_ports s1 (cp_port c)))\<rparr>"
  have "port_fd q s' = port_fd q s1" for q
    by (simp add: s'_def port_fd_def clearReceiver_def)
  then have "polls_match ls s' (w_polls (clearListener (port_fd (cp_port c) s) w))"
    using s1(2) by (simp add: polls_match_def clearListener_def) (simp add: s'_def)
  moreover have "pt_receiver (ev_ports s' (cp_port c)) = None"
    by (simp add: s'_def clearReceiver_def)
  ultimately show ?thesis
    using i s1(1) by (simp add: cp_clearListener_def s'_def)
qed

lemma connection_refines:
  assumes "polls_match ls s polls" and "polls (port_fd p s) = None" "port_fd p s \<notin> ls" and "0 \<le> port_fd p s" "port_fd p s < FD_SETSIZE"
  shows "\<exists>c s'. cp_connection p (Some i) s = Inr (c, s') \<and> polls_match ls s' (polls(port_fd p s \<mapsto> i)) \<and>
    conn_match ls c s' (polls(port_fd p s \<mapsto> i))"
proof -
  obtain s' where "on_loop i (addPort p (port_fd p s)) s = Inr s'" "polls_match ls s' (polls(port_fd p s \<mapsto> i))"
    "ev_ports s' = ev_ports s" "p \<in> set (lp_ports (ev_loops s' i))"
    using listen[OF assms] by blast
  moreover from this(3) have "port_fd p s' = port_fd p s"
    by (simp add: port_fd_def)
  ultimately show ?thesis
    using assms(3-5) by (simp add: cp_connection_def conn_match_def)
qed

section \<open>A pass over the ports\<close>

lemma scan_idle:
  assumes "\<forall>p \<in> set ps. 0 \<le> port_fd p s \<and> port_fd p s < FD_SETSIZE \<and> port_fd p s \<notin> readfds \<union> writefds"
  shows "scan run i readfds writefds (ps @ qs) n s = scan run i readfds writefds qs n s"
  using assms by (induction ps) (simp_all add: Let_def FD_ISSET_def)

text \<open>The rule: a receiver that changes the ports of the loop answers 0 or less, a sender less than 0.\<close>

definition keeps_rule :: "('h, 'w) runner \<Rightarrow> listener \<Rightarrow> bool" where
  "keeps_rule run i \<longleftrightarrow>
     (\<forall>p fd s status s'. onReceive run p fd s = Inr (status, s') \<longrightarrow> 0 < status \<longrightarrow> moved i s' = moved i s) \<and>
     (\<forall>p fd s status s'. onSend run p fd s = Inr (status, s') \<longrightarrow> 0 \<le> status \<longrightarrow> moved i s' = moved i s)"

lemma scan_rule:
  assumes rule: "keeps_rule run i" and handlers: "\<And>h fd s. run h fd s \<noteq> Inl Undefined"
    and sockets: "\<And>h fd s status s' p. run h fd s = Inr (status, s') \<Longrightarrow> port_fd p s' = port_fd p s"
  shows "\<forall>p \<in> set ps. 0 \<le> port_fd p s \<and> port_fd p s < FD_SETSIZE \<Longrightarrow>
    scan run i readfds writefds ps n s \<noteq> Inl Undefined"
proof (induction ps arbitrary: n s)
  case (Cons p ps)
  let ?fd = "port_fd p s"
  have fds: "FD_ISSET ?fd fds = Inr (?fd \<in> fds)" for fds
    using Cons.prems by (simp add: FD_ISSET_def)
  have rest: "scan run i readfds writefds ps n' s' \<noteq> Inl Undefined" if "\<And>q. port_fd q s' = port_fd q s" for n' s'
    using Cons that by simp
  have recv: "onReceive run p ?fd s' \<noteq> Inl Undefined" and send: "onSend run p ?fd s' \<noteq> Inl Undefined" for s'
    using handlers by (simp_all add: onReceive_def onSend_def split: option.split)
  have kept: "port_fd q s' = port_fd q s''" if "onReceive run p' fd s'' = Inr (st, s') \<or> onSend run p' fd s'' = Inr (st, s')"
    for q st s' s'' p' fd
    using that sockets by (auto simp: onReceive_def onSend_def split: option.splits)
  have writing: "bind (if w then bind (onSend run p ?fd s1) (\<lambda>(status, s2). Inr (n1 - 1, status < 0, s2)) else Inr (n1, False, s1))
      (\<lambda>(n2, leave2, s2). if leave2 then Inr (n2, s2) else if moved i s2 \<noteq> moved i s1 then Inl Undefined
        else scan run i readfds writefds ps n2 s2) \<noteq> Inl Undefined"
    if s1: "\<And>q. port_fd q s1 = port_fd q s" for w n1 s1
  proof (cases w)
    case False
    then show ?thesis
      using rest[OF s1] by simp
  next
    case True
    show ?thesis
    proof (cases "onSend run p ?fd s1")
      case (Inl e)
      then show ?thesis
        using send[of s1] True by simp
    next
      case (Inr res)
      obtain status s2 where res: "res = (status, s2)"
        by fastforce
      have "port_fd q s2 = port_fd q s" for q
        using kept[of p ?fd s1 status s2 q] s1 Inr res by simp
      moreover have "0 \<le> status \<Longrightarrow> moved i s2 = moved i s1"
        using rule Inr res unfolding keeps_rule_def by blast
      ultimately show ?thesis
        using rest[of s2] True Inr res by simp
    qed
  qed
  show ?case
  proof (cases "?fd \<in> readfds")
    case False
    then show ?thesis
      using writing[of s "?fd \<in> writefds" n] by (simp add: Let_def fds)
  next
    case True
    show ?thesis
    proof (cases "onReceive run p ?fd s")
      case (Inl e)
      then show ?thesis
        using recv[of s] True by (simp add: Let_def fds)
    next
      case (Inr res)
      obtain status s1 where res: "res = (status, s1)"
        by fastforce
      have "port_fd q s1 = port_fd q s" for q
        using kept[of p ?fd s status s1 q] Inr res by simp
      moreover have "0 < status \<Longrightarrow> moved i s1 = moved i s"
        using rule Inr res unfolding keeps_rule_def by blast
      ultimately show ?thesis
        using writing[of s1 "?fd \<in> writefds" "n - 1"] True Inr res by (simp add: Let_def fds)
    qed
  qed
qed simp

section \<open>A login breaks the rule\<close>

text \<open>C17. The receiver of a session answers 1 after a login as after any other batch of PDUs, but the task that
  the login leaves has moved the port to the loop of the new reactor. So the pass over the ports of the main
  loop goes on with iterators that the removal of the port has made invalid.\<close>

theorem login_invalidates_iterators:
  assumes "polls_match ls s (w_polls (nt_world (ev_world s)))" and "conn_match ls c s (w_polls (nt_world (ev_world s)))"
    and "nt_conns (ev_world s) fd = Some c" "port_fd (cp_port c) s = fd" "cp_listener c = Some MainListener"
    and "pt_receiver (ev_ports s (cp_port c)) = Some (SessionRecv r)"
    and "session_recv (dc_program dc) (dc_io dc) r fd (dc_received dc fd) (nt_world (ev_world s)) = Inr (1, w)"
    and "w_polls w fd = Some (ReactorListener k)"
    and "\<not> lp_stop (ev_loops s MainListener)" and "\<not> sg_fin g"
  shows "loop_turn (serve dc) MainListener \<lparr>tn_signals = [], tn_mayStop = False, tn_select = Ready 1 {fd} {}\<rparr> g s =
    Inl Undefined"
proof -
  let ?p = "cp_port c" and ?main = "ev_loops s MainListener" and ?w0 = "nt_world (ev_world s)"
  have main: "loop_ok (\<lambda>p. port_fd p s) ?main" and mem: "?p \<in> set (lp_ports ?main)"
    using assms(1,2,5) by (auto simp: polls_match_def conn_match_def)
  obtain ps qs where split: "lp_ports ?main = ps @ ?p # qs" "?p \<notin> set ps"
    using split_list_first[OF mem] by blast
  have idle: "\<forall>p \<in> set ps. 0 \<le> port_fd p s \<and> port_fd p s < FD_SETSIZE \<and> port_fd p s \<notin> {fd} \<union> {}"
    using main split assms(4) by (auto simp: loop_ok_def inj_on_def)
  have range: "0 \<le> fd" "fd < FD_SETSIZE"
    using assms(2,4) by (auto simp: conn_match_def)
  define s1 where "s1 = s\<lparr>ev_world := (ev_world s)\<lparr>nt_world := w\<rparr>\<rparr>"
  have fd1: "port_fd q s1 = port_fd q s" for q
    by (simp add: s1_def port_fd_def)
  have loops1: "ev_loops s1 = ev_loops s"
    by (simp add: s1_def)
  obtain l where l: "delPort ?p fd ?main = Inr l" "lp_moved l = Suc (lp_moved ?main)"
    using loop_ok_delPort[OF main mem] assms(4) by auto
  let ?r = "ReactorListener k"
  have "polls_match ls s1 (w_polls ?w0)" "conn_match ls c s1 (w_polls ?w0)"
    using assms(1,2) by (simp_all add: polls_match_def conn_match_def fd1 loops1)
  from changeListener_run[OF this, of k "ReactorRecv r"] obtain c' s2 where
    s2: "cp_changeListener ?r (ReactorRecv r) c s1 = Inr (c', s2)" "moved MainListener s2 = Suc (moved MainListener s1)"
    using assms(5) by blast
  define s3 where "s3 = s2\<lparr>ev_world := (ev_world s2)\<lparr>nt_conns := (nt_conns (ev_world s2))(fd \<mapsto> c')\<rparr>\<rparr>"
  have "w_polls ?w0 fd = Some MainListener"
    using assms(2,4,5) by (simp add: conn_match_def)
  then have "serve dc (SessionRecv r) fd s = Inr (1, s3)"
    using s2(1) assms(3,7,8) by (simp add: serve_def session_handler_def follow_listener_def s1_def[symmetric] s3_def)
  then have "onReceive (serve dc) ?p fd s = Inr (1, s3)"
    using assms(6) by (simp add: onReceive_def)
  moreover have "moved MainListener s3 \<noteq> moved MainListener s"
    using s2(2) loops1 by (simp add: s3_def moved_def)
  ultimately have "scan (serve dc) MainListener {fd} {} (?p # qs) 1 s = Inl Undefined"
    using range assms(4) by (simp add: FD_ISSET_def)
  then show ?thesis
    using scan_idle[OF idle] split(1) assms(9,10) by (simp add: loop_turn_def Let_def)
qed

section \<open>Signals end the loops\<close>

lemma signals_fin:
  assumes "\<not> sg_ended g" and "\<not> sg_may_exit g" and "SIGTERM \<in> set es \<or> SIGINT \<in> set es"
  shows "sg_fin (fold signal_turn es g)"
proof -
  have keep: "sg_fin g' \<Longrightarrow> sg_fin (fold signal_turn es g')" for es g'
    by (induction es arbitrary: g') (auto simp: signal_turn_def split: signal.split)
  from assms show ?thesis
  proof (induction es arbitrary: g)
    case (Cons e es)
    then show ?case
      by (cases e) (auto simp: signal_turn_def[of _ g] intro: keep)
  qed simp
qed

text \<open>C25. After the signal thread has taken a SIGTERM or SIGINT, every loop ends at its next turn: no handler is run
  and \<^verbatim>\<open>select\<close> is not called again, whatever it would answer. The loop ends normally.\<close>

theorem termination_signal_ends_loop:
  assumes "\<not> sg_ended g" and "\<not> sg_may_exit g" and "SIGTERM \<in> set (tn_signals t) \<or> SIGINT \<in> set (tn_signals t)"
  shows "\<exists>g' s'. loop_run run i (t # ts) g s = Inr (True, g', s') \<and> sg_fin g' \<and> ev_world s' = ev_world s \<and>
    (\<forall>j. lp_ports (ev_loops s' j) = lp_ports (ev_loops s j))"
  using signals_fin[OF assms] by (simp add: loop_turn_def Let_def loop_mayStop_def)

lemma termination_signal_ends_loop_witness:
  "\<exists>g' s'. loop_run (\<lambda>h fd s. Inl Undefined) MainListener
     [\<lparr>tn_signals = [SIGHUP, SIGTERM], tn_mayStop = False, tn_select = Ready 1 {3} {}\<rparr>] SignalListener
     \<lparr>ev_ports = (\<lambda>_. new_port 3), ev_loops = (\<lambda>_. SelectLoop), ev_world = ()\<rparr> = Inr (True, g', s') \<and> sg_fin g'"
  using termination_signal_ends_loop[of SignalListener
      "\<lparr>tn_signals = [SIGHUP, SIGTERM], tn_mayStop = False, tn_select = Ready 1 {3} {}\<rparr>"
      "\<lambda>h fd s. Inl Undefined" MainListener "[]" "\<lparr>ev_ports = (\<lambda>_. new_port 3), ev_loops = (\<lambda>_. SelectLoop), ev_world = ()\<rparr>"]
  by (fastforce simp: SignalListener_def)

section \<open>The acceptor\<close>

text \<open>The acceptor keeps the rule and adds to the end of the ports.\<close>

lemma accept_status:
  assumes "accept_handler num flag s = Inr (status, s')"
  shows "status \<le> 0"
  using assms by (auto simp: accept_handler_def EIO_def Let_def bind_Inr split: sum.splits if_splits)

text \<open>What the acceptor leaves as it is: the port \<open>p\<close> at the head of the main loop.\<close>

definition heads_main :: "nat \<Rightarrow> int \<Rightarrow> daemon \<Rightarrow> bool" where
  "heads_main p fd s \<longleftrightarrow> (\<exists>ps. lp_ports (ev_loops s MainListener) = p # ps) \<and> p < nt_next (ev_world s) \<and>
     pt_receiver (ev_ports s p) = Some AcceptHandler \<and> port_fd p s = fd"

lemma cp_connection_ports:
  assumes "cp_connection q (Some i) s = Inr (c, s')"
  shows "c = \<lparr>cp_port = q, cp_listener = Some i\<rparr> \<and> ev_ports s' = ev_ports s \<and> ev_world s' = ev_world s \<and>
    lp_ports (ev_loops s' i) = lp_ports (ev_loops s i) @ [q]"
  using assms by (auto simp: cp_connection_def on_loop_def addPort_def bind_Inr Let_def)

lemma cp_destroy_ports:
  assumes "cp_destroy \<lparr>cp_port = q, cp_listener = Some i\<rparr> s = Inr s'"
  shows "ev_ports s' = ev_ports s \<and> ev_world s' = ev_world s \<and>
    lp_ports (ev_loops s' i) = filter (\<lambda>p. p \<noteq> q) (lp_ports (ev_loops s i))"
  using assms by (auto simp: cp_destroy_def on_loop_def delPort_def clear_fds_def erase_port_def bind_Inr Let_def)

lemma accept_call_next: "nt_next (snd (accept_call nt)) = nt_next nt"
  by (simp add: accept_call_def split: list.split)

lemma heads_main_accept:
  assumes "heads_main p fd s" and "accept_handler num flag s = Inr (status, s')"
  shows "heads_main p fd s'"
proof (cases "fst (accept_call (ev_world s))")
  case (Inl e)
  then show ?thesis
    using assms by (auto simp: accept_handler_def heads_main_def port_fd_def accept_call_next)
next
  case (Inr client)
  define nt where "nt = snd (accept_call (ev_world s))"
  define port where "port = snd (setSender (SessionSend (w_next (nt_world nt)))
    (snd (setReceiver (SessionRecv (w_next (nt_world nt))) (new_port client))))"
  define s1 where "s1 = s\<lparr>ev_ports := (ev_ports s)(nt_next nt := port), ev_world := nt\<lparr>nt_next := Suc (nt_next nt)\<rparr>\<rparr>"
  define res where "res = accept num flag client (nt_world nt)"
  have fresh: "nt_next nt = nt_next (ev_world s)"
    by (simp add: nt_def accept_call_next)
  obtain c s2 where s2: "cp_connection (nt_next nt) (Some MainListener) s1 = Inr (c, s2)"
    and s': "if fst res then s' = s2\<lparr>ev_world := (ev_world s2)\<lparr>nt_world := snd res, nt_conns := (nt_conns nt)(client \<mapsto> c)\<rparr>\<rparr>
      else cp_destroy c (s2\<lparr>ev_world := (ev_world s2)\<lparr>nt_world := snd res\<rparr>\<rparr>) = Inr s'"
    using assms(2) Inr
    by (auto simp: accept_handler_def Let_def bind_Inr nt_def port_def s1_def res_def split: if_splits)
  note c = cp_connection_ports[OF s2]
  have "heads_main p fd s1" "lp_ports (ev_loops s1 MainListener) = lp_ports (ev_loops s MainListener)"
    using assms(1) fresh by (auto simp: heads_main_def s1_def port_fd_def)
  with c have two: "heads_main p fd s2" "p \<noteq> nt_next nt"
    using assms(1) fresh by (auto simp: heads_main_def port_fd_def)
  show ?thesis
  proof (cases "fst res")
    case True
    then show ?thesis
      using s' two by (simp add: heads_main_def port_fd_def)
  next
    case False
    then have "cp_destroy c (s2\<lparr>ev_world := (ev_world s2)\<lparr>nt_world := snd res\<rparr>\<rparr>) = Inr s'"
      using s' by simp
    from cp_destroy_ports[OF this[unfolded c[THEN conjunct1]]] show ?thesis
      using two by (auto simp: heads_main_def port_fd_def)
  qed
qed

lemma accept_turn:
  assumes "heads_main p fd s" and "0 \<le> fd" "fd < FD_SETSIZE"
    and "\<exists>n readfds writefds. tn_select t = Ready n readfds writefds \<and> fd \<in> readfds"
  shows "loop_turn (serve dc) MainListener t g s =
      loop_turn (serve (dc\<lparr>dc_program := pg, dc_io := io, dc_received := received\<rparr>)) MainListener
        (t\<lparr>tn_select := Ready 1 {fd} {}\<rparr>) g s \<and>
    (\<forall>g' s'. loop_turn (serve dc) MainListener t g s = Inr (False, g', s') \<longrightarrow> heads_main p fd s')"
proof -
  obtain n readfds writefds where t: "tn_select t = Ready n readfds writefds" "fd \<in> readfds"
    using assms(4) by blast
  obtain ps where ps: "lp_ports (ev_loops s MainListener) = p # ps"
    using assms(1) by (auto simp: heads_main_def)
  have accepts: "onReceive (serve d) p fd s = accept_handler (dc_num d) (dc_flag d) s" for d
    using assms(1) by (simp add: onReceive_def heads_main_def serve_def)
  have pass: "scan (serve d) MainListener rs ws (p # ps) m s =
      bind (accept_handler (dc_num d) (dc_flag d) s) (\<lambda>(_, s1). Inr (m - 1, s1))" if "fd \<in> rs" for d rs ws m
  proof (cases "accept_handler (dc_num d) (dc_flag d) s")
    case (Inr res)
    then show ?thesis
      using that assms accept_status[of "dc_num d" "dc_flag d" s] accepts[of d]
      by (cases res) (simp add: heads_main_def FD_ISSET_def)
  qed (use that assms accepts[of d] in \<open>simp add: heads_main_def FD_ISSET_def\<close>)
  note kept = heads_main_accept[OF assms(1)]
  show ?thesis
  proof (cases "accept_handler (dc_num dc) (dc_flag dc) s")
    case (Inl e)
    then show ?thesis
      using t ps by (simp add: loop_turn_def Let_def loop_mayStop_def pass del: scan.simps)
  next
    case (Inr res)
    then have "heads_main p fd (snd res)"
      using kept by (cases res) simp
    with Inr show ?thesis
      using t ps by (cases res) (simp add: loop_turn_def Let_def loop_mayStop_def pass del: scan.simps)
  qed
qed

text \<open>C26. While connections keep arriving on the first port, the main loop does nothing else: in each turn the acceptor
  answers 0 or less, which ends the pass. What the initiators that are logging in have sent, what the libraries
  do and which sockets can be written makes no difference.\<close>

theorem listening_port_starves:
  assumes "heads_main p fd s" and "0 \<le> fd" "fd < FD_SETSIZE"
    and "\<forall>t \<in> set ts. \<exists>n readfds writefds. tn_select t = Ready n readfds writefds \<and> fd \<in> readfds"
  shows "loop_run (serve dc) MainListener ts g s =
    loop_run (serve (dc\<lparr>dc_program := pg, dc_io := io, dc_received := received\<rparr>)) MainListener
      (map (\<lambda>t. t\<lparr>tn_select := Ready 1 {fd} {}\<rparr>) ts) g s"
  using assms(1,4)
proof (induction ts arbitrary: g s)
  case (Cons t ts)
  have turn: "loop_turn (serve dc) MainListener t g s =
      loop_turn (serve (dc\<lparr>dc_program := pg, dc_io := io, dc_received := received\<rparr>)) MainListener
        (t\<lparr>tn_select := Ready 1 {fd} {}\<rparr>) g s \<and>
      (\<forall>g' s'. loop_turn (serve dc) MainListener t g s = Inr (False, g', s') \<longrightarrow> heads_main p fd s')"
    by (rule accept_turn[OF Cons.prems(1) assms(2,3)]) (simp add: Cons.prems(2)[simplified])
  show ?case
  proof (cases "loop_turn (serve dc) MainListener t g s")
    case (Inl e)
    then show ?thesis
      using turn by simp
  next
    case (Inr res)
    then show ?thesis
      using turn Cons.IH Cons.prems(2) by (cases res; cases "fst res") auto
  qed
qed simp

section \<open>A concrete daemon\<close>

text \<open>A listening socket and a connection that has just been accepted.\<close>

definition ex_accepted_world :: world where
  "ex_accepted_world = snd (accept (\<lambda>_. 8192) (\<lambda>_. True) 3 (initial_world ex_pool))"

definition ex_events :: daemon where
  "ex_events =
     \<lparr>ev_ports = (\<lambda>p. if p = 0 then \<lparr>pt_fd = 9, pt_receiver = Some AcceptHandler, pt_sender = None\<rparr>
                     else \<lparr>pt_fd = 3, pt_receiver = Some (SessionRecv 0), pt_sender = Some (SessionSend 0)\<rparr>),
      ev_loops = (\<lambda>i. if i = MainListener
                     then \<lparr>lp_ports = [0, 1], lp_stop = False, lp_readfds = {3, 9}, lp_writefds = {}, lp_nfds = 9, lp_moved = 2\<rparr>
                     else SelectLoop),
      ev_world = \<lparr>nt_world = ex_accepted_world, nt_conns = [3 \<mapsto> \<lparr>cp_port = 1, cp_listener = Some MainListener\<rparr>],
                  nt_accepts = [], nt_next = 2\<rparr>\<rparr>"

definition ex_calls :: daemon_calls where
  "ex_calls = \<lparr>dc_program = ex_program, dc_io = io_done, dc_received = (\<lambda>_. [Received 87 [ex_login_token]]),
     dc_num = (\<lambda>_. 8192), dc_flag = (\<lambda>_. True)\<rparr>"

lemma ex_accepted_polls: "w_polls ex_accepted_world = [3 \<mapsto> MainListener]"
  by (simp add: ex_accepted_world_def accept_def Let_def addSession_def initial_world_def split: list.split option.split)

lemma ex_events_match:
  "polls_match {9} ex_events (w_polls (nt_world (ev_world ex_events)))"
  "conn_match {9} \<lparr>cp_port = 1, cp_listener = Some MainListener\<rparr> ex_events (w_polls (nt_world (ev_world ex_events)))"
  by (auto simp: polls_match_def conn_match_def loop_ok_def ex_events_def ex_accepted_polls port_fd_def SelectLoop_def
      FD_SETSIZE_def inj_on_def)

lemma login_invalidates_iterators_witness:
  "loop_turn (serve ex_calls) MainListener \<lparr>tn_signals = [], tn_mayStop = False, tn_select = Ready 1 {3} {}\<rparr>
     SignalListener ex_events = Inl Undefined"
proof -
  from ex_first_recv obtain w2 where w2: "session_recv ex_program io_done 0 3 [Received 87 [ex_login_token]] ex_accepted_world = Inr (1, w2)"
    "w_polls w2 3 = Some (ReactorListener 0)"
    by (auto simp: ex_accepted_world_def ses_update_def)
  show ?thesis
    by (rule login_invalidates_iterators[OF ex_events_match(1,2), where r = 0 and w = w2 and k = 0])
      (use w2 in \<open>simp_all add: ex_events_def ex_calls_def port_fd_def SignalListener_def\<close>)
qed

lemma changeListener_refines_witness:
  "\<exists>c' s'. cp_changeListener (ReactorListener 0) (ReactorRecv 0) \<lparr>cp_port = 1, cp_listener = Some MainListener\<rparr> ex_events = Inr (c', s') \<and>
     polls_match {9} s' (w_polls (changeListener 3 0 ex_accepted_world)) \<and>
     lp_ports (ev_loops s' MainListener) = filter (\<lambda>q. q \<noteq> 1) (lp_ports (ev_loops ex_events MainListener)) \<and>
     lp_ports (ev_loops s' (ReactorListener 0)) = lp_ports (ev_loops ex_events (ReactorListener 0)) @ [1]"
  using changeListener_refines[OF ex_events_match, of 0 "ReactorRecv 0"] by (fastforce simp: ex_events_def port_fd_def)

lemma listening_port_starves_witness:
  "loop_run (serve ex_calls) MainListener [\<lparr>tn_signals = [], tn_mayStop = False, tn_select = Ready 2 {3, 9} {}\<rparr>] SignalListener ex_events =
   loop_run (serve (ex_calls\<lparr>dc_program := ex_program, dc_io := io_blocked, dc_received := (\<lambda>_. [])\<rparr>)) MainListener
     [\<lparr>tn_signals = [], tn_mayStop = False, tn_select = Ready 1 {9} {}\<rparr>] SignalListener ex_events"
  using listening_port_starves[where p = 0 and fd = 9 and s = ex_events and dc = ex_calls and g = SignalListener and
      ts = "[\<lparr>tn_signals = [], tn_mayStop = False, tn_select = Ready 2 {3, 9} {}\<rparr>]" and
      pg = ex_program and io = io_blocked and received = "\<lambda>_. []"]
  by (simp add: heads_main_def ex_events_def port_fd_def FD_SETSIZE_def)

end
