(* ===== verification/InetUtils.thy ===== *)
theory InetUtils
  imports Config_Session KeyValue
begin

text \<open>
  The address helpers of \<^verbatim>\<open>include/inetutils.h\<close> that \<^verbatim>\<open>SendTargets\<close> uses, and the answers that the configuration
  and the network give to the handlers of text keys, which \<open>KeyValue\<close> has as the parameter \<open>environment\<close>.
  A \<^verbatim>\<open>sockaddr_storage\<close> is its 128 bytes; the family is stored in the byte order of the host, little endian.
\<close>

section \<open>Socket addresses\<close>

definition AF_INET :: nat where "AF_INET = 2"
definition AF_INET6 :: nat where "AF_INET6 = 10"

definition byte :: "u8 list \<Rightarrow> nat \<Rightarrow> u8" where
  "byte a i = (if i < length a then a ! i else 0)"

definition ss_family :: "u8 list \<Rightarrow> nat" where
  "ss_family a = unat (byte a 0) + 256 * unat (byte a 1)"

definition fresh_address :: "u8 list" where
  "fresh_address = replicate 128 0"

definition sin_addr :: "u8 list \<Rightarrow> u8 list" where
  "sin_addr a = map (byte a) [4..<8]"

definition sin6_addr :: "u8 list \<Rightarrow> u8 list" where
  "sin6_addr a = map (byte a) [8..<24]"

definition IN6_IS_ADDR_UNSPECIFIED :: "u8 list \<Rightarrow> bool" where
  "IN6_IS_ADDR_UNSPECIFIED a \<longleftrightarrow> sin6_addr a = replicate 16 0"

definition isAnyAddr :: "system \<Rightarrow> string \<Rightarrow> bool" where
  "isAnyAddr sys str =
     (let (ok, a) = getSockAddr sys str fresh_address
      in if \<not> ok then False
         else if ss_family a = AF_INET then sin_addr a = [0, 0, 0, 0]
         else if ss_family a = AF_INET6 then IN6_IS_ADDR_UNSPECIFIED a else False)"

definition isLoopbackAddr :: "u8 list \<Rightarrow> bool" where
  "isLoopbackAddr a =
     (if ss_family a = AF_INET then sin_addr a = [127, 0, 0, 1]
      else if ss_family a = AF_INET6 then sin6_addr a = replicate 15 0 @ [1] else False)"

text \<open>The port is at the same place in both families, in network byte order.\<close>

definition net_port :: "u8 list \<Rightarrow> u16" where
  "net_port a = of_nat (256 * unat (byte a 2) + unat (byte a 3))"

definition getPort :: "system \<Rightarrow> string \<Rightarrow> u16" where
  "getPort sys str =
     (let (ok, a) = getSockAddr sys str fresh_address
      in if \<not> ok then 0 else if ss_family a = AF_INET \<or> ss_family a = AF_INET6 then net_port a else 0)"

definition setPort :: "u8 list \<Rightarrow> u16 \<Rightarrow> u8 list" where
  "setPort a port =
     (if ss_family a = AF_INET \<or> ss_family a = AF_INET6
      then a[2 := of_nat (unat port div 256), 3 := of_nat (unat port mod 256)] else a)"

definition getAddrPortStr2 :: "system \<Rightarrow> u8 list \<Rightarrow> string result" where
  "getAddrPortStr2 sys addr =
     (case sys_getnameinfo sys addr of
        Inl what \<Rightarrow> Inl (Throw what)
      | Inr (host, port) \<Rightarrow>
          if port = [] \<or> hd port = CHR ''0'' then Inl (Throw ''Invalid port specified'')
          else Inr (host @ '':'' @ port))"

definition getAddrStr :: "system \<Rightarrow> u8 list \<Rightarrow> string result" where
  "getAddrStr sys addr =
     (case sys_getnameinfo sys addr of Inl what \<Rightarrow> Inl (Throw what) | Inr (host, port) \<Rightarrow> Inr host)"

section \<open>The network interfaces\<close>

text \<open>\<open>ns_ifconf\<close> are the names that \<^verbatim>\<open>SIOCGIFCONF\<close> gives, \<open>ns_ifaddr\<close> the 16 bytes that \<^verbatim>\<open>SIOCGIFADDR\<close> gives for
  a name; \<open>None\<close> when the call fails, which the code does not notice. \<open>ns_behind\<close> are the 100 bytes behind a
  \<^verbatim>\<open>sockaddr_in6\<close> that are copied with it.\<close>

record interfaces =
  ns_ifconf :: "string list option"
  ns_ifaddr :: "string \<Rightarrow> u8 list option"
  ns_behind :: "u8 list"

definition MAX_NICS :: nat where "MAX_NICS = 16"

definition getNICs :: "interfaces \<Rightarrow> string list" where
  "getNICs ns = (case ns_ifconf ns of None \<Rightarrow> replicate MAX_NICS [] | Some names \<Rightarrow> take MAX_NICS names)"

definition getNICv4Addrs :: "interfaces \<Rightarrow> u8 list list option" where
  "getNICv4Addrs ns =
     (let nics = getNICs ns
      in if nics = [] then None
         else Some (map (\<lambda>nic. (case ns_ifaddr ns (take 15 nic) of None \<Rightarrow> [2, 0] @ replicate 14 0 | Some a \<Rightarrow> a) @ replicate 112 0) nics))"

text \<open>\<^verbatim>\<open>sscanf\<close> with \<^verbatim>\<open>%08x\<close> four times, on a line that has no signs and no \<^verbatim>\<open>0x\<close>: blanks are skipped, then up to
  eight digits are taken. What is not converted keeps its value 0.\<close>

definition scan_word :: "string \<Rightarrow> (u32 \<times> string) option" where
  "scan_word cs =
     (let cs' = dropWhile (\<lambda>c. c \<in> {CHR '' '', TAB}) cs;
          ds = takeWhile (\<lambda>c. hex_value c \<noteq> None) (take 8 cs')
      in if ds = [] then None
         else Some (fold (\<lambda>c n. 16 * n + of_nat (the (hex_value c))) ds 0, drop (length ds) cs'))"

fun scan_words :: "nat \<Rightarrow> string \<Rightarrow> u32 list" where
  "scan_words 0 cs = []"
| "scan_words (Suc n) cs =
     (case scan_word cs of None \<Rightarrow> replicate (Suc n) 0 | Some (w, rest) \<Rightarrow> w # scan_words n rest)"

definition htonl_bytes :: "u32 \<Rightarrow> u8 list" where
  "htonl_bytes w = [ucast (drop_bit 24 w), ucast (drop_bit 16 w), ucast (drop_bit 8 w), ucast w]"

definition address6 :: "interfaces \<Rightarrow> string \<Rightarrow> u8 list" where
  "address6 ns line = [10, 0] @ replicate 6 0 @ concat (map htonl_bytes (scan_words 4 line)) @ replicate 4 0 @ ns_behind ns"

partial_function (option) v6_loop :: "interfaces \<Rightarrow> istream \<Rightarrow> u8 list list \<Rightarrow> u8 list list option" where
  "v6_loop ns s addrs =
     (if is_eof s then Some addrs
      else let (buf, s') = getline MAX_CHAR_PER_LINE s; a = address6 ns (c_str buf)
           in v6_loop ns s' (if IN6_IS_ADDR_UNSPECIFIED a then addrs else addrs @ [a]))"

text \<open>A stream whose file could not be opened has failed, but is not at its end.\<close>

definition getNICv6Addrs :: "system \<Rightarrow> interfaces \<Rightarrow> u8 list list option" where
  "getNICv6Addrs sys ns =
     v6_loop ns (case sys_files sys ''/proc/net/if_inet6'' of
                   None \<Rightarrow> \<lparr>is_rest = [], is_eof = False, is_fail = True\<rparr>
                 | Some text \<Rightarrow> \<lparr>is_rest = text, is_eof = False, is_fail = False\<rparr>) []"

text \<open>The outer \<open>None\<close> is not returning, the inner one the answer \<^verbatim>\<open>false\<close>.\<close>

definition getNICaddrs :: "system \<Rightarrow> interfaces \<Rightarrow> nat \<Rightarrow> u8 list list option option" where
  "getNICaddrs sys ns family =
     (if family = AF_INET then Some (getNICv4Addrs ns)
      else if family = AF_INET6 then map_option Some (getNICv6Addrs sys ns) else Some None)"

section \<open>What SendTargets announces\<close>

text \<open>The addresses of the host for a wildcard target port: whether each is the loopback address, and its text
  with the port, \<open>None\<close> when printing it throws.\<close>

definition nic_entry :: "system \<Rightarrow> u16 \<Rightarrow> u8 list \<Rightarrow> bool \<times> string option" where
  "nic_entry sys port a =
     (isLoopbackAddr a, case getAddrPortStr2 sys (setPort a port) of Inl _ \<Rightarrow> None | Inr text \<Rightarrow> Some text)"

definition SendTargets_nics :: "system \<Rightarrow> interfaces \<Rightarrow> string \<Rightarrow> (bool \<times> string option) list option option" where
  "SendTargets_nics sys ns str =
     map_option (map_option (map (nic_entry sys (getPort sys str))))
       (getNICaddrs sys ns (ss_family (snd (getSockAddr sys str fresh_address))))"

text \<open>The target ports in the order of the table, which the handler opens anew.\<close>

definition target_port_list :: "system \<Rightarrow> string list cmd" where
  "target_port_list sys =
     then_do (TargetPortConfigurator sys) (\<lambda>t. tc_fold (TargetPortInfo sys) (\<lambda>port ps. ret (ps @ [port], False)) t [])"

text \<open>The answers of the configuration \<open>cf\<close> and the network. What Boost and the uninitialised variables answer is
  taken from \<open>libs\<close>. Only exceptions are answers: a fault that ends the program, and an enumeration of
  interfaces that does not return, have none, so they are shown to be absent where an answer is used.\<close>

definition configured_environment ::
  "system \<Rightarrow> interfaces \<Rightarrow> (physical_volume \<Rightarrow> bool) \<Rightarrow> config \<Rightarrow> environment \<Rightarrow> environment" where
  "configured_environment sys ns probe cf libs =
     libs\<lparr>env_config := (\<lambda>a. case config_getAttr_string a cf of Inr r \<Rightarrow> r | Inl _ \<Rightarrow> None),
          env_initiator := (\<lambda>name. case fst (then_do InitiatorConfigurator (tc_find (InitiatorInfo sys) name) cf) of
            Inr (found, _) \<Rightarrow> found | Inl _ \<Rightarrow> False),
          env_newInitiator := (\<lambda>name. case fst (iSCSIInitiator sys probe name cf) of Inr i \<Rightarrow> Some i | Inl _ \<Rightarrow> None),
          env_ports := (case fst (target_port_list sys cf) of Inr ports \<Rightarrow> ports | Inl _ \<Rightarrow> []),
          env_isAnyAddr := isAnyAddr sys,
          env_nics := (\<lambda>str. case SendTargets_nics sys ns str of Some r \<Rightarrow> r | None \<Rightarrow> None)\<rparr>"

end
