(* ===== verification/Config_Table.thy ===== *)
theory Config_Table
  imports Config_Correct Json_Roundtrip
begin

text \<open>
  The tables of the configuration refine lists with keys: finding an entry, adding one and deleting one on the
  array of the tree do what they say on the list of the entries, and leave the rest of the tree alone.
\<close>

section \<open>Arrays as lists\<close>

lemma index_word: "n < 2 ^ 31 \<Longrightarrow> CZ_index (of_nat n) = int n"
  by (simp add: CZ_index_def unsigned_of_nat signed_of_nat take_bit_nat_eq_self signed_take_bit_int_eq_self)

definition positions :: "nat \<Rightarrow> json list \<Rightarrow> (int \<times> json) list" where
  "positions i vs = zip [int i..int i + int (length vs) - 1] vs"

lemma positions_Nil [simp]: "positions i [] = []"
  by (simp add: positions_def)

lemma positions_Cons [simp]: "positions i (v # vs) = (int i, v) # positions (Suc i) vs"
  by (simp add: positions_def upto_rec1 add_ac)

lemma json_list_positions: "json_list vs = arrayValue (positions 0 vs)"
  by (simp add: json_list_def positions_def)

lemma positions_slot: "slot (int j) (positions i vs) = (if i \<le> j \<and> j < i + length vs then vs ! (j - i) else nullValue)"
proof (induction vs arbitrary: i)
  case (Cons v vs)
  have "j - i = Suc (j - Suc i)" if "i < j"
    using that by simp
  with Cons[of "Suc i"] show ?case
    by (cases "i = j") (auto simp: slot_def)
qed (auto simp: slot_def)

lemma positions_put:
  "i \<le> j \<Longrightarrow> j < i + length vs \<Longrightarrow> map_put (int j) v (positions i vs) = positions i (vs[j - i := v])"
proof (induction vs arbitrary: i)
  case (Cons v vs)
  have "j - i = Suc (j - Suc i)" if "i \<noteq> j"
    using that Cons.prems(1) by simp
  with Cons show ?case
    by (cases "i = j") auto
qed simp

lemma positions_append: "map_put (int (i + length vs)) v (positions i vs) = positions i (vs @ [v])"
proof (induction vs arbitrary: i)
  case (Cons v vs)
  show ?case
    using Cons[of "Suc i"] by (simp add: add_ac)
qed simp

lemma positions_empty [simp]: "positions i vs = [] \<longleftrightarrow> vs = []"
  by (cases vs) simp_all

lemma positions_last: "vs \<noteq> [] \<Longrightarrow> fst (last (positions i vs)) = int (i + length vs) - 1"
  by (induction vs arbitrary: i) (auto split: if_splits)

lemma list_size: "length vs < 2 ^ 31 \<Longrightarrow> json_size (json_list vs) = of_nat (length vs)"
proof -
  assume n: "length vs < 2 ^ 31"
  have "json_size (json_list vs) = scast (of_nat (length vs) :: u32)"
    by (simp add: json_list_positions json_size_def positions_last)
  then show ?thesis
    using size_word[OF n] n by (simp add: word_unat_eq_iff unat_of_nat take_bit_nat_eq_self)
qed

lemma list_slot: "i < length vs \<Longrightarrow> length vs < 2 ^ 31 \<Longrightarrow> array_slot (of_nat i) (json_list vs) = vs ! i"
  using index_word[of i] by (simp add: array_slot_def json_list_positions positions_slot)

lemma list_set: "i < length vs \<Longrightarrow> length vs < 2 ^ 31 \<Longrightarrow> set_at (of_nat i) v (json_list vs) = Inr (json_list (vs[i := v]))"
  using index_word[of i] positions_put[of 0 i vs v] by (simp add: set_at_def array_of_def json_list_positions)

lemma list_append: "length vs < 2 ^ 31 \<Longrightarrow> json_append v (json_list vs) = Inr (json_list (vs @ [v]))"
  using index_word[of "length vs"] positions_append[of 0 vs v]
  by (simp add: json_append_def list_size) (simp add: set_at_def array_of_def json_list_positions)

lemma list_elements: "length vs < 2 ^ 31 \<Longrightarrow> elements_of (json_list vs) = vs"
  by (rule nth_equalityI) (simp_all add: elements_of_def list_size list_slot unat_of_nat take_bit_nat_eq_self)

section \<open>Places in the tree\<close>

text \<open>A place that exists; on its way every object is in order, so that writing to the place changes nothing
  else.\<close>

fun place :: "path \<Rightarrow> json \<Rightarrow> bool" where
  "place [] t = True"
| "place (Key k # p) t = (\<exists>m x. t = objectValue m \<and> sorted_map m \<and> map_of m (c_str k) = Some x \<and> place p x)"
| "place (Index i # p) t = (\<exists>m x. t = arrayValue m \<and> sorted_map m \<and> map_of m (CZ_index i) = Some x \<and> place p x)"

lemma place_update:
  assumes "place p t" and "f (tree_at p t) = Inr x"
  shows "\<exists>t'. tree_update p f t = Inr t' \<and> tree_at p t' = x \<and> place p t'"
  using assms
proof (induction p arbitrary: t)
  case (Cons st p)
  then show ?case
    by (cases st)
      (fastforce simp: object_slot_def slot_def set_member_def object_of_def array_slot_def set_at_def array_of_def)+
qed simp

lemma map_put_same: "sorted_map m \<Longrightarrow> map_of m k = Some v \<Longrightarrow> map_put k v m = m"
  by (induction k v m rule: map_put.induct) (fastforce dest: map_of_SomeD)+

lemma place_update_same:
  assumes "place p t" and "f (tree_at p t) = Inr (tree_at p t)"
  shows "tree_update p f t = Inr t"
  using assms
proof (induction p arbitrary: t)
  case (Cons st p)
  then show ?case
    by (cases st)
      (fastforce simp: object_slot_def slot_def set_member_def object_of_def array_slot_def set_at_def array_of_def
        map_put_same)+
qed simp

section \<open>Tables as lists\<close>

text \<open>What a table holds: the value is an array of the entries' values, or null when it is empty and was never
  written.\<close>

definition table_value :: "json \<Rightarrow> json list \<Rightarrow> bool" where
  "table_value v vs \<longleftrightarrow> length vs < 2 ^ 31 \<and> (v = json_list vs \<or> v = nullValue \<and> vs = [])"

lemma table_size: "table_value v vs \<Longrightarrow> json_size v = of_nat (length vs)"
  by (auto simp: table_value_def list_size) (simp add: json_size_def)

lemma table_size_nat: "table_value v vs \<Longrightarrow> unat (json_size v) = length vs"
  by (simp add: table_size unat_of_nat take_bit_nat_eq_self) (simp add: table_value_def take_bit_nat_eq_self)

lemma table_array: "table_value v vs \<Longrightarrow> isArray v"
  by (auto simp: table_value_def isArray_def json_list_def)

lemma index_eq: "i < 2 ^ 31 \<Longrightarrow> j < 2 ^ 31 \<Longrightarrow> (of_nat i :: u64) = of_nat j \<longleftrightarrow> i = j"
  by (simp add: word_unat_eq_iff unat_of_nat take_bit_nat_eq_self)

lemma index_less: "i < 2 ^ 31 \<Longrightarrow> j < 2 ^ 31 \<Longrightarrow> (of_nat i :: u64) < of_nat j \<longleftrightarrow> i < j"
  by (simp add: word_less_nat_alt unat_of_nat take_bit_nat_eq_self)

lemma tree_at_append: "tree_at (p @ q) t = tree_at q (tree_at p t)"
  by (induction p t rule: tree_at.induct) simp_all

lemma table_append: "table_value v vs \<Longrightarrow> Suc (length vs) < 2 ^ 31 \<Longrightarrow> json_append x v = Inr (json_list (vs @ [x]))"
proof -
  have "json_append x nullValue = json_append x (json_list [])"
    by (simp add: json_append_def json_size_def set_at_def array_of_def json_list_def)
  then show "table_value v vs \<Longrightarrow> Suc (length vs) < 2 ^ 31 \<Longrightarrow> json_append x v = Inr (json_list (vs @ [x]))"
    using list_append[of vs x] by (auto simp: table_value_def)
qed

lemma cleared: "json_clear (json_list vs) = Inr (json_list [])"
  by (simp add: json_clear_def json_list_def)

lemma append_but_list:
  "k \<le> j \<Longrightarrow> k + length vs < 2 ^ 31 \<Longrightarrow> j < 2 ^ 31 \<Longrightarrow> length ws + length vs < 2 ^ 31 \<Longrightarrow>
   fold (\<lambda>(i, v) m. bind m (\<lambda>t. if of_nat i = (of_nat j :: u64) then Inr t else json_append v t)) (enumerate k vs)
     (Inr (json_list ws)) = Inr (json_list (ws @ take (j - k) vs @ drop (Suc (j - k)) vs))"
proof (induction vs arbitrary: k ws)
  case (Cons v vs)
  have same: "(of_nat k :: u64) = of_nat j \<longleftrightarrow> k = j"
    using Cons.prems by (intro index_eq) simp_all
  show ?case
  proof (cases "k = j")
    case True
    have "fold (\<lambda>(i, v) m. bind m (\<lambda>t. if of_nat i = (of_nat j :: u64) then Inr t else json_append v t)) (enumerate k' us)
        (Inr (json_list xs)) = Inr (json_list (xs @ us))"
      if "j < k'" "k' + length us < 2 ^ 31" "length xs + length us < 2 ^ 31" for k' us xs
      using that
    proof (induction us arbitrary: k' xs)
      case (Cons u us)
      have "(of_nat k' :: u64) \<noteq> of_nat j"
        using Cons.prems index_eq[of k' j] by simp
      then show ?case
        using Cons by (simp add: list_append)
    qed simp
    from this[of "Suc k" vs ws] show ?thesis
      using True Cons.prems by simp
  next
    case False
    then have "j - k = Suc (j - Suc k)"
      using Cons.prems(1) by simp
    then show ?thesis
      using Cons.IH[of "Suc k" "ws @ [v]"] Cons.prems False same by (simp add: list_append)
  qed
qed simp

lemma append_but_one:
  assumes "j < length vs" and "length vs < 2 ^ 31"
  shows "append_but (of_nat j) vs (json_list []) = Inr (json_list (take j vs @ drop (Suc j) vs))"
proof -
  have "j < 2 ^ 31"
    using assms by (rule less_trans)
  with append_but_list[of 0 j vs "[]"] assms(2) show ?thesis
    unfolding append_but_def minus_nat.diff_0 append_Nil list.size add_0 by blast
qed

text \<open>An entry that is a pure function of its value in the tree, with its key.\<close>

locale stored_entry =
  fixes ops :: "('info, 'key) info_ops" and parse :: "json \<Rightarrow> 'info result" and key_of :: "'info \<Rightarrow> 'key"
  assumes new: "io_new ops p i cf = (parse (tree_at p (cf_root cf)), cf)"
    and key: "io_key ops info = Inr (key_of info)"
begin

definition holds :: "path \<Rightarrow> 'info list \<Rightarrow> config \<Rightarrow> bool" where
  "holds p infos cf \<longleftrightarrow> place p (cf_root cf) \<and>
     (\<exists>vs. table_value (tree_at p (cf_root cf)) vs \<and> map parse vs = map Inr infos)"

lemma holds_length: "holds p infos cf \<Longrightarrow> length infos < 2 ^ 31"
  by (auto simp: holds_def table_value_def dest: map_eq_imp_length_eq)

lemma size_of: "holds p infos cf \<Longrightarrow> impl_size p cf = (Inr (of_nat (length infos)), cf)"
  by (auto simp: holds_def impl_size_def then_do_def read_at_def ret_def table_size dest: map_eq_imp_length_eq)

lemma get_entry:
  assumes "holds p infos cf" and "i < length infos"
  shows "impl_get ops p (of_nat i) cf = (Inr (infos ! i), cf)"
proof -
  let ?v = "tree_at p (cf_root cf)"
  obtain vs where vs: "place p (cf_root cf)" "table_value ?v vs" "map parse vs = map Inr infos"
    using assms(1) by (auto simp: holds_def)
  have len: "length vs = length infos"
    using vs(3) by (rule map_eq_imp_length_eq)
  have v: "?v = json_list vs" "length vs < 2 ^ 31"
    using vs(2) assms(2) len by (auto simp: table_value_def)
  have at: "array_slot (of_nat i) ?v = vs ! i"
    using v assms(2) len by (simp add: list_slot)
  have "set_at (of_nat i) (array_slot (of_nat i) ?v) ?v = Inr ?v"
    unfolding at using v assms(2) len by (simp add: list_set)
  then have "tree_update p (\<lambda>v. set_at (of_nat i) (array_slot (of_nat i) v) v) (cf_root cf) = Inr (cf_root cf)"
    by (rule place_update_same[OF vs(1)])
  moreover have "parse (vs ! i) = Inr (infos ! i)"
    using vs(3) assms(2) len by (metis nth_map)
  moreover have "tree_at (p @ [Index (of_nat i)]) (cf_root cf) = vs ! i"
    by (simp add: tree_at_append at)
  ultimately show ?thesis
    using table_array[OF vs(2)]
    by (simp add: impl_get_def then_do_def read_at_def touch_at_def update_at_def new)
qed

text \<open>An iterator on the entry \<open>i\<close>: what it has cached is that entry, or it will read it.\<close>

definition on_entry :: "path \<Rightarrow> 'info list \<Rightarrow> nat \<Rightarrow> 'info tagged \<Rightarrow> bool" where
  "on_entry p infos i t \<longleftrightarrow> tc_path t = p \<and> tc_index t = of_nat i \<and> i < length infos \<and>
     (tc_prev t = of_nat i \<longrightarrow> tc_info t = Some (infos ! i))"

lemma current_entry:
  assumes "holds p infos cf" and "on_entry p infos i t"
  shows "\<exists>t'. tc_current ops t cf = (Inr (infos ! i, t'), cf) \<and> on_entry p infos i t' \<and> tc_prev t' = of_nat i"
  using assms get_entry[OF assms(1), of i]
  by (auto simp: tc_current_def then_do_def lift_def ret_def on_entry_def)

lemma next_entry:
  assumes "holds p infos cf" and "on_entry p infos i t" and "tc_prev t = of_nat i"
  shows "\<exists>t'. tc_next t cf = (Inr (Suc i < length infos, t'), cf) \<and> tc_path t' = p \<and>
    (Suc i < length infos \<longrightarrow> on_entry p infos (Suc i) t')"
proof -
  have small: "i < length infos" "length infos < 2 ^ 31"
    using assms(2) holds_length[OF assms(1)] by (simp_all add: on_entry_def)
  then have "of_nat (Suc i) < (of_nat (length infos) :: u64) \<longleftrightarrow> Suc i < length infos" "of_nat (Suc i) \<noteq> (of_nat i :: u64)"
    using index_less[of "Suc i" "length infos"] index_eq[of "Suc i" i] by simp_all
  then show ?thesis
    using assms by (simp add: tc_next_def Let_def then_do_def size_of[OF assms(1)] ret_def on_entry_def add_ac)
qed

lemma begin_entry:
  assumes "holds p infos cf" and "tc_path t = p"
  shows "\<exists>t'. tc_begin ops t cf = (Inr (infos \<noteq> [], t'), cf) \<and> tc_path t' = p \<and> (infos \<noteq> [] \<longrightarrow> on_entry p infos 0 t')"
proof -
  have "(of_nat (length infos) :: u64) = 0 \<longleftrightarrow> infos = []"
    using index_eq[of "length infos" 0] holds_length[OF assms(1)] by simp
  then show ?thesis
    using assms get_entry[OF assms(1), of 0]
    by (auto simp: tc_begin_def then_do_def size_of[OF assms(1)] ret_def on_entry_def)
qed

lemma find_loop:
  assumes "holds p infos cf"
    and body: "\<And>j info. body j info cf = (Inr (if P info then Some () else None), cf)"
  shows "on_entry p infos i t \<Longrightarrow> length infos \<le> i + n \<Longrightarrow>
    \<exists>t'. tc_loop ops body n t cf = (Inr (if \<exists>info \<in> set (drop i infos). P info then Some () else None, t'), cf) \<and> tc_path t' = p \<and>
      ((\<exists>info \<in> set (drop i infos). P info) \<longrightarrow> (\<exists>j \<ge> i. on_entry p infos j t' \<and> P (infos ! j) \<and> (\<forall>k. i \<le> k \<and> k < j \<longrightarrow> \<not> P (infos ! k))))"
proof (induction n arbitrary: i t)
  case 0
  then show ?case
    by (simp add: on_entry_def)
next
  case (Suc n)
  obtain t1 where t1: "tc_current ops t cf = (Inr (infos ! i, t1), cf)" "on_entry p infos i t1" "tc_prev t1 = of_nat i"
    using current_entry[OF assms(1) Suc.prems(1)] by blast
  have split: "drop i infos = infos ! i # drop (Suc i) infos"
    using Suc.prems(1) by (simp add: on_entry_def Cons_nth_drop_Suc)
  show ?case
  proof (cases "P (infos ! i)")
    case True
    then show ?thesis
      using t1 split by (auto simp: then_do_def body ret_def on_entry_def)
  next
    case False
    obtain t2 where t2: "tc_next t1 cf = (Inr (Suc i < length infos, t2), cf)" "tc_path t2 = p"
      "Suc i < length infos \<longrightarrow> on_entry p infos (Suc i) t2"
      using next_entry[OF assms(1) t1(2,3)] by blast
    show ?thesis
    proof (cases "Suc i < length infos")
      case more: True
      then obtain t' where t': "tc_loop ops body n t2 cf =
          (Inr (if \<exists>info \<in> set (drop (Suc i) infos). P info then Some () else None, t'), cf)" "tc_path t' = p"
        "(\<exists>info \<in> set (drop (Suc i) infos). P info) \<longrightarrow>
          (\<exists>j \<ge> Suc i. on_entry p infos j t' \<and> P (infos ! j) \<and> (\<forall>k. Suc i \<le> k \<and> k < j \<longrightarrow> \<not> P (infos ! k)))"
        using Suc.IH[of "Suc i" t2] t2(3) Suc.prems(2) by auto
      have "\<exists>j \<ge> i. on_entry p infos j t' \<and> P (infos ! j) \<and> (\<forall>k. i \<le> k \<and> k < j \<longrightarrow> \<not> P (infos ! k))"
        if "\<exists>info \<in> set (drop (Suc i) infos). P info"
        using t'(3) that False by (metis Suc_leD le_antisym not_less_eq_eq)
      then show ?thesis
        using t1(1) t2(1) more False t'(1,2) by (simp add: split then_do_def body)
    next
      case last: False
      then have "drop (Suc i) infos = []"
        by simp
      then show ?thesis
        using t1(1) t2(1,2) last False by (simp add: split then_do_def body ret_def)
    qed
  qed
qed

lemma find_entry:
  assumes "holds p infos cf" and "tc_path t = p"
  shows "\<exists>t'. tc_find ops k t cf = (Inr (k \<in> key_of ` set infos, t'), cf) \<and> tc_path t' = p \<and>
    (k \<in> key_of ` set infos \<longrightarrow> (\<exists>j < length infos. tc_index t' = of_nat j \<and> key_of (infos ! j) = k \<and>
      (\<forall>i < j. key_of (infos ! i) \<noteq> k)))"
proof -
  obtain t1 where t1: "tc_begin ops t cf = (Inr (infos \<noteq> [], t1), cf)" "tc_path t1 = p" "infos \<noteq> [] \<longrightarrow> on_entry p infos 0 t1"
    using begin_entry[OF assms] by blast
  let ?body = "\<lambda>_ info. then_do (lift (io_key ops info)) (\<lambda>k'. ret (if k' = k then Some () else None))"
  have body: "?body j info cf = (Inr (if key_of info = k then Some () else None), cf)" for j info
    by (simp add: key then_do_def lift_def ret_def)
  have n: "unat (of_nat (length infos) :: u64) = length infos"
    using holds_length[OF assms(1)] by (simp add: unat_of_nat take_bit_nat_eq_self)
  show ?thesis
  proof (cases "infos = []")
    case True
    then show ?thesis
      using t1 by (simp add: tc_find_def tc_for_def then_do_def ret_def)
  next
    case False
    obtain t' where t': "tc_loop ops ?body (length infos) t1 cf =
        (Inr (if \<exists>info \<in> set (drop 0 infos). key_of info = k then Some () else None, t'), cf)" "tc_path t' = p"
      "(\<exists>info \<in> set (drop 0 infos). key_of info = k) \<longrightarrow> (\<exists>j \<ge> 0. on_entry p infos j t' \<and> key_of (infos ! j) = k \<and>
        (\<forall>i. 0 \<le> i \<and> i < j \<longrightarrow> key_of (infos ! i) \<noteq> k))"
      using find_loop[where body = ?body and P = "\<lambda>info. key_of info = k", OF assms(1) body, of 0 t1 "length infos"] t1(3) False
      by auto
    have "tc_find ops k t cf = (Inr (k \<in> key_of ` set infos, t'), cf)"
      using t1 False t'(1) size_of[OF assms(1)] n
      by (auto simp: tc_find_def tc_for_def then_do_def ret_def image_iff)
    with t'(2,3) show ?thesis
      by (auto simp: on_entry_def)
  qed
qed

text \<open>Writing to the place of a table gives a table with the new values.\<close>

lemma update_table:
  assumes "holds p infos cf" and "f (tree_at p (cf_root cf)) = Inr (json_list vs)" and "length vs < 2 ^ 31"
    and "map parse vs = map Inr infos'"
  shows "\<exists>cf'. update_at p f cf = (Inr (), cf') \<and> holds p infos' cf' \<and> cf_defaults cf' = cf_defaults cf \<and>
    (\<forall>k. p = [Key k] \<longrightarrow> (\<forall>name. c_str name \<noteq> c_str k \<longrightarrow> object_slot name (cf_root cf') = object_slot name (cf_root cf)))"
proof -
  have place: "place p (cf_root cf)"
    using assms(1) by (simp add: holds_def)
  obtain t' where t': "tree_update p f (cf_root cf) = Inr t'" "tree_at p t' = json_list vs" "place p t'"
    using place_update[OF place, of f] assms(2) by blast
  have "object_slot name t' = object_slot name (cf_root cf)" if "p = [Key k]" "c_str name \<noteq> c_str k" for k name
    using t'(1) that place by (auto simp: bind_Inr set_member_def object_of_def object_slot_def slot_def split: json.splits)
  with t' assms(3,4) show ?thesis
    by (auto simp: update_at_def holds_def table_value_def)
qed

lemma add_entry:
  assumes "holds p infos cf" and "tc_path t = p" and "Suc (length infos) < 2 ^ 31"
    and "io_valid ops info cf = (Inr True, cf)" and "io_serialize ops info = Inr v" and "parse v = Inr info"
  shows "\<exists>t' cf'. tc_add ops info t cf = (Inr (key_of info \<notin> key_of ` set infos, t'), cf') \<and> tc_path t' = p \<and>
    holds p (if key_of info \<in> key_of ` set infos then infos else infos @ [info]) cf' \<and> cf_defaults cf' = cf_defaults cf \<and>
    (\<forall>k. p = [Key k] \<longrightarrow> (\<forall>name. c_str name \<noteq> c_str k \<longrightarrow> object_slot name (cf_root cf') = object_slot name (cf_root cf)))"
proof -
  obtain t1 where t1: "tc_find ops (key_of info) t cf = (Inr (key_of info \<in> key_of ` set infos, t1), cf)" "tc_path t1 = p"
    using find_entry[OF assms(1,2), of "key_of info"] by blast
  show ?thesis
  proof (cases "key_of info \<in> key_of ` set infos")
    case True
    then show ?thesis
      using t1 assms(1) by (simp add: tc_add_def then_do_def key lift_def ret_def)
  next
    case False
    obtain vs where vs: "table_value (tree_at p (cf_root cf)) vs" "map parse vs = map Inr infos"
      using assms(1) by (auto simp: holds_def)
    then have len: "length vs = length infos"
      by (auto dest: map_eq_imp_length_eq)
    have "json_append v (tree_at p (cf_root cf)) = Inr (json_list (vs @ [v]))"
      using table_append[OF vs(1)] assms(3) len by simp
    moreover have "map parse (vs @ [v]) = map Inr (infos @ [info])"
      using vs(2) assms(6) by simp
    ultimately obtain cf' where cf': "update_at p (json_append v) cf = (Inr (), cf')" "holds p (infos @ [info]) cf'"
      "cf_defaults cf' = cf_defaults cf"
      "\<forall>k. p = [Key k] \<longrightarrow> (\<forall>name. c_str name \<noteq> c_str k \<longrightarrow> object_slot name (cf_root cf') = object_slot name (cf_root cf))"
      using update_table[OF assms(1), of "json_append v" "vs @ [v]" "infos @ [info]"] assms(3) len by auto
    have "tc_add ops info t cf = (Inr (True, t1), cf')"
      using t1 False assms(4,5) cf'(1) by (simp add: tc_add_def impl_add_def then_do_def key lift_def ret_def)
    with cf'(2-4) False t1(2) show ?thesis
      by auto
  qed
qed

lemma del_entry:
  assumes "holds p infos cf" and "tc_path t = p"
  shows "\<exists>t' cf'. tc_del ops k t cf = (Inr (k \<in> key_of ` set infos, t'), cf') \<and> tc_path t' = p \<and>
    holds p (takeWhile (\<lambda>i. key_of i \<noteq> k) infos @ tl (dropWhile (\<lambda>i. key_of i \<noteq> k) infos)) cf' \<and>
    cf_defaults cf' = cf_defaults cf \<and>
    (\<forall>s. p = [Key s] \<longrightarrow> (\<forall>name. c_str name \<noteq> c_str s \<longrightarrow> object_slot name (cf_root cf') = object_slot name (cf_root cf)))"
proof -
  let ?off = "takeWhile (\<lambda>i. key_of i \<noteq> k) infos @ tl (dropWhile (\<lambda>i. key_of i \<noteq> k) infos)"
  obtain t1 where t1: "tc_find ops k t cf = (Inr (k \<in> key_of ` set infos, t1), cf)" "tc_path t1 = p"
    "k \<in> key_of ` set infos \<longrightarrow> (\<exists>j < length infos. tc_index t1 = of_nat j \<and> key_of (infos ! j) = k \<and>
      (\<forall>i < j. key_of (infos ! i) \<noteq> k))"
    using find_entry[OF assms] by blast
  show ?thesis
  proof (cases "k \<in> key_of ` set infos")
    case False
    then have "takeWhile (\<lambda>i. key_of i \<noteq> k) infos = infos" "dropWhile (\<lambda>i. key_of i \<noteq> k) infos = []"
      by (auto simp: takeWhile_eq_all_conv dropWhile_eq_Nil_conv)
    then have off: "?off = infos"
      by (simp only: list.sel(2) append_Nil2)
    show ?thesis
      unfolding off using False t1(1,2) assms(1) by (simp add: tc_del_def then_do_def ret_def)
  next
    case True
    then obtain j where j: "j < length infos" "tc_index t1 = of_nat j" "key_of (infos ! j) = k" "\<forall>i < j. key_of (infos ! i) \<noteq> k"
      using t1(3) by blast
    have "takeWhile (\<lambda>i. key_of i \<noteq> k) infos = take j infos"
      using j by (intro takeWhile_eq_take_P_nth) auto
    then have off: "?off = take j infos @ drop (Suc j) infos"
      using j(1) by (simp add: dropWhile_eq_drop drop_Suc tl_drop)
    obtain vs where vs: "table_value (tree_at p (cf_root cf)) vs" "map parse vs = map Inr infos"
      using assms(1) by (auto simp: holds_def)
    then have len: "length vs = length infos"
      by (auto dest: map_eq_imp_length_eq)
    then have v: "tree_at p (cf_root cf) = json_list vs" and small: "length vs < 2 ^ 31"
      using vs(1) j(1) by (auto simp: table_value_def)
    let ?f = "\<lambda>v. bind (json_clear v) (append_but (of_nat j) (elements_of (tree_at p (cf_root cf))))"
    have "?f (tree_at p (cf_root cf)) = Inr (json_list (take j vs @ drop (Suc j) vs))"
      unfolding v cleared bind.simps list_elements[OF small] using small j(1) len by (intro append_but_one) simp_all
    moreover have "map parse (take j vs @ drop (Suc j) vs) = map Inr ?off"
      unfolding off map_append take_map[symmetric] drop_map[symmetric] vs(2) by (rule refl)
    moreover have "length (take j vs @ drop (Suc j) vs) < 2 ^ 31"
      using small by simp
    ultimately obtain cf' where cf': "update_at p ?f cf = (Inr (), cf')" "holds p ?off cf'" "cf_defaults cf' = cf_defaults cf"
      "\<forall>s. p = [Key s] \<longrightarrow> (\<forall>name. c_str name \<noteq> c_str s \<longrightarrow> object_slot name (cf_root cf') = object_slot name (cf_root cf))"
      using update_table[OF assms(1), of ?f "take j vs @ drop (Suc j) vs" ?off] by auto
    have "(of_nat j :: u64) < json_size (tree_at p (cf_root cf))"
      using small j(1) len by (simp add: v list_size index_less)
    then have "tc_del ops k t cf = (Inr (True, t1), cf')"
      using t1(1,2) True j(2) cf'(1) by (simp add: tc_del_def impl_del_def then_do_def read_at_def ret_def)
    with cf'(2-4) True t1(2) show ?thesis
      by auto
  qed
qed

end

section \<open>The tables of target ports and of logical units\<close>

interpretation target_ports: stored_entry "TargetPortInfo sys" asString "\<lambda>port. port"
  by unfold_locales (simp_all add: TargetPortInfo_def TargetPortInfo_new_def then_do_def read_at_def lift_def)

definition lun_parse :: "json \<Rightarrow> string result" where
  "lun_parse v = bind (asString v) (\<lambda>lun. if lun = [] then Inl (Throw (''empty LUN is specified'' @ [NL])) else Inr lun)"

interpretation luns: stored_entry LUNinfo lun_parse "\<lambda>lun. lun"
  by unfold_locales
    (auto simp: LUNinfo_def LUNinfo_new_def then_do_def read_at_def lift_def ret_def lun_parse_def bind.simps
      split: sum.split)

interpretation targets: stored_entry "TargetInfo sys" "TargetInfo_of sys" ti_name
  by unfold_locales (simp_all add: TargetInfo_def then_do_def read_at_def lift_def)

lemma remove_first: "takeWhile (\<lambda>x. x \<noteq> k) xs @ tl (dropWhile (\<lambda>x. x \<noteq> k) xs) = remove1 k xs"
  by (induction xs) auto

text \<open>The configuration has the list \<open>ports\<close> of target ports.\<close>

definition port_table :: "string list \<Rightarrow> config \<Rightarrow> bool" where
  "port_table ports cf \<longleftrightarrow> target_ports.holds [Key ''TargetPort''] ports cf"

definition rest_kept :: "string \<Rightarrow> config \<Rightarrow> config \<Rightarrow> bool" where
  "rest_kept k cf cf' \<longleftrightarrow> cf_defaults cf' = cf_defaults cf \<and>
     (\<forall>name. c_str name \<noteq> c_str k \<longrightarrow> object_slot name (cf_root cf') = object_slot name (cf_root cf))"

text \<open>C14. The table of target ports, an array inside the configuration tree, refines a list without an order of its
  own: \<^verbatim>\<open>find\<close> is membership and changes nothing; \<^verbatim>\<open>add\<close> of a valid address puts it at the end unless it
  is there already; \<^verbatim>\<open>del\<close> takes out the one entry and moves the others up. Everything else of the
  configuration stays as it is.\<close>

theorem target_ports_refine_list:
  assumes "port_table ports cf" and "tc_path t = [Key ''TargetPort'']"
  shows "(\<exists>t'. tc_find (TargetPortInfo sys) port t cf = (Inr (port \<in> set ports, t'), cf)) \<and>
    (\<exists>t' cf'. tc_del (TargetPortInfo sys) port t cf = (Inr (port \<in> set ports, t'), cf') \<and>
      port_table (remove1 port ports) cf' \<and> rest_kept ''TargetPort'' cf cf') \<and>
    (string_valid sys AddrStrValidator port \<and> c_str port = port \<and> Suc (length ports) < 2 ^ 31 \<longrightarrow>
      (\<exists>t' cf'. tc_add (TargetPortInfo sys) port t cf = (Inr (port \<notin> set ports, t'), cf') \<and>
        port_table (if port \<in> set ports then ports else ports @ [port]) cf' \<and> rest_kept ''TargetPort'' cf cf'))"
proof (intro conjI impI)
  have holds: "target_ports.holds [Key ''TargetPort''] ports cf"
    using assms(1) by (simp add: port_table_def)
  show "\<exists>t'. tc_find (TargetPortInfo sys) port t cf = (Inr (port \<in> set ports, t'), cf)"
    using target_ports.find_entry[OF holds assms(2), where k = port and sys = sys] by auto
  show "\<exists>t' cf'. tc_del (TargetPortInfo sys) port t cf = (Inr (port \<in> set ports, t'), cf') \<and>
      port_table (remove1 port ports) cf' \<and> rest_kept ''TargetPort'' cf cf'"
    using target_ports.del_entry[OF holds assms(2), where k = port and sys = sys] remove_first[of port ports]
    by (auto simp: port_table_def rest_kept_def)
  assume new: "string_valid sys AddrStrValidator port \<and> c_str port = port \<and> Suc (length ports) < 2 ^ 31"
  then show "\<exists>t' cf'. tc_add (TargetPortInfo sys) port t cf = (Inr (port \<notin> set ports, t'), cf') \<and>
        port_table (if port \<in> set ports then ports else ports @ [port]) cf' \<and> rest_kept ''TargetPort'' cf cf'"
    using target_ports.add_entry[OF holds assms(2), where info = port and sys = sys and v = "Value_string port"]
    by (auto simp: TargetPortInfo_def ret_def Value_string_def asString_def port_table_def rest_kept_def)
qed

text \<open>The first opening of the table, in a configuration that has none.\<close>

lemma port_table_new:
  assumes "cf_root cf = objectValue m" and "sorted_map m" and "map_of m ''TargetPort'' = None"
  shows "\<exists>t cf'. TaggedConfigurator [] ''TargetPort'' cf = (Inr t, cf') \<and> tc_path t = [Key ''TargetPort''] \<and> port_table [] cf'"
proof -
  have "c_str ''TargetPort'' = ''TargetPort''"
    by (simp add: c_str_def)
  with assms show ?thesis
    by (auto simp: TaggedConfigurator_def touch_member_def update_at_def then_do_def ret_def set_member_def object_of_def
        object_slot_def slot_def port_table_def target_ports.holds_def table_value_def)
qed

lemma target_ports_refine_list_witness:
  "\<exists>t t' cf cf'. tc_path t = [Key ''TargetPort''] \<and>
     tc_add (TargetPortInfo (ex_system\<lparr>sys_getaddrinfo := \<lambda>_ _. Some [2, 0]\<rparr>)) DEFAULT_TARGETPORT t cf = (Inr (True, t'), cf') \<and>
     port_table [DEFAULT_TARGETPORT] cf'"
proof -
  let ?sys = "ex_system\<lparr>sys_getaddrinfo := \<lambda>_ _. Some [2, 0]\<rparr>"
  have "cf_root \<lparr>cf_root = objectValue [], cf_cmdargs = nullValue, cf_defaults = []\<rparr> = objectValue []"
    by simp
  from port_table_new[OF this] obtain t :: "string tagged" and cf where t: "tc_path t = [Key ''TargetPort'']" "port_table [] cf"
    by auto
  have "string_valid ?sys AddrStrValidator DEFAULT_TARGETPORT \<and> c_str DEFAULT_TARGETPORT = DEFAULT_TARGETPORT"
    by code_simp
  with target_ports_refine_list[OF t(2,1), of ?sys DEFAULT_TARGETPORT] t(1) show ?thesis
    by force
qed

text \<open>An empty name of a logical unit is valid and can be added, but not be read again: the table can not be
  searched any more.\<close>

lemma empty_lun_breaks_table:
  assumes "luns.holds p [] cf" and "tc_path t = p"
  shows "\<exists>t' cf'. tc_add LUNinfo [] t cf = (Inr (True, t'), cf') \<and>
    tc_find LUNinfo lun t' cf' = (Inl (Throw (''empty LUN is specified'' @ [NL])), cf')"
proof -
  let ?v = "tree_at p (cf_root cf)"
  obtain t1 where t1: "tc_find LUNinfo [] t cf = (Inr (False, t1), cf)" "tc_path t1 = p"
    using luns.find_entry[OF assms, of "[]"] by auto
  have v: "table_value ?v []" "place p (cf_root cf)"
    using assms(1) by (auto simp: luns.holds_def)
  have "json_append (stringValue []) ?v = Inr (json_list [stringValue []])"
    using table_append[OF v(1)] by simp
  then obtain r where r: "tree_update p (json_append (stringValue [])) (cf_root cf) = Inr r"
    "tree_at p r = json_list [stringValue []]" "place p r"
    using place_update[OF v(2), of "json_append (stringValue [])"] by blast
  define cf' where "cf' = cf\<lparr>cf_root := r\<rparr>"
  have add: "tc_add LUNinfo [] t cf = (Inr (True, t1), cf')"
    using t1 r(1) by (simp add: tc_add_def impl_add_def then_do_def LUNinfo_def lift_def ret_def update_at_def cf'_def
        Value_string_def c_str_def)
  have "tree_update p (\<lambda>v. set_at 0 (array_slot 0 v) v) r = Inr r"
    using list_set[of 0 "[stringValue []]"] list_slot[of 0 "[stringValue []]"] by (intro place_update_same[OF r(3)]) (simp add: r(2))
  then have "impl_get LUNinfo p 0 cf' = (Inl (Throw (''empty LUN is specified'' @ [NL])), cf')"
    using r(2) list_slot[of 0 "[stringValue []]"]
    by (simp add: impl_get_def then_do_def read_at_def touch_at_def update_at_def cf'_def isArray_def json_list_def
        LUNinfo_def LUNinfo_new_def tree_at_append lift_def asString_def)
  then have "tc_find LUNinfo lun t1 cf' = (Inl (Throw (''empty LUN is specified'' @ [NL])), cf')"
    using t1(2) r(2) list_size[of "[stringValue []]"]
    by (simp add: tc_find_def tc_for_def tc_begin_def impl_size_def then_do_def read_at_def ret_def cf'_def)
  with add show ?thesis
    by blast
qed

end
