(* ===== verification/Inet_Correct.thy ===== *)
theory Inet_Correct
  imports InetUtils Config_Table
begin

text \<open>
  What \<^verbatim>\<open>SendTargets\<close> announces, from the configuration's table of target ports and the interfaces of the host
  to the keys of the response, and when the enumeration of the interfaces returns. The list of ports comes from the
  interface \<open>stored_entry\<close> of \<open>Config_Table\<close>, which here gets the iteration over a whole table.
\<close>

section \<open>The list of target ports\<close>

context stored_entry begin

lemma fold_loop_entries:
  assumes "holds p infos cf" and body: "\<And>info acc. body info acc cf = (Inr (g info acc, False), cf)"
  shows "on_entry p infos i t \<Longrightarrow> length infos \<le> i + n \<Longrightarrow>
    tc_fold_loop ops body n t acc cf = (Inr (fold g (drop i infos) acc), cf)"
proof (induction n arbitrary: i t acc)
  case 0
  then show ?case
    by (simp add: on_entry_def)
next
  case (Suc n)
  obtain t1 where t1: "tc_current ops t cf = (Inr (infos ! i, t1), cf)" "on_entry p infos i t1" "tc_prev t1 = of_nat i"
    using current_entry[OF assms(1) Suc.prems(1)] by blast
  obtain t2 where t2: "tc_next t1 cf = (Inr (Suc i < length infos, t2), cf)" "Suc i < length infos \<longrightarrow> on_entry p infos (Suc i) t2"
    using next_entry[OF assms(1) t1(2,3)] by blast
  have "drop i infos = infos ! i # drop (Suc i) infos"
    using Suc.prems(1) by (simp add: on_entry_def Cons_nth_drop_Suc)
  then show ?case
    using t1(1) t2 Suc.IH[of "Suc i" t2] Suc.prems(2) by (simp add: then_do_def body ret_def)
qed

lemma fold_entries:
  assumes "holds p infos cf" and "tc_path t = p" and "\<And>info acc. body info acc cf = (Inr (g info acc, False), cf)"
  shows "tc_fold ops body t acc cf = (Inr (fold g infos acc), cf)"
proof -
  obtain t1 where t1: "tc_begin ops t cf = (Inr (infos \<noteq> [], t1), cf)" "tc_path t1 = p" "infos \<noteq> [] \<longrightarrow> on_entry p infos 0 t1"
    using begin_entry[OF assms(1,2)] by blast
  have n: "unat (of_nat (length infos) :: u64) = length infos"
    using holds_length[OF assms(1)] by (simp add: unat_of_nat take_bit_nat_eq_self)
  show ?thesis
    using t1 fold_loop_entries[where body = body and g = g, OF assms(1,3), of 0 t1 "length infos" acc] n size_of[OF assms(1)]
    by (auto simp: tc_fold_def then_do_def ret_def)
qed

end

lemma open_port_table:
  assumes "port_table ports cf" and "ports \<noteq> []"
  shows "\<exists>t. TargetPortConfigurator sys cf = (Inr t, cf) \<and> tc_path t = [Key ''TargetPort'']"
proof -
  have holds: "target_ports.holds [Key ''TargetPort''] ports cf"
    using assms(1) by (simp add: port_table_def)
  then have place: "place [Key ''TargetPort''] (cf_root cf)"
    by (simp add: target_ports.holds_def)
  have "touch_member ''TargetPort'' [] cf = (Inr (), cf)"
    using place by (auto simp: touch_member_def update_at_def set_member_def object_of_def object_slot_def slot_def map_put_same)
  moreover have "(of_nat (length ports) :: u64) \<noteq> 0"
    using index_eq[of "length ports" 0] target_ports.holds_length[OF holds] assms(2) by simp
  ultimately show ?thesis
    using target_ports.size_of[OF holds]
    by (simp add: TargetPortConfigurator_def TaggedConfigurator_def then_do_def ret_def tc_empty_def)
qed

lemma target_port_list_is:
  assumes "port_table ports cf" and "ports \<noteq> []"
  shows "target_port_list sys cf = (Inr ports, cf)"
proof -
  have holds: "target_ports.holds [Key ''TargetPort''] ports cf"
    using assms(1) by (simp add: port_table_def)
  obtain t where t: "TargetPortConfigurator sys cf = (Inr t, cf)" "tc_path t = [Key ''TargetPort'']"
    using open_port_table[OF assms] by blast
  have "fold (\<lambda>port ps. ps @ [port]) ports acc = acc @ ports" for acc :: "string list"
    by (induction ports arbitrary: acc) simp_all
  then show ?thesis
    using t(1) target_ports.fold_entries[OF holds t(2), of "\<lambda>port ps. ret (ps @ [port], False)" "\<lambda>port ps. ps @ [port]" sys "[]"]
    by (simp add: target_port_list_def then_do_def ret_def)
qed


section \<open>The response to SendTargets\<close>

definition wildcard :: "system \<Rightarrow> string list \<Rightarrow> bool" where
  "wildcard sys ports \<longleftrightarrow> length ports = 1 \<and> isAnyAddr sys (hd ports)"

definition announced :: "system \<Rightarrow> string list \<Rightarrow> (u8 list \<Rightarrow> string) \<Rightarrow> u8 list list \<Rightarrow> string list" where
  "announced sys ports print addrs =
     (if wildcard sys ports then map print (filter (\<lambda>a. \<not> isLoopbackAddr a) addrs) else ports)"

lemma add_nics_printed:
  assumes "\<forall>a \<in> set addrs. \<not> isLoopbackAddr a \<longrightarrow> getAddrPortStr2 sys (setPort a port) = Inr (print a)"
  shows "add_nics tag (map (nic_entry sys port) addrs) g =
    exec_bind (add_ports tag (map print (filter (\<lambda>a. \<not> isLoopbackAddr a) addrs)) g) (\<lambda>g1. Inr (True, g1))"
  using assms
proof (induction addrs arbitrary: g)
  case (Cons a addrs)
  then show ?case
    by (cases "addKeyValue ''TargetAddress'' (print a @ '','' @ tag) g") (auto simp: nic_entry_def)
qed simp

text \<open>C18. A text request for \<^verbatim>\<open>SendTargets\<close> is answered from the configuration: the name is the configured
  target name, and the addresses are the configured target ports in their order, each with the portal group tag of
  the session; for a single wildcard port they are the addresses of the interfaces other than the loopback, with
  the port of the wildcard.\<close>

theorem send_targets_of_configuration:
  assumes "port_table ports cf" and "ports \<noteq> []" and "config_getAttr_string ''GlobalTargetName'' cf = Inr (Some name)"
    and "wildcard sys ports \<longrightarrow>
      getNICaddrs sys ns (ss_family (snd (getSockAddr sys (hd ports) fresh_address))) = Some (Some addrs) \<and>
      (\<forall>a \<in> set addrs. \<not> isLoopbackAddr a \<longrightarrow> getAddrPortStr2 sys (setPort a (getPort sys (hd ports))) = Inr (print a))"
  shows "SendTargets_handle (configured_environment sys ns probe cf libs) s g =
    exec_bind (addKeyValue ''TargetName'' name g) (\<lambda>g1.
    exec_bind (add_ports (env_show libs (unat (ses_tag s))) (announced sys ports print addrs) g1) (\<lambda>g2. Inr (True, g2)))"
proof (cases "wildcard sys ports")
  case True
  then obtain p where p: "ports = [p]" "isAnyAddr sys p"
    by (auto simp: wildcard_def length_Suc_conv)
  show ?thesis
    using assms(3,4) True p target_port_list_is[OF assms(1,2), of sys] add_nics_printed[of addrs sys "getPort sys p" print]
    by (simp add: SendTargets_handle_def configured_environment_def SendTargets_nics_def announced_def Let_def)
next
  case False
  have env: "env_ports (configured_environment sys ns probe cf libs) = ports"
    "env_config (configured_environment sys ns probe cf libs) ''GlobalTargetName'' = Some name"
    "env_isAnyAddr (configured_environment sys ns probe cf libs) = isAnyAddr sys"
    "env_show (configured_environment sys ns probe cf libs) = env_show libs"
    using assms(3) target_port_list_is[OF assms(1,2), of sys] by (simp_all add: configured_environment_def)
  show ?thesis
    using False by (cases ports; cases "tl ports") (auto simp: SendTargets_handle_def announced_def wildcard_def env Let_def)
qed

text \<open>The port survives: an address of an interface is announced with the port of the wildcard address.\<close>

lemma net_port_setPort:
  assumes "length a = 128" and "ss_family a = AF_INET \<or> ss_family a = AF_INET6"
  shows "net_port (setPort a port) = port \<and> ss_family (setPort a port) = ss_family a \<and>
    sin_addr (setPort a port) = sin_addr a \<and> sin6_addr (setPort a port) = sin6_addr a"
proof -
  have b: "unat (of_nat (unat port div 256) :: u8) = unat port div 256" "unat (of_nat (unat port mod 256) :: u8) = unat port mod 256"
    using unsigned_less[of port, where 'a = nat] by (simp_all add: unat_of_nat take_bit_nat_eq_self)
  have at: "byte (setPort a port) i = (if i = 2 then of_nat (unat port div 256)
      else if i = 3 then of_nat (unat port mod 256) else byte a i)" for i
    using assms by (auto simp: byte_def setPort_def)
  show ?thesis
    by (simp add: net_port_def ss_family_def sin_addr_def sin6_addr_def at b)
qed

text \<open>Reading the list of the kernel line by line.\<close>

lemma getline_lines:
  fixes doc :: string
  defines "s \<equiv> \<lparr>is_rest = doc, is_eof = False, is_fail = False\<rparr>" and "line \<equiv> takeWhile (\<lambda>c. c \<noteq> NL) doc"
  shows "n \<le> length line \<Longrightarrow> \<exists>buf s'. getline n s = (buf, s') \<and> is_fail s' \<and> \<not> is_eof s'"
    and "length line < n \<Longrightarrow> NL \<in> set doc \<Longrightarrow> getline n s = (line, s\<lparr>is_rest := tl (dropWhile (\<lambda>c. c \<noteq> NL) doc)\<rparr>)"
    and "length line < n \<Longrightarrow> NL \<notin> set doc \<Longrightarrow> \<exists>s'. getline n s = (doc, s') \<and> is_eof s'"
    and "NL \<in> set doc \<Longrightarrow> lines_of doc = line # lines_of (tl (dropWhile (\<lambda>c. c \<noteq> NL) doc))"
    and "NL \<notin> set doc \<Longrightarrow> line = doc \<and> lines_of doc = [doc]"
    and "line \<in> set (lines_of doc)"
proof -
  show "n \<le> length line \<Longrightarrow> \<exists>buf s'. getline n s = (buf, s') \<and> is_fail s' \<and> \<not> is_eof s'"
    "length line < n \<Longrightarrow> NL \<in> set doc \<Longrightarrow> getline n s = (line, s\<lparr>is_rest := tl (dropWhile (\<lambda>c. c \<noteq> NL) doc)\<rparr>)"
    by (auto simp: getline_def s_def line_def Let_def dropWhile_eq_Nil_conv)
  show last: "NL \<notin> set doc \<Longrightarrow> line = doc \<and> lines_of doc = [doc]"
    by (subst lines_of.simps) (auto simp: line_def takeWhile_eq_all_conv)
  then show "length line < n \<Longrightarrow> NL \<notin> set doc \<Longrightarrow> \<exists>s'. getline n s = (doc, s') \<and> is_eof s'"
    using dropWhile_eq_Nil_conv[of "\<lambda>c. c \<noteq> NL" doc] by (auto simp: getline_def s_def line_def Let_def)
  show more: "NL \<in> set doc \<Longrightarrow> lines_of doc = line # lines_of (tl (dropWhile (\<lambda>c. c \<noteq> NL) doc))"
    by (subst lines_of.simps) (simp add: line_def)
  show "line \<in> set (lines_of doc)"
    using last more by (cases "NL \<in> set doc") auto
qed

lemma v6_loop_failed:
  assumes "v6_loop ns s addrs = Some res"
  shows "\<not> (is_fail s \<and> \<not> is_eof s)"
proof (rule v6_loop.raw_induct[OF _ assms, of "\<lambda>ns s addrs res. \<not> (is_fail s \<and> \<not> is_eof s)"])
  fix loop ns s addrs res
  assume IH: "\<And>ns s addrs res. loop ns s addrs = Some res \<Longrightarrow> \<not> (is_fail s \<and> \<not> is_eof s)"
    and step: "(if is_eof s then Some addrs
      else let (buf, s') = getline MAX_CHAR_PER_LINE s; a = address6 ns (c_str buf)
           in loop ns s' (if IN6_IS_ADDR_UNSPECIFIED a then addrs else addrs @ [a])) = Some res"
  show "\<not> (is_fail s \<and> \<not> is_eof s)"
    using step IH[where s = "s\<lparr>is_fail := True\<rparr>"] by (fastforce simp: getline_def Let_def)
qed

definition specified :: "interfaces \<Rightarrow> string \<Rightarrow> u8 list list" where
  "specified ns line =
     (let a = address6 ns (c_str line) in if IN6_IS_ADDR_UNSPECIFIED a then [] else [a])"

lemma v6_loop_lines:
  "v6_loop ns \<lparr>is_rest = doc, is_eof = False, is_fail = False\<rparr> addrs =
    (if \<forall>l \<in> set (lines_of doc). length l < MAX_CHAR_PER_LINE
     then Some (addrs @ concat (map (specified ns) (lines_of doc))) else None)"
proof (induction doc arbitrary: addrs rule: lines_of.induct)
  case (1 doc)
  note lines = getline_lines[where doc = doc]
  have step: "v6_loop ns \<lparr>is_rest = doc, is_eof = False, is_fail = False\<rparr> addrs =
      (let (buf, s') = getline MAX_CHAR_PER_LINE \<lparr>is_rest = doc, is_eof = False, is_fail = False\<rparr>
       in v6_loop ns s' (addrs @ specified ns buf))"
    by (subst v6_loop.simps) (simp add: specified_def Let_def split: prod.split)
  show ?case
  proof (cases "MAX_CHAR_PER_LINE \<le> length (takeWhile (\<lambda>c. c \<noteq> NL) doc)")
    case True
    with lines(1)[where n = MAX_CHAR_PER_LINE] obtain buf s'
      where get: "getline MAX_CHAR_PER_LINE \<lparr>is_rest = doc, is_eof = False, is_fail = False\<rparr> = (buf, s')"
        "is_fail s' \<and> \<not> is_eof s'"
      by blast
    then have "v6_loop ns s' (addrs @ specified ns buf) = None"
      using v6_loop_failed[of ns s' "addrs @ specified ns buf"] by (cases "v6_loop ns s' (addrs @ specified ns buf)") auto
    then show ?thesis
      using step get(1) lines(6) True by (auto simp: not_less)
  next
    case short: False
    show ?thesis
    proof (cases "NL \<in> set doc")
      case True
      then show ?thesis
        using step lines(2)[where n = MAX_CHAR_PER_LINE] lines(4) 1[OF True] short by simp
    next
      case False
      then have short': "length doc < MAX_CHAR_PER_LINE"
        using lines(5)[OF False] short by (metis not_le)
      from False lines(3)[where n = MAX_CHAR_PER_LINE] short obtain s'
        where get: "getline MAX_CHAR_PER_LINE \<lparr>is_rest = doc, is_eof = False, is_fail = False\<rparr> = (doc, s')" "is_eof s'"
        by (auto simp: not_le)
      then show ?thesis
        using step lines(5) False short' by (simp add: v6_loop.simps)
    qed
  qed
qed

text \<open>The enumeration of IPv6 addresses returns exactly when the list of the kernel can be opened and each of its
  lines fits the buffer; then it gives the specified addresses of the lines in their order. Otherwise the stream
  has failed without being at its end, and the loop never ends.\<close>

lemma interface_enumeration_returns:
  "getNICv6Addrs sys ns =
    (case sys_files sys ''/proc/net/if_inet6'' of
       None \<Rightarrow> None
     | Some doc \<Rightarrow>
         if \<forall>l \<in> set (lines_of doc). length l < MAX_CHAR_PER_LINE
         then Some (concat (map (specified ns) (lines_of doc))) else None)"
proof (cases "sys_files sys ''/proc/net/if_inet6''")
  case None
  then show ?thesis
    using v6_loop_failed[of ns "\<lparr>is_rest = [], is_eof = False, is_fail = True\<rparr>" "[]"]
    by (cases "v6_loop ns \<lparr>is_rest = [], is_eof = False, is_fail = True\<rparr> []") (auto simp: getNICv6Addrs_def)
qed (simp add: getNICv6Addrs_def v6_loop_lines)


section \<open>A host with one interface besides the loopback\<close>

definition ex_host :: system where
  "ex_host = ex_system\<lparr>sys_getaddrinfo := \<lambda>_ _. Some ([2, 0, 12, 188] @ replicate 12 0),
     sys_getnameinfo := \<lambda>a. Inr (''10.0.0.1'', if net_port a = 3260 then ''3260'' else ''0'')\<rparr>"

definition ex_interfaces :: interfaces where
  "ex_interfaces = \<lparr>ns_ifconf = Some [''lo'', ''eth0''],
     ns_ifaddr = (\<lambda>n. Some ([2, 0, 0, 0] @ (if n = ''lo'' then [127, 0, 0, 1] else [10, 0, 0, 1]) @ replicate 8 0)),
     ns_behind = replicate 100 0\<rparr>"

definition ex_config :: config where
  "ex_config = \<lparr>cf_root = objectValue [(''GlobalTargetName'', stringValue ''t''),
     (''TargetPort'', json_list [stringValue DEFAULT_TARGETPORT])], cf_cmdargs = nullValue, cf_defaults = []\<rparr>"

lemma ex_config_ports: "port_table [DEFAULT_TARGETPORT] ex_config"
proof -
  have "''GlobalTargetName'' < (''TargetPort'' :: string)" "c_str ''TargetPort'' = ''TargetPort''"
    by code_simp+
  then show ?thesis
    unfolding port_table_def target_ports.holds_def
    by (auto simp: ex_config_def table_value_def asString_def object_slot_def slot_def intro!: exI[of _ "[stringValue DEFAULT_TARGETPORT]"])
qed

lemma send_targets_of_configuration_witness:
  "\<forall>probe libs s g. SendTargets_handle (configured_environment ex_host ex_interfaces probe ex_config libs) s g =
    exec_bind (addKeyValue ''TargetName'' ''t'' g) (\<lambda>g1.
    exec_bind (add_ports (env_show libs (unat (ses_tag s))) [''10.0.0.1:3260''] g1) (\<lambda>g2. Inr (True, g2)))"
proof -
  let ?addrs = "[[2, 0, 0, 0, 127, 0, 0, 1] @ replicate 120 0, [2, 0, 0, 0, 10, 0, 0, 1] @ replicate 120 (0::u8)]"
  have name: "config_getAttr_string ''GlobalTargetName'' ex_config = Inr (Some ''t'')"
    by code_simp
  have any: "wildcard ex_host [DEFAULT_TARGETPORT]"
    by code_simp
  have nics: "getNICaddrs ex_host ex_interfaces (ss_family (snd (getSockAddr ex_host DEFAULT_TARGETPORT fresh_address))) = Some (Some ?addrs)"
    by code_simp
  have loopback: "map isLoopbackAddr ?addrs = [True, False]"
    by code_simp
  have printed: "getAddrPortStr2 ex_host (setPort (?addrs ! 1) (getPort ex_host DEFAULT_TARGETPORT)) = Inr ''10.0.0.1:3260''"
    by code_simp
  have "announced ex_host [DEFAULT_TARGETPORT] (\<lambda>_. ''10.0.0.1:3260'') ?addrs = [''10.0.0.1:3260'']"
    using any loopback by (simp add: announced_def)
  then show ?thesis
    using send_targets_of_configuration[OF ex_config_ports _ name, of ex_host ex_interfaces ?addrs "\<lambda>_. ''10.0.0.1:3260''"]
      any nics loopback printed
    by simp
qed

end
