(* ===== verification/Spec2Isabelle.thy ===== *)
theory Spec2Isabelle
  imports Aio_Order Json_Roundtrip Config_Session Event_Correct Inet_Correct
begin

text \<open>
  A verification library for \<^bold>\<open>sstoraged\<close>, an iSCSI target daemon in C++: initiators log in over TCP,
  send SCSI commands in PDUs, and the daemon serves the blocks of logical volumes that are
  concatenated from files. This theory only collects the others and documents them.

  \<^bold>\<open>How the program works, and where it is modelled.\<close>

  \<^item> \<^emph>\<open>Storage.\<close> A write is put into the write cache of its logical unit and acknowledged; a disk writer
    drains the cache to the files; a read takes cached blocks from the cache and the others from the
    files. \<open>WriteCache\<close> models \<^verbatim>\<open>include/writecache.h\<close> and \<^verbatim>\<open>src/writecache.cpp\<close>: the container with its
    three indices is a store of segments, the queue and the address index. \<open>Volume\<close> models
    \<^verbatim>\<open>src/volume.cpp\<close> (physical and logical volumes, \<^verbatim>\<open>getLowHandles\<close>), \<open>DiskWriter\<close> and \<open>Writers\<close> model
    the synchronous writer of \<^verbatim>\<open>src/diskwriter.cpp\<close> and \<^verbatim>\<open>setupWriters\<close> of \<^verbatim>\<open>src/reactor.cpp\<close>, \<open>AioWriter\<close>
    the asynchronous one that the reactors really create: its two threads and the kernel take turns in
    whole rounds, \<^verbatim>\<open>io_submit\<close> accepts every request and a request is carried out completely.
  \<^item> \<^emph>\<open>Buffers and bytes.\<close> \<open>Counters\<close> (\<^verbatim>\<open>include/counter.h\<close>, \<^verbatim>\<open>limitter.h\<close>, \<^verbatim>\<open>info.h\<close>), \<open>Buffers\<close>
    (\<^verbatim>\<open>ioveccontainer\<close>), \<open>ByteOrder\<close>, \<open>Headers\<close> (the structs of \<^verbatim>\<open>include/iscsi\<close>, one record each, with
    their overlay on bytes), \<open>Protocol\<close> (parsers and generators of PDUs), \<open>Tokenizer\<close> (cutting the
    receive buffers into PDUs).
  \<^item> \<^emph>\<open>Sessions.\<close> \<open>Session\<close> models the record of \<^verbatim>\<open>include/session.h\<close> with its tables, sequence numbers
    and send queue; \<open>SendTasks\<close> the tasks of \<^verbatim>\<open>src/send.cpp\<close>, \<^verbatim>\<open>sendcache.cpp\<close> and \<^verbatim>\<open>sendfile.cpp\<close>.
    \<open>ScsiRead\<close>, \<open>ScsiWrite\<close>, \<open>ScsiInfo\<close> model the handlers of \<^verbatim>\<open>src/scsi\<close> and Data-Out; \<open>Handlers\<close> those
    of the other PDUs of \<^verbatim>\<open>src/iscsi\<close>.
  \<^item> \<^emph>\<open>Login.\<close> \<open>KeyValue\<close> (\<^verbatim>\<open>keyvalue.cpp\<close>, \<^verbatim>\<open>validator.h\<close>) and \<open>Login\<close> (\<^verbatim>\<open>login.cpp\<close>, \<^verbatim>\<open>text.cpp\<close>).
  \<^item> \<^emph>\<open>The daemon.\<close> \<open>Manager\<close> models the state the threads share, the record \<open>world\<close>: sessions in a store,
    the manager's table of sessions, the list of reactors, the poll loop each socket belongs to
    (\<^verbatim>\<open>manager.cpp\<close>, \<^verbatim>\<open>reactor.cpp\<close>, \<^verbatim>\<open>acceptor.cpp\<close>, \<^verbatim>\<open>task.cpp\<close>). \<open>Dispatch\<close> models receiving, the
    dispatch of PDUs and sending of \<^verbatim>\<open>src/session.cpp\<close>. \<open>EventLoop\<close> models the loops that call them: ports by
    number and the open sockets (\<^verbatim>\<open>port.cpp\<close>), select loops with their vectors and descriptor sets
    (\<^verbatim>\<open>loop.h\<close>, \<^verbatim>\<open>loop.cpp\<close>), connections that move between loops (\<^verbatim>\<open>connection.cpp\<close>), the acceptor, and the
    flags and turns of \<^verbatim>\<open>signallistener.cpp\<close>. What a handler does is a parameter of a pass over the ports, and
    \<open>serve\<close> gives the handlers of the daemon. \<open>InetUtils\<close> models the address helpers and the list of network
    interfaces of \<^verbatim>\<open>inetutils.h\<close>, and with them SendTargets.

  \<^item> \<^emph>\<open>Configuration.\<close> \<open>Json\<close>, \<open>JsonReader\<close>, \<open>JsonWriter\<close> model \<^verbatim>\<open>src/json\<close>: a tree of values, whose assertions
    are the fault \<open>Abort\<close>, the reader with its error recovery and messages, and the styled writer.
    \<open>Config\<close> models the configurator, its defaults and getters, the validators, the configuration file and
    the command line; \<open>ConfigTables\<close> the template \<^verbatim>\<open>TaggedConfigurator\<close> over an array of the tree, where a
    reference into the tree is a path and a non-const access creates what it looks at; \<open>ConfigInfos\<close> and
    \<open>ConfigVolumes\<close> the entries, the check of the whole configuration and \<^verbatim>\<open>readConfig\<close> of \<^verbatim>\<open>src/main.cpp\<close>.
    \<open>Config_Session\<close> models what is made out of it: the constructors of sessions, initiators and volumes.

  \<^bold>\<open>What is proved.\<close>

  \<^item> \<open>WriteCache_Inv\<close>, \<open>WriteCache_Push\<close>, \<open>WriteCache_Drain\<close>: the cache keeps its live ranges disjoint and
    its index ordered, a push overwrites exactly its range of the abstract view, a pop removes exactly
    its segment, the queue is walked in order. This is for pushes that are safe (\<open>wc_safe\<close>): a segment that is
    split has not been cut before and its data start its buffer, and cutting a head keeps the order of the index.
    Writes of one size at multiples of it are always safe; \<open>wc_split_loses_blocks\<close>, \<open>wc_split_resets_offset\<close>
    and \<open>wc_index_order_broken\<close> show what the code does for others.
    \<open>DiskWriter_Correct\<close>, \<open>Writers\<close>: inside the locale \<open>extents\<close> the drain loop paints the pending segments
    onto the volume; the handle map of \<^verbatim>\<open>setupWriters\<close> is an interpretation of it. \<open>Storage_Correct\<close> joins
    the two: for runs of safe pushes (\<open>safe_writes\<close>), cache and writer refine a flat disk. \<open>Aio_Correct\<close>, \<open>Aio_Order\<close>: the asynchronous writer counts
    exactly and writes everything, for writes of one size and a kernel that accepts and completes every request,
    and what it loses when requests overlap or complete out of order.
  \<^item> \<open>Counters\<close>, \<open>Buffers\<close>, \<open>Protocol\<close>, \<open>Tokenizer\<close>, \<open>SendTasks\<close>: bounds and wrap-around, index arithmetic
    of the buffers, round trips of PDU fields, data segments that are split over buffers, and send loops
    that lose, repeat and reorder nothing (locale \<open>stepper\<close>, interpreted for both kinds of task).
  \<^item> \<open>Session\<close>, \<open>ScsiRead\<close>, \<open>ScsiWrite\<close>, \<open>Commands_Correct\<close>: the tables of a session (locale \<open>table\<close>), the
    command window, what READ sends, what a sequence of Data-Out PDUs stores, and the bytes, lengths
    and memory accesses of the information commands.
  \<^item> \<open>Command_Frame\<close>, \<open>Session_Frame\<close>: what a SCSI command, and the handling of any PDU, leaves alone.
  \<^item> \<open>KeyValue_Correct\<close>, \<open>Login_Correct\<close>: text keys are parsed as a reference loop does and survive a round
    trip; validated keys never break the program; what a login negotiates and installs; the logins
    that do break the program.
  \<^item> \<open>Json_Correct\<close>, \<open>Json_Rendering\<close>, \<open>Json_Roundtrip\<close>: the reader returns on every document, reads every
    rendering of a tree, and reads back what the writer wrote; the numbers and strings for which it does not.
  \<^item> \<open>Config_Correct\<close>, \<open>Config_Frame\<close>, \<open>Config_Accepted\<close>: for which files reading returns, which initiators make
    the check abort, that the check leaves the attributes outside the tables alone (locale \<open>framed_entry\<close>,
    interpreted for every kind of entry), and what an accepted configuration guarantees, up to the numbers of the
    sessions made from it (\<open>Config_Session\<close>). \<open>Config_Table\<close>: a table of the tree refines a list (locale
    \<open>stored_entry\<close>, interpreted for target ports, LUNs and targets), on which \<open>Inet_Correct\<close> computes what SendTargets announces.
  \<^item> \<open>Dispatch_Correct\<close>: the step relation \<open>world_step\<close> of the daemon with its invariant, the order in
    which PDUs are handled, the hand-over of connections to reactors, and how it fails. \<open>Event_Correct\<close>: the loops
    implement the table of listeners that \<open>Manager\<close> keeps, termination signals end every loop, and two ways in
    which a pass over the ports goes wrong.

  \<^bold>\<open>Modelling conventions.\<close> Machine integers are words where wrap-around can happen, and naturals with
  \<open>add64\<close>, \<open>sub64\<close>, \<open>sub32\<close> or \<open>mod\<close> written out where they index memory. Memory that the code does not
  initialise is a parameter (\<open>junk\<close>, \<open>mem\<close>). An exception, a null pointer, an access outside a buffer and
  an endless loop are results: \<open>option\<close>, \<open>dw_result\<close> or \<open>abort\<close>. Loops are structural recursion,
  \<open>function\<close> with a measure, \<open>partial_function (option)\<close> for the loops of READ and \<open>while\<close> for the command
  window, of which \<open>advanceCMDSNs_hangs\<close> shows that it need not end. Three things have
  fuel: \<open>wc_skip_copies\<close> the length of the queue plus one, one more than it has elements to skip; the reader
  of JSON twice the length of the document plus one, which \<open>reader_terminates\<close> shows to be enough; and the
  loops over a table of the configuration its size, since each step moves the index on.
  The operating system is a list of answers, one per call, or a function that says what a call does;
  that such a list is long enough is proved (\<open>doWork_returns\<close>), not assumed.

  \<^bold>\<open>Parameters\<close> stand for what is not in the sources: the positions that Boost's ordered index chooses
  (locale \<open>ordered_index\<close>, interpreted by the standard search), \<^verbatim>\<open>boost::regex\<close>, \<^verbatim>\<open>lexical_cast\<close> and the
  configuration (record \<open>environment\<close>), file opening, socket and file results, and the order of heap
  addresses that \<^verbatim>\<open>std::list::merge\<close> uses. Threads take turns between whole events, which is what the
  mutexes of the cache give; data races on unlocked state are not modelled.

  \<^bold>\<open>Not modelled.\<close> The creation of threads, and of \<^verbatim>\<open>main\<close> the opening of the ports, the daemon mode and the PID
  file. In \<open>accept_handler\<close> setting a new socket to non-blocking mode and making the text for the log do not
  throw; both are modelled on their own (\<open>NonBlockingPort_accepted\<close>, \<open>getAddrPortStr\<close>). \<open>lp_moved\<close> of a loop counts
  the operations that invalidate iterators and is not a variable of the code. A loop of the code that would fill
  the memory is one that does not return. \<^verbatim>\<open>PollLoop\<close> has no body.
  Of the JSON library what the program does not use: the internal map and array (not compiled in),
  iterators, \<^verbatim>\<open>Path\<close>, \<^verbatim>\<open>FastWriter\<close>, and comments attached to values. The logger, the octet dumps and the
  unit tests have no effect on the state.
\<close>

end
